(* ===== verification/Prelude.thy ===== *)
theory Prelude
  imports Main "HOL-Library.Word" "HOL-Library.List_Lexorder" "HOL-Library.Char_ord"
begin

text \<open>
  Shared vocabulary of the development: the 64-bit counters of the Rust sources with their
  checked and saturating operations, \<^verbatim>\<open>BTreeMap\<close> as an association list sorted by key, the
  \<^verbatim>\<open>Result\<close> type, and the small language of effectful actions in which every handler of
  \<^verbatim>\<open>raft-core\<close> is written.  An action takes the node, may panic (\<open>None\<close>), and otherwise
  returns the new node with the effects it pushed, in order.  The locale \<open>effect_relation\<close>
  is the interface between those handlers and the properties proved of them: a relation
  between the state before, the state after and the pushed effects that is closed under
  sequencing holds of every block of actions as soon as it holds of each of them.
\<close>

section \<open>Collections of lemmas\<close>

named_theorems keeps_intros \<open>actions that respect an effect relation\<close>
named_theorems quiet_updates \<open>updates of a node that leave its protocol state alone\<close>

section \<open>Unsigned 64-bit counters\<close>

text \<open>
  Terms, indices and logical clocks are \<^verbatim>\<open>u64\<close>.  They are natural numbers here; the sources
  never let them wrap: every addition that could overflow is one of the operations below.
\<close>

definition u64_max :: nat where
  "u64_max = 18446744073709551615"

definition checked_add :: "nat \<Rightarrow> nat \<Rightarrow> nat option" where
  "checked_add a b = (if a + b \<le> u64_max then Some (a + b) else None)"

definition checked_sub :: "nat \<Rightarrow> nat \<Rightarrow> nat option" where
  "checked_sub a b = (if b \<le> a then Some (a - b) else None)"

definition saturating_add :: "nat \<Rightarrow> nat \<Rightarrow> nat" where
  "saturating_add a b = min (a + b) u64_max"

definition saturating_sub :: "nat \<Rightarrow> nat \<Rightarrow> nat" where
  "saturating_sub a b = a - b"

lemma checked_add_Some [simp]: "checked_add a b = Some c \<longleftrightarrow> c = a + b \<and> a + b \<le> u64_max"
  by (auto simp: checked_add_def)

lemma checked_add_None [simp]: "checked_add a b = None \<longleftrightarrow> u64_max < a + b"
  by (auto simp: checked_add_def)

lemma checked_sub_Some [simp]: "checked_sub a b = Some c \<longleftrightarrow> b \<le> a \<and> c = a - b"
  by (auto simp: checked_sub_def)

lemma saturating_add_le [simp]: "saturating_add a b \<le> u64_max"
  by (simp add: saturating_add_def)

lemma saturating_add_exact: "a + b \<le> u64_max \<Longrightarrow> saturating_add a b = a + b"
  by (simp add: saturating_add_def)

section \<open>Bytes\<close>

type_synonym byte = "8 word"

section \<open>Results\<close>

text \<open>\<^verbatim>\<open>Result<T, String>\<close>: \<open>Inl\<close> is the error, \<open>Inr\<close> the value.\<close>

type_synonym 'a fallible = "string + 'a"

definition rbind :: "'e + 'a \<Rightarrow> ('a \<Rightarrow> 'e + 'b) \<Rightarrow> 'e + 'b" where
  "rbind r k = (case r of Inl e \<Rightarrow> Inl e | Inr x \<Rightarrow> k x)"

definition is_ok :: "'e + 'a \<Rightarrow> bool" where
  "is_ok r = (case r of Inl _ \<Rightarrow> False | Inr _ \<Rightarrow> True)"

lemma rbind_simps [simp]: "rbind (Inl e) k = Inl e" "rbind (Inr x) k = k x"
  by (simp_all add: rbind_def)

lemma rbind_Inr_iff: "rbind r k = Inr y \<longleftrightarrow> (\<exists>x. r = Inr x \<and> k x = Inr y)"
  by (cases r) auto

lemma is_ok_simps [simp]: "is_ok (Inr x)" "\<not> is_ok (Inl e)"
  by (simp_all add: is_ok_def)

lemma is_ok_iff: "is_ok r \<longleftrightarrow> (\<exists>x. r = Inr x)"
  by (cases r) auto

section \<open>BTreeMap as a sorted association list\<close>

text \<open>
  A \<^verbatim>\<open>BTreeMap\<close> iterates in key order and compares by contents.  The sorted association
  list is its canonical form: iteration is the list, equality is list equality.
\<close>

type_synonym ('k, 'v) btree = "('k \<times> 'v) list"

abbreviation bt_get :: "('k, 'v) btree \<Rightarrow> 'k \<Rightarrow> 'v option" where
  "bt_get \<equiv> map_of"

fun bt_insert :: "'k::linorder \<Rightarrow> 'v \<Rightarrow> ('k, 'v) btree \<Rightarrow> ('k, 'v) btree" where
  "bt_insert k v [] = [(k, v)]"
| "bt_insert k v ((k', v') # m) =
     (if k < k' then (k, v) # (k', v') # m
      else if k = k' then (k, v) # m
      else (k', v') # bt_insert k v m)"

definition bt_remove :: "'k \<Rightarrow> ('k, 'v) btree \<Rightarrow> ('k, 'v) btree" where
  "bt_remove k m = filter (\<lambda>p. fst p \<noteq> k) m"

definition bt_retain :: "('k \<Rightarrow> bool) \<Rightarrow> ('k, 'v) btree \<Rightarrow> ('k, 'v) btree" where
  "bt_retain P m = filter (\<lambda>p. P (fst p)) m"

definition bt_contains :: "'k \<Rightarrow> ('k, 'v) btree \<Rightarrow> bool" where
  "bt_contains k m = (bt_get m k \<noteq> None)"

definition bt_keys :: "('k, 'v) btree \<Rightarrow> 'k list" where
  "bt_keys m = map fst m"

definition bt_or_insert :: "'k::linorder \<Rightarrow> 'v \<Rightarrow> ('k, 'v) btree \<Rightarrow> ('k, 'v) btree" where
  "bt_or_insert k v m = (if bt_contains k m then m else bt_insert k v m)"

definition bt_sorted :: "('k::linorder, 'v) btree \<Rightarrow> bool" where
  "bt_sorted m = sorted_wrt (<) (map fst m)"

lemma set_bt_insert_keys: "set (map fst (bt_insert k v m)) = insert k (set (map fst m))"
  by (induction k v m rule: bt_insert.induct) auto

lemma bt_get_remove: "bt_get (bt_remove k m) k' = (if k' = k then None else bt_get m k')"
  by (induction m) (auto simp: bt_remove_def)

lemma bt_get_retain: "bt_get (bt_retain P m) k = (if P k then bt_get m k else None)"
  by (induction m) (auto simp: bt_retain_def)

lemma bt_sorted_insert: "bt_sorted m \<Longrightarrow> bt_sorted (bt_insert k v m)"
  unfolding bt_sorted_def
proof (induction k v m rule: bt_insert.induct)
  case (2 k v k' v' m)
  then show ?case
    using set_bt_insert_keys [of k v m] by (auto dest: less_trans)
qed simp

lemma bt_sorted_filter: "bt_sorted m \<Longrightarrow> bt_sorted (filter P m)"
  unfolding bt_sorted_def by (induction m) auto

lemma bt_sorted_remove: "bt_sorted m \<Longrightarrow> bt_sorted (bt_remove k m)"
  by (simp add: bt_remove_def bt_sorted_filter)

lemma bt_get_insert: "bt_get (bt_insert k v m) k' = (if k' = k then Some v else bt_get m k')"
  by (induction k v m rule: bt_insert.induct) auto

lemma bt_get_or_insert:
  "bt_get (bt_or_insert k v m) k' = (if k' = k \<and> bt_get m k = None then Some v else bt_get m k')"
  by (auto simp: bt_or_insert_def bt_contains_def bt_get_insert)

text \<open>
  The contract of an ordered map, as the clients of \<^verbatim>\<open>BTreeMap\<close> rely on it: what a lookup
  returns after each update, and that every update keeps the canonical form.
\<close>

locale ordered_map =
  fixes get :: "'m \<Rightarrow> 'k::linorder \<Rightarrow> 'v option"
    and put :: "'k \<Rightarrow> 'v \<Rightarrow> 'm \<Rightarrow> 'm"
    and del :: "'k \<Rightarrow> 'm \<Rightarrow> 'm"
    and empty :: 'm
    and canonical :: "'m \<Rightarrow> bool"
  assumes get_empty: "get empty k = None"
    and get_put: "get (put k v m) k' = (if k' = k then Some v else get m k')"
    and get_del: "get (del k m) k' = (if k' = k then None else get m k')"
    and canonical_empty: "canonical empty"
    and canonical_put: "canonical m \<Longrightarrow> canonical (put k v m)"
    and canonical_del: "canonical m \<Longrightarrow> canonical (del k m)"
    and canonical_ext: "canonical m \<Longrightarrow> canonical m' \<Longrightarrow> (\<And>k. get m k = get m' k) \<Longrightarrow> m = m'"
begin

lemma put_put: "canonical m \<Longrightarrow> put k v (put k w m) = put k v m"
  by (rule canonical_ext) (simp_all add: canonical_put get_put)

lemma put_comm: "canonical m \<Longrightarrow> k \<noteq> k' \<Longrightarrow> put k v (put k' w m) = put k' w (put k v m)"
  by (rule canonical_ext) (auto simp: canonical_put get_put)

lemma put_same: "canonical m \<Longrightarrow> get m k = Some v \<Longrightarrow> put k v m = m"
  by (rule canonical_ext) (auto simp: canonical_put get_put)

lemma del_put: "canonical m \<Longrightarrow> get m k = None \<Longrightarrow> del k (put k v m) = m"
  by (rule canonical_ext) (auto simp: canonical_put canonical_del get_put get_del)

end

lemma bt_sorted_distinct: "bt_sorted m \<Longrightarrow> distinct (map fst m)"
  by (simp add: bt_sorted_def strict_sorted_iff)

lemma bt_sorted_Cons: "bt_sorted ((k, v) # m) \<longleftrightarrow> (\<forall>k' \<in> set (map fst m). k < k') \<and> bt_sorted m"
  by (auto simp: bt_sorted_def)

lemma bt_sorted_head_None: "bt_sorted ((k, v) # m) \<Longrightarrow> k' \<le> k \<Longrightarrow> bt_get m k' = None"
  by (force simp: bt_sorted_Cons map_of_eq_None_iff)

lemma bt_sorted_ext:
  assumes "bt_sorted m" and "bt_sorted m'" and "\<And>k. bt_get m k = bt_get m' k"
  shows "m = m'"
  using assms
proof (induction m arbitrary: m')
  case Nil
  then show ?case by (cases m') (auto split: if_splits, metis option.distinct(1))
next
  case (Cons p m)
  obtain k v where p: "p = (k, v)" by force
  have "bt_get m' k = Some v" using Cons.prems(3) [of k] p by simp
  then obtain k' v' m'' where m': "m' = (k', v') # m''" by (cases m') auto
  have "bt_get m'' k = None" if "k < k'"
    using bt_sorted_head_None [of k' v' m'' k] Cons.prems(2) m' that by simp
  then have "\<not> k < k'"
    using m' \<open>bt_get m' k = Some v\<close> by (auto split: if_splits)
  moreover have "bt_get m k' = None" if "k' < k"
    using bt_sorted_head_None [of k v m k'] Cons.prems(1) p that by simp
  then have "\<not> k' < k"
    using Cons.prems(3) [of k'] m' p by (auto split: if_splits)
  ultimately have kk: "k' = k" by simp
  have vv: "v' = v" using Cons.prems(3) [of k] p m' kk by simp
  have "bt_get m x = bt_get m'' x" for x
    using Cons.prems(3) [of x] p m' kk
      bt_sorted_head_None [of k v m k] bt_sorted_head_None [of k' v' m'' k] Cons.prems(1,2)
    by (auto split: if_splits)
  with Cons.IH [of m''] Cons.prems(1,2) p m' kk vv show ?case by (simp add: bt_sorted_Cons)
qed

interpretation bt: ordered_map bt_get bt_insert bt_remove "[]" bt_sorted
  by unfold_locales
    (auto simp: bt_get_insert bt_get_remove bt_sorted_insert bt_sorted_remove bt_sorted_def [of "[]"]
      intro: bt_sorted_ext)

section \<open>Actions\<close>

text \<open>
  A handler of the sources takes \<^verbatim>\<open>&mut self\<close> and an effect vector it only ever pushes to.
  An action is that: the node before, \<open>None\<close> for a panic, otherwise the node after together
  with the effects pushed.  \<open>run\<close> is a block of statements, \<open>for_each\<close> a \<^verbatim>\<open>for\<close> loop.
\<close>

type_synonym ('s, 'e) outcome = "('s \<times> 'e list) option"
type_synonym ('s, 'e) act = "'s \<Rightarrow> ('s, 'e) outcome"

definition skip :: "('s, 'e) act" where
  "skip s = Some (s, [])"

definition panic :: "('s, 'e) act" where
  "panic s = None"

definition push :: "'e \<Rightarrow> ('s, 'e) act" where
  "push e s = Some (s, [e])"

definition push_all :: "'e list \<Rightarrow> ('s, 'e) act" where
  "push_all es s = Some (s, es)"

definition modify :: "('s \<Rightarrow> 's) \<Rightarrow> ('s, 'e) act" where
  "modify f s = Some (f s, [])"

definition act_seq :: "('s, 'e) act \<Rightarrow> ('s, 'e) act \<Rightarrow> ('s, 'e) act" where
  "act_seq f g s =
     (case f s of None \<Rightarrow> None
      | Some (t, es) \<Rightarrow> (case g t of None \<Rightarrow> None | Some (u, es') \<Rightarrow> Some (u, es @ es')))"

fun run :: "('s, 'e) act list \<Rightarrow> ('s, 'e) act" where
  "run [] = skip"
| "run [a] = a"
| "run (a # as) = act_seq a (run as)"

fun for_each :: "'a list \<Rightarrow> ('a \<Rightarrow> ('s, 'e) act) \<Rightarrow> ('s, 'e) act" where
  "for_each [] body = skip"
| "for_each (x # xs) body = act_seq (body x) (for_each xs body)"

lemmas act_defs = skip_def panic_def push_def push_all_def modify_def

declare run.simps [simp del] for_each.simps [simp del]

lemma act_seq_Some_iff:
  "act_seq f g s = Some (u, es) \<longleftrightarrow>
     (\<exists>t es1 es2. f s = Some (t, es1) \<and> g t = Some (u, es2) \<and> es = es1 @ es2)"
  by (auto simp: act_seq_def split: option.splits)

lemma modify_Some [simp]: "modify f s = Some (t, es) \<longleftrightarrow> t = f s \<and> es = []"
  by (auto simp: modify_def)

lemma push_Some [simp]: "push e s = Some (t, es) \<longleftrightarrow> t = s \<and> es = [e]"
  by (auto simp: push_def)

lemma act_seq_assoc: "act_seq (act_seq f g) h = act_seq f (act_seq g h)"
  by (rule ext) (auto simp: act_seq_def split: option.splits)

lemma act_seq_skip [simp]: "act_seq skip f = f" "act_seq f skip = f"
  by (auto simp: act_seq_def skip_def fun_eq_iff split: option.splits)

lemma run_Cons: "run (a # as) = act_seq a (run as)"
  by (cases as) (simp_all add: run.simps)

lemma run_append: "run (run as # bs) = run (as @ bs)"
proof (induction as)
  case Nil
  then show ?case by (simp add: run_Cons run.simps(1))
next
  case (Cons a as)
  then show ?case by (simp add: run_Cons act_seq_assoc)
qed

lemma run_Nil_Some_iff: "run [] s = Some (u, es) \<longleftrightarrow> u = s \<and> es = []"
  by (auto simp: run.simps skip_def)

lemma run_Cons_Some_iff:
  "run (a # as) s = Some (u, es) \<longleftrightarrow>
     (\<exists>t es1 es2. a s = Some (t, es1) \<and> run as t = Some (u, es2) \<and> es = es1 @ es2)"
  by (simp add: run_Cons act_seq_Some_iff)

lemma run_Cons_None_iff:
  "run (a # as) s = None \<longleftrightarrow> a s = None \<or> (\<exists>t es1. a s = Some (t, es1) \<and> run as t = None)"
  by (auto simp: run_Cons act_seq_def split: option.splits)

lemma run_modify: "run (modify f # as) s = run as (f s)"
  by (auto simp: run_Cons act_seq_def modify_def split: option.splits)

lemma act_seq_Some: "f s = Some (t, es) \<Longrightarrow> g t = Some (u, es') \<Longrightarrow> act_seq f g s = Some (u, es @ es')"
  by (simp add: act_seq_def)

text \<open>
  \<open>keeps R P s m\<close>: the outcome \<open>m\<close> of an action started in \<open>s\<close> is either a panic that \<open>P\<close> allows
  in \<open>s\<close>, or a state and effects related to \<open>s\<close> by \<open>R\<close>.  With \<open>P\<close> everywhere true this is partial
  correctness; with \<open>P\<close> the negation of an invariant it also says that the action cannot panic.
\<close>

definition keeps :: "('s \<Rightarrow> 's \<Rightarrow> 'e list \<Rightarrow> bool) \<Rightarrow> ('s \<Rightarrow> bool) \<Rightarrow> 's \<Rightarrow> ('s, 'e) outcome \<Rightarrow> bool" where
  "keeps R P s m = (case m of None \<Rightarrow> P s | Some (t, es) \<Rightarrow> R s t es)"

lemma keepsI: "(\<And>t es. m = Some (t, es) \<Longrightarrow> R s t es) \<Longrightarrow> (m = None \<Longrightarrow> P s) \<Longrightarrow> keeps R P s m"
  by (auto simp: keeps_def split: option.splits)

lemma keepsD: "keeps R P s m \<Longrightarrow> m = Some (t, es) \<Longrightarrow> R s t es"
  by (simp add: keeps_def)

lemma keeps_NoneD: "keeps R P s m \<Longrightarrow> m = None \<Longrightarrow> P s"
  by (simp add: keeps_def)

lemma keeps_simps [simp]: "keeps R P s None = P s" "keeps R P s (Some (t, es)) = R s t es"
  by (simp_all add: keeps_def)

lemma keeps_mono:
  assumes "keeps R P s m" and "\<And>t es. R s t es \<Longrightarrow> R' s t es" and "P s \<Longrightarrow> P' s"
  shows "keeps R' P' s m"
  using assms by (auto simp: keeps_def split: option.splits)

text \<open>
  The interface between handlers and properties: a relation that holds of doing nothing and
  that composes along the concatenation of the pushed effects, and a panic condition that
  travels back along the relation.
\<close>

locale effect_relation =
  fixes R :: "'s \<Rightarrow> 's \<Rightarrow> 'e list \<Rightarrow> bool" and P :: "'s \<Rightarrow> bool"
  assumes rel_nil: "R s s []"
    and rel_append: "R s t es \<Longrightarrow> R t u es' \<Longrightarrow> R s u (es @ es')"
    and rel_panic: "R s t es \<Longrightarrow> P t \<Longrightarrow> P s"
begin

lemma keeps_skip: "keeps R P s (skip s)"
  by (simp add: skip_def rel_nil)

lemma keeps_seq:
  assumes "keeps R P s (f s)" and "\<And>t es. f s = Some (t, es) \<Longrightarrow> R s t es \<Longrightarrow> keeps R P t (g t)"
  shows "keeps R P s (act_seq f g s)"
proof (cases "f s")
  case None
  with assms(1) show ?thesis by (simp add: act_seq_def)
next
  case (Some p)
  obtain t es where p: "p = (t, es)" by force
  with Some assms have "R s t es" and "keeps R P t (g t)" by auto
  with Some p show ?thesis
    by (cases "g t") (auto simp: act_seq_def intro: rel_append rel_panic)
qed

lemma keeps_run_Cons:
  assumes "keeps R P s (a s)"
    and "\<And>t es. a s = Some (t, es) \<Longrightarrow> R s t es \<Longrightarrow> keeps R P t (run as t)"
  shows "keeps R P s (run (a # as) s)"
  unfolding run_Cons using assms by (rule keeps_seq)

lemma keeps_run_Nil: "keeps R P s (run [] s)"
  by (simp add: run.simps keeps_skip)

lemma keeps_for_each:
  assumes "\<And>x t. x \<in> set xs \<Longrightarrow> keeps R P t (body x t)"
  shows "keeps R P s (for_each xs body s)"
  using assms by (induction xs arbitrary: s) (auto simp: for_each.simps intro!: keeps_skip keeps_seq)

end

end
