(* ===== verification/Membership.thy ===== *)
theory Membership
  imports Prelude
begin

text \<open>
  \<^verbatim>\<open>raft-core/src/membership.rs\<close>: quorum arithmetic over stable and joint voter
  configurations, and the replicated administrative history (\<open>membership_state\<close> with its
  log boundary, \<open>committed_membership\<close>).  A \<^verbatim>\<open>BTreeSet\<close> of node identifiers is a set; where the
  sources iterate over one, the model takes the sorted list of its elements.
\<close>

type_synonym node_id = nat
type_synonym log_index = nat
type_synonym raft_term = nat

section \<open>Voter configurations\<close>

datatype voter_config =
    Stable "node_id list"
  | Joint "node_id list" "node_id list"

fun windows2 :: "'a list \<Rightarrow> ('a \<times> 'a) list" where
  "windows2 (x # y # xs) = (x, y) # windows2 (y # xs)"
| "windows2 _ = []"

definition validate_set :: "node_id list \<Rightarrow> unit fallible" where
  "validate_set vs =
     (if vs = [] \<or> length vs > 256 \<or> list_ex (\<lambda>(a, b). a \<ge> b) (windows2 vs)
      then Inl ''voters must be nonempty, sorted and unique''
      else Inr ())"

definition majority :: "node_id list \<Rightarrow> node_id set \<Rightarrow> bool" where
  "majority vs votes = (length (filter (\<lambda>i. i \<in> votes) vs) > length vs div 2)"

definition majority_index :: "node_id list \<Rightarrow> (node_id, log_index) btree \<Rightarrow> log_index" where
  "majority_index vs matched =
     (if vs = [] then 0
      else let indexes = sort (map (\<lambda>i. case bt_get matched i of None \<Rightarrow> 0 | Some m \<Rightarrow> m) vs)
           in indexes ! (length indexes - (length indexes div 2 + 1)))"

fun vc_validate :: "voter_config \<Rightarrow> unit fallible" where
  "vc_validate (Stable vs) = validate_set vs"
| "vc_validate (Joint old new) = rbind (validate_set old) (\<lambda>_. validate_set new)"

definition has_quorum :: "voter_config \<Rightarrow> node_id set \<Rightarrow> bool" where
  "has_quorum c votes =
     (if \<not> is_ok (vc_validate c) then False
      else case c of
             Stable vs \<Rightarrow> majority vs votes
           | Joint old new \<Rightarrow> majority old votes \<and> majority new votes)"

definition replicated_index :: "voter_config \<Rightarrow> (node_id, log_index) btree \<Rightarrow> log_index" where
  "replicated_index c matched =
     (if \<not> is_ok (vc_validate c) then 0
      else case c of
             Stable vs \<Rightarrow> majority_index vs matched
           | Joint old new \<Rightarrow> min (majority_index old matched) (majority_index new matched))"

fun vc_voters :: "voter_config \<Rightarrow> node_id set" where
  "vc_voters (Stable vs) = set vs"
| "vc_voters (Joint old new) = set (old @ new)"

fun vc_contains :: "voter_config \<Rightarrow> node_id \<Rightarrow> bool" where
  "vc_contains (Stable vs) i = (i \<in> set vs)"
| "vc_contains (Joint old new) i = (i \<in> set old \<or> i \<in> set new)"

section \<open>Administrative history\<close>

definition MAX_ADMIN_RECORDS :: nat where "MAX_ADMIN_RECORDS = 1024"
definition LEGACY_GROUP_ID :: string where "LEGACY_GROUP_ID = ''legacy-default''"
definition MAX_ADMIN_ID_BYTES :: nat where "MAX_ADMIN_ID_BYTES = 128"
definition MAX_MEMBER_ENDPOINT_BYTES :: nat where "MAX_MEMBER_ENDPOINT_BYTES = 512"

record member_endpoints =
  ep_raft :: string
  ep_http :: string

text \<open>
  A \<^verbatim>\<open>String\<close> is its UTF-8 bytes.  \<open>whitespace_seq\<close> recognises the encoding of one code
  point of Unicode's White\_Space property, which \<^verbatim>\<open>str::trim\<close> strips at either end;
  \<open>has_control\<close> finds a code point of category Cc (U+0000-U+001F and U+007F-U+009F).
\<close>

definition bytes_of :: "string \<Rightarrow> nat list" where
  "bytes_of s = map of_char s"

definition whitespace_seq :: "nat list \<Rightarrow> bool" where
  "whitespace_seq bs =
     (case bs of
        [a] \<Rightarrow> 9 \<le> a \<and> a \<le> 13 \<or> a = 32
      | [a, b] \<Rightarrow> a = 0xC2 \<and> (b = 0x85 \<or> b = 0xA0)
      | [a, b, c] \<Rightarrow>
          a = 0xE1 \<and> b = 0x9A \<and> c = 0x80 \<or>
          a = 0xE2 \<and> b = 0x80 \<and> (0x80 \<le> c \<and> c \<le> 0x8A \<or> c = 0xA8 \<or> c = 0xA9 \<or> c = 0xAF) \<or>
          a = 0xE2 \<and> b = 0x81 \<and> c = 0x9F \<or>
          a = 0xE3 \<and> b = 0x80 \<and> c = 0x80
      | _ \<Rightarrow> False)"

definition starts_whitespace :: "nat list \<Rightarrow> bool" where
  "starts_whitespace bs = list_ex (\<lambda>k. whitespace_seq (take k bs)) [1, 2, 3]"

definition ends_whitespace :: "nat list \<Rightarrow> bool" where
  "ends_whitespace bs = list_ex (\<lambda>k. whitespace_seq (drop (length bs - k) bs)) [1, 2, 3]"

fun has_control :: "nat list \<Rightarrow> bool" where
  "has_control (a # bs) =
     (a < 32 \<or> a = 127 \<or>
      a = 0xC2 \<and> (case bs of b # _ \<Rightarrow> 0x80 \<le> b \<and> b \<le> 0x9F | [] \<Rightarrow> False) \<or> has_control bs)"
| "has_control [] = False"

definition invalid_endpoint :: "string \<Rightarrow> bool" where
  "invalid_endpoint e =
     (e = [] \<or> length e > MAX_MEMBER_ENDPOINT_BYTES \<or>
      starts_whitespace (bytes_of e) \<or> ends_whitespace (bytes_of e) \<or> has_control (bytes_of e))"

definition endpoints_validate :: "member_endpoints \<Rightarrow> unit fallible" where
  "endpoints_validate e =
     (if invalid_endpoint (ep_raft e) \<or> invalid_endpoint (ep_http e)
      then Inl ''invalid bounded member endpoint'' else Inr ())"

datatype admin_operation =
    AddLearner node_id member_endpoints
  | Remove node_id
  | SetVoters "node_id list"

datatype configuration_phase = PhaseApply | PhaseJoint | PhaseFinal

record configuration_entry =
  request_id :: string
  ce_operation :: admin_operation
  phase :: configuration_phase

record admin_record =
  operation :: admin_operation
  first_index :: log_index
  first_term :: raft_term
  joint :: bool
  final_index :: "log_index option"
  final_term :: "raft_term option"

record membership_state =
  version :: nat
  group_id :: string
  genesis_voters :: "node_id list"
  voters :: voter_config
  learners :: "node_id set"
  retired :: "node_id set"
  endpoints :: "(node_id, member_endpoints) btree"
  records :: "(string, admin_record) btree"

record committed_membership =
  cm_index :: log_index
  cm_term :: raft_term
  cm_state :: membership_state

definition validate_request_id :: "string \<Rightarrow> unit fallible" where
  "validate_request_id i =
     (if i = [] \<or> length i > MAX_ADMIN_ID_BYTES \<or> \<not> list_all (\<lambda>b. b < 128) (bytes_of i) \<or>
         list_ex (\<lambda>b. (b < 32 \<or> b = 127) \<or> b \<in> {32, 9, 10, 12, 13}) (bytes_of i)
      then Inl ''administrative request ID must be bounded printable ASCII without whitespace''
      else Inr ())"

definition bootstrap_with_group :: "string \<Rightarrow> node_id list \<Rightarrow> membership_state fallible" where
  "bootstrap_with_group g vs =
     rbind (validate_request_id g) (\<lambda>_.
     rbind (validate_set vs) (\<lambda>_.
       Inr \<lparr>version = 1, group_id = g, genesis_voters = vs, voters = Stable vs,
            learners = {}, retired = {}, endpoints = [], records = []\<rparr>))"

definition bootstrap :: "node_id list \<Rightarrow> membership_state fallible" where
  "bootstrap vs = bootstrap_with_group LEGACY_GROUP_ID vs"

definition participants :: "membership_state \<Rightarrow> node_id set" where
  "participants m = vc_voters (voters m) \<union> learners m"

definition pending :: "membership_state \<Rightarrow> (string \<times> admin_record) option" where
  "pending m = find (\<lambda>(_, r). final_index r = None) (records m)"

definition first_phase :: "membership_state \<Rightarrow> string \<Rightarrow> admin_operation \<Rightarrow> configuration_phase fallible" where
  "first_phase m rid op =
     rbind (validate_request_id rid) (\<lambda>_.
       if group_id m = LEGACY_GROUP_ID then Inl ''explicit_group_identity_required''
       else case bt_get (records m) rid of
         Some r \<Rightarrow> (if operation r = op then Inl ''request_already_recorded''
                    else Inl ''request_payload_changed'')
       | None \<Rightarrow>
         if pending m \<noteq> None \<or> (case voters m of Joint _ _ \<Rightarrow> True | _ \<Rightarrow> False)
         then Inl ''membership_change_pending''
         else if length (records m) \<ge> MAX_ADMIN_RECORDS then Inl ''membership_admin_capacity''
         else case op of
           AddLearner i ep \<Rightarrow>
             rbind (endpoints_validate ep) (\<lambda>_.
               if i \<in> retired m then Inl ''member_id_retired''
               else if i \<in> participants m then Inl ''member_already_admitted''
               else Inr PhaseApply)
         | Remove i \<Rightarrow>
             if i \<in> learners m then Inr PhaseApply
             else let vs = vc_voters (voters m)
                  in if i \<notin> vs then Inl ''member_unknown''
                     else if card vs = 1 then Inl ''cannot_remove_last_voter''
                     else Inr PhaseJoint
         | SetVoters vs \<Rightarrow>
             rbind (validate_set vs) (\<lambda>_.
               let current = vc_voters (voters m); requested = set vs
               in if current = requested then Inl ''voters_unchanged''
                  else if list_ex (\<lambda>i. i \<notin> current \<and> i \<notin> learners m) vs
                  then Inl ''new_voter_must_be_admitted_learner''
                  else Inr PhaseJoint))"

definition target_voters :: "membership_state \<Rightarrow> admin_operation \<Rightarrow> node_id list fallible" where
  "target_voters m op =
     (case op of
        SetVoters vs \<Rightarrow> Inr vs
      | Remove i \<Rightarrow> Inr (filter (\<lambda>v. v \<noteq> i) (sorted_list_of_set (vc_voters (voters m))))
      | AddLearner _ _ \<Rightarrow> Inl ''learner admission does not change voter quorum'')"

definition apply_final :: "membership_state \<Rightarrow> log_index \<Rightarrow> raft_term \<Rightarrow> configuration_entry \<Rightarrow>
    membership_state fallible" where
  "apply_final m i t ce =
     (case pending m of
        None \<Rightarrow> Inl ''no joint operation to finish''
      | Some (pid, r) \<Rightarrow>
          if pid \<noteq> request_id ce \<or> operation r \<noteq> ce_operation ce \<or> i \<le> first_index r \<or> t < first_term r
          then Inl ''final entry differs from active joint operation''
          else case voters m of
                 Stable _ \<Rightarrow> Inl ''final entry requires joint voters''
               | Joint old new \<Rightarrow>
                   Inr (m\<lparr>retired := retired m \<union> set (filter (\<lambda>v. v \<notin> set new) old),
                          voters := Stable new,
                          records := bt_insert (request_id ce)
                            (r\<lparr>final_index := Some i, final_term := Some t\<rparr>) (records m)\<rparr>))"

definition apply_first :: "membership_state \<Rightarrow> log_index \<Rightarrow> raft_term \<Rightarrow> configuration_entry \<Rightarrow>
    membership_state fallible" where
  "apply_first m i t ce =
     rbind (first_phase m (request_id ce) (ce_operation ce)) (\<lambda>expected.
       if phase ce \<noteq> expected then Inl ''incorrect first configuration phase''
       else let is_joint = (phase ce = PhaseJoint);
                rec = \<lparr>operation = ce_operation ce, first_index = i, first_term = t, joint = is_joint,
                       final_index = (if is_joint then None else Some i),
                       final_term = (if is_joint then None else Some t)\<rparr>
            in rbind
                 (if is_joint
                  then let old = sorted_list_of_set (vc_voters (voters m))
                       in rbind (target_voters m (ce_operation ce)) (\<lambda>new.
                            Inr (m\<lparr>learners := learners m - set new, voters := Joint old new\<rparr>))
                  else case ce_operation ce of
                         AddLearner n ep \<Rightarrow>
                           Inr (m\<lparr>learners := insert n (learners m),
                                  endpoints := bt_insert n ep (endpoints m)\<rparr>)
                       | Remove n \<Rightarrow>
                           Inr (m\<lparr>learners := learners m - {n}, retired := insert n (retired m)\<rparr>)
                       | SetVoters _ \<Rightarrow> Inl ''voter change cannot use single-phase apply'')
                 (\<lambda>m'. Inr (m'\<lparr>records := bt_insert (request_id ce) rec (records m')\<rparr>)))"

definition apply_entry :: "membership_state \<Rightarrow> log_index \<Rightarrow> raft_term \<Rightarrow> configuration_entry \<Rightarrow>
    membership_state fallible" where
  "apply_entry m i t ce =
     (if i = 0 \<or> i = u64_max \<or> t = 0 then Inl ''invalid configuration log boundary''
      else rbind (validate_request_id (request_id ce)) (\<lambda>_.
        if phase ce = PhaseFinal then apply_final m i t ce else apply_first m i t ce))"

definition cm_bootstrap_with_group :: "string \<Rightarrow> node_id list \<Rightarrow> committed_membership fallible" where
  "cm_bootstrap_with_group g vs =
     rbind (bootstrap_with_group g vs) (\<lambda>m. Inr \<lparr>cm_index = 0, cm_term = 0, cm_state = m\<rparr>)"

definition cm_bootstrap :: "node_id list \<Rightarrow> committed_membership fallible" where
  "cm_bootstrap vs =
     rbind (bootstrap vs) (\<lambda>m. Inr \<lparr>cm_index = 0, cm_term = 0, cm_state = m\<rparr>)"

definition advanced :: "committed_membership \<Rightarrow> log_index \<Rightarrow> raft_term \<Rightarrow> configuration_entry \<Rightarrow>
    committed_membership fallible" where
  "advanced c i t ce =
     (if i \<le> cm_index c \<or> t < cm_term c then Inl ''configuration history regressed''
      else rbind (apply_entry (cm_state c) i t ce) (\<lambda>m.
             Inr \<lparr>cm_index = i, cm_term = t, cm_state = m\<rparr>))"

definition record_events :: "string \<Rightarrow> admin_record \<Rightarrow>
    (log_index \<times> raft_term \<times> configuration_entry) list fallible" where
  "record_events rid r =
     (let e1 = (first_index r, first_term r,
                \<lparr>request_id = rid, ce_operation = operation r,
                 phase = (if joint r then PhaseJoint else PhaseApply)\<rparr>)
      in case (final_index r, final_term r) of
           (Some i, Some t) \<Rightarrow>
             if joint r
             then Inr [e1, (i, t, \<lparr>request_id = rid, ce_operation = operation r, phase = PhaseFinal\<rparr>)]
             else if i = first_index r \<and> t = first_term r then Inr [e1]
             else Inl ''inconsistent administrative completion boundary''
         | (None, None) \<Rightarrow>
             if joint r then Inr [e1]
             else Inl ''inconsistent administrative completion boundary''
         | _ \<Rightarrow> Inl ''inconsistent administrative completion boundary'')"

fun all_events :: "(string \<times> admin_record) list \<Rightarrow>
    (log_index \<times> raft_term \<times> configuration_entry) list fallible" where
  "all_events [] = Inr []"
| "all_events ((rid, r) # rs) =
     rbind (record_events rid r) (\<lambda>es. rbind (all_events rs) (\<lambda>es'. Inr (es @ es')))"

fun advance_all :: "committed_membership \<Rightarrow> (log_index \<times> raft_term \<times> configuration_entry) list \<Rightarrow>
    committed_membership fallible" where
  "advance_all c [] = Inr c"
| "advance_all c ((i, t, ce) # es) = rbind (advanced c i t ce) (\<lambda>c'. advance_all c' es)"

definition cm_validate :: "committed_membership \<Rightarrow> unit fallible" where
  "cm_validate c =
     (if version (cm_state c) \<noteq> 1 \<or> length (records (cm_state c)) > MAX_ADMIN_RECORDS
      then Inl ''unsupported or oversized membership state''
      else rbind (cm_bootstrap_with_group (group_id (cm_state c)) (genesis_voters (cm_state c))) (\<lambda>start.
           rbind (all_events (records (cm_state c))) (\<lambda>events.
           rbind (advance_all start (sort_key fst events)) (\<lambda>rebuilt.
             if rebuilt \<noteq> c then Inl ''membership state differs from its retained history''
             else Inr ()))))"

definition record_extends :: "committed_membership \<Rightarrow> committed_membership \<Rightarrow> string \<times> admin_record \<Rightarrow> bool" where
  "record_extends newer older = (\<lambda>(rid, old).
     case bt_get (records (cm_state newer)) rid of
       None \<Rightarrow> False
     | Some new \<Rightarrow>
         \<not> (operation new \<noteq> operation old \<or> first_index new \<noteq> first_index old \<or>
            first_term new \<noteq> first_term old \<or> joint new \<noteq> joint old) \<and>
         \<not> (final_index old \<noteq> None \<and>
            (final_index new \<noteq> final_index old \<or> final_term new \<noteq> final_term old)) \<and>
         \<not> (final_index old = None \<and>
            (case final_index new of None \<Rightarrow> False | Some i \<Rightarrow> i \<le> cm_index older)))"

definition is_consistent_extension_of :: "committed_membership \<Rightarrow> committed_membership \<Rightarrow> bool" where
  "is_consistent_extension_of newer older =
     (\<not> (\<not> is_ok (cm_validate newer) \<or> \<not> is_ok (cm_validate older) \<or>
         group_id (cm_state newer) \<noteq> group_id (cm_state older) \<or>
         genesis_voters (cm_state newer) \<noteq> genesis_voters (cm_state older) \<or>
         cm_index newer < cm_index older \<or> cm_term newer < cm_term older) \<and>
      list_all (record_extends newer older) (records (cm_state older)) \<and>
      list_all (\<lambda>(rid, new).
        \<not> (bt_get (records (cm_state older)) rid = None \<and> first_index new \<le> cm_index older))
        (records (cm_state newer)))"

end
