(* ===== verification/Rng.thy ===== *)
theory Rng
  imports Prelude
begin

unbundle bit_operations_syntax

text \<open>
  \<^verbatim>\<open>raft-core/src/rng.rs\<close>: the inline PCG-XSH-RR 32/64 generator that draws every election
  timeout.  The 64-bit state wraps, so it is a word; the drawn values are natural numbers.
\<close>

section \<open>Generator\<close>

definition pcg_multiplier :: "64 word" where
  "pcg_multiplier = 6364136223846793005"

definition pcg_default_stream :: "64 word" where
  "pcg_default_stream = 54"

record pcg32 =
  pcg_state :: "64 word"
  pcg_inc :: "64 word"

definition next_u32 :: "pcg32 \<Rightarrow> 32 word \<times> pcg32" where
  "next_u32 rng =
     (let old = pcg_state rng;
          rng' = rng\<lparr>pcg_state := old * pcg_multiplier + pcg_inc rng\<rparr>;
          xorshifted = (ucast (drop_bit 27 (drop_bit 18 old XOR old)) :: 32 word);
          rot = unat (drop_bit 59 old)
      in (word_rotr rot xorshifted, rng'))"

definition pcg32_new :: "nat \<Rightarrow> pcg32" where
  "pcg32_new seed =
     (let rng = \<lparr>pcg_state = 0, pcg_inc = push_bit 1 pcg_default_stream OR 1\<rparr>;
          rng = snd (next_u32 rng);
          rng = rng\<lparr>pcg_state := pcg_state rng + of_nat seed\<rparr>
      in snd (next_u32 rng))"

definition range_inclusive :: "nat \<Rightarrow> nat \<Rightarrow> pcg32 \<Rightarrow> nat \<times> pcg32" where
  "range_inclusive lo hi rng =
     (let span = hi - lo + 1; (x, rng') = next_u32 rng
      in (lo + unat x mod span, rng'))"

section \<open>Facts\<close>

lemma range_inclusive_bounds:
  "lo \<le> hi \<Longrightarrow> lo \<le> fst (range_inclusive lo hi rng) \<and> fst (range_inclusive lo hi rng) \<le> hi"
proof -
  assume "lo \<le> hi"
  moreover have "unat (fst (next_u32 rng)) mod (hi - lo + 1) < hi - lo + 1" by simp
  ultimately have "lo + unat (fst (next_u32 rng)) mod (hi - lo + 1) \<le> hi" by linarith
  then show ?thesis by (simp add: range_inclusive_def Let_def split_beta)
qed

text \<open>The increment is odd and never changes, as a full-period 64-bit LCG requires.\<close>

lemma pcg_inc_next: "pcg_inc (snd (next_u32 rng)) = pcg_inc rng"
  by (simp add: next_u32_def Let_def)

lemma pcg_inc_new: "pcg_inc (pcg32_new seed) = 109"
  by (simp add: pcg32_new_def Let_def pcg_inc_next pcg_default_stream_def)

lemma pcg_step_injective:
  assumes "pcg_inc r = pcg_inc r'" and "pcg_state (snd (next_u32 r)) = pcg_state (snd (next_u32 r'))"
  shows "pcg_state r = pcg_state r'"
proof -
  let ?inv = "13877824140714322085 :: 64 word"
  have inv: "pcg_multiplier * ?inv = 1" by (simp add: pcg_multiplier_def)
  from assms have "pcg_state r * pcg_multiplier = pcg_state r' * pcg_multiplier"
    by (simp add: next_u32_def Let_def)
  then have "pcg_state r * (pcg_multiplier * ?inv) = pcg_state r' * (pcg_multiplier * ?inv)"
    by (simp only: mult.assoc [symmetric])
  then show ?thesis by (simp add: inv)
qed

end
