(* ===== verification/Types.thy ===== *)
theory Types
  imports Membership Rng
begin

text \<open>
  \<^verbatim>\<open>raft-core/src/types.rs\<close>, \<^verbatim>\<open>message.rs\<close> and the data of \<^verbatim>\<open>lib.rs\<close>, \<^verbatim>\<open>read.rs\<close>, \<^verbatim>\<open>snapshot.rs\<close>
  and \<^verbatim>\<open>membership_protocol.rs\<close>: commands, log entries, the durable state, roles, the wire
  messages, the inputs and effects of the pure boundary, and the node itself.
\<close>

section \<open>Log entries and durable state\<close>

datatype command =
    Put string string
  | Delete string
  | NoOp
  | Configuration configuration_entry
  | RegisterSession string
  | CloseSession log_index
  | SessionPut log_index string nat string
  | SessionDelete log_index string nat

fun is_configuration :: "command \<Rightarrow> bool" where
  "is_configuration (Configuration _) = True"
| "is_configuration _ = False"

record entry =
  index :: log_index
  e_term :: raft_term
  command :: command

record hard_state =
  current_term :: raft_term
  voted_for :: "node_id option"
  membership :: "committed_membership option"

record campaign_id =
  incarnation :: nat
  sequence :: nat

datatype role =
    Follower
  | PreCandidate raft_term campaign_id "node_id set"
  | Candidate "node_id set"
  | Leader "(node_id, log_index) btree" "(node_id, log_index) btree"

datatype read_reject_reason =
    NotLeader | NotReady | Capacity | ContextExhausted | Cancelled | LeadershipLost

fun reason_as_str :: "read_reject_reason \<Rightarrow> string" where
  "reason_as_str NotLeader = ''not_leader''"
| "reason_as_str NotReady = ''read_not_ready''"
| "reason_as_str Capacity = ''read_capacity''"
| "reason_as_str ContextExhausted = ''read_context_exhausted''"
| "reason_as_str Cancelled = ''read_cancelled''"
| "reason_as_str LeadershipLost = ''leadership_lost''"

section \<open>Snapshots\<close>

definition MAX_SNAPSHOT_BYTES :: nat where "MAX_SNAPSHOT_BYTES = 64 * 1024 * 1024"
definition MAX_SNAPSHOT_CHUNK_BYTES :: nat where "MAX_SNAPSHOT_CHUNK_BYTES = 64 * 1024"
definition MIN_SNAPSHOT_BYTES :: nat where "MIN_SNAPSHOT_BYTES = 48"

record snapshot_metadata =
  last_included_index :: log_index
  last_included_term :: raft_term
  members :: "node_id list"
  sm_membership :: "committed_membership option"

definition metadata_validate :: "snapshot_metadata \<Rightarrow> unit fallible" where
  "metadata_validate m =
     rbind
       (case sm_membership m of
          None \<Rightarrow> Inr ()
        | Some c \<Rightarrow> rbind (cm_validate c) (\<lambda>_.
            if cm_index c > last_included_index m \<or> cm_term c > last_included_term m \<or>
               sorted_list_of_set (participants (cm_state c)) \<noteq> members m
            then Inl ''snapshot membership boundary or participant set mismatch'' else Inr ()))
       (\<lambda>_.
     if last_included_index m = 0 \<or> last_included_term m = 0
     then Inl ''snapshot boundary index and term must be positive''
     else if last_included_index m = u64_max
     then Inl ''snapshot boundary must leave room for a following entry''
     else if members m = [] \<or> length (members m) > 256 \<or> list_ex (\<lambda>(a, b). a \<ge> b) (windows2 (members m))
     then Inl ''snapshot voters must be nonempty, sorted, and unique''
     else Inr ())"

record snapshot_descriptor =
  metadata :: snapshot_metadata
  total_len :: nat
  sha256 :: "byte list"

definition descriptor_validate :: "snapshot_descriptor \<Rightarrow> unit fallible" where
  "descriptor_validate d =
     rbind (metadata_validate (metadata d)) (\<lambda>_.
       if \<not> (MIN_SNAPSHOT_BYTES \<le> total_len d \<and> total_len d \<le> MAX_SNAPSHOT_BYTES)
       then Inl ''snapshot image size must be between 48 bytes and 64 MiB'' else Inr ())"

record snapshot_transfer_id =
  st_leader_id :: node_id
  st_term :: raft_term
  st_incarnation :: nat
  st_sequence :: nat

datatype snapshot_stage_result =
    Accepted nat bool
  | Rejected

record outgoing_snapshot =
  os_transfer :: snapshot_transfer_id
  os_descriptor :: snapshot_descriptor
  os_offset :: nat
  reading :: bool
  sent_end :: "nat option"

record incoming_snapshot =
  is_transfer :: snapshot_transfer_id
  is_descriptor :: snapshot_descriptor
  next_offset :: nat
  is_pending :: "(nat \<times> nat \<times> nat) option"

record publishing_snapshot =
  ps_transfer :: "snapshot_transfer_id option"
  ps_descriptor :: snapshot_descriptor
  ps_retained :: "entry list"
  ps_contact_round :: nat

record pending_read =
  pr_context :: nat
  pr_term :: raft_term
  pr_index :: log_index
  pr_voters :: "node_id set"

section \<open>Messages, inputs and effects\<close>

record append_conflict_hint =
  rejected_index :: log_index
  hint_term :: "raft_term option"
  hint_first_index :: log_index

text \<open>
  Positional arguments follow the field order of the sources.  \<^verbatim>\<open>RequestVote\<close>: term,
  candidate, last index, last term.  \<^verbatim>\<open>AppendEntries\<close>: term, leader, previous index, previous
  term, entries, leader commit, contact round.  \<^verbatim>\<open>AppendEntriesReply\<close>: term, success, match
  index, contact round, conflict.  \<^verbatim>\<open>InstallSnapshotReply\<close>: term, transfer, next offset,
  match index, accepted, installed, contact round.
\<close>

datatype raft_message =
    GroupMessage string "node_id list" raft_message
  | MembershipAdvertisement raft_term committed_membership
  | RequestVote raft_term node_id log_index raft_term
  | RequestVoteReply raft_term bool
  | AppendEntries raft_term node_id log_index raft_term "entry list" log_index nat
  | AppendEntriesReply raft_term bool log_index nat "append_conflict_hint option"
  | PreVote raft_term campaign_id node_id log_index raft_term
  | PreVoteReply raft_term raft_term campaign_id bool
  | ReadProbe raft_term node_id nat
  | ReadProbeReply raft_term nat bool
  | CompactedPrefix raft_term log_index raft_term nat
  | InstallSnapshot snapshot_transfer_id snapshot_descriptor nat "byte list" bool nat
  | InstallSnapshotReply raft_term snapshot_transfer_id nat log_index bool bool nat

fun is_group_message :: "raft_message \<Rightarrow> bool" where
  "is_group_message (GroupMessage _ _ _) = True"
| "is_group_message _ = False"

datatype input =
    Recover
  | MembershipChange string admin_operation
  | Message node_id raft_message
  | Tick nat
  | ClientPropose command
  | ClientProposeBatch "command list"
  | ReadIndex nat
  | CancelRead nat
  | Compact snapshot_descriptor
  | SnapshotChunkRead node_id snapshot_transfer_id snapshot_descriptor nat "byte list"
  | SnapshotChunkStaged snapshot_transfer_id snapshot_descriptor nat snapshot_stage_result
  | SnapshotPublished "snapshot_transfer_id option" snapshot_descriptor

datatype membership_outcome =
    OutcomeAccepted log_index
  | OutcomeRecorded admin_record
  | OutcomeRejected string "node_id option"

datatype effect =
    MembershipRouteHint node_id raft_term member_endpoints
  | MembershipResult string membership_outcome
  | MembershipChanged committed_membership
  | PersistHardState hard_state
  | PersistLogEntries "log_index option" "entry list"
  | Send node_id raft_message
  | Apply entry
  | RoleChanged string raft_term
  | ProposeAccepted log_index
  | ProposeRejected "node_id option"
  | ReadReady nat nat log_index raft_term
  | ReadRejected nat "node_id option" read_reject_reason
  | ReadSnapshotChunk node_id snapshot_transfer_id snapshot_descriptor nat nat
  | StageSnapshotChunk snapshot_transfer_id snapshot_descriptor nat "byte list" bool
  | PublishSnapshot "snapshot_transfer_id option" snapshot_descriptor "entry list"
  | ApplySnapshot snapshot_descriptor
  | CancelSnapshot snapshot_transfer_id
  | SnapshotRejected string

fun is_persist_hard :: "effect \<Rightarrow> bool" where
  "is_persist_hard (PersistHardState _) = True"
| "is_persist_hard _ = False"

datatype restore_error =
    InvalidSnapshot string
  | NonContiguousIndex log_index log_index
  | TermRegression log_index raft_term raft_term
  | EntryTermExceedsCurrent log_index raft_term raft_term

section \<open>The node\<close>

definition TICK_MS :: nat where "TICK_MS = 10"
definition HEARTBEAT_MS :: nat where "HEARTBEAT_MS = 50"
definition ELECTION_MIN_MS :: nat where "ELECTION_MIN_MS = 150"
definition ELECTION_MAX_MS :: nat where "ELECTION_MAX_MS = 300"
definition CHECK_QUORUM_MS :: nat where "CHECK_QUORUM_MS = ELECTION_MAX_MS"
definition MAX_APPEND_ENTRIES :: nat where "MAX_APPEND_ENTRIES = 16"
definition MAX_PROPOSAL_BATCH :: nat where "MAX_PROPOSAL_BATCH = 16"
definition MAX_PENDING_READS :: nat where "MAX_PENDING_READS = 128"

record raft_node =
  self_id :: node_id
  peers :: "node_id list"
  hard :: hard_state
  log :: "entry list"
  commit_index :: log_index
  last_applied :: log_index
  role :: role
  leader_hint :: "node_id option"
  now_ms :: nat
  election_deadline_ms :: nat
  heartbeat_due_ms :: nat
  rng :: pcg32
  campaign_incarnation :: nat
  campaign_sequence :: nat
  campaign_exhausted :: bool
  last_leader_contact_ms :: "nat option"
  contact_round :: nat
  quorum_deadline_ms :: nat
  quorum_contacts :: "node_id set"
  read_context :: nat
  snapshot :: "snapshot_descriptor option"
  snapshot_sequence :: nat
  outgoing_snapshots :: "(node_id, outgoing_snapshot) btree"
  incoming_snapshot :: "incoming_snapshot option"
  last_snapshot_transfer :: "(snapshot_transfer_id \<times> snapshot_descriptor) option"
  publishing_snapshot :: "publishing_snapshot option"
  pending_reads :: "(nat, pending_read) btree"
  genesis_membership :: committed_membership
  effective_membership :: membership_state
  recovery_pending :: bool
  advertisement_last :: "(node_id, raft_term \<times> log_index \<times> nat) btree"
  promotion_fence :: "(string \<times> admin_operation \<times> log_index) option"
  recovery_refresh_hard :: bool
  membership_advertisements :: "(node_id, raft_term \<times> committed_membership) btree"

type_synonym node_act = "(raft_node, effect) act"
type_synonym node_outcome = "(raft_node, effect) outcome"

abbreviation term_of :: "raft_node \<Rightarrow> raft_term" where
  "term_of n \<equiv> current_term (hard n)"

end
