(* ===== verification/Node.thy ===== *)
theory Node
  imports Types
begin

text \<open>
  The part of \<^verbatim>\<open>raft-core/src/lib.rs\<close> every handler builds on: the constructor, the accessors of
  the snapshot-based log, stepping down, the election timer and the apply loop, together with
  the two small helpers of \<^verbatim>\<open>read.rs\<close> and \<^verbatim>\<open>snapshot.rs\<close> that stepping down calls, and the
  accessors of the membership in force (\<^verbatim>\<open>membership_protocol.rs\<close>).
\<close>

section \<open>Accessors\<close>

definition snapshot_index :: "raft_node \<Rightarrow> log_index" where
  "snapshot_index n = (case snapshot n of None \<Rightarrow> 0 | Some d \<Rightarrow> last_included_index (metadata d))"

definition snapshot_term :: "raft_node \<Rightarrow> raft_term" where
  "snapshot_term n = (case snapshot n of None \<Rightarrow> 0 | Some d \<Rightarrow> last_included_term (metadata d))"

definition last_log_index :: "raft_node \<Rightarrow> log_index" where
  "last_log_index n = (if log n = [] then snapshot_index n else index (last (log n)))"

definition last_log_term :: "raft_node \<Rightarrow> raft_term" where
  "last_log_term n = (if log n = [] then snapshot_term n else e_term (last (log n)))"

definition slice_get :: "'a list \<Rightarrow> nat \<Rightarrow> 'a option" where
  "slice_get xs i = (if i < length xs then Some (xs ! i) else None)"

definition entry_at :: "raft_node \<Rightarrow> log_index \<Rightarrow> entry option" where
  "entry_at n i =
     (case checked_sub i (snapshot_index n) of
        None \<Rightarrow> None
      | Some k \<Rightarrow> (case checked_sub k 1 of None \<Rightarrow> None | Some off \<Rightarrow> slice_get (log n) off))"

definition log_term :: "raft_node \<Rightarrow> log_index \<Rightarrow> raft_term option" where
  "log_term n i =
     (if i = snapshot_index n then Some (snapshot_term n) else map_option e_term (entry_at n i))"

definition term_at :: "raft_node \<Rightarrow> log_index \<Rightarrow> raft_term" where
  "term_at n i = (case log_term n i of None \<Rightarrow> 0 | Some t \<Rightarrow> t)"

definition is_leader :: "raft_node \<Rightarrow> bool" where
  "is_leader n = (case role n of Leader _ _ \<Rightarrow> True | _ \<Rightarrow> False)"

definition known_leader :: "raft_node \<Rightarrow> node_id option" where
  "known_leader n = (if is_leader n then Some (self_id n) else leader_hint n)"

definition node_members :: "raft_node \<Rightarrow> node_id list" where
  "node_members n = sorted_list_of_set (participants (effective_membership n))"

definition committed_membership :: "raft_node \<Rightarrow> committed_membership" where
  "committed_membership n = (case membership (hard n) of None \<Rightarrow> genesis_membership n | Some c \<Rightarrow> c)"

definition voter_config :: "raft_node \<Rightarrow> voter_config" where
  "voter_config n = voters (effective_membership n)"

definition self_quorum :: "raft_node \<Rightarrow> bool" where
  "self_quorum n = has_quorum (voter_config n) {self_id n}"

definition is_voter :: "raft_node \<Rightarrow> node_id \<Rightarrow> bool" where
  "is_voter n i = vc_contains (voter_config n) i"

section \<open>Stepping down\<close>

definition reject_pending_reads :: "read_reject_reason \<Rightarrow> node_act" where
  "reject_pending_reads reason n =
     run [push_all (map (\<lambda>rid. ReadRejected rid (leader_hint n) reason) (bt_keys (pending_reads n))),
          modify (\<lambda>n. n\<lparr>pending_reads := []\<rparr>)] n"

definition become_follower :: node_act where
  "become_follower =
     run [modify (\<lambda>n. n\<lparr>outgoing_snapshots := [], promotion_fence := None, advertisement_last := [],
                        contact_round := 0, quorum_contacts := {}\<rparr>),
          (\<lambda>n. if role n \<noteq> Follower
                then run [modify (\<lambda>n. n\<lparr>role := Follower\<rparr>), push (RoleChanged ''Follower'' (term_of n))] n
                else skip n),
          reject_pending_reads LeadershipLost]"

definition cancel_incoming_snapshot :: node_act where
  "cancel_incoming_snapshot n =
     (case incoming_snapshot n of
        None \<Rightarrow> skip n
      | Some active \<Rightarrow>
          run [modify (\<lambda>n. n\<lparr>incoming_snapshot := None\<rparr>), push (CancelSnapshot (is_transfer active))] n)"

definition reset_election_deadline :: "raft_node \<Rightarrow> raft_node" where
  "reset_election_deadline n =
     (let (d, r) = range_inclusive ELECTION_MIN_MS ELECTION_MAX_MS (rng n)
      in n\<lparr>election_deadline_ms := saturating_add (now_ms n) d, rng := r\<rparr>)"

section \<open>The apply loop\<close>

function apply_committed :: node_act where
  "apply_committed n =
     (if commit_index n > last_applied n
      then let n1 = n\<lparr>last_applied := last_applied n + 1\<rparr>
           in case entry_at n1 (last_applied n1) of
                None \<Rightarrow> None
              | Some e \<Rightarrow> (case apply_committed n1 of
                             None \<Rightarrow> None
                           | Some (n2, es) \<Rightarrow> Some (n2, Apply e # es))
      else skip n)"
  by pat_completeness auto
termination
  by (relation "measure (\<lambda>n. commit_index n - last_applied n)") auto

declare apply_committed.simps [simp del]

section \<open>Construction\<close>

definition fresh_node :: "node_id \<Rightarrow> node_id list \<Rightarrow> nat \<Rightarrow> committed_membership \<Rightarrow> raft_node" where
  "fresh_node i ps seed genesis =
     \<lparr>self_id = i, peers = ps,
      hard = \<lparr>current_term = 0, voted_for = None, membership = None\<rparr>,
      log = [], commit_index = 0, last_applied = 0, role = Follower, leader_hint = None,
      now_ms = 0, election_deadline_ms = 0, heartbeat_due_ms = 0, rng = pcg32_new seed,
      campaign_incarnation = seed, campaign_sequence = 0, campaign_exhausted = False,
      last_leader_contact_ms = None, contact_round = 0, quorum_deadline_ms = 0,
      quorum_contacts = {}, read_context = 0, snapshot = None, snapshot_sequence = 0,
      outgoing_snapshots = [], incoming_snapshot = None, last_snapshot_transfer = None,
      publishing_snapshot = None, pending_reads = [], genesis_membership = genesis,
      effective_membership = cm_state genesis, recovery_pending = False,
      advertisement_last = [], promotion_fence = None, recovery_refresh_hard = False,
      membership_advertisements = []\<rparr>"

text \<open>\<^verbatim>\<open>RaftNode::new\<close>; \<open>None\<close> is one of its three panics.\<close>

definition raft_new :: "node_id \<Rightarrow> node_id list \<Rightarrow> nat \<Rightarrow> raft_node option" where
  "raft_new i ps seed =
     (if i \<in> set ps then None
      else if card (set ps) \<noteq> length ps then None
      else case cm_bootstrap (sort (ps @ [i])) of
             Inl _ \<Rightarrow> None
           | Inr genesis \<Rightarrow> Some (fresh_node i ps seed genesis))"

section \<open>Election timeouts\<close>

lemma reset_reads [simp]:
  "self_id (reset_election_deadline n) = self_id n" "peers (reset_election_deadline n) = peers n"
  "hard (reset_election_deadline n) = hard n" "log (reset_election_deadline n) = log n"
  "role (reset_election_deadline n) = role n" "commit_index (reset_election_deadline n) = commit_index n"
  "last_applied (reset_election_deadline n) = last_applied n" "snapshot (reset_election_deadline n) = snapshot n"
  "genesis_membership (reset_election_deadline n) = genesis_membership n"
  "effective_membership (reset_election_deadline n) = effective_membership n"
  "now_ms (reset_election_deadline n) = now_ms n" "incoming_snapshot (reset_election_deadline n) = incoming_snapshot n"
  "recovery_pending (reset_election_deadline n) = recovery_pending n"
  "campaign_exhausted (reset_election_deadline n) = campaign_exhausted n"
  "campaign_sequence (reset_election_deadline n) = campaign_sequence n"
  "campaign_incarnation (reset_election_deadline n) = campaign_incarnation n"
  by (simp_all add: reset_election_deadline_def split: prod.splits)

text \<open>
  C17.  Resetting the election timer draws a deadline between \<^const>\<open>ELECTION_MIN_MS\<close> and
  \<^const>\<open>ELECTION_MAX_MS\<close> after the logical clock, saturating at the end of the 64-bit clock, and
  changes nothing else but the generator.
\<close>

theorem election_deadline_bounds:
  "saturating_add (now_ms n) ELECTION_MIN_MS \<le> election_deadline_ms (reset_election_deadline n) \<and>
   election_deadline_ms (reset_election_deadline n) \<le> saturating_add (now_ms n) ELECTION_MAX_MS \<and>
   (\<exists>d r. reset_election_deadline n = n\<lparr>election_deadline_ms := d, rng := r\<rparr>)"
proof -
  obtain d r where d: "range_inclusive ELECTION_MIN_MS ELECTION_MAX_MS (rng n) = (d, r)" by force
  have "ELECTION_MIN_MS \<le> d \<and> d \<le> ELECTION_MAX_MS"
    using range_inclusive_bounds [of ELECTION_MIN_MS ELECTION_MAX_MS "rng n"] d
    by (simp add: ELECTION_MIN_MS_def ELECTION_MAX_MS_def)
  with d show ?thesis
    by (auto simp: reset_election_deadline_def saturating_add_def)
qed

end
