(* ===== verification/Membership_Protocol.thy ===== *)
theory Membership_Protocol
  imports Node
begin

text \<open>
  \<^verbatim>\<open>raft-core/src/membership_protocol.rs\<close>: replay and recovery of the configuration history,
  the effective configuration, commitment (\<open>advance_commit\<close>), administrative admission and the
  joint-consensus phases.  An \<^verbatim>\<open>expect\<close> of the sources is a \<open>panic\<close> branch.
\<close>

section \<open>Replay and recovery\<close>

fun replay :: "committed_membership \<Rightarrow> entry list \<Rightarrow> log_index \<Rightarrow> committed_membership fallible" where
  "replay c [] through = Inr c"
| "replay c (e # es) through =
     (if index e \<le> through
      then case command e of
             Configuration ce \<Rightarrow>
               rbind (advanced c (index e) (e_term e) ce) (\<lambda>c'. replay c' es through)
           | _ \<Rightarrow> replay c es through
      else replay c es through)"

definition effective_after :: "committed_membership \<Rightarrow> entry list \<Rightarrow> log_index \<Rightarrow> membership_state fallible" where
  "effective_after c es committed =
     rbind (replay c (filter (\<lambda>e. index e > committed) es) u64_max) (\<lambda>c'. Inr (cm_state c'))"

record membership_recovery =
  mr_committed :: committed_membership
  mr_effective :: membership_state
  mr_commit_index :: log_index
  mr_refresh_hard :: bool

fun check_authorities :: "raft_term \<Rightarrow> committed_membership option list \<Rightarrow> unit fallible" where
  "check_authorities t [] = Inr ()"
| "check_authorities t (None # as) = check_authorities t as"
| "check_authorities t (Some a # as) =
     rbind (cm_validate a) (\<lambda>_.
       if cm_term a > t then Inl ''membership term exceeds durable term''
       else check_authorities t as)"

definition select_membership :: "hard_state \<Rightarrow> log_index \<Rightarrow> committed_membership \<Rightarrow> entry list \<Rightarrow>
    committed_membership fallible" where
  "select_membership h snap_index base lg =
     (case membership h of
        None \<Rightarrow> Inr base
      | Some hm \<Rightarrow>
          if is_consistent_extension_of base hm then Inr base
          else if is_consistent_extension_of hm base
          then let last_index = (if lg = [] then snap_index else index (last lg))
               in if cm_index hm > last_index then Inl ''membership watermark lacks selected log suffix''
                  else rbind (replay base lg (cm_index hm)) (\<lambda>reconstructed.
                         if reconstructed \<noteq> hm
                         then Inl ''membership watermark contradicts selected snapshot or WAL''
                         else Inr hm)
          else Inl ''durable membership histories contradict'')"

definition recover_membership :: "hard_state \<Rightarrow> snapshot_descriptor option \<Rightarrow> entry list \<Rightarrow> node_id list \<Rightarrow>
    membership_recovery fallible" where
  "recover_membership h img lg legacy_genesis =
     (let snap_index = (case img of None \<Rightarrow> 0 | Some d \<Rightarrow> last_included_index (metadata d));
          snap_member = (case img of None \<Rightarrow> None | Some d \<Rightarrow> sm_membership (metadata d))
      in rbind (check_authorities (current_term h) [membership h, snap_member]) (\<lambda>_.
         let identity = (case snap_member of Some s \<Rightarrow> Some s | None \<Rightarrow> membership h)
         in rbind (case identity of
                     Some s \<Rightarrow> cm_bootstrap_with_group (group_id (cm_state s)) (genesis_voters (cm_state s))
                   | None \<Rightarrow> cm_bootstrap legacy_genesis) (\<lambda>genesis.
         rbind (case img of
                  None \<Rightarrow> Inr ()
                | Some d \<Rightarrow> if snap_member = None \<and> members (metadata d) \<noteq> genesis_voters (cm_state genesis)
                            then Inl ''legacy snapshot differs from durable genesis'' else Inr ()) (\<lambda>_.
         let base = (case snap_member of Some s \<Rightarrow> s | None \<Rightarrow> genesis)
         in rbind (select_membership h snap_index base lg) (\<lambda>selected.
         let commit = max snap_index (cm_index selected)
         in rbind (replay base lg commit) (\<lambda>verified.
              if verified \<noteq> selected then Inl ''selected log has unrecorded committed configuration''
              else rbind (effective_after selected lg commit) (\<lambda>eff.
                Inr \<lparr>mr_committed = selected, mr_effective = eff, mr_commit_index = commit,
                     mr_refresh_hard = (membership h \<noteq> Some selected \<and>
                       (group_id (cm_state selected) \<noteq> LEGACY_GROUP_ID \<or> cm_index selected \<noteq> 0))\<rparr>)))))))"

section \<open>Group envelopes\<close>

definition unwrap_group_message :: "raft_node \<Rightarrow> raft_message \<Rightarrow> raft_message option" where
  "unwrap_group_message n msg =
     (let known = cm_state (committed_membership n)
      in case msg of
           GroupMessage g gv inner \<Rightarrow>
             if group_id known \<noteq> LEGACY_GROUP_ID \<and> g = group_id known \<and> gv = genesis_voters known \<and>
                \<not> is_group_message inner
             then Some inner else None
         | _ \<Rightarrow> if group_id known = LEGACY_GROUP_ID then Some msg else None)"

fun wrap_send :: "string \<Rightarrow> node_id list \<Rightarrow> effect \<Rightarrow> effect" where
  "wrap_send g gv (Send to msg) =
     (if is_group_message msg then Send to msg else Send to (GroupMessage g gv msg))"
| "wrap_send g gv e = e"

definition wrap_group_effects :: "raft_node \<Rightarrow> effect list \<Rightarrow> effect list" where
  "wrap_group_effects n es =
     (let known = cm_state (committed_membership n)
      in if group_id known = LEGACY_GROUP_ID then es
         else map (wrap_send (group_id known) (genesis_voters known)) es)"

section \<open>Advertisements and eligibility\<close>

definition on_membership_advertisement :: "node_id \<Rightarrow> raft_term \<Rightarrow> committed_membership \<Rightarrow> node_act" where
  "on_membership_advertisement from t conf n =
     (if from = self_id n \<or> t < term_of n \<or> cm_term conf > t \<or>
         \<not> vc_contains (voters (cm_state conf)) from \<or>
         \<not> is_consistent_extension_of conf (committed_membership n)
      then skip n
      else run [(case bt_get (endpoints (cm_state conf)) from of
                   None \<Rightarrow> skip
                 | Some ep \<Rightarrow> push (MembershipRouteHint from t ep)),
                modify (\<lambda>n. n\<lparr>membership_advertisements :=
                  bt_insert from (t, conf) (membership_advertisements n)\<rparr>)] n)"

definition may_replicate_from :: "raft_node \<Rightarrow> node_id \<Rightarrow> raft_term \<Rightarrow> bool" where
  "may_replicate_from n from t =
     (is_voter n from \<or>
      (case bt_get (membership_advertisements n) from of
         None \<Rightarrow> False
       | Some (at, history) \<Rightarrow> at = t \<and> is_consistent_extension_of history (committed_membership n)))"

definition may_vote_for :: "raft_node \<Rightarrow> node_id \<Rightarrow> raft_term \<Rightarrow> bool \<Rightarrow> log_index \<Rightarrow> raft_term \<Rightarrow> bool" where
  "may_vote_for n from t prospective last_index last_term =
     (if is_voter n (self_id n) \<and> is_voter n from then True
      else case bt_get (membership_advertisements n) from of
             None \<Rightarrow> False
           | Some (at, history) \<Rightarrow>
               (if prospective then checked_add at 1 else Some at) = Some t \<and>
               vc_contains (voters (cm_state history)) (self_id n) \<and>
               vc_contains (voters (cm_state history)) from \<and>
               (last_term > cm_term history \<or> last_term = cm_term history \<and> last_index \<ge> cm_index history) \<and>
               is_consistent_extension_of history (committed_membership n))"

definition membership_base :: "raft_node \<Rightarrow> committed_membership" where
  "membership_base n =
     (case snapshot n of
        None \<Rightarrow> genesis_membership n
      | Some d \<Rightarrow> (case sm_membership (metadata d) of None \<Rightarrow> genesis_membership n | Some c \<Rightarrow> c))"

definition membership_at :: "raft_node \<Rightarrow> log_index \<Rightarrow> committed_membership fallible" where
  "membership_at n i =
     (if i < snapshot_index n then Inl ''configuration predates retained snapshot''
      else replay (membership_base n) (log n) i)"

definition valid_configuration_suffix :: "raft_node \<Rightarrow> entry list \<Rightarrow> bool" where
  "valid_configuration_suffix n es = is_ok (replay (membership_base n) es u64_max)"

definition advertise_membership :: "node_id \<Rightarrow> node_act" where
  "advertise_membership to n =
     (case membership_at n (last_log_index n) of
        Inl _ \<Rightarrow> panic n
      | Inr conf \<Rightarrow>
          if group_id (cm_state conf) \<noteq> LEGACY_GROUP_ID \<and> vc_contains (voters (cm_state conf)) (self_id n)
          then push (Send to (MembershipAdvertisement (term_of n) conf)) n
          else skip n)"

definition advertise_replication_membership :: "node_id \<Rightarrow> node_act" where
  "advertise_replication_membership to n =
     (if group_id (cm_state (committed_membership n)) = LEGACY_GROUP_ID then skip n
      else case membership_at n (last_log_index n) of
        Inl _ \<Rightarrow> panic n
      | Inr conf \<Rightarrow>
          (case role n of
             Leader _ matched \<Rightarrow>
               if cm_index conf = 0 \<or>
                  (case bt_get matched to of None \<Rightarrow> 0 | Some m \<Rightarrow> m) \<ge> cm_index conf
               then skip n
               else if (case bt_get (advertisement_last n) to of
                          None \<Rightarrow> False
                        | Some (t, i, at) \<Rightarrow>
                            t = term_of n \<and> i = cm_index conf \<and>
                            saturating_sub (now_ms n) at < CHECK_QUORUM_MS)
               then skip n
               else run [modify (\<lambda>n. n\<lparr>advertisement_last :=
                                   bt_insert to (term_of n, cm_index conf, now_ms n) (advertisement_last n)\<rparr>),
                         advertise_membership to] n
           | _ \<Rightarrow> skip n))"

definition valid_snapshot_membership :: "raft_node \<Rightarrow> snapshot_descriptor \<Rightarrow> bool" where
  "valid_snapshot_membership n d =
     (if snapshot n = Some d then True
      else case sm_membership (metadata d) of
             Some incoming \<Rightarrow> is_consistent_extension_of incoming (committed_membership n)
           | None \<Rightarrow> group_id (cm_state (committed_membership n)) = LEGACY_GROUP_ID \<and>
                     members (metadata d) = node_members n)"

definition compaction_membership_matches :: "raft_node \<Rightarrow> snapshot_descriptor \<Rightarrow> bool" where
  "compaction_membership_matches n d =
     (case membership_at n (last_included_index (metadata d)) of
        Inl _ \<Rightarrow> False
      | Inr expected \<Rightarrow>
          (case sm_membership (metadata d) of
             Some actual \<Rightarrow> actual = expected
           | None \<Rightarrow> group_id (cm_state expected) = LEGACY_GROUP_ID \<and>
                     members (metadata d) = genesis_voters (cm_state expected)))"

section \<open>Effective configuration and commitment\<close>

definition update_replication_peers :: "raft_node \<Rightarrow> raft_node" where
  "update_replication_peers n =
     (let eff = effective_membership n;
          ps = filter (\<lambda>i. i \<noteq> self_id n) (sorted_list_of_set (participants eff \<union> retired eff));
          n' = n\<lparr>peers := ps\<rparr>; last_index = last_log_index n'
      in case role n' of
           Leader nxt mtc \<Rightarrow>
             let nxt = bt_retain (\<lambda>i. i \<in> set ps) nxt; mtc = bt_retain (\<lambda>i. i \<in> set ps) mtc;
                 nxt = fold (\<lambda>p m. bt_or_insert p (saturating_add last_index 1) m) ps nxt;
                 mtc = fold (\<lambda>p m. bt_or_insert p 0 m) ps mtc
             in n'\<lparr>role := Leader nxt mtc\<rparr>
         | _ \<Rightarrow> n')"

definition restart_quorum_round :: node_act where
  "restart_quorum_round n =
     (if \<not> is_leader n then become_follower n
      else case checked_add (contact_round n) 1 of
             Some round \<Rightarrow>
               modify (\<lambda>n. n\<lparr>contact_round := round, quorum_contacts := {self_id n},
                 quorum_deadline_ms := saturating_add (now_ms n) CHECK_QUORUM_MS,
                 heartbeat_due_ms := now_ms n\<rparr>) n
           | None \<Rightarrow> become_follower n)"

definition refresh_effective_membership :: node_act where
  "refresh_effective_membership n =
     (case effective_after (committed_membership n) (log n) (commit_index n) of
        Inl _ \<Rightarrow> panic n
      | Inr nxt \<Rightarrow>
          run [(\<lambda>n. if is_leader n \<and> \<not> vc_contains (voters nxt) (self_id n) \<and>
                      \<not> vc_contains (voters (cm_state (committed_membership n))) (self_id n)
                   then become_follower n else skip n),
               (\<lambda>n. if nxt = effective_membership n then skip n
                   else let voters_changed = (voters nxt \<noteq> voters (effective_membership n))
                        in run [modify (\<lambda>n. update_replication_peers (n\<lparr>effective_membership := nxt\<rparr>)),
                                (if voters_changed
                                 then run [reject_pending_reads LeadershipLost, restart_quorum_round,
                                           modify reset_election_deadline]
                                 else skip)] n)] n)"

definition advance_commit :: "log_index \<Rightarrow> node_act" where
  "advance_commit i n =
     (if i \<le> commit_index n then skip n
      else case membership_at n i of
        Inl _ \<Rightarrow> panic n
      | Inr nxt \<Rightarrow>
          let changed = (nxt \<noteq> committed_membership n)
          in run [(if changed
                   then run [modify (\<lambda>n. n\<lparr>hard := (hard n)\<lparr>membership := Some nxt\<rparr>\<rparr>),
                             (\<lambda>n. push (PersistHardState (hard n)) n)]
                   else skip),
                  modify (\<lambda>n. n\<lparr>commit_index := i\<rparr>),
                  refresh_effective_membership,
                  apply_committed,
                  (if changed then push (MembershipChanged nxt) else skip)] n)"

definition quorum_commit_candidate :: "raft_node \<Rightarrow> log_index option" where
  "quorum_commit_candidate n =
     (case role n of
        Leader _ mtc \<Rightarrow>
          let matched = bt_insert (self_id n) (last_log_index n) mtc;
              quorum_index = replicated_index (voter_config n) matched
          in map_option index
               (find (\<lambda>e. index e > commit_index n \<and> index e \<le> quorum_index \<and> e_term e = term_of n)
                  (rev (log n)))
      | _ \<Rightarrow> None)"

section \<open>Administrative changes\<close>

definition append_configuration :: "configuration_entry \<Rightarrow> raft_node \<Rightarrow> (log_index option \<times> raft_node \<times> effect list) option" where
  "append_configuration ce n =
     (case checked_add (last_log_index n) 1 of
        None \<Rightarrow> Some (None, n, [])
      | Some i \<Rightarrow>
          if \<not> i < u64_max then Some (None, n, [])
          else let e = \<lparr>index = i, e_term = term_of n, command = Configuration ce\<rparr>
               in map_option (\<lambda>(n', es). (Some i, n', es))
                    (run [modify (\<lambda>n. n\<lparr>log := log n @ [e]\<rparr>), push (PersistLogEntries None [e]),
                          refresh_effective_membership,
                          (\<lambda>n. case quorum_commit_candidate n of
                                 Some c \<Rightarrow> advance_commit c n | None \<Rightarrow> skip n)] n))"

definition reject_admin :: "raft_node \<Rightarrow> string \<Rightarrow> membership_outcome" where
  "reject_admin n reason = OutcomeRejected reason (leader_hint n)"

definition find_request :: "string \<Rightarrow> entry list \<Rightarrow> (log_index \<times> configuration_entry) option" where
  "find_request rid lg =
     (case find (\<lambda>e. case command e of Configuration ce \<Rightarrow> request_id ce = rid | _ \<Rightarrow> False) lg of
        None \<Rightarrow> None
      | Some e \<Rightarrow> (case command e of Configuration ce \<Rightarrow> Some (index e, ce) | _ \<Rightarrow> None))"

text \<open>
  The promotion fence of a voter change: the log position every new voter must have reached.
  It is kept while the same request is retried and refused when its payload changes.
\<close>

definition choose_fence :: "string \<Rightarrow> admin_operation \<Rightarrow> raft_node \<Rightarrow> (log_index \<times> raft_node) option" where
  "choose_fence rid op n =
     (case promotion_fence n of
        Some (fid, prior, fence) \<Rightarrow>
          if fid = rid \<and> prior = op then Some (fence, n)
          else if fid = rid then None
          else Some (last_log_index n, n\<lparr>promotion_fence := Some (rid, op, last_log_index n)\<rparr>)
      | None \<Rightarrow> Some (last_log_index n, n\<lparr>promotion_fence := Some (rid, op, last_log_index n)\<rparr>))"

definition learners_behind :: "raft_node \<Rightarrow> node_id list \<Rightarrow> log_index \<Rightarrow> bool" where
  "learners_behind n vs fence =
     (case role n of
        Leader _ mtc \<Rightarrow>
          list_ex (\<lambda>i. \<not> is_voter n i \<and>
            ((case bt_get mtc i of None \<Rightarrow> 0 | Some m \<Rightarrow> m) < fence \<or> i \<notin> quorum_contacts n)) vs
      | _ \<Rightarrow> False)"

definition admit_change :: "string \<Rightarrow> admin_operation \<Rightarrow> configuration_phase \<Rightarrow> raft_node \<Rightarrow>
    (membership_outcome \<times> raft_node \<times> effect list) option" where
  "admit_change rid op ph n =
     (case append_configuration \<lparr>request_id = rid, ce_operation = op, phase = ph\<rparr> n of
        None \<Rightarrow> None
      | Some (Some i, n', es) \<Rightarrow> Some (OutcomeAccepted i, n'\<lparr>promotion_fence := None\<rparr>, es)
      | Some (None, n', es) \<Rightarrow> Some (reject_admin n' ''log_index_exhausted'', n', es))"

definition admit_membership :: "string \<Rightarrow> admin_operation \<Rightarrow> raft_node \<Rightarrow>
    (membership_outcome \<times> raft_node \<times> effect list) option" where
  "admit_membership rid op n =
     (let reject = (\<lambda>n reason. Some (reject_admin n reason, n, []))
      in if \<not> is_leader n then reject n ''not_leader''
      else case bt_get (records (cm_state (committed_membership n))) rid of
        Some r \<Rightarrow> if operation r = op then Some (OutcomeRecorded r, n, [])
                  else reject n ''request_payload_changed''
      | None \<Rightarrow> (case find_request rid (log n) of
        Some (i, ce) \<Rightarrow> if ce_operation ce = op then Some (OutcomeAccepted i, n, [])
                        else reject n ''request_payload_changed''
      | None \<Rightarrow>
        if list_ex (\<lambda>e. index e > commit_index n \<and> is_configuration (command e)) (log n)
        then reject n ''membership_change_pending''
        else if commit_index n = 0 \<or> log_term n (commit_index n) \<noteq> Some (term_of n)
        then reject n ''current_term_not_committed''
        else case first_phase (cm_state (committed_membership n)) rid op of
          Inl reason \<Rightarrow> reject n reason
        | Inr ph \<Rightarrow>
          (case op of
             SetVoters vs \<Rightarrow>
               (case choose_fence rid op n of
                  None \<Rightarrow> reject n ''request_payload_changed''
                | Some (fence, n1) \<Rightarrow>
                    if learners_behind n1 vs fence then reject n1 ''learner_not_caught_up''
                    else admit_change rid op ph n1)
           | _ \<Rightarrow> admit_change rid op ph n)))"

definition on_membership_change :: "string \<Rightarrow> admin_operation \<Rightarrow> node_act" where
  "on_membership_change rid op n =
     (case admit_membership rid op n of
        None \<Rightarrow> None
      | Some (outcome, n', es) \<Rightarrow> Some (n', es @ [MembershipResult rid outcome]))"

definition maybe_finalize_membership :: node_act where
  "maybe_finalize_membership n =
     (if \<not> is_leader n \<or>
         list_ex (\<lambda>e. index e > commit_index n \<and> is_configuration (command e)) (log n)
      then skip n
      else case pending (cm_state (committed_membership n)) of
        None \<Rightarrow> skip n
      | Some (rid, r) \<Rightarrow>
          map_option (\<lambda>(_, n', es). (n', es))
            (append_configuration \<lparr>request_id = rid, ce_operation = operation r, phase = PhaseFinal\<rparr> n))"

section \<open>Group bootstrap and recovery\<close>

definition initialize_group :: "string \<Rightarrow> node_id list \<Rightarrow> raft_node \<Rightarrow> (raft_node \<times> effect list) fallible" where
  "initialize_group g gv n =
     rbind (cm_bootstrap_with_group g gv) (\<lambda>genesis.
       if group_id (cm_state genesis) = LEGACY_GROUP_ID then Inl ''explicit group required''
       else case membership (hard n) of
         Some existing \<Rightarrow>
           if group_id (cm_state existing) = group_id (cm_state genesis) \<and>
              genesis_voters (cm_state existing) = genesis_voters (cm_state genesis)
           then Inr (n, []) else Inl ''persisted group identity cannot be changed''
       | None \<Rightarrow>
           if now_ms n \<noteq> 0 \<or> election_deadline_ms n \<noteq> 0 \<or> role n \<noteq> Follower \<or>
              list_ex (\<lambda>e. is_configuration (command e)) (log n) \<or>
              ((log n \<noteq> [] \<or> snapshot n \<noteq> None) \<and>
               genesis_voters (cm_state (genesis_membership n)) \<noteq> genesis_voters (cm_state genesis))
           then Inl ''group migration requires a pre-service legacy configuration boundary''
           else let n' = update_replication_peers
                      (n\<lparr>genesis_membership := genesis, hard := (hard n)\<lparr>membership := Some genesis\<rparr>,
                         effective_membership := cm_state genesis\<rparr>)
                in Inr (n', [PersistHardState (hard n')]))"

text \<open>\<^verbatim>\<open>RaftNode::new_for_group\<close>; the outer \<open>None\<close> is a panic of the legacy constructor.\<close>

definition new_for_group :: "node_id \<Rightarrow> node_id list \<Rightarrow> nat \<Rightarrow> string \<Rightarrow> (raft_node \<times> effect list) fallible option" where
  "new_for_group i gv seed g =
     (case cm_bootstrap_with_group g gv of
        Inl e \<Rightarrow> Some (Inl e)
      | Inr _ \<Rightarrow>
          (case raft_new i (filter (\<lambda>p. p \<noteq> i) gv) seed of
             None \<Rightarrow> None
           | Some n \<Rightarrow> Some (initialize_group g gv n)))"

definition on_recover :: node_act where
  "on_recover n =
     (if \<not> recovery_pending n then skip n
      else run [modify (\<lambda>n. n\<lparr>recovery_pending := False\<rparr>),
                (\<lambda>n. if recovery_refresh_hard n
                     then run [push (PersistHardState (hard n)),
                               modify (\<lambda>n. n\<lparr>recovery_refresh_hard := False\<rparr>)] n
                     else skip n),
                apply_committed] n)"

end
