(* ===== verification/Snapshot.thy ===== *)
theory Snapshot
  imports Membership_Protocol
begin

text \<open>
  \<^verbatim>\<open>raft-core/src/snapshot.rs\<close>: compaction, publication and both ends of the chunked transfer.
  The reply handler, which calls back into replication, is in \<open>Replication\<close>.
\<close>

definition valid_chunk :: "snapshot_descriptor \<Rightarrow> nat \<Rightarrow> nat \<Rightarrow> bool \<Rightarrow> bool" where
  "valid_chunk d offset len is_done =
     (is_ok (descriptor_validate d) \<and> offset < total_len d \<and>
      offset mod MAX_SNAPSHOT_CHUNK_BYTES = 0 \<and>
      len = min (total_len d - offset) MAX_SNAPSHOT_CHUNK_BYTES \<and>
      is_done = (offset + len = total_len d))"

definition snapshot_reject :: "string \<Rightarrow> node_act" where
  "snapshot_reject reason = push (SnapshotRejected reason)"

definition retained_suffix :: "raft_node \<Rightarrow> snapshot_descriptor \<Rightarrow> entry list" where
  "retained_suffix n d =
     (let boundary = last_included_index (metadata d)
      in if log_term n boundary = Some (last_included_term (metadata d))
         then filter (\<lambda>e. index e > boundary) (log n) else [])"

definition on_compact :: "snapshot_descriptor \<Rightarrow> node_act" where
  "on_compact d n =
     (let boundary = last_included_index (metadata d)
      in if publishing_snapshot n \<noteq> None \<or> incoming_snapshot n \<noteq> None
         then snapshot_reject ''snapshot_busy'' n
         else if \<not> is_ok (descriptor_validate d) \<or> \<not> compaction_membership_matches n d \<or>
                 boundary \<le> snapshot_index n \<or> boundary > last_applied n \<or> boundary > commit_index n \<or>
                 log_term n boundary \<noteq> Some (last_included_term (metadata d))
         then snapshot_reject ''invalid_compaction_boundary'' n
         else let retained = retained_suffix n d
              in run [modify (\<lambda>n. n\<lparr>publishing_snapshot := Some
                         \<lparr>ps_transfer = None, ps_descriptor = d, ps_retained = retained, ps_contact_round = 0\<rparr>\<rparr>),
                      push (PublishSnapshot None d retained)] n)"

definition snapshot_reply :: "snapshot_transfer_id \<Rightarrow> nat \<Rightarrow> bool \<Rightarrow> bool \<Rightarrow> log_index \<Rightarrow> nat \<Rightarrow> node_act" where
  "snapshot_reply tr next_off accepted installed mtc round n =
     push (Send (st_leader_id tr)
       (InstallSnapshotReply (term_of n) tr next_off mtc accepted installed round)) n"

definition install_published :: "snapshot_transfer_id \<Rightarrow> snapshot_descriptor \<Rightarrow> nat \<Rightarrow> node_act" where
  "install_published tr d round =
     run [(\<lambda>n. case sm_membership (metadata d) of
                 None \<Rightarrow> skip n
               | Some c \<Rightarrow>
                   if membership (hard n) \<noteq> Some c
                   then run [modify (\<lambda>n. n\<lparr>hard := (hard n)\<lparr>membership := Some c\<rparr>\<rparr>),
                             (\<lambda>n. push (PersistHardState (hard n)) n)] n
                   else skip n),
          modify (\<lambda>n. n\<lparr>commit_index := last_included_index (metadata d)\<rparr>),
          refresh_effective_membership,
          modify (\<lambda>n. n\<lparr>last_applied := commit_index n, incoming_snapshot := None\<rparr>),
          push (ApplySnapshot d),
          snapshot_reply tr (total_len d) True True (last_included_index (metadata d)) round]"

definition on_snapshot_published :: "snapshot_transfer_id option \<Rightarrow> snapshot_descriptor \<Rightarrow> node_act" where
  "on_snapshot_published transfer d n =
     (case publishing_snapshot n of
        None \<Rightarrow> skip n
      | Some p \<Rightarrow>
          if ps_transfer p \<noteq> transfer \<or> ps_descriptor p \<noteq> d then skip n
          else run [modify (\<lambda>n. n\<lparr>publishing_snapshot := None, log := ps_retained p,
                             snapshot := Some d, outgoing_snapshots := []\<rparr>),
                    (case transfer of
                       None \<Rightarrow> skip
                     | Some tr \<Rightarrow> install_published tr d (ps_contact_round p))] n)"

definition start_outgoing :: "node_id \<Rightarrow> snapshot_descriptor \<Rightarrow> nat \<Rightarrow> raft_node \<Rightarrow> raft_node" where
  "start_outgoing to d sq n =
     n\<lparr>snapshot_sequence := sq,
       outgoing_snapshots := bt_insert to
         \<lparr>os_transfer = \<lparr>st_leader_id = self_id n, st_term = term_of n,
                         st_incarnation = campaign_incarnation n, st_sequence = sq\<rparr>,
          os_descriptor = d, os_offset = 0, reading = False, sent_end = None\<rparr>
         (outgoing_snapshots n)\<rparr>"

definition read_active_chunk :: "node_id \<Rightarrow> node_act" where
  "read_active_chunk to n =
     (case bt_get (outgoing_snapshots n) to of
        None \<Rightarrow> panic n
      | Some active \<Rightarrow>
          if reading active then skip n
          else run [modify (\<lambda>n. n\<lparr>outgoing_snapshots :=
                      bt_insert to (active\<lparr>reading := True\<rparr>) (outgoing_snapshots n)\<rparr>),
                    push (ReadSnapshotChunk to (os_transfer active) (os_descriptor active)
                            (os_offset active) MAX_SNAPSHOT_CHUNK_BYTES)] n)"

definition send_snapshot_chunk :: "node_id \<Rightarrow> node_act" where
  "send_snapshot_chunk to n =
     (if \<not> is_leader n then skip n
      else case snapshot n of
        None \<Rightarrow> skip n
      | Some d \<Rightarrow>
          if bt_get (outgoing_snapshots n) to = None
          then (case checked_add (snapshot_sequence n) 1 of
                  None \<Rightarrow> snapshot_reject ''snapshot_transfer_exhausted'' n
                | Some sq \<Rightarrow> run [modify (start_outgoing to d sq), read_active_chunk to] n)
          else read_active_chunk to n)"

definition on_snapshot_chunk_read :: "node_id \<Rightarrow> snapshot_transfer_id \<Rightarrow> snapshot_descriptor \<Rightarrow> nat \<Rightarrow>
    byte list \<Rightarrow> node_act" where
  "on_snapshot_chunk_read to tr d offset bytes n =
     (if \<not> is_leader n \<or> st_term tr \<noteq> term_of n then skip n
      else case bt_get (outgoing_snapshots n) to of
        None \<Rightarrow> skip n
      | Some active \<Rightarrow>
          if tr \<noteq> os_transfer active \<or> d \<noteq> os_descriptor active \<or> offset \<noteq> os_offset active \<or> \<not> reading active
          then skip n
          else let idle = active\<lparr>reading := False\<rparr>;
                   is_done = (checked_add offset (length bytes) = Some (total_len d))
               in if \<not> valid_chunk d offset (length bytes) is_done
                  then run [modify (\<lambda>n. n\<lparr>outgoing_snapshots := bt_insert to idle (outgoing_snapshots n)\<rparr>),
                            snapshot_reject ''invalid_snapshot_read''] n
                  else run [modify (\<lambda>n. n\<lparr>outgoing_snapshots := bt_insert to
                              (idle\<lparr>sent_end := Some (offset + length bytes)\<rparr>) (outgoing_snapshots n)\<rparr>),
                            (\<lambda>n. push (Send to (InstallSnapshot tr d offset bytes is_done (contact_round n))) n)] n)"

definition refuse_snapshot :: "snapshot_transfer_id \<Rightarrow> nat \<Rightarrow> node_act" where
  "refuse_snapshot tr next_off n = snapshot_reply tr next_off False False (last_log_index n) 0 n"

definition superseded_transfer :: "raft_node \<Rightarrow> snapshot_transfer_id \<Rightarrow> snapshot_descriptor \<Rightarrow> bool" where
  "superseded_transfer n tr d =
     (case last_snapshot_transfer n of
        None \<Rightarrow> False
      | Some (lst, last_d) \<Rightarrow>
          let older = (st_term tr < st_term lst \<or>
                st_term tr = st_term lst \<and>
                  (st_leader_id tr \<noteq> st_leader_id lst \<or> st_incarnation tr \<noteq> st_incarnation lst \<or>
                   st_sequence tr < st_sequence lst \<or>
                   last_included_index (metadata d) < last_included_index (metadata last_d)))
          in older \<or> (tr = lst \<and> d \<noteq> last_d))"

definition accept_chunk :: "snapshot_transfer_id \<Rightarrow> snapshot_descriptor \<Rightarrow> nat \<Rightarrow> byte list \<Rightarrow> bool \<Rightarrow>
    nat \<Rightarrow> bool \<Rightarrow> node_act" where
  "accept_chunk tr d offset bytes is_done round same_image n =
     (case incoming_snapshot n of
        None \<Rightarrow> panic n
      | Some active \<Rightarrow>
          if is_pending active \<noteq> None \<or> (offset > next_offset active \<and> \<not> same_image)
          then refuse_snapshot tr 0 n
          else run [modify (\<lambda>n. n\<lparr>incoming_snapshot :=
                      Some (active\<lparr>is_pending := Some (offset, offset + length bytes, round)\<rparr>)\<rparr>),
                    become_follower,
                    modify reset_election_deadline,
                    modify (\<lambda>n. n\<lparr>leader_hint := Some (st_leader_id tr),
                                  last_leader_contact_ms := Some (now_ms n)\<rparr>),
                    push (StageSnapshotChunk tr d offset bytes is_done)] n)"

definition on_install_snapshot :: "snapshot_transfer_id \<Rightarrow> snapshot_descriptor \<Rightarrow> nat \<Rightarrow> byte list \<Rightarrow> bool \<Rightarrow>
    nat \<Rightarrow> node_act" where
  "on_install_snapshot tr d offset bytes is_done round n =
     (if st_term tr < term_of n then refuse_snapshot tr 0 n
      else let same_image = (snapshot n = Some d);
               boundary = last_included_index (metadata d);
               same_transfer = (case incoming_snapshot n of
                  None \<Rightarrow> False
                | Some active \<Rightarrow> is_transfer active = tr \<and> is_descriptor active = d)
           in if publishing_snapshot n \<noteq> None \<or>
                 (\<not> same_image \<and> (boundary \<le> last_applied n \<or> boundary < commit_index n))
              then refuse_snapshot tr 0 n
              else if superseded_transfer n tr d then refuse_snapshot tr 0 n
              else if \<not> same_transfer \<and> offset \<noteq> 0 \<and> \<not> same_image then refuse_snapshot tr 0 n
              else run [(if same_transfer then skip
                         else run [cancel_incoming_snapshot,
                                   modify (\<lambda>n. n\<lparr>last_snapshot_transfer := Some (tr, d),
                                     incoming_snapshot := Some \<lparr>is_transfer = tr, is_descriptor = d,
                                                                next_offset = 0, is_pending = None\<rparr>\<rparr>)]),
                        accept_chunk tr d offset bytes is_done round same_image] n)"

definition chunk_staged_ok :: "snapshot_transfer_id \<Rightarrow> snapshot_descriptor \<Rightarrow> incoming_snapshot \<Rightarrow>
    nat \<Rightarrow> nat \<Rightarrow> nat \<Rightarrow> bool \<Rightarrow> node_act" where
  "chunk_staged_ok tr d active expected_end round next_off complete n =
     (let expected_next = (if snapshot n = Some d then total_len d else max (next_offset active) expected_end);
          boundary = last_included_index (metadata d)
      in if next_off \<noteq> expected_next \<or> next_off > total_len d \<or> complete \<noteq> (next_off = total_len d) \<or>
            (\<not> complete \<and> next_off mod MAX_SNAPSHOT_CHUNK_BYTES \<noteq> 0)
         then run [cancel_incoming_snapshot, refuse_snapshot tr 0] n
         else run [modify (\<lambda>n. n\<lparr>incoming_snapshot := Some (active\<lparr>is_pending := None, next_offset := next_off\<rparr>)\<rparr>),
           (\<lambda>n. if \<not> complete
                 then snapshot_reply tr next_off True False (last_log_index n) round n
                 else if snapshot n = Some d
                 then run [modify (\<lambda>n. n\<lparr>incoming_snapshot := None\<rparr>),
                           snapshot_reply tr next_off True True boundary round] n
                 else if boundary \<le> last_applied n \<or> boundary < commit_index n
                 then run [cancel_incoming_snapshot, refuse_snapshot tr next_off] n
                 else let retained = retained_suffix n d
                      in run [modify (\<lambda>n. n\<lparr>publishing_snapshot := Some
                                \<lparr>ps_transfer = Some tr, ps_descriptor = d, ps_retained = retained,
                                 ps_contact_round = round\<rparr>\<rparr>),
                              push (PublishSnapshot (Some tr) d retained)] n)] n)"

definition on_snapshot_chunk_staged :: "snapshot_transfer_id \<Rightarrow> snapshot_descriptor \<Rightarrow> nat \<Rightarrow>
    snapshot_stage_result \<Rightarrow> node_act" where
  "on_snapshot_chunk_staged tr d offset result n =
     (case incoming_snapshot n of
        None \<Rightarrow> skip n
      | Some active \<Rightarrow>
          if is_transfer active \<noteq> tr \<or> is_descriptor active \<noteq> d \<or> st_term tr \<noteq> term_of n then skip n
          else case is_pending active of
            None \<Rightarrow> skip n
          | Some (expected_offset, expected_end, round) \<Rightarrow>
              if expected_offset \<noteq> offset then skip n
              else run [modify (\<lambda>n. n\<lparr>incoming_snapshot := Some (active\<lparr>is_pending := None\<rparr>)\<rparr>),
                        (case result of
                           Rejected \<Rightarrow> refuse_snapshot tr (next_offset active)
                         | Accepted next_off complete \<Rightarrow>
                             chunk_staged_ok tr d active expected_end round next_off complete)] n)"

end
