(* ===== verification/Replication.thy ===== *)
theory Replication
  imports Snapshot
begin

text \<open>
  \<^verbatim>\<open>raft-core/src/replication.rs\<close>: framing checks, bounded AppendEntries batches, client
  proposals, the follower's consistency check and conflict repair, the leader's progress
  tracking with conflict-term hints; and the snapshot reply handler of \<^verbatim>\<open>snapshot.rs\<close>, which
  resumes replication.
\<close>

section \<open>Pure rules\<close>

fun validate_entries :: "raft_term \<Rightarrow> log_index \<Rightarrow> nat \<Rightarrow> raft_term \<Rightarrow> entry list \<Rightarrow> bool" where
  "validate_entries mt prev off pt [] = True"
| "validate_entries mt prev off pt (e # es) =
     (case Option.bind (checked_add prev 1) (\<lambda>p. checked_add p off) of
        None \<Rightarrow> False
      | Some expected \<Rightarrow>
          if index e \<noteq> expected \<or> e_term e < pt \<or> e_term e > mt then False
          else validate_entries mt prev (off + 1) (e_term e) es)"

definition validate_append_entries :: "raft_term \<Rightarrow> log_index \<Rightarrow> raft_term \<Rightarrow> entry list \<Rightarrow> log_index option" where
  "validate_append_entries mt prev prev_term es =
     (if prev_term > mt then None
      else case checked_add prev (length es) of
        None \<Rightarrow> None
      | Some last_index \<Rightarrow> if validate_entries mt prev 0 prev_term es then Some last_index else None)"

definition commit_advance :: "log_index \<Rightarrow> raft_term \<Rightarrow> entry list \<Rightarrow> log_index list \<Rightarrow> log_index option" where
  "commit_advance current t lg match_indexes =
     (let maj = length match_indexes div 2 + 1
      in map_option index
           (find (\<lambda>e. length (filter (\<lambda>m. m \<ge> index e) match_indexes) \<ge> maj \<and> e_term e = t)
              (takeWhile (\<lambda>e. index e > current) (rev lg))))"

text \<open>\<^verbatim>\<open>slice::partition_point\<close>, by its documented meaning on a partitioned slice.\<close>

definition partition_point :: "('a \<Rightarrow> bool) \<Rightarrow> 'a list \<Rightarrow> nat" where
  "partition_point P xs = length (takeWhile P xs)"

section \<open>Leader: sending\<close>

definition append_batch :: "raft_node \<Rightarrow> log_index \<Rightarrow> entry list" where
  "append_batch n prev =
     (let from = prev - snapshot_index n;
          upto = min (from + MAX_APPEND_ENTRIES) (length (log n))
      in if from \<le> upto then take (upto - from) (drop from (log n)) else [])"

definition append_message :: "raft_node \<Rightarrow> log_index \<Rightarrow> raft_message" where
  "append_message n prev =
     AppendEntries (term_of n) (self_id n) prev (term_at n prev) (append_batch n prev)
       (commit_index n) (contact_round n)"

definition send_append_to :: "(node_id, log_index) btree \<Rightarrow> node_id \<Rightarrow> node_act" where
  "send_append_to nxt peer =
     run [advertise_replication_membership peer,
          (\<lambda>n. let nx = (case bt_get nxt peer of
                           None \<Rightarrow> saturating_add (last_log_index n) 1 | Some i \<Rightarrow> i)
               in if nx \<le> snapshot_index n then send_snapshot_chunk peer n
                  else run [modify (\<lambda>n. n\<lparr>outgoing_snapshots := bt_remove peer (outgoing_snapshots n)\<rparr>),
                            (\<lambda>n. push (Send peer (append_message n (nx - 1))) n)] n)]"

definition send_append_entries :: node_act where
  "send_append_entries n =
     (case role n of
        Leader nxt _ \<Rightarrow> for_each (peers n) (send_append_to nxt) n
      | _ \<Rightarrow> skip n)"

section \<open>Leader: client proposals\<close>

fun number_entries :: "log_index \<Rightarrow> raft_term \<Rightarrow> command list \<Rightarrow> entry list" where
  "number_entries lst t [] = []"
| "number_entries lst t (c # cs) = \<lparr>index = lst + 1, e_term = t, command = c\<rparr> # number_entries (lst + 1) t cs"

definition on_client_propose_batch :: "command list \<Rightarrow> node_act" where
  "on_client_propose_batch cmds n =
     (if cmds = [] then skip n
      else let lst = last_log_index n;
               final = (case checked_add lst (length cmds) of
                          None \<Rightarrow> None | Some i \<Rightarrow> if i < u64_max then Some i else None)
           in if \<not> is_leader n \<or> \<not> is_voter n (self_id n) \<or> list_ex is_configuration cmds \<or>
                 length cmds > MAX_PROPOSAL_BATCH \<or> final = None
              then push_all (map (\<lambda>_. ProposeRejected (leader_hint n)) cmds) n
              else let es = number_entries lst (term_of n) cmds
                   in run [modify (\<lambda>n. n\<lparr>log := log n @ es\<rparr>),
                           push (PersistLogEntries None es),
                           push_all (map (\<lambda>e. ProposeAccepted (index e)) es),
                           (\<lambda>n. if self_quorum n then advance_commit (the final) n else skip n)] n)"

definition on_client_propose :: "command \<Rightarrow> node_act" where
  "on_client_propose c = on_client_propose_batch [c]"

section \<open>Follower: accepting entries\<close>

fun candidate_log :: "log_index \<Rightarrow> entry list \<Rightarrow> entry list \<Rightarrow> entry list" where
  "candidate_log base cand [] = cand"
| "candidate_log base cand (e # es) =
     (let off = index e - base - 1
      in case slice_get cand off of
           Some old \<Rightarrow> if e_term old = e_term e then candidate_log base cand es
                       else candidate_log base (take off cand @ [e]) es
         | None \<Rightarrow> candidate_log base (take off cand @ [e]) es)"

fun merge_entries :: "raft_node \<Rightarrow> log_index option \<Rightarrow> entry list \<Rightarrow> entry list \<Rightarrow>
    raft_node \<times> log_index option \<times> entry list" where
  "merge_entries n tf app [] = (n, tf, app)"
| "merge_entries n tf app (e # es) =
     (if index e > last_log_index n then merge_entries n tf (app @ [e]) es
      else if term_at n (index e) = e_term e then merge_entries n tf app es
      else merge_entries (n\<lparr>log := take (index e - snapshot_index n - 1) (log n)\<rparr>)
             (Some (index e)) (app @ [e]) es)"

definition append_conflict_hint :: "raft_node \<Rightarrow> log_index \<Rightarrow> append_conflict_hint option option" where
  "append_conflict_hint n rejected =
     (let t = log_term n rejected;
          hint = (\<lambda>i. Some (Some \<lparr>rejected_index = rejected, hint_term = t, hint_first_index = i\<rparr>))
      in case t of
           Some tm \<Rightarrow>
             if tm = 0 then Some None
             else if snapshot_term n = tm then hint (snapshot_index n)
             else (case slice_get (log n) (partition_point (\<lambda>e. e_term e < tm) (log n)) of
                     None \<Rightarrow> None
                   | Some e \<Rightarrow> hint (index e))
         | None \<Rightarrow> (case checked_add (last_log_index n) 1 of None \<Rightarrow> Some None | Some i \<Rightarrow> hint i))"

definition append_reply :: "node_id \<Rightarrow> bool \<Rightarrow> log_index \<Rightarrow> nat \<Rightarrow> append_conflict_hint option \<Rightarrow> node_act" where
  "append_reply to success mtc round conflict n =
     push (Send to (AppendEntriesReply (term_of n) success mtc round conflict)) n"

definition store_entries :: "entry list \<Rightarrow> node_act" where
  "store_entries es n =
     (case merge_entries n None [] es of
        (n1, tf, app) \<Rightarrow>
          if app = [] then Some (n1, [])
          else run [modify (\<lambda>n. n\<lparr>log := log n @ app\<rparr>), push (PersistLogEntries tf app)] n1)"

definition accept_entries :: "node_id \<Rightarrow> log_index \<Rightarrow> raft_term \<Rightarrow> entry list \<Rightarrow> log_index \<Rightarrow> log_index \<Rightarrow> nat \<Rightarrow> node_act" where
  "accept_entries ldr prev prev_term es payload_last ldr_commit round n =
     (if prev < snapshot_index n
      then push (Send ldr (CompactedPrefix (term_of n) (snapshot_index n) (snapshot_term n) round)) n
      else if log_term n prev \<noteq> Some prev_term
      then (case append_conflict_hint n prev of
              None \<Rightarrow> panic n
            | Some conflict \<Rightarrow> append_reply ldr False (last_log_index n) round conflict n)
      else if list_ex (\<lambda>e. index e \<le> commit_index n \<and> log_term n (index e) \<noteq> Some (e_term e)) es
      then append_reply ldr False (last_log_index n) round None n
      else if \<not> valid_configuration_suffix n (candidate_log (snapshot_index n) (log n) es)
      then append_reply ldr False (last_log_index n) 0 None n
      else run [store_entries es,
                (\<lambda>n. let new_commit = min ldr_commit payload_last
                     in if new_commit > commit_index n then advance_commit new_commit n
                        else refresh_effective_membership n),
                append_reply ldr True payload_last round None] n)"

definition on_append_entries :: "raft_term \<Rightarrow> node_id \<Rightarrow> log_index \<Rightarrow> raft_term \<Rightarrow> entry list \<Rightarrow> log_index \<Rightarrow>
    log_index \<Rightarrow> nat \<Rightarrow> node_act" where
  "on_append_entries t ldr prev prev_term es payload_last ldr_commit round n =
     (if t < term_of n then append_reply ldr False (last_log_index n) round None n
      else run [become_follower,
                modify reset_election_deadline,
                modify (\<lambda>n. n\<lparr>leader_hint := Some ldr, last_leader_contact_ms := Some (now_ms n)\<rparr>),
                accept_entries ldr prev prev_term es payload_last ldr_commit round] n)"

section \<open>Leader: replies\<close>

definition last_index_in_term :: "raft_node \<Rightarrow> raft_term \<Rightarrow> log_index option" where
  "last_index_in_term n t =
     (let e = partition_point (\<lambda>e. e_term e \<le> t) (log n);
          found = (case checked_sub e 1 of
                     None \<Rightarrow> None
                   | Some i \<Rightarrow> (case slice_get (log n) i of
                                  None \<Rightarrow> None
                                | Some x \<Rightarrow> if e_term x = t then Some (index x) else None))
      in case found of
           Some i \<Rightarrow> Some i
         | None \<Rightarrow> if snapshot_term n = t then Some (snapshot_index n) else None)"

definition hint_valid :: "raft_node \<Rightarrow> raft_term \<Rightarrow> bool \<Rightarrow> log_index \<Rightarrow> append_conflict_hint \<Rightarrow> bool" where
  "hint_valid n t success mtc h =
     (\<not> success \<and> hint_first_index h > 0 \<and> hint_first_index h \<le> rejected_index h \<and>
      (case hint_term h of
         Some ct \<Rightarrow> ct > 0 \<and> ct \<le> t \<and> rejected_index h \<le> mtc \<and> log_term n (rejected_index h) \<noteq> Some ct
       | None \<Rightarrow> checked_add mtc 1 = Some (hint_first_index h)))"

definition hinted_next :: "raft_node \<Rightarrow> append_conflict_hint \<Rightarrow> log_index" where
  "hinted_next n h =
     (case Option.bind (hint_term h) (last_index_in_term n) of
        None \<Rightarrow> hint_first_index h
      | Some i \<Rightarrow> saturating_add i 1)"

definition note_contact :: "node_id \<Rightarrow> nat \<Rightarrow> raft_node \<Rightarrow> raft_node" where
  "note_contact from round n =
     (if round \<noteq> 0 \<and> round = contact_round n
      then n\<lparr>quorum_contacts := insert from (quorum_contacts n)\<rparr> else n)"

definition record_success :: "node_id \<Rightarrow> log_index \<Rightarrow> (node_id, log_index) btree \<Rightarrow> (node_id, log_index) btree \<Rightarrow>
    log_index \<Rightarrow> role" where
  "record_success from mtc nxt mat matched =
     (let matched' = max matched mtc
      in Leader (bt_insert from (saturating_add matched' 1) nxt) (bt_insert from matched' mat))"

definition record_failure :: "node_id \<Rightarrow> log_index \<Rightarrow> log_index option \<Rightarrow> (node_id, log_index) btree \<Rightarrow>
    (node_id, log_index) btree \<Rightarrow> log_index \<Rightarrow> log_index \<Rightarrow> role" where
  "record_failure from mtc hinted nxt mat nx matched =
     (let flr = max (saturating_add matched 1) 1;
          cand = (case hinted of None \<Rightarrow> saturating_add mtc 1 | Some i \<Rightarrow> i)
      in Leader (bt_insert from (max (min cand (saturating_sub nx 1)) flr) nxt) mat)"

definition on_append_entries_reply :: "node_id \<Rightarrow> raft_term \<Rightarrow> bool \<Rightarrow> log_index \<Rightarrow> nat \<Rightarrow>
    append_conflict_hint option \<Rightarrow> node_act" where
  "on_append_entries_reply from t success mtc round conflict n =
     (if t \<noteq> term_of n then skip n
      else if success \<and> mtc > last_log_index n then skip n
      else if (case conflict of None \<Rightarrow> False | Some h \<Rightarrow> \<not> hint_valid n t success mtc h) then skip n
      else case role n of
        Leader nxt mat \<Rightarrow>
          (case (bt_get nxt from, bt_get mat from) of
             (Some nx, Some matched) \<Rightarrow>
               if (case conflict of
                     None \<Rightarrow> False
                   | Some h \<Rightarrow> rejected_index h \<noteq> saturating_sub nx 1 \<or> rejected_index h \<le> matched)
               then skip n
               else if success
               then run [modify (note_contact from round),
                         modify (\<lambda>n. n\<lparr>role := record_success from mtc nxt mat matched\<rparr>),
                         (\<lambda>n. case quorum_commit_candidate n of
                                Some c \<Rightarrow> advance_commit c n | None \<Rightarrow> skip n)] n
               else run [modify (note_contact from round),
                         modify (\<lambda>n. n\<lparr>role := record_failure from mtc (map_option (hinted_next n) conflict)
                                          nxt mat nx matched\<rparr>)] n
           | _ \<Rightarrow> skip n)
      | _ \<Rightarrow> skip n)"

definition reply_next_index :: "node_id \<Rightarrow> log_index \<Rightarrow> raft_node \<Rightarrow> raft_node" where
  "reply_next_index from i n =
     (case role n of
        Leader nxt mat \<Rightarrow> n\<lparr>role := Leader (bt_insert from i nxt) mat\<rparr>
      | _ \<Rightarrow> n)"

definition on_install_snapshot_reply :: "node_id \<Rightarrow> raft_term \<Rightarrow> snapshot_transfer_id \<Rightarrow> nat \<Rightarrow> log_index \<Rightarrow>
    bool \<Rightarrow> bool \<Rightarrow> nat \<Rightarrow> node_act" where
  "on_install_snapshot_reply from t tr next_off mtc accepted installed round n =
     (if t \<noteq> term_of n \<or> st_term tr \<noteq> t \<or> \<not> is_leader n then skip n
      else case bt_get (outgoing_snapshots n) from of
        None \<Rightarrow> skip n
      | Some active \<Rightarrow>
          let d = os_descriptor active; boundary = last_included_index (metadata d)
          in if os_transfer active \<noteq> tr \<or> sent_end active = None then skip n
             else if \<not> accepted
             then run [modify (\<lambda>n. if mtc \<ge> boundary \<and> mtc \<le> last_log_index n
                                   then reply_next_index from (saturating_add mtc 1) n else n),
                       modify (\<lambda>n. n\<lparr>outgoing_snapshots := bt_remove from (outgoing_snapshots n)\<rparr>)] n
             else if \<not> (if installed then next_off = total_len d \<and> mtc = boundary
                        else Some next_off = sent_end active \<and> next_off < total_len d \<and> next_off > os_offset active)
             then skip n
             else run [modify (note_contact from round),
                       (if installed
                        then run [modify (\<lambda>n. n\<lparr>outgoing_snapshots := bt_remove from (outgoing_snapshots n)\<rparr>),
                                  on_append_entries_reply from t True mtc 0 None,
                                  send_append_entries]
                        else run [modify (\<lambda>n. n\<lparr>outgoing_snapshots := bt_insert from
                                    (active\<lparr>os_offset := next_off, sent_end := None, reading := False\<rparr>)
                                    (outgoing_snapshots n)\<rparr>),
                                  send_snapshot_chunk from])] n)"

section \<open>Numbering proposals\<close>

lemma number_entries_Nil [simp]: "number_entries l t cs = [] \<longleftrightarrow> cs = []"
  by (cases cs) auto

lemma last_number_entries:
  "cmds \<noteq> [] \<Longrightarrow> index (last (number_entries l t cmds)) = l + length cmds \<and>
     e_term (last (number_entries l t cmds)) = t"
  by (induction l t cmds rule: number_entries.induct) auto

end
