(* ===== verification/Election.thy ===== *)
theory Election
  imports Replication
begin

text \<open>
  \<^verbatim>\<open>raft-core/src/election.rs\<close>: the vote decision, pre-votes, campaigns, vote counting and the
  transition to leadership.
\<close>

record request_vote_rq =
  rq_term :: raft_term
  rq_candidate_id :: node_id
  rq_last_log_index :: log_index
  rq_last_log_term :: raft_term

definition decide_vote :: "hard_state \<Rightarrow> log_index \<times> raft_term \<Rightarrow> request_vote_rq \<Rightarrow> bool" where
  "decide_vote h my_last req =
     (let vote_free = (case voted_for h of None \<Rightarrow> True | Some already \<Rightarrow> already = rq_candidate_id req)
      in if \<not> vote_free then False
         else let (my_last_index, my_last_term) = my_last
              in rq_last_log_term req > my_last_term \<or>
                 (rq_last_log_term req = my_last_term \<and> rq_last_log_index req \<ge> my_last_index))"

definition install_leader :: "log_index \<Rightarrow> raft_node \<Rightarrow> raft_node" where
  "install_leader nx n =
     n\<lparr>role := Leader (fold (\<lambda>p. bt_insert p nx) (peers n) []) (fold (\<lambda>p. bt_insert p 0) (peers n) []),
       read_context := 0, contact_round := 1,
       quorum_deadline_ms := saturating_add (now_ms n) CHECK_QUORUM_MS,
       quorum_contacts := {self_id n}\<rparr>"

definition become_leader :: node_act where
  "become_leader n =
     (case checked_add (last_log_index n) 1 of
        Some nx \<Rightarrow>
          if nx < u64_max
          then let noop = \<lparr>index = nx, e_term = term_of n, command = NoOp\<rparr>;
                   n1 = (install_leader nx n)\<lparr>log := log n @ [noop]\<rparr>
               in case (if self_quorum n1 then advance_commit (last_log_index n1) n1 else skip n1) of
                    None \<Rightarrow> None
                  | Some (n2, committed) \<Rightarrow>
                      run [push (PersistLogEntries None [noop]),
                           push_all (filter is_persist_hard committed),
                           (\<lambda>n. push (RoleChanged ''Leader'' (term_of n)) n),
                           send_append_entries,
                           modify (\<lambda>n. n\<lparr>heartbeat_due_ms := saturating_add (now_ms n) HEARTBEAT_MS\<rparr>),
                           push_all (filter (\<lambda>e. \<not> is_persist_hard e) committed)] n2
          else run [modify (\<lambda>n. n\<lparr>campaign_exhausted := True\<rparr>), become_follower,
                    modify (\<lambda>n. n\<lparr>leader_hint := None\<rparr>)] n
      | None \<Rightarrow>
          run [modify (\<lambda>n. n\<lparr>campaign_exhausted := True\<rparr>), become_follower,
               modify (\<lambda>n. n\<lparr>leader_hint := None\<rparr>)] n)"

definition solicit_vote :: "node_id \<Rightarrow> node_act" where
  "solicit_vote peer n =
     (if \<not> is_voter n peer then skip n
      else run [advertise_membership peer,
                (\<lambda>n. push (Send peer (RequestVote (term_of n) (self_id n) (last_log_index n) (last_log_term n))) n)] n)"

definition start_election :: node_act where
  "start_election n =
     (if \<not> is_voter n (self_id n) then skip n
      else case checked_add (term_of n) 1 of
        None \<Rightarrow> run [modify (\<lambda>n. n\<lparr>campaign_exhausted := True\<rparr>), become_follower] n
      | Some t \<Rightarrow>
          run [modify (\<lambda>n. n\<lparr>hard := (hard n)\<lparr>current_term := t, voted_for := Some (self_id n)\<rparr>,
                             role := Candidate {self_id n}\<rparr>),
               modify reset_election_deadline,
               (\<lambda>n. push (PersistHardState (hard n)) n),
               (\<lambda>n. if self_quorum n then become_leader n
                    else run [push (RoleChanged ''Candidate'' (term_of n)),
                              for_each (peers n) solicit_vote] n)] n)"

definition solicit_pre_vote :: "raft_term \<Rightarrow> campaign_id \<Rightarrow> node_id \<Rightarrow> node_act" where
  "solicit_pre_vote pt cid peer n =
     (if \<not> is_voter n peer then skip n
      else run [advertise_membership peer,
                (\<lambda>n. push (Send peer (PreVote pt cid (self_id n) (last_log_index n) (last_log_term n))) n)] n)"

definition start_pre_vote :: node_act where
  "start_pre_vote n =
     (if \<not> is_voter n (self_id n) then skip n
      else run [cancel_incoming_snapshot,
        (\<lambda>n. case (checked_add (term_of n) 1, checked_add (campaign_sequence n) 1) of
               (Some pt, Some sq) \<Rightarrow>
                 let cid = \<lparr>incarnation = campaign_incarnation n, sequence = sq\<rparr>
                 in run [modify (\<lambda>n. n\<lparr>campaign_sequence := sq, leader_hint := None,
                                       role := PreCandidate pt cid {self_id n}\<rparr>),
                         modify reset_election_deadline,
                         (\<lambda>n. if self_quorum n then start_election n
                              else run [push (RoleChanged ''PreCandidate'' (term_of n)),
                                        for_each (peers n) (solicit_pre_vote pt cid)] n)] n
             | _ \<Rightarrow> run [modify (\<lambda>n. n\<lparr>campaign_exhausted := True\<rparr>), become_follower] n)] n)"

definition on_pre_vote :: "raft_term \<Rightarrow> campaign_id \<Rightarrow> node_id \<Rightarrow> log_index \<Rightarrow> raft_term \<Rightarrow> node_act" where
  "on_pre_vote pt cid cand last_index last_term n =
     (let recent_leader = (case last_leader_contact_ms n of
              None \<Rightarrow> False | Some at \<Rightarrow> saturating_sub (now_ms n) at < CHECK_QUORUM_MS);
          fresh_log = (last_term > last_log_term n \<or> last_term = last_log_term n \<and> last_index \<ge> last_log_index n);
          granted = (may_vote_for n cand pt True last_index last_term \<and> pt > term_of n \<and> fresh_log \<and>
                     \<not> is_leader n \<and> \<not> recent_leader)
      in push (Send cand (PreVoteReply (term_of n) pt cid granted)) n)"

definition on_pre_vote_reply :: "node_id \<Rightarrow> raft_term \<Rightarrow> raft_term \<Rightarrow> campaign_id \<Rightarrow> bool \<Rightarrow> node_act" where
  "on_pre_vote_reply from t pt cid granted n =
     (if \<not> granted \<or> t \<ge> pt \<or> \<not> is_voter n from then skip n
      else case role n of
        PreCandidate expected_term expected_id votes \<Rightarrow>
          if pt \<noteq> expected_term \<or> cid \<noteq> expected_id then skip n
          else let votes' = insert from votes
               in run [modify (\<lambda>n. n\<lparr>role := PreCandidate expected_term expected_id votes'\<rparr>),
                       (\<lambda>n. if has_quorum (voter_config n) votes' then start_election n else skip n)] n
      | _ \<Rightarrow> skip n)"

definition on_request_vote :: "raft_term \<Rightarrow> node_id \<Rightarrow> log_index \<Rightarrow> raft_term \<Rightarrow> node_act" where
  "on_request_vote t cand last_index last_term n =
     (if t < term_of n then push (Send cand (RequestVoteReply (term_of n) False)) n
      else let req = \<lparr>rq_term = t, rq_candidate_id = cand, rq_last_log_index = last_index, rq_last_log_term = last_term\<rparr>;
               grant = (may_vote_for n cand t False last_index last_term \<and>
                        decide_vote (hard n) (last_log_index n, last_log_term n) req)
           in run [(if grant
                    then run [modify (\<lambda>n. n\<lparr>hard := (hard n)\<lparr>voted_for := Some cand\<rparr>\<rparr>),
                              modify reset_election_deadline,
                              (\<lambda>n. push (PersistHardState (hard n)) n)]
                    else skip),
                   (\<lambda>n. push (Send cand (RequestVoteReply (term_of n) grant)) n)] n)"

definition on_request_vote_reply :: "node_id \<Rightarrow> raft_term \<Rightarrow> bool \<Rightarrow> node_act" where
  "on_request_vote_reply from t granted n =
     (if t \<noteq> term_of n \<or> \<not> granted \<or> \<not> is_voter n from then skip n
      else case role n of
        Candidate votes \<Rightarrow>
          let votes' = insert from votes
          in run [modify (\<lambda>n. n\<lparr>role := Candidate votes'\<rparr>),
                  (\<lambda>n. if has_quorum (voter_config n) votes' then become_leader n else skip n)] n
      | _ \<Rightarrow> skip n)"

end
