(* ===== verification/Read.thy ===== *)
theory Read
  imports Replication
begin

text \<open>
  \<^verbatim>\<open>raft-core/src/read.rs\<close>: ReadIndex.  Every local read gets a context of its own and a fresh
  quorum challenge; nothing here appends, persists or applies.
\<close>

definition read_refusal :: "raft_node \<Rightarrow> read_reject_reason option" where
  "read_refusal n =
     (if \<not> is_leader n \<or> \<not> is_voter n (self_id n) then Some NotLeader
      else if commit_index n = 0 \<or> term_at n (commit_index n) \<noteq> term_of n then Some NotReady
      else if length (pending_reads n) \<ge> MAX_PENDING_READS then Some Capacity
      else if read_context n = u64_max then Some ContextExhausted
      else None)"

definition send_probe :: "nat \<Rightarrow> node_id \<Rightarrow> node_act" where
  "send_probe ctx peer n =
     (if \<not> is_voter n peer then skip n
      else push (Send peer (ReadProbe (term_of n) (self_id n) ctx)) n)"

definition on_read_index :: "nat \<Rightarrow> node_act" where
  "on_read_index rid n =
     (if bt_contains rid (pending_reads n) then skip n
      else case read_refusal n of
        Some reason \<Rightarrow> push (ReadRejected rid (leader_hint n) reason) n
      | None \<Rightarrow>
          let ctx = read_context n + 1
          in run [modify (\<lambda>n. n\<lparr>read_context := ctx\<rparr>),
                  (\<lambda>n. if self_quorum n
                       then push (ReadReady rid ctx (commit_index n) (term_of n)) n
                       else run [modify (\<lambda>n. n\<lparr>pending_reads := bt_insert rid
                                   \<lparr>pr_context = ctx, pr_term = term_of n, pr_index = commit_index n,
                                    pr_voters = {self_id n}\<rparr> (pending_reads n)\<rparr>),
                                 (\<lambda>n. for_each (peers n) (send_probe ctx) n)] n)] n)"

definition on_read_probe :: "raft_term \<Rightarrow> node_id \<Rightarrow> nat \<Rightarrow> node_act" where
  "on_read_probe t ldr ctx n =
     (let accepted = (t = term_of n \<and> is_voter n (self_id n) \<and> is_voter n ldr)
      in run [(if accepted
               then run [become_follower, modify reset_election_deadline,
                         modify (\<lambda>n. n\<lparr>last_leader_contact_ms := Some (now_ms n), leader_hint := Some ldr\<rparr>)]
               else skip),
              (\<lambda>n. push (Send ldr (ReadProbeReply (term_of n) ctx accepted)) n)] n)"

definition on_read_probe_reply :: "node_id \<Rightarrow> raft_term \<Rightarrow> nat \<Rightarrow> bool \<Rightarrow> node_act" where
  "on_read_probe_reply from t ctx accepted n =
     (if \<not> is_leader n \<or> \<not> accepted \<or> t \<noteq> term_of n \<or> \<not> is_voter n from then skip n
      else case find (\<lambda>(_, p). pr_context p = ctx \<and> pr_term p = t) (pending_reads n) of
        None \<Rightarrow> skip n
      | Some (rid, p) \<Rightarrow>
          let p' = p\<lparr>pr_voters := insert from (pr_voters p)\<rparr>
          in if has_quorum (voter_config n) (pr_voters p')
             then run [modify (\<lambda>n. n\<lparr>pending_reads := bt_remove rid (pending_reads n)\<rparr>),
                       push (ReadReady rid ctx (pr_index p) t)] n
             else modify (\<lambda>n. n\<lparr>pending_reads := bt_insert rid p' (pending_reads n)\<rparr>) n)"

definition cancel_read :: "nat \<Rightarrow> node_act" where
  "cancel_read rid n =
     (if bt_contains rid (pending_reads n)
      then run [modify (\<lambda>n. n\<lparr>pending_reads := bt_remove rid (pending_reads n)\<rparr>),
                (\<lambda>n. push (ReadRejected rid (leader_hint n) Cancelled) n)] n
      else skip n)"

end
