(* ===== verification/Step.thy ===== *)
theory Step
  imports Election Read
begin

text \<open>
  The top of \<^verbatim>\<open>raft-core/src/lib.rs\<close>: restoring a node from its durable state, the tick and
  message dispatchers, and \<open>step\<close>, the whole pure boundary.
\<close>

section \<open>Restore\<close>

fun check_log :: "raft_term \<Rightarrow> log_index \<Rightarrow> nat \<Rightarrow> raft_term \<Rightarrow> entry list \<Rightarrow> restore_error + unit" where
  "check_log ct base off prev [] = Inr ()"
| "check_log ct base off prev (e # es) =
     (case Option.bind (checked_add base off) (\<lambda>v. checked_add v 1) of
        None \<Rightarrow> Inl (InvalidSnapshot ''log index overflow'')
      | Some expected \<Rightarrow>
          if index e \<noteq> expected then Inl (NonContiguousIndex expected (index e))
          else if e_term e < prev then Inl (TermRegression (index e) prev (e_term e))
          else if e_term e > ct then Inl (EntryTermExceedsCurrent (index e) (e_term e) ct)
          else check_log ct base (off + 1) (e_term e) es)"

definition lift_err :: "'a fallible \<Rightarrow> restore_error + 'a" where
  "lift_err r = (case r of Inl e \<Rightarrow> Inl (InvalidSnapshot e) | Inr x \<Rightarrow> Inr x)"

definition check_image :: "hard_state \<Rightarrow> snapshot_descriptor option \<Rightarrow> restore_error + unit" where
  "check_image h img =
     (case img of
        None \<Rightarrow> Inr ()
      | Some d \<Rightarrow> rbind (lift_err (descriptor_validate d)) (\<lambda>_.
          if last_included_term (metadata d) > current_term h
          then Inl (InvalidSnapshot ''membership or hard term mismatch'') else Inr ()))"

text \<open>\<^verbatim>\<open>restore_with_snapshot\<close>; the outer \<open>None\<close> is a panic of \<^verbatim>\<open>RaftNode::new\<close>.\<close>

definition restore_with_snapshot :: "node_id \<Rightarrow> node_id list \<Rightarrow> nat \<Rightarrow> hard_state \<Rightarrow> snapshot_descriptor option \<Rightarrow>
    entry list \<Rightarrow> (restore_error + raft_node) option" where
  "restore_with_snapshot i ps seed h img lg =
     (case raft_new i ps seed of
        None \<Rightarrow> None
      | Some n0 \<Rightarrow> Some (
          rbind (check_image h img) (\<lambda>_.
          let n = n0\<lparr>snapshot := img\<rparr>; base = snapshot_index n
          in rbind (check_log (current_term h) base 0 (snapshot_term n) lg) (\<lambda>_.
          rbind (lift_err (recover_membership h (snapshot n) lg
                   (genesis_voters (cm_state (genesis_membership n))))) (\<lambda>recovery.
          let committed = mr_committed recovery
          in rbind (lift_err (cm_bootstrap_with_group (group_id (cm_state committed))
                      (genesis_voters (cm_state committed)))) (\<lambda>genesis.
             Inr (update_replication_peers
               (n\<lparr>genesis_membership := genesis,
                  hard := (if mr_refresh_hard recovery then h\<lparr>membership := Some committed\<rparr> else h),
                  effective_membership := mr_effective recovery,
                  log := lg,
                  commit_index := mr_commit_index recovery,
                  last_applied := base,
                  recovery_refresh_hard := mr_refresh_hard recovery,
                  recovery_pending := (mr_refresh_hard recovery \<or> mr_commit_index recovery > base)\<rparr>)))))))) "

definition restore :: "node_id \<Rightarrow> node_id list \<Rightarrow> nat \<Rightarrow> hard_state \<Rightarrow> entry list \<Rightarrow> (restore_error + raft_node) option" where
  "restore i ps seed h lg = restore_with_snapshot i ps seed h None lg"

definition restore_applied_watermark :: "log_index \<Rightarrow> raft_term \<Rightarrow> raft_node \<Rightarrow> restore_error + raft_node" where
  "restore_applied_watermark i t n =
     (if now_ms n \<noteq> 0 \<or> election_deadline_ms n \<noteq> 0 \<or> role n \<noteq> Follower \<or> i < snapshot_index n \<or>
         i < last_applied n \<or> i > last_log_index n \<or> log_term n i \<noteq> Some t \<or>
         (i > commit_index n \<and> membership_at n i \<noteq> Inr (committed_membership n))
      then Inl (InvalidSnapshot ''invalid durable application watermark or initialization phase'')
      else let c = max (commit_index n) i
           in Inr (n\<lparr>commit_index := c, last_applied := i,
                     recovery_pending := (recovery_refresh_hard n \<or> c > i)\<rparr>))"

section \<open>Ticks\<close>

definition tick_leader :: "nat \<Rightarrow> node_act" where
  "tick_leader now n =
     (if now \<ge> quorum_deadline_ms n
      then let missed_window = (saturating_sub now (quorum_deadline_ms n) \<ge> CHECK_QUORUM_MS)
           in case checked_add (contact_round n) 1 of
                Some round \<Rightarrow>
                  if missed_window \<or> \<not> has_quorum (voter_config n) (quorum_contacts n)
                  then run [become_follower, modify (\<lambda>n. reset_election_deadline (n\<lparr>leader_hint := None\<rparr>))] n
                  else run [modify (\<lambda>n. n\<lparr>contact_round := round, quorum_contacts := {self_id n},
                              quorum_deadline_ms := saturating_add now CHECK_QUORUM_MS, heartbeat_due_ms := now\<rparr>),
                            maybe_finalize_membership,
                            (\<lambda>n. if \<not> is_leader n then skip n
                                 else if heartbeat_due_ms n \<le> now
                                 then run [send_append_entries,
                                           modify (\<lambda>n. n\<lparr>heartbeat_due_ms := saturating_add now HEARTBEAT_MS\<rparr>)] n
                                 else skip n)] n
              | None \<Rightarrow> run [become_follower, modify (\<lambda>n. reset_election_deadline (n\<lparr>leader_hint := None\<rparr>))] n
      else run [maybe_finalize_membership,
                (\<lambda>n. if \<not> is_leader n then skip n
                     else if heartbeat_due_ms n \<le> now
                     then run [send_append_entries,
                               modify (\<lambda>n. n\<lparr>heartbeat_due_ms := saturating_add now HEARTBEAT_MS\<rparr>)] n
                     else skip n)] n)"

definition on_tick :: "nat \<Rightarrow> node_act" where
  "on_tick now n =
     (if now < now_ms n \<or> (now = now_ms n \<and> election_deadline_ms n \<noteq> 0) then skip n
      else run [modify (\<lambda>n. n\<lparr>now_ms := now\<rparr>),
        (\<lambda>n. if checked_add now CHECK_QUORUM_MS = None
             then run [modify (\<lambda>n. n\<lparr>campaign_exhausted := True\<rparr>), become_follower,
                       modify (\<lambda>n. n\<lparr>leader_hint := None\<rparr>)] n
             else run [modify (\<lambda>n. if election_deadline_ms n = 0 then reset_election_deadline n else n),
                       (\<lambda>n. if is_leader n then tick_leader now n
                            else if now \<ge> election_deadline_ms n \<and> \<not> campaign_exhausted n \<and> is_voter n (self_id n)
                            then start_pre_vote n else skip n)] n)] n)"

section \<open>Messages\<close>

definition eligible :: "raft_node \<Rightarrow> node_id \<Rightarrow> raft_message \<Rightarrow> bool" where
  "eligible n from msg =
     (case msg of
        RequestVote t _ li lt \<Rightarrow> may_vote_for n from t False li lt
      | PreVote pt _ _ li lt \<Rightarrow> may_vote_for n from pt True li lt
      | AppendEntries t _ _ _ _ _ _ \<Rightarrow> may_replicate_from n from t
      | InstallSnapshot tr _ _ _ _ _ \<Rightarrow> may_replicate_from n from (st_term tr)
      | AppendEntriesReply _ _ _ _ _ \<Rightarrow> from \<in> set (peers n)
      | InstallSnapshotReply _ _ _ _ _ _ _ \<Rightarrow> from \<in> set (peers n)
      | CompactedPrefix _ _ _ _ \<Rightarrow> from \<in> set (peers n)
      | _ \<Rightarrow> is_voter n from)"

definition malformed :: "raft_node \<Rightarrow> node_id \<Rightarrow> raft_message \<Rightarrow> bool" where
  "malformed n from msg =
     (case msg of
        RequestVote t cand _ lt \<Rightarrow> cand \<noteq> from \<or> lt > t
      | PreVote pt _ cand _ lt \<Rightarrow> cand \<noteq> from \<or> lt \<ge> pt
      | AppendEntries _ ldr _ _ _ _ _ \<Rightarrow> ldr \<noteq> from
      | ReadProbe _ ldr ctx \<Rightarrow> ldr \<noteq> from \<or> ctx = 0
      | ReadProbeReply _ ctx _ \<Rightarrow> ctx = 0
      | InstallSnapshot tr d offset bytes is_done _ \<Rightarrow>
          st_leader_id tr \<noteq> from \<or> st_sequence tr = 0 \<or> last_included_term (metadata d) > st_term tr \<or>
          \<not> valid_snapshot_membership n d \<or> \<not> valid_chunk d offset (length bytes) is_done
      | CompactedPrefix t li lt _ \<Rightarrow> li = 0 \<or> lt = 0 \<or> lt > t
      | InstallSnapshotReply _ tr _ _ _ _ _ \<Rightarrow> st_leader_id tr \<noteq> self_id n \<or> st_sequence tr = 0
      | _ \<Rightarrow> False)"

definition msg_term :: "raft_node \<Rightarrow> raft_message \<Rightarrow> raft_term" where
  "msg_term n msg =
     (case msg of
        RequestVote t _ _ _ \<Rightarrow> t
      | RequestVoteReply t _ \<Rightarrow> t
      | AppendEntries t _ _ _ _ _ _ \<Rightarrow> t
      | AppendEntriesReply t _ _ _ _ \<Rightarrow> t
      | PreVoteReply t _ _ _ \<Rightarrow> t
      | ReadProbe t _ _ \<Rightarrow> t
      | ReadProbeReply t _ _ \<Rightarrow> t
      | InstallSnapshot tr _ _ _ _ _ \<Rightarrow> st_term tr
      | InstallSnapshotReply t _ _ _ _ _ _ \<Rightarrow> t
      | CompactedPrefix t _ _ _ \<Rightarrow> t
      | _ \<Rightarrow> term_of n)"

definition adopt_term :: "raft_term \<Rightarrow> node_act" where
  "adopt_term t n =
     (if t > term_of n
      then run [modify (\<lambda>n. n\<lparr>hard := (hard n)\<lparr>current_term := t, voted_for := None\<rparr>\<rparr>),
                (\<lambda>n. push (PersistHardState (hard n)) n),
                become_follower,
                modify (\<lambda>n. n\<lparr>last_leader_contact_ms := None\<rparr>),
                cancel_incoming_snapshot] n
      else skip n)"

text \<open>
  The dispatch after the term rule.  The two envelope messages cannot arrive here
  (\<^verbatim>\<open>unreachable!\<close> in the sources), so they panic.
\<close>

definition dispatch :: "node_id \<Rightarrow> raft_message \<Rightarrow> log_index option \<Rightarrow> node_act" where
  "dispatch from msg append_last n =
     (case msg of
        GroupMessage _ _ _ \<Rightarrow> panic n
      | MembershipAdvertisement _ _ \<Rightarrow> panic n
      | CompactedPrefix t li lt round \<Rightarrow>
          if log_term n li = Some lt then on_append_entries_reply from t True li round None n else skip n
      | InstallSnapshot tr d offset bytes is_done round \<Rightarrow>
          on_install_snapshot tr d offset bytes is_done round n
      | InstallSnapshotReply t tr next_off mtc accepted installed round \<Rightarrow>
          on_install_snapshot_reply from t tr next_off mtc accepted installed round n
      | RequestVote t cand li lt \<Rightarrow> on_request_vote t cand li lt n
      | RequestVoteReply t granted \<Rightarrow> on_request_vote_reply from t granted n
      | AppendEntries t ldr prev prev_term es ldr_commit round \<Rightarrow>
          (case append_last of
             None \<Rightarrow> skip n
           | Some payload_last \<Rightarrow>
               on_append_entries t ldr prev prev_term es payload_last ldr_commit round n)
      | AppendEntriesReply t success mtc round conflict \<Rightarrow>
          on_append_entries_reply from t success mtc round conflict n
      | ReadProbe t ldr ctx \<Rightarrow> on_read_probe t ldr ctx n
      | ReadProbeReply t ctx accepted \<Rightarrow> on_read_probe_reply from t ctx accepted n
      | PreVote pt cid cand li lt \<Rightarrow> on_pre_vote pt cid cand li lt n
      | PreVoteReply t pt cid granted \<Rightarrow> on_pre_vote_reply from t pt cid granted n)"

definition process_message :: "node_id \<Rightarrow> raft_message \<Rightarrow> node_act" where
  "process_message from msg n =
     (case msg of
        AppendEntries t ldr prev prev_term es _ _ \<Rightarrow>
          (case validate_append_entries t prev prev_term es of
             None \<Rightarrow> append_reply ldr False (last_log_index n) 0 None n
           | Some last_index \<Rightarrow> run [adopt_term (msg_term n msg), dispatch from msg (Some last_index)] n)
      | _ \<Rightarrow> run [adopt_term (msg_term n msg), dispatch from msg None] n)"

definition on_message :: "node_id \<Rightarrow> raft_message \<Rightarrow> node_act" where
  "on_message from wire n =
     (case unwrap_group_message n wire of
        None \<Rightarrow> skip n
      | Some (MembershipAdvertisement t conf) \<Rightarrow> on_membership_advertisement from t conf n
      | Some msg \<Rightarrow>
          if from = self_id n then skip n
          else if \<not> eligible n from msg then skip n
          else if malformed n from msg then skip n
          else process_message from msg n)"

section \<open>Step\<close>

definition handle :: "input \<Rightarrow> node_act" where
  "handle inp =
     (case inp of
        Recover \<Rightarrow> on_recover
      | MembershipChange rid op \<Rightarrow> on_membership_change rid op
      | Tick now \<Rightarrow> on_tick now
      | Message from msg \<Rightarrow> on_message from msg
      | ClientPropose c \<Rightarrow> on_client_propose c
      | ClientProposeBatch cs \<Rightarrow> on_client_propose_batch cs
      | ReadIndex rid \<Rightarrow> on_read_index rid
      | CancelRead rid \<Rightarrow> cancel_read rid
      | Compact d \<Rightarrow> on_compact d
      | SnapshotChunkRead to tr d offset bytes \<Rightarrow> on_snapshot_chunk_read to tr d offset bytes
      | SnapshotChunkStaged tr d offset result \<Rightarrow> on_snapshot_chunk_staged tr d offset result
      | SnapshotPublished tr d \<Rightarrow> on_snapshot_published tr d)"

definition step :: "raft_node \<Rightarrow> input \<Rightarrow> node_outcome" where
  "step n inp =
     (if recovery_pending n \<and> inp \<noteq> Recover then Some (n, [])
      else case handle inp n of
             None \<Rightarrow> None
           | Some (n', es) \<Rightarrow> Some (n', wrap_group_effects n' es))"

end
