(* ===== verification/Quiet.thy ===== *)
theory Quiet
  imports Step
begin

text \<open>
  Most of what a handler does leaves the protocol state alone: the durable term, vote,
  membership and log, the commit and apply positions, the snapshot, the configuration in force.
  This theory singles that
  part out.  A transition is \<open>quiet\<close> when the protocol state is untouched, nobody becomes a
  candidate or a leader or counts a vote, nothing is persisted, applied or published, and no message is sent that
  binds the sender (\<open>pledge\<close>).  Every handler that only sends, counts, schedules or bookkeeps
  is shown to be quiet, and to panic only when the retained log does not replay
  (\<open>unreplayable\<close>).
\<close>

section \<open>Protocol state and quiet transitions\<close>

definition protocol_state :: "raft_node \<Rightarrow> node_id \<times> hard_state \<times> entry list \<times> log_index \<times> log_index \<times>
    snapshot_descriptor option \<times> publishing_snapshot option \<times> committed_membership \<times> membership_state \<times>
    bool \<times> bool" where
  "protocol_state n = (self_id n, hard n, log n, commit_index n, last_applied n, snapshot n,
     publishing_snapshot n, genesis_membership n, effective_membership n, recovery_pending n, recovery_refresh_hard n)"

definition is_candidate :: "raft_node \<Rightarrow> bool" where
  "is_candidate n = (case role n of Candidate _ \<Rightarrow> True | _ \<Rightarrow> False)"

text \<open>
  The messages that bind their sender: a vote request and a granted vote speak for the durable
  term and vote, an append and its acknowledgement for the durable log.
\<close>

fun pledge :: "raft_message \<Rightarrow> bool" where
  "pledge (RequestVote _ _ _ _) = True"
| "pledge (RequestVoteReply _ granted) = granted"
| "pledge (AppendEntries _ _ _ _ _ _ _) = True"
| "pledge (AppendEntriesReply _ success _ _ _) = success"
| "pledge (GroupMessage _ _ msg) = pledge msg"
| "pledge _ = False"

fun quiet_effect :: "effect \<Rightarrow> bool" where
  "quiet_effect (PersistHardState _) = False"
| "quiet_effect (PersistLogEntries _ _) = False"
| "quiet_effect (Apply _) = False"
| "quiet_effect (PublishSnapshot _ _ _) = False"
| "quiet_effect (ApplySnapshot _) = False"
| "quiet_effect (Send _ msg) = (\<not> pledge msg)"
| "quiet_effect _ = True"

definition quiet :: "raft_node \<Rightarrow> raft_node \<Rightarrow> effect list \<Rightarrow> bool" where
  "quiet n n' es \<longleftrightarrow>
     protocol_state n' = protocol_state n \<and> (is_candidate n' \<longrightarrow> role n' = role n) \<and>
     (is_leader n' \<longrightarrow> is_leader n) \<and> list_all quiet_effect es"

definition unreplayable :: "raft_node \<Rightarrow> bool" where
  "unreplayable n = (\<not> is_ok (membership_at n (last_log_index n)))"

definition unrefreshable :: "raft_node \<Rightarrow> bool" where
  "unrefreshable n = (\<not> is_ok (effective_after (committed_membership n) (log n) (commit_index n)))"

section \<open>What a quiet action keeps\<close>

lemma quiet_fields:
  assumes "quiet n n' es"
  shows "self_id n' = self_id n" "hard n' = hard n" "log n' = log n" "commit_index n' = commit_index n"
    "last_applied n' = last_applied n" "snapshot n' = snapshot n" "publishing_snapshot n' = publishing_snapshot n"
    "genesis_membership n' = genesis_membership n" "recovery_pending n' = recovery_pending n"
    "recovery_refresh_hard n' = recovery_refresh_hard n" "effective_membership n' = effective_membership n"
  using assms by (simp_all add: quiet_def protocol_state_def)

lemma quiet_voter_config: "quiet n n' es \<Longrightarrow> voter_config n' = voter_config n"
  by (simp add: voter_config_def quiet_fields(11))

lemma protocol_state_reads:
  assumes "protocol_state n' = protocol_state n"
  shows "snapshot_index n' = snapshot_index n" "snapshot_term n' = snapshot_term n"
    "last_log_index n' = last_log_index n" "last_log_term n' = last_log_term n"
    "entry_at n' = entry_at n" "log_term n' = log_term n" "term_at n' = term_at n"
    "committed_membership n' = committed_membership n" "membership_base n' = membership_base n"
    "membership_at n' = membership_at n"
proof -
  from assms have eqs: "hard n' = hard n" "log n' = log n" "snapshot n' = snapshot n"
    "genesis_membership n' = genesis_membership n"
    by (simp_all add: protocol_state_def)
  show "snapshot_index n' = snapshot_index n" "snapshot_term n' = snapshot_term n"
    "last_log_index n' = last_log_index n" "last_log_term n' = last_log_term n"
    "entry_at n' = entry_at n" "log_term n' = log_term n" "term_at n' = term_at n"
    "committed_membership n' = committed_membership n" "membership_base n' = membership_base n"
    "membership_at n' = membership_at n"
    unfolding snapshot_index_def snapshot_term_def last_log_index_def last_log_term_def entry_at_def
      log_term_def term_at_def committed_membership_def membership_base_def membership_at_def fun_eq_iff eqs
    by simp_all
qed

lemma unreplayable_cong:
  assumes "protocol_state n' = protocol_state n" shows "unreplayable n' = unreplayable n"
  unfolding unreplayable_def protocol_state_reads [OF assms] ..

interpretation quiet: effect_relation quiet unreplayable
  by unfold_locales (auto simp: quiet_def is_candidate_def dest: unreplayable_cong)

lemma quiet_modify: "quiet n (f n) [] \<Longrightarrow> keeps quiet P n (modify f n)"
  by (simp add: modify_def)

lemma quiet_push: "quiet_effect e \<Longrightarrow> keeps quiet P n (push e n)"
  by (simp add: push_def quiet_def)

lemma quiet_push_all: "list_all quiet_effect es \<Longrightarrow> keeps quiet P n (push_all es n)"
  by (simp add: push_all_def quiet_def)

lemmas quiet_leaves [keeps_intros] = quiet.keeps_for_each quiet_modify quiet_push quiet_push_all
lemmas quiet_blocks = quiet.keeps_skip quiet.keeps_run_Cons quiet.keeps_run_Nil

lemmas quiet_defs = quiet_def protocol_state_def is_candidate_def is_leader_def

text \<open>The actions that stepping down and a configuration change consist of can never panic.\<close>

interpretation calm: effect_relation quiet "\<lambda>_. False"
  by unfold_locales (auto simp: quiet_def is_candidate_def)

lemmas calm_intros =
  calm.keeps_skip calm.keeps_run_Cons calm.keeps_run_Nil quiet_modify quiet_push quiet_push_all

lemma calm_quiet: "keeps quiet (\<lambda>_. False) s m \<Longrightarrow> keeps quiet P s m"
  by (erule keeps_mono) auto

lemma calm_reject_pending_reads: "keeps quiet (\<lambda>_. False) n (reject_pending_reads r n)"
  unfolding reject_pending_reads_def
  by (auto intro!: calm_intros simp: quiet_defs list_all_iff)

lemma calm_become_follower: "keeps quiet (\<lambda>_. False) n (become_follower n)"
  unfolding become_follower_def
  by (auto intro!: calm_intros calm_reject_pending_reads simp: quiet_defs)

lemmas quiet_reject_pending_reads [keeps_intros] = calm_quiet [OF calm_reject_pending_reads]
lemmas quiet_become_follower [keeps_intros] = calm_quiet [OF calm_become_follower]

lemma quiet_cancel_incoming_snapshot [keeps_intros]: "keeps quiet unreplayable n (cancel_incoming_snapshot n)"
  unfolding cancel_incoming_snapshot_def
  by (auto intro!: quiet_blocks keeps_intros quiet_updates simp: quiet_defs split: option.splits)

lemma quiet_reset_election_deadline [quiet_updates]: "quiet n (reset_election_deadline n) []"
  by (simp add: reset_election_deadline_def quiet_defs split: prod.splits)

lemma quiet_advertise_membership [keeps_intros]: "keeps quiet unreplayable n (advertise_membership to n)"
  unfolding advertise_membership_def
  by (auto intro!: quiet_blocks keeps_intros quiet_updates simp: unreplayable_def panic_def split: sum.splits)

lemma quiet_advertise_replication_membership [keeps_intros]:
  "keeps quiet unreplayable n (advertise_replication_membership to n)"
  unfolding advertise_replication_membership_def
  by (auto intro!: quiet_blocks keeps_intros quiet_updates simp: unreplayable_def panic_def quiet_defs split: sum.splits role.splits)

lemma quiet_snapshot_reject [keeps_intros]: "keeps quiet unreplayable n (snapshot_reject r n)"
  by (auto simp: snapshot_reject_def intro!: quiet_blocks keeps_intros quiet_updates)

lemma quiet_start_outgoing [quiet_updates]: "quiet n (start_outgoing to d sq n) []"
  by (simp add: start_outgoing_def quiet_defs)

lemma quiet_read_active_chunk:
  "bt_get (outgoing_snapshots n) to \<noteq> None \<Longrightarrow> keeps quiet unreplayable n (read_active_chunk to n)"
  unfolding read_active_chunk_def
  by (auto intro!: quiet_blocks keeps_intros quiet_updates simp: quiet_defs)

lemma quiet_send_snapshot_chunk [keeps_intros]: "keeps quiet unreplayable n (send_snapshot_chunk to n)"
  unfolding send_snapshot_chunk_def
  by (auto intro!: quiet_blocks keeps_intros quiet_updates quiet_read_active_chunk
      simp: modify_def start_outgoing_def bt_get_insert split: option.splits)

lemma quiet_snapshot_reply [keeps_intros]: "keeps quiet P n (snapshot_reply tr no a i m r n)"
  by (auto simp: snapshot_reply_def intro!: quiet_push)

lemma quiet_refuse_snapshot [keeps_intros]: "keeps quiet P n (refuse_snapshot tr no n)"
  by (auto simp: refuse_snapshot_def intro!: quiet_snapshot_reply)

lemma quiet_append_reply [keeps_intros]: "\<not> s \<Longrightarrow> keeps quiet P n (append_reply to s m r c n)"
  by (auto simp: append_reply_def intro!: quiet_push)

lemma quiet_on_membership_advertisement [keeps_intros]:
  "keeps quiet unreplayable n (on_membership_advertisement from t conf n)"
  unfolding on_membership_advertisement_def
  by (auto intro!: quiet_blocks keeps_intros quiet_updates simp: quiet_defs split: option.splits)

lemma quiet_on_snapshot_chunk_read [keeps_intros]:
  "keeps quiet unreplayable n (on_snapshot_chunk_read to tr d off bs n)"
  unfolding on_snapshot_chunk_read_def Let_def
  by (auto intro!: quiet_blocks keeps_intros quiet_updates simp: quiet_defs split: option.splits)

lemma quiet_accept_chunk:
  "incoming_snapshot n \<noteq> None \<Longrightarrow> keeps quiet unreplayable n (accept_chunk tr d off bs dn r si n)"
  unfolding accept_chunk_def
  by (auto intro!: quiet_blocks keeps_intros quiet_updates simp: quiet_defs)

lemma quiet_on_install_snapshot [keeps_intros]:
  "keeps quiet unreplayable n (on_install_snapshot tr d off bs dn r n)"
proof -
  let ?same = "case incoming_snapshot n of None \<Rightarrow> False
    | Some active \<Rightarrow> is_transfer active = tr \<and> is_descriptor active = d"
  let ?open = "run [cancel_incoming_snapshot,
    modify (\<lambda>n. n\<lparr>last_snapshot_transfer := Some (tr, d),
      incoming_snapshot := Some \<lparr>is_transfer = tr, is_descriptor = d, next_offset = 0, is_pending = None\<rparr>\<rparr>)]"
  have "keeps quiet unreplayable n ((if ?same then skip else ?open) n)"
    by (auto intro!: quiet_blocks keeps_intros quiet_updates simp: quiet_defs)
  moreover have "incoming_snapshot t \<noteq> None" if "(if ?same then skip else ?open) n = Some (t, es)" for t es
    using that by (auto simp: skip_def run_Cons_Some_iff run_Nil_Some_iff modify_def split: if_splits option.splits)
  ultimately have "keeps quiet unreplayable n
      (run [(if ?same then skip else ?open), accept_chunk tr d off bs dn r (snapshot n = Some d)] n)"
    by (intro quiet.keeps_run_Cons quiet.keeps_run_Nil quiet_accept_chunk) simp_all
  then show ?thesis
    unfolding on_install_snapshot_def Let_def by (simp add: quiet_refuse_snapshot)
qed

lemma quiet_on_pre_vote [keeps_intros]: "keeps quiet unreplayable n (on_pre_vote pt cid c li lt n)"
  unfolding on_pre_vote_def Let_def
  by (auto intro!: quiet_blocks keeps_intros quiet_updates)

lemma quiet_solicit_pre_vote [keeps_intros]: "keeps quiet unreplayable n (solicit_pre_vote pt cid p n)"
  unfolding solicit_pre_vote_def
  by (auto intro!: quiet_blocks keeps_intros quiet_updates)

lemma quiet_send_probe [keeps_intros]: "keeps quiet unreplayable n (send_probe ctx p n)"
  unfolding send_probe_def
  by (auto intro!: quiet_blocks keeps_intros quiet_updates)

lemma quiet_on_read_index [keeps_intros]: "keeps quiet unreplayable n (on_read_index rid n)"
  unfolding on_read_index_def Let_def
  by (auto intro!: quiet_blocks keeps_intros quiet_updates simp: quiet_defs split: option.splits)

lemma quiet_on_read_probe [keeps_intros]: "keeps quiet unreplayable n (on_read_probe t l ctx n)"
  unfolding on_read_probe_def Let_def
  by (auto intro!: quiet_blocks keeps_intros quiet_updates simp: quiet_defs)

lemma quiet_on_read_probe_reply [keeps_intros]: "keeps quiet unreplayable n (on_read_probe_reply f t ctx a n)"
  unfolding on_read_probe_reply_def Let_def
  by (auto intro!: quiet_blocks keeps_intros quiet_updates simp: quiet_defs split: option.splits)

lemma quiet_cancel_read [keeps_intros]: "keeps quiet unreplayable n (cancel_read rid n)"
  unfolding cancel_read_def
  by (auto intro!: quiet_blocks keeps_intros quiet_updates simp: quiet_defs)

lemma quiet_update_replication_peers [quiet_updates]: "quiet n (update_replication_peers n) []"
  by (auto simp: update_replication_peers_def quiet_defs Let_def split: role.splits)

lemma quiet_note_contact [quiet_updates]: "quiet n (note_contact f r n) []"
  by (simp add: note_contact_def quiet_defs)

lemma quiet_reply_next_index [quiet_updates]: "quiet n (reply_next_index f i n) []"
  by (simp add: reply_next_index_def quiet_defs split: role.splits)

lemma calm_restart_quorum_round: "keeps quiet (\<lambda>_. False) n (restart_quorum_round n)"
  unfolding restart_quorum_round_def
  by (auto intro!: calm_intros calm_become_follower simp: quiet_defs split: option.splits)

text \<open>
  Refreshing the configuration in force panics only when the uncommitted suffix does not replay;
  otherwise it installs the configuration that suffix leads to, and is quiet beyond that.
\<close>

interpretation total: effect_relation "\<lambda>_ _ _. True" "\<lambda>_. False"
  by unfold_locales auto

lemma refresh_None: "refresh_effective_membership n = None \<Longrightarrow> unrefreshable n"
proof (cases "effective_after (committed_membership n) (log n) (commit_index n)")
  case (Inl e)
  then show ?thesis by (simp add: unrefreshable_def)
next
  case (Inr nxt)
  have calm: "keeps (\<lambda>_ _ _. True) (\<lambda>_. False) m k" if "keeps quiet (\<lambda>_. False) m k" for m k
    using that by (rule keeps_mono) auto
  have "keeps (\<lambda>_ _ _. True) (\<lambda>_. False) n (refresh_effective_membership n)"
    unfolding refresh_effective_membership_def Inr sum.case Let_def
    by (auto intro!: total.keeps_run_Cons total.keeps_run_Nil total.keeps_skip calm [OF calm_become_follower]
        calm [OF calm_reject_pending_reads] calm [OF calm_restart_quorum_round] simp: modify_def)
  moreover assume "refresh_effective_membership n = None"
  ultimately show ?thesis by simp
qed

lemma refresh_Some:
  assumes "refresh_effective_membership n = Some (n', es)"
  shows "effective_after (committed_membership n) (log n) (commit_index n) = Inr (effective_membership n') \<and>
    quiet (n\<lparr>effective_membership := effective_membership n'\<rparr>) n' es"
proof (cases "effective_after (committed_membership n) (log n) (commit_index n)")
  case (Inl e)
  with assms show ?thesis by (simp add: refresh_effective_membership_def panic_def)
next
  case (Inr nxt)
  let ?down = "\<lambda>n. if is_leader n \<and> \<not> vc_contains (voters nxt) (self_id n) \<and>
      \<not> vc_contains (voters (cm_state (committed_membership n))) (self_id n) then become_follower n else skip n"
  let ?set = "\<lambda>n. update_replication_peers (n\<lparr>effective_membership := nxt\<rparr>)"
  have set: "quiet (m\<lparr>effective_membership := nxt\<rparr>) (?set m) []" for m
    by (rule quiet_update_replication_peers)
  let ?block = "\<lambda>c. if c then run [reject_pending_reads LeadershipLost, restart_quorum_round, modify reset_election_deadline]
      else skip"
  obtain m ds es2 where m: "?down n = Some (m, ds)" and rest:
    "(if nxt = effective_membership m then skip m
      else run [modify ?set, ?block (voters nxt \<noteq> voters (effective_membership m))] m) = Some (n', es2)"
    and es: "es = ds @ es2"
    using assms unfolding refresh_effective_membership_def Inr sum.case Let_def run_Cons_Some_iff run_Nil_Some_iff
    by (elim exE conjE) (rule that, assumption, simp_all only: append_Nil2 refl)
  have down: "quiet n m ds"
    using m keepsD [OF calm_become_follower] by (auto simp: skip_def quiet.rel_nil split: if_splits)
  have block: "keeps quiet (\<lambda>_. False) k (?block c k)" for k c
    by (auto intro!: calm_intros calm_reject_pending_reads calm_restart_quorum_round quiet_reset_election_deadline)
  have "effective_membership n' = nxt \<and> quiet (m\<lparr>effective_membership := nxt\<rparr>) n' (es2)"
  proof (cases "nxt = effective_membership m")
    case True
    with rest show ?thesis by (simp add: skip_def quiet.rel_nil)
  next
    case False
    with rest keepsD [OF block] have "quiet (?set m) n' (es2)"
      by (auto simp: run_modify run.simps(2))
    then have "quiet (m\<lparr>effective_membership := nxt\<rparr>) n' (es2)"
      using quiet.rel_append [OF set] by fastforce
    with quiet_fields(11) [OF this] show ?thesis by simp
  qed
  moreover have "quiet (n\<lparr>effective_membership := nxt\<rparr>) (m\<lparr>effective_membership := nxt\<rparr>) ds"
    using down by (simp add: quiet_defs)
  ultimately show ?thesis
    using Inr es quiet.rel_append by metis
qed

end
