(* ===== verification/Contract.thy ===== *)
theory Contract
  imports Quiet
begin

text \<open>
  The contract between the handlers and every property of \<open>step\<close>.  A relation between the
  node before, the node after and the pushed effects is a \<open>protocol_relation\<close> when it holds of
  quiet transitions, composes, and holds of the few transitions that touch the protocol state:
  adopting a term, campaigning, voting, counting a vote, taking leadership, appending, merging a
  leader's entries, committing, recovering, and the sends that pledge the durable state.  Inside the
  locale every handler, and \<open>step\<close> itself, is shown once to keep any such relation; the theories
  below interpret it.  The parameters \<open>inp\<close> and \<open>start\<close> are the input being stepped and
  the node it is stepped on, whose configuration is still in force when an election is decided; the three inputs of
  snapshot publication (\<open>publication_input\<close>) are treated on their own.
\<close>

section \<open>Inputs\<close>

fun publication_input :: "input \<Rightarrow> bool" where
  "publication_input (Compact _) = True"
| "publication_input (SnapshotChunkStaged _ _ _ _) = True"
| "publication_input (SnapshotPublished _ _) = True"
| "publication_input _ = False"

definition carries :: "input \<Rightarrow> node_id \<Rightarrow> raft_message \<Rightarrow> bool" where
  "carries inp from msg =
     (case inp of
        Message f wire \<Rightarrow> f = from \<and>
          (case wire of GroupMessage _ _ inner \<Rightarrow> inner = msg | _ \<Rightarrow> wire = msg)
      | _ \<Rightarrow> False)"

lemma unwrap_not_group: "unwrap_group_message n wire = Some msg \<Longrightarrow> \<not> is_group_message msg"
  by (cases wire) (auto simp: unwrap_group_message_def Let_def split: if_splits)

lemma unwrap_carries: "unwrap_group_message n wire = Some msg \<Longrightarrow> carries (Message from wire) from msg"
  by (cases wire) (auto simp: unwrap_group_message_def carries_def Let_def split: if_splits)

lemma adopt_term_reaches: "adopt_term t n = Some (n', es) \<Longrightarrow> t \<le> term_of n'"
proof (cases "term_of n < t")
  case True
  let ?n = "n\<lparr>hard := (hard n)\<lparr>current_term := t, voted_for := None\<rparr>\<rparr>"
  assume "adopt_term t n = Some (n', es)"
  then obtain es' where "run [(\<lambda>n. push (PersistHardState (hard n)) n), become_follower,
      modify (\<lambda>n. n\<lparr>last_leader_contact_ms := None\<rparr>), cancel_incoming_snapshot] ?n = Some (n', es')"
    using True by (simp add: adopt_term_def run_modify)
  then have "hard n' = hard ?n"
    by (auto simp: run_Cons_Some_iff run_Nil_Some_iff push_def
        dest!: keepsD [OF calm_become_follower] keepsD [OF quiet_cancel_incoming_snapshot] quiet_fields(2))
  then show ?thesis by simp
qed (simp add: adopt_term_def skip_def)

lemma become_follower_reads: "become_follower n = Some (n', es) \<Longrightarrow> role n' = Follower \<and> hard n' = hard n"
  using keepsD [OF calm_become_follower, of n n' es]
  by (auto simp: become_follower_def run_Cons_Some_iff run_Nil_Some_iff skip_def push_def push_all_def
      reject_pending_reads_def quiet_fields split: if_splits)

lemma role_note_contact [simp]: "role (note_contact f r n) = role n"
  by (simp add: note_contact_def)

lemma quiet_choose_fence: "choose_fence rid op n = Some (f, n') \<Longrightarrow> quiet n n' []"
  by (auto simp: choose_fence_def quiet_defs split: option.splits if_splits)

section \<open>Replication messages\<close>

locale message_relation = effect_relation R P
  for R :: "raft_node \<Rightarrow> raft_node \<Rightarrow> effect list \<Rightarrow> bool" and P :: "raft_node \<Rightarrow> bool" +
  assumes quiet_law: "quiet n n' es \<Longrightarrow> R n n' es"
    and unreplayable_law: "unreplayable n \<Longrightarrow> P n"
    and append_law: "is_leader n \<Longrightarrow> snapshot_index n \<le> prev \<Longrightarrow> R n n [Send p (append_message n prev)]"
begin

lemma quiet_keeps: "keeps quiet unreplayable n m \<Longrightarrow> keeps R P n m"
  by (erule keeps_mono) (auto intro: quiet_law unreplayable_law)

lemmas base_intros = keeps_skip keeps_run_Cons keeps_run_Nil keeps_intros keeps_intros [THEN quiet_keeps] quiet_updates

lemma modify_keeps: "quiet n (f n) [] \<Longrightarrow> keeps R P n (modify f n)"
  by (rule quiet_keeps) (rule quiet_modify)

lemma keeps_persist:
  assumes "R s t [h t]" and "keeps R P t (run as t)"
  shows "keeps R P s (run ((\<lambda>n. push (h n) n) # as) t)"
  using assms by (auto simp: run_Cons act_seq_def push_def keeps_def
      split: option.splits intro: rel_append [of s t "[h t]", simplified] rel_panic)

lemma rel_quiet: "R s t es \<Longrightarrow> quiet t u [] \<Longrightarrow> R s u es"
  using rel_append [of s t es u "[]"] by (simp add: quiet_law)

lemma keeps_after_quiet: "quiet s t [] \<Longrightarrow> keeps R P t m \<Longrightarrow> keeps R P s m"
  using rel_append [of s t "[]"] rel_panic [of s t "[]"] quiet_law [of s t "[]"]
  by (auto simp: keeps_def split: option.splits)

lemma keeps_send_append_to:
  assumes "is_leader n"
  shows "keeps R P n (send_append_to nxt p n) \<and>
    (\<forall>n' es. send_append_to nxt p n = Some (n', es) \<longrightarrow> is_leader n')"
proof -
  have lead: "is_leader m" if "advertise_replication_membership p n = Some (m, es)" for m es
    using that assms
    by (auto simp: advertise_replication_membership_def advertise_membership_def run_Cons_Some_iff
        run_Nil_Some_iff act_defs is_leader_def split: if_splits sum.splits role.splits)
  have chunk: "is_leader m'" if "send_snapshot_chunk p m = Some (m', es)" "is_leader m" for m m' es
    using that
    by (auto simp: send_snapshot_chunk_def read_active_chunk_def start_outgoing_def snapshot_reject_def
        run_Cons_Some_iff run_Nil_Some_iff act_defs is_leader_def split: if_splits option.splits)
  let ?drop = "\<lambda>m. m\<lparr>outgoing_snapshots := bt_remove p (outgoing_snapshots m)\<rparr>"
  have msg: "keeps R P m (run [modify ?drop, (\<lambda>m. push (Send p (append_message m (nx - 1))) m)] m)"
    if "is_leader m" "\<not> nx \<le> snapshot_index m" for m nx
  proof (rule keeps_run_Cons)
    show "keeps R P m (modify ?drop m)" by (rule modify_keeps) (simp add: quiet_defs)
  next
    fix t es assume t: "modify ?drop m = Some (t, es)"
    then have "is_leader t" "snapshot_index t \<le> nx - 1" using that by (auto simp: is_leader_def snapshot_index_def)
    then have "R t t [Send p (append_message t (nx - 1))]" by (rule append_law)
    then show "keeps R P t (run [\<lambda>m. push (Send p (append_message m (nx - 1))) m] t)"
      by (simp add: run.simps push_def)
  qed
  have "keeps R P n (send_append_to nxt p n)"
    unfolding send_append_to_def Let_def
  proof (rule keeps_run_Cons, rule quiet_advertise_replication_membership [THEN quiet_keeps])
    fix t es assume "advertise_replication_membership p n = Some (t, es)"
    then have "is_leader t" by (rule lead)
    then show "keeps R P t (run [\<lambda>m. if (case bt_get nxt p of None \<Rightarrow> saturating_add (last_log_index m) 1 | Some i \<Rightarrow> i)
          \<le> snapshot_index m then send_snapshot_chunk p m
        else run [modify ?drop, (\<lambda>n. push (Send p (append_message n
          ((case bt_get nxt p of None \<Rightarrow> saturating_add (last_log_index m) 1 | Some i \<Rightarrow> i) - 1))) n)] m] t)"
      using msg [of t] quiet_send_snapshot_chunk [THEN quiet_keeps, of t p] by (simp add: run.simps(2))
  qed
  moreover have "is_leader n'" if "send_append_to nxt p n = Some (n', es)" for n' es
    using that
    by (auto simp: send_append_to_def Let_def run_Cons_Some_iff run_Nil_Some_iff push_def
        is_leader_def [of "outgoing_snapshots_update f m" for f m] split: if_splits dest!: lead dest: chunk)
      (simp_all add: is_leader_def)
  ultimately show ?thesis by blast
qed

lemma keeps_send_append_entries: "keeps R P n (send_append_entries n)"
proof -
  have "keeps R P m (for_each ps (send_append_to nxt) m)" if "is_leader m" for ps nxt m
    using that
  proof (induction ps arbitrary: m)
    case (Cons p ps)
    then show ?case
      using keeps_send_append_to [OF Cons.prems, of nxt p]
      by (auto simp: for_each.simps intro!: keeps_seq)
  qed (simp add: for_each.simps keeps_skip)
  then show ?thesis
    by (auto simp: send_append_entries_def is_leader_def intro: keeps_skip split: role.splits)
qed

end

text \<open>
  Broadcasting is the first instance: sending appends or snapshot chunks changes nothing of the
  protocol state and pushes no effect that does.
\<close>

fun harmless_effect :: "effect \<Rightarrow> bool" where
  "harmless_effect (Send _ _) = True"
| "harmless_effect e = quiet_effect e"

definition broadcast :: "raft_node \<Rightarrow> raft_node \<Rightarrow> effect list \<Rightarrow> bool" where
  "broadcast n n' es \<longleftrightarrow>
     protocol_state n' = protocol_state n \<and> (is_candidate n' \<longrightarrow> role n' = role n) \<and>
     (is_leader n' \<longrightarrow> is_leader n) \<and> list_all harmless_effect es"

lemma quiet_harmless: "quiet_effect e \<Longrightarrow> harmless_effect e"
  by (cases e) auto

lemma quiet_broadcast: "quiet n n' es \<Longrightarrow> broadcast n n' es"
  by (auto simp: quiet_def broadcast_def list_all_iff quiet_harmless)

interpretation broadcast: message_relation broadcast unreplayable
proof unfold_locales
  show "broadcast n n' es" if "quiet n n' es" for n n' es using that by (rule quiet_broadcast)
qed (auto simp: broadcast_def is_candidate_def dest: unreplayable_cong)

section \<open>The protocol contract\<close>

locale protocol_relation = message_relation R P
  for R :: "raft_node \<Rightarrow> raft_node \<Rightarrow> effect list \<Rightarrow> bool" and P :: "raft_node \<Rightarrow> bool" and inp :: input and start :: raft_node +
  assumes hint_law: "append_conflict_hint n prev = None \<Longrightarrow> P n"
    and wrap_law: "R n n' es \<Longrightarrow> R n n' (wrap_group_effects n' es)"
    and adopt_law: "term_of n < t \<Longrightarrow>
      h = (hard n)\<lparr>current_term := t, voted_for := None\<rparr> \<Longrightarrow> quiet (n\<lparr>hard := h\<rparr>) n' es \<Longrightarrow> role n' = Follower \<Longrightarrow>
      R n n' (PersistHardState h # es)"
    and campaign_law: "voter_config n = voter_config start \<Longrightarrow> is_voter n (self_id n) \<Longrightarrow> term_of n < u64_max \<Longrightarrow>
      h = (hard n)\<lparr>current_term := term_of n + 1, voted_for := Some (self_id n)\<rparr> \<Longrightarrow>
      R n (n\<lparr>hard := h, role := Candidate {self_id n}\<rparr>) [PersistHardState h]"
    and ask_law: "is_candidate n \<Longrightarrow>
      R n n [Send p (RequestVote (term_of n) (self_id n) (last_log_index n) (last_log_term n))]"
    and vote_law: "decide_vote (hard n) (last_log_index n, last_log_term n) req \<Longrightarrow>
      h = (hard n)\<lparr>voted_for := Some (rq_candidate_id req)\<rparr> \<Longrightarrow> R n (n\<lparr>hard := h\<rparr>) [PersistHardState h]"
    and grant_law: "voted_for (hard n) = Some c \<Longrightarrow> R n n [Send c (RequestVoteReply (term_of n) True)]"
    and count_law: "carries inp f (RequestVoteReply (term_of n) True) \<Longrightarrow> role n = Candidate v \<Longrightarrow>
      R n (n\<lparr>role := Candidate (insert f v)\<rparr>) []"
    and lead_law: "voter_config n = voter_config start \<Longrightarrow> role n = Candidate v \<Longrightarrow> has_quorum (voter_config n) v \<Longrightarrow> last_log_index n + 1 < u64_max \<Longrightarrow>
      noop = \<lparr>index = last_log_index n + 1, e_term = term_of n, command = NoOp\<rparr> \<Longrightarrow>
      n1 = (install_leader (last_log_index n + 1) n)\<lparr>log := log n @ [noop]\<rparr> \<Longrightarrow>
      (if self_quorum n1 then advance_commit (last_log_index n1) n1 else skip n1) = Some (n2, cs) \<Longrightarrow>
      R n2 n3 mid \<Longrightarrow> broadcast n2 n3 mid \<Longrightarrow>
      R n n3 (PersistLogEntries None [noop] # filter is_persist_hard cs @ mid @ filter (\<lambda>e. \<not> is_persist_hard e) cs)"
    and lead_panic_law: "voter_config n = voter_config start \<Longrightarrow> role n = Candidate v \<Longrightarrow> has_quorum (voter_config n) v \<Longrightarrow> last_log_index n + 1 < u64_max \<Longrightarrow>
      noop = \<lparr>index = last_log_index n + 1, e_term = term_of n, command = NoOp\<rparr> \<Longrightarrow>
      n1 = (install_leader (last_log_index n + 1) n)\<lparr>log := log n @ [noop]\<rparr> \<Longrightarrow>
      (if self_quorum n1 then advance_commit (last_log_index n1) n1 else skip n1) = m \<Longrightarrow>
      m = None \<or> (\<exists>n2 cs. m = Some (n2, cs) \<and> P n2) \<Longrightarrow> P n"
    and propose_law: "is_leader n \<Longrightarrow> cmds \<noteq> [] \<Longrightarrow> \<not> list_ex is_configuration cmds \<Longrightarrow>
      last_log_index n + length cmds < u64_max \<Longrightarrow> ents = number_entries (last_log_index n) (term_of n) cmds \<Longrightarrow>
      R n (n\<lparr>log := log n @ ents\<rparr>) [PersistLogEntries None ents]"
    and configure_law: "is_leader n \<Longrightarrow> last_log_index n + 1 < u64_max \<Longrightarrow>
      \<not> list_ex (\<lambda>e. index e > commit_index n \<and> is_configuration (command e)) (log n) \<Longrightarrow>
      first_phase (cm_state (committed_membership n)) (request_id ce) (ce_operation ce) = Inr (phase ce) \<or>
      phase ce = PhaseFinal \<and> (\<exists>r. pending (cm_state (committed_membership n)) = Some (request_id ce, r) \<and>
        operation r = ce_operation ce) \<Longrightarrow>
      e = \<lparr>index = last_log_index n + 1, e_term = term_of n, command = Configuration ce\<rparr> \<Longrightarrow>
      keeps R P n (run [modify (\<lambda>n. n\<lparr>log := log n @ [e]\<rparr>), push (PersistLogEntries None [e]),
        refresh_effective_membership] n)"
    and commit_law: "quorum_commit_candidate n = Some i \<Longrightarrow> keeps R P n (advance_commit i n)"
    and commit_self_law: "is_leader n \<Longrightarrow> self_quorum n \<Longrightarrow> log n \<noteq> [] \<Longrightarrow> last_log_term n = term_of n \<Longrightarrow>
      keeps R P n (advance_commit (last_log_index n) n)"
    and follow_law: "role n = Follower \<Longrightarrow> validate_append_entries (term_of n) prev pt ents = Some pl \<Longrightarrow>
      snapshot_index n \<le> prev \<Longrightarrow> log_term n prev = Some pt \<Longrightarrow>
      \<not> list_ex (\<lambda>e. index e \<le> commit_index n \<and> log_term n (index e) \<noteq> Some (e_term e)) ents \<Longrightarrow>
      valid_configuration_suffix n (candidate_log (snapshot_index n) (log n) ents) \<Longrightarrow>
      keeps R P n (run [store_entries ents,
        (\<lambda>n. let new_commit = min lc pl
             in if new_commit > commit_index n then advance_commit new_commit n
                else refresh_effective_membership n),
        append_reply ldr True pl round None] n)"
    and recover_law: "recovery_pending n \<Longrightarrow> keeps R P n (on_recover n)"
begin

lemma keeps_solicit_vote:
  assumes "is_candidate n"
  shows "keeps R P n (solicit_vote p n) \<and> (\<forall>n' es. solicit_vote p n = Some (n', es) \<longrightarrow> is_candidate n')"
proof -
  have adv: "m = n" if "advertise_membership p n = Some (m, es)" for m es
    using that by (auto simp: advertise_membership_def act_defs split: sum.splits if_splits)
  have ask: "keeps R P n (run [\<lambda>n. push (Send p (RequestVote (term_of n) (self_id n) (last_log_index n) (last_log_term n))) n] n)"
    using ask_law [OF assms, of p] by (simp add: run.simps push_def)
  have "keeps R P n (solicit_vote p n)"
    unfolding solicit_vote_def
    using ask by (auto intro!: keeps_skip keeps_run_Cons quiet_advertise_membership [THEN quiet_keeps] dest!: adv)
  moreover have "is_candidate n'" if "solicit_vote p n = Some (n', es)" for n' es
    using that assms
    by (auto simp: solicit_vote_def run_Cons_Some_iff run_Nil_Some_iff act_defs split: if_splits dest!: adv)
  ultimately show ?thesis by blast
qed

lemma keeps_solicit_votes: "is_candidate n \<Longrightarrow> keeps R P n (for_each ps solicit_vote n)"
proof (induction ps arbitrary: n)
  case (Cons p ps)
  then show ?case
    using keeps_solicit_vote [OF Cons.prems, of p] by (auto simp: for_each.simps intro!: keeps_seq)
qed (simp add: for_each.simps keeps_skip)

lemma keeps_become_leader:
  assumes "voter_config n = voter_config start" and "role n = Candidate v" and "has_quorum (voter_config n) v"
  shows "keeps R P n (become_leader n)"
proof (cases "last_log_index n + 1 < u64_max")
  case True
  let ?noop = "\<lparr>index = last_log_index n + 1, e_term = term_of n, command = NoOp\<rparr>"
  let ?n1 = "(install_leader (last_log_index n + 1) n)\<lparr>log := log n @ [?noop]\<rparr>"
  let ?commit = "if self_quorum ?n1 then advance_commit (last_log_index ?n1) ?n1 else skip ?n1"
  let ?mid = "run [(\<lambda>n. push (RoleChanged ''Leader'' (term_of n)) n), send_append_entries,
    modify (\<lambda>n. n\<lparr>heartbeat_due_ms := saturating_add (now_ms n) HEARTBEAT_MS\<rparr>)]"
  note law = lead_law [OF assms True refl refl] and panics = lead_panic_law [OF assms True refl refl refl]
  have mid: "keeps R P m (?mid m)" "keeps broadcast unreplayable m (?mid m)" for m
    by (auto intro!: base_intros keeps_send_append_entries simp: quiet_defs)
      (auto intro!: broadcast.base_intros broadcast.keeps_send_append_entries simp: quiet_defs)
  have ca: "checked_add (last_log_index n) 1 = Some (last_log_index n + 1)" using True by simp
  note unfolded = become_leader_def [of n, unfolded ca option.case if_P [OF True] Let_def]
  show ?thesis
  proof (cases ?commit)
    case None
    show ?thesis unfolding unfolded None using panics None by simp
  next
    case (Some p)
    obtain n2 cs where p: "p = (n2, cs)" by force
    let ?all = "run [push (PersistLogEntries None [?noop]), push_all (filter is_persist_hard cs),
      (\<lambda>n. push (RoleChanged ''Leader'' (term_of n)) n), send_append_entries,
      modify (\<lambda>n. n\<lparr>heartbeat_due_ms := saturating_add (now_ms n) HEARTBEAT_MS\<rparr>),
      push_all (filter (\<lambda>e. \<not> is_persist_hard e) cs)]"
    have all: "?all n2 = map_option (\<lambda>(n3, es). (n3, PersistLogEntries None [?noop] # filter is_persist_hard cs @
        es @ filter (\<lambda>e. \<not> is_persist_hard e) cs)) (?mid n2)"
      by (auto simp: run_Cons run.simps(1) act_seq_def act_defs split: option.splits)
    have "keeps R P n (?all n2)"
    proof (cases "?mid n2")
      case None
      with mid(1) [of n2] have "P n2" by simp
      with panics Some p have "P n" by blast
      then show ?thesis by (simp only: all None option.map keeps_simps)
    next
      case (Some q)
      obtain n3 es where q: "q = (n3, es)" by force
      with Some mid [of n2] have "R n2 n3 es" "broadcast n2 n3 es" by simp_all
      from law [OF \<open>?commit = Some p\<close> [unfolded p] this] show ?thesis
        by (simp only: all Some q option.map prod.case keeps_simps)
    qed
    then show ?thesis unfolding unfolded Some p option.case prod.case .
  qed
next
  case False
  then show ?thesis
    by (auto simp: become_leader_def Let_def quiet_defs intro!: base_intros split: option.splits)
qed

lemma keeps_adopt_term: "keeps R P n (adopt_term t n)"
proof (cases "term_of n < t")
  case True
  let ?h = "(hard n)\<lparr>current_term := t, voted_for := None\<rparr>"
  let ?down = "run [modify (\<lambda>n. n\<lparr>hard := (hard n)\<lparr>current_term := t, voted_for := None\<rparr>\<rparr>),
    (\<lambda>n. push (PersistHardState (hard n)) n), become_follower]"
  have down: "?down n = map_option (\<lambda>(m, es). (m, PersistHardState ?h # es)) (become_follower (n\<lparr>hard := ?h\<rparr>))"
    by (auto simp: run_modify run_Cons run.simps(1) act_seq_def push_def split: option.splits)
  have "keeps R P n (?down n)"
    unfolding down using calm_become_follower [of "n\<lparr>hard := ?h\<rparr>"] adopt_law [OF True refl]
    by (cases "become_follower (n\<lparr>hard := ?h\<rparr>)") (auto dest: become_follower_reads)
  then have "keeps R P n (run [?down, modify (\<lambda>n. n\<lparr>last_leader_contact_ms := None\<rparr>), cancel_incoming_snapshot] n)"
    by (rule keeps_run_Cons) (auto intro!: base_intros simp: quiet_defs)
  with True show ?thesis by (simp add: adopt_term_def run_append)
qed (simp add: adopt_term_def keeps_skip)

lemma keeps_on_request_vote: "keeps R P n (on_request_vote t c li lt n)"
proof -
  let ?req = "\<lparr>rq_term = t, rq_candidate_id = c, rq_last_log_index = li, rq_last_log_term = lt\<rparr>"
  let ?ok = "may_vote_for n c t False li lt \<and> decide_vote (hard n) (last_log_index n, last_log_term n) ?req"
  let ?n = "reset_election_deadline (n\<lparr>hard := (hard n)\<lparr>voted_for := Some c\<rparr>\<rparr>)"
  have hard: "hard ?n = (hard n)\<lparr>voted_for := Some c\<rparr>"
    by (simp add: reset_election_deadline_def split: prod.splits)
  have "keeps R P n (run [(\<lambda>n. push (PersistHardState (hard n)) n),
      (\<lambda>n. push (Send c (RequestVoteReply (term_of n) True)) n)] ?n)"
    if "decide_vote (hard n) (last_log_index n, last_log_term n) ?req"
  proof (rule keeps_persist)
    show "R n ?n [PersistHardState (hard ?n)]"
      unfolding hard using rel_quiet [OF vote_law [OF that refl] quiet_reset_election_deadline] by simp
    show "keeps R P ?n (run [\<lambda>n. push (Send c (RequestVoteReply (term_of n) True)) n] ?n)"
      using grant_law [of ?n c] by (simp add: run.simps push_def hard)
  qed
  then have grant: "keeps R P n (run [run [modify (\<lambda>n. n\<lparr>hard := (hard n)\<lparr>voted_for := Some c\<rparr>\<rparr>),
      modify reset_election_deadline, (\<lambda>n. push (PersistHardState (hard n)) n)],
      (\<lambda>n. push (Send c (RequestVoteReply (term_of n) True)) n)] n)" if ?ok
    using that by (simp add: run_append run_modify)
  have deny: "keeps R P n (run [skip, (\<lambda>n. push (Send c (RequestVoteReply (term_of n) False)) n)] n)"
    by (intro base_intros) simp
  show ?thesis
  proof (cases "t < term_of n")
    case True
    then show ?thesis by (auto simp: on_request_vote_def intro!: base_intros)
  next
    case False
    show ?thesis
      unfolding on_request_vote_def if_not_P [OF False] Let_def
      using grant deny by (cases ?ok) (simp_all only: if_P if_not_P simp_thms not_False_eq_True)
  qed
qed

lemma keeps_start_election:
  assumes "voter_config n = voter_config start"
  shows "keeps R P n (start_election n)"
proof (cases "is_voter n (self_id n) \<and> term_of n < u64_max")
  case True
  let ?h = "(hard n)\<lparr>current_term := term_of n + 1, voted_for := Some (self_id n)\<rparr>"
  define m where "m = reset_election_deadline (n\<lparr>hard := ?h, role := Candidate {self_id n}\<rparr>)"
  have reads: "hard m = ?h" "role m = Candidate {self_id m}" "voter_config m = voter_config start"
    using assms by (simp_all add: m_def reset_election_deadline_def voter_config_def split: prod.splits)
  have "R n m [PersistHardState (hard m)]"
    unfolding reads(1) unfolding m_def
    by (rule rel_quiet [OF campaign_law quiet_reset_election_deadline]) (use True assms in auto)
  moreover have "keeps R P m (if self_quorum m then become_leader m
      else run [push (RoleChanged ''Candidate'' (term_of m)), for_each (peers m) solicit_vote] m)"
    using keeps_become_leader [OF reads(3,2)]
    by (auto simp: self_quorum_def is_candidate_def reads(2)
        intro!: keeps_run_Cons keeps_run_Nil keeps_solicit_votes quiet_push [THEN quiet_keeps])
  ultimately have "keeps R P n (run [(\<lambda>n. push (PersistHardState (hard n)) n),
      (\<lambda>n. if self_quorum n then become_leader n
        else run [push (RoleChanged ''Candidate'' (term_of n)), for_each (peers n) solicit_vote] n)] m)"
    by (intro keeps_persist) (simp_all only: run.simps)
  then show ?thesis
    using True unfolding start_election_def m_def
    by (simp add: run_modify checked_add_def)
next
  case False
  then show ?thesis
    unfolding start_election_def
    by (auto simp: checked_add_def quiet_defs intro!: base_intros)
qed

lemma keeps_start_pre_vote:
  assumes "voter_config n = voter_config start"
  shows "keeps R P n (start_pre_vote n)"
proof -
  have cfg: "voter_config m = voter_config start" if "cancel_incoming_snapshot n = Some (m, es)" for m es
    using quiet_voter_config [OF keepsD [OF quiet_cancel_incoming_snapshot that]] assms by simp
  show ?thesis
    unfolding start_pre_vote_def Let_def
    by (auto intro!: base_intros keeps_start_election
        simp: quiet_defs voter_config_def [of "reset_election_deadline m" for m] reset_election_deadline_def
        dest!: cfg split: option.splits prod.splits)
      (simp_all add: voter_config_def)
qed

lemma keeps_on_pre_vote_reply:
  assumes "voter_config n = voter_config start"
  shows "keeps R P n (on_pre_vote_reply f t pt cid g n)"
  unfolding on_pre_vote_reply_def Let_def
  using assms
  by (auto intro!: base_intros keeps_start_election simp: quiet_defs voter_config_def split: role.splits)

lemma keeps_on_request_vote_reply:
  assumes "carries inp f (RequestVoteReply t g)" and "voter_config n = voter_config start"
  shows "keeps R P n (on_request_vote_reply f t g n)"
proof (cases "role n")
  case (Candidate votes)
  let ?n = "n\<lparr>role := Candidate (insert f votes)\<rparr>"
  have "keeps R P n (run [modify (\<lambda>n. n\<lparr>role := Candidate (insert f votes)\<rparr>),
      (\<lambda>n. if has_quorum (voter_config n) (insert f votes) then become_leader n else skip n)] n)"
    if "t = term_of n" g
  proof (rule keeps_run_Cons)
    have "R n ?n []" using assms that Candidate by (intro count_law) auto
    then show "keeps R P n (modify (\<lambda>n. n\<lparr>role := Candidate (insert f votes)\<rparr>) n)" by (simp add: modify_def)
  next
    fix m es assume "modify (\<lambda>n. n\<lparr>role := Candidate (insert f votes)\<rparr>) n = Some (m, es)"
    then show "keeps R P m (run [\<lambda>n. if has_quorum (voter_config n) (insert f votes) then become_leader n else skip n] m)"
      using keeps_become_leader [of ?n "insert f votes"] assms(2) by (auto simp: run.simps(2) keeps_skip voter_config_def)
  qed
  then show ?thesis
    unfolding on_request_vote_reply_def Let_def by (simp add: Candidate keeps_skip)
qed (simp_all add: on_request_vote_reply_def keeps_skip)

lemma keeps_commit_candidate:
  "keeps R P n ((\<lambda>n. case quorum_commit_candidate n of Some c \<Rightarrow> advance_commit c n | None \<Rightarrow> skip n) n)"
  by (auto intro: keeps_skip commit_law split: option.splits)

lemma keeps_on_append_entries_reply: "keeps R P n (on_append_entries_reply f t s m r c n)"
  unfolding on_append_entries_reply_def record_success_def record_failure_def Let_def
  by (auto intro!: base_intros keeps_commit_candidate simp: quiet_defs split: role.splits option.splits)

lemma keeps_on_install_snapshot_reply: "keeps R P n (on_install_snapshot_reply f t tr no m a i r n)"
  unfolding on_install_snapshot_reply_def Let_def
  by (auto intro!: base_intros keeps_on_append_entries_reply keeps_send_append_entries simp: quiet_defs
      reply_next_index_def split: role.splits option.splits)

lemma keeps_on_client_propose_batch: "keeps R P n (on_client_propose_batch cmds n)"
proof (cases "cmds = [] \<or> \<not> is_leader n \<or> \<not> is_voter n (self_id n) \<or> list_ex is_configuration cmds \<or>
    length cmds > MAX_PROPOSAL_BATCH \<or> \<not> last_log_index n + length cmds < u64_max")
  case True
  then show ?thesis
    unfolding on_client_propose_batch_def Let_def
    by (auto intro!: base_intros simp: checked_add_def list_all_iff)
next
  case False
  let ?es = "number_entries (last_log_index n) (term_of n) cmds"
  let ?n = "n\<lparr>log := log n @ ?es\<rparr>"
  have "R n ?n [PersistLogEntries None ?es]" using False by (intro propose_law) auto
  moreover have "last_log_index ?n = last_log_index n + length cmds" "last_log_term ?n = term_of ?n" "log ?n \<noteq> []"
    using False last_number_entries [of cmds] by (auto simp: last_log_index_def last_log_term_def)
  then have "keeps R P ?n (run [push_all (map (\<lambda>e. ProposeAccepted (index e)) ?es),
      (\<lambda>n'. if self_quorum n' then advance_commit (last_log_index n + length cmds) n' else skip n')] ?n)"
    using False commit_self_law [of ?n]
    by (intro keeps_run_Cons keeps_run_Nil quiet_keeps [OF quiet_push_all])
      (auto simp: push_all_def list_all_iff is_leader_def keeps_skip)
  ultimately have "keeps R P n (run [push (PersistLogEntries None ?es),
      push_all (map (\<lambda>e. ProposeAccepted (index e)) ?es),
      (\<lambda>n'. if self_quorum n' then advance_commit (last_log_index n + length cmds) n' else skip n')] ?n)"
    by (rule keeps_persist)
  moreover have final: "(case checked_add (last_log_index n) (length cmds) of None \<Rightarrow> None
      | Some i \<Rightarrow> if i < u64_max then Some i else None) = Some (last_log_index n + length cmds)"
    using False by (simp add: checked_add_def)
  ultimately show ?thesis
    using False unfolding on_client_propose_batch_def Let_def final option.sel
    by (simp add: run_modify)
qed

lemma keeps_accept_entries:
  assumes "role n = Follower" and "validate_append_entries (term_of n) prev pt es = Some pl"
  shows "keeps R P n (accept_entries ldr prev pt es pl lc r n)"
proof -
  let ?store = "(\<lambda>n. let new_commit = min lc pl
             in if new_commit > commit_index n then advance_commit new_commit n
                else refresh_effective_membership n)"
  have merge: "keeps R P n (run [store_entries es, ?store, append_reply ldr True pl r None] n)"
    if "snapshot_index n \<le> prev" "log_term n prev = Some pt"
      "\<not> list_ex (\<lambda>e. index e \<le> commit_index n \<and> log_term n (index e) \<noteq> Some (e_term e)) es"
      "valid_configuration_suffix n (candidate_log (snapshot_index n) (log n) es)"
    by (rule follow_law [OF assms that])
  show ?thesis
    unfolding accept_entries_def
    using merge hint_law [of n prev]
    by (auto intro!: base_intros simp: panic_def split: option.splits)
qed

lemma keeps_on_append_entries:
  assumes "validate_append_entries t prev pt es = Some pl" and "t \<le> term_of n"
  shows "keeps R P n (on_append_entries t ldr prev pt es pl lc r n)"
proof (cases "t < term_of n")
  case True
  then show ?thesis by (auto simp: on_append_entries_def intro!: base_intros)
next
  case False
  with assms have t: "t = term_of n" by simp
  show ?thesis
    unfolding on_append_entries_def if_not_P [OF False]
    by (intro base_intros keeps_accept_entries)
      (use assms t in \<open>auto simp: quiet_defs reset_election_deadline_def split: prod.splits dest!: become_follower_reads\<close>)
qed

lemma keeps_on_recover: "keeps R P n (on_recover n)"
  using recover_law [of n] by (cases "recovery_pending n") (auto simp: on_recover_def keeps_skip)

lemma keeps_append_configuration:
  assumes "is_leader n"
    and "\<not> list_ex (\<lambda>e. index e > commit_index n \<and> is_configuration (command e)) (log n)"
    and "first_phase (cm_state (committed_membership n)) (request_id ce) (ce_operation ce) = Inr (phase ce) \<or>
      phase ce = PhaseFinal \<and> (\<exists>r. pending (cm_state (committed_membership n)) = Some (request_id ce, r) \<and>
        operation r = ce_operation ce)"
  shows "keeps R P n (map_option snd (append_configuration ce n))"
proof (cases "last_log_index n + 1 < u64_max")
  case True
  let ?e = "\<lparr>index = last_log_index n + 1, e_term = term_of n, command = Configuration ce\<rparr>"
  let ?commit = "\<lambda>n. case quorum_commit_candidate n of Some c \<Rightarrow> advance_commit c n | None \<Rightarrow> skip n"
  have "keeps R P n (run [run [modify (\<lambda>n. n\<lparr>log := log n @ [?e]\<rparr>), push (PersistLogEntries None [?e]),
      refresh_effective_membership], ?commit] n)"
    by (rule keeps_run_Cons, rule configure_law [OF assms(1) True assms(2,3) refl])
      (intro keeps_run_Cons keeps_run_Nil keeps_commit_candidate)
  then have "keeps R P n (run [modify (\<lambda>n. n\<lparr>log := log n @ [?e]\<rparr>), push (PersistLogEntries None [?e]),
      refresh_effective_membership, ?commit] n)"
    by (simp add: run_append)
  then show ?thesis
    using True by (simp add: append_configuration_def checked_add_def Let_def option.map_comp comp_def
        case_prod_unfold option.map_ident)
next
  case False
  then show ?thesis
    by (auto simp: append_configuration_def rel_nil split: option.splits)
qed

lemma keeps_maybe_finalize_membership: "keeps R P n (maybe_finalize_membership n)"
proof -
  have eq: "map_option (\<lambda>(_, n', es). (n', es)) m = map_option snd m" for m :: "(log_index option \<times> raft_node \<times> effect list) option"
    by (cases m) auto
  show ?thesis
    unfolding maybe_finalize_membership_def eq
    by (auto intro!: keeps_skip keeps_append_configuration split: option.splits)
qed

lemma keeps_admit_change:
  assumes "is_leader n"
    and "\<not> list_ex (\<lambda>e. index e > commit_index n \<and> is_configuration (command e)) (log n)"
    and "first_phase (cm_state (committed_membership n)) rid op = Inr ph"
  shows "keeps R P n (map_option snd (admit_change rid op ph n))"
proof -
  let ?ce = "\<lparr>request_id = rid, ce_operation = op, phase = ph\<rparr>"
  have "keeps R P n (map_option snd (append_configuration ?ce n))"
    using assms by (intro keeps_append_configuration) auto
  moreover have "quiet m (m\<lparr>promotion_fence := None\<rparr>) []" for m by (simp add: quiet_defs)
  ultimately show ?thesis
    unfolding admit_change_def
    by (auto simp: keeps_def split: option.splits prod.splits intro: rel_quiet)
qed

lemma keeps_admit_membership: "keeps R P n (map_option snd (admit_membership rid op n))"
proof -
  have fence: "keeps R P n (map_option snd (if learners_behind n1 vs f
        then Some (reject_admin n1 r, n1, []) else admit_change rid op ph n1))"
    if "choose_fence rid op n = Some (f, n1)" "is_leader n"
      "\<not> list_ex (\<lambda>e. index e > commit_index n \<and> is_configuration (command e)) (log n)"
      "first_phase (cm_state (committed_membership n)) rid op = Inr ph" for f n1 vs r ph
  proof -
    note q = quiet_choose_fence [OF that(1)]
    have "is_leader n1" using that(1,2)
      by (auto simp: choose_fence_def is_leader_def split: option.splits if_splits)
    moreover have "committed_membership n1 = committed_membership n"
      using q by (intro protocol_state_reads(8)) (simp add: quiet_def)
    ultimately have "keeps R P n1 (map_option snd (admit_change rid op ph n1))"
      using that quiet_fields [OF q] by (intro keeps_admit_change) auto
    then show ?thesis
      using keeps_after_quiet [OF q] quiet_law [OF q] by (auto simp: rel_nil)
  qed
  show ?thesis
    unfolding admit_membership_def Let_def
    by (auto simp: rel_nil fence keeps_admit_change split: option.splits sum.splits admin_operation.splits)
qed

lemma keeps_on_membership_change: "keeps R P n (on_membership_change rid op n)"
proof -
  have "R s t (es @ [MembershipResult rid out])" if "R s t es" for s t es out
    using that by (rule rel_append) (auto intro!: quiet_law simp: quiet_defs)
  with keeps_admit_membership [of n rid op] show ?thesis
    unfolding on_membership_change_def by (auto simp: keeps_def split: option.splits prod.splits)
qed

lemma keeps_tick_leader: "keeps R P n (tick_leader now n)"
  unfolding tick_leader_def Let_def
  by (auto intro!: base_intros keeps_maybe_finalize_membership keeps_send_append_entries
      simp: quiet_defs reset_election_deadline_def split: option.splits prod.splits)

lemma keeps_on_tick:
  assumes "voter_config n = voter_config start"
  shows "keeps R P n (on_tick now n)"
  unfolding on_tick_def
  using assms
  by (auto intro!: base_intros keeps_tick_leader keeps_start_pre_vote
      simp: quiet_defs reset_election_deadline_def voter_config_def split: prod.splits)

lemma adopt_term_voter_config: "adopt_term t n = Some (n', es) \<Longrightarrow> voter_config n' = voter_config n"
  by (auto simp: adopt_term_def run_Cons_Some_iff run_Nil_Some_iff skip_def voter_config_def split: if_splits
      dest!: keepsD [OF calm_become_follower] keepsD [OF quiet_cancel_incoming_snapshot] quiet_fields(11))

lemma keeps_dispatch:
  assumes "voter_config n = voter_config start" and "carries inp from msg" and "\<not> is_group_message msg" and "\<And>t c. msg \<noteq> MembershipAdvertisement t c"
    and "\<And>t ldr prev pt es lc r. msg = AppendEntries t ldr prev pt es lc r \<Longrightarrow> append_last \<noteq> None \<Longrightarrow>
      validate_append_entries t prev pt es = append_last \<and> t \<le> term_of n"
  shows "keeps R P n (dispatch from msg append_last n)"
  using assms
  by (cases msg) (auto simp: dispatch_def intro!: base_intros keeps_on_append_entries_reply
      keeps_on_install_snapshot_reply keeps_on_request_vote keeps_on_request_vote_reply
      keeps_on_append_entries keeps_on_pre_vote_reply split: option.splits)

lemma keeps_process_message:
  assumes "voter_config n = voter_config start" and "carries inp from msg" and "\<not> is_group_message msg" and "\<And>t c. msg \<noteq> MembershipAdvertisement t c"
  shows "keeps R P n (process_message from msg n)"
proof (cases "\<exists>t ldr prev pt es lc r. msg = AppendEntries t ldr prev pt es lc r")
  case True
  then obtain t ldr prev pt es lc r where msg: "msg = AppendEntries t ldr prev pt es lc r" by blast
  show ?thesis
    using assms(1,2) unfolding process_message_def msg
    by (auto simp: msg_term_def intro!: base_intros keeps_adopt_term keeps_dispatch
        dest: adopt_term_reaches adopt_term_voter_config split: option.splits)
next
  case False
  then have "keeps R P n (run [adopt_term (msg_term n msg), dispatch from msg None] n)"
    using assms by (intro base_intros keeps_adopt_term keeps_dispatch) (auto dest: adopt_term_voter_config)
  then show ?thesis
    using False by (cases msg) (auto simp: process_message_def)
qed

lemma keeps_on_message:
  assumes "voter_config n = voter_config start" and "inp = Message from wire"
  shows "keeps R P n (on_message from wire n)"
proof (cases "unwrap_group_message n wire")
  case None
  then show ?thesis by (simp add: on_message_def keeps_skip)
next
  case (Some msg)
  have "keeps R P n (process_message from msg n)" if "\<And>t c. msg \<noteq> MembershipAdvertisement t c"
    using unwrap_carries [OF Some] unwrap_not_group [OF Some] that assms by (intro keeps_process_message) auto
  then show ?thesis
    unfolding on_message_def Some
    by (cases msg) (auto intro: keeps_skip quiet_on_membership_advertisement [THEN quiet_keeps])
qed

lemma keeps_handle:
  assumes "\<not> publication_input inp"
  shows "keeps R P start (handle inp start)"
  using assms
  by (cases inp) (auto simp: handle_def on_client_propose_def intro: keeps_on_recover keeps_on_membership_change
      keeps_on_tick keeps_on_message keeps_on_client_propose_batch keeps_intros [THEN quiet_keeps])

lemma keeps_step:
  assumes "\<not> publication_input inp"
  shows "keeps R P start (step start inp)"
  using keeps_handle [OF assms]
  by (auto simp: step_def rel_nil keeps_def wrap_law split: option.splits)

end

end
