(* ===== verification/Transitions.thy ===== *)
theory Transitions
  imports Contract
begin

text \<open>
  Closed forms of the composite transitions the interpretations of \<open>protocol_relation\<close> meet: the
  apply loop, commitment, the storing of a leader's entries and recovery, each described by the
  protocol state it leaves and the effects it pushes.
\<close>

section \<open>The apply loop\<close>

lemma entry_at_eq:
  "entry_at n i = (if snapshot_index n < i \<and> i \<le> snapshot_index n + length (log n)
     then Some (log n ! (i - snapshot_index n - 1)) else None)"
  by (auto simp: entry_at_def checked_sub_def slice_get_def)

lemma entry_at_last_applied [simp]: "entry_at (n\<lparr>last_applied := k\<rparr>) = entry_at n"
  by (rule ext) (simp add: entry_at_eq snapshot_index_def)

definition applicable :: "raft_node \<Rightarrow> bool" where
  "applicable n = (\<forall>k \<in> {last_applied n + 1 .. commit_index n}. entry_at n k \<noteq> None)"

definition to_apply :: "raft_node \<Rightarrow> entry list" where
  "to_apply n = map (\<lambda>k. the (entry_at n k)) [last_applied n + 1 ..< commit_index n + 1]"

lemma apply_committed_eq:
  "apply_committed n =
     (if applicable n
      then Some (n\<lparr>last_applied := max (last_applied n) (commit_index n)\<rparr>, map Apply (to_apply n))
      else None)"
proof (induction n rule: apply_committed.induct)
  case (1 n)
  show ?case
  proof (cases "last_applied n < commit_index n")
    case False
    then have "applicable n" "to_apply n = []" "n\<lparr>last_applied := max (last_applied n) (commit_index n)\<rparr> = n"
      by (auto simp: applicable_def to_apply_def max_def)
    with False show ?thesis
      by (simp add: apply_committed.simps [of n] skip_def)
  next
    case True
    let ?n = "n\<lparr>last_applied := last_applied n + 1\<rparr>"
    have range: "{last_applied n + 1 .. commit_index n} =
        insert (last_applied n + 1) {last_applied ?n + 1 .. commit_index ?n}"
      using True by auto
    have "[last_applied n + 1 ..< commit_index n + 1] =
        (last_applied n + 1) # [last_applied ?n + 1 ..< commit_index ?n + 1]"
      using True by (simp add: upt_conv_Cons)
    then have todo: "to_apply n = the (entry_at n (last_applied n + 1)) # to_apply ?n"
      by (simp add: to_apply_def del: upt_Suc)
    have ok: "applicable n \<longleftrightarrow> entry_at n (last_applied n + 1) \<noteq> None \<and> applicable ?n"
      unfolding applicable_def range by simp
    have mx: "max (last_applied ?n) (commit_index ?n) = max (last_applied n) (commit_index n)"
      using True by simp
    show ?thesis
      using 1 [OF True refl] True unfolding todo ok mx apply_committed.simps [of n]
      by (auto simp: Let_def split: option.splits)
  qed
qed

section \<open>Commitment\<close>

fun is_send :: "effect \<Rightarrow> bool" where
  "is_send (Send _ _) = True"
| "is_send _ = False"

definition silent :: "effect list \<Rightarrow> bool" where
  "silent es = list_all (\<lambda>e. \<not> is_send e) es"

lemma silent_simps [simp]: "silent []" "silent (e # es) = (\<not> is_send e \<and> silent es)"
  "silent (es @ es') = (silent es \<and> silent es')"
  by (simp_all add: silent_def)

lemma silent_map: "(\<And>x. \<not> is_send (f x)) \<Longrightarrow> silent (map f xs)"
  by (simp add: silent_def list_all_iff)


text \<open>\<open>refreshed\<close>: the configuration in force was recomputed from the uncommitted suffix.\<close>

definition refreshed :: "raft_node \<Rightarrow> raft_node \<Rightarrow> effect list \<Rightarrow> bool" where
  "refreshed n n' es \<longleftrightarrow>
     effective_after (committed_membership n) (log n) (commit_index n) = Inr (effective_membership n') \<and>
     quiet (n\<lparr>effective_membership := effective_membership n'\<rparr>) n' es \<and> silent es"

lemma refreshed_fields:
  assumes "refreshed n n' es"
  shows "self_id n' = self_id n" "hard n' = hard n" "log n' = log n" "commit_index n' = commit_index n"
    "last_applied n' = last_applied n" "snapshot n' = snapshot n" "publishing_snapshot n' = publishing_snapshot n"
    "genesis_membership n' = genesis_membership n" "recovery_pending n' = recovery_pending n"
    "recovery_refresh_hard n' = recovery_refresh_hard n" "is_candidate n' \<Longrightarrow> role n' = role n"
    "is_leader n' \<Longrightarrow> is_leader n" "list_all quiet_effect es" "silent es"
  using assms quiet_fields [of "n\<lparr>effective_membership := effective_membership n'\<rparr>" n' es]
  by (auto simp: refreshed_def quiet_def is_leader_def)

text \<open>
  \<open>committed_to i nxt n n' es\<close>: the outcome of committing through \<open>i\<close>, where \<open>nxt\<close> is the
  configuration history at \<open>i\<close>.
\<close>

definition committed_to :: "log_index \<Rightarrow> committed_membership \<Rightarrow> raft_node \<Rightarrow> raft_node \<Rightarrow> effect list \<Rightarrow> bool" where
  "committed_to i nxt n n' es \<longleftrightarrow>
     (let n0 = n\<lparr>hard := (if nxt = committed_membership n then hard n else (hard n)\<lparr>membership := Some nxt\<rparr>),
                 commit_index := i\<rparr>
      in \<exists>n1 qs. refreshed n0 n1 qs \<and> n' = n1\<lparr>last_applied := max (last_applied n) i\<rparr> \<and>
           es = (if nxt = committed_membership n then [] else [PersistHardState (hard n0)]) @ qs @
                map Apply (to_apply n0) @
                (if nxt = committed_membership n then [] else [MembershipChanged nxt]))"

lemma refresh_refreshed:
  assumes "refresh_effective_membership n = Some (n', es)"
  shows "refreshed n n' es"
proof -
  have reject: "silent es" if "reject_pending_reads r m = Some (m', es)" for r m m' es
    using that by (auto simp: reject_pending_reads_def run_Cons_Some_iff run_Nil_Some_iff push_all_def silent_map)
  have follower: "silent es" if "become_follower m = Some (m', es)" for m m' es
    using that by (auto simp: become_follower_def run_Cons_Some_iff run_Nil_Some_iff skip_def split: if_splits
        dest!: reject)
  have restart: "silent es" if "restart_quorum_round m = Some (m', es)" for m m' es
    using that by (auto simp: restart_quorum_round_def split: if_splits option.splits dest!: follower)
  have "silent es"
    using assms
    by (auto simp: refresh_effective_membership_def panic_def run_Cons_Some_iff run_Nil_Some_iff skip_def Let_def
        split: sum.splits if_splits dest!: follower reject restart)
  with refresh_Some [OF assms] show ?thesis by (simp add: refreshed_def)
qed

lemma advance_commit_Some:
  assumes "advance_commit i n = Some (n', es)" and "commit_index n < i"
  shows "\<exists>nxt. membership_at n i = Inr nxt \<and> committed_to i nxt n n' es"
proof (cases "membership_at n i")
  case (Inl e)
  with assms show ?thesis by (simp add: advance_commit_def panic_def)
next
  case (Inr nxt)
  let ?n0 = "n\<lparr>hard := (if nxt = committed_membership n then hard n else (hard n)\<lparr>membership := Some nxt\<rparr>),
      commit_index := i\<rparr>"
  have "\<exists>n1 qs n2 as. refresh_effective_membership ?n0 = Some (n1, qs) \<and> apply_committed n1 = Some (n2, as) \<and>
      n' = n2 \<and> es = (if nxt = committed_membership n then [] else [PersistHardState (hard ?n0)]) @ qs @ as @
        (if nxt = committed_membership n then [] else [MembershipChanged nxt])"
    using assms Inr
    by (auto simp: advance_commit_def Let_def run_Cons_Some_iff run_Nil_Some_iff skip_def split: if_splits)
  then obtain n1 qs n2 as where *: "refresh_effective_membership ?n0 = Some (n1, qs)"
    "apply_committed n1 = Some (n2, as)" "n' = n2"
    "es = (if nxt = committed_membership n then [] else [PersistHardState (hard ?n0)]) @ qs @ as @
        (if nxt = committed_membership n then [] else [MembershipChanged nxt])" by blast
  note q = refresh_refreshed [OF *(1)]
  then have reads: "commit_index n1 = i" "last_applied n1 = last_applied n" "entry_at n1 = entry_at ?n0"
    using refreshed_fields [OF q] by (auto simp: entry_at_eq snapshot_index_def fun_eq_iff)
  have "to_apply n1 = to_apply ?n0" by (simp add: to_apply_def reads)
  with * reads have "n' = n1\<lparr>last_applied := max (last_applied n) i\<rparr>" "as = map Apply (to_apply ?n0)"
    by (auto simp: apply_committed_eq split: if_splits)
  with q * Inr show ?thesis by (auto simp: committed_to_def Let_def)
qed

lemma committed_to_fields:
  assumes "committed_to i nxt n n' es"
  shows "self_id n' = self_id n" "log n' = log n" "snapshot n' = snapshot n" "commit_index n' = i"
    "publishing_snapshot n' = publishing_snapshot n" "last_applied n' = max (last_applied n) i"
    "hard n' = (if nxt = committed_membership n then hard n else (hard n)\<lparr>membership := Some nxt\<rparr>)"
    "genesis_membership n' = genesis_membership n" "is_candidate n' \<Longrightarrow> role n' = role n" "is_leader n' \<Longrightarrow> is_leader n"
    "recovery_pending n' = recovery_pending n" "recovery_refresh_hard n' = recovery_refresh_hard n"
    "filter is_persist_hard es = (if nxt = committed_membership n then [] else [PersistHardState (hard n')])"
proof -
  let ?n0 = "n\<lparr>hard := (if nxt = committed_membership n then hard n else (hard n)\<lparr>membership := Some nxt\<rparr>),
      commit_index := i\<rparr>"
  from assms obtain n1 qs where q: "refreshed ?n0 n1 qs" and n': "n' = n1\<lparr>last_applied := max (last_applied n) i\<rparr>"
    and es: "es = (if nxt = committed_membership n then [] else [PersistHardState (hard ?n0)]) @ qs @
      map Apply (to_apply ?n0) @ (if nxt = committed_membership n then [] else [MembershipChanged nxt])"
    by (auto simp: committed_to_def Let_def)
  have "\<not> is_persist_hard e" if "e \<in> set qs" for e
    using refreshed_fields(13) [OF q] that by (cases e) (auto simp: list_all_iff)
  then show "filter is_persist_hard es = (if nxt = committed_membership n then [] else [PersistHardState (hard n')])"
    using n' es refreshed_fields [OF q] by (auto simp: filter_empty_conv filter_map comp_def)
  show "is_candidate n' \<Longrightarrow> role n' = role n" "is_leader n' \<Longrightarrow> is_leader n"
    using refreshed_fields(11,12) [OF q] n' by (auto simp: is_candidate_def is_leader_def)
  show "self_id n' = self_id n" "log n' = log n" "snapshot n' = snapshot n" "commit_index n' = i"
    "publishing_snapshot n' = publishing_snapshot n" "last_applied n' = max (last_applied n) i"
    "hard n' = (if nxt = committed_membership n then hard n else (hard n)\<lparr>membership := Some nxt\<rparr>)"
    "genesis_membership n' = genesis_membership n"
    "recovery_pending n' = recovery_pending n" "recovery_refresh_hard n' = recovery_refresh_hard n"
    using refreshed_fields [OF q] n' by simp_all
qed

lemma committed_to_silent: "committed_to i nxt n n' es \<Longrightarrow> silent es"
  by (auto simp: committed_to_def Let_def silent_map refreshed_def)

lemma advance_commit_cases:
  assumes "advance_commit i n = Some (n', es)"
  shows "n' = n \<and> es = [] \<and> i \<le> commit_index n \<or>
    commit_index n < i \<and> (\<exists>nxt. membership_at n i = Inr nxt \<and> committed_to i nxt n n' es)"
proof (cases "commit_index n < i")
  case True
  with advance_commit_Some [OF assms True] show ?thesis by blast
next
  case False
  with assms show ?thesis by (simp add: advance_commit_def skip_def)
qed

lemma advance_commit_silent: "advance_commit i n = Some (n', es) \<Longrightarrow> silent es"
  by (auto dest: advance_commit_cases committed_to_silent)

section \<open>Storing a leader's entries\<close>

lemma merge_entries_log:
  "merge_entries n tf app es = (n', tf', app') \<Longrightarrow> \<exists>k. n' = n\<lparr>log := take k (log n)\<rparr>"
proof (induction n tf app es arbitrary: n' tf' app' rule: merge_entries.induct)
  case (1 n tf app)
  then have "n' = n\<lparr>log := take (length (log n)) (log n)\<rparr>" by simp
  then show ?case ..
next
  case (2 n tf app e es)
  then show ?case by (auto split: if_splits)
qed

lemma store_entries_Some:
  "\<exists>lg ef. store_entries es n = Some (n\<lparr>log := lg\<rparr>, ef) \<and> silent ef"
proof -
  obtain n1 tf app where m: "merge_entries n None [] es = (n1, tf, app)" by (cases "merge_entries n None [] es")
  then obtain k where n1: "n1 = n\<lparr>log := take k (log n)\<rparr>" by (blast dest: merge_entries_log)
  show ?thesis
  proof (cases "app = []")
    case True
    with m n1 have "store_entries es n = Some (n\<lparr>log := take k (log n)\<rparr>, [])" by (simp add: store_entries_def)
    then show ?thesis by auto
  next
    case False
    with m n1 have "store_entries es n = Some (n\<lparr>log := take k (log n) @ app\<rparr>, [PersistLogEntries tf app])"
      by (simp add: store_entries_def run_Cons run.simps(1) act_seq_def act_defs)
    then show ?thesis by auto
  qed
qed

section \<open>Recovery\<close>

lemma on_recover_Some:
  assumes "on_recover n = Some (n', es)" and "recovery_pending n"
  shows "applicable n \<and>
    n' = n\<lparr>recovery_pending := False, recovery_refresh_hard := False, last_applied := max (last_applied n) (commit_index n)\<rparr> \<and>
    es = (if recovery_refresh_hard n then [PersistHardState (hard n)] else []) @ map Apply (to_apply n)"
proof -
  have eq: "applicable (n\<lparr>recovery_pending := a, recovery_refresh_hard := b\<rparr>) = applicable n"
    "to_apply (n\<lparr>recovery_pending := a, recovery_refresh_hard := b\<rparr>) = to_apply n"
    "applicable (n\<lparr>recovery_pending := a\<rparr>) = applicable n" "to_apply (n\<lparr>recovery_pending := a\<rparr>) = to_apply n" for a b
    by (simp_all add: applicable_def to_apply_def entry_at_eq snapshot_index_def)
  from assms show ?thesis
    by (auto simp: on_recover_def run_Cons_Some_iff run_Nil_Some_iff skip_def apply_committed_eq eq split: if_splits)
qed

section \<open>Snapshot publication\<close>

text \<open>
  \<open>publishes\<close>: the node hands a snapshot to its driver together with the log suffix the new
  generation keeps.  \<open>compacted\<close> and \<open>installed\<close>: what the driver's confirmation does when the
  image came from the node itself or from a leader.
\<close>

definition publishes :: "raft_node \<Rightarrow> raft_node \<Rightarrow> effect list \<Rightarrow> bool" where
  "publishes n n' es \<longleftrightarrow>
     (\<exists>m tr d r. quiet n m [] \<and>
        n' = m\<lparr>publishing_snapshot := Some \<lparr>ps_transfer = tr, ps_descriptor = d, ps_retained = retained_suffix n d,
               ps_contact_round = r\<rparr>\<rparr> \<and>
        es = [PublishSnapshot tr d (retained_suffix n d)] \<and> snapshot n \<noteq> Some d \<and>
        (case tr of
           None \<Rightarrow> publishing_snapshot n = None \<and> is_ok (descriptor_validate d) \<and> compaction_membership_matches n d \<and>
             snapshot_index n < last_included_index (metadata d) \<and>
             last_included_index (metadata d) \<le> last_applied n \<and> last_included_index (metadata d) \<le> commit_index n \<and>
             log_term n (last_included_index (metadata d)) = Some (last_included_term (metadata d))
         | Some _ \<Rightarrow> last_applied n < last_included_index (metadata d) \<and>
             commit_index n \<le> last_included_index (metadata d)))"

definition compacted :: "publishing_snapshot \<Rightarrow> raft_node \<Rightarrow> raft_node" where
  "compacted p n =
     n\<lparr>publishing_snapshot := None, log := ps_retained p, snapshot := Some (ps_descriptor p), outgoing_snapshots := []\<rparr>"

definition adopted_hard :: "snapshot_descriptor \<Rightarrow> hard_state \<Rightarrow> hard_state" where
  "adopted_hard d h = (case sm_membership (metadata d) of None \<Rightarrow> h | Some c \<Rightarrow> h\<lparr>membership := Some c\<rparr>)"

definition installed :: "publishing_snapshot \<Rightarrow> snapshot_transfer_id \<Rightarrow> raft_node \<Rightarrow> raft_node \<Rightarrow> effect list \<Rightarrow> bool" where
  "installed p tr n n' es \<longleftrightarrow>
     (let d = ps_descriptor p; boundary = last_included_index (metadata d);
          n0 = (compacted p n)\<lparr>hard := adopted_hard d (hard n), commit_index := boundary\<rparr>
      in \<exists>n1 qs. refreshed n0 n1 qs \<and> n' = n1\<lparr>last_applied := boundary, incoming_snapshot := None\<rparr> \<and>
           es = (if membership (hard n0) = membership (hard n) then [] else [PersistHardState (hard n0)]) @ qs @
                [ApplySnapshot d, Send (st_leader_id tr)
                  (InstallSnapshotReply (term_of n) tr (total_len d) boundary True True (ps_contact_round p))])"

lemma on_compact_cases:
  assumes "on_compact d n = Some (n', es)"
  shows "quiet n n' es \<or> publishes n n' es"
proof (cases "publishing_snapshot n \<noteq> None \<or> incoming_snapshot n \<noteq> None \<or> \<not> is_ok (descriptor_validate d) \<or>
    \<not> compaction_membership_matches n d \<or> last_included_index (metadata d) \<le> snapshot_index n \<or>
    last_included_index (metadata d) > last_applied n \<or> last_included_index (metadata d) > commit_index n \<or>
    log_term n (last_included_index (metadata d)) \<noteq> Some (last_included_term (metadata d))")
  case True
  then have "\<exists>r. on_compact d n = snapshot_reject r n" by (auto simp: on_compact_def Let_def)
  with assms show ?thesis by (metis keepsD quiet_snapshot_reject)
next
  case False
  then have "snapshot n \<noteq> Some d" by (auto simp: snapshot_index_def)
  moreover have "quiet n n []" by (simp add: quiet_def)
  ultimately have "publishes n n' es"
    unfolding publishes_def
    using assms False
    by (intro exI [of _ n] exI [of _ None] exI [of _ d] exI [of _ 0])
      (auto simp: on_compact_def Let_def run_Cons_Some_iff run_Nil_Some_iff)
  then show ?thesis ..
qed

lemma chunk_staged_ok_cases:
  assumes "chunk_staged_ok tr d active ee r no c n = Some (n', es)"
  shows "quiet n n' es \<or> publishes n n' es"
proof -
  let ?n = "n\<lparr>incoming_snapshot := Some (active\<lparr>is_pending := None, next_offset := no\<rparr>)\<rparr>"
  have q: "quiet n ?n []" by (simp add: quiet_defs)
  have pub: "publishes n (?n\<lparr>publishing_snapshot := Some \<lparr>ps_transfer = Some tr, ps_descriptor = d,
      ps_retained = retained_suffix ?n d, ps_contact_round = r\<rparr>\<rparr>) [PublishSnapshot (Some tr) d (retained_suffix ?n d)]"
    if "snapshot n \<noteq> Some d" "\<not> (last_included_index (metadata d) \<le> last_applied n \<or>
      last_included_index (metadata d) < commit_index n)"
  proof -
    have eq: "retained_suffix ?n d = retained_suffix n d"
      using protocol_state_reads(6) [of ?n n] by (simp add: retained_suffix_def Let_def protocol_state_def)
    show ?thesis
      unfolding publishes_def eq using q that
      by (intro exI [of _ ?n] exI [of _ "Some tr"] exI [of _ d] exI [of _ r]) auto
  qed
  show ?thesis
  proof (cases "snapshot n \<noteq> Some d \<and> c \<and> \<not> (last_included_index (metadata d) \<le> last_applied n \<or>
      last_included_index (metadata d) < commit_index n)")
    case True
    show ?thesis
      using assms pub True unfolding chunk_staged_ok_def Let_def
      by (auto simp: run_modify run_Cons_Some_iff run_Nil_Some_iff quiet_defs refuse_snapshot_def snapshot_reply_def
          cancel_incoming_snapshot_def skip_def split: if_splits option.splits)
  next
    case False
    have "keeps quiet unreplayable n (chunk_staged_ok tr d active ee r no c n)"
      using False unfolding chunk_staged_ok_def Let_def
      by (auto intro!: quiet_blocks keeps_intros simp: quiet_defs)
    with assms show ?thesis by simp
  qed
qed

lemma publishes_after_quiet:
  assumes q: "quiet n m []" and p: "publishes m n' es"
  shows "publishes n n' es"
proof -
  from q have ps: "protocol_state m = protocol_state n" by (simp add: quiet_def)
  have same: "retained_suffix m d = retained_suffix n d"
    "compaction_membership_matches m d = compaction_membership_matches n d" for d
    using quiet_fields(3) [OF q]
    by (simp_all add: retained_suffix_def Let_def compaction_membership_matches_def protocol_state_reads(6,10) [OF ps])
  have "quiet n m2 []" if "quiet m m2 []" for m2 using quiet.rel_append [OF q that] by simp
  with p show ?thesis
    unfolding publishes_def same quiet_fields(4-7) [OF q] protocol_state_reads(1,6) [OF ps] by blast
qed

lemma on_snapshot_chunk_staged_cases:
  assumes "on_snapshot_chunk_staged tr d off res n = Some (n', es)"
  shows "quiet n n' es \<or> publishes n n' es"
proof -
  let ?m = "\<lambda>active. modify (\<lambda>n. n\<lparr>incoming_snapshot := Some (active\<lparr>is_pending := None\<rparr>)\<rparr>)"
  have q: "quiet n (n\<lparr>incoming_snapshot := Some (active\<lparr>is_pending := None\<rparr>)\<rparr>) []" for active
    by (simp add: quiet_defs)
  have "on_snapshot_chunk_staged tr d off res n = skip n \<or>
      (\<exists>active no. on_snapshot_chunk_staged tr d off res n = run [?m active, refuse_snapshot tr no] n) \<or>
      (\<exists>active ee r no c.
        on_snapshot_chunk_staged tr d off res n = run [?m active, chunk_staged_ok tr d active ee r no c] n)"
    unfolding on_snapshot_chunk_staged_def by (cases res; simp split: option.split; blast)
  then consider (skip) "on_snapshot_chunk_staged tr d off res n = skip n"
    | (refuse) active no where "on_snapshot_chunk_staged tr d off res n = run [?m active, refuse_snapshot tr no] n"
    | (staged) active ee r no c where
        "on_snapshot_chunk_staged tr d off res n = run [?m active, chunk_staged_ok tr d active ee r no c] n"
    by blast
  then show ?thesis
  proof cases
    case skip
    with assms show ?thesis by (simp add: skip_def quiet.rel_nil)
  next
    case (refuse active no)
    have "keeps quiet unreplayable n (run [?m active, refuse_snapshot tr no] n)"
      by (auto intro!: quiet_blocks keeps_intros simp: quiet_defs)
    from keepsD [OF this assms [unfolded refuse]] show ?thesis ..
  next
    case (staged active ee r no c)
    with assms have "chunk_staged_ok tr d active ee r no c (n\<lparr>incoming_snapshot := Some (active\<lparr>is_pending := None\<rparr>)\<rparr>) =
        Some (n', es)"
      by (auto simp: run_Cons_Some_iff run_Nil_Some_iff)
    from chunk_staged_ok_cases [OF this] show ?thesis
      using publishes_after_quiet [OF q] quiet.rel_append [OF q] by fastforce
  qed
qed

lemma on_snapshot_published_cases:
  assumes "on_snapshot_published tr d n = Some (n', es)"
  shows "n' = n \<and> es = [] \<or>
    (\<exists>p. publishing_snapshot n = Some p \<and> ps_transfer p = tr \<and> ps_descriptor p = d \<and>
       (case tr of None \<Rightarrow> n' = compacted p n \<and> es = [] | Some t \<Rightarrow> installed p t n n' es))"
proof (cases "\<exists>p. publishing_snapshot n = Some p \<and> ps_transfer p = tr \<and> ps_descriptor p = d")
  case False
  with assms show ?thesis by (auto simp: on_snapshot_published_def skip_def split: option.splits if_splits)
next
  case True
  then obtain p where p: "publishing_snapshot n = Some p" "ps_transfer p = tr" "ps_descriptor p = d" by blast
  show ?thesis
  proof (cases tr)
    case None
    with assms p show ?thesis
      by (auto simp: on_snapshot_published_def run_Cons run.simps(1) modify_def act_seq_def skip_def compacted_def)
  next
    case (Some t)
    with assms p have *: "install_published t d (ps_contact_round p) (compacted p n) = Some (n', es)"
      by (simp add: on_snapshot_published_def run_Cons run.simps(1) modify_def act_seq_def compacted_def split: option.splits)
    let ?n0 = "(compacted p n)\<lparr>hard := adopted_hard d (hard n), commit_index := last_included_index (metadata d)\<rparr>"
    have "\<exists>n1 qs. refresh_effective_membership ?n0 = Some (n1, qs) \<and>
        n' = n1\<lparr>last_applied := commit_index n1, incoming_snapshot := None\<rparr> \<and>
        es = (if membership (hard ?n0) = membership (hard n) then [] else [PersistHardState (hard ?n0)]) @ qs @
          [ApplySnapshot d, Send (st_leader_id t) (InstallSnapshotReply (term_of n1) t (total_len d)
             (last_included_index (metadata d)) True True (ps_contact_round p))]"
      using * unfolding install_published_def adopted_hard_def
      by (auto simp: run_Cons_Some_iff run_Nil_Some_iff skip_def snapshot_reply_def compacted_def
          split: option.splits if_splits)
    then obtain n1 qs where **: "refresh_effective_membership ?n0 = Some (n1, qs)"
      "n' = n1\<lparr>last_applied := commit_index n1, incoming_snapshot := None\<rparr>"
      "es = (if membership (hard ?n0) = membership (hard n) then [] else [PersistHardState (hard ?n0)]) @ qs @
          [ApplySnapshot d, Send (st_leader_id t) (InstallSnapshotReply (term_of n1) t (total_len d)
             (last_included_index (metadata d)) True True (ps_contact_round p))]" by blast
    note q = refresh_refreshed [OF **(1)]
    have "term_of n1 = term_of n" "commit_index n1 = last_included_index (metadata d)"
      using refreshed_fields(2,4) [OF q] by (auto simp: adopted_hard_def split: option.splits)
    with q ** p Some have "installed p t n n' es" by (auto simp: installed_def Let_def)
    with p Some show ?thesis by auto
  qed
qed

lemma adopted_hard_fields [simp]:
  "current_term (adopted_hard d h) = current_term h" "voted_for (adopted_hard d h) = voted_for h"
  by (simp_all add: adopted_hard_def split: option.splits)

lemma installed_fields:
  assumes "installed p t n n' es"
  shows "self_id n' = self_id n" "hard n' = adopted_hard (ps_descriptor p) (hard n)" "log n' = ps_retained p"
    "snapshot n' = Some (ps_descriptor p)" "commit_index n' = last_included_index (metadata (ps_descriptor p))"
    "last_applied n' = last_included_index (metadata (ps_descriptor p))" "publishing_snapshot n' = None"
    "genesis_membership n' = genesis_membership n" "is_candidate n' \<Longrightarrow> role n' = role n" "is_leader n' \<Longrightarrow> is_leader n"
    "recovery_pending n' = recovery_pending n" "recovery_refresh_hard n' = recovery_refresh_hard n"
proof -
  let ?n0 = "(compacted p n)\<lparr>hard := adopted_hard (ps_descriptor p) (hard n),
    commit_index := last_included_index (metadata (ps_descriptor p))\<rparr>"
  from assms obtain n1 qs where q: "refreshed ?n0 n1 qs" and n': "n' = n1\<lparr>last_applied :=
      last_included_index (metadata (ps_descriptor p)), incoming_snapshot := None\<rparr>"
    by (auto simp: installed_def Let_def)
  show "self_id n' = self_id n" "hard n' = adopted_hard (ps_descriptor p) (hard n)" "log n' = ps_retained p"
    "snapshot n' = Some (ps_descriptor p)" "commit_index n' = last_included_index (metadata (ps_descriptor p))"
    "last_applied n' = last_included_index (metadata (ps_descriptor p))" "publishing_snapshot n' = None"
    "genesis_membership n' = genesis_membership n"
    "recovery_pending n' = recovery_pending n" "recovery_refresh_hard n' = recovery_refresh_hard n"
    using refreshed_fields [OF q] n' by (simp_all add: compacted_def)
  show "is_candidate n' \<Longrightarrow> role n' = role n" "is_leader n' \<Longrightarrow> is_leader n"
    using refreshed_fields(11,12) [OF q] n' by (auto simp: is_candidate_def is_leader_def compacted_def)
qed

lemma installed_effects:
  assumes "installed p t n n' es"
  shows "\<exists>qs msg. silent qs \<and> list_all quiet_effect qs \<and> \<not> pledge msg \<and>
    es = (if membership (hard n') = membership (hard n) then [] else [PersistHardState (hard n')]) @ qs @
      [ApplySnapshot (ps_descriptor p), Send (st_leader_id t) msg]"
  using assms installed_fields(2) [OF assms]
  by (auto simp: installed_def Let_def quiet_def refreshed_def)

lemma publishes_fields:
  assumes "publishes n n' es"
  shows "self_id n' = self_id n" "hard n' = hard n" "log n' = log n" "snapshot n' = snapshot n"
    "commit_index n' = commit_index n" "last_applied n' = last_applied n"
    "genesis_membership n' = genesis_membership n" "is_candidate n' \<Longrightarrow> role n' = role n" "is_leader n' \<Longrightarrow> is_leader n"
    "recovery_pending n' = recovery_pending n" "recovery_refresh_hard n' = recovery_refresh_hard n" "silent es"
proof -
  from assms obtain m p tr d r where q: "quiet n m []" "n' = m\<lparr>publishing_snapshot := Some p\<rparr>" "es = [PublishSnapshot tr d r]"
    unfolding publishes_def by blast
  then show "self_id n' = self_id n" "hard n' = hard n" "log n' = log n" "snapshot n' = snapshot n"
    "commit_index n' = commit_index n" "last_applied n' = last_applied n"
    "genesis_membership n' = genesis_membership n"
    "recovery_pending n' = recovery_pending n" "recovery_refresh_hard n' = recovery_refresh_hard n" "silent es"
    using quiet_fields [OF q(1)] by simp_all
  show "is_candidate n' \<Longrightarrow> role n' = role n" "is_leader n' \<Longrightarrow> is_leader n"
    using q by (auto simp: quiet_def is_candidate_def is_leader_def)
qed

text \<open>The three inputs of snapshot publication, summarised.\<close>

definition publication_outcome :: "raft_node \<Rightarrow> raft_node \<Rightarrow> effect list \<Rightarrow> bool" where
  "publication_outcome n n' es \<longleftrightarrow>
     quiet n n' es \<or> publishes n n' es \<or>
     (\<exists>p. publishing_snapshot n = Some p \<and> ps_transfer p = None \<and> n' = compacted p n \<and> es = []) \<or>
     (\<exists>p t. publishing_snapshot n = Some p \<and> ps_transfer p = Some t \<and> installed p t n n' es)"

lemma publication_handle:
  assumes "handle inp n = Some (n', es)" and "publication_input inp"
  shows "publication_outcome n n' es"
  using assms
  by (cases inp)
    (auto simp: handle_def publication_outcome_def quiet.rel_nil dest!: on_compact_cases on_snapshot_chunk_staged_cases
      on_snapshot_published_cases split: option.splits)

text \<open>
  A property of \<open>step\<close> follows from its interpretation of the contract and its case for publication.
\<close>

lemma step_cases:
  assumes "step n inp = Some (n', es)"
  shows "n' = n \<and> es = [] \<or> (\<exists>es'. handle inp n = Some (n', es') \<and> es = wrap_group_effects n' es')"
  using assms by (auto simp: step_def split: option.splits if_splits)

end
