(* ===== verification/Samples.thy ===== *)
theory Samples
  imports Transitions
begin

text \<open>
  Concrete nodes, inputs and configurations on which the theorems of the development are
  instantiated: the first node of a fresh three-node cluster and the messages it may receive, and the only node
  of a one-node cluster, which elects itself on its second tick.
\<close>

definition sample_genesis :: committed_membership where
  "sample_genesis = \<lparr>cm_index = 0, cm_term = 0, cm_state =
     \<lparr>version = 1, group_id = LEGACY_GROUP_ID, genesis_voters = [1, 2, 3], voters = Stable [1, 2, 3],
      learners = {}, retired = {}, endpoints = [], records = []\<rparr>\<rparr>"

definition sample_node :: raft_node where
  "sample_node = fresh_node 1 [2, 3] 7 sample_genesis"

definition single_genesis :: committed_membership where
  "single_genesis = \<lparr>cm_index = 0, cm_term = 0, cm_state =
     \<lparr>version = 1, group_id = LEGACY_GROUP_ID, genesis_voters = [1], voters = Stable [1],
      learners = {}, retired = {}, endpoints = [], records = []\<rparr>\<rparr>"

definition single_node :: raft_node where
  "single_node = fresh_node 1 [] 7 single_genesis"

lemma sample_node_new: "raft_new 1 [2, 3] 7 = Some sample_node"
  by (simp add: raft_new_def sample_node_def sample_genesis_def cm_bootstrap_def bootstrap_def
      bootstrap_with_group_def validate_request_id_def LEGACY_GROUP_ID_def MAX_ADMIN_ID_BYTES_def
      bytes_of_def validate_set_def)

lemma sample_reads [simp]:
  "self_id sample_node = 1" "peers sample_node = [2, 3]" "log sample_node = []" "role sample_node = Follower"
  "hard sample_node = \<lparr>current_term = 0, voted_for = None, membership = None\<rparr>" "snapshot sample_node = None"
  "recovery_pending sample_node = False" "commit_index sample_node = 0" "last_applied sample_node = 0"
  "incoming_snapshot sample_node = None" "pending_reads sample_node = []" "publishing_snapshot sample_node = None"
  "committed_membership sample_node = sample_genesis" "voter_config sample_node = Stable [1, 2, 3]"
  "genesis_membership sample_node = sample_genesis" "effective_membership sample_node = cm_state sample_genesis"
  by (simp_all add: sample_node_def fresh_node_def committed_membership_def voter_config_def sample_genesis_def)

lemma sample_genesis_reads [simp]:
  "group_id (cm_state sample_genesis) = LEGACY_GROUP_ID" "cm_index sample_genesis = 0"
  "cm_term sample_genesis = 0" "voters (cm_state sample_genesis) = Stable [1, 2, 3]"
  by (simp_all add: sample_genesis_def)

lemmas sample_step_defs =
  step_def handle_def on_message_def unwrap_group_message_def eligible_def is_voter_def malformed_def
  process_message_def msg_term_def adopt_term_def run_Cons act_seq_def run.simps modify_def push_def
  become_follower_def skip_def reject_pending_reads_def push_all_def bt_keys_def cancel_incoming_snapshot_def
  dispatch_def wrap_group_effects_def Let_def

lemma sample_reply_step:
  "\<exists>n' es. step sample_node (Message 2 (RequestVoteReply 5 False)) = Some (n', es) \<and> term_of n' = 5 \<and>
     PersistHardState (hard n') \<in> set es"
  by (simp add: sample_step_defs on_request_vote_reply_def)

lemma sample_vote_step:
  "\<exists>n' es. step sample_node (Message 2 (RequestVote 1 2 0 0)) = Some (n', es) \<and> term_of n' = 1 \<and>
     voted_for (hard n') = Some 2 \<and> Send 2 (RequestVoteReply 1 True) \<in> set es"
  by (simp add: sample_step_defs may_vote_for_def on_request_vote_def decide_vote_def last_log_index_def last_log_term_def
      snapshot_index_def snapshot_term_def reset_election_deadline_def voter_config_def committed_membership_def
      sample_node_def fresh_node_def split: prod.splits)

lemma single_first_tick:
  "step single_node (Tick 1000) = Some (reset_election_deadline (single_node\<lparr>now_ms := 1000\<rparr>), [])"
  by (simp add: single_node_def fresh_node_def sample_step_defs on_tick_def is_leader_def CHECK_QUORUM_MS_def
      ELECTION_MAX_MS_def ELECTION_MIN_MS_def u64_max_def checked_add_def reset_election_deadline_def
      range_inclusive_def saturating_add_def committed_membership_def single_genesis_def split: prod.splits)

text \<open>The only node of its cluster elects itself, and a proposal it then accepts is applied at once.\<close>

lemma single_leads:
  "\<exists>n' es n2 es2. step (reset_election_deadline (single_node\<lparr>now_ms := 1000\<rparr>)) (Tick 2000) = Some (n', es) \<and>
     is_leader n' \<and> term_of n' = 1 \<and> commit_index n' = 1 \<and> last_applied n' = 1 \<and> publishing_snapshot n' = None \<and>
     (\<forall>tr d kept. PublishSnapshot tr d kept \<notin> set es) \<and> step n' (ClientProposeBatch [Put ''k'' ''v'']) = Some (n2, es2) \<and> is_leader n2 \<and> term_of n2 = 1 \<and>
     publishing_snapshot n2 = None \<and> last_applied n2 = 2"
proof -
  have pub: "publishing_snapshot (reset_election_deadline n) = publishing_snapshot n" for n
    by (simp add: reset_election_deadline_def split: prod.split)
  have "0 < election_deadline_ms (reset_election_deadline (single_node\<lparr>now_ms := 1000\<rparr>)) \<and>
    election_deadline_ms (reset_election_deadline (single_node\<lparr>now_ms := 1000\<rparr>)) \<le> 1300"
  proof -
    obtain d r where d: "range_inclusive ELECTION_MIN_MS ELECTION_MAX_MS (rng single_node) = (d, r)" by force
    have "d \<le> ELECTION_MAX_MS"
      using range_inclusive_bounds [of ELECTION_MIN_MS ELECTION_MAX_MS "rng single_node"] d
      by (simp add: ELECTION_MIN_MS_def ELECTION_MAX_MS_def)
    with d show ?thesis
      by (auto simp: reset_election_deadline_def saturating_add_def ELECTION_MAX_MS_def u64_max_def)
  qed
  then show ?thesis
    by (simp add: single_node_def fresh_node_def sample_step_defs on_tick_def is_leader_def CHECK_QUORUM_MS_def pub
      ELECTION_MAX_MS_def u64_max_def checked_add_def committed_membership_def single_genesis_def is_voter_def voter_config_def
      start_pre_vote_def self_quorum_def has_quorum_def validate_set_def majority_def start_election_def become_leader_def
      last_log_index_def snapshot_index_def install_leader_def advance_commit_def membership_at_def membership_base_def
      refresh_effective_membership_def effective_after_def apply_committed_eq applicable_def to_apply_def entry_at_eq
      send_append_entries_def for_each.simps on_client_propose_def on_client_propose_batch_def MAX_PROPOSAL_BATCH_def)
qed

lemma single_second_tick:
  "\<exists>n' es. step (reset_election_deadline (single_node\<lparr>now_ms := 1000\<rparr>)) (Tick 2000) = Some (n', es) \<and>
     is_leader n' \<and> term_of n' = 1 \<and> commit_index n' = 1 \<and> last_applied n' = 1"
  using single_leads by blast

lemma single_node_new: "raft_new 1 [] 7 = Some single_node"
  by (simp add: raft_new_def single_node_def single_genesis_def cm_bootstrap_def bootstrap_def
      bootstrap_with_group_def validate_request_id_def LEGACY_GROUP_ID_def MAX_ADMIN_ID_BYTES_def
      bytes_of_def validate_set_def)

end
