(* ===== verification/Votes.thy ===== *)
theory Votes
  imports Samples
begin

text \<open>
  Terms and votes.  \<open>vote_rel\<close> is what a step may do to them: terms never decrease, a vote
  cast in a term is final, a candidate or leader has voted for itself, every granted vote reply
  speaks for the vote on disk, and a candidate's tally holds only itself and senders of granted
  replies for its term.
\<close>

fun payload :: "raft_message \<Rightarrow> raft_message" where
  "payload (GroupMessage _ _ msg) = msg"
| "payload msg = msg"

fun grant_of :: "effect \<Rightarrow> (node_id \<times> raft_term) set" where
  "grant_of (Send to msg) = (case payload msg of RequestVoteReply t g \<Rightarrow> if g then {(to, t)} else {} | _ \<Rightarrow> {})"
| "grant_of _ = {}"

definition grants :: "effect list \<Rightarrow> (node_id \<times> raft_term) set" where
  "grants es = (\<Union>e \<in> set es. grant_of e)"

definition own_vote :: "raft_node \<Rightarrow> bool" where
  "own_vote n = (is_candidate n \<or> is_leader n \<longrightarrow> voted_for (hard n) = Some (self_id n))"

definition tally :: "raft_node \<Rightarrow> node_id set" where
  "tally n = (case role n of Candidate v \<Rightarrow> v | _ \<Rightarrow> {})"

definition ballot_rel :: "raft_node \<Rightarrow> raft_node \<Rightarrow> bool" where
  "ballot_rel n n' \<longleftrightarrow>
     self_id n' = self_id n \<and> term_of n \<le> term_of n' \<and> (own_vote n \<longrightarrow> own_vote n') \<and>
     (term_of n' = term_of n \<longrightarrow> voted_for (hard n) \<noteq> None \<longrightarrow> voted_for (hard n') = voted_for (hard n))"

definition grants_ok :: "raft_node \<Rightarrow> raft_node \<Rightarrow> (node_id \<times> raft_term) set \<Rightarrow> bool" where
  "grants_ok n n' G \<longleftrightarrow>
     (\<forall>(to, t) \<in> G. term_of n \<le> t \<and> t \<le> term_of n' \<and>
        (t = term_of n \<longrightarrow> voted_for (hard n) \<in> {None, Some to}) \<and>
        (t = term_of n' \<longrightarrow> voted_for (hard n') = Some to)) \<and>
     (\<forall>(to, t) \<in> G. \<forall>(to', t') \<in> G. t = t' \<longrightarrow> to = to')"

definition tally_ok :: "input \<Rightarrow> raft_node \<Rightarrow> raft_node \<Rightarrow> bool" where
  "tally_ok inp n n' \<longleftrightarrow>
     (\<forall>i \<in> tally n'. i = self_id n' \<or> carries inp i (RequestVoteReply (term_of n') True) \<or>
        term_of n' = term_of n \<and> i \<in> tally n)"

text \<open>
  \<open>elected_ok C inp n n'\<close>: a node that leads after the transition either led before, in the same
  term, or holds a quorum of \<open>C\<close> made of itself, senders of granted replies, and votes it had
  already counted in that term.
\<close>

definition elected_ok :: "voter_config \<Rightarrow> input \<Rightarrow> raft_node \<Rightarrow> raft_node \<Rightarrow> bool" where
  "elected_ok C inp n n' \<longleftrightarrow>
     (is_leader n' \<longrightarrow>
        is_leader n \<and> term_of n' = term_of n \<or>
        (\<exists>v. has_quorum C v \<and>
           (\<forall>i \<in> v. i = self_id n' \<or> carries inp i (RequestVoteReply (term_of n') True) \<or>
              term_of n' = term_of n \<and> i \<in> tally n)))"

definition vote_rel :: "voter_config \<Rightarrow> input \<Rightarrow> raft_node \<Rightarrow> raft_node \<Rightarrow> effect list \<Rightarrow> bool" where
  "vote_rel C inp n n' es \<longleftrightarrow>
     ballot_rel n n' \<and> grants_ok n n' (grants es) \<and> tally_ok inp n n' \<and> elected_ok C inp n n'"

lemmas vote_defs = vote_rel_def ballot_rel_def grants_ok_def tally_ok_def elected_ok_def

lemma grants_simps [simp]:
  "grants [] = {}" "grants (es @ es') = grants es \<union> grants es'" "grants (e # es) = grant_of e \<union> grants es"
  by (auto simp: grants_def)

lemma no_pledge_no_grant: "\<not> pledge msg \<Longrightarrow> grant_of (Send to msg) = {}"
  by (cases msg) (auto split: raft_message.splits)

lemma grants_empty:
  assumes "\<And>to msg. Send to msg \<in> set es \<Longrightarrow> \<not> pledge msg"
  shows "grants es = {}"
proof -
  have "grant_of e = {}" if "e \<in> set es" for e
  proof (cases e)
    case (Send to msg)
    with assms that have "\<not> pledge msg" by blast
    then show ?thesis unfolding Send by (rule no_pledge_no_grant)
  qed simp_all
  then show ?thesis by (simp add: grants_def)
qed

lemma quiet_grants: "quiet n n' es \<Longrightarrow> grants es = {}"
  by (rule grants_empty) (auto simp: quiet_def list_all_iff)

lemma silent_grants: "silent es \<Longrightarrow> grants es = {}"
  by (rule grants_empty) (auto simp: silent_def list_all_iff)

lemma grants_wrap [simp]: "grants (wrap_group_effects n es) = grants es"
proof -
  have "grant_of (wrap_send g gv e) = grant_of e" for g gv e
    by (cases e) (auto split: raft_message.splits if_splits)
  then show ?thesis
    by (simp add: grants_def wrap_group_effects_def Let_def)
qed

text \<open>A transition that touches neither term, vote nor candidacy respects the relation.\<close>

lemma vote_frame:
  assumes "self_id n' = self_id n" "term_of n' = term_of n" "voted_for (hard n') = voted_for (hard n)"
    "is_candidate n' \<Longrightarrow> role n' = role n" "is_leader n' \<Longrightarrow> is_leader n" "grants es = {}"
  shows "vote_rel C inp n n' es"
proof -
  have "tally n' \<subseteq> tally n"
    using assms(4) by (auto simp: tally_def is_candidate_def split: role.splits)
  with assms show ?thesis
    by (auto simp: vote_defs own_vote_def is_candidate_def)
qed

lemma vote_quiet: "quiet n n' es \<Longrightarrow> vote_rel C inp n n' es"
  using quiet_fields(1,2) [of n n' es] quiet_grants [of n n' es]
  by (intro vote_frame) (auto simp: quiet_def)

lemma ballot_append: "ballot_rel s t \<Longrightarrow> ballot_rel t u \<Longrightarrow> ballot_rel s u"
  by (auto simp: ballot_rel_def)

lemma tally_append: "ballot_rel s t \<Longrightarrow> ballot_rel t u \<Longrightarrow> tally_ok inp s t \<Longrightarrow> tally_ok inp t u \<Longrightarrow> tally_ok inp s u"
  unfolding tally_ok_def ballot_rel_def by (metis le_antisym)

lemma elected_append:
  assumes b: "ballot_rel s t" "ballot_rel t u" and "tally_ok inp s t" and e: "elected_ok C inp s t" "elected_ok C inp t u"
  shows "elected_ok C inp s u"
proof -
  have "is_leader s \<and> term_of u = term_of s \<or>
      (\<exists>v. has_quorum C v \<and> (\<forall>i \<in> v. i = self_id u \<or> carries inp i (RequestVoteReply (term_of u) True) \<or>
         term_of u = term_of s \<and> i \<in> tally s))" if "is_leader u"
  proof (cases "is_leader t \<and> term_of u = term_of t")
    case True
    with e(1) b show ?thesis by (auto simp: elected_ok_def ballot_rel_def)
  next
    case False
    with e(2) that obtain v where v: "has_quorum C v" "\<forall>i \<in> v. i = self_id u \<or>
        carries inp i (RequestVoteReply (term_of u) True) \<or> term_of u = term_of t \<and> i \<in> tally t"
      by (auto simp: elected_ok_def)
    have "i = self_id u \<or> carries inp i (RequestVoteReply (term_of u) True) \<or> term_of u = term_of s \<and> i \<in> tally s"
      if "i \<in> v" for i
      using v(2) that b \<open>tally_ok inp s t\<close> unfolding tally_ok_def ballot_rel_def by metis
    with v(1) show ?thesis by blast
  qed
  then show ?thesis by (simp add: elected_ok_def)
qed

lemma grants_early:
  assumes "ballot_rel s t" "ballot_rel t u" "grants_ok s t G" "(to, x) \<in> G"
  shows "term_of s \<le> x \<and> x \<le> term_of t \<and> (x = term_of s \<longrightarrow> voted_for (hard s) \<in> {None, Some to}) \<and>
    (x = term_of t \<longrightarrow> voted_for (hard t) = Some to) \<and> (x = term_of u \<longrightarrow> voted_for (hard u) = Some to)"
  using assms unfolding grants_ok_def ballot_rel_def by fastforce

lemma grants_late:
  assumes "ballot_rel s t" "ballot_rel t u" "grants_ok t u G" "(to, x) \<in> G"
  shows "term_of t \<le> x \<and> x \<le> term_of u \<and> (x = term_of s \<longrightarrow> voted_for (hard s) \<in> {None, Some to}) \<and>
    (x = term_of t \<longrightarrow> voted_for (hard t) \<in> {None, Some to}) \<and> (x = term_of u \<longrightarrow> voted_for (hard u) = Some to)"
  using assms unfolding grants_ok_def ballot_rel_def by fastforce

lemma grants_append:
  assumes b: "ballot_rel s t" "ballot_rel t u" and g: "grants_ok s t G" "grants_ok t u H"
  shows "grants_ok s u (G \<union> H)"
proof -
  have le: "term_of s \<le> term_of t" "term_of t \<le> term_of u" using b by (simp_all add: ballot_rel_def)
  note early = grants_early [OF b g(1)] and late = grants_late [OF b g(2)]
  have cross: "to = to'" if "(to, x) \<in> G" "(to', x) \<in> H" for to to' x
    using early [OF that(1)] late [OF that(2)] by auto
  have "\<forall>(to, x) \<in> G \<union> H. term_of s \<le> x \<and> x \<le> term_of u \<and>
      (x = term_of s \<longrightarrow> voted_for (hard s) \<in> {None, Some to}) \<and> (x = term_of u \<longrightarrow> voted_for (hard u) = Some to)"
    using early late le by (auto intro: le_trans)
  moreover have "\<forall>(to, x) \<in> G \<union> H. \<forall>(to', x') \<in> G \<union> H. x = x' \<longrightarrow> to = to'"
    using g cross unfolding grants_ok_def by auto
  ultimately show ?thesis unfolding grants_ok_def by blast
qed

lemma vote_append: "vote_rel C inp s t es \<Longrightarrow> vote_rel C inp t u es' \<Longrightarrow> vote_rel C inp s u (es @ es')"
  unfolding vote_rel_def grants_simps by (blast intro: ballot_append grants_append tally_append elected_append)

lemma vote_rel_cong: "grants es = grants es' \<Longrightarrow> vote_rel C inp n n' es = vote_rel C inp n n' es'"
  by (simp add: vote_rel_def)

lemma vote_wrap [simp]: "vote_rel C inp n n' (wrap_group_effects m es) = vote_rel C inp n n' es"
  by (simp add: vote_rel_def)

lemma vote_committed: "committed_to i nxt n n' es \<Longrightarrow> vote_rel C inp n n' es"
  by (rule vote_frame) (simp_all add: committed_to_fields(1,7,9,10) committed_to_silent silent_grants)

lemma vote_nil: "vote_rel C inp n n []"
  by (rule vote_frame) auto

lemma vote_advance: "keeps (vote_rel C inp) (\<lambda>_. True) n (advance_commit i n)"
  by (rule keepsI) (auto dest!: advance_commit_cases intro: vote_committed vote_nil)

lemma vote_refresh: "keeps (vote_rel C inp) (\<lambda>_. True) n (refresh_effective_membership n)"
  by (rule keepsI) (auto dest!: refresh_refreshed intro!: vote_frame silent_grants simp: refreshed_fields(1,2,11,12,14))

interpretation vote_base: effect_relation "vote_rel C inp" "\<lambda>_. True"
  by unfold_locales (auto intro: vote_nil vote_append)

lemma vote_log: "grants es = {} \<Longrightarrow> vote_rel C inp n (n\<lparr>log := lg\<rparr>) es"
  by (rule vote_frame) (simp_all add: is_candidate_def is_leader_def)

lemma vote_store: "keeps (vote_rel C inp) P n (store_entries es n)"
  using store_entries_Some [of es n] by (auto intro!: vote_log silent_grants)

lemma vote_append_reply: "keeps (vote_rel C inp) P n (append_reply to s m r c n)"
  unfolding append_reply_def push_def keeps_simps by (rule vote_frame) auto

lemma vote_recover: "keeps (vote_rel C inp) (\<lambda>_. True) n (on_recover n)"
proof (rule keepsI)
  fix n' es assume *: "on_recover n = Some (n', es)"
  show "vote_rel C inp n n' es"
  proof (cases "recovery_pending n")
    case True
    from on_recover_Some [OF * True] show ?thesis
      by (auto intro!: vote_frame silent_grants simp: silent_map is_candidate_def is_leader_def)
  next
    case False
    with * show ?thesis by (simp add: on_recover_def skip_def vote_nil)
  qed
qed simp

lemma vote_lead:
  assumes "role n = Candidate v" "has_quorum C v" "n1 = (install_leader (last_log_index n + 1) n)\<lparr>log := lg\<rparr>"
    and commit: "(if self_quorum n1 then advance_commit (last_log_index n1) n1 else skip n1) = Some (n2, cs)"
    and mid: "vote_rel C inp n2 n3 mid"
  shows "vote_rel C inp n n3 (PersistLogEntries None [noop] # filter is_persist_hard cs @ mid @
    filter (\<lambda>e. \<not> is_persist_hard e) cs)"
proof -
  have "vote_rel C inp n n1 []"
    using assms(1,2) unfolding assms(3)
    by (auto simp: vote_defs install_leader_def own_vote_def is_candidate_def tally_def)
  moreover have "vote_rel C inp n1 n2 cs" "silent cs"
    using commit keepsD [OF vote_advance, of "last_log_index n1" n1 n2 cs C inp] advance_commit_silent
    by (auto simp: skip_def intro: vote_nil split: if_splits)
  ultimately have "vote_rel C inp n n3 (([] @ cs) @ mid)" using mid by (blast intro: vote_append)
  moreover have "silent (filter P cs)" for P using \<open>silent cs\<close> by (auto simp: silent_def list_all_iff)
  ultimately show ?thesis
    using \<open>silent cs\<close> by (simp add: vote_rel_def silent_grants)
qed

interpretation vote: protocol_relation "vote_rel (voter_config start) inp" "\<lambda>_. True" inp start
proof unfold_locales
  fix n n' :: raft_node and es
  show "vote_rel (voter_config start) inp n n' es" if "quiet n n' es" using that by (rule vote_quiet)
  show "vote_rel (voter_config start) inp n n' (wrap_group_effects n' es)" if "vote_rel (voter_config start) inp n n' es"
    using that by simp
  show "vote_rel (voter_config start) inp n n [Send p (append_message n prev)]" for p prev
    by (rule vote_frame) (auto simp: append_message_def)
  show "vote_rel (voter_config start) inp n n [Send p (RequestVote (term_of n) (self_id n) (last_log_index n) (last_log_term n))]" for p
    by (rule vote_frame) auto
next
  fix n n' :: raft_node and es and t and h :: hard_state
  assume "term_of n < t" "h = hard n\<lparr>current_term := t, voted_for := None\<rparr>"
    "quiet (n\<lparr>hard := h\<rparr>) n' es" "role n' = Follower"
  then show "vote_rel (voter_config start) inp n n' (PersistHardState h # es)"
    using quiet_fields(1,2) [of "n\<lparr>hard := h\<rparr>" n' es]
    by (auto simp: vote_defs quiet_grants own_vote_def tally_def is_candidate_def is_leader_def)
next
  fix n :: raft_node and h
  assume "h = hard n\<lparr>current_term := term_of n + 1, voted_for := Some (self_id n)\<rparr>"
  then show "vote_rel (voter_config start) inp n (n\<lparr>hard := h, role := Candidate {self_id n}\<rparr>) [PersistHardState h]"
    by (auto simp: vote_defs own_vote_def tally_def is_leader_def)
next
  fix n :: raft_node and req and h
  assume "decide_vote (hard n) (last_log_index n, last_log_term n) req"
    "h = hard n\<lparr>voted_for := Some (rq_candidate_id req)\<rparr>"
  then show "vote_rel (voter_config start) inp n (n\<lparr>hard := h\<rparr>) [PersistHardState h]"
    by (auto simp: vote_defs own_vote_def tally_def decide_vote_def is_candidate_def is_leader_def split: option.splits if_splits)
next
  fix n :: raft_node and c
  assume "voted_for (hard n) = Some c"
  then show "vote_rel (voter_config start) inp n n [Send c (RequestVoteReply (term_of n) True)]"
    by (auto simp: vote_defs)
next
  fix n :: raft_node and f v
  assume "carries inp f (RequestVoteReply (term_of n) True)" "role n = Candidate v"
  then show "vote_rel (voter_config start) inp n (n\<lparr>role := Candidate (insert f v)\<rparr>) []"
    by (auto simp: vote_defs own_vote_def tally_def is_candidate_def is_leader_def)
next
  fix n n1 n2 n3 :: raft_node and v noop cs mid
  assume cfg: "voter_config n = voter_config start" and cand: "role n = Candidate v" and q: "has_quorum (voter_config n) v"
    and n1: "n1 = (install_leader (last_log_index n + 1) n)\<lparr>log := log n @ [noop]\<rparr>"
    and commit: "(if self_quorum n1 then advance_commit (last_log_index n1) n1 else skip n1) = Some (n2, cs)"
    and mid: "vote_rel (voter_config start) inp n2 n3 mid"
  show "vote_rel (voter_config start) inp n n3 (PersistLogEntries None [noop] # filter is_persist_hard cs @ mid @
      filter (\<lambda>e. \<not> is_persist_hard e) cs)"
    by (rule vote_lead [OF cand q [unfolded cfg] n1 commit mid])
next
  fix n :: raft_node and e
  show "keeps (vote_rel (voter_config start) inp) (\<lambda>_. True) n (run [modify (\<lambda>n. n\<lparr>log := log n @ [e]\<rparr>),
      push (PersistLogEntries None [e]), refresh_effective_membership] n)"
    by (intro vote_base.keeps_run_Cons vote_base.keeps_run_Nil vote_refresh)
      (simp_all add: modify_def push_def vote_log vote_frame)
qed (auto intro!: vote_advance vote_log vote_recover vote_base.keeps_run_Cons vote_base.keeps_run_Nil
    vote_refresh vote_store vote_append_reply simp: Let_def)

section \<open>Snapshot publication\<close>

lemma vote_publication:
  assumes "publication_outcome n n' es"
  shows "vote_rel C inp n n' es"
  using assms unfolding publication_outcome_def
proof (elim disjE exE conjE)
  assume "quiet n n' es"
  then show ?thesis by (rule vote_quiet)
next
  assume "publishes n n' es"
  then show ?thesis by (intro vote_frame) (simp_all add: publishes_fields silent_grants)
next
  fix p assume "n' = compacted p n" "es = []"
  then show ?thesis by (intro vote_frame) (auto simp: compacted_def is_candidate_def is_leader_def)
next
  fix p t assume *: "installed p t n n' es"
  from installed_effects [OF *] have "grants es = {}"
    by (auto simp: silent_grants no_pledge_no_grant simp del: grant_of.simps(1))
  then show ?thesis by (intro vote_frame) (simp_all add: installed_fields(1,2,9,10) [OF *])
qed

lemma vote_step:
  assumes "step n inp = Some (n', es)"
  shows "vote_rel (voter_config n) inp n n' es"
proof (cases "publication_input inp")
  case False
  from keepsD [OF vote.keeps_step [OF False] assms] show ?thesis .
next
  case True
  with step_cases [OF assms] show ?thesis
    by (auto simp: vote_nil dest!: publication_handle vote_publication [where inp = inp and C = "voter_config n"])
qed

section \<open>Vote safety of a step\<close>

text \<open>
  C13.  Whatever the input, a step never lowers the current term, and once a vote is cast in a term
  it is neither withdrawn nor given to another candidate within that term.
\<close>

theorem step_vote_final:
  assumes "step n inp = Some (n', es)"
  shows "term_of n \<le> term_of n' \<and>
    (term_of n' = term_of n \<longrightarrow> voted_for (hard n) \<noteq> None \<longrightarrow> voted_for (hard n') = voted_for (hard n))"
  using vote_step [OF assms] by (simp add: vote_rel_def ballot_rel_def)

theorem step_vote_final_witness:
  "\<exists>n' es. step sample_node (Message 2 (RequestVoteReply 5 False)) = Some (n', es) \<and> term_of n' = 5 \<and>
     term_of sample_node \<le> term_of n'"
  using sample_reply_step step_vote_final [of sample_node "Message 2 (RequestVoteReply 5 False)"] by blast

text \<open>
  C14.  Every granted vote reply a step sends, plain or in a group envelope, is for a term the node
  was in during the step, agrees with any vote it had already cast in that term, and names the
  candidate recorded as voted for when the step ends in that term.
\<close>

theorem step_grants_recorded:
  assumes "step n inp = Some (n', es)" and "Send to msg \<in> set es" and "payload msg = RequestVoteReply t True"
  shows "term_of n \<le> t \<and> t \<le> term_of n' \<and>
    (t = term_of n \<longrightarrow> voted_for (hard n) = None \<or> voted_for (hard n) = Some to) \<and>
    (t = term_of n' \<longrightarrow> voted_for (hard n') = Some to)"
proof -
  have "(to, t) \<in> grants es" using assms(2,3) by (force simp: grants_def)
  with vote_step [OF assms(1)] show ?thesis by (auto simp: vote_rel_def grants_ok_def)
qed

theorem step_grants_recorded_witness:
  "\<exists>n' es. step sample_node (Message 2 (RequestVote 1 2 0 0)) = Some (n', es) \<and>
     Send 2 (RequestVoteReply 1 True) \<in> set es \<and> term_of n' = 1 \<and> voted_for (hard n') = Some 2"
  using sample_vote_step step_grants_recorded [of sample_node "Message 2 (RequestVote 1 2 0 0)" _ _ 2 "RequestVoteReply 1 True" 1]
  by (metis payload.simps(3))

end
