(* ===== verification/Quorum.thy ===== *)
theory Quorum
  imports Membership
begin

text \<open>
  Why the quorum arithmetic of \<^verbatim>\<open>membership.rs\<close> is safe.  Two configurations are \<open>compatible\<close> when
  every quorum of one meets every quorum of the other; the locale \<open>quorum_system\<close> is the
  interface the election argument relies on.  Stable configurations are compatible with
  themselves, and a joint configuration with itself and with both of its halves, which is all a
  membership change ever puts side by side.
\<close>

definition compatible :: "voter_config \<Rightarrow> voter_config \<Rightarrow> bool" where
  "compatible c d \<longleftrightarrow> (\<forall>v w. has_quorum c v \<longrightarrow> has_quorum d w \<longrightarrow> v \<inter> w \<noteq> {})"

section \<open>Majorities\<close>

lemma windows2_sorted: "\<not> list_ex (\<lambda>(a, b). b \<le> a) (windows2 (vs :: nat list)) \<longleftrightarrow> sorted_wrt (<) vs"
proof (induction vs rule: windows2.induct)
  case (1 x y xs)
  then show ?case by (auto simp: not_le intro: less_trans)
qed auto

lemma validate_set_ok: "is_ok (validate_set vs) \<longleftrightarrow> vs \<noteq> [] \<and> length vs \<le> 256 \<and> sorted_wrt (<) vs"
  using windows2_sorted [of vs] by (auto simp: validate_set_def)

lemma validate_set_distinct: "is_ok (validate_set vs) \<Longrightarrow> distinct vs"
  by (auto simp: validate_set_ok strict_sorted_iff)

lemma majority_card:
  assumes "distinct vs"
  shows "majority vs v \<longleftrightarrow> length vs < 2 * card (set vs \<inter> v)"
proof -
  have "length (filter (\<lambda>i. i \<in> v) vs) = card (set vs \<inter> v)"
    using assms by (metis Int_def distinct_card distinct_filter set_filter)
  then show ?thesis by (auto simp: majority_def)
qed

lemma majorities_meet:
  assumes "distinct vs" "majority vs v" "majority vs w"
  shows "v \<inter> w \<noteq> {}"
proof
  assume "v \<inter> w = {}"
  then have "card (set vs \<inter> v) + card (set vs \<inter> w) = card (set vs \<inter> v \<union> set vs \<inter> w)"
    by (subst card_Un_disjoint) auto
  also have "\<dots> \<le> length vs"
    using card_mono [of "set vs" "set vs \<inter> v \<union> set vs \<inter> w"] card_length [of vs] by auto
  finally show False using assms by (auto simp: majority_card)
qed

lemma majority_mono: "majority vs v \<Longrightarrow> v \<subseteq> w \<Longrightarrow> majority vs w"
proof -
  assume "majority vs v" "v \<subseteq> w"
  moreover have "length (filter (\<lambda>i. i \<in> v) vs) \<le> length (filter (\<lambda>i. i \<in> w) vs)"
    using \<open>v \<subseteq> w\<close> by (induction vs) auto
  ultimately show ?thesis by (simp add: majority_def)
qed

lemma has_quorum_Stable: "has_quorum (Stable vs) v \<longleftrightarrow> is_ok (validate_set vs) \<and> majority vs v"
  by (simp add: has_quorum_def)

lemma vc_validate_Joint:
  "is_ok (vc_validate (Joint old new)) \<longleftrightarrow> is_ok (validate_set old) \<and> is_ok (validate_set new)"
  by (auto simp: is_ok_iff rbind_Inr_iff)

lemma has_quorum_Joint:
  "has_quorum (Joint old new) v \<longleftrightarrow>
     is_ok (validate_set old) \<and> is_ok (validate_set new) \<and> majority old v \<and> majority new v"
  by (auto simp: has_quorum_def vc_validate_Joint simp del: vc_validate.simps)

lemmas has_quorum_cases = has_quorum_Stable has_quorum_Joint

lemma has_quorum_mono: "has_quorum c v \<Longrightarrow> v \<subseteq> w \<Longrightarrow> has_quorum c w"
  by (cases c) (auto simp: has_quorum_cases intro: majority_mono)

section \<open>Which configurations are compatible\<close>

text \<open>The interface: a set of configurations any two of whose quorums meet.\<close>

locale quorum_system =
  fixes configs :: "voter_config set"
  assumes meet: "c \<in> configs \<Longrightarrow> d \<in> configs \<Longrightarrow> compatible c d"
begin

lemma quorums_intersect:
  assumes "c \<in> configs" "d \<in> configs" "has_quorum c v" "has_quorum d w"
  obtains i where "i \<in> v" "i \<in> w"
  using meet [OF assms(1,2)] assms(3,4) unfolding compatible_def by blast

text \<open>At most one candidate can hold a quorum when every member votes for at most one.\<close>

lemma one_winner:
  assumes "c \<in> configs" "d \<in> configs" "has_quorum c v" "has_quorum d w"
    and "\<And>i. i \<in> v \<Longrightarrow> vote i = Some a" "\<And>i. i \<in> w \<Longrightarrow> vote i = Some b"
  shows "a = b"
  using quorums_intersect [OF assms(1-4)] assms(5,6) by (metis option.inject)

end

lemma compatible_change:
  "c \<in> {Stable old, Joint old new} \<Longrightarrow> d \<in> {Stable old, Joint old new} \<Longrightarrow> compatible c d"
  "c \<in> {Joint old new, Stable new} \<Longrightarrow> d \<in> {Joint old new, Stable new} \<Longrightarrow> compatible c d"
  by (auto simp: compatible_def has_quorum_cases dest!: majorities_meet [OF validate_set_distinct])

interpretation entering: quorum_system "{Stable old, Joint old new}"
  by unfold_locales (rule compatible_change(1))

interpretation leaving: quorum_system "{Joint old new, Stable new}"
  by unfold_locales (rule compatible_change(2))

interpretation steady: quorum_system "{Stable vs}"
  using compatible_change(1) [of _ vs] by unfold_locales blast

section \<open>The index a quorum has replicated\<close>

lemma sorted_count:
  assumes "sorted ys" and "j < length ys"
  shows "k \<le> ys ! j \<longleftrightarrow> length ys - j \<le> length (filter (\<lambda>x. k \<le> x) (ys :: nat list))"
proof
  assume k: "k \<le> ys ! j"
  have "k \<le> x" if "x \<in> set (drop j ys)" for x
  proof -
    from that obtain i where "i < length ys - j" "x = ys ! (j + i)" by (auto simp: in_set_conv_nth)
    with assms have "ys ! j \<le> x" by (auto intro: sorted_nth_mono)
    with k show ?thesis by simp
  qed
  then have "filter (\<lambda>x. k \<le> x) (drop j ys) = drop j ys" by (simp add: filter_id_conv)
  moreover have "length (filter (\<lambda>x. k \<le> x) ys) =
      length (filter (\<lambda>x. k \<le> x) (take j ys)) + length (filter (\<lambda>x. k \<le> x) (drop j ys))"
    by (metis append_take_drop_id filter_append length_append)
  ultimately show "length ys - j \<le> length (filter (\<lambda>x. k \<le> x) ys)" by simp
next
  assume count: "length ys - j \<le> length (filter (\<lambda>x. k \<le> x) ys)"
  show "k \<le> ys ! j"
  proof (rule ccontr)
    assume "\<not> k \<le> ys ! j"
    have "\<not> k \<le> x" if "x \<in> set (take (Suc j) ys)" for x
    proof -
      from that obtain i where "i \<le> j" "x = ys ! i" by (auto simp: in_set_conv_nth less_Suc_eq_le)
      with assms have "x \<le> ys ! j" by (auto intro: sorted_nth_mono)
      with \<open>\<not> k \<le> ys ! j\<close> show ?thesis by simp
    qed
    then have "filter (\<lambda>x. k \<le> x) (take (Suc j) ys) = []" by (simp add: filter_empty_conv)
    then have "filter (\<lambda>x. k \<le> x) ys = filter (\<lambda>x. k \<le> x) (drop (Suc j) ys)"
      by (metis append_Nil append_take_drop_id filter_append)
    then have "length (filter (\<lambda>x. k \<le> x) ys) \<le> length ys - Suc j"
      by (metis length_drop length_filter_le)
    with count assms(2) show False by simp
  qed
qed

definition holders :: "(node_id, log_index) btree \<Rightarrow> log_index \<Rightarrow> node_id set" where
  "holders matched k = {i. \<exists>m. bt_get matched i = Some m \<and> k \<le> m}"

lemma majority_index_holders:
  assumes "vs \<noteq> []" and "0 < k"
  shows "k \<le> majority_index vs matched \<longleftrightarrow> majority vs (holders matched k)"
proof -
  let ?get = "\<lambda>i. case bt_get matched i of None \<Rightarrow> 0 | Some m \<Rightarrow> m"
  let ?ys = "sort (map ?get vs)"
  have len: "length ?ys = length vs" by simp
  have "length (filter (\<lambda>x. k \<le> x) ?ys) = length (filter (\<lambda>x. k \<le> x) (map ?get vs))"
    by (metis filter_sort length_sort)
  also have "\<dots> = length (filter (\<lambda>i. i \<in> holders matched k) vs)"
    using assms(2) by (auto simp: filter_map comp_def holders_def intro!: arg_cong [of _ _ length] filter_cong split: option.splits)
  finally have count: "length (filter (\<lambda>x. k \<le> x) ?ys) = length (filter (\<lambda>i. i \<in> holders matched k) vs)" .
  let ?j = "length vs - (length vs div 2 + 1)"
  have j: "?j < length ?ys" "length ?ys - ?j = length vs div 2 + 1"
    using assms(1) by (cases vs; simp)+
  have "k \<le> ?ys ! ?j \<longleftrightarrow> length ?ys - ?j \<le> length (filter (\<lambda>x. k \<le> x) ?ys)"
    by (rule sorted_count) (use j in auto)
  then show ?thesis
    using assms(1) j(2) count by (auto simp: majority_index_def majority_def Let_def len)
qed

lemma replicated_index_holders:
  assumes "0 < k"
  shows "k \<le> replicated_index c matched \<longleftrightarrow> has_quorum c (holders matched k)"
proof (cases c)
  case (Stable vs)
  with assms show ?thesis
    by (auto simp: replicated_index_def has_quorum_Stable validate_set_ok majority_index_holders)
next
  case (Joint old new)
  with assms show ?thesis
    by (auto simp: replicated_index_def has_quorum_Joint vc_validate_Joint validate_set_ok majority_index_holders
        simp del: vc_validate.simps)
qed

end
