(* ===== verification/Cluster.thy ===== *)
theory Cluster
  imports Votes Quorum
begin

text \<open>
  A cluster of nodes over a network that may delay, duplicate, reorder or lose messages, with
  nodes that may crash and restart from their durable state.  Sent messages stay on the wire for
  ever; a node takes one \<open>step\<close> at a time on a delivered message or a local input, or is replaced by
  what \<open>restore_with_snapshot\<close> rebuilds from its term, vote, snapshot and log.  A crash in the middle
  of a batch is covered: effects are persisted before anything is sent, so such a run is one where
  the step did not happen, or one whose messages are never delivered.  The two ghost components
  record who ever campaigned and who ever led, and in which term.
\<close>

record cluster =
  nodes :: "node_id \<Rightarrow> raft_node option"
  wire :: "(node_id \<times> node_id \<times> raft_message) set"
  campaigned :: "(node_id \<times> raft_term) set"
  led :: "(node_id \<times> raft_term) set"

definition sent :: "node_id \<Rightarrow> effect list \<Rightarrow> (node_id \<times> node_id \<times> raft_message) set" where
  "sent i es = {(i, to, msg) | to msg. Send to msg \<in> set es}"

definition deliverable :: "cluster \<Rightarrow> node_id \<Rightarrow> input \<Rightarrow> bool" where
  "deliverable c i inp = (case inp of Message f msg \<Rightarrow> (f, i, msg) \<in> wire c | _ \<Rightarrow> True)"

definition stepped :: "cluster \<Rightarrow> node_id \<Rightarrow> raft_node \<Rightarrow> effect list \<Rightarrow> cluster" where
  "stepped c i n' es =
     c\<lparr>nodes := (nodes c)(i \<mapsto> n'), wire := wire c \<union> sent i es,
       campaigned := campaigned c \<union> (if is_candidate n' \<or> is_leader n' then {(i, term_of n')} else {}),
       led := led c \<union> (if is_leader n' then {(i, term_of n')} else {})\<rparr>"

inductive cluster_step :: "voter_config set \<Rightarrow> cluster \<Rightarrow> cluster \<Rightarrow> bool" for cfgs where
  Step: "nodes c i = Some n \<Longrightarrow> voter_config n \<in> cfgs \<Longrightarrow> deliverable c i inp \<Longrightarrow> step n inp = Some (n', es) \<Longrightarrow>
    cluster_step cfgs c (stepped c i n' es)"
| Restart: "nodes c i = Some n \<Longrightarrow>
    restore_with_snapshot i ps seed (hard n) (snapshot n) (log n) = Some (Inr n') \<Longrightarrow>
    cluster_step cfgs c (c\<lparr>nodes := (nodes c)(i \<mapsto> n')\<rparr>)"

inductive reachable :: "voter_config set \<Rightarrow> cluster \<Rightarrow> bool" for cfgs where
  Boot: "(\<And>i n. nodes c i = Some n \<Longrightarrow> self_id n = i \<and> role n = Follower) \<Longrightarrow>
    wire c = {} \<Longrightarrow> campaigned c = {} \<Longrightarrow> led c = {} \<Longrightarrow> reachable cfgs c"
| Next: "reachable cfgs c \<Longrightarrow> cluster_step cfgs c c' \<Longrightarrow> reachable cfgs c'"

text \<open>The ballots ever cast: granted replies on the wire, and every campaigner's vote for itself.\<close>

definition ballots :: "cluster \<Rightarrow> (node_id \<times> raft_term \<times> node_id) set" where
  "ballots c = {(k, t, i). (\<exists>msg. (k, i, msg) \<in> wire c \<and> payload msg = RequestVoteReply t True)} \<union>
     {(i, t, i) | i t. (i, t) \<in> campaigned c}"

definition node_ok :: "cluster \<Rightarrow> node_id \<Rightarrow> raft_node \<Rightarrow> bool" where
  "node_ok c i n \<longleftrightarrow>
     self_id n = i \<and> own_vote n \<and> (is_candidate n \<or> is_leader n \<longrightarrow> (i, term_of n) \<in> campaigned c) \<and>
     (is_leader n \<longrightarrow> (i, term_of n) \<in> led c) \<and>
     (\<forall>k \<in> tally n. (k, term_of n, i) \<in> ballots c) \<and>
     (\<forall>t a. (i, t, a) \<in> ballots c \<longrightarrow> t \<le> term_of n \<and> (t = term_of n \<longrightarrow> voted_for (hard n) = Some a))"

definition election_inv :: "voter_config set \<Rightarrow> cluster \<Rightarrow> bool" where
  "election_inv cfgs c \<longleftrightarrow>
     (\<forall>i n. nodes c i = Some n \<longrightarrow> node_ok c i n) \<and>
     (\<forall>k t a. (k, t, a) \<in> ballots c \<longrightarrow> nodes c k \<noteq> None) \<and>
     (\<forall>k t a b. (k, t, a) \<in> ballots c \<longrightarrow> (k, t, b) \<in> ballots c \<longrightarrow> a = b) \<and>
     (\<forall>i t. (i, t) \<in> led c \<longrightarrow> (\<exists>C \<in> cfgs. \<exists>v. has_quorum C v \<and> (\<forall>k \<in> v. (k, t, i) \<in> ballots c)))"

definition single_cluster :: cluster where
  "single_cluster = \<lparr>nodes = [1 \<mapsto> single_node], wire = {}, campaigned = {}, led = {}\<rparr>"

section \<open>Elections in a cluster\<close>

lemma grant_of_iff: "(to, t) \<in> grant_of e \<longleftrightarrow> (\<exists>msg. e = Send to msg \<and> payload msg = RequestVoteReply t True)"
  by (cases e) (auto split: raft_message.splits if_splits)

lemma grants_iff: "(to, t) \<in> grants es \<longleftrightarrow> (\<exists>msg. Send to msg \<in> set es \<and> payload msg = RequestVoteReply t True)"
  by (auto simp: grants_def grant_of_iff)

lemma carries_payload: "carries inp k msg \<Longrightarrow> \<not> is_group_message msg \<Longrightarrow> \<exists>w. inp = Message k w \<and> payload w = msg"
  by (auto simp: carries_def split: input.splits raft_message.splits)

lemma ballots_stepped:
  "ballots (stepped c i n' es) =
     ballots c \<union> {(i, t, to) | to t. (to, t) \<in> grants es} \<union>
     (if is_candidate n' \<or> is_leader n' then {(i, term_of n', i)} else {})"
  by (auto simp: ballots_def stepped_def sent_def grants_iff)

lemma restored_fields:
  assumes "restore_with_snapshot i ps seed h img lg = Some (Inr n)"
  shows "self_id n = i" "role n = Follower" "term_of n = current_term h" "voted_for (hard n) = voted_for h"
proof -
  obtain n0 where n0: "raft_new i ps seed = Some n0" using assms by (auto simp: restore_with_snapshot_def split: option.splits)
  then have "self_id n0 = i" "role n0 = Follower"
    by (auto simp: raft_new_def fresh_node_def split: if_splits sum.splits)
  with assms n0 show "self_id n = i" "role n = Follower" "term_of n = current_term h" "voted_for (hard n) = voted_for h"
    by (auto simp: restore_with_snapshot_def rbind_Inr_iff Let_def update_replication_peers_def)
qed

lemma ballots_bound:
  assumes inv: "election_inv cfgs c" and node: "nodes c i = Some n" and step: "step n inp = Some (n', es)"
    and b: "(i, t, a) \<in> ballots (stepped c i n' es)"
  shows "t \<le> term_of n' \<and> (t = term_of n' \<longrightarrow> voted_for (hard n') = Some a)"
proof -
  have ok: "node_ok c i n" using inv node by (simp add: election_inv_def)
  have rel: "ballot_rel n n'" "grants_ok n n' (grants es)" using vote_step [OF step] by (simp_all add: vote_rel_def)
  from b consider "(i, t, a) \<in> ballots c" | "(a, t) \<in> grants es"
    | "t = term_of n'" "a = i" "is_candidate n' \<or> is_leader n'"
    by (auto simp: ballots_stepped split: if_splits)
  then show ?thesis
  proof cases
    case 1
    with ok have *: "t \<le> term_of n" "t = term_of n \<longrightarrow> voted_for (hard n) = Some a" by (auto simp: node_ok_def)
    moreover have "term_of n \<le> term_of n'" using rel(1) by (simp add: ballot_rel_def)
    ultimately show ?thesis using rel(1) by (auto simp: ballot_rel_def)
  next
    case 2
    with rel(2) show ?thesis by (auto simp: grants_ok_def)
  next
    case 3
    with ok rel(1) show ?thesis by (auto simp: node_ok_def ballot_rel_def own_vote_def)
  qed
qed

lemma ballots_unique:
  assumes inv: "election_inv cfgs c" and node: "nodes c i = Some n" and step: "step n inp = Some (n', es)"
    and b: "(k, t, a) \<in> ballots (stepped c i n' es)" "(k, t, b) \<in> ballots (stepped c i n' es)"
  shows "a = b"
proof (cases "t = term_of n' \<and> k = i")
  case True
  with ballots_bound [OF inv node step, of t a] ballots_bound [OF inv node step, of t b] b show ?thesis by auto
next
  case False
  have old: "x = y" if "(k, t, x) \<in> ballots c" "(k, t, y) \<in> ballots c" for k t x y
    using inv that by (auto simp: election_inv_def)
  have rel: "grants_ok n n' (grants es)" using vote_step [OF step] by (simp add: vote_rel_def)
  have ok: "node_ok c i n" using inv node by (simp add: election_inv_def)
  have new: "x = y" if "(i, t, x) \<in> ballots c" "(y, t) \<in> grants es" for x y
    using rel ok that unfolding grants_ok_def node_ok_def by (metis (mono_tags, lifting) case_prodD insertE le_antisym
        option.distinct(1) option.inject singletonD)
  have both: "x = y" if "(x, t) \<in> grants es" "(y, t) \<in> grants es" for x y
    using rel that by (auto simp: grants_ok_def)
  from b False have "(k, t, a) \<in> ballots c \<or> k = i \<and> (a, t) \<in> grants es"
    "(k, t, b) \<in> ballots c \<or> k = i \<and> (b, t) \<in> grants es"
    by (auto simp: ballots_stepped split: if_splits)
  then show ?thesis using old new both by metis
qed

lemma backed_ballot:
  assumes node: "nodes c i = Some n" and arrives: "deliverable c i inp" and ok: "node_ok c i n"
    and "self_id n' = i" and lead: "is_candidate n' \<or> is_leader n'"
    and k: "k = self_id n' \<or> carries inp k (RequestVoteReply (term_of n') True) \<or> term_of n' = term_of n \<and> k \<in> tally n"
  shows "(k, term_of n', i) \<in> ballots (stepped c i n' es)"
proof -
  have "(k, i, w) \<in> wire c" if "inp = Message k w" for w using arrives that by (simp add: deliverable_def)
  then have "(k, term_of n', i) \<in> ballots c" if "carries inp k (RequestVoteReply (term_of n') True)"
    using carries_payload [OF that] by (auto simp: ballots_def)
  moreover have "(k, term_of n', i) \<in> ballots c" if "term_of n' = term_of n \<and> k \<in> tally n"
    using ok that by (simp add: node_ok_def)
  ultimately show ?thesis using k lead assms(4) by (auto simp: ballots_stepped)
qed

lemma node_ok_stepped:
  assumes inv: "election_inv cfgs c" and node: "nodes c i = Some n" and arrives: "deliverable c i inp"
    and step: "step n inp = Some (n', es)"
  shows "node_ok (stepped c i n' es) i n'"
proof -
  have ok: "node_ok c i n" using inv node by (simp add: election_inv_def)
  have rel: "ballot_rel n n'" "tally_ok inp n n'" using vote_step [OF step] by (simp_all add: vote_rel_def)
  have self: "self_id n' = i" "own_vote n'" using ok rel(1) by (auto simp: node_ok_def ballot_rel_def)
  have "(k, term_of n', i) \<in> ballots (stepped c i n' es)" if "k \<in> tally n'" for k
  proof -
    have "is_candidate n'" using that by (auto simp: tally_def is_candidate_def split: role.splits)
    moreover have "k = self_id n' \<or> carries inp k (RequestVoteReply (term_of n') True) \<or> term_of n' = term_of n \<and> k \<in> tally n"
      using rel(2) that by (auto simp: tally_ok_def)
    ultimately show ?thesis using backed_ballot [OF node arrives ok self(1)] by blast
  qed
  moreover have "(is_candidate n' \<or> is_leader n' \<longrightarrow> (i, term_of n') \<in> campaigned (stepped c i n' es)) \<and>
      (is_leader n' \<longrightarrow> (i, term_of n') \<in> led (stepped c i n' es))"
    by (simp add: stepped_def)
  ultimately show ?thesis
    using self ballots_bound [OF inv node step] unfolding node_ok_def by blast
qed

lemma node_ok_other:
  assumes "node_ok c j m" and "j \<noteq> i"
  shows "node_ok (stepped c i n' es) j m"
  using assms by (auto simp: node_ok_def ballots_stepped) (auto simp: stepped_def)

lemma led_stepped:
  assumes inv: "election_inv cfgs c" and node: "nodes c i = Some n" and cfg: "voter_config n \<in> cfgs"
    and arrives: "deliverable c i inp" and step: "step n inp = Some (n', es)"
    and led: "(j, t) \<in> led (stepped c i n' es)"
  shows "\<exists>C \<in> cfgs. \<exists>v. has_quorum C v \<and> (\<forall>k \<in> v. (k, t, j) \<in> ballots (stepped c i n' es))"
proof (cases "(j, t) \<in> led c")
  case True
  with inv obtain C v where "C \<in> cfgs" "has_quorum C v" "\<forall>k \<in> v. (k, t, j) \<in> ballots c"
    unfolding election_inv_def by blast
  then show ?thesis by (auto simp: ballots_stepped)
next
  case False
  with led have j: "j = i" "t = term_of n'" "is_leader n'" by (auto simp: stepped_def split: if_splits)
  have ok: "node_ok c i n" using inv node by (simp add: election_inv_def)
  have rel: "ballot_rel n n'" "elected_ok (voter_config n) inp n n'"
    using vote_step [OF step] by (simp_all add: vote_rel_def)
  have self: "self_id n' = i" using ok rel(1) by (auto simp: node_ok_def ballot_rel_def)
  have "\<not> (is_leader n \<and> term_of n' = term_of n)" using False j ok by (auto simp: node_ok_def)
  with rel(2) j(3) obtain v where v: "has_quorum (voter_config n) v" "\<forall>k \<in> v. k = self_id n' \<or>
      carries inp k (RequestVoteReply (term_of n') True) \<or> term_of n' = term_of n \<and> k \<in> tally n"
    by (auto simp: elected_ok_def)
  have "\<forall>k \<in> v. (k, t, j) \<in> ballots (stepped c i n' es)"
    using v(2) backed_ballot [OF node arrives ok self, of _ es] j by blast
  with v(1) cfg show ?thesis by blast
qed

lemma election_inv_step:
  assumes "cluster_step cfgs c c'" and inv: "election_inv cfgs c"
  shows "election_inv cfgs c'"
  using assms(1)
proof cases
  case (Step i n inp n' es)
  have "node_ok c' j m" if "nodes c' j = Some m" for j m
  proof (cases "j = i")
    case True
    with that Step(1) have "m = n'" by (simp add: stepped_def)
    with True Step node_ok_stepped [OF inv Step(2,4,5)] show ?thesis by simp
  next
    case False
    with that Step(1) have "nodes c j = Some m" by (simp add: stepped_def)
    with inv have "node_ok c j m" by (simp add: election_inv_def)
    with False Step(1) show ?thesis by (simp add: node_ok_other)
  qed
  moreover have "nodes c' k \<noteq> None" if "(k, t, a) \<in> ballots c'" for k t a
  proof (cases "k = i")
    case True
    then show ?thesis by (simp add: Step(1) stepped_def)
  next
    case False
    with that have "(k, t, a) \<in> ballots c" unfolding Step(1) ballots_stepped by (auto split: if_splits)
    with inv have "nodes c k \<noteq> None" unfolding election_inv_def by blast
    with False show ?thesis by (simp add: Step(1) stepped_def)
  qed
  ultimately show ?thesis
    using ballots_unique [OF inv Step(2,5)] led_stepped [OF inv Step(2,3,4,5)]
    unfolding election_inv_def Step(1) by blast
next
  case (Restart i n ps seed n')
  note r = restored_fields [OF Restart(3)]
  have same: "ballots c' = ballots c" "campaigned c' = campaigned c" "led c' = led c"
    by (simp_all add: Restart(1) ballots_def)
  have "node_ok c i n" using inv Restart(2) by (simp add: election_inv_def)
  with r have "node_ok c' i n'"
    by (auto simp: node_ok_def same own_vote_def is_candidate_def is_leader_def tally_def)
  moreover have "node_ok c' j m" if "nodes c j = Some m" for j m
    using inv that by (auto simp: election_inv_def node_ok_def same)
  ultimately show ?thesis
    using inv unfolding election_inv_def same by (auto simp: Restart(1))
qed

lemma election_inv_reachable: "reachable cfgs c \<Longrightarrow> election_inv cfgs c"
proof (induction rule: reachable.induct)
  case (Boot c)
  have "node_ok c i n" if "nodes c i = Some n" for i n
    using Boot(1) [OF that] Boot(2-4)
    by (auto simp: node_ok_def own_vote_def is_candidate_def is_leader_def tally_def ballots_def)
  with Boot show ?case by (auto simp: election_inv_def ballots_def)
next
  case (Next c c')
  then show ?case by (blast intro: election_inv_step)
qed

context quorum_system
begin

lemma one_leader_per_term:
  assumes "reachable configs c" and "(i, t) \<in> led c" and "(j, t) \<in> led c"
  shows "i = j"
proof -
  have inv: "election_inv configs c" using assms(1) by (rule election_inv_reachable)
  from inv assms(2) obtain C v where v: "C \<in> configs" "has_quorum C v" "\<forall>k \<in> v. (k, t, i) \<in> ballots c"
    unfolding election_inv_def by blast
  from inv assms(3) obtain D w where w: "D \<in> configs" "has_quorum D w" "\<forall>k \<in> w. (k, t, j) \<in> ballots c"
    unfolding election_inv_def by blast
  obtain k where "k \<in> v" "k \<in> w" using quorums_intersect [OF v(1) w(1) v(2) w(2)] .
  with v w inv show ?thesis unfolding election_inv_def by blast
qed

end

lemma single_cluster_leads: "\<exists>c. reachable {Stable [1]} c \<and> (1, 1) \<in> led c"
proof -
  let ?n1 = "reset_election_deadline (single_node\<lparr>now_ms := 1000\<rparr>)"
  have "reachable {Stable [1]} single_cluster"
    by (rule Boot) (auto simp: single_cluster_def single_node_def fresh_node_def split: if_splits)
  then have r: "reachable {Stable [1]} (stepped single_cluster 1 ?n1 [])"
    by (rule Next) (rule Step [OF _ _ _ single_first_tick],
      simp_all add: single_cluster_def deliverable_def single_node_def fresh_node_def voter_config_def single_genesis_def)
  from single_second_tick obtain n' es where s: "step ?n1 (Tick 2000) = Some (n', es)" "is_leader n'" "term_of n' = 1" by blast
  have "reachable {Stable [1]} (stepped (stepped single_cluster 1 ?n1 []) 1 n' es)"
    using r by (rule Next) (rule Step [OF _ _ _ s(1)],
      simp_all add: stepped_def deliverable_def single_node_def fresh_node_def voter_config_def single_genesis_def)
  moreover have "(1, 1) \<in> led (stepped (stepped single_cluster 1 ?n1 []) 1 n' es)"
    using s by (simp add: stepped_def)
  ultimately show ?thesis by blast
qed

text \<open>
  C1.  Election safety.  In every cluster reachable over an unreliable network with crashes and
  restarts, as long as the voter configurations in force have pairwise intersecting quorums, no
  term ever has two leaders, not even at different times.
\<close>

theorem election_safety:
  assumes "\<And>C D. C \<in> cfgs \<Longrightarrow> D \<in> cfgs \<Longrightarrow> compatible C D"
    and "reachable cfgs c" and "(i, t) \<in> led c" and "(j, t) \<in> led c"
  shows "i = j"
proof -
  have "quorum_system cfgs" using assms(1) by (simp add: quorum_system_def)
  then show ?thesis using assms(2-4) by (rule quorum_system.one_leader_per_term)
qed

theorem election_safety_witness:
  "\<exists>c. reachable {Stable [1]} c \<and> (1, 1) \<in> led c \<and> (\<forall>j. (j, 1) \<in> led c \<longrightarrow> j = 1)"
proof -
  obtain c where c: "reachable {Stable [1]} c" "(1, 1) \<in> led c" using single_cluster_leads by blast
  have "j = 1" if "(j, 1) \<in> led c" for j
    by (rule election_safety [OF _ c(1) that c(2)]) (auto intro: steady.meet)
  with c show ?thesis by blast
qed

end
