(* ===== verification/History.thy ===== *)
theory History
  imports Quorum "HOL-Library.Multiset"
begin

text \<open>
  Correctness of the administrative history (\<^verbatim>\<open>membership.rs\<close>).  \<open>history\<close> is the abstract
  specification: what is reachable from a bootstrap by applying configuration entries at
  increasing log positions.  Its invariant says that voter sets are valid, voters, learners and
  retired members are disjoint, and a change is pending exactly while the voters are joint.
\<close>

inductive history :: "committed_membership \<Rightarrow> bool" where
  boot: "cm_bootstrap_with_group g vs = Inr c \<Longrightarrow> history c"
| advance: "history c \<Longrightarrow> advanced c i t ce = Inr c' \<Longrightarrow> history c'"

definition is_joint :: "voter_config \<Rightarrow> bool" where
  "is_joint c = (case c of Joint _ _ \<Rightarrow> True | Stable _ \<Rightarrow> False)"

definition open_record :: "admin_record \<Rightarrow> bool" where
  "open_record r = (final_index r = None)"

definition member_inv :: "membership_state \<Rightarrow> bool" where
  "member_inv m \<longleftrightarrow>
     is_ok (vc_validate (voters m)) \<and> finite (learners m) \<and>
     vc_voters (voters m) \<inter> learners m = {} \<and> participants m \<inter> retired m = {} \<and>
     bt_sorted (records m) \<and> length (records m) \<le> MAX_ADMIN_RECORDS \<and>
     (if is_joint (voters m)
      then \<exists>rid r. pending m = Some (rid, r) \<and> {p \<in> set (records m). open_record (snd p)} = {(rid, r)}
      else {p \<in> set (records m). open_record (snd p)} = {})"

definition record_placed :: "committed_membership \<Rightarrow> admin_record \<Rightarrow> bool" where
  "record_placed c r \<longleftrightarrow> first_index r \<le> cm_index c \<and> first_term r \<le> cm_term c \<and>
     (\<forall>i. final_index r = Some i \<longrightarrow> first_index r \<le> i)"

definition history_inv :: "committed_membership \<Rightarrow> bool" where
  "history_inv c \<longleftrightarrow> member_inv (cm_state c) \<and> version (cm_state c) = 1 \<and>
     (\<forall>p \<in> set (records (cm_state c)). record_placed c (snd p))"

section \<open>Records as a sorted map\<close>

lemma bt_sorted_keys: "bt_sorted m \<Longrightarrow> distinct (map fst m)"
  by (simp add: bt_sorted_def strict_sorted_iff)

lemma set_bt_insert:
  assumes "bt_sorted m"
  shows "set (bt_insert k v m) = insert (k, v) {p \<in> set m. fst p \<noteq> k}"
  using assms
proof (induction k v m rule: bt_insert.induct)
  case (2 k v k' v' m)
  then have "bt_sorted m" "\<forall>p \<in> set m. k' < fst p" by (auto simp: bt_sorted_Cons)
  with 2 show ?case by (auto simp: bt_sorted_Cons)
qed simp

lemma length_bt_insert: "length (bt_insert k v m) = (if bt_contains k m then length m else length m + 1)"
  if "bt_sorted m"
  using that
proof (induction k v m rule: bt_insert.induct)
  case (2 k v k' v' m)
  then have "bt_get m k = None" if "k < k'" using bt_sorted_head_None [of k' v' m k] that by simp
  with 2 show ?case by (auto simp: bt_contains_def bt_sorted_Cons)
qed (simp add: bt_contains_def)

lemma pending_None: "pending m = None \<longleftrightarrow> {p \<in> set (records m). open_record (snd p)} = {}"
  by (auto simp: pending_def find_None_iff open_record_def)

lemma pending_Some:
  assumes "pending m = Some (rid, r)" shows "(rid, r) \<in> set (records m)" "final_index r = None"
proof -
  from assms obtain k where k: "k < length (records m)" "final_index (snd (records m ! k)) = None" "(rid, r) = records m ! k"
    unfolding pending_def find_Some_iff case_prod_unfold by blast
  from k(3) k(1) show "(rid, r) \<in> set (records m)" by (simp add: nth_mem)
  from k(2) show "final_index r = None" unfolding k(3) [symmetric] by simp
qed

lemma pending_single: "{p \<in> set (records m). open_record (snd p)} = {p} \<Longrightarrow> pending m = Some p"
proof -
  assume one: "{p \<in> set (records m). open_record (snd p)} = {p}"
  then have "pending m \<noteq> None" using pending_None [of m] by auto
  then obtain q where q: "pending m = Some q" by blast
  then have "q \<in> {p \<in> set (records m). open_record (snd p)}"
    by (auto simp: pending_def find_Some_iff open_record_def case_prod_unfold)
  with one q show ?thesis by simp
qed

section \<open>The invariant\<close>

lemma first_phase_Inr:
  assumes "first_phase m rid op = Inr ph"
  shows "pending m = None" "\<not> is_joint (voters m)" "length (records m) < MAX_ADMIN_RECORDS" "bt_get (records m) rid = None"
    "group_id m \<noteq> LEGACY_GROUP_ID" "ph \<noteq> PhaseFinal"
  using assms
  by (cases "pending m"; auto simp: first_phase_def rbind_Inr_iff is_joint_def Let_def
      split: option.splits if_splits voter_config.splits admin_operation.splits)+

lemma sorted_voters_id: "is_ok (validate_set vs) \<Longrightarrow> sorted_list_of_set (set vs) = vs"
  by (auto simp: validate_set_ok strict_sorted_iff sorted_list_of_set.idem_if_sorted_distinct)

text \<open>The four ways a configuration entry takes effect.\<close>

definition new_record :: "configuration_entry \<Rightarrow> log_index \<Rightarrow> raft_term \<Rightarrow> admin_record" where
  "new_record ce i t =
     \<lparr>operation = ce_operation ce, first_index = i, first_term = t, joint = (phase ce = PhaseJoint),
      final_index = (if phase ce = PhaseJoint then None else Some i),
      final_term = (if phase ce = PhaseJoint then None else Some t)\<rparr>"

lemma apply_entry_cases:
  assumes "apply_entry m i t ce = Inr m'"
  obtains (final) r old new where "phase ce = PhaseFinal" "pending m = Some (request_id ce, r)"
      "operation r = ce_operation ce" "first_index r < i" "first_term r \<le> t" "voters m = Joint old new"
      "m' = m\<lparr>retired := retired m \<union> (set old - set new), voters := Stable new,
        records := bt_insert (request_id ce) (r\<lparr>final_index := Some i, final_term := Some t\<rparr>) (records m)\<rparr>"
  | (joint) new where "phase ce = PhaseJoint" "first_phase m (request_id ce) (ce_operation ce) = Inr PhaseJoint"
      "target_voters m (ce_operation ce) = Inr new"
      "m' = m\<lparr>learners := learners m - set new, voters := Joint (sorted_list_of_set (vc_voters (voters m))) new,
        records := bt_insert (request_id ce) (new_record ce i t) (records m)\<rparr>"
  | (admit) n ep where "phase ce = PhaseApply" "first_phase m (request_id ce) (ce_operation ce) = Inr PhaseApply"
      "ce_operation ce = AddLearner n ep"
      "m' = m\<lparr>learners := insert n (learners m), endpoints := bt_insert n ep (endpoints m),
        records := bt_insert (request_id ce) (new_record ce i t) (records m)\<rparr>"
  | (drop) n where "phase ce = PhaseApply" "first_phase m (request_id ce) (ce_operation ce) = Inr PhaseApply"
      "ce_operation ce = Remove n"
      "m' = m\<lparr>learners := learners m - {n}, retired := insert n (retired m),
        records := bt_insert (request_id ce) (new_record ce i t) (records m)\<rparr>"
proof (cases "phase ce = PhaseFinal")
  case True
  with assms obtain r old new where "pending m = Some (request_id ce, r)"
    "operation r = ce_operation ce" "first_index r < i" "first_term r \<le> t" "voters m = Joint old new"
    "m' = m\<lparr>retired := retired m \<union> (set old - set new), voters := Stable new,
      records := bt_insert (request_id ce) (r\<lparr>final_index := Some i, final_term := Some t\<rparr>) (records m)\<rparr>"
    by (auto simp: apply_entry_def apply_final_def rbind_Inr_iff set_diff_eq [symmetric] not_le not_less
        split: if_splits option.splits voter_config.splits)
  with True show thesis by (intro final)
next
  case False
  with assms have first: "first_phase m (request_id ce) (ce_operation ce) = Inr (phase ce)"
    by (auto simp: apply_entry_def apply_first_def rbind_Inr_iff split: if_splits)
  show thesis
  proof (cases "phase ce = PhaseJoint")
    case True
    with assms obtain new where "target_voters m (ce_operation ce) = Inr new"
      "m' = m\<lparr>learners := learners m - set new, voters := Joint (sorted_list_of_set (vc_voters (voters m))) new,
        records := bt_insert (request_id ce) (new_record ce i t) (records m)\<rparr>"
      by (auto simp: apply_entry_def apply_first_def rbind_Inr_iff Let_def new_record_def split: if_splits)
    with True first show thesis by (intro joint) simp_all
  next
    case False
    with \<open>phase ce \<noteq> PhaseFinal\<close> have ph: "phase ce = PhaseApply" by (cases "phase ce") auto
    show thesis
    proof (cases "ce_operation ce")
      case (AddLearner n ep)
      with assms ph have "m' = m\<lparr>learners := insert n (learners m), endpoints := bt_insert n ep (endpoints m),
          records := bt_insert (request_id ce) (new_record ce i t) (records m)\<rparr>"
        by (auto simp: apply_entry_def apply_first_def rbind_Inr_iff Let_def new_record_def split: if_splits)
      with AddLearner ph first show thesis by (intro admit) simp_all
    next
      case (Remove n)
      with assms ph have "m' = m\<lparr>learners := learners m - {n}, retired := insert n (retired m),
          records := bt_insert (request_id ce) (new_record ce i t) (records m)\<rparr>"
        by (auto simp: apply_entry_def apply_first_def rbind_Inr_iff Let_def new_record_def split: if_splits)
      with Remove ph first show thesis by (intro drop) simp_all
    next
      case (SetVoters vs)
      with assms ph show thesis by (auto simp: apply_entry_def apply_first_def rbind_Inr_iff Let_def split: if_splits)
    qed
  qed
qed

lemma first_phase_joint:
  assumes "first_phase m rid op = Inr PhaseJoint" and "target_voters m op = Inr new"
    and "is_ok (vc_validate (voters m))"
  shows "is_ok (validate_set new)" "set new \<subseteq> vc_voters (voters m) \<union> learners m"
    "is_ok (validate_set (sorted_list_of_set (vc_voters (voters m))))"
proof -
  have "\<not> is_joint (voters m)" using first_phase_Inr(2) [OF assms(1)] .
  then obtain vs where vs: "voters m = Stable vs" by (auto simp: is_joint_def split: voter_config.splits)
  with assms(3) have ok: "is_ok (validate_set vs)" by simp
  then show "is_ok (validate_set (sorted_list_of_set (vc_voters (voters m))))" using vs by (simp add: sorted_voters_id)
  show "is_ok (validate_set new)"
  proof (cases op)
    case (Remove i)
    with assms(1,2) vs have "i \<in> set vs" "card (set vs) \<noteq> 1" and new: "new = filter (\<lambda>v. v \<noteq> i) vs"
      using sorted_voters_id [OF ok]
      by (auto simp: first_phase_def rbind_Inr_iff target_voters_def Let_def split: option.splits if_splits)
    moreover have "set vs \<noteq> {i}" using \<open>card (set vs) \<noteq> 1\<close> by auto
    ultimately have "new \<noteq> []" by (auto simp: filter_empty_conv)
    moreover have "sorted_wrt (<) new" using ok new by (auto simp: validate_set_ok intro: sorted_wrt_filter)
    moreover have "length new \<le> 256" using ok new order_trans [OF length_filter_le] by (auto simp: validate_set_ok)
    ultimately show ?thesis by (simp add: validate_set_ok)
  next
    case (SetVoters ws)
    with assms(1,2) show ?thesis
      by (auto simp: first_phase_def rbind_Inr_iff target_voters_def split: option.splits if_splits)
  qed (use assms(2) in \<open>simp add: target_voters_def\<close>)
  show "set new \<subseteq> vc_voters (voters m) \<union> learners m"
    using assms(1,2) vs
    by (cases op) (auto simp: first_phase_def rbind_Inr_iff target_voters_def Let_def list_ex_iff
        split: option.splits if_splits)
qed

lemma open_insert:
  assumes "bt_sorted (records m)"
  shows "{p \<in> set (bt_insert rid r (records m)). open_record (snd p)} =
    (if open_record r then {(rid, r)} else {}) \<union> {p \<in> set (records m). open_record (snd p) \<and> fst p \<noteq> rid}"
  using assms by (auto simp: set_bt_insert)

lemma member_inv_first:
  assumes m: "member_inv m" and first: "first_phase m rid op = Inr ph" and m': "records m' = bt_insert rid r (records m)"
    and open_iff: "open_record r \<longleftrightarrow> is_joint (voters m')"
    and rest: "is_ok (vc_validate (voters m'))" "finite (learners m')" "vc_voters (voters m') \<inter> learners m' = {}"
      "participants m' \<inter> retired m' = {}"
  shows "member_inv m'"
proof -
  note f = first_phase_Inr [OF first]
  have sorted: "bt_sorted (records m)" using m by (simp add: member_inv_def)
  have none: "{p \<in> set (records m). open_record (snd p)} = {}" using f(1) by (simp add: pending_None)
  have opn: "{p \<in> set (records m'). open_record (snd p)} = (if is_joint (voters m') then {(rid, r)} else {})"
    unfolding m' open_insert [OF sorted] using none open_iff by auto
  have "length (records m') \<le> MAX_ADMIN_RECORDS"
    using f(3) length_bt_insert [OF sorted, of rid r] by (simp add: m' split: if_splits)
  moreover have "bt_sorted (records m')" using sorted by (simp add: m' bt_sorted_insert)
  ultimately show ?thesis
    using rest opn pending_single [of m' "(rid, r)"] by (auto simp: member_inv_def split: if_splits)
qed

lemma member_inv_final:
  assumes m: "member_inv m" and vs: "voters m = Joint old new" and p: "pending m = Some (rid, r)"
    and m': "m' = m\<lparr>retired := retired m \<union> (set old - set new), voters := Stable new,
      records := bt_insert rid (r\<lparr>final_index := Some i, final_term := Some t\<rparr>) (records m)\<rparr>"
  shows "member_inv m'"
proof -
  have sorted: "bt_sorted (records m)" and one: "{p \<in> set (records m). open_record (snd p)} = {(rid, r)}"
    using m vs p by (auto simp: member_inv_def is_joint_def)
  have "{p \<in> set (records m'). open_record (snd p)} = {}"
    unfolding m' using open_insert [OF sorted, of rid] one by (auto simp: open_record_def)
  moreover have "bt_contains rid (records m)"
  proof -
    have "(rid, r) \<in> set (records m)" using one by blast
    then show ?thesis by (force simp: bt_contains_def map_of_eq_None_iff)
  qed
  then have "length (records m') = length (records m)" using length_bt_insert [OF sorted, of rid] by (simp add: m')
  moreover have "is_ok (validate_set new)" using m vs vc_validate_Joint [of old new] by (auto simp: member_inv_def)
  ultimately show ?thesis
    using m vs by (auto simp: member_inv_def m' is_joint_def participants_def bt_sorted_insert)
qed

lemma member_inv_apply:
  assumes "apply_entry m i t ce = Inr m'" and m: "member_inv m"
  shows "member_inv m'"
  using assms(1)
proof (cases rule: apply_entry_cases)
  case (final r old new)
  show ?thesis by (rule member_inv_final [OF m final(6,2,7)])
next
  case (joint new)
  have valid: "is_ok (vc_validate (voters m))" using m by (simp add: member_inv_def)
  note j = first_phase_joint [OF joint(2,3) valid]
  have fin: "finite (vc_voters (voters m))" by (cases "voters m") auto
  show ?thesis
    using m j fin joint
    by (intro member_inv_first [OF m joint(2)])
      (auto simp: vc_validate_Joint member_inv_def participants_def new_record_def open_record_def is_joint_def
        simp del: vc_validate.simps)
next
  case (admit n ep)
  then have "n \<notin> retired m" "n \<notin> participants m"
    by (auto simp: first_phase_def rbind_Inr_iff split: option.splits if_splits)
  with m admit first_phase_Inr(2) [OF admit(2)] show ?thesis
    by (intro member_inv_first [OF m admit(2)])
      (auto simp: member_inv_def participants_def new_record_def open_record_def)
next
  case (drop n)
  with first_phase_Inr(2) [OF drop(2)] have "n \<in> learners m"
    by (auto simp: first_phase_def rbind_Inr_iff Let_def split: option.splits if_splits)
  with m drop first_phase_Inr(2) [OF drop(2)] show ?thesis
    by (intro member_inv_first [OF m drop(2)])
      (auto simp: member_inv_def participants_def new_record_def open_record_def)
qed

lemma history_inv_advanced:
  assumes "advanced c i t ce = Inr c'" and c: "history_inv c"
  shows "history_inv c'"
proof -
  from assms(1) obtain m where m: "apply_entry (cm_state c) i t ce = Inr m" and c': "c' = \<lparr>cm_index = i, cm_term = t, cm_state = m\<rparr>"
    and pos: "cm_index c < i" "cm_term c \<le> t"
    by (auto simp: advanced_def rbind_Inr_iff split: if_splits)
  have "member_inv m" using member_inv_apply [OF m] c by (simp add: history_inv_def)
  moreover have sorted: "bt_sorted (records (cm_state c))" using c by (simp add: history_inv_def member_inv_def)
  have old: "record_placed c' (snd p)" if "p \<in> set (records (cm_state c))" for p
    using c that pos by (fastforce simp: history_inv_def record_placed_def c')
  have "version m = 1 \<and> (\<forall>p \<in> set (records m). record_placed c' (snd p))"
    using m
  proof (cases rule: apply_entry_cases)
    case (final r old' new)
    from pending_Some(1) [OF final(2)] old have "record_placed c' r" by force
    then show ?thesis
      using c old final(4,7) by (auto simp: set_bt_insert [OF sorted] record_placed_def history_inv_def)
  qed (use c old in \<open>auto simp: set_bt_insert [OF sorted] record_placed_def history_inv_def c' new_record_def\<close>)
  ultimately show ?thesis by (simp add: history_inv_def c')
qed

lemma history_inv: "history c \<Longrightarrow> history_inv c"
proof (induction rule: history.induct)
  case (boot g vs c)
  then show ?case
    by (auto simp: cm_bootstrap_with_group_def bootstrap_with_group_def rbind_Inr_iff history_inv_def member_inv_def
        participants_def is_joint_def bt_sorted_def)
next
  case (advance c i t ce c')
  then show ?case by (blast intro: history_inv_advanced)
qed

section \<open>Validation accepts exactly the histories\<close>

lemma all_events_insert:
  assumes "bt_sorted m" and "all_events m = Inr evl" and "record_events rid r' = Inr new"
    and "case bt_get m rid of None \<Rightarrow> old = [] | Some r \<Rightarrow> record_events rid r = Inr old"
  shows "\<exists>evl'. all_events (bt_insert rid r' m) = Inr evl' \<and> mset evl' + mset old = mset evl + mset new"
  using assms
proof (induction rid r' m arbitrary: evl rule: bt_insert.induct)
  case (1 k v)
  then show ?case by simp
next
  case (2 k v k' v' m)
  from "2.prems"(2) obtain a b where ab: "record_events k' v' = Inr a" "all_events m = Inr b" "evl = a @ b"
    by (auto simp: rbind_Inr_iff)
  consider "k < k'" | "k = k'" | "k' < k" by (rule linorder_cases)
  then show ?case
  proof cases
    case 1
    then have "bt_get ((k', v') # m) k = None" using bt_sorted_head_None [of k' v' m k] "2.prems"(1) by simp
    with 1 "2.prems" show ?thesis by (auto simp: rbind_Inr_iff)
  next
    case 2
    with "2.prems" ab have "old = a" by simp
    with 2 "2.prems" ab show ?thesis by (auto simp: rbind_Inr_iff ac_simps)
  next
    case 3
    with "2.prems" ab have "\<exists>evl'. all_events (bt_insert k v m) = Inr evl' \<and> mset evl' + mset old = mset b + mset new"
      by (intro "2.IH") (auto simp: bt_sorted_Cons split: if_splits)
    then obtain evl' where "all_events (bt_insert k v m) = Inr evl'" "mset evl' + mset old = mset b + mset new" by blast
    with 3 ab show ?thesis by (auto simp: rbind_Inr_iff ac_simps)
  qed
qed

lemma all_events_ok: "all_events rs = Inr evl \<Longrightarrow> (rid, r) \<in> set rs \<Longrightarrow> is_ok (record_events rid r)"
  by (induction rs arbitrary: evl rule: all_events.induct) (auto simp: rbind_Inr_iff is_ok_iff)

text \<open>A history with the events that led to it, in log order.\<close>

definition traced :: "committed_membership \<Rightarrow> (log_index \<times> raft_term \<times> configuration_entry) list \<Rightarrow> bool" where
  "traced c evs \<longleftrightarrow>
     (\<exists>start evl. cm_bootstrap_with_group (group_id (cm_state c)) (genesis_voters (cm_state c)) = Inr start \<and>
        advance_all start evs = Inr c \<and> all_events (records (cm_state c)) = Inr evl \<and> mset evl = mset evs) \<and>
     sorted_wrt (\<lambda>x y. fst x < fst y) evs \<and> (\<forall>e \<in> set evs. fst e \<le> cm_index c)"

lemma advance_all_snoc:
  "advance_all c evs = Inr c' \<Longrightarrow> advanced c' i t ce = Inr c'' \<Longrightarrow> advance_all c (evs @ [(i, t, ce)]) = Inr c''"
  by (induction c evs rule: advance_all.induct) (auto simp: rbind_Inr_iff)

lemma record_events_new:
  assumes "phase ce \<noteq> PhaseFinal"
  shows "record_events (request_id ce) (new_record ce i t) = Inr [(i, t, ce)]"
  using assms by (cases ce, cases "phase ce") (auto simp: record_events_def new_record_def Let_def)

lemma apply_entry_identity:
  "apply_entry m i t ce = Inr m' \<Longrightarrow> group_id m' = group_id m \<and> genesis_voters m' = genesis_voters m"
  by (erule apply_entry_cases) auto

lemma traced_advanced:
  assumes adv: "advanced c i t ce = Inr c'" and tr: "traced c evs" and inv: "history_inv c"
  shows "traced c' (evs @ [(i, t, ce)])"
proof -
  from adv obtain m where m: "apply_entry (cm_state c) i t ce = Inr m" and c': "c' = \<lparr>cm_index = i, cm_term = t, cm_state = m\<rparr>"
    and pos: "cm_index c < i" "cm_term c \<le> t"
    by (auto simp: advanced_def rbind_Inr_iff split: if_splits)
  from tr obtain start evl where start: "cm_bootstrap_with_group (group_id (cm_state c)) (genesis_voters (cm_state c)) = Inr start"
    "advance_all start evs = Inr c" and evl: "all_events (records (cm_state c)) = Inr evl" "mset evl = mset evs"
    and srt: "sorted_wrt (\<lambda>x y. fst x < fst y) evs" "\<forall>e \<in> set evs. fst e \<le> cm_index c"
    by (auto simp: traced_def)
  have sorted: "bt_sorted (records (cm_state c))" using inv by (simp add: history_inv_def member_inv_def)
  have "\<exists>evl'. all_events (records m) = Inr evl' \<and> mset evl' = mset evl + {#(i, t, ce)#}"
    using m
  proof (cases rule: apply_entry_cases)
    case (final r old new)
    note in_rec = pending_Some(1) [OF final(2)] and open_r = pending_Some(2) [OF final(2)]
    then have get: "bt_get (records (cm_state c)) (request_id ce) = Some r"
      using bt_sorted_keys [OF sorted] by simp
    let ?e = "(first_index r, first_term r, \<lparr>request_id = request_id ce, ce_operation = operation r, phase = PhaseJoint\<rparr>)"
    let ?r = "r\<lparr>final_index := Some i, final_term := Some t\<rparr>"
    from all_events_ok [OF evl(1) in_rec] have rec: "joint r" "record_events (request_id ce) r = Inr [?e]"
      using open_r by (auto simp: record_events_def Let_def is_ok_iff split: option.splits if_splits)
    then have "record_events (request_id ce) ?r = Inr [?e, (i, t, ce)]"
      using final(1,3) by (cases ce) (auto simp: record_events_def Let_def)
    from all_events_insert [OF sorted evl(1) this, of "[?e]"] rec get final(7) show ?thesis by auto
  qed (use all_events_insert [OF sorted evl(1), of "request_id ce" "new_record ce i t" "[(i, t, ce)]" "[]"]
      first_phase_Inr(4) in \<open>auto simp: record_events_new\<close>)
  then obtain evl' where "all_events (records m) = Inr evl'" "mset evl' = mset evl + {#(i, t, ce)#}" by blast
  moreover have "sorted_wrt (\<lambda>x y. fst x < fst y) (evs @ [(i, t, ce)])"
    using srt pos(1) by (auto simp: sorted_wrt_append)
  moreover have "\<forall>e \<in> set (evs @ [(i, t, ce)]). fst e \<le> i" using srt(2) pos(1) by auto
  ultimately show ?thesis
    using start apply_entry_identity [OF m] evl(2) advance_all_snoc [OF start(2) adv] unfolding traced_def c' by auto
qed

lemma history_traced: "history c \<Longrightarrow> \<exists>evs. traced c evs"
proof (induction rule: history.induct)
  case (boot g vs c)
  then have "traced c []"
    by (auto simp: traced_def cm_bootstrap_with_group_def bootstrap_with_group_def rbind_Inr_iff)
  then show ?case ..
next
  case (advance c i t ce c')
  then show ?case using traced_advanced history_inv by blast
qed

lemma history_advance_all: "history c \<Longrightarrow> advance_all c evs = Inr c' \<Longrightarrow> history c'"
  by (induction c evs rule: advance_all.induct) (auto simp: rbind_Inr_iff intro: history.advance)

lemma cm_validate_iff: "cm_validate c = Inr () \<longleftrightarrow> history c"
proof
  assume "cm_validate c = Inr ()"
  then obtain start evs where "cm_bootstrap_with_group (group_id (cm_state c)) (genesis_voters (cm_state c)) = Inr start"
    "advance_all start evs = Inr c"
    by (auto simp: cm_validate_def rbind_Inr_iff split: if_splits)
  then show "history c" by (blast intro: history.boot history_advance_all)
next
  assume h: "history c"
  then obtain evs where tr: "traced c evs" using history_traced by blast
  then obtain start evl where st: "cm_bootstrap_with_group (group_id (cm_state c)) (genesis_voters (cm_state c)) = Inr start"
    "advance_all start evs = Inr c" "all_events (records (cm_state c)) = Inr evl" "mset evl = mset evs"
    by (auto simp: traced_def)
  have "sorted_wrt (<) (map fst evs)" using tr by (simp add: traced_def sorted_wrt_map)
  then have "sorted (map fst evs)" "distinct (map fst evs)" by (simp_all add: strict_sorted_iff)
  moreover have "set evl = set evs" using st(4) by (metis set_mset_mset)
  ultimately have "sort_key fst evl = evs"
    using st(4) by (intro sort_key_inj_key_eq) (auto simp: distinct_map)
  with st history_inv [OF h] show "cm_validate c = Inr ()"
    by (simp add: cm_validate_def history_inv_def member_inv_def)
qed

end
