(* ===== verification/Extension.thy ===== *)
theory Extension
  imports History
begin

text \<open>
  What the administrative history promises its clients: validation accepts exactly the histories,
  \<open>is_consistent_extension_of\<close> decides exactly whether one history continues another, consecutive
  configurations always have intersecting quorums, and a retired member never comes back.
\<close>

definition first_event :: "string \<Rightarrow> admin_record \<Rightarrow> log_index \<times> raft_term \<times> configuration_entry" where
  "first_event rid r = (first_index r, first_term r,
     \<lparr>request_id = rid, ce_operation = operation r, phase = (if joint r then PhaseJoint else PhaseApply)\<rparr>)"

definition final_event :: "string \<Rightarrow> admin_record \<Rightarrow> log_index \<times> raft_term \<times> configuration_entry" where
  "final_event rid r = (the (final_index r), the (final_term r),
     \<lparr>request_id = rid, ce_operation = operation r, phase = PhaseFinal\<rparr>)"

definition sample_removal :: configuration_entry where
  "sample_removal = \<lparr>request_id = ''drop-3'', ce_operation = Remove 3, phase = PhaseJoint\<rparr>"

definition sample_members :: membership_state where
  "sample_members = \<lparr>version = 1, group_id = ''shard-1'', genesis_voters = [1, 2, 3], voters = Stable [1, 2, 3],
     learners = {}, retired = {}, endpoints = [], records = []\<rparr>"

section \<open>One history continues another\<close>

lemma set_all_events:
  "all_events rs = Inr evl \<Longrightarrow>
     e \<in> set evl \<longleftrightarrow> (\<exists>rid r es. (rid, r) \<in> set rs \<and> record_events rid r = Inr es \<and> e \<in> set es)"
proof (induction rs arbitrary: evl rule: all_events.induct)
  case (2 rid r rs)
  then obtain es es' where "record_events rid r = Inr es" "all_events rs = Inr es'" "evl = es @ es'"
    by (auto simp: rbind_Inr_iff)
  with "2.IH" [of es'] show ?case by auto
qed simp

lemma record_events_set:
  "record_events rid r = Inr es \<Longrightarrow>
     set es = insert (first_event rid r) (if joint r \<and> final_index r \<noteq> None then {final_event rid r} else {})"
  by (auto simp: record_events_def first_event_def final_event_def Let_def split: option.splits if_splits)

lemma extends_event_sets:
  assumes old: "all_events (records (cm_state older)) = Inr evo" "\<forall>e \<in> set evo. fst e \<le> cm_index older"
      "bt_sorted (records (cm_state older))"
    and new: "all_events (records (cm_state newer)) = Inr evn" "bt_sorted (records (cm_state newer))"
      "\<forall>p \<in> set (records (cm_state newer)). record_placed newer (snd p)"
    and ext: "is_consistent_extension_of newer older"
  shows "set evo = {e \<in> set evn. fst e \<le> cm_index older}"
proof (rule set_eqI)
  fix e
  have grow: "record_extends newer older (rid, r)" if "bt_get (records (cm_state older)) rid = Some r" for rid r
    using ext that by (auto simp: is_consistent_extension_of_def list_all_iff dest: map_of_SomeD)
  have fresh: "bt_get (records (cm_state older)) rid = None \<Longrightarrow> cm_index older < first_index r"
    if "bt_get (records (cm_state newer)) rid = Some r" for rid r
    using ext that by (force simp: is_consistent_extension_of_def list_all_iff dest: map_of_SomeD)
  have mem: "e \<in> set ev \<longleftrightarrow> (\<exists>rid r. bt_get rs rid = Some r \<and>
      (e = first_event rid r \<or> joint r \<and> final_index r \<noteq> None \<and> e = final_event rid r))"
    if "all_events rs = Inr ev" "bt_sorted rs" for rs ev
  proof -
    have "\<exists>es. record_events rid r = Inr es" if "(rid, r) \<in> set rs" for rid r
      using all_events_ok [OF \<open>all_events rs = Inr ev\<close> that] by (simp add: is_ok_iff)
    then have "e \<in> set ev \<longleftrightarrow> (\<exists>rid r. (rid, r) \<in> set rs \<and>
        (e = first_event rid r \<or> joint r \<and> final_index r \<noteq> None \<and> e = final_event rid r))"
      unfolding set_all_events [OF that(1)] by (fastforce simp: record_events_set split: if_splits)
    then show ?thesis using bt_sorted_keys [OF that(2)] by simp
  qed
  note mo = mem [OF old(1,3)] and mn = mem [OF new(1,2)]
  show "e \<in> set evo \<longleftrightarrow> e \<in> {e \<in> set evn. fst e \<le> cm_index older}"
  proof
    assume e: "e \<in> set evo"
    then obtain rid r where r: "bt_get (records (cm_state older)) rid = Some r"
      "e = first_event rid r \<or> joint r \<and> final_index r \<noteq> None \<and> e = final_event rid r"
      unfolding mo by blast
    with grow [OF r(1)] have "e \<in> set evn"
      unfolding mn by (fastforce simp: record_extends_def first_event_def final_event_def split: option.splits)
    with e old(2) show "e \<in> {e \<in> set evn. fst e \<le> cm_index older}" by simp
  next
    assume e: "e \<in> {e \<in> set evn. fst e \<le> cm_index older}"
    then obtain rid r where r: "bt_get (records (cm_state newer)) rid = Some r"
      "e = first_event rid r \<or> joint r \<and> final_index r \<noteq> None \<and> e = final_event rid r" "fst e \<le> cm_index older"
      unfolding mem_Collect_eq mn by blast
    then have "first_index r \<le> cm_index older"
      using new(3) by (fastforce simp: first_event_def final_event_def record_placed_def dest: map_of_SomeD)
    with fresh [OF r(1)] obtain r0 where r0: "bt_get (records (cm_state older)) rid = Some r0" by fastforce
    with grow [OF r0] r(1,2,3) show "e \<in> set evo"
      unfolding mo by (fastforce simp: record_extends_def first_event_def final_event_def split: option.splits)
  qed
qed

lemma advance_all_append:
  "advance_all c (xs @ ys) = rbind (advance_all c xs) (\<lambda>c'. advance_all c' ys)"
  by (induction c xs rule: advance_all.induct) (auto simp: rbind_def split: sum.splits)

lemma sorted_events_split:
  assumes "sorted_wrt (\<lambda>x y. fst x < fst y) (evs :: (nat \<times> 'a) list)"
  shows "evs = filter (\<lambda>e. fst e \<le> k) evs @ filter (\<lambda>e. \<not> fst e \<le> k) evs"
  using assms
proof (induction evs)
  case (Cons e evs)
  show ?case
  proof (cases "fst e \<le> k")
    case False
    with Cons.prems have "\<forall>x \<in> set evs. \<not> fst x \<le> k" by auto
    then have "filter (\<lambda>e. fst e \<le> k) evs = []" "filter (\<lambda>e. \<not> fst e \<le> k) evs = evs"
      by (simp_all add: filter_empty_conv filter_id_conv)
    with False show ?thesis by simp
  qed (use Cons in simp)
qed simp

lemma sorted_events_unique:
  assumes "sorted_wrt (\<lambda>x y. fst x < fst y) (xs :: (nat \<times> 'a) list)" "sorted_wrt (\<lambda>x y. fst x < fst y) ys"
    and "set xs = set ys"
  shows "xs = ys"
proof -
  have *: "sorted (map fst zs)" "distinct zs" "inj_on fst (set zs)"
    if "sorted_wrt (\<lambda>x y. fst x < fst y) zs" for zs :: "(nat \<times> 'a) list"
  proof -
    have "sorted_wrt (<) (map fst zs)" using that by (simp add: sorted_wrt_map)
    then show "sorted (map fst zs)" "distinct zs" "inj_on fst (set zs)" by (simp_all add: strict_sorted_iff distinct_map)
  qed
  have "mset xs = mset ys" using * [OF assms(1)] * [OF assms(2)] assms(3) by (simp add: set_eq_iff_mset_eq_distinct)
  then have "sort_key fst xs = ys" using * [OF assms(1)] * [OF assms(2)] by (intro sort_key_inj_key_eq) auto
  moreover have "sort_key fst xs = xs" using * [OF assms(1)] by (intro sort_key_inj_key_eq) auto
  ultimately show ?thesis by simp
qed

lemma extension_continues:
  assumes ext: "is_consistent_extension_of newer older"
  shows "\<exists>evs. advance_all older evs = Inr newer"
proof -
  have h: "history newer" "history older" using ext
    by (auto simp: is_consistent_extension_of_def cm_validate_iff [symmetric] is_ok_iff)
  obtain evn evo where tn: "traced newer evn" and to: "traced older evo" using h history_traced by blast
  have inv: "history_inv newer" "history_inv older" using h history_inv by blast+
  from tn obtain start en where n: "cm_bootstrap_with_group (group_id (cm_state newer)) (genesis_voters (cm_state newer)) = Inr start"
    "advance_all start evn = Inr newer" "all_events (records (cm_state newer)) = Inr en" "mset en = mset evn"
    by (auto simp: traced_def)
  from to obtain start' eo where o': "cm_bootstrap_with_group (group_id (cm_state older)) (genesis_voters (cm_state older)) = Inr start'"
    "advance_all start' evo = Inr older" "all_events (records (cm_state older)) = Inr eo" "mset eo = mset evo"
    by (auto simp: traced_def)
  have same: "start' = start" using n(1) o'(1) ext by (simp add: is_consistent_extension_of_def)
  have sets: "set en = set evn" "set eo = set evo" using n(4) o'(4) by (metis set_mset_mset)+
  have "set eo = {e \<in> set en. fst e \<le> cm_index older}"
    using inv to sets by (intro extends_event_sets [OF o'(3) _ _ n(3) _ _ ext]) (auto simp: traced_def history_inv_def member_inv_def)
  then have "evo = filter (\<lambda>e. fst e \<le> cm_index older) evn"
    using tn to sets by (intro sorted_events_unique) (auto simp: traced_def intro: sorted_wrt_filter)
  then have "advance_all start (evo @ filter (\<lambda>e. \<not> fst e \<le> cm_index older) evn) = Inr newer"
    using n(2) sorted_events_split [of evn "cm_index older"] tn by (simp add: traced_def)
  then show ?thesis using o'(2) same by (auto simp: advance_all_append)
qed

lemma extension_refl: "history c \<Longrightarrow> is_consistent_extension_of c c"
proof -
  assume h: "history c"
  have "bt_sorted (records (cm_state c))" using history_inv [OF h] by (simp add: history_inv_def member_inv_def)
  then have "bt_get (records (cm_state c)) rid = Some r" if "(rid, r) \<in> set (records (cm_state c))" for rid r
    using that bt_sorted_keys [of "records (cm_state c)"] by simp
  then show ?thesis
    using h by (auto simp: is_consistent_extension_of_def cm_validate_iff is_ok_iff list_all_iff record_extends_def
        split: option.splits)
qed

lemma extension_advanced:
  assumes ext: "is_consistent_extension_of c older" and adv: "advanced c i t ce = Inr c'"
  shows "is_consistent_extension_of c' older"
proof -
  have h: "history c" "history older" using ext
    by (auto simp: is_consistent_extension_of_def cm_validate_iff [symmetric] is_ok_iff)
  have sorted: "bt_sorted (records (cm_state c))" using history_inv [OF h(1)] by (simp add: history_inv_def member_inv_def)
  from adv obtain m where m: "apply_entry (cm_state c) i t ce = Inr m" and c': "c' = \<lparr>cm_index = i, cm_term = t, cm_state = m\<rparr>"
    and pos: "cm_index c < i" "cm_term c \<le> t"
    by (auto simp: advanced_def rbind_Inr_iff split: if_splits)
  have idx: "cm_index older < i" "cm_term older \<le> t" using ext pos by (auto simp: is_consistent_extension_of_def)
  from m obtain r where recs: "records m = bt_insert (request_id ce) r (records (cm_state c))" and
    r: "bt_get (records (cm_state c)) (request_id ce) = None \<and> first_index r = i \<or>
      (\<exists>r0. bt_get (records (cm_state c)) (request_id ce) = Some r0 \<and> final_index r0 = None \<and>
        r = r0\<lparr>final_index := Some i, final_term := Some t\<rparr>)"
  proof (cases rule: apply_entry_cases)
    case (final r0 old new)
    then have "bt_get (records (cm_state c)) (request_id ce) = Some r0"
      using pending_Some(1) [OF final(2)] bt_sorted_keys [OF sorted] by simp
    with final pending_Some(2) [OF final(2)] show thesis by (intro that [of "r0\<lparr>final_index := Some i, final_term := Some t\<rparr>"]) auto
  qed (use first_phase_Inr(4) in \<open>(intro that [of "new_record ce i t"]; auto simp: new_record_def)+\<close>)
  have grow: "record_extends c' older (rid, old)" if "(rid, old) \<in> set (records (cm_state older))" for rid old
  proof -
    have "record_extends c older (rid, old)" using ext that by (auto simp: is_consistent_extension_of_def list_all_iff)
    with r idx show ?thesis by (auto simp: record_extends_def c' recs bt_get_insert split: option.splits if_splits)
  qed
  have fresh: "cm_index older < first_index new"
    if "(rid, new) \<in> set (records m)" "bt_get (records (cm_state older)) rid = None" for rid new
  proof -
    have "cm_index older < first_index new'" if "(rid, new') \<in> set (records (cm_state c))" for new'
      using ext that \<open>bt_get (records (cm_state older)) rid = None\<close>
      by (fastforce simp: is_consistent_extension_of_def list_all_iff)
    with that r idx show ?thesis
      by (auto simp: recs set_bt_insert [OF sorted] dest: map_of_SomeD)
  qed
  have "history c'" using h(1) adv by (rule history.advance)
  then show ?thesis
    using ext grow fresh idx apply_entry_identity [OF m] h(2)
    by (fastforce simp: is_consistent_extension_of_def list_all_iff c' cm_validate_iff is_ok_iff)
qed

lemma extension_advance_all:
  "is_consistent_extension_of c older \<Longrightarrow> advance_all c evs = Inr c' \<Longrightarrow> is_consistent_extension_of c' older"
  by (induction c evs rule: advance_all.induct) (auto simp: rbind_Inr_iff intro: extension_advanced)

section \<open>Safety of a change\<close>

lemma stable_of: "\<not> is_joint c \<Longrightarrow> \<exists>vs. c = Stable vs"
  by (cases c) (auto simp: is_joint_def)

lemma apply_entry_voters:
  assumes "apply_entry m i t ce = Inr m'" and "is_ok (vc_validate (voters m))"
  shows "voters m' = voters m \<or> (\<exists>old new. voters m = Stable old \<and> voters m' = Joint old new) \<or>
    (\<exists>old new. voters m = Joint old new \<and> voters m' = Stable new)"
  using assms(1)
proof (cases rule: apply_entry_cases)
  case (joint new)
  obtain old where "voters m = Stable old" using stable_of first_phase_Inr(2) [OF joint(2)] by blast
  with assms(2) joint(4) show ?thesis by (simp add: sorted_voters_id)
qed simp_all

lemma compatible_self: "compatible c c"
  by (cases c) (auto intro: compatible_change(1))

lemma retired_grow: "apply_entry m i t ce = Inr m' \<Longrightarrow> retired m \<subseteq> retired m'"
  by (erule apply_entry_cases) auto

lemma retired_grow_all: "advance_all c evs = Inr c' \<Longrightarrow> retired (cm_state c) \<subseteq> retired (cm_state c')"
proof (induction c evs rule: advance_all.induct)
  case (2 c i t ce es)
  then obtain d where d: "advanced c i t ce = Inr d" "advance_all d es = Inr c'" by (auto simp: rbind_Inr_iff)
  then have "retired (cm_state c) \<subseteq> retired (cm_state d)"
    by (auto simp: advanced_def rbind_Inr_iff split: if_splits dest!: retired_grow)
  with 2(1) [OF d(2)] show ?case by blast
qed simp

section \<open>What the history promises\<close>

text \<open>
  C9.  Validation is exact.  A committed membership passes \<open>validate\<close>, which rebuilds it from the
  records it retains, exactly when some sequence of configuration entries leads to it from a
  bootstrap: no forged or inconsistent state is accepted and no honest one is refused.
\<close>

theorem validate_exact: "cm_validate c = Inr () \<longleftrightarrow> history c"
  by (rule cm_validate_iff)

text \<open>
  C10.  The extension test is exact.  A membership is accepted as a consistent extension of an older
  one exactly when the older one is a genuine history and applying further configuration entries
  to it yields the newer one.
\<close>

theorem extension_exact:
  "is_consistent_extension_of newer older \<longleftrightarrow> history older \<and> (\<exists>evs. advance_all older evs = Inr newer)"
proof
  assume ext: "is_consistent_extension_of newer older"
  then have "history older" by (auto simp: is_consistent_extension_of_def cm_validate_iff [symmetric] is_ok_iff)
  with extension_continues [OF ext] show "history older \<and> (\<exists>evs. advance_all older evs = Inr newer)" by blast
qed (blast intro: extension_advance_all extension_refl)

lemma sample_request: "validate_request_id ''drop-3'' = Inr ()"
  by code_simp

lemma sample_joint:
  "advanced \<lparr>cm_index = 0, cm_term = 0, cm_state = sample_members\<rparr> 5 2 sample_removal =
     Inr \<lparr>cm_index = 5, cm_term = 2, cm_state = sample_members\<lparr>voters := Joint [1, 2, 3] [1, 2],
       records := [(''drop-3'', new_record sample_removal 5 2)]\<rparr>\<rparr>"
  by (simp add: advanced_def apply_entry_def apply_first_def first_phase_def sample_request sample_removal_def
      sample_members_def u64_max_def LEGACY_GROUP_ID_def pending_def MAX_ADMIN_RECORDS_def target_voters_def new_record_def)

lemma sample_final:
  "\<exists>e. advanced \<lparr>cm_index = 5, cm_term = 2, cm_state = sample_members\<lparr>voters := Joint [1, 2, 3] [1, 2],
       records := [(''drop-3'', new_record sample_removal 5 2)]\<rparr>\<rparr> 6 2 (sample_removal\<lparr>phase := PhaseFinal\<rparr>) = Inr e \<and>
     retired (cm_state e) = {3}"
  by (simp add: advanced_def apply_entry_def apply_final_def sample_request sample_removal_def
      sample_members_def u64_max_def pending_def new_record_def)

lemma sample_change:
  "\<exists>c d. history c \<and> advanced c 5 2 sample_removal = Inr d \<and> voters (cm_state d) = Joint [1, 2, 3] [1, 2] \<and>
     (\<exists>e. advanced d 6 2 (sample_removal\<lparr>phase := PhaseFinal\<rparr>) = Inr e \<and> retired (cm_state e) = {3})"
proof -
  let ?c = "\<lparr>cm_index = 0, cm_term = 0, cm_state = sample_members\<rparr>"
  have "cm_bootstrap_with_group ''shard-1'' [1, 2, 3] = Inr ?c" by code_simp
  then have "history ?c" by (rule history.boot)
  moreover have "voters (cm_state \<lparr>cm_index = 5, cm_term = 2, cm_state = sample_members\<lparr>voters := Joint [1, 2, 3] [1, 2],
      records := [(''drop-3'', new_record sample_removal 5 2)]\<rparr>\<rparr>) = Joint [1, 2, 3] [1, 2]" by simp
  ultimately show ?thesis using sample_joint sample_final by blast
qed

text \<open>
  C11.  Membership changes keep quorums intersecting.  Whatever configuration entry a history
  accepts next, every quorum of the voters before it meets every quorum of the voters after it.
\<close>

theorem change_keeps_quorums:
  assumes "history c" and "advanced c i t ce = Inr c'"
  shows "compatible (voters (cm_state c)) (voters (cm_state c'))"
proof -
  have ok: "is_ok (vc_validate (voters (cm_state c)))" using history_inv [OF assms(1)] by (simp add: history_inv_def member_inv_def)
  from assms(2) have "apply_entry (cm_state c) i t ce = Inr (cm_state c')"
    by (auto simp: advanced_def rbind_Inr_iff split: if_splits)
  from apply_entry_voters [OF this ok] show ?thesis by (auto intro: compatible_change compatible_self)
qed

theorem change_keeps_quorums_witness:
  "\<exists>c d. history c \<and> advanced c 5 2 sample_removal = Inr d \<and> voters (cm_state d) = Joint [1, 2, 3] [1, 2] \<and>
     compatible (voters (cm_state c)) (voters (cm_state d))"
  using sample_change change_keeps_quorums [of _ 5 2 sample_removal] by blast

text \<open>
  C12.  Retirement is for ever.  Once a node is retired it stays retired in every continuation of
  the history and is never again a voter or a learner.
\<close>

theorem retired_for_ever:
  assumes "history c" and "advance_all c evs = Inr c'" and "i \<in> retired (cm_state c)"
  shows "i \<in> retired (cm_state c') \<and> i \<notin> participants (cm_state c')"
proof -
  have "history_inv c'" using assms(1,2) history_advance_all history_inv by blast
  then show ?thesis
    using retired_grow_all [OF assms(2)] assms(3) by (auto simp: history_inv_def member_inv_def)
qed

theorem retired_for_ever_witness:
  "\<exists>c. history c \<and> 3 \<in> retired (cm_state c) \<and> 3 \<notin> participants (cm_state c)"
proof -
  from sample_change obtain c d e where c: "history c" "advanced c 5 2 sample_removal = Inr d"
    "advanced d 6 2 (sample_removal\<lparr>phase := PhaseFinal\<rparr>) = Inr e" "retired (cm_state e) = {3}" by blast
  have "history e" using c by (blast intro: history.advance)
  with retired_for_ever [OF this, of "[]" e 3] c(4) show ?thesis by auto
qed

end
