(* ===== verification/Log.thy ===== *)
theory Log
  imports Transitions Extension
begin

text \<open>
  The log as a sequence: contiguous numbering after the snapshot, replay of the configuration
  entries it holds, and a closed form for the two routines that merge a leader's entries,
  \<open>candidate_log\<close> (used to validate) and \<open>merge_entries\<close> (used to store).
\<close>

definition numbered :: "log_index \<Rightarrow> entry list \<Rightarrow> bool" where
  "numbered b lg \<longleftrightarrow> (\<forall>k < length lg. index (lg ! k) = b + k + 1)"

definition conf_events :: "entry list \<Rightarrow> (log_index \<times> raft_term \<times> configuration_entry) list" where
  "conf_events lg = concat (map (\<lambda>e. case command e of Configuration ce \<Rightarrow> [(index e, e_term e, ce)] | _ \<Rightarrow> []) lg)"

text \<open>How many of the leader's entries are already in the log.\<close>

definition agreed :: "log_index \<Rightarrow> entry list \<Rightarrow> log_index \<Rightarrow> entry list \<Rightarrow> nat" where
  "agreed b lg prev es =
     length (takeWhile (\<lambda>(x, e). e_term x = e_term e) (zip (drop (prev - b) lg) es))"

text \<open>The log after accepting \<open>es\<close>: unchanged when they are all there, cut at the first disagreement otherwise.\<close>

definition spliced :: "log_index \<Rightarrow> entry list \<Rightarrow> log_index \<Rightarrow> entry list \<Rightarrow> entry list" where
  "spliced b lg prev es =
     (let k = agreed b lg prev es in if k = length es then lg else take (prev - b + k) lg @ drop k es)"

section \<open>Numbering\<close>

lemma numbered_Nil [simp]: "numbered b []"
  by (simp add: numbered_def)

lemma numbered_Cons: "numbered b (e # lg) \<longleftrightarrow> index e = b + 1 \<and> numbered (b + 1) lg"
  by (auto simp: numbered_def less_Suc_eq_0_disj)

lemma numbered_append: "numbered b (xs @ ys) \<longleftrightarrow> numbered b xs \<and> numbered (b + length xs) ys"
proof (induction xs arbitrary: b)
  case (Cons x xs)
  have "b + 1 + length xs = b + length (x # xs)" by simp
  then show ?case using Cons [of "b + 1"] by (simp add: numbered_Cons)
qed simp

lemma numbered_take: "numbered b lg \<Longrightarrow> numbered b (take k lg)"
  by (simp add: numbered_def)

lemma numbered_drop: "numbered b lg \<Longrightarrow> k \<le> length lg \<Longrightarrow> numbered (b + k) (drop k lg)"
  by (auto simp: numbered_def)

lemma numbered_index: "numbered b lg \<Longrightarrow> e \<in> set lg \<Longrightarrow> b < index e \<and> index e \<le> b + length lg"
  by (auto simp: numbered_def in_set_conv_nth)

lemma numbered_last: "numbered b lg \<Longrightarrow> lg \<noteq> [] \<Longrightarrow> index (last lg) = b + length lg"
  by (auto simp: numbered_def last_conv_nth)

lemma numbered_filter_less: "numbered b lg \<Longrightarrow> filter (\<lambda>e. index e < i) lg = take (i - b - 1) lg"
proof (induction lg arbitrary: b)
  case (Cons e lg)
  have "filter (\<lambda>e. index e < i) lg = []" if "\<not> b + 1 < i"
    using that numbered_index [of "b + 1" lg] Cons.prems by (force simp: numbered_Cons filter_empty_conv)
  with Cons show ?case
    by (cases "i - b - 1") (auto simp: numbered_Cons intro!: arg_cong [where f = "\<lambda>k. take k lg"])
qed simp

lemma numbered_filter_le: "numbered b lg \<Longrightarrow> filter (\<lambda>e. index e \<le> i) lg = take (i - b) lg"
  using numbered_filter_less [of b lg "Suc i"] by (simp add: less_Suc_eq_le)

lemma numbered_filter_greater: "numbered b lg \<Longrightarrow> filter (\<lambda>e. i < index e) lg = drop (i - b) lg"
proof (induction lg arbitrary: b)
  case (Cons e lg)
  have "filter (\<lambda>e. i < index e) lg = lg" if "\<not> b + 1 \<le> i"
    using that numbered_index [of "b + 1" lg] Cons.prems by (force simp: numbered_Cons filter_id_conv)
  with Cons show ?case
    by (cases "i - b") (auto simp: numbered_Cons intro!: arg_cong [where f = "\<lambda>k. drop k lg"])
qed simp

lemma numbered_number_entries: "numbered l (number_entries l t cs)"
  by (induction l t cs rule: number_entries.induct) (auto simp: numbered_Cons)

lemma length_number_entries [simp]: "length (number_entries l t cs) = length cs"
  by (induction l t cs rule: number_entries.induct) auto

section \<open>Replay\<close>

lemma conf_events_simps [simp]:
  "conf_events [] = []" "conf_events (xs @ ys) = conf_events xs @ conf_events ys"
  by (simp_all add: conf_events_def)

lemma replay_eq: "replay c lg i = advance_all c (conf_events (filter (\<lambda>e. index e \<le> i) lg))"
  by (induction c lg i rule: replay.induct)
    (auto simp: conf_events_def rbind_def split: command.splits sum.splits)

lemma replay_numbered: "numbered b lg \<Longrightarrow> replay c lg i = advance_all c (conf_events (take (i - b) lg))"
  by (simp add: replay_eq numbered_filter_le)

lemma conf_events_none: "\<not> list_ex (\<lambda>e. is_configuration (command e)) lg \<Longrightarrow> conf_events lg = []"
  by (induction lg) (auto simp: conf_events_def split: command.splits)

lemma conf_events_index: "(i, t, ce) \<in> set (conf_events lg) \<Longrightarrow> \<exists>e \<in> set lg. index e = i \<and> e_term e = t"
  by (auto simp: conf_events_def split: command.splits)

lemma advance_all_position:
  "advance_all c evs = Inr c' \<Longrightarrow>
     (if evs = [] then c' = c else cm_index c' = fst (last evs) \<and> cm_term c' = fst (snd (last evs)))"
proof (induction c evs rule: advance_all.induct)
  case (2 c i t ce es)
  then obtain d where d: "advanced c i t ce = Inr d" "advance_all d es = Inr c'" by (auto simp: rbind_Inr_iff)
  then have "cm_index d = i \<and> cm_term d = t" by (auto simp: advanced_def rbind_Inr_iff split: if_splits)
  with "2.IH" [OF d(2)] show ?case by (cases "es = []") simp_all
qed simp

lemma advance_all_mono: "advance_all c evs = Inr c' \<Longrightarrow> cm_index c \<le> cm_index c' \<and> cm_term c \<le> cm_term c'"
proof (induction c evs rule: advance_all.induct)
  case (2 c i t ce es)
  then obtain d where d: "advanced c i t ce = Inr d" "advance_all d es = Inr c'" by (auto simp: rbind_Inr_iff)
  then have "cm_index c < cm_index d \<and> cm_term c \<le> cm_term d" by (auto simp: advanced_def rbind_Inr_iff split: if_splits)
  with "2.IH" [OF d(2)] show ?case by simp
qed simp

section \<open>Merging a leader's entries\<close>

lemma candidate_log_tail: "numbered (b + length lg) es \<Longrightarrow> candidate_log b lg es = lg @ es"
proof (induction es arbitrary: lg)
  case (Cons e es)
  then have e: "index e - b - 1 = length lg" and "numbered (b + length (lg @ [e])) es"
    by (auto simp: numbered_Cons)
  with Cons.IH [of "lg @ [e]"] show ?case by (simp add: slice_get_def)
qed simp

lemma spliced_match:
  assumes "prev - b < length lg" and "e_term (lg ! (prev - b)) = e_term e" and "b \<le> prev"
  shows "spliced b lg prev (e # es) = spliced b lg (prev + 1) es"
proof -
  have "drop (prev - b) lg = lg ! (prev - b) # drop (prev + 1 - b) lg"
    using assms(1,3) by (simp add: Cons_nth_drop_Suc Suc_diff_le)
  then have "agreed b lg prev (e # es) = Suc (agreed b lg (prev + 1) es)"
    using assms(2) by (simp add: agreed_def)
  then show ?thesis unfolding spliced_def Let_def using assms(3) by (simp add: Suc_diff_le)
qed

lemma spliced_cut:
  assumes "prev - b < length lg" and "e_term (lg ! (prev - b)) \<noteq> e_term e"
  shows "spliced b lg prev (e # es) = take (prev - b) lg @ e # es"
proof -
  have "drop (prev - b) lg = lg ! (prev - b) # drop (Suc (prev - b)) lg"
    using assms(1) by (simp add: Cons_nth_drop_Suc)
  with assms show ?thesis by (simp add: spliced_def agreed_def Let_def)
qed

lemma spliced_end: "prev - b = length lg \<Longrightarrow> spliced b lg prev es = lg @ es"
  by (simp add: spliced_def agreed_def Let_def)

lemma candidate_log_spliced:
  assumes "numbered b lg" "numbered prev es" "b \<le> prev" "prev \<le> b + length lg"
  shows "candidate_log b lg es = spliced b lg prev es"
  using assms
proof (induction es arbitrary: prev)
  case Nil
  then show ?case by (simp add: spliced_def agreed_def)
next
  case (Cons e es)
  then have e: "index e = prev + 1" and es: "numbered (prev + 1) es" by (simp_all add: numbered_Cons)
  have off: "index e - b - 1 = prev - b" by (simp add: e)
  show ?case
  proof (cases "prev = b + length lg")
    case True
    then show ?thesis using candidate_log_tail [of b lg "e # es"] Cons.prems by (simp add: spliced_end)
  next
    case False
    with Cons.prems have lt: "prev - b < length lg" by simp
    show ?thesis
    proof (cases "e_term (lg ! (prev - b)) = e_term e")
      case True
      with Cons lt es off show ?thesis by (simp add: slice_get_def spliced_match)
    next
      case False
      have "numbered (b + length (take (prev - b) lg @ [e])) es" using es lt Cons.prems by simp
      from candidate_log_tail [OF this] False lt show ?thesis
        unfolding candidate_log.simps off by (simp add: slice_get_def spliced_cut)
    qed
  qed
qed

lemma merge_tail: "numbered prev es \<Longrightarrow> last_log_index n \<le> prev \<Longrightarrow> merge_entries n tf app es = (n, tf, app @ es)"
proof (induction es arbitrary: prev app)
  case (Cons e es)
  then show ?case using Cons.IH [of "prev + 1" "app @ [e]"] by (simp add: numbered_Cons)
qed simp

lemma last_log_index_numbered: "numbered (snapshot_index n) (log n) \<Longrightarrow> last_log_index n = snapshot_index n + length (log n)"
  by (simp add: last_log_index_def numbered_last)

lemma term_at_entry:
  "snapshot_index n < i \<Longrightarrow> i \<le> snapshot_index n + length (log n) \<Longrightarrow> term_at n i = e_term (log n ! (i - snapshot_index n - 1))"
  by (simp add: term_at_def log_term_def entry_at_eq)

lemma merge_spliced:
  assumes "numbered (snapshot_index n) (log n)" "numbered prev es" "snapshot_index n \<le> prev" "prev \<le> last_log_index n"
  shows "\<exists>k tf app. merge_entries n None [] es = (n\<lparr>log := take k (log n)\<rparr>, tf, app) \<and>
    spliced (snapshot_index n) (log n) prev es = take k (log n) @ app \<and>
    take k (log n) = (case tf of None \<Rightarrow> log n | Some f \<Rightarrow> filter (\<lambda>e. index e < f) (log n)) \<and>
    (tf \<noteq> None \<longrightarrow> app \<noteq> [])"
  using assms
proof (induction es arbitrary: prev)
  case Nil
  then show ?case by (intro exI [of _ "length (log n)"] exI [of _ None]) (simp add: spliced_def agreed_def)
next
  case (Cons e es)
  let ?b = "snapshot_index n"
  from Cons.prems have e: "index e = prev + 1" and es: "numbered (prev + 1) es" by (simp_all add: numbered_Cons)
  note len = last_log_index_numbered [OF Cons.prems(1)]
  show ?case
  proof (cases "prev = last_log_index n")
    case True
    then have "merge_entries n None [] (e # es) = (n, None, e # es)"
      using merge_tail [OF Cons.prems(2), of n None "[]"] by simp
    with True len show ?thesis
      by (intro exI [of _ "length (log n)"] exI [of _ None]) (simp add: spliced_end)
  next
    case False
    with Cons.prems len have lt: "prev - ?b < length (log n)" and le: "prev + 1 \<le> last_log_index n" by auto
    have t: "term_at n (index e) = e_term (log n ! (prev - ?b))"
      using term_at_entry [of n "prev + 1"] Cons.prems(3) lt by (simp add: e)
    show ?thesis
    proof (cases "e_term (log n ! (prev - ?b)) = e_term e")
      case True
      have "merge_entries n None [] (e # es) = merge_entries n None [] es"
        using le True unfolding merge_entries.simps t by (simp add: e)
      then show ?thesis
        using Cons.IH [OF Cons.prems(1) es _ le] Cons.prems(3) spliced_match [OF lt True Cons.prems(3)] by simp
    next
      case False
      let ?n = "n\<lparr>log := take (prev - ?b) (log n)\<rparr>"
      have off: "index e - ?b - 1 = prev - ?b" by (simp add: e)
      have "numbered (snapshot_index ?n) (log ?n)" using Cons.prems(1) by (simp add: numbered_take snapshot_index_def)
      from last_log_index_numbered [OF this] have "last_log_index ?n \<le> prev + 1"
        using Cons.prems(3) lt by (simp add: snapshot_index_def)
      from merge_tail [OF es this, of "Some (index e)" "[e]"]
      have "merge_entries n None [] (e # es) = (?n, Some (index e), e # es)"
        using le False unfolding merge_entries.simps off t by (simp add: e)
      moreover have "filter (\<lambda>x. index x < index e) (log n) = take (prev - ?b) (log n)"
        using numbered_filter_less [OF Cons.prems(1), of "index e"] unfolding off by simp
      ultimately show ?thesis
        using spliced_cut [OF lt False, of es]
        by (intro exI [of _ "prev - ?b"] exI [of _ "Some (index e)"] exI [of _ "e # es"]) simp
    qed
  qed
qed

lemma store_entries_spliced:
  assumes "numbered (snapshot_index n) (log n)" "numbered prev es" "snapshot_index n \<le> prev" "prev \<le> last_log_index n"
  shows "\<exists>ef. store_entries es n = Some (n\<lparr>log := spliced (snapshot_index n) (log n) prev es\<rparr>, ef) \<and>
    (ef = [] \<and> spliced (snapshot_index n) (log n) prev es = log n \<or>
     (\<exists>tf app. ef = [PersistLogEntries tf app] \<and> spliced (snapshot_index n) (log n) prev es =
        (case tf of None \<Rightarrow> log n | Some f \<Rightarrow> filter (\<lambda>e. index e < f) (log n)) @ app))"
proof -
  obtain k tf app where m: "merge_entries n None [] es = (n\<lparr>log := take k (log n)\<rparr>, tf, app)"
    and s: "spliced (snapshot_index n) (log n) prev es = take k (log n) @ app"
    and t: "take k (log n) = (case tf of None \<Rightarrow> log n | Some f \<Rightarrow> filter (\<lambda>e. index e < f) (log n))"
    and a: "tf \<noteq> None \<longrightarrow> app \<noteq> []"
    using merge_spliced [OF assms] by blast
  show ?thesis
  proof (cases "app = []")
    case True
    with a t have "take k (log n) = log n" by (cases tf) auto
    with True m s show ?thesis by (simp add: store_entries_def)
  next
    case False
    then have "store_entries es n = Some (n\<lparr>log := take k (log n) @ app\<rparr>, [PersistLogEntries tf app])"
      by (simp add: store_entries_def m run_Cons run.simps(1) act_seq_def act_defs)
    with s t show ?thesis by auto
  qed
qed

section \<open>What merging keeps\<close>

lemma spliced_induct [case_names Nil Beyond Match Cut]:
  assumes "numbered prev es" "b \<le> prev" "prev \<le> b + length lg"
    and nil: "\<And>prev. b \<le> prev \<Longrightarrow> prev \<le> b + length lg \<Longrightarrow> Q prev [] lg"
    and beyond: "\<And>es :: entry list. numbered (b + length lg) es \<Longrightarrow> Q (b + length lg) es (lg @ es)"
    and match: "\<And>prev e es. b \<le> prev \<Longrightarrow> prev < b + length lg \<Longrightarrow> index e = prev + 1 \<Longrightarrow> numbered (prev + 1) es \<Longrightarrow>
      e_term (lg ! (prev - b)) = e_term e \<Longrightarrow> Q (prev + 1) es (spliced b lg (prev + 1) es) \<Longrightarrow>
      Q prev (e # es) (spliced b lg (prev + 1) es)"
    and cut: "\<And>prev e es. b \<le> prev \<Longrightarrow> prev < b + length lg \<Longrightarrow> index e = prev + 1 \<Longrightarrow> numbered (prev + 1) es \<Longrightarrow>
      e_term (lg ! (prev - b)) \<noteq> e_term e \<Longrightarrow> Q prev (e # es) (take (prev - b) lg @ e # es)"
  shows "Q prev es (spliced b lg prev es)"
  using assms(1-3)
proof (induction es arbitrary: prev)
  case Nil
  then show ?case using nil by (simp add: spliced_def agreed_def)
next
  case (Cons e es)
  then have e: "index e = prev + 1" "numbered (prev + 1) es" by (simp_all add: numbered_Cons)
  show ?case
  proof (cases "prev = b + length lg")
    case True
    then show ?thesis using beyond [of "e # es"] Cons.prems(1) by (simp add: spliced_end)
  next
    case False
    with Cons.prems have lt: "prev < b + length lg" "prev - b < length lg" by auto
    show ?thesis
    proof (cases "e_term (lg ! (prev - b)) = e_term e")
      case True
      have "Q (prev + 1) es (spliced b lg (prev + 1) es)" using Cons.IH [OF e(2)] Cons.prems lt by simp
      with match [OF Cons.prems(2) lt(1) e True] show ?thesis
        unfolding spliced_match [OF lt(2) True Cons.prems(2)] by simp
    next
      case False
      show ?thesis unfolding spliced_cut [OF lt(2) False] by (rule cut [OF Cons.prems(2) lt(1) e False])
    qed
  qed
qed

lemma sorted_join:
  assumes "sorted xs" "xs \<noteq> []" "sorted (last xs # ys)"
  shows "sorted (xs @ (ys :: nat list))"
proof -
  have "x \<le> y" if "x \<in> set xs" "y \<in> set ys" for x y
  proof -
    have "sorted (butlast xs @ [last xs])" "x \<in> set (butlast xs @ [last xs])" using assms(1,2) that(1) by simp_all
    then have "x \<le> last xs" by (auto simp: sorted_append)
    also have "last xs \<le> y" using assms(3) that(2) by simp
    finally show ?thesis .
  qed
  with assms show ?thesis by (simp add: sorted_append)
qed

lemma numbered_spliced:
  assumes "numbered b lg" "numbered prev es" "b \<le> prev" "prev \<le> b + length lg"
  shows "numbered b (spliced b lg prev es) \<and> prev + length es \<le> b + length (spliced b lg prev es) \<and>
    b + length (spliced b lg prev es) \<le> max (b + length lg) (prev + length es)"
  using assms(2-4)
proof (rule spliced_induct)
  fix prev and e :: entry and es :: "entry list"
  assume "b \<le> prev" "prev < b + length lg" "index e = prev + 1" "numbered (prev + 1) es"
  then show "numbered b (take (prev - b) lg @ e # es) \<and> prev + length (e # es) \<le> b + length (take (prev - b) lg @ e # es) \<and>
      b + length (take (prev - b) lg @ e # es) \<le> max (b + length lg) (prev + length (e # es))"
    using assms(1) by (simp add: numbered_append numbered_take numbered_Cons)
qed (use assms(1) in \<open>auto simp: numbered_append\<close>)

lemma spliced_keeps:
  assumes "numbered b lg" "numbered prev es" "b \<le> prev" "prev \<le> b + length lg" "c \<le> b + length lg"
    and "\<forall>e \<in> set es. index e \<le> c \<longrightarrow> index e \<le> b + length lg \<and> e_term (lg ! (index e - b - 1)) = e_term e"
  shows "take (c - b) (spliced b lg prev es) = take (c - b) lg"
proof -
  have "(\<forall>e \<in> set es. index e \<le> c \<longrightarrow> index e \<le> b + length lg \<and> e_term (lg ! (index e - b - 1)) = e_term e) \<longrightarrow>
      take (c - b) (spliced b lg prev es) = take (c - b) lg"
    using assms(2-4)
  proof (rule spliced_induct)
    fix es show "(\<forall>e \<in> set es. index e \<le> c \<longrightarrow> index e \<le> b + length lg \<and> e_term (lg ! (index e - b - 1)) = e_term e) \<longrightarrow>
      take (c - b) (lg @ es) = take (c - b) lg"
      using assms(5) by simp
  next
    fix prev and e :: entry and es :: "entry list"
    assume "b \<le> prev" "prev < b + length lg" and e: "index e = prev + 1" and "e_term (lg ! (prev - b)) \<noteq> e_term e"
    moreover have "index e - b - 1 = prev - b" using e by simp
    ultimately have "c \<le> prev" if "index e \<le> c \<longrightarrow> e_term (lg ! (index e - b - 1)) = e_term e"
      using that unfolding \<open>index e - b - 1 = prev - b\<close> by simp
    then show "(\<forall>x \<in> set (e # es). index x \<le> c \<longrightarrow> index x \<le> b + length lg \<and> e_term (lg ! (index x - b - 1)) = e_term x) \<longrightarrow>
      take (c - b) (take (prev - b) lg @ e # es) = take (c - b) lg"
      using \<open>prev < b + length lg\<close> by (auto simp: min_def)
  qed auto
  with assms(6) show ?thesis by blast
qed

lemma spliced_sorted:
  assumes "numbered prev es" "b \<le> prev" "prev \<le> b + length lg"
    and lg: "sorted (t # map e_term lg @ [ct])"
    and es: "sorted ((t # map e_term lg) ! (prev - b) # map e_term es @ [ct])"
  shows "sorted (t # map e_term (spliced b lg prev es) @ [ct])"
proof -
  have "sorted ((t # map e_term lg) ! (prev - b) # map e_term es @ [ct]) \<longrightarrow>
      sorted (t # map e_term (spliced b lg prev es) @ [ct])"
    using assms(1-3)
  proof (rule spliced_induct)
    fix es :: "entry list"
    show "sorted ((t # map e_term lg) ! (b + length lg - b) # map e_term es @ [ct]) \<longrightarrow>
        sorted (t # map e_term (lg @ es) @ [ct])"
    proof
      assume *: "sorted ((t # map e_term lg) ! (b + length lg - b) # map e_term es @ [ct])"
      have "sorted (t # map e_term lg)" using lg by (simp add: sorted_append)
      moreover have "last (t # map e_term lg) = (t # map e_term lg) ! length lg" by (simp add: last_conv_nth)
      ultimately have "sorted ((t # map e_term lg) @ map e_term es @ [ct])" using * by (intro sorted_join) auto
      then show "sorted (t # map e_term (lg @ es) @ [ct])" by simp
    qed
  next
    fix prev and e :: entry and es :: "entry list"
    assume "b \<le> prev" and lt: "prev < b + length lg" and m: "e_term (lg ! (prev - b)) = e_term e"
      and ih: "sorted ((t # map e_term lg) ! (prev + 1 - b) # map e_term es @ [ct]) \<longrightarrow>
        sorted (t # map e_term (spliced b lg (prev + 1) es) @ [ct])"
    then have "(t # map e_term lg) ! (prev + 1 - b) = e_term e" by (simp add: Suc_diff_le)
    with ih show "sorted ((t # map e_term lg) ! (prev - b) # map e_term (e # es) @ [ct]) \<longrightarrow>
        sorted (t # map e_term (spliced b lg (prev + 1) es) @ [ct])" by simp
  next
    fix prev and e :: entry and es :: "entry list"
    assume "b \<le> prev" and lt: "prev < b + length lg"
    show "sorted ((t # map e_term lg) ! (prev - b) # map e_term (e # es) @ [ct]) \<longrightarrow>
        sorted (t # map e_term (take (prev - b) lg @ e # es) @ [ct])"
    proof
      let ?l = "t # map e_term lg" and ?k = "prev - b"
      assume *: "sorted (?l ! ?k # map e_term (e # es) @ [ct])"
      have srt: "sorted ?l" and k: "?k < length ?l" using lg lt \<open>b \<le> prev\<close> by (auto simp: sorted_append)
      have "sorted (take (Suc ?k) ?l)" using srt by (rule sorted_wrt_take)
      moreover have "last (take (Suc ?k) ?l) = ?l ! ?k" using k by (simp add: take_Suc_conv_app_nth del: take_Suc_Cons)
      moreover have "t # map e_term (take ?k lg) = take (Suc ?k) ?l" by (simp add: take_map)
      ultimately have "sorted ((t # map e_term (take ?k lg)) @ map e_term (e # es) @ [ct])"
        using * by (intro sorted_join) auto
      then show "sorted (t # map e_term (take (prev - b) lg @ e # es) @ [ct])" by simp
    qed
  qed (use lg in simp)
  with es show ?thesis by blast
qed

lemma validate_entries_numbered:
  "validate_entries mt prev off pt es \<Longrightarrow> numbered (prev + off) es \<and> sorted (pt # map e_term es @ [mt])" if "pt \<le> mt"
  using that
proof (induction mt prev off pt es rule: validate_entries.induct)
  case (2 mt prev off pt e es)
  have *: "index e = prev + off + 1" "pt \<le> e_term e" "e_term e \<le> mt" "validate_entries mt prev (off + 1) (e_term e) es"
    using "2.prems"(1) by (auto simp: bind_eq_Some_conv checked_add_def split: option.splits if_splits)
  have "numbered (prev + (off + 1)) es \<and> sorted (e_term e # map e_term es @ [mt])"
    by (rule "2.IH" [OF _ _ *(4,3)]) (use "2.prems" in \<open>auto split: option.splits if_splits\<close>)
  with * show ?case by (auto simp: numbered_Cons intro: order_trans)
qed simp

lemma validate_append_numbered:
  assumes "validate_append_entries mt prev pt es = Some pl"
  shows "numbered prev es" "sorted (pt # map e_term es @ [mt])" "pl = prev + length es" "pl \<le> u64_max"
  using assms validate_entries_numbered [of pt mt prev 0 es]
  by (auto simp: validate_append_entries_def split: if_splits option.splits)

end
