(* ===== verification/Sound.thy ===== *)
theory Sound
  imports Log
begin

text \<open>
  The invariant of one node, and what every transition does to it.  \<open>sound\<close> says that the log is
  contiguous and its terms nondecreasing, that snapshot, applied, committed and last positions are
  ordered, and that the configuration in force is exactly what the log replays to.  \<open>advances\<close> is
  the relation every step of a sound node satisfies: it stays sound, committed entries are never
  lost, a leader only appends, every newly committed entry is applied once and in order, and a disk
  that executes the pushed writes holds what the node holds.  It is an instance of the protocol
  contract whose panic condition is \<open>\<not> sound\<close>, so a sound node never panics.
\<close>

section \<open>The durable image\<close>

record disk =
  disk_hard :: hard_state
  disk_log :: "entry list"
  disk_snapshot :: "snapshot_descriptor option"

fun persist :: "effect \<Rightarrow> disk \<Rightarrow> disk" where
  "persist (PersistHardState h) d = d\<lparr>disk_hard := h\<rparr>"
| "persist (PersistLogEntries tf es) d =
     d\<lparr>disk_log := (case tf of None \<Rightarrow> disk_log d | Some f \<Rightarrow> filter (\<lambda>e. index e < f) (disk_log d)) @ es\<rparr>"
| "persist (PublishSnapshot _ img kept) d = d\<lparr>disk_log := kept, disk_snapshot := Some img\<rparr>"
| "persist _ d = d"

definition persist_all :: "effect list \<Rightarrow> disk \<Rightarrow> disk" where
  "persist_all es d = fold persist es d"

text \<open>The disk holds what the node holds; a node that must still refresh its hard state may differ there.\<close>

definition durable :: "raft_node \<Rightarrow> disk \<Rightarrow> bool" where
  "durable n d \<longleftrightarrow> disk_log d = log n \<and> disk_snapshot d = snapshot n \<and> (recovery_refresh_hard n \<or> disk_hard d = hard n)"

section \<open>The invariant\<close>

definition shaped :: "raft_node \<Rightarrow> bool" where
  "shaped n \<longleftrightarrow> numbered (snapshot_index n) (log n) \<and> sorted (snapshot_term n # map e_term (log n) @ [term_of n]) \<and>
     last_log_index n \<le> u64_max"

definition placed :: "raft_node \<Rightarrow> bool" where
  "placed n \<longleftrightarrow> snapshot_index n \<le> last_applied n \<and> last_applied n \<le> commit_index n \<and> commit_index n \<le> last_log_index n"

text \<open>The snapshot and the genesis the node builds on are genuine and belong to one group.\<close>

definition authentic :: "snapshot_descriptor option \<Rightarrow> committed_membership \<Rightarrow> bool" where
  "authentic img genesis \<longleftrightarrow>
     cm_bootstrap_with_group (group_id (cm_state genesis)) (genesis_voters (cm_state genesis)) = Inr genesis \<and>
     (case img of
        None \<Rightarrow> True
      | Some d \<Rightarrow> is_ok (descriptor_validate d) \<and>
          (case sm_membership (metadata d) of
             None \<Rightarrow> members (metadata d) = genesis_voters (cm_state genesis)
           | Some c \<Rightarrow> group_id (cm_state c) = group_id (cm_state genesis) \<and>
               genesis_voters (cm_state c) = genesis_voters (cm_state genesis)))"

definition configured :: "raft_node \<Rightarrow> bool" where
  "configured n \<longleftrightarrow>
     replay (membership_base n) (log n) (commit_index n) = Inr (committed_membership n) \<and>
     (\<exists>full. replay (membership_base n) (log n) u64_max = Inr full \<and> effective_membership n = cm_state full)"

definition office :: "raft_node \<Rightarrow> bool" where
  "office n \<longleftrightarrow> (is_leader n \<or> is_candidate n \<longrightarrow> 0 < term_of n)"

definition sound :: "raft_node \<Rightarrow> bool" where
  "sound n \<longleftrightarrow> shaped n \<and> placed n \<and> authentic (snapshot n) (genesis_membership n) \<and> configured n \<and>
     publishing_snapshot n = None \<and> office n"

text \<open>The log was changed or the commit position moved, and the configuration in force is not refreshed yet.\<close>

definition primed :: "raft_node \<Rightarrow> bool" where
  "primed n \<longleftrightarrow> shaped n \<and> placed n \<and> authentic (snapshot n) (genesis_membership n) \<and>
     replay (membership_base n) (log n) (commit_index n) = Inr (committed_membership n) \<and>
     is_ok (replay (membership_base n) (log n) u64_max) \<and> publishing_snapshot n = None \<and> office n"

section \<open>What a step does\<close>

definition grows :: "raft_node \<Rightarrow> raft_node \<Rightarrow> bool" where
  "grows n n' \<longleftrightarrow>
     self_id n' = self_id n \<and> snapshot n' = snapshot n \<and> genesis_membership n' = genesis_membership n \<and>
     term_of n \<le> term_of n' \<and> commit_index n \<le> commit_index n' \<and> last_applied n \<le> last_applied n' \<and>
     take (commit_index n - snapshot_index n) (log n') = take (commit_index n - snapshot_index n) (log n)"

definition leads_on :: "raft_node \<Rightarrow> raft_node \<Rightarrow> bool" where
  "leads_on n n' \<longleftrightarrow> term_of n' = term_of n \<longrightarrow>
     (is_leader n' \<longrightarrow> is_leader n \<or> is_candidate n) \<and> (is_candidate n' \<longrightarrow> is_candidate n) \<and>
     (is_leader n \<longrightarrow> is_leader n' \<longrightarrow> (\<exists>s. log n' = log n @ s \<and> (\<forall>e \<in> set s. e_term e = term_of n)))"

fun applied_entry :: "effect \<Rightarrow> entry list" where
  "applied_entry (Apply e) = [e]"
| "applied_entry _ = []"

definition applies :: "effect list \<Rightarrow> entry list" where
  "applies es = concat (map applied_entry es)"

definition log_slice :: "raft_node \<Rightarrow> log_index \<Rightarrow> log_index \<Rightarrow> entry list" where
  "log_slice n i j = drop (i - snapshot_index n) (take (j - snapshot_index n) (log n))"

definition moves :: "raft_node \<Rightarrow> raft_node \<Rightarrow> effect list \<Rightarrow> bool" where
  "moves n n' es \<longleftrightarrow> grows n n' \<and> leads_on n n' \<and> applies es = log_slice n' (last_applied n) (last_applied n') \<and>
     (\<forall>d. durable n d \<longrightarrow> durable n' (persist_all es d))"

definition advances :: "raft_node \<Rightarrow> raft_node \<Rightarrow> effect list \<Rightarrow> bool" where
  "advances n n' es \<longleftrightarrow> (sound n \<longrightarrow> sound n' \<and> moves n n' es)"

section \<open>Frames\<close>

lemma persist_all_simps [simp]: "persist_all [] d = d" "persist_all (e # es) d = persist_all es (persist e d)" "persist_all (es @ es') d = persist_all es' (persist_all es d)"
  by (simp_all add: persist_all_def)

lemma applies_simps [simp]: "applies [] = []" "applies (e # es) = applied_entry e @ applies es" "applies (es @ es') = applies es @ applies es'"
  by (simp_all add: applies_def)

lemma quiet_writes: "list_all quiet_effect es \<Longrightarrow> persist_all es d = d \<and> applies es = []"
proof (induction es arbitrary: d)
  case (Cons e es)
  then show ?case by (cases e) auto
qed simp

lemma harmless_writes: "list_all harmless_effect es \<Longrightarrow> persist_all es d = d \<and> applies es = []"
proof (induction es arbitrary: d)
  case (Cons e es)
  then show ?case by (cases e) auto
qed simp

lemma membership_base_eq: "snapshot n' = snapshot n \<Longrightarrow> genesis_membership n' = genesis_membership n \<Longrightarrow> membership_base n' = membership_base n"
  by (simp add: membership_base_def split: option.split)

lemma snapshot_reads: "snapshot n' = snapshot n \<Longrightarrow> snapshot_index n' = snapshot_index n \<and> snapshot_term n' = snapshot_term n"
  by (simp add: snapshot_index_def snapshot_term_def)

lemma sound_last: "sound n \<Longrightarrow> last_log_index n = snapshot_index n + length (log n)"
  by (simp add: sound_def shaped_def last_log_index_numbered)

text \<open>A transition that changes the term, the vote, the role or the applied position only.\<close>

lemma sound_frame_applied:
  assumes "sound n" and same: "snapshot n' = snapshot n" "genesis_membership n' = genesis_membership n" "log n' = log n"
      "commit_index n' = commit_index n" "effective_membership n' = effective_membership n"
      "publishing_snapshot n' = publishing_snapshot n" "membership (hard n') = membership (hard n)"
    and up: "term_of n \<le> term_of n'" and "office n'" and "last_applied n \<le> last_applied n'" "last_applied n' \<le> commit_index n"
  shows "sound n'"
proof -
  note eqs = same snapshot_reads [OF same(1)] membership_base_eq [OF same(1,2)]
  have "committed_membership n' = committed_membership n" by (simp add: committed_membership_def same split: option.split)
  moreover have "last_log_index n' = last_log_index n" by (simp add: last_log_index_def eqs)
  moreover have "x \<le> term_of n'" if "x \<le> term_of n" for x using that up by simp
  ultimately show ?thesis
    using assms(1,10-) by (auto simp: sound_def shaped_def placed_def configured_def eqs sorted_append)
qed

lemma sound_frame:
  assumes "sound n" and same: "snapshot n' = snapshot n" "genesis_membership n' = genesis_membership n" "log n' = log n"
      "commit_index n' = commit_index n" "effective_membership n' = effective_membership n"
      "publishing_snapshot n' = publishing_snapshot n" "membership (hard n') = membership (hard n)"
    and up: "term_of n \<le> term_of n'" and "office n'" and "last_applied n' = last_applied n"
  shows "sound n'"
  using assms by (intro sound_frame_applied [OF assms(1)]) (auto simp: sound_def placed_def)

lemma durable_frame:
  assumes "durable n d" "snapshot n' = snapshot n" "log n' = log n" "hard n' = hard n"
    "recovery_refresh_hard n' = recovery_refresh_hard n"
  shows "durable n' d"
  using assms by (simp add: durable_def)

lemma advances_quiet: "quiet n n' es \<Longrightarrow> advances n n' es"
proof -
  assume q: "quiet n n' es"
  note f = quiet_fields [OF q]
  have "office n'" if "office n"
    using q that f(2) by (auto simp: office_def quiet_def is_candidate_def)
  moreover have "list_all quiet_effect es" using q by (simp add: quiet_def)
  moreover have "(is_leader n' \<longrightarrow> is_leader n) \<and> (is_candidate n' \<longrightarrow> is_candidate n)"
    using q by (auto simp: quiet_def is_candidate_def)
  ultimately show ?thesis
    unfolding advances_def moves_def
    using sound_frame [of n n'] durable_frame [of n _ n'] quiet_writes [of es]
    by (auto simp: f grows_def leads_on_def log_slice_def sound_def)
qed

lemma log_slice_join:
  assumes "i \<le> j" "j \<le> k" "snapshot_index n \<le> i" "snapshot_index n' = snapshot_index n"
    and "take (j - snapshot_index n) (log n') = take (j - snapshot_index n) (log n)"
  shows "log_slice n i j @ log_slice n' j k = log_slice n' i k"
proof -
  let ?s = "snapshot_index n"
  have "take (k - ?s) (log n') = take (j - ?s) (log n') @ drop (j - ?s) (take (k - ?s) (log n'))"
  proof -
    have "take (j - ?s) (log n') = take (j - ?s) (take (k - ?s) (log n'))" using assms(2) by (simp add: min_def)
    then show ?thesis by (metis append_take_drop_id)
  qed
  then have "drop (i - ?s) (take (k - ?s) (log n')) =
      drop (i - ?s) (take (j - ?s) (log n')) @ drop (i - ?s - length (take (j - ?s) (log n'))) (drop (j - ?s) (take (k - ?s) (log n')))"
    by (metis drop_append)
  moreover have "drop (i - ?s - length (take (j - ?s) (log n'))) (drop (j - ?s) (take (k - ?s) (log n'))) =
      drop (j - ?s) (take (k - ?s) (log n'))"
    using assms(1,3) by (cases "j - ?s \<le> length (log n')") auto
  ultimately show ?thesis using assms(4,5) by (simp add: log_slice_def)
qed

lemma moves_append:
  assumes 1: "moves n t es" and 2: "moves t u es'" and n: "placed n" and t: "placed t"
  shows "moves n u (es @ es')"
proof -
  from 1 have a: "grows n t" "leads_on n t" "applies es = log_slice t (last_applied n) (last_applied t)"
    "\<And>d. durable n d \<Longrightarrow> durable t (persist_all es d)" by (simp_all add: moves_def)
  from 2 have b: "grows t u" "leads_on t u" "applies es' = log_slice u (last_applied t) (last_applied u)"
    "\<And>d. durable t d \<Longrightarrow> durable u (persist_all es' d)" by (simp_all add: moves_def)
  have snaps: "snapshot_index t = snapshot_index n" "snapshot_index u = snapshot_index n"
    using a(1) b(1) by (simp_all add: grows_def snapshot_index_def)
  have short: "take i (log u) = take i (log t)" if "i \<le> commit_index t - snapshot_index n" for i
  proof -
    have "take i (take (commit_index t - snapshot_index n) (log u)) = take i (take (commit_index t - snapshot_index n) (log t))"
      using b(1) snaps(1) by (simp add: grows_def)
    with that show ?thesis by (simp add: min_absorb1)
  qed
  have "take (commit_index n - snapshot_index n) (log u) = take (commit_index n - snapshot_index n) (log n)"
    using short [OF diff_le_mono, of "commit_index n"] a(1) by (simp add: grows_def)
  with a(1) b(1) have g: "grows n u" by (simp add: grows_def)
  have l: "leads_on n u"
  proof -
    have "term_of t = term_of n" if "term_of u = term_of n" using a(1) b(1) that by (simp add: grows_def)
    with a(2) b(2) show ?thesis unfolding leads_on_def by (auto simp: is_leader_def is_candidate_def split: role.splits)
  qed
  have "log_slice t (last_applied n) (last_applied t) @ log_slice u (last_applied t) (last_applied u) =
      log_slice u (last_applied n) (last_applied u)"
    using a(1) b(1) n t snaps by (intro log_slice_join short) (auto simp: grows_def placed_def intro!: short)
  with a b g l show ?thesis by (simp add: moves_def)
qed

interpretation advances: effect_relation advances "\<lambda>n. \<not> sound n"
proof unfold_locales
  show "advances n n []" for n by (rule advances_quiet) (simp add: quiet_def)
  show "advances n u (es @ es')" if "advances n t es" "advances t u es'" for n t u es es'
    using that moves_append [of n t es u es'] by (auto simp: advances_def sound_def)
qed (simp add: advances_def)

section \<open>Replaying a sound log\<close>

lemma replay_bounded:
  assumes "numbered b lg" "b + length lg \<le> i"
  shows "replay c lg i = advance_all c (conf_events lg)"
  using assms by (simp add: replay_numbered)

lemma effective_after_numbered:
  assumes "numbered b lg" "b + length lg \<le> u64_max" "b \<le> i"
  shows "effective_after c lg i = rbind (advance_all c (conf_events (drop (i - b) lg))) (\<lambda>c'. Inr (cm_state c'))"
proof -
  have "\<forall>e \<in> set lg. index e \<le> u64_max" using assms(1,2) numbered_index by fastforce
  then have "filter (\<lambda>e. index e \<le> u64_max) (drop (i - b) lg) = drop (i - b) lg"
    by (meson filter_True in_set_dropD)
  then show ?thesis
    by (simp add: effective_after_def replay_eq numbered_filter_greater [OF assms(1)] del: filter_filter)
qed

lemma conf_events_split:
  "advance_all c (conf_events lg) = rbind (advance_all c (conf_events (take k lg))) (\<lambda>c'. advance_all c' (conf_events (drop k lg)))"
  unfolding advance_all_append [symmetric] conf_events_simps(2) [symmetric] append_take_drop_id ..

lemma sound_primed: "sound n \<Longrightarrow> primed n"
  by (auto simp: sound_def primed_def configured_def)

lemma primed_facts:
  assumes "primed n"
  shows "numbered (snapshot_index n) (log n)" "snapshot_index n + length (log n) \<le> u64_max"
    "sorted (snapshot_term n # map e_term (log n) @ [term_of n])"
    "snapshot_index n \<le> last_applied n" "last_applied n \<le> commit_index n" "commit_index n \<le> snapshot_index n + length (log n)"
    "last_log_index n = snapshot_index n + length (log n)" "placed n"
    "is_ok (advance_all (membership_base n) (conf_events (log n)))"
  using assms last_log_index_numbered [of n] by (auto simp: primed_def shaped_def placed_def replay_bounded)

lemmas sound_facts = primed_facts [OF sound_primed]

lemma primed_membership_at:
  assumes "primed n" "snapshot_index n \<le> i"
  shows "\<exists>c. membership_at n i = Inr c \<and>
    advance_all (membership_base n) (conf_events (take (i - snapshot_index n) (log n))) = Inr c"
proof -
  note f = primed_facts [OF assms(1)]
  from f(9) obtain full where "advance_all (membership_base n) (conf_events (log n)) = Inr full" by (auto simp: is_ok_iff)
  then have "\<exists>c. advance_all (membership_base n) (conf_events (take (i - snapshot_index n) (log n))) = Inr c"
    unfolding conf_events_split [of "membership_base n" "log n" "i - snapshot_index n"] rbind_Inr_iff by blast
  with assms(2) f(1) show ?thesis by (auto simp: membership_at_def replay_numbered)
qed

lemma unreplayable_unprimed: "unreplayable n \<Longrightarrow> \<not> primed n"
  using primed_membership_at [of n "last_log_index n"] primed_facts(7) [of n] by (auto simp: unreplayable_def)

text \<open>Refreshing a primed node succeeds and makes it sound.\<close>

lemma primed_effective:
  assumes "primed n"
  shows "effective_after (committed_membership n) (log n) (commit_index n) =
    rbind (replay (membership_base n) (log n) u64_max) (\<lambda>c. Inr (cm_state c))"
proof -
  note f = primed_facts [OF assms]
  let ?k = "commit_index n - snapshot_index n"
  have "advance_all (membership_base n) (conf_events (take ?k (log n))) = Inr (committed_membership n)"
    using assms f(1) by (simp add: primed_def replay_numbered)
  then show ?thesis
    using f conf_events_split [of "membership_base n" "log n" ?k]
    by (simp add: replay_bounded effective_after_numbered)
qed

lemma refreshed_quiet_frame: "refreshed n n' es \<Longrightarrow> is_leader n' \<longrightarrow> is_leader n" "refreshed n n' es \<Longrightarrow> is_candidate n' \<longrightarrow> is_candidate n"
  using refreshed_fields(11,12) [of n n' es] by (auto simp: is_candidate_def)

lemma refreshed_sound:
  assumes "primed n" and rf: "refreshed n n' es"
  shows "sound n'"
proof -
  from assms obtain full where full: "replay (membership_base n) (log n) u64_max = Inr full"
    by (auto simp: primed_def is_ok_iff)
  then have eff: "effective_after (committed_membership n) (log n) (commit_index n) = Inr (cm_state full)"
    using primed_effective [OF assms(1)] by simp
  note f = refreshed_fields [OF rf]
  have base: "membership_base n' = membership_base n" "committed_membership n' = committed_membership n"
    "snapshot_index n' = snapshot_index n" "snapshot_term n' = snapshot_term n" "last_log_index n' = last_log_index n"
    using f by (simp_all add: membership_base_def committed_membership_def snapshot_index_def snapshot_term_def last_log_index_def
        split: option.split)
  have "effective_membership n' = cm_state full" using rf eff by (simp add: refreshed_def)
  moreover have "office n'" using assms f(2) refreshed_quiet_frame [OF rf] by (auto simp: primed_def office_def)
  ultimately show ?thesis
    using assms(1) full unfolding sound_def primed_def shaped_def placed_def configured_def base f by simp
qed

lemma refresh_total: "primed n \<Longrightarrow> refresh_effective_membership n \<noteq> None"
proof
  assume "primed n" and "refresh_effective_membership n = None"
  then have "\<not> is_ok (effective_after (committed_membership n) (log n) (commit_index n))"
    using refresh_None [of n] by (simp add: unrefreshable_def)
  with \<open>primed n\<close> primed_effective [of n] show False by (auto simp: primed_def is_ok_iff)
qed

lemma refreshed_moves:
  assumes "refreshed n n' es"
  shows "moves n n' es"
  using refreshed_fields [OF assms] refreshed_quiet_frame [OF assms] quiet_writes [of es]
  by (auto simp: moves_def grows_def leads_on_def log_slice_def durable_def)

lemma refresh_primed:
  assumes "primed n"
  shows "\<exists>n' es. refresh_effective_membership n = Some (n', es) \<and> sound n' \<and> moves n n' es"
  using refresh_total [OF assms] refreshed_sound [OF assms] refresh_refreshed refreshed_moves by fastforce

section \<open>Committing\<close>

lemma to_apply_slice:
  assumes "snapshot_index n \<le> last_applied n" "commit_index n \<le> snapshot_index n + length (log n)"
  shows "to_apply n = log_slice n (last_applied n) (commit_index n)"
proof (rule nth_equalityI)
  show "length (to_apply n) = length (log_slice n (last_applied n) (commit_index n))"
    using assms by (simp add: to_apply_def log_slice_def del: upt_Suc)
next
  fix k assume "k < length (to_apply n)"
  then have k: "k < commit_index n - last_applied n" by (simp add: to_apply_def del: upt_Suc)
  then have "to_apply n ! k = the (entry_at n (last_applied n + 1 + k))" by (simp add: to_apply_def del: upt_Suc)
  also have "\<dots> = log n ! (last_applied n + 1 + k - snapshot_index n - 1)" using assms k by (simp add: entry_at_eq)
  also have "last_applied n + 1 + k - snapshot_index n - 1 = last_applied n - snapshot_index n + k" using assms(1) by simp
  finally show "to_apply n ! k = log_slice n (last_applied n) (commit_index n) ! k"
    using assms k by (simp add: log_slice_def)
qed

lemma applicable_placed:
  "snapshot_index n \<le> last_applied n \<Longrightarrow> commit_index n \<le> snapshot_index n + length (log n) \<Longrightarrow> applicable n"
  by (auto simp: applicable_def entry_at_eq)

definition committing :: "log_index \<Rightarrow> committed_membership \<Rightarrow> raft_node \<Rightarrow> raft_node" where
  "committing i nxt n =
     n\<lparr>hard := (if nxt = committed_membership n then hard n else (hard n)\<lparr>membership := Some nxt\<rparr>), commit_index := i\<rparr>"

lemma primed_committing:
  assumes "primed n" "commit_index n < i" "i \<le> last_log_index n" "membership_at n i = Inr nxt"
  shows "primed (committing i nxt n)"
proof -
  let ?n = "committing i nxt n"
  have base: "snapshot_index ?n = snapshot_index n" "snapshot_term ?n = snapshot_term n"
    "last_log_index ?n = last_log_index n" "log ?n = log n" "term_of ?n = term_of n" "commit_index ?n = i"
    "last_applied ?n = last_applied n" "snapshot ?n = snapshot n" "genesis_membership ?n = genesis_membership n"
    "publishing_snapshot ?n = publishing_snapshot n" "is_leader ?n = is_leader n" "is_candidate ?n = is_candidate n"
    by (simp_all add: committing_def snapshot_index_def snapshot_term_def last_log_index_def is_leader_def is_candidate_def)
  moreover have "membership_base ?n = membership_base n" by (rule membership_base_eq) (simp_all add: base)
  moreover have "committed_membership ?n = nxt" by (simp add: committing_def committed_membership_def split: option.splits)
  ultimately show ?thesis
    using assms primed_facts(4,5) [OF assms(1)]
    unfolding primed_def shaped_def placed_def office_def by (auto simp: membership_at_def split: if_splits)
qed

lemma advance_commit_total:
  assumes "primed n" "commit_index n < i" "i \<le> last_log_index n"
  shows "advance_commit i n \<noteq> None"
proof -
  note f = primed_facts [OF assms(1)]
  obtain nxt where nxt: "membership_at n i = Inr nxt" using primed_membership_at [OF assms(1), of i] assms(2) f by auto
  let ?n0 = "committing i nxt n"
  obtain n1 qs where r: "refresh_effective_membership ?n0 = Some (n1, qs)"
    using refresh_total [OF primed_committing [OF assms nxt]] by fastforce
  note rf = refreshed_fields [OF refresh_refreshed [OF r]]
  have "applicable n1"
    using f assms(2,3) rf by (intro applicable_placed) (auto simp: snapshot_index_def committing_def)
  then have "apply_committed n1 \<noteq> None" by (simp add: apply_committed_eq)
  with r nxt assms(2) show ?thesis
    by (cases "nxt = committed_membership n")
      (auto simp: advance_commit_def Let_def committing_def run_append run_modify run_Cons_None_iff run.simps(1)
        run_Nil_Some_iff skip_def push_def)
qed

lemma primed_commit:
  assumes "primed n" "commit_index n < i" "i \<le> last_log_index n"
  shows "\<exists>n' es. advance_commit i n = Some (n', es) \<and> sound n' \<and> moves n n' es"
proof -
  note f = primed_facts [OF assms(1)]
  obtain n' es where c: "advance_commit i n = Some (n', es)" using advance_commit_total [OF assms] by fastforce
  then obtain nxt where nxt: "membership_at n i = Inr nxt" and ct: "committed_to i nxt n n' es"
    using advance_commit_Some assms(2) by blast
  let ?n0 = "committing i nxt n"
  from ct obtain n1 qs where rf: "refreshed ?n0 n1 qs" and n': "n' = n1\<lparr>last_applied := max (last_applied n) i\<rparr>"
    and es: "es = (if nxt = committed_membership n then [] else [PersistHardState (hard ?n0)]) @ qs @
      map Apply (to_apply ?n0) @ (if nxt = committed_membership n then [] else [MembershipChanged nxt])"
    by (auto simp: committed_to_def Let_def committing_def)
  have s1: "sound n1" by (rule refreshed_sound [OF primed_committing [OF assms nxt] rf])
  note rff = refreshed_fields [OF rf]
  have la: "max (last_applied n) i = i" using f(5) assms(2) by simp
  have "sound n'"
    using s1 rff(4,5) f(5) assms(2) unfolding n' la
    by (intro sound_frame_applied [OF s1])
      (auto simp: committing_def sound_def office_def is_leader_def is_candidate_def)
  moreover have "moves n n' es"
  proof -
    note fields = committed_to_fields [OF ct]
    have snap: "snapshot_index n' = snapshot_index n" "snapshot_index ?n0 = snapshot_index n"
      using fields(3) by (simp_all add: snapshot_index_def committing_def)
    have "to_apply ?n0 = log_slice ?n0 (last_applied ?n0) (commit_index ?n0)"
      using f assms(3) snap(2) by (intro to_apply_slice) (simp_all add: committing_def)
    then have "to_apply ?n0 = log_slice n' (last_applied n) i"
      using fields(2) snap by (simp add: log_slice_def committing_def)
    moreover have "applies (map Apply xs) = xs" for xs by (induction xs) simp_all
    moreover have "persist_all (map Apply xs) d = d" for xs d by (induction xs) simp_all
    moreover have q: "persist_all qs d = d \<and> applies qs = []" for d using quiet_writes rff(13) by simp
    moreover have "leads_on n n'"
      using fields(2,9,10) by (auto simp: leads_on_def is_candidate_def)
    moreover have "hard ?n0 = hard n'" using rff(2) n' by (simp add: committing_def)
    ultimately show ?thesis
      using fields f(5) assms(2) la
      by (auto simp: moves_def grows_def es snap durable_def)
  qed
  ultimately show ?thesis using c by blast
qed

lemma hint_always: "append_conflict_hint n prev \<noteq> None"
proof (cases "log_term n prev")
  case (Some t)
  show ?thesis
  proof (cases "prev = snapshot_index n")
    case False
    with Some obtain e where e: "entry_at n prev = Some e" "e_term e = t" by (auto simp: log_term_def)
    then have "e \<in> set (log n)" by (auto simp: entry_at_eq split: if_splits)
    then have "takeWhile (\<lambda>x. e_term x < t) (log n) \<noteq> log n" using e(2) by (metis less_irrefl set_takeWhileD)
    then have "partition_point (\<lambda>x. e_term x < t) (log n) < length (log n)"
      unfolding partition_point_def by (metis length_takeWhile_le le_neq_implies_less takeWhile_eq_take take_all_iff order_refl)
    with Some show ?thesis by (auto simp: append_conflict_hint_def Let_def slice_get_def)
  qed (use Some in \<open>auto simp: append_conflict_hint_def Let_def log_term_def\<close>)
qed (auto simp: append_conflict_hint_def Let_def split: option.splits)

section \<open>The configuration history of a sound node\<close>

lemma bootstrap_zero: "cm_bootstrap_with_group g vs = Inr c \<Longrightarrow> cm_index c = 0 \<and> cm_term c = 0 \<and> group_id (cm_state c) = g \<and> genesis_voters (cm_state c) = vs"
  by (auto simp: cm_bootstrap_with_group_def bootstrap_with_group_def rbind_Inr_iff)

lemma descriptor_membership:
  assumes "is_ok (descriptor_validate d)" "sm_membership (metadata d) = Some c"
  shows "history c" "cm_index c \<le> last_included_index (metadata d)" "cm_term c \<le> last_included_term (metadata d)"
  using assms
  by (auto simp: descriptor_validate_def metadata_validate_def is_ok_iff rbind_Inr_iff cm_validate_iff [symmetric] not_less split: if_splits)

lemma primed_base:
  assumes "primed n"
  shows "history (membership_base n)" "cm_index (membership_base n) \<le> snapshot_index n"
    "cm_term (membership_base n) \<le> snapshot_term n"
proof -
  have a: "authentic (snapshot n) (genesis_membership n)" using assms by (simp add: primed_def)
  then have g: "history (genesis_membership n)" "cm_index (genesis_membership n) = 0" "cm_term (genesis_membership n) = 0"
    using bootstrap_zero by (auto simp: authentic_def intro: history.boot)
  show "history (membership_base n)" "cm_index (membership_base n) \<le> snapshot_index n"
    "cm_term (membership_base n) \<le> snapshot_term n"
    using a g descriptor_membership
    by (auto simp: membership_base_def authentic_def snapshot_index_def snapshot_term_def split: option.splits)
qed

lemma replayed_position:
  assumes "numbered b lg" "sorted (t # map e_term lg @ [ct])" "cm_index c \<le> b" "cm_term c \<le> t"
    and "advance_all c (conf_events lg) = Inr c'"
  shows "cm_index c' \<le> b + length lg" "cm_term c' \<le> ct"
proof -
  have "cm_index c' \<le> b + length lg \<and> cm_term c' \<le> ct"
  proof (cases "conf_events lg = []")
    case True
    with assms show ?thesis by (auto simp: sorted_append)
  next
    case False
    obtain i t' ce where l: "last (conf_events lg) = (i, t', ce)" by (metis prod_cases3)
    with False have "(i, t', ce) \<in> set (conf_events lg)" by (metis last_in_set)
    then obtain e where e: "e \<in> set lg" "index e = i" "e_term e = t'" using conf_events_index by blast
    have "cm_index c' = i \<and> cm_term c' = t'" using advance_all_position [OF assms(5)] False l by simp
    with e numbered_index [OF assms(1) e(1)] assms(2) show ?thesis by (auto simp: sorted_append)
  qed
  then show "cm_index c' \<le> b + length lg" "cm_term c' \<le> ct" by simp_all
qed

lemma sound_committed:
  assumes "sound n"
  shows "history (committed_membership n)" "cm_index (committed_membership n) \<le> commit_index n"
    "cm_term (committed_membership n) \<le> term_of n"
proof -
  note p = sound_primed [OF assms]
  note f = primed_facts [OF p]
  let ?k = "commit_index n - snapshot_index n"
  have r: "advance_all (membership_base n) (conf_events (take ?k (log n))) = Inr (committed_membership n)"
    using p f(1) by (simp add: primed_def replay_numbered)
  then show "history (committed_membership n)" using primed_base(1) [OF p] history_advance_all by blast
  have "map e_term (log n) = map e_term (take ?k (log n)) @ map e_term (drop ?k (log n))"
    unfolding map_append [symmetric] append_take_drop_id ..
  then have srt: "sorted (snapshot_term n # map e_term (take ?k (log n)) @ [term_of n])"
    using f(3) by (simp add: sorted_append)
  show "cm_index (committed_membership n) \<le> commit_index n" "cm_term (committed_membership n) \<le> term_of n"
    using replayed_position [OF numbered_take [OF f(1)] srt primed_base(2,3) [OF p] r] f(4-6) by simp_all
qed

lemma recorded_request_ids: "history c \<Longrightarrow> (rid, r) \<in> set (records (cm_state c)) \<Longrightarrow> is_ok (validate_request_id rid)"
proof (induction arbitrary: rid r rule: history.induct)
  case (boot g vs c)
  then show ?case by (auto simp: cm_bootstrap_with_group_def bootstrap_with_group_def rbind_Inr_iff)
next
  case (advance c i t ce c')
  from advance(2) obtain m where m: "apply_entry (cm_state c) i t ce = Inr m" "cm_state c' = m"
    by (auto simp: advanced_def rbind_Inr_iff split: if_splits)
  have "is_ok (validate_request_id (request_id ce))"
    using m(1) by (auto simp: apply_entry_def rbind_Inr_iff is_ok_iff split: if_splits)
  moreover have "fst ` set (records m) \<subseteq> insert (request_id ce) (fst ` set (records (cm_state c)))"
    using m(1) set_bt_insert_keys [of "request_id ce" _ "records (cm_state c)"]
    by (cases rule: apply_entry_cases) auto
  ultimately show ?case using advance(3,4) m(2) by (metis (no_types, lifting) fst_conv imageE imageI insertE subsetD surjective_pairing)
qed

lemma advanced_ok:
  assumes h: "history c" and pos: "cm_index c < i" "i < u64_max" "cm_term c \<le> t" "0 < t"
    and req: "first_phase (cm_state c) (request_id ce) (ce_operation ce) = Inr (phase ce) \<or>
      phase ce = PhaseFinal \<and> (\<exists>r. pending (cm_state c) = Some (request_id ce, r) \<and> operation r = ce_operation ce)"
  shows "is_ok (advanced c i t ce)"
proof -
  have inv: "history_inv c" using h by (rule history_inv)
  have "is_ok (apply_entry (cm_state c) i t ce)"
    using req
  proof (elim disjE conjE exE)
    assume first: "first_phase (cm_state c) (request_id ce) (ce_operation ce) = Inr (phase ce)"
    then have "is_ok (validate_request_id (request_id ce))" "phase ce \<noteq> PhaseFinal"
      using first_phase_Inr(6) by (auto simp: first_phase_def rbind_Inr_iff is_ok_iff)
    with first pos show ?thesis
      by (cases "ce_operation ce")
        (auto simp: apply_entry_def apply_first_def Let_def target_voters_def first_phase_def rbind_Inr_iff is_ok_iff
          split: option.splits if_splits)
  next
    fix r assume fin: "phase ce = PhaseFinal" "pending (cm_state c) = Some (request_id ce, r)" "operation r = ce_operation ce"
    have "is_ok (validate_request_id (request_id ce))"
      using recorded_request_ids [OF h] pending_Some(1) [OF fin(2)] by blast
    moreover have "first_index r \<le> cm_index c" "first_term r \<le> cm_term c"
      using inv pending_Some(1) [OF fin(2)] by (force simp: history_inv_def record_placed_def)+
    moreover have "is_joint (voters (cm_state c))"
      using inv pending_None [of "cm_state c"] fin(2) by (auto simp: history_inv_def member_inv_def split: if_splits)
    ultimately show ?thesis
      using fin pos by (auto simp: apply_entry_def apply_final_def is_ok_iff is_joint_def split: voter_config.splits)
  qed
  with pos show ?thesis by (auto simp: advanced_def is_ok_iff)
qed

section \<open>Appending\<close>

lemma grown_reads:
  assumes "sound n" and same: "snapshot n' = snapshot n" "genesis_membership n' = genesis_membership n" "hard n' = hard n"
    and log: "log n' = log n @ ents" and num: "numbered (last_log_index n) ents"
  shows "snapshot_index n' = snapshot_index n" "snapshot_term n' = snapshot_term n" "membership_base n' = membership_base n"
    "committed_membership n' = committed_membership n" "numbered (snapshot_index n) (log n @ ents)"
    "last_log_index n' = last_log_index n + length ents"
proof -
  show s: "snapshot_index n' = snapshot_index n" "snapshot_term n' = snapshot_term n" using snapshot_reads [OF same(1)] by simp_all
  show "membership_base n' = membership_base n" by (rule membership_base_eq [OF same(1,2)])
  show "committed_membership n' = committed_membership n"
    by (simp add: committed_membership_def same split: option.split)
  show nm: "numbered (snapshot_index n) (log n @ ents)"
    using sound_facts(1) [OF assms(1)] num sound_last [OF assms(1)] by (simp add: numbered_append)
  show "last_log_index n' = last_log_index n + length ents"
    using last_log_index_numbered [of n'] nm sound_last [OF assms(1)] by (simp add: s log)
qed

lemma sorted_grown:
  assumes "sorted (t # map e_term lg @ [ct])" and "\<forall>e \<in> set ents. e_term e = ct"
  shows "sorted (t # map e_term (lg @ ents) @ [ct])"
proof -
  have "sorted (map e_term ents)" using assms(2) by (induction ents) auto
  with assms show ?thesis by (auto simp: sorted_append)
qed

lemma primed_grown:
  assumes n: "sound n" and same: "snapshot n' = snapshot n" "genesis_membership n' = genesis_membership n" "hard n' = hard n"
      "commit_index n' = commit_index n" "last_applied n' = last_applied n" "publishing_snapshot n' = publishing_snapshot n"
    and log: "log n' = log n @ ents" and num: "numbered (last_log_index n) ents" "last_log_index n + length ents \<le> u64_max"
    and terms: "\<forall>e \<in> set ents. e_term e = term_of n" and "office n'"
    and conf: "\<And>full. advance_all (membership_base n) (conf_events (log n)) = Inr full \<Longrightarrow> is_ok (advance_all full (conf_events ents))"
  shows "primed n'"
proof -
  note r = grown_reads [OF n same(1-3) log num(1)]
  note f = sound_facts [OF n]
  obtain full where full: "advance_all (membership_base n) (conf_events (log n)) = Inr full"
    using primed_facts(9) [OF sound_primed [OF n]] by (auto simp: is_ok_iff)
  have "shaped n'" unfolding shaped_def r log same using r(5) sorted_grown [OF f(3) terms] num(2) by simp
  moreover have "placed n'" using n unfolding placed_def r same by (auto simp: sound_def placed_def)
  moreover have "replay (membership_base n') (log n') (commit_index n') = Inr (committed_membership n')"
    using n f sound_last [OF n] unfolding r log same
    by (simp add: replay_numbered [OF r(5)] sound_def configured_def replay_numbered [OF f(1)])
  moreover have "is_ok (replay (membership_base n') (log n') u64_max)"
    using conf [OF full] full r(5) num(2) sound_last [OF n] unfolding r log
    by (auto simp: replay_bounded [OF r(5)] advance_all_append is_ok_iff)
  ultimately show ?thesis using n assms(12) same by (simp add: primed_def sound_def)
qed

lemma sound_grown:
  assumes n: "sound n" and same: "snapshot n' = snapshot n" "genesis_membership n' = genesis_membership n" "hard n' = hard n"
      "commit_index n' = commit_index n" "last_applied n' = last_applied n" "publishing_snapshot n' = publishing_snapshot n"
      "effective_membership n' = effective_membership n"
    and log: "log n' = log n @ ents" and num: "numbered (last_log_index n) ents" "last_log_index n + length ents \<le> u64_max"
    and terms: "\<forall>e \<in> set ents. e_term e = term_of n" and "office n'" and none: "conf_events ents = []"
  shows "sound n'"
proof -
  note r = grown_reads [OF n same(1-3) log num(1)]
  have p: "primed n'" by (rule primed_grown [OF n same(1-6) log num terms assms(13)]) (simp add: none)
  have "replay (membership_base n') (log n') u64_max = replay (membership_base n) (log n) u64_max"
    using r(5) num(2) sound_last [OF n] sound_facts(1) [OF n] none unfolding r log by (simp add: replay_bounded)
  with p n same(7) show ?thesis by (auto simp: primed_def sound_def configured_def)
qed

lemma grown_moves:
  assumes n: "sound n" and same: "self_id n' = self_id n" "snapshot n' = snapshot n" "genesis_membership n' = genesis_membership n"
      "hard n' = hard n" "commit_index n' = commit_index n" "last_applied n' = last_applied n"
      "recovery_refresh_hard n' = recovery_refresh_hard n"
    and log: "log n' = log n @ ents" and terms: "\<forall>e \<in> set ents. e_term e = term_of n"
    and lead: "is_leader n' \<longrightarrow> is_leader n \<or> is_candidate n" "is_candidate n' \<longrightarrow> is_candidate n"
  shows "moves n n' [PersistLogEntries None ents]"
  using assms sound_facts(6) [OF n] sound_last [OF n]
  by (auto simp: moves_def grows_def leads_on_def log_slice_def durable_def)

lemma number_entries_terms: "\<forall>e \<in> set (number_entries l t cs). e_term e = t"
  by (induction l t cs rule: number_entries.induct) auto

lemma number_entries_conf: "\<not> list_ex is_configuration cs \<Longrightarrow> conf_events (number_entries l t cs) = []"
proof (induction l t cs rule: number_entries.induct)
  case (2 l t c cs)
  then show ?case by (cases c) (auto simp: conf_events_def)
qed simp

text \<open>Appending a configuration entry and refreshing.\<close>

lemma configure_advances:
  assumes lead: "is_leader n" and room: "last_log_index n + 1 < u64_max"
    and free: "\<not> list_ex (\<lambda>e. index e > commit_index n \<and> is_configuration (command e)) (log n)"
    and req: "first_phase (cm_state (committed_membership n)) (request_id ce) (ce_operation ce) = Inr (phase ce) \<or>
      phase ce = PhaseFinal \<and> (\<exists>r. pending (cm_state (committed_membership n)) = Some (request_id ce, r) \<and>
        operation r = ce_operation ce)"
    and e: "e = \<lparr>index = last_log_index n + 1, e_term = term_of n, command = Configuration ce\<rparr>"
  shows "keeps advances (\<lambda>n. \<not> sound n) n (run [modify (\<lambda>n. n\<lparr>log := log n @ [e]\<rparr>), push (PersistLogEntries None [e]),
    refresh_effective_membership] n)"
proof (cases "sound n")
  case False
  then show ?thesis by (auto simp: keeps_def advances_def split: option.splits)
next
  case n: True
  note f = sound_facts [OF n]
  let ?n = "n\<lparr>log := log n @ [e]\<rparr>" and ?k = "commit_index n - snapshot_index n"
  have full: "advance_all (membership_base n) (conf_events (log n)) = Inr (committed_membership n)"
  proof -
    have "conf_events (drop ?k (log n)) = []"
      using free numbered_filter_greater [OF f(1), of "commit_index n"]
      by (intro conf_events_none) (force simp: list_ex_iff dest: arg_cong [where f = set])
    moreover have "advance_all (membership_base n) (conf_events (take ?k (log n))) = Inr (committed_membership n)"
      using n f(1) by (simp add: sound_def configured_def replay_numbered)
    ultimately show ?thesis using conf_events_split [of "membership_base n" "log n" ?k] by simp
  qed
  have "0 < term_of n" using n lead by (simp add: sound_def office_def)
  then have "is_ok (advanced (committed_membership n) (last_log_index n + 1) (term_of n) ce)"
    using sound_committed [OF n] f(6,7) room req by (intro advanced_ok) auto
  then have conf: "is_ok (advance_all (committed_membership n) (conf_events [e]))"
    by (auto simp: conf_events_def e is_ok_iff)
  have p: "primed ?n"
    by (rule primed_grown [OF n, where ents = "[e]"])
      (use n room conf full in \<open>auto simp: e numbered_Cons sound_def office_def is_leader_def is_candidate_def\<close>)
  have m: "moves n ?n [PersistLogEntries None [e]]"
    by (rule grown_moves [OF n, where ents = "[e]"]) (auto simp: e is_leader_def is_candidate_def)
  obtain n' es where r: "refresh_effective_membership ?n = Some (n', es)" "sound n'" "moves ?n n' es"
    using refresh_primed [OF p] by blast
  have "moves n n' ([PersistLogEntries None [e]] @ es)"
    using m r(3) n primed_facts(8) [OF p] by (intro moves_append) (auto simp: sound_def)
  with r show ?thesis by (simp add: run_modify run_Cons run.simps(1) act_seq_def push_def modify_def advances_def)
qed

section \<open>Following a leader\<close>

lemma log_term_nth:
  assumes "log_term n prev = Some t" "snapshot_index n \<le> prev"
  shows "prev \<le> snapshot_index n + length (log n)" "(snapshot_term n # map e_term (log n)) ! (prev - snapshot_index n) = t"
  using assms by (auto simp: log_term_def entry_at_eq nth_Cons' split: if_splits)

lemma primed_spliced:
  assumes n: "sound n" and v: "validate_append_entries (term_of n) prev pt es = Some pl"
    and prev: "snapshot_index n \<le> prev" "log_term n prev = Some pt"
    and kept: "\<not> list_ex (\<lambda>e. index e \<le> commit_index n \<and> log_term n (index e) \<noteq> Some (e_term e)) es"
    and conf: "valid_configuration_suffix n (candidate_log (snapshot_index n) (log n) es)"
    and lg: "lg = spliced (snapshot_index n) (log n) prev es"
  shows "primed (n\<lparr>log := lg\<rparr>)" "pl \<le> last_log_index (n\<lparr>log := lg\<rparr>)"
    "take (commit_index n - snapshot_index n) lg = take (commit_index n - snapshot_index n) (log n)"
proof -
  let ?b = "snapshot_index n" and ?n = "n\<lparr>log := lg\<rparr>"
  note f = sound_facts [OF n]
  note es = validate_append_numbered [OF v] and at = log_term_nth [OF prev(2,1)]
  note num = numbered_spliced [OF f(1) es(1) prev(1) at(1), folded lg]
  have "e_term (log n ! (index e - ?b - 1)) = e_term e \<and> index e \<le> ?b + length (log n)"
    if "e \<in> set es" "index e \<le> commit_index n" for e
  proof -
    have "log_term n (index e) = Some (e_term e)" using kept that by (auto simp: list_ex_iff)
    moreover have "?b < index e" using numbered_index [OF es(1) that(1)] prev(1) by simp
    ultimately show ?thesis by (auto simp: log_term_def entry_at_eq split: if_splits)
  qed
  then show keep: "take (commit_index n - ?b) lg = take (commit_index n - ?b) (log n)"
    using f(6) unfolding lg by (intro spliced_keeps [OF f(1) es(1) prev(1) at(1)]) auto
  have reads: "snapshot_index ?n = ?b" "snapshot_term ?n = snapshot_term n" by (simp_all add: snapshot_index_def snapshot_term_def)
  have base: "membership_base ?n = membership_base n" by (rule membership_base_eq) simp_all
  have cm: "committed_membership ?n = committed_membership n" by (simp add: committed_membership_def split: option.split)
  have len: "last_log_index ?n = ?b + length lg" using last_log_index_numbered [of ?n] num by (simp add: reads)
  then show "pl \<le> last_log_index ?n" using num es(3) by simp
  have "last_log_index ?n \<le> u64_max" using num len f(2) es(3,4) by auto
  moreover have "sorted (snapshot_term n # map e_term lg @ [term_of n])"
    unfolding lg using es(2) at(2) by (intro spliced_sorted [OF es(1) prev(1) at(1) f(3)]) simp
  ultimately have "shaped ?n" using num by (simp add: shaped_def reads)
  moreover have "placed ?n"
  proof -
    have "commit_index n \<le> ?b + length lg"
      using arg_cong [OF keep, of length] f(4-6) by (simp add: min_def split: if_splits)
    then show ?thesis using f(4,5) by (simp add: placed_def reads len)
  qed
  moreover have "replay (membership_base ?n) (log ?n) (commit_index ?n) = Inr (committed_membership ?n)"
    using n num keep unfolding base cm by (simp add: sound_def configured_def replay_numbered [OF f(1)] replay_numbered [of ?b lg])
  moreover have "is_ok (replay (membership_base ?n) (log ?n) u64_max)"
    using conf candidate_log_spliced [OF f(1) es(1) prev(1) at(1)] unfolding base by (simp add: valid_configuration_suffix_def lg)
  ultimately show "primed ?n"
    using n by (simp add: primed_def sound_def office_def is_leader_def is_candidate_def)
qed

lemma stored_moves:
  assumes n: "sound n" and fol: "role n = Follower"
    and keep: "take (commit_index n - snapshot_index n) lg = take (commit_index n - snapshot_index n) (log n)"
    and ef: "ef = [] \<and> lg = log n \<or> (\<exists>tf app. ef = [PersistLogEntries tf app] \<and>
      lg = (case tf of None \<Rightarrow> log n | Some f \<Rightarrow> filter (\<lambda>e. index e < f) (log n)) @ app)"
  shows "moves n (n\<lparr>log := lg\<rparr>) ef"
proof -
  have "durable (n\<lparr>log := lg\<rparr>) (persist_all ef d)" if "durable n d" for d
    using ef
  proof (elim disjE conjE exE)
    fix tf app assume "ef = [PersistLogEntries tf app]" "lg = (case tf of None \<Rightarrow> log n | Some f \<Rightarrow> filter (\<lambda>e. index e < f) (log n)) @ app"
    with that show ?thesis by (simp add: durable_def split: option.split)
  qed (use that in \<open>simp add: durable_def\<close>)
  moreover have "applies ef = []" using ef by auto
  moreover have "snapshot_index (n\<lparr>log := lg\<rparr>) = snapshot_index n" by (simp add: snapshot_index_def)
  ultimately show ?thesis
    using fol keep by (simp add: moves_def grows_def leads_on_def log_slice_def is_leader_def is_candidate_def)
qed

lemma follow_advances:
  assumes fol: "role n = Follower" and v: "validate_append_entries (term_of n) prev pt es = Some pl"
    and prev: "snapshot_index n \<le> prev" "log_term n prev = Some pt"
    and kept: "\<not> list_ex (\<lambda>e. index e \<le> commit_index n \<and> log_term n (index e) \<noteq> Some (e_term e)) es"
    and conf: "valid_configuration_suffix n (candidate_log (snapshot_index n) (log n) es)"
  shows "keeps advances (\<lambda>n. \<not> sound n) n (run [store_entries es,
      (\<lambda>n. let new_commit = min lc pl in if new_commit > commit_index n then advance_commit new_commit n
        else refresh_effective_membership n),
      append_reply ldr True pl round None] n)"
proof (cases "sound n")
  case False
  then show ?thesis by (auto simp: keeps_def advances_def split: option.splits)
next
  case n: True
  let ?lg = "spliced (snapshot_index n) (log n) prev es" and ?n = "n\<lparr>log := spliced (snapshot_index n) (log n) prev es\<rparr>"
  note p = primed_spliced [OF n v prev kept conf refl]
  have "prev \<le> last_log_index n" using log_term_nth(1) [OF prev(2,1)] sound_last [OF n] by simp
  then obtain ef where st: "store_entries es n = Some (?n, ef)" and ef: "ef = [] \<and> ?lg = log n \<or>
      (\<exists>tf app. ef = [PersistLogEntries tf app] \<and> ?lg = (case tf of None \<Rightarrow> log n | Some f \<Rightarrow> filter (\<lambda>e. index e < f) (log n)) @ app)"
    using store_entries_spliced [OF sound_facts(1) [OF n] validate_append_numbered(1) [OF v] prev(1)] by blast
  have m: "moves n ?n ef" by (rule stored_moves [OF n fol p(3) ef])
  let ?next = "\<lambda>n. let new_commit = min lc pl in if new_commit > commit_index n then advance_commit new_commit n
        else refresh_effective_membership n"
  obtain n' es' where nx: "?next ?n = Some (n', es')" "sound n'" "moves ?n n' es'"
  proof (cases "commit_index ?n < min lc pl")
    case True
    have "min lc pl \<le> last_log_index ?n" using p(2) by simp
    from primed_commit [OF p(1) True this] True that show thesis by (auto simp: Let_def)
  next
    case False
    with refresh_primed [OF p(1)] that show thesis by (auto simp: Let_def)
  qed
  have "moves n n' (ef @ es')" using m nx(3) n primed_facts(8) [OF p(1)] by (intro moves_append) (auto simp: sound_def)
  moreover have "run [store_entries es, ?next, append_reply ldr True pl round None] n =
      Some (n', ef @ es' @ [Send ldr (AppendEntriesReply (term_of n') True pl round None)])"
    using st nx(1) by (simp add: run_Cons run.simps(1) act_seq_def append_reply_def push_def)
  ultimately show ?thesis using nx(2) by (simp add: advances_def moves_def)
qed

section \<open>Every step advances\<close>

lemma advances_vacuous: "\<not> sound n \<Longrightarrow> keeps advances (\<lambda>n. \<not> sound n) n m"
  by (auto simp: keeps_def advances_def split: option.splits)

lemma advances_hard:
  assumes same: "self_id n' = self_id n" "snapshot n' = snapshot n" "genesis_membership n' = genesis_membership n" "log n' = log n"
      "commit_index n' = commit_index n" "last_applied n' = last_applied n" "effective_membership n' = effective_membership n"
      "publishing_snapshot n' = publishing_snapshot n" "recovery_refresh_hard n' = recovery_refresh_hard n"
    and h: "hard n' = h" "membership h = membership (hard n)" "term_of n \<le> current_term h"
    and office: "office n \<Longrightarrow> office n'"
    and lead: "current_term h = term_of n \<Longrightarrow> (is_leader n' \<longrightarrow> is_leader n) \<and> (is_candidate n' \<longrightarrow> is_candidate n)"
    and es: "list_all quiet_effect es"
  shows "advances n n' (PersistHardState h # es)"
  unfolding advances_def
proof (intro impI conjI)
  assume n: "sound n"
  show "sound n'" using n same h office by (intro sound_frame [OF n]) (auto simp: sound_def)
  show "moves n n' (PersistHardState h # es)"
    using same h lead quiet_writes [OF es] by (auto simp: moves_def grows_def leads_on_def log_slice_def durable_def)
qed

lemma candidate_commit: "quorum_commit_candidate n = Some i \<Longrightarrow> sound n \<Longrightarrow> commit_index n < i \<and> i \<le> last_log_index n"
proof -
  assume "quorum_commit_candidate n = Some i" and n: "sound n"
  then obtain e where "e \<in> set (log n)" "index e = i" "commit_index n < i"
    by (auto simp: quorum_commit_candidate_def Let_def find_Some_iff split: role.splits) (metis length_rev nth_mem set_rev)
  with numbered_index [OF sound_facts(1) [OF n]] sound_last [OF n] show ?thesis by auto
qed

lemma advance_commit_advances: "(sound n \<Longrightarrow> i \<le> last_log_index n) \<Longrightarrow> keeps advances (\<lambda>n. \<not> sound n) n (advance_commit i n)"
proof (cases "sound n \<and> commit_index n < i")
  case True
  moreover assume "sound n \<Longrightarrow> i \<le> last_log_index n"
  ultimately show ?thesis using primed_commit [OF sound_primed, of n i] by (auto simp: advances_def)
next
  case False
  then show ?thesis using advances_vacuous advances.keeps_skip [of n] by (auto simp: advance_commit_def)
qed

lemma recover_advances: "recovery_pending n \<Longrightarrow> keeps advances (\<lambda>n. \<not> sound n) n (on_recover n)"
proof (cases "sound n")
  case n: True
  assume pending: "recovery_pending n"
  note f = sound_facts [OF n]
  let ?n = "n\<lparr>recovery_pending := False, recovery_refresh_hard := False, last_applied := max (last_applied n) (commit_index n)\<rparr>"
  have "applicable (n\<lparr>recovery_pending := a, recovery_refresh_hard := b\<rparr>)" "applicable (n\<lparr>recovery_pending := a\<rparr>)" for a b
    using f(4,6) by (auto intro!: applicable_placed simp: snapshot_index_def)
  then have "on_recover n \<noteq> None"
    using pending by (auto simp: on_recover_def run_modify run_append run_Cons_None_iff run.simps(1) skip_def push_def
        run_Cons_Some_iff run_Nil_Some_iff apply_committed_eq)
  then obtain n' es where r: "on_recover n = Some (n', es)" by fastforce
  have n': "n' = ?n" and es: "es = (if recovery_refresh_hard n then [PersistHardState (hard n)] else []) @ map Apply (to_apply n)"
    using on_recover_Some [OF r pending] by simp_all
  have la: "max (last_applied n) (commit_index n) = commit_index n" using f(5) by simp
  have "sound n'" unfolding n' la using n f(5)
    by (intro sound_frame_applied [OF n]) (auto simp: sound_def office_def is_leader_def is_candidate_def)
  moreover have "moves n n' es"
  proof -
    have "applies (map Apply xs) = xs" "persist_all (map Apply xs) d = d" for xs d by (induction xs) simp_all
    moreover have "to_apply n = log_slice n' (last_applied n) (commit_index n)"
      using to_apply_slice [of n] f by (simp add: n' log_slice_def snapshot_index_def)
    ultimately show ?thesis
      using f(5) unfolding es
      by (auto simp: moves_def grows_def leads_on_def durable_def n' is_leader_def is_candidate_def)
  qed
  ultimately show ?thesis using r by (simp add: advances_def)
qed (simp add: advances_vacuous)

lemma lead_sound:
  assumes n: "sound n" and role: "role n = Candidate v" and room: "last_log_index n + 1 < u64_max"
    and noop: "noop = \<lparr>index = last_log_index n + 1, e_term = term_of n, command = NoOp\<rparr>"
    and n1: "n1 = (install_leader (last_log_index n + 1) n)\<lparr>log := log n @ [noop]\<rparr>"
  shows "sound n1" "moves n n1 [PersistLogEntries None [noop]]"
proof -
  have cand: "is_candidate n" using role by (simp add: is_candidate_def)
  then have t: "0 < term_of n" using n by (simp add: sound_def office_def)
  show "sound n1"
    by (rule sound_grown [OF n, where ents = "[noop]"])
      (use room t in \<open>auto simp: n1 noop install_leader_def numbered_Cons office_def conf_events_def\<close>)
  show "moves n n1 [PersistLogEntries None [noop]]"
    by (rule grown_moves [OF n, where ents = "[noop]"])
      (use cand in \<open>auto simp: n1 noop install_leader_def\<close>)
qed

lemma silent_persists: "advance_commit i n = Some (n', cs) \<Longrightarrow>
    persist_all (filter is_persist_hard cs) d = persist_all cs d \<and> applies (filter (\<lambda>e. \<not> is_persist_hard e) cs) = applies cs \<and>
    applies (filter is_persist_hard cs) = [] \<and> persist_all (filter (\<lambda>e. \<not> is_persist_hard e) cs) d = d"
proof -
  have easy: "persist_all (filter is_persist_hard cs) d = persist_all cs d \<and> applies (filter (\<lambda>e. \<not> is_persist_hard e) cs) = applies cs \<and>
      applies (filter is_persist_hard cs) = [] \<and> persist_all (filter (\<lambda>e. \<not> is_persist_hard e) cs) d = d"
    if "\<forall>e \<in> set cs. is_persist_hard e \<or> quiet_effect e \<or> (\<exists>x. e = Apply x)" for cs d
    using that
  proof (induction cs arbitrary: d)
    case (Cons e cs)
    then show ?case by (cases e) auto
  qed simp
  assume "advance_commit i n = Some (n', cs)"
  from advance_commit_cases [OF this] have "\<forall>e \<in> set cs. is_persist_hard e \<or> quiet_effect e \<or> (\<exists>x. e = Apply x)"
    by (auto simp: committed_to_def Let_def list_all_iff dest!: refreshed_fields(13) split: if_splits)
  then show ?thesis by (rule easy)
qed

lemma lead_advances:
  assumes role: "role n = Candidate v" and room: "last_log_index n + 1 < u64_max"
    and noop: "noop = \<lparr>index = last_log_index n + 1, e_term = term_of n, command = NoOp\<rparr>"
    and n1: "n1 = (install_leader (last_log_index n + 1) n)\<lparr>log := log n @ [noop]\<rparr>"
    and commit: "(if self_quorum n1 then advance_commit (last_log_index n1) n1 else skip n1) = Some (n2, cs)"
    and mid: "advances n2 n3 mid" "broadcast n2 n3 mid"
  shows "advances n n3 (PersistLogEntries None [noop] # filter is_persist_hard cs @ mid @ filter (\<lambda>e. \<not> is_persist_hard e) cs)"
  unfolding advances_def
proof
  assume n: "sound n"
  note s1 = lead_sound [OF n role room noop n1]
  have c: "keeps advances (\<lambda>n. \<not> sound n) n1 (if self_quorum n1 then advance_commit (last_log_index n1) n1 else skip n1)"
    using advance_commit_advances [of n1 "last_log_index n1"] advances.keeps_skip [of n1] by auto
  have s2: "sound n2" "moves n1 n2 cs" using keepsD [OF c commit] s1(1) by (simp_all add: advances_def)
  have s3: "sound n3" "moves n2 n3 mid" using mid(1) s2(1) by (simp_all add: advances_def)
  have "moves n n3 (([PersistLogEntries None [noop]] @ cs) @ mid)"
    using s1 s2 s3 n by (intro moves_append) (auto simp: sound_def)
  moreover have "persist_all mid d = d \<and> applies mid = []" for d
    using mid(2) harmless_writes by (simp add: broadcast_def)
  moreover have "persist_all (filter is_persist_hard cs) d = persist_all cs d \<and> applies (filter (\<lambda>e. \<not> is_persist_hard e) cs) = applies cs \<and>
      applies (filter is_persist_hard cs) = [] \<and> persist_all (filter (\<lambda>e. \<not> is_persist_hard e) cs) d = d" for d
    using commit silent_persists by (auto simp: skip_def split: if_splits)
  ultimately show "sound n3 \<and> moves n n3 (PersistLogEntries None [noop] # filter is_persist_hard cs @ mid @ filter (\<lambda>e. \<not> is_persist_hard e) cs)"
    using s3(1) by (simp add: moves_def)
qed

lemma wrap_persist [simp]: "persist_all (wrap_group_effects n es) d = persist_all es d" "applies (wrap_group_effects n es) = applies es"
proof -
  have "persist (wrap_send g gv e) = persist e" "applied_entry (wrap_send g gv e) = applied_entry e" for g gv e
    by (cases e; auto simp: fun_eq_iff)+
  then have "persist_all (map (wrap_send g gv) es) d = persist_all es d" "applies (map (wrap_send g gv) es) = applies es" for g gv
    by (simp_all add: persist_all_def fold_map comp_def applies_def)
  then show "persist_all (wrap_group_effects n es) d = persist_all es d" "applies (wrap_group_effects n es) = applies es"
    by (simp_all add: wrap_group_effects_def Let_def)
qed

lemma advances_send: "advances n n [Send p msg]"
  by (auto simp: advances_def moves_def grows_def leads_on_def log_slice_def durable_def)

interpretation advance: protocol_relation advances "\<lambda>n. \<not> sound n" inp start
proof unfold_locales
  fix n n' :: raft_node and es
  show "advances n n' es" if "quiet n n' es" using that by (rule advances_quiet)
  show "\<not> sound n" if "unreplayable n" using that unreplayable_unprimed sound_primed by blast
  show "\<not> sound n" if "append_conflict_hint n prev = None" for prev using that hint_always by blast
  show "advances n n' (wrap_group_effects n' es)" if "advances n n' es" using that by (simp add: advances_def moves_def)
next
  fix n n' :: raft_node and es t h
  assume *: "term_of n < t" "h = hard n\<lparr>current_term := t, voted_for := None\<rparr>" "quiet (n\<lparr>hard := h\<rparr>) n' es" "role n' = Follower"
  show "advances n n' (PersistHardState h # es)"
    using * quiet_fields [OF *(3)]
    by (intro advances_hard) (auto simp: office_def is_leader_def is_candidate_def quiet_def)
next
  fix n :: raft_node and h
  assume "h = hard n\<lparr>current_term := term_of n + 1, voted_for := Some (self_id n)\<rparr>"
  then show "advances n (n\<lparr>hard := h, role := Candidate {self_id n}\<rparr>) [PersistHardState h]"
    by (intro advances_hard) (auto simp: office_def)
next
  fix n :: raft_node and req and h
  assume "h = hard n\<lparr>voted_for := Some (rq_candidate_id req)\<rparr>"
  then show "advances n (n\<lparr>hard := h\<rparr>) [PersistHardState h]"
    by (intro advances_hard) (auto simp: office_def is_leader_def is_candidate_def)
next
  fix n :: raft_node and f v
  assume "role n = Candidate v"
  moreover have "sound (n\<lparr>role := Candidate (insert f v)\<rparr>)" if "sound n"
    using that \<open>role n = Candidate v\<close> by (intro sound_frame [OF that]) (auto simp: sound_def office_def is_leader_def is_candidate_def)
  ultimately show "advances n (n\<lparr>role := Candidate (insert f v)\<rparr>) []"
    by (auto simp: advances_def moves_def grows_def leads_on_def log_slice_def durable_def is_leader_def is_candidate_def)
next
  fix n n1 n2 n3 :: raft_node and v noop cs mid
  assume *: "role n = Candidate v" "last_log_index n + 1 < u64_max"
    "noop = \<lparr>index = last_log_index n + 1, e_term = term_of n, command = NoOp\<rparr>"
    "n1 = (install_leader (last_log_index n + 1) n)\<lparr>log := log n @ [noop]\<rparr>"
    "(if self_quorum n1 then advance_commit (last_log_index n1) n1 else skip n1) = Some (n2, cs)"
    "advances n2 n3 mid" "broadcast n2 n3 mid"
  then show "advances n n3 (PersistLogEntries None [noop] # filter is_persist_hard cs @ mid @ filter (\<lambda>e. \<not> is_persist_hard e) cs)"
    by (rule lead_advances)
next
  fix n n1 :: raft_node and v noop m
  assume *: "role n = Candidate v" "last_log_index n + 1 < u64_max"
    "noop = \<lparr>index = last_log_index n + 1, e_term = term_of n, command = NoOp\<rparr>"
    "n1 = (install_leader (last_log_index n + 1) n)\<lparr>log := log n @ [noop]\<rparr>"
    "(if self_quorum n1 then advance_commit (last_log_index n1) n1 else skip n1) = m"
    "m = None \<or> (\<exists>n2 cs. m = Some (n2, cs) \<and> \<not> sound n2)"
  show "\<not> sound n"
  proof
    assume "sound n"
    then have "sound n1" using lead_sound(1) [OF _ *(1-4)] by simp
    moreover have "keeps advances (\<lambda>n. \<not> sound n) n1 m"
      using advance_commit_advances [of n1 "last_log_index n1"] advances.keeps_skip [of n1] *(5) by auto
    ultimately show False using *(6) by (auto simp: advances_def)
  qed
next
  fix n :: raft_node and cmds ents
  assume *: "is_leader n" "cmds \<noteq> []" "\<not> list_ex is_configuration cmds" "last_log_index n + length cmds < u64_max"
    "ents = number_entries (last_log_index n) (term_of n) cmds"
  show "advances n (n\<lparr>log := log n @ ents\<rparr>) [PersistLogEntries None ents]"
    unfolding advances_def
  proof (intro impI conjI)
    assume n: "sound n"
    show "sound (n\<lparr>log := log n @ ents\<rparr>)"
      by (rule sound_grown [OF n, where ents = ents])
        (use n * numbered_number_entries number_entries_terms number_entries_conf in
          \<open>auto simp: office_def is_leader_def is_candidate_def sound_def\<close>)
    show "moves n (n\<lparr>log := log n @ ents\<rparr>) [PersistLogEntries None ents]"
      by (rule grown_moves [OF n, where ents = ents])
        (use *(5) number_entries_terms in \<open>auto simp: is_leader_def is_candidate_def\<close>)
  qed
next
  show "keeps advances (\<lambda>n. \<not> sound n) n (advance_commit i n)" if "quorum_commit_candidate n = Some i" for n i
    using that candidate_commit by (intro advance_commit_advances) blast
  show "keeps advances (\<lambda>n. \<not> sound n) n (advance_commit (last_log_index n) n)" for n
    by (rule advance_commit_advances) simp
qed (rule advances_send configure_advances follow_advances recover_advances; assumption)+

end
