(* ===== verification/Publication.thy ===== *)
theory Publication
  imports Sound Samples
begin

text \<open>
  Snapshot publication on a sound node.  Compaction replaces a committed prefix by an image of the
  same history; installing a leader's image is safe when the image is \<open>installable\<close>: it is well
  formed, belongs to the group, and agrees with the local log wherever that log already reaches its
  boundary.  Together with the contract this gives the invariant for every input of \<open>step\<close>.
\<close>

definition image_membership :: "committed_membership \<Rightarrow> snapshot_descriptor \<Rightarrow> committed_membership" where
  "image_membership genesis d = (case sm_membership (metadata d) of None \<Rightarrow> genesis | Some c \<Rightarrow> c)"

definition installable :: "raft_node \<Rightarrow> snapshot_descriptor \<Rightarrow> bool" where
  "installable n d \<longleftrightarrow>
     is_ok (descriptor_validate d) \<and> valid_snapshot_membership n d \<and> last_included_term (metadata d) \<le> term_of n \<and>
     last_included_index (metadata d) \<le> u64_max \<and>
     (log_term n (last_included_index (metadata d)) = Some (last_included_term (metadata d)) \<longrightarrow>
        membership_at n (last_included_index (metadata d)) = Inr (image_membership (genesis_membership n) d))"

section \<open>Legacy groups\<close>

lemma legacy_frozen: "history c \<Longrightarrow> group_id (cm_state c) = LEGACY_GROUP_ID \<Longrightarrow> records (cm_state c) = [] \<and>
    cm_bootstrap_with_group LEGACY_GROUP_ID (genesis_voters (cm_state c)) = Inr c"
proof (induction rule: history.induct)
  case (boot g vs c)
  then show ?case by (auto simp: cm_bootstrap_with_group_def bootstrap_with_group_def rbind_Inr_iff)
next
  case (advance c i t ce c')
  from advance(2) have ap: "apply_entry (cm_state c) i t ce = Inr (cm_state c')"
    by (auto simp: advanced_def rbind_Inr_iff split: if_splits)
  then have "group_id (cm_state c) = LEGACY_GROUP_ID" using advance(4) apply_entry_identity by fastforce
  with advance(3) have legacy: "records (cm_state c) = []" "group_id (cm_state c) = LEGACY_GROUP_ID" by simp_all
  from ap show ?case
  proof (cases rule: apply_entry_cases)
    case (final r old new)
    with pending_Some(1) [OF final(2)] legacy show ?thesis by simp
  qed (use legacy first_phase_Inr(5) in blast)+
qed

lemma advance_all_identity:
  "advance_all c evs = Inr c' \<Longrightarrow> group_id (cm_state c') = group_id (cm_state c) \<and> genesis_voters (cm_state c') = genesis_voters (cm_state c)"
proof (induction c evs rule: advance_all.induct)
  case (2 c i t ce es)
  then obtain d where d: "advanced c i t ce = Inr d" "advance_all d es = Inr c'" by (auto simp: rbind_Inr_iff)
  then have "apply_entry (cm_state c) i t ce = Inr (cm_state d)" by (auto simp: advanced_def rbind_Inr_iff split: if_splits)
  with "2.IH" [OF d(2)] apply_entry_identity show ?case by fastforce
qed simp

lemma sound_identity:
  assumes "sound n"
  shows "group_id (cm_state (membership_base n)) = group_id (cm_state (genesis_membership n))"
    "genesis_voters (cm_state (membership_base n)) = genesis_voters (cm_state (genesis_membership n))"
    "cm_bootstrap_with_group (group_id (cm_state (genesis_membership n))) (genesis_voters (cm_state (genesis_membership n))) =
      Inr (genesis_membership n)"
  using assms by (auto simp: sound_def authentic_def membership_base_def split: option.splits)

lemma sound_replayed:
  assumes n: "sound n" and c: "advance_all (membership_base n) (conf_events (take k (log n))) = Inr c"
  shows "history c" "group_id (cm_state c) = group_id (cm_state (genesis_membership n))"
    "genesis_voters (cm_state c) = genesis_voters (cm_state (genesis_membership n))"
    "group_id (cm_state c) = LEGACY_GROUP_ID \<Longrightarrow> c = genesis_membership n"
proof -
  show h: "history c" using primed_base(1) [OF sound_primed [OF n]] c history_advance_all by blast
  show g: "group_id (cm_state c) = group_id (cm_state (genesis_membership n))"
    "genesis_voters (cm_state c) = genesis_voters (cm_state (genesis_membership n))"
    using advance_all_identity [OF c] sound_identity [OF n] by simp_all
  show "c = genesis_membership n" if "group_id (cm_state c) = LEGACY_GROUP_ID"
    using legacy_frozen [OF h that] g that sound_identity(3) [OF n] by simp
qed

section \<open>Compaction\<close>

lemma take_beyond: "a \<le> b \<Longrightarrow> take b xs = take a xs @ take (b - a) (drop a xs)"
  by (metis le_add_diff_inverse take_add)

lemma sorted_suffix:
  assumes "sorted (t # map e_term lg @ [ct])" and k: "k \<le> length lg" "(t # map e_term lg) ! k = t'"
  shows "sorted (t' # map e_term (drop k lg) @ [ct])"
proof -
  let ?l = "t # map e_term lg @ [ct]"
  have "drop k ?l = ?l ! k # drop (Suc k) ?l" using k(1) by (intro Cons_nth_drop_Suc [symmetric]) simp
  moreover have "?l ! k = (t # map e_term lg) ! k" using k(1) by (cases k) (auto simp: nth_append)
  ultimately have "drop k ?l = t' # map e_term (drop k lg) @ [ct]" using k by (simp add: drop_map)
  moreover have "sorted (drop k ?l)" using assms(1) by (rule sorted_wrt_drop)
  ultimately show ?thesis by simp
qed

text \<open>Moving the snapshot forward to a replayed position of the log.\<close>

lemma rebased_sound:
  assumes n: "sound n" and d: "is_ok (descriptor_validate d)" and b: "b = last_included_index (metadata d)"
    and pos: "snapshot_index n < b" "b \<le> last_applied n" "log_term n b = Some (last_included_term (metadata d))"
    and same: "snapshot n' = Some d" "log n' = drop (b - snapshot_index n) (log n)" "genesis_membership n' = genesis_membership n"
      "hard n' = hard n" "commit_index n' = commit_index n" "last_applied n' = last_applied n"
      "effective_membership n' = effective_membership n" "publishing_snapshot n' = None" "office n'"
    and mem: "membership_at n b = Inr (image_membership (genesis_membership n) d)"
      "sm_membership (metadata d) = None \<Longrightarrow> members (metadata d) = genesis_voters (cm_state (genesis_membership n))"
  shows "sound n'"
proof -
  let ?s = "snapshot_index n" and ?k = "b - snapshot_index n"
  note f = sound_facts [OF n]
  have at: "b \<le> ?s + length (log n)" "(snapshot_term n # map e_term (log n)) ! ?k = last_included_term (metadata d)"
    using log_term_nth [OF pos(3)] pos(1) by simp_all
  have reads: "snapshot_index n' = b" "snapshot_term n' = last_included_term (metadata d)"
    by (simp_all add: snapshot_index_def snapshot_term_def same(1) b)
  have base: "membership_base n' = image_membership (genesis_membership n) d"
    by (simp add: membership_base_def image_membership_def same split: option.split)
  have cm: "committed_membership n' = committed_membership n" by (simp add: committed_membership_def same split: option.split)
  have num: "numbered b (drop ?k (log n))" using numbered_drop [OF f(1), of ?k] at(1) pos(1) by simp
  have len: "last_log_index n' = last_log_index n"
    using last_log_index_numbered [of n'] num f(7) at(1) pos(1) by (simp add: reads same)
  have mb: "advance_all (membership_base n) (conf_events (take ?k (log n))) = Inr (membership_base n')"
    using mem(1) pos(1) f(1) unfolding base by (simp add: membership_at_def replay_numbered)
  have "sorted (last_included_term (metadata d) # map e_term (drop ?k (log n)) @ [term_of n])"
    by (rule sorted_suffix [OF f(3)]) (use at pos(1) in auto)
  then have "shaped n'"
    using num len f(2,7) by (simp add: shaped_def reads same)
  moreover have "placed n'" using f(4-7) pos(2) len by (simp add: placed_def reads same)
  moreover have "authentic (snapshot n') (genesis_membership n')"
    using sound_identity(3) [OF n] sound_replayed(2,3) [OF n mb] d mem(2)
    by (auto simp: authentic_def same base image_membership_def split: option.splits)
  moreover have "replay (membership_base n') (log n') i = replay (membership_base n) (log n) i" if "b \<le> i" for i
  proof -
    have "take (i - ?s) (log n) = take ?k (log n) @ take (i - b) (drop ?k (log n))"
      using take_beyond [of ?k "i - ?s" "log n"] that pos(1) by simp
    then show ?thesis
      using mb num by (simp add: replay_numbered [OF f(1)] replay_numbered [OF num] same advance_all_append)
  qed
  then have "configured n'"
    using n pos(2) f(5-7) at(1) f(2) by (simp add: configured_def cm same sound_def)
  ultimately show ?thesis using same by (simp add: sound_def)
qed

lemma publishesE:
  assumes "publishes n n' es"
  obtains m tr d r where "quiet n m []" "n' = m\<lparr>publishing_snapshot := Some \<lparr>ps_transfer = tr, ps_descriptor = d,
      ps_retained = retained_suffix n d, ps_contact_round = r\<rparr>\<rparr>" "es = [PublishSnapshot tr d (retained_suffix n d)]"
    "snapshot n \<noteq> Some d"
    "case tr of
       None \<Rightarrow> publishing_snapshot n = None \<and> is_ok (descriptor_validate d) \<and> compaction_membership_matches n d \<and>
         snapshot_index n < last_included_index (metadata d) \<and>
         last_included_index (metadata d) \<le> last_applied n \<and> last_included_index (metadata d) \<le> commit_index n \<and>
         log_term n (last_included_index (metadata d)) = Some (last_included_term (metadata d))
     | Some _ \<Rightarrow> last_applied n < last_included_index (metadata d) \<and> commit_index n \<le> last_included_index (metadata d)"
  using assms unfolding publishes_def by blast

lemma office_quiet: "quiet n m es \<Longrightarrow> office n \<Longrightarrow> office m"
  using quiet_fields(2) [of n m es] by (auto simp: office_def quiet_def is_candidate_def)

lemma compaction_membership:
  assumes n: "sound n" and m: "compaction_membership_matches n d" and pos: "snapshot_index n < last_included_index (metadata d)"
  shows "membership_at n (last_included_index (metadata d)) = Inr (image_membership (genesis_membership n) d)"
    "sm_membership (metadata d) = None \<Longrightarrow> members (metadata d) = genesis_voters (cm_state (genesis_membership n))"
proof -
  obtain c where c: "membership_at n (last_included_index (metadata d)) = Inr c"
    "advance_all (membership_base n) (conf_events (take (last_included_index (metadata d) - snapshot_index n) (log n))) = Inr c"
    using primed_membership_at [OF sound_primed [OF n], of "last_included_index (metadata d)"] pos by auto
  note r = sound_replayed [OF n c(2)]
  show "membership_at n (last_included_index (metadata d)) = Inr (image_membership (genesis_membership n) d)"
    "sm_membership (metadata d) = None \<Longrightarrow> members (metadata d) = genesis_voters (cm_state (genesis_membership n))"
    using m c(1) r(3,4) by (auto simp: compaction_membership_matches_def image_membership_def split: option.splits)
qed

lemma compacted_sound:
  assumes n: "sound n" and pub: "publishes n n' es" and p: "publishing_snapshot n' = Some p" "ps_transfer p = None"
  shows "sound (compacted p n')"
  using pub
proof (cases rule: publishesE)
  case (1 m tr d r)
  have tr: "tr = None" "ps_descriptor p = d" "ps_retained p = retained_suffix n d" using 1(2) p by auto
  note q = quiet_fields [OF 1(1)]
  from 1(5) tr(1) have d: "is_ok (descriptor_validate d)" "compaction_membership_matches n d" "snapshot_index n < last_included_index (metadata d)"
    "last_included_index (metadata d) \<le> last_applied n"
    "log_term n (last_included_index (metadata d)) = Some (last_included_term (metadata d))" by simp_all
  have "office (compacted p n')"
    using office_quiet [OF 1(1)] n 1(2) by (simp add: sound_def office_def compacted_def is_leader_def is_candidate_def)
  then show ?thesis
    using q d(5) 1(2)
    by (intro rebased_sound [OF n d(1) refl d(3,4,5) _ _ _ _ _ _ _ _ _ compaction_membership [OF n d(2,3)]])
      (simp_all add: compacted_def tr retained_suffix_def Let_def numbered_filter_greater [OF sound_facts(1) [OF n]])
qed

section \<open>Installing a leader's image\<close>

definition arrived :: "publishing_snapshot \<Rightarrow> raft_node \<Rightarrow> raft_node" where
  "arrived p n = (compacted p n)\<lparr>hard := adopted_hard (ps_descriptor p) (hard n),
     commit_index := last_included_index (metadata (ps_descriptor p)),
     last_applied := last_included_index (metadata (ps_descriptor p))\<rparr>"

lemma sound_committed_replay:
  "sound n \<Longrightarrow> advance_all (membership_base n) (conf_events (take (commit_index n - snapshot_index n) (log n))) = Inr (committed_membership n)"
  using sound_facts(1) [of n] by (simp add: sound_def configured_def replay_numbered)

lemma legacy_image_members:
  assumes n: "sound n" and legacy: "group_id (cm_state (committed_membership n)) = LEGACY_GROUP_ID"
  shows "committed_membership n = genesis_membership n" "node_members n = genesis_voters (cm_state (genesis_membership n))"
proof -
  note c = sound_replayed [OF n sound_committed_replay [OF n]]
  show "committed_membership n = genesis_membership n" using c(4) legacy by blast
  from n sound_facts(1,2) [OF n] obtain full where full: "advance_all (membership_base n) (conf_events (log n)) = Inr full"
    "effective_membership n = cm_state full" by (auto simp: sound_def configured_def replay_bounded)
  have "full = genesis_membership n"
    using sound_replayed(2,4) [OF n, of "length (log n)" full] full(1) c(2) legacy by simp
  then have "effective_membership n = cm_state (genesis_membership n)" using full(2) by simp
  moreover have "participants (cm_state (genesis_membership n)) = set (genesis_voters (cm_state (genesis_membership n))) \<and>
      is_ok (validate_set (genesis_voters (cm_state (genesis_membership n))))"
    using sound_identity(3) [OF n]
    by (auto simp: cm_bootstrap_with_group_def bootstrap_with_group_def rbind_Inr_iff participants_def is_ok_iff)
      (metis membership_state.select_convs committed_membership.select_convs(3) vc_voters.simps(1) Un_iff empty_iff)+
  ultimately show "node_members n = genesis_voters (cm_state (genesis_membership n))"
    by (simp add: node_members_def sorted_voters_id)
qed

text \<open>What an installable image means for the membership of the node that adopts it.\<close>

lemma installable_membership:
  assumes n: "sound n" and ok: "installable n d" and new: "snapshot n \<noteq> Some d"
  shows "authentic (Some d) (genesis_membership n)"
    "(case membership (adopted_hard d (hard n)) of None \<Rightarrow> genesis_membership n | Some c \<Rightarrow> c) =
      image_membership (genesis_membership n) d"
proof -
  note c = sound_replayed [OF n sound_committed_replay [OF n]]
  have v: "valid_snapshot_membership n d" "is_ok (descriptor_validate d)" using ok by (simp_all add: installable_def)
  show "authentic (Some d) (genesis_membership n)"
    using v new c(2,3) sound_identity(3) [OF n] legacy_image_members [OF n]
    by (auto simp: valid_snapshot_membership_def authentic_def is_consistent_extension_of_def split: option.splits)
  show "(case membership (adopted_hard d (hard n)) of None \<Rightarrow> genesis_membership n | Some c \<Rightarrow> c) =
      image_membership (genesis_membership n) d"
  proof (cases "sm_membership (metadata d)")
    case None
    with v new have "committed_membership n = genesis_membership n"
      using legacy_image_members(1) [OF n] by (simp add: valid_snapshot_membership_def)
    with None show ?thesis by (simp add: adopted_hard_def image_membership_def committed_membership_def)
  qed (simp add: adopted_hard_def image_membership_def)
qed

lemma retained_shape:
  assumes n: "sound n" and ok: "installable n d" and b: "snapshot_index n < last_included_index (metadata d)"
  shows "numbered (last_included_index (metadata d)) (retained_suffix n d)"
    "last_included_index (metadata d) + length (retained_suffix n d) \<le> u64_max"
    "sorted (last_included_term (metadata d) # map e_term (retained_suffix n d) @ [term_of n])"
    "is_ok (advance_all (image_membership (genesis_membership n) d) (conf_events (retained_suffix n d)))"
proof -
  let ?b = "last_included_index (metadata d)" and ?k = "last_included_index (metadata d) - snapshot_index n"
  note f = sound_facts [OF n]
  have "numbered ?b (retained_suffix n d) \<and> ?b + length (retained_suffix n d) \<le> u64_max \<and>
    sorted (last_included_term (metadata d) # map e_term (retained_suffix n d) @ [term_of n]) \<and>
    is_ok (advance_all (image_membership (genesis_membership n) d) (conf_events (retained_suffix n d)))"
  proof (cases "log_term n ?b = Some (last_included_term (metadata d))")
    case False
    then show ?thesis using ok by (simp add: retained_suffix_def installable_def)
  next
    case True
    then have eq: "retained_suffix n d = drop ?k (log n)"
      by (simp add: retained_suffix_def Let_def numbered_filter_greater [OF f(1)])
    have at: "?b \<le> snapshot_index n + length (log n)" using log_term_nth(1) [OF True] b by simp
    have mb: "advance_all (membership_base n) (conf_events (take ?k (log n))) = Inr (image_membership (genesis_membership n) d)"
      using ok True b f(1) by (simp add: installable_def membership_at_def replay_numbered)
    have "is_ok (advance_all (image_membership (genesis_membership n) d) (conf_events (drop ?k (log n))))"
      using f(9) mb conf_events_split [of "membership_base n" "log n" ?k] by simp
    moreover have "sorted (last_included_term (metadata d) # map e_term (drop ?k (log n)) @ [term_of n])"
      by (rule sorted_suffix [OF f(3)]) (use log_term_nth(2) [OF True] b at in auto)
    moreover have "numbered ?b (drop ?k (log n))" using numbered_drop [OF f(1), of ?k] at b by simp
    ultimately show ?thesis using eq at b f(2) by simp
  qed
  then show "numbered ?b (retained_suffix n d)" "?b + length (retained_suffix n d) \<le> u64_max"
    "sorted (last_included_term (metadata d) # map e_term (retained_suffix n d) @ [term_of n])"
    "is_ok (advance_all (image_membership (genesis_membership n) d) (conf_events (retained_suffix n d)))" by simp_all
qed

lemma arrived_primed:
  assumes n: "sound n" and pub: "publishes n n' es" and p: "publishing_snapshot n' = Some p" "ps_transfer p = Some t"
    and ok: "installable n (ps_descriptor p)"
  shows "primed (arrived p n')"
  using pub
proof (cases rule: publishesE)
  case (1 m tr d r)
  have tr: "tr = Some t" "ps_descriptor p = d" "ps_retained p = retained_suffix n d" using 1(2) p by auto
  note q = quiet_fields [OF 1(1)] and f = sound_facts [OF n]
  from 1(5) tr(1) have d: "last_applied n < last_included_index (metadata d)" by simp
  with f(4) have b: "snapshot_index n < last_included_index (metadata d)" by simp
  note ret = retained_shape [OF n ok [unfolded tr(2)] b]
  note mem = installable_membership [OF n ok [unfolded tr(2)] 1(4)]
  let ?k = "arrived p n'"
  have fields: "snapshot ?k = Some d" "log ?k = retained_suffix n d" "genesis_membership ?k = genesis_membership n"
    "hard ?k = adopted_hard d (hard n)" "commit_index ?k = last_included_index (metadata d)"
    "last_applied ?k = last_included_index (metadata d)" "publishing_snapshot ?k = None"
    using 1(2) q by (simp_all add: arrived_def compacted_def tr)
  have reads: "snapshot_index ?k = last_included_index (metadata d)" "snapshot_term ?k = last_included_term (metadata d)"
    by (simp_all add: snapshot_index_def snapshot_term_def fields)
  have base: "membership_base ?k = image_membership (genesis_membership n) d"
    by (simp add: membership_base_def image_membership_def fields split: option.split)
  have cm: "committed_membership ?k = image_membership (genesis_membership n) d"
    unfolding committed_membership_def fields using mem(2) .
  have len: "last_log_index ?k = last_included_index (metadata d) + length (retained_suffix n d)"
    using last_log_index_numbered [of ?k] ret(1) by (simp add: reads fields)
  have "office ?k"
    using office_quiet [OF 1(1)] n 1(2) q(2)
    by (simp add: sound_def office_def arrived_def compacted_def is_leader_def is_candidate_def tr)
  then show ?thesis
    using ret mem(1)
    by (simp add: primed_def shaped_def placed_def reads fields len base cm replay_bounded replay_numbered [OF ret(1)])
qed

lemma installed_sound:
  assumes "primed (arrived p n')" and inst: "installed p t n' n'' es"
  shows "sound n''"
proof -
  let ?b = "last_included_index (metadata (ps_descriptor p))"
  let ?n0 = "(compacted p n')\<lparr>hard := adopted_hard (ps_descriptor p) (hard n'), commit_index := ?b\<rparr>"
  from inst obtain n1 qs where rf: "refreshed ?n0 n1 qs" and n'': "n'' = n1\<lparr>last_applied := ?b, incoming_snapshot := None\<rparr>"
    by (auto simp: installed_def Let_def)
  have "refreshed (arrived p n') n'' qs"
  proof -
    have "committed_membership (arrived p n') = committed_membership ?n0"
      by (simp add: committed_membership_def arrived_def compacted_def split: option.split)
    with rf show ?thesis
      by (auto simp: refreshed_def n'' arrived_def quiet_defs compacted_def)
  qed
  then show ?thesis by (rule refreshed_sound [OF assms(1)])
qed

lemma install_total:
  assumes "primed (arrived p n)" and p: "publishing_snapshot n = Some p" "ps_transfer p = Some t"
  shows "on_snapshot_published (ps_transfer p) (ps_descriptor p) n \<noteq> None"
proof -
  let ?d = "ps_descriptor p" and ?b = "last_included_index (metadata (ps_descriptor p))"
  let ?n0 = "(compacted p n)\<lparr>hard := adopted_hard ?d (hard n), commit_index := ?b\<rparr>"
  have "committed_membership (arrived p n) = committed_membership ?n0"
    by (simp add: committed_membership_def arrived_def compacted_def split: option.split)
  then have "is_ok (effective_after (committed_membership ?n0) (log ?n0) (commit_index ?n0))"
    using primed_effective [OF assms(1)] assms(1) by (auto simp: primed_def is_ok_iff arrived_def compacted_def)
  then have "\<not> unrefreshable ?n0" by (simp add: unrefreshable_def)
  then have r: "refresh_effective_membership ?n0 \<noteq> None" using refresh_None by blast
  show ?thesis
  proof (cases "sm_membership (metadata ?d)")
    case None
    with r p show ?thesis
      by (auto simp: on_snapshot_published_def install_published_def run_modify run_append run_Cons_None_iff run.simps(1) skip_def
          compacted_def adopted_hard_def snapshot_reply_def act_defs run_Nil_Some_iff)
  next
    case (Some c)
    show ?thesis
    proof (cases "membership (hard n) = Some c")
      case True
      then have "?n0 = (compacted p n)\<lparr>commit_index := ?b\<rparr>"
        using Some by (cases n, cases "hard n") (simp add: adopted_hard_def compacted_def)
      with True Some r p show ?thesis
        by (auto simp: on_snapshot_published_def install_published_def run_modify run_append run_Cons_None_iff run.simps(1) skip_def
            compacted_def snapshot_reply_def act_defs run_Nil_Some_iff)
    next
      case False
      with Some r p show ?thesis
        by (auto simp: on_snapshot_published_def install_published_def run_modify run_append run_Cons_None_iff run.simps(1) skip_def
            compacted_def adopted_hard_def snapshot_reply_def act_defs run_Nil_Some_iff run_Cons_Some_iff)
    qed
  qed
qed

section \<open>Every input\<close>

lemma publication_total:
  assumes "publication_input inp" "publishing_snapshot n = None"
  shows "handle inp n \<noteq> None"
proof -
  let ?T = "keeps (\<lambda>(_ :: raft_node) (_ :: raft_node) (_ :: effect list). True) (\<lambda>_. False)"
  note total = total.keeps_skip total.keeps_run_Cons total.keeps_run_Nil
  have leaf: "?T m (modify f m)" "?T m (push e m)" for m f e by (simp_all add: act_defs)
  have cancel: "?T m (cancel_incoming_snapshot m)" for m
    by (auto simp: cancel_incoming_snapshot_def intro!: total leaf split: option.splits)
  have refuse: "?T m (refuse_snapshot tr k m)" "?T m (snapshot_reply tr k a i j r m)" "?T m (snapshot_reject w m)" for m tr k a i j r w
    by (simp_all add: refuse_snapshot_def snapshot_reply_def snapshot_reject_def leaf)
  have "?T n (on_compact d n)" for d
    by (auto simp: on_compact_def Let_def intro!: total leaf refuse)
  moreover have "?T m (chunk_staged_ok tr d active ee r no c m)" for tr d active ee r no c m
    by (auto simp: chunk_staged_ok_def Let_def intro!: total leaf refuse cancel)
  then have "?T n (on_snapshot_chunk_staged tr d off res n)" for tr d off res
    by (auto simp: on_snapshot_chunk_staged_def intro!: total leaf refuse split: option.splits snapshot_stage_result.splits)
  moreover have "?T n (on_snapshot_published tr d n)" for tr d
    using assms(2) by (simp add: on_snapshot_published_def total)
  ultimately have "?T n (handle inp n)" using assms(1) by (cases inp) (auto simp: handle_def)
  then show ?thesis by (auto simp: keeps_def split: option.splits)
qed

lemma publication_advances:
  assumes n: "sound n" and h: "handle inp n = Some (n', es)" and inp: "publication_input inp"
  shows "sound n' \<and> moves n n' es \<or> publishes n n' es"
proof -
  have "publishing_snapshot n = None" using n by (simp add: sound_def)
  then have "quiet n n' es \<or> publishes n n' es"
    using publication_handle [OF h inp] by (auto simp: publication_outcome_def)
  then show ?thesis using advances_quiet n by (auto simp: advances_def)
qed

lemma handle_sound:
  assumes n: "sound n"
  shows "\<exists>n' es. handle inp n = Some (n', es) \<and> (sound n' \<and> moves n n' es \<or> publishes n n' es \<and> publication_input inp)"
proof (cases "publication_input inp")
  case True
  then obtain n' es where h: "handle inp n = Some (n', es)"
    using publication_total [OF True] n by (fastforce simp: sound_def)
  with publication_advances [OF n h True] True show ?thesis by blast
next
  case False
  have k: "keeps advances (\<lambda>n. \<not> sound n) n (handle inp n)" by (rule advance.keeps_handle [OF False])
  then obtain n' es where "handle inp n = Some (n', es)" using n by (cases "handle inp n") auto
  with k n show ?thesis by (auto simp: advances_def)
qed

lemma step_sound:
  assumes n: "sound n"
  shows "\<exists>n' es. step n inp = Some (n', es) \<and>
    (sound n' \<and> moves n n' es \<or> publishes n n' es \<and> publication_input inp \<and> \<not> recovery_pending n)"
proof (cases "recovery_pending n \<and> inp \<noteq> Recover")
  case True
  then show ?thesis using n advances.rel_nil [of n] by (auto simp: step_def advances_def)
next
  case False
  obtain n' es where h: "handle inp n = Some (n', es)" "sound n' \<and> moves n n' es \<or> publishes n n' es \<and> publication_input inp"
    using handle_sound [OF n] by blast
  then have st: "step n inp = Some (n', wrap_group_effects n' es)" using False by (auto simp: step_def)
  have "wrap_group_effects n' es = es" if "publishes n n' es"
    using that by (auto simp: publishes_def wrap_group_effects_def Let_def)
  moreover have "\<not> recovery_pending n" if "publication_input inp" using False that by auto
  ultimately show ?thesis using st h(2) by (auto simp: moves_def)
qed

text \<open>
  Publication is serialised: the driver of the node answers a \<open>PublishSnapshot\<close> with the matching
  confirmation before it delivers anything else.  \<open>settle\<close> is that unit of work.
\<close>

definition settle :: "raft_node \<Rightarrow> input \<Rightarrow> node_outcome" where
  "settle n inp =
     (case step n inp of
        None \<Rightarrow> None
      | Some (n', es) \<Rightarrow>
          (case publishing_snapshot n' of
             None \<Rightarrow> Some (n', es)
           | Some p \<Rightarrow>
               (case step n' (SnapshotPublished (ps_transfer p) (ps_descriptor p)) of
                  None \<Rightarrow> None
                | Some (n'', es') \<Rightarrow> Some (n'', es @ es'))))"

text \<open>The images a step may ask to install come from leaders; the others are the node's own.\<close>

definition installs_safely :: "raft_node \<Rightarrow> input \<Rightarrow> bool" where
  "installs_safely n inp \<longleftrightarrow>
     (\<forall>n' es tr d kept. step n inp = Some (n', es) \<longrightarrow> PublishSnapshot (Some tr) d kept \<in> set es \<longrightarrow> installable n d)"

lemma publish_confirm:
  assumes n: "sound n" and pub: "publishes n n' es" and p: "publishing_snapshot n' = Some p" and rec: "\<not> recovery_pending n"
    and safe: "\<And>t. ps_transfer p = Some t \<Longrightarrow> installable n (ps_descriptor p)"
  shows "\<exists>n'' es'. step n' (SnapshotPublished (ps_transfer p) (ps_descriptor p)) = Some (n'', wrap_group_effects n'' es') \<and> sound n'' \<and>
    (case ps_transfer p of None \<Rightarrow> n'' = compacted p n' \<and> es' = [] | Some t \<Rightarrow> installed p t n' n'' es')"
proof -
  have "\<not> recovery_pending n'" using rec publishes_fields(10) [OF pub] by simp
  then have st: "step n' (SnapshotPublished (ps_transfer p) (ps_descriptor p)) =
      map_option (\<lambda>(n'', es'). (n'', wrap_group_effects n'' es')) (on_snapshot_published (ps_transfer p) (ps_descriptor p) n')"
    by (auto simp: step_def handle_def split: option.splits)
  have out: "case ps_transfer p of None \<Rightarrow> n'' = compacted p n' \<and> es' = [] | Some t \<Rightarrow> installed p t n' n'' es'"
    if "on_snapshot_published (ps_transfer p) (ps_descriptor p) n' = Some (n'', es')" for n'' es'
  proof (cases "ps_transfer p")
    case None
    with that p show ?thesis
      by (auto simp: on_snapshot_published_def run_modify run_Cons run.simps(1) skip_def act_seq_def modify_def compacted_def)
  next
    case (Some t)
    have "commit_index (compacted p n') = commit_index n'" by (simp add: compacted_def)
    from on_snapshot_published_cases [OF that] p Some show ?thesis
    proof (elim disjE conjE exE)
      assume "n'' = n'" "es' = []"
      with that p Some have False
        by (auto simp: on_snapshot_published_def install_published_def run_Cons_Some_iff run_Nil_Some_iff snapshot_reply_def act_defs)
      then show ?thesis ..
    qed auto
  qed
  show ?thesis
  proof (cases "ps_transfer p")
    case None
    then have "on_snapshot_published None (ps_descriptor p) n' = Some (compacted p n', [])"
      using p by (simp add: on_snapshot_published_def run_modify run_Cons run.simps(1) skip_def act_seq_def modify_def compacted_def)
    with st None compacted_sound [OF n pub p None] show ?thesis by simp
  next
    case (Some t)
    have pr: "primed (arrived p n')" by (rule arrived_primed [OF n pub p Some safe [OF Some]])
    then obtain n'' es' where o': "on_snapshot_published (ps_transfer p) (ps_descriptor p) n' = Some (n'', es')"
      using install_total [OF pr p Some] by fastforce
    with st out [OF o'] installed_sound [OF pr] Some show ?thesis by auto
  qed
qed

section \<open>What a settled step keeps\<close>

definition history_kept :: "raft_node \<Rightarrow> raft_node \<Rightarrow> bool" where
  "history_kept n n' \<longleftrightarrow>
     term_of n \<le> term_of n' \<and> snapshot_index n \<le> snapshot_index n' \<and> commit_index n \<le> commit_index n' \<and>
     (\<forall>k. snapshot_index n' < k \<longrightarrow> k \<le> commit_index n \<longrightarrow> entry_at n' k = entry_at n k)"

lemma moves_history_kept:
  assumes "sound n" "sound n'" "moves n n' es"
  shows "history_kept n n'"
proof -
  have g: "grows n n'" using assms(3) by (simp add: moves_def)
  then have s: "snapshot_index n' = snapshot_index n" by (simp add: grows_def snapshot_index_def)
  have "entry_at n' k = entry_at n k" if k: "snapshot_index n < k" "k \<le> commit_index n" for k
  proof -
    let ?i = "k - snapshot_index n - 1" and ?c = "commit_index n - snapshot_index n"
    have i: "?i < ?c" using k by simp
    have "take ?c (log n') = take ?c (log n)" using g by (simp add: grows_def)
    then have "log n' ! ?i = log n ! ?i" using i by (metis nth_take)
    moreover have "k \<le> snapshot_index n + length (log n)" "k \<le> snapshot_index n' + length (log n')"
      using k(2) sound_facts(6) [OF assms(1)] sound_facts(6) [OF assms(2)] g by (auto simp: grows_def)
    ultimately show ?thesis using k(1) s by (simp add: entry_at_eq)
  qed
  with g s show ?thesis by (simp add: history_kept_def grows_def)
qed

lemma publishes_history_kept:
  assumes n: "sound n" and pub: "publishes n n' es" and p: "publishing_snapshot n' = Some p"
    and out: "case ps_transfer p of None \<Rightarrow> n'' = compacted p n' \<and> es' = [] | Some t \<Rightarrow> installed p t n' n'' es'"
  shows "history_kept n n''"
  using pub
proof (cases rule: publishesE)
  case (1 m tr d r)
  have tr: "ps_transfer p = tr" "ps_descriptor p = d" "ps_retained p = retained_suffix n d" using 1(2) p by auto
  note q = quiet_fields [OF 1(1)] and f = sound_facts [OF n]
  show ?thesis
  proof (cases tr)
    case None
    let ?b = "last_included_index (metadata d)"
    from 1(5) None have d: "snapshot_index n < ?b" "?b \<le> commit_index n" "log_term n ?b = Some (last_included_term (metadata d))" by auto
    have n'': "n'' = compacted p n'" using out tr None by simp
    have lg: "log n'' = drop (?b - snapshot_index n) (log n)" "snapshot_index n'' = ?b" "term_of n'' = term_of n" "commit_index n'' = commit_index n"
      using d(3) 1(2) q by (simp_all add: n'' compacted_def tr retained_suffix_def Let_def snapshot_index_def numbered_filter_greater [OF f(1)])
    have at: "?b \<le> snapshot_index n + length (log n)" using log_term_nth(1) [OF d(3)] d(1) by simp
    have "entry_at n'' k = entry_at n k" if "?b < k" "k \<le> commit_index n" for k
    proof -
      have "?b - snapshot_index n + (k - ?b - 1) = k - snapshot_index n - 1" using that d(1) by simp
      then show ?thesis using that d(1) f(6) at by (simp add: entry_at_eq lg)
    qed
    with lg d show ?thesis by (simp add: history_kept_def)
  next
    case (Some t)
    have inst: "installed p t n' n'' es'" using out tr Some by simp
    note i = installed_fields [OF inst]
    from 1(5) Some have "commit_index n \<le> last_included_index (metadata d)" "last_applied n < last_included_index (metadata d)" by auto
    moreover have "snapshot_index n'' = last_included_index (metadata d)" using i(4) tr by (simp add: snapshot_index_def)
    ultimately show ?thesis using i(2,5) f(4) 1(2) q(2) tr by (auto simp: history_kept_def)
  qed
qed

lemma publishes_durable:
  assumes n: "sound n" and pub: "publishes n n' es" and p: "publishing_snapshot n' = Some p"
    and out: "case ps_transfer p of None \<Rightarrow> n'' = compacted p n' \<and> es' = [] | Some t \<Rightarrow> installed p t n' n'' es'"
    and d: "durable n d"
  shows "durable n'' (persist_all es' (persist_all es d))"
proof -
  from pub p obtain img kept where es: "es = [PublishSnapshot (ps_transfer p) img kept]" "ps_descriptor p = img" "ps_retained p = kept"
    by (auto simp: publishes_def)
  note f = publishes_fields [OF pub]
  let ?d = "persist_all es d"
  have disk: "disk_log ?d = kept" "disk_snapshot ?d = Some img" "disk_hard ?d = disk_hard d" by (simp_all add: es)
  show ?thesis
  proof (cases "ps_transfer p")
    case None
    with out d f disk es show ?thesis by (simp add: durable_def compacted_def)
  next
    case (Some t)
    with out have inst: "installed p t n' n'' es'" by simp
    note i = installed_fields [OF inst]
    from installed_effects [OF inst] obtain qs msg where qs: "list_all quiet_effect qs"
      "es' = (if membership (hard n'') = membership (hard n') then [] else [PersistHardState (hard n'')]) @ qs @
        [ApplySnapshot (ps_descriptor p), Send (st_leader_id t) msg]" by blast
    have same: "hard n'' = hard n'" if "membership (hard n'') = membership (hard n')"
      using i(2) that by (cases "hard n'") (auto simp: adopted_hard_def split: option.splits)
    show ?thesis
      using i d f disk es quiet_writes [OF qs(1)] same unfolding qs(2)
      by (auto simp: durable_def simp del: persist_all_simps(2) simp: persist_all_simps)
  qed
qed

text \<open>Everything a settled step of a sound node guarantees, in one statement.\<close>

lemma settle_all:
  assumes n: "sound n" and safe: "installs_safely n inp"
  shows "\<exists>n' es. settle n inp = Some (n', es) \<and> sound n' \<and> history_kept n n' \<and>
    (\<forall>d. durable n d \<longrightarrow> durable n' (persist_all es d))"
proof -
  obtain n' es where st: "step n inp = Some (n', es)" and
    out: "sound n' \<and> moves n n' es \<or> publishes n n' es \<and> publication_input inp \<and> \<not> recovery_pending n"
    using step_sound [OF n] by blast
  from out show ?thesis
  proof (elim disjE conjE)
    assume m: "sound n'" "moves n n' es"
    then have "settle n inp = Some (n', es)" using st by (simp add: settle_def sound_def)
    with m moves_history_kept [OF n m] show ?thesis by (auto simp: moves_def)
  next
    assume pub: "publishes n n' es" and rec: "\<not> recovery_pending n"
    then obtain p where p: "publishing_snapshot n' = Some p" "PublishSnapshot (ps_transfer p) (ps_descriptor p) (ps_retained p) \<in> set es"
      by (auto simp: publishes_def)
    have inst: "installable n (ps_descriptor p)" if "ps_transfer p = Some t" for t
      using safe st p(2) that unfolding installs_safely_def by metis
    obtain n'' es' where c: "step n' (SnapshotPublished (ps_transfer p) (ps_descriptor p)) = Some (n'', wrap_group_effects n'' es')"
      "sound n''" "case ps_transfer p of None \<Rightarrow> n'' = compacted p n' \<and> es' = [] | Some t \<Rightarrow> installed p t n' n'' es'"
      using publish_confirm [OF n pub p(1) rec] inst by blast
    have "settle n inp = Some (n'', es @ wrap_group_effects n'' es')" using st p(1) c(1) by (simp add: settle_def)
    with c publishes_history_kept [OF n pub p(1) c(3)] publishes_durable [OF n pub p(1) c(3)] show ?thesis by auto
  qed
qed

end
