(* ===== verification/Recovery.thy ===== *)
theory Recovery
  imports Publication
begin

text \<open>
  Starting and restarting.  A new node is sound, and whatever a sound node leaves on disk is
  accepted by \<open>restore_with_snapshot\<close>, which rebuilds a sound node with the same term, vote, log,
  snapshot and configuration history.
\<close>

section \<open>New nodes\<close>

lemma bootstrap_reads:
  assumes "cm_bootstrap_with_group g vs = Inr c"
  shows "c = \<lparr>cm_index = 0, cm_term = 0, cm_state = \<lparr>version = 1, group_id = g, genesis_voters = vs, voters = Stable vs,
            learners = {}, retired = {}, endpoints = [], records = []\<rparr>\<rparr>"
  using assms by (auto simp: cm_bootstrap_with_group_def bootstrap_with_group_def rbind_Inr_iff)

lemma bootstrap_again:
  "cm_bootstrap_with_group g vs = Inr c \<Longrightarrow> cm_bootstrap_with_group (group_id (cm_state c)) (genesis_voters (cm_state c)) = Inr c"
  using bootstrap_reads [of g vs c] by simp

lemma cm_bootstrap_legacy: "cm_bootstrap vs = cm_bootstrap_with_group LEGACY_GROUP_ID vs"
  by (simp add: cm_bootstrap_def cm_bootstrap_with_group_def bootstrap_def)

lemma raft_newE:
  assumes "raft_new i ps seed = Some n"
  obtains c where "cm_bootstrap_with_group LEGACY_GROUP_ID (sort (ps @ [i])) = Inr c" "n = fresh_node i ps seed c"
  using assms by (auto simp: raft_new_def cm_bootstrap_legacy split: if_splits sum.splits)

lemma empty_sound:
  assumes "cm_bootstrap_with_group g vs = Inr c"
    and "log n = []" "snapshot n = None" "commit_index n = 0" "last_applied n = 0" "role n = Follower" "publishing_snapshot n = None"
    and "genesis_membership n = c" "effective_membership n = cm_state c" "membership (hard n) \<in> {None, Some c}"
  shows "sound n"
  using assms bootstrap_again [OF assms(1)]
  by (auto simp: sound_def shaped_def placed_def authentic_def configured_def office_def snapshot_index_def snapshot_term_def
      last_log_index_def membership_base_def committed_membership_def is_leader_def is_candidate_def)

lemma fresh_sound: "raft_new i ps seed = Some n \<Longrightarrow> sound n"
  by (erule raft_newE) (rule empty_sound, auto simp: fresh_node_def)

lemma update_peers_fields:
  "role n = Follower \<Longrightarrow> update_replication_peers n = n\<lparr>peers := filter (\<lambda>i. i \<noteq> self_id n)
     (sorted_list_of_set (participants (effective_membership n) \<union> retired (effective_membership n)))\<rparr>"
  by (simp add: update_replication_peers_def Let_def)

lemma group_sound:
  assumes "new_for_group i gv seed g = Some (Inr (n, es))"
  shows "sound n"
proof -
  from assms obtain n0 where n0: "raft_new i (filter (\<lambda>p. p \<noteq> i) gv) seed = Some n0" "initialize_group g gv n0 = Inr (n, es)"
    by (auto simp: new_for_group_def split: sum.splits option.splits)
  then obtain c0 where n0': "n0 = fresh_node i (filter (\<lambda>p. p \<noteq> i) gv) seed c0" by (auto elim: raft_newE)
  from n0(2) obtain c where c: "cm_bootstrap_with_group g gv = Inr c"
    and n: "n = update_replication_peers (n0\<lparr>genesis_membership := c, hard := (hard n0)\<lparr>membership := Some c\<rparr>,
      effective_membership := cm_state c\<rparr>)"
    by (auto simp: initialize_group_def rbind_Inr_iff Let_def n0' fresh_node_def split: if_splits)
  show ?thesis
    by (rule empty_sound [OF c]) (simp_all add: n n0' update_peers_fields fresh_node_def)
qed

section \<open>The membership watermark\<close>

lemma advanced_index: "advanced c i t ce = Inr c' \<Longrightarrow> cm_index c < cm_index c'"
  by (auto simp: advanced_def rbind_Inr_iff split: if_splits)

lemma advance_all_still: "advance_all c evs = Inr c' \<Longrightarrow> cm_index c' \<le> cm_index c \<Longrightarrow> evs = [] \<and> c' = c"
proof (cases evs)
  case (Cons e es)
  assume a: "advance_all c evs = Inr c'" and le: "cm_index c' \<le> cm_index c"
  obtain i t ce where "e = (i, t, ce)" by (metis prod_cases3)
  with a Cons obtain d where d: "advanced c i t ce = Inr d" "advance_all d es = Inr c'" by (auto simp: rbind_Inr_iff)
  with advanced_index [OF d(1)] advance_all_mono [OF d(2)] le show ?thesis by simp
qed simp

text \<open>Between the newest committed configuration and the commit position there is no configuration entry.\<close>

lemma watermark_replay:
  assumes n: "sound n" and i: "cm_index (committed_membership n) \<le> i" "snapshot_index n \<le> i" "i \<le> commit_index n"
  shows "advance_all (membership_base n) (conf_events (take (i - snapshot_index n) (log n))) = Inr (committed_membership n)"
proof -
  let ?s = "snapshot_index n" and ?c = "commit_index n"
  let ?gap = "take (?c - i) (drop (i - ?s) (log n))"
  note f = sound_facts [OF n]
  have split: "take (?c - ?s) (log n) = take (i - ?s) (log n) @ ?gap"
    using take_beyond [of "i - ?s" "?c - ?s" "log n"] i by simp
  have all: "advance_all (membership_base n) (conf_events (take (i - ?s) (log n)) @ conf_events ?gap) = Inr (committed_membership n)"
    using sound_committed_replay [OF n] unfolding split by simp
  have "conf_events ?gap = []"
  proof (rule ccontr)
    assume ne: "conf_events ?gap \<noteq> []"
    obtain j t ce where l: "last (conf_events ?gap) = (j, t, ce)" by (metis prod_cases3)
    then have "(j, t, ce) \<in> set (conf_events ?gap)" using ne by (metis last_in_set)
    then obtain e where e: "e \<in> set ?gap" "index e = j" using conf_events_index by blast
    have "numbered (?s + (i - ?s)) (drop (i - ?s) (log n))" using numbered_drop [OF f(1), of "i - ?s"] f(6) i by simp
    then have "i < j" using numbered_index [of i "drop (i - ?s) (log n)" e] e i(2) by (auto dest: in_set_takeD)
    moreover have "cm_index (committed_membership n) = j" using advance_all_position [OF all] ne l by simp
    ultimately show False using i(1) by simp
  qed
  with all show ?thesis by simp
qed

lemma sound_extension: "sound n \<Longrightarrow> is_consistent_extension_of (committed_membership n) (membership_base n)"
  using sound_committed_replay [of n] primed_base(1) [OF sound_primed, of n] extension_refl extension_advance_all by blast

lemma extension_antisym:
  assumes "is_consistent_extension_of a b" "advance_all a evs = Inr b"
  shows "a = b"
proof -
  have "cm_index b \<le> cm_index a" using assms(1) by (simp add: is_consistent_extension_of_def)
  with advance_all_still [OF assms(2)] show ?thesis by simp
qed

lemma select_membership_sound:
  assumes n: "sound n"
  shows "select_membership (hard n) (snapshot_index n) (membership_base n) (log n) = Inr (committed_membership n)"
proof (cases "membership (hard n)")
  case None
  then have g: "committed_membership n = genesis_membership n" by (simp add: committed_membership_def)
  then have "cm_index (committed_membership n) = 0" using bootstrap_zero [OF sound_identity(3) [OF n]] by simp
  then have "membership_base n = committed_membership n"
    using advance_all_still [OF sound_committed_replay [OF n]] by simp
  with None show ?thesis by (simp add: select_membership_def)
next
  case (Some hm)
  then have hm: "hm = committed_membership n" by (simp add: committed_membership_def)
  note f = sound_facts [OF n] and c = sound_committed [OF n]
  show ?thesis
  proof (cases "is_consistent_extension_of (membership_base n) hm")
    case True
    then have "membership_base n = hm" using extension_antisym [OF True] sound_committed_replay [OF n] hm by simp
    with Some hm show ?thesis using True by (simp add: select_membership_def)
  next
    case False
    have last: "(if log n = [] then snapshot_index n else index (last (log n))) = last_log_index n" by (simp add: last_log_index_def)
    have "replay (membership_base n) (log n) (cm_index hm) = Inr hm"
    proof (cases "snapshot_index n \<le> cm_index hm")
      case True
      with watermark_replay [OF n, of "cm_index hm"] c(2) hm show ?thesis by (simp add: replay_numbered [OF f(1)])
    next
      case False
      with watermark_replay [OF n, of "snapshot_index n"] hm f(4,5) show ?thesis by (simp add: replay_numbered [OF f(1)])
    qed
    moreover have "\<not> cm_index hm > last_log_index n" using c(2) f(6,7) hm by simp
    ultimately show ?thesis
      using False Some sound_extension [OF n] hm unfolding select_membership_def Some option.case Let_def last by simp
  qed
qed

section \<open>Restoring\<close>

text \<open>The peers a node is restarted with; they only matter before the group is recorded anywhere on disk.\<close>

definition restartable :: "raft_node \<Rightarrow> node_id list \<Rightarrow> nat \<Rightarrow> bool" where
  "restartable n ps seed \<longleftrightarrow>
     (\<exists>n0. raft_new (self_id n) ps seed = Some n0 \<and>
        (membership (hard n) = None \<and> (\<forall>d. snapshot n = Some d \<longrightarrow> sm_membership (metadata d) = None) \<longrightarrow>
           genesis_membership n0 = genesis_membership n))"

lemma check_authorities_sound:
  assumes n: "sound n"
  shows "check_authorities (term_of n) [membership (hard n),
    case snapshot n of None \<Rightarrow> None | Some d \<Rightarrow> sm_membership (metadata d)] = Inr ()"
proof -
  have hm: "cm_validate c = Inr () \<and> cm_term c \<le> term_of n" if "membership (hard n) = Some c" for c
    using sound_committed(1,3) [OF n] that by (simp add: committed_membership_def cm_validate_iff)
  have "snapshot_term n \<le> term_of n" using sound_facts(3) [OF n] by simp
  then have sm: "cm_validate c = Inr () \<and> cm_term c \<le> term_of n"
    if "(case snapshot n of None \<Rightarrow> None | Some d \<Rightarrow> sm_membership (metadata d)) = Some c" for c
    using descriptor_membership [of "the (snapshot n)" c] that n
    by (auto simp: sound_def authentic_def snapshot_term_def cm_validate_iff split: option.splits)
  show ?thesis
    by (cases "membership (hard n)"; cases "case snapshot n of None \<Rightarrow> None | Some d \<Rightarrow> sm_membership (metadata d)")
      (simp_all add: hm sm not_less)
qed

lemma recover_membership_sound:
  assumes n: "sound n" and gv: "membership (hard n) = None \<Longrightarrow> (\<forall>d. snapshot n = Some d \<longrightarrow> sm_membership (metadata d) = None) \<Longrightarrow>
      cm_bootstrap gv = Inr (genesis_membership n)"
  shows "recover_membership (hard n) (snapshot n) (log n) gv = Inr
    \<lparr>mr_committed = committed_membership n, mr_effective = effective_membership n,
     mr_commit_index = max (snapshot_index n) (cm_index (committed_membership n)),
     mr_refresh_hard = (membership (hard n) \<noteq> Some (committed_membership n) \<and>
       (group_id (cm_state (committed_membership n)) \<noteq> LEGACY_GROUP_ID \<or> cm_index (committed_membership n) \<noteq> 0))\<rparr>"
proof -
  note f = sound_facts [OF n] and c = sound_committed [OF n] and id = sound_identity [OF n]
  note cr = sound_replayed [OF n sound_committed_replay [OF n]]
  let ?snap_member = "case snapshot n of None \<Rightarrow> None | Some d \<Rightarrow> sm_membership (metadata d)"
  let ?commit = "max (snapshot_index n) (cm_index (committed_membership n))"
  have snap: "(case snapshot n of None \<Rightarrow> 0 | Some d \<Rightarrow> last_included_index (metadata d)) = snapshot_index n"
    by (simp add: snapshot_index_def)
  have auth: "authentic (snapshot n) (genesis_membership n)" using n by (simp add: sound_def)
  have genesis: "(case (case ?snap_member of Some s \<Rightarrow> Some s | None \<Rightarrow> membership (hard n)) of
      Some s \<Rightarrow> cm_bootstrap_with_group (group_id (cm_state s)) (genesis_voters (cm_state s))
    | None \<Rightarrow> cm_bootstrap gv) = Inr (genesis_membership n)"
  proof (cases ?snap_member)
    case (Some s)
    then show ?thesis using auth by (auto simp: authentic_def split: option.splits)
  next
    case None
    then have free: "\<forall>d. snapshot n = Some d \<longrightarrow> sm_membership (metadata d) = None" by (auto split: option.splits)
    show ?thesis
    proof (cases "membership (hard n)")
      case None
      with gv free \<open>?snap_member = None\<close> show ?thesis by simp
    next
      case (Some hm)
      then have "hm = committed_membership n" by (simp add: committed_membership_def)
      with cr(2,3) id(3) Some \<open>?snap_member = None\<close> show ?thesis by simp
    qed
  qed
  have legacy: "(case snapshot n of None \<Rightarrow> Inr ()
      | Some d \<Rightarrow> if ?snap_member = None \<and> members (metadata d) \<noteq> genesis_voters (cm_state (genesis_membership n))
          then Inl ''legacy snapshot differs from durable genesis'' else Inr ()) = Inr ()"
    using auth by (auto simp: authentic_def split: option.splits)
  have base: "(case ?snap_member of Some s \<Rightarrow> s | None \<Rightarrow> genesis_membership n) = membership_base n"
    by (auto simp: membership_base_def split: option.splits)
  have com: "snapshot_index n \<le> ?commit" "?commit \<le> commit_index n" "cm_index (committed_membership n) \<le> ?commit"
    using c(2) f(4,5) by auto
  note wm = watermark_replay [OF n com(3,1,2)]
  have rep: "replay (membership_base n) (log n) ?commit = Inr (committed_membership n)"
    using wm by (simp add: replay_numbered [OF f(1)])
  have eff: "effective_after (committed_membership n) (log n) ?commit = Inr (effective_membership n)"
  proof -
    obtain full where full: "advance_all (membership_base n) (conf_events (log n)) = Inr full" "effective_membership n = cm_state full"
      using n f(1,2) by (auto simp: sound_def configured_def replay_bounded)
    have "advance_all (committed_membership n) (conf_events (drop (?commit - snapshot_index n) (log n))) = Inr full"
      using conf_events_split [of "membership_base n" "log n" "?commit - snapshot_index n"] wm full(1) by simp
    with full(2) effective_after_numbered [OF f(1,2) com(1)] show ?thesis by simp
  qed
  show ?thesis
    unfolding recover_membership_def Let_def snap check_authorities_sound [OF n] rbind_simps genesis legacy base
      select_membership_sound [OF n] rep eff
    by simp
qed

lemma check_log_sound:
  assumes "numbered (b + off) lg" "sorted (prev # map e_term lg @ [ct])" "b + off + length lg \<le> u64_max"
  shows "check_log ct b off prev lg = Inr ()"
  using assms
proof (induction lg arbitrary: off prev)
  case (Cons e lg)
  then have "index e = b + off + 1" "numbered (b + (off + 1)) lg" "prev \<le> e_term e" "e_term e \<le> ct"
    by (auto simp: numbered_Cons)
  moreover have "sorted (e_term e # map e_term lg @ [ct])" using Cons.prems(2) by simp
  ultimately show ?case
    using Cons.IH [of "off + 1" "e_term e"] Cons.prems(3) by (simp add: checked_add_def)
qed simp

text \<open>Restoring what a sound node holds: it succeeds, and nothing durable is lost.\<close>

definition restored_as :: "raft_node \<Rightarrow> raft_node \<Rightarrow> bool" where
  "restored_as n n' \<longleftrightarrow>
     self_id n' = self_id n \<and> term_of n' = term_of n \<and> voted_for (hard n') = voted_for (hard n) \<and> log n' = log n \<and>
     snapshot n' = snapshot n \<and> committed_membership n' = committed_membership n \<and>
     effective_membership n' = effective_membership n \<and> genesis_membership n' = genesis_membership n \<and> role n' = Follower \<and>
     commit_index n' = max (snapshot_index n) (cm_index (committed_membership n)) \<and> last_applied n' = snapshot_index n \<and>
     durable n' \<lparr>disk_hard = hard n, disk_log = log n, disk_snapshot = snapshot n\<rparr>"

lemma restored_sound:
  assumes n: "sound n" and r: "restored_as n n'" and pub: "publishing_snapshot n' = None"
  shows "sound n'"
proof -
  note f = sound_facts [OF n] and c = sound_committed [OF n]
  have same: "snapshot_index n' = snapshot_index n" "snapshot_term n' = snapshot_term n" "membership_base n' = membership_base n"
    "last_log_index n' = last_log_index n"
    using r by (simp_all add: restored_as_def snapshot_index_def snapshot_term_def membership_base_def last_log_index_def split: option.split)
  let ?commit = "max (snapshot_index n) (cm_index (committed_membership n))"
  have com: "snapshot_index n \<le> ?commit" "?commit \<le> commit_index n" "cm_index (committed_membership n) \<le> ?commit"
    using c(2) f(4,5) by auto
  have "replay (membership_base n) (log n) ?commit = Inr (committed_membership n)"
    using watermark_replay [OF n com(3,1,2)] by (simp add: replay_numbered [OF f(1)])
  moreover have "is_leader n' = False" "is_candidate n' = False" using r by (simp_all add: restored_as_def is_leader_def is_candidate_def)
  ultimately show ?thesis
    using n r pub com f(6,7)
    by (auto simp: sound_def shaped_def placed_def configured_def office_def same restored_as_def)
qed

lemma restore_sound:
  assumes n: "sound n" and start: "restartable n ps seed"
  shows "\<exists>n'. restore_with_snapshot (self_id n) ps seed (hard n) (snapshot n) (log n) = Some (Inr n') \<and> restored_as n n' \<and> sound n'"
proof -
  note f = sound_facts [OF n] and cr = sound_replayed [OF n sound_committed_replay [OF n]] and id = sound_identity [OF n]
  obtain n0 where n0: "raft_new (self_id n) ps seed = Some n0"
    and g0: "membership (hard n) = None \<Longrightarrow> (\<forall>d. snapshot n = Some d \<longrightarrow> sm_membership (metadata d) = None) \<Longrightarrow>
      genesis_membership n0 = genesis_membership n"
    using start by (auto simp: restartable_def)
  from n0 obtain c0 where c0: "cm_bootstrap_with_group LEGACY_GROUP_ID (sort (ps @ [self_id n])) = Inr c0"
    and n0': "n0 = fresh_node (self_id n) ps seed c0" by (rule raft_newE)
  let ?s = "n0\<lparr>snapshot := snapshot n\<rparr>"
  have reads: "snapshot_index ?s = snapshot_index n" "snapshot_term ?s = snapshot_term n"
    by (simp_all add: snapshot_index_def snapshot_term_def)
  have gv: "cm_bootstrap (genesis_voters (cm_state (genesis_membership ?s))) = Inr (genesis_membership n)"
    if "membership (hard n) = None" "\<forall>d. snapshot n = Some d \<longrightarrow> sm_membership (metadata d) = None"
  proof -
    have "c0 = genesis_membership n" using g0 [OF that] by (simp add: n0' fresh_node_def)
    with c0 bootstrap_zero [OF c0] show ?thesis by (simp add: cm_bootstrap_legacy n0' fresh_node_def)
  qed
  have img: "check_image (hard n) (snapshot n) = Inr ()"
    using n f(3) by (auto simp: check_image_def sound_def authentic_def lift_err_def is_ok_iff snapshot_term_def split: option.splits)
  have lg: "check_log (term_of n) (snapshot_index n) 0 (snapshot_term n) (log n) = Inr ()"
    using f by (intro check_log_sound) simp_all
  let ?c = "committed_membership n"
  let ?refresh = "membership (hard n) \<noteq> Some ?c \<and> (group_id (cm_state ?c) \<noteq> LEGACY_GROUP_ID \<or> cm_index ?c \<noteq> 0)"
  let ?commit = "max (snapshot_index n) (cm_index ?c)"
  let ?n = "?s\<lparr>genesis_membership := genesis_membership n,
    hard := (if ?refresh then (hard n)\<lparr>membership := Some ?c\<rparr> else hard n), effective_membership := effective_membership n,
    log := log n, commit_index := ?commit, last_applied := snapshot_index n, recovery_refresh_hard := ?refresh,
    recovery_pending := (?refresh \<or> ?commit > snapshot_index n)\<rparr>"
  have rec: "restore_with_snapshot (self_id n) ps seed (hard n) (snapshot n) (log n) = Some (Inr (update_replication_peers ?n))"
  proof -
    have snap: "snapshot ?s = snapshot n" by simp
    have g: "cm_bootstrap_with_group (group_id (cm_state ?c)) (genesis_voters (cm_state ?c)) = Inr (genesis_membership n)"
      using cr(2,3) id(3) by simp
    have rm: "recover_membership (hard n) (snapshot n) (log n) (genesis_voters (cm_state (genesis_membership ?s))) =
        Inr \<lparr>mr_committed = ?c, mr_effective = effective_membership n, mr_commit_index = ?commit, mr_refresh_hard = ?refresh\<rparr>"
      by (rule recover_membership_sound [OF n]) (rule gv)
    show ?thesis
      unfolding restore_with_snapshot_def n0 option.case Let_def img rbind_simps reads lg snap rm lift_err_def sum.case membership_recovery.select_convs g ..
  qed
  have peers: "\<exists>q. update_replication_peers ?n = ?n\<lparr>peers := q\<rparr>"
    using update_peers_fields [of ?n] by (auto simp: n0' fresh_node_def)
  have "committed_membership (?n\<lparr>peers := q\<rparr>) = ?c" for q
  proof (cases ?refresh)
    case False
    moreover have "hm = ?c" if "membership (hard n) = Some hm" for hm using that by (simp add: committed_membership_def)
    moreover have "?c = genesis_membership n" if "membership (hard n) = None" using that by (simp add: committed_membership_def)
    ultimately show ?thesis by (cases "membership (hard n)") (auto simp: committed_membership_def)
  qed (simp add: committed_membership_def)
  then have "restored_as n (?n\<lparr>peers := q\<rparr>)" for q
    by (auto simp: restored_as_def durable_def n0' fresh_node_def)
  then have ra: "restored_as n (update_replication_peers ?n)" using peers by metis
  moreover have "publishing_snapshot (?n\<lparr>peers := q\<rparr>) = None" for q by (simp add: n0' fresh_node_def)
  then have "publishing_snapshot (update_replication_peers ?n) = None" using peers by metis
  ultimately have "sound (update_replication_peers ?n)" by (intro restored_sound [OF n]) auto
  with rec ra show ?thesis by blast
qed

end
