(* ===== verification/Node_Safety.thy ===== *)
theory Node_Safety
  imports Recovery
begin

text \<open>
  What one node guarantees over its whole life: from its construction, through any sequence of
  inputs, snapshots and restarts.
\<close>

inductive lives :: "raft_node \<Rightarrow> bool" where
  Fresh: "raft_new i ps seed = Some n \<Longrightarrow> lives n"
| Group: "new_for_group i gv seed g = Some (Inr (n, es)) \<Longrightarrow> lives n"
| Settle: "lives n \<Longrightarrow> installs_safely n inp \<Longrightarrow> settle n inp = Some (n', es) \<Longrightarrow> lives n'"
| Restart: "lives n \<Longrightarrow> restartable n ps seed \<Longrightarrow>
    restore_with_snapshot (self_id n) ps seed (hard n) (snapshot n) (log n) = Some (Inr n') \<Longrightarrow> lives n'"

lemma lives_sound: "lives n \<Longrightarrow> sound n"
proof (induction rule: lives.induct)
  case (Settle n inp n' es)
  then show ?case using settle_all [of n inp] by auto
next
  case (Restart n ps seed n')
  then show ?case using restore_sound [of n ps seed] by auto
qed (auto intro: fresh_sound group_sound)

lemma lives_sample: "lives sample_node"
  using sample_node_new by (rule Fresh)

lemma lives_single: "lives single_node"
  using single_node_new by (rule Fresh)

lemma quiet_installs: "step n inp = Some (n', []) \<Longrightarrow> installs_safely n inp"
  by (auto simp: installs_safely_def)

text \<open>The one-node cluster after its first tick.\<close>

definition single_ready :: raft_node where
  "single_ready = reset_election_deadline (single_node\<lparr>now_ms := 1000\<rparr>)"

lemma single_first_settle: "settle single_node (Tick 1000) = Some (single_ready, [])"
proof -
  have "publishing_snapshot single_ready = None"
    by (simp add: single_ready_def reset_election_deadline_def single_node_def fresh_node_def split: prod.split)
  with single_first_tick show ?thesis by (simp add: settle_def single_ready_def)
qed

lemma lives_ready: "lives single_ready"
  by (rule lives.Settle [OF lives_single quiet_installs [OF single_first_tick] single_first_settle])

text \<open>The states of the one-node cluster before and after it accepts its first proposal.\<close>

lemma single_leading:
  obtains n es n2 es2 where "step single_ready (Tick 2000) = Some (n, es)" "lives n" "is_leader n" "term_of n = 1"
    "last_applied n = 1" "publishing_snapshot n = None" "step n (ClientProposeBatch [Put ''k'' ''v'']) = Some (n2, es2)"
    "is_leader n2" "term_of n2 = 1" "publishing_snapshot n2 = None" "last_applied n2 = 2"
proof -
  obtain n es n2 es2 where s: "step single_ready (Tick 2000) = Some (n, es)" "is_leader n" "term_of n = 1"
    "last_applied n = 1" "publishing_snapshot n = None" "step n (ClientProposeBatch [Put ''k'' ''v'']) = Some (n2, es2)"
    "is_leader n2" "term_of n2 = 1" "publishing_snapshot n2 = None" "last_applied n2 = 2" "\<forall>tr d kept. PublishSnapshot tr d kept \<notin> set es"
    using single_leads unfolding single_ready_def by blast
  moreover have "lives n"
    using s(1,5,11) by (intro lives.Settle [OF lives_ready, of "Tick 2000"]) (auto simp: settle_def installs_safely_def)
  ultimately show ?thesis using that by blast
qed

text \<open>
  C2.  A node never panics.  Whatever input a living node receives, \<open>step\<close> returns, and when a
  leader's snapshot is installed only if it agrees with the local log, so does the whole unit of
  work, and the node lives on.
\<close>

theorem never_panics:
  assumes "lives n"
  shows "step n inp \<noteq> None \<and> (installs_safely n inp \<longrightarrow> (\<exists>n' es. settle n inp = Some (n', es) \<and> lives n'))"
  using step_sound [OF lives_sound [OF assms], of inp] settle_all [OF lives_sound [OF assms], of inp] lives.Settle [OF assms]
  by fastforce

theorem never_panics_witness: "step sample_node (Message 2 (RequestVoteReply 5 False)) \<noteq> None"
  using never_panics [OF lives_sample] by blast

text \<open>
  C3.  The invariant of a node: its log is numbered contiguously after the snapshot, terms never
  decrease along the log and never exceed the current term, the snapshot, applied, committed and
  last positions are ordered, and the committed and effective configurations are exactly what the
  log replays to.
\<close>

theorem node_invariant:
  assumes "lives n"
  shows "(\<forall>k < length (log n). index (log n ! k) = snapshot_index n + k + 1) \<and>
    sorted (snapshot_term n # map e_term (log n) @ [term_of n]) \<and>
    snapshot_index n \<le> last_applied n \<and> last_applied n \<le> commit_index n \<and> commit_index n \<le> last_log_index n \<and>
    membership_at n (commit_index n) = Inr (committed_membership n) \<and>
    map_sum id cm_state (membership_at n (last_log_index n)) = Inr (effective_membership n)"
proof -
  have n: "sound n" by (rule lives_sound [OF assms])
  note f = sound_facts [OF n]
  obtain full where full: "advance_all (membership_base n) (conf_events (log n)) = Inr full" "effective_membership n = cm_state full"
    using n f(1,2) by (auto simp: sound_def configured_def replay_bounded)
  have "membership_at n (last_log_index n) = Inr full" "membership_at n (commit_index n) = Inr (committed_membership n)"
    using full f n sound_committed_replay [OF n] by (simp_all add: membership_at_def replay_bounded replay_numbered [OF f(1)])
  with f full(2) show ?thesis by (simp add: numbered_def)
qed

theorem node_invariant_witness:
  "membership_at sample_node (commit_index sample_node) = Inr (committed_membership sample_node)"
  using node_invariant [OF lives_sample] by blast

text \<open>
  C4.  Committed entries are never lost or changed.  A unit of work never lowers the term, the
  commit position or the snapshot boundary, and every entry that was committed before is afterwards
  either still in the log, unchanged, or covered by the snapshot.
\<close>

theorem committed_kept:
  assumes "lives n" and "installs_safely n inp" and "settle n inp = Some (n', es)"
  shows "term_of n \<le> term_of n' \<and> commit_index n \<le> commit_index n' \<and> snapshot_index n \<le> snapshot_index n' \<and>
    (\<forall>k \<le> commit_index n. k \<le> snapshot_index n' \<or> entry_at n' k = entry_at n k)"
  using settle_all [OF lives_sound [OF assms(1)] assms(2)] assms(3) unfolding history_kept_def by (metis not_le old.prod.inject option.inject)

theorem committed_kept_witness: "term_of single_node \<le> term_of single_ready"
  using committed_kept [OF lives_single quiet_installs [OF single_first_tick] single_first_settle] by blast

text \<open>
  C5.  Crash recovery never fails.  Whatever a living node has on disk is accepted by
  \<open>restore_with_snapshot\<close>, and the node that starts from it has the same term, vote, log,
  snapshot, committed and effective configuration, resumes as a follower at the configuration
  watermark, and lives on.
\<close>

theorem restart_roundtrip:
  assumes "lives n" and "restartable n ps seed"
  shows "\<exists>n'. restore_with_snapshot (self_id n) ps seed (hard n) (snapshot n) (log n) = Some (Inr n') \<and> lives n' \<and>
    term_of n' = term_of n \<and> voted_for (hard n') = voted_for (hard n) \<and> log n' = log n \<and> snapshot n' = snapshot n \<and>
    committed_membership n' = committed_membership n \<and> effective_membership n' = effective_membership n \<and>
    role n' = Follower \<and> commit_index n' = max (snapshot_index n) (cm_index (committed_membership n))"
proof -
  obtain n' where r: "restore_with_snapshot (self_id n) ps seed (hard n) (snapshot n) (log n) = Some (Inr n')" "restored_as n n'"
    using restore_sound [OF lives_sound [OF assms(1)] assms(2)] by blast
  have "lives n'" by (rule Restart [OF assms r(1)])
  with r show ?thesis by (auto simp: restored_as_def)
qed

theorem restart_roundtrip_witness:
  "\<exists>n'. restore_with_snapshot 1 [2, 3] 9 (hard sample_node) (snapshot sample_node) (log sample_node) = Some (Inr n') \<and>
     lives n' \<and> committed_membership n' = sample_genesis"
proof -
  have "\<exists>n0. raft_new 1 [2, 3] 9 = Some n0 \<and> genesis_membership n0 = sample_genesis"
    using sample_node_new by (auto simp: raft_new_def fresh_node_def sample_node_def split: if_splits sum.splits)
  then have "restartable sample_node [2, 3] 9" by (auto simp: restartable_def)
  from restart_roundtrip [OF lives_sample this] show ?thesis by auto
qed

text \<open>
  C6.  The disk follows the node.  Executing the persistence effects of a unit of work, in order, on
  a disk that holds what the node held before yields a disk that holds what the node holds after:
  the same log, the same snapshot, and the same term, vote and membership.
\<close>

theorem disk_follows:
  assumes "lives n" and "installs_safely n inp" and "settle n inp = Some (n', es)"
    and "disk_log d = log n" "disk_snapshot d = snapshot n" "disk_hard d = hard n"
  shows "disk_log (persist_all es d) = log n' \<and> disk_snapshot (persist_all es d) = snapshot n' \<and>
    (recovery_refresh_hard n' \<or> disk_hard (persist_all es d) = hard n')"
  using settle_all [OF lives_sound [OF assms(1)] assms(2)] assms(3-) by (auto simp: durable_def)

theorem disk_follows_witness:
  "disk_log (persist_all [] \<lparr>disk_hard = hard single_node, disk_log = log single_node, disk_snapshot = snapshot single_node\<rparr>) =
     log single_ready"
  using disk_follows [OF lives_single quiet_installs [OF single_first_tick] single_first_settle,
      of "\<lparr>disk_hard = hard single_node, disk_log = log single_node, disk_snapshot = snapshot single_node\<rparr>"]
  by simp

text \<open>
  C15.  Entries are applied in order and exactly once.  The entries a step applies are, in this
  order, the log entries between the applied position before and the applied position after.
\<close>

theorem applied_in_order:
  assumes "lives n" and "step n inp = Some (n', es)" and "publishing_snapshot n' = None"
  shows "applies es = map (\<lambda>k. log n' ! (k - snapshot_index n' - 1)) [last_applied n + 1 ..< last_applied n' + 1]"
proof -
  have n: "sound n" by (rule lives_sound [OF assms(1)])
  have m: "sound n'" "moves n n' es" using step_sound [OF n, of inp] assms(2,3) by (auto simp: publishes_def)
  let ?s = "snapshot_index n'"
  have s: "snapshot_index n = ?s" "last_applied n \<le> last_applied n'" using m(2) by (auto simp: moves_def grows_def snapshot_index_def)
  have b: "?s \<le> last_applied n" "last_applied n' \<le> ?s + length (log n')"
    using sound_facts(4) [OF n] sound_facts(5,6) [OF m(1)] s(1) by auto
  have "log_slice n' (last_applied n) (last_applied n') =
      map (\<lambda>k. log n' ! (k - ?s - 1)) [last_applied n + 1 ..< last_applied n' + 1]"
  proof (rule nth_equalityI)
    fix k assume "k < length (log_slice n' (last_applied n) (last_applied n'))"
    then have k: "k < last_applied n' - last_applied n" using b by (simp add: log_slice_def)
    have "last_applied n + 1 + k - ?s - 1 = last_applied n - ?s + k" using b(1) by simp
    with k b show "log_slice n' (last_applied n) (last_applied n') ! k =
        map (\<lambda>k. log n' ! (k - ?s - 1)) [last_applied n + 1 ..< last_applied n' + 1] ! k"
      by (simp add: log_slice_def del: upt_Suc)
  qed (use b in \<open>simp add: log_slice_def del: upt_Suc\<close>)
  with m(2) show ?thesis by (simp add: moves_def)
qed

theorem applied_in_order_witness:
  "\<exists>n n2 es2. step n (ClientProposeBatch [Put ''k'' ''v'']) = Some (n2, es2) \<and>
     applies es2 = [log n2 ! (2 - snapshot_index n2 - 1)]"
proof -
  obtain n es n2 es2 where s: "step single_ready (Tick 2000) = Some (n, es)" "lives n" "is_leader n" "term_of n = 1"
    "last_applied n = 1" "publishing_snapshot n = None" "step n (ClientProposeBatch [Put ''k'' ''v'']) = Some (n2, es2)"
    "is_leader n2" "term_of n2 = 1" "publishing_snapshot n2 = None" "last_applied n2 = 2" by (rule single_leading)
  have "[last_applied n + 1 ..< last_applied n2 + 1] = [2]" using s(5,11) by (simp add: numeral_2_eq_2)
  with applied_in_order [OF s(2,7,10)] have "applies es2 = [log n2 ! (2 - snapshot_index n2 - 1)]" by simp
  with s(7) show ?thesis by blast
qed

text \<open>
  C16.  A leader only appends.  A step that starts and ends as the leader of one term leaves the
  existing log untouched and adds entries of that term at most.
\<close>

theorem leader_append_only:
  assumes "lives n" and "step n inp = Some (n', es)" and "publishing_snapshot n' = None"
    and "is_leader n" and "is_leader n'" and "term_of n' = term_of n"
  shows "\<exists>s. log n' = log n @ s \<and> (\<forall>e \<in> set s. e_term e = term_of n)"
proof -
  have "moves n n' es" using step_sound [OF lives_sound [OF assms(1)], of inp] assms(2,3) by (auto simp: publishes_def)
  with assms(4-) show ?thesis by (auto simp: moves_def leads_on_def)
qed

theorem leader_append_only_witness:
  "\<exists>n n2 es2 s. step n (ClientProposeBatch [Put ''k'' ''v'']) = Some (n2, es2) \<and> log n2 = log n @ s \<and>
     (\<forall>e \<in> set s. e_term e = 1)"
proof -
  obtain n es n2 es2 where s: "step single_ready (Tick 2000) = Some (n, es)" "lives n" "is_leader n" "term_of n = 1"
    "last_applied n = 1" "publishing_snapshot n = None" "step n (ClientProposeBatch [Put ''k'' ''v'']) = Some (n2, es2)"
    "is_leader n2" "term_of n2 = 1" "publishing_snapshot n2 = None" "last_applied n2 = 2" by (rule single_leading)
  from leader_append_only [OF s(2,7,10,3,8)] s(4,9) have "\<exists>x. log n2 = log n @ x \<and> (\<forall>e \<in> set x. e_term e = 1)" by simp
  with s(7) show ?thesis by blast
qed

end
