(* ===== verification/Ordering.thy ===== *)
theory Ordering
  imports Node_Safety
begin

text \<open>
  Persist before send.  Both drivers of the core audit every effect batch before they execute it:
  the simulator (\<^verbatim>\<open>sim/src/lib.rs\<close>) rejects a write that comes after a send, the server
  (\<^verbatim>\<open>kv-node/src/driver.rs\<close>) checks that each vote request, granted vote and successful
  append comes after the write it speaks for.  Here both audits are translated, and it is shown that
  no batch of \<open>step\<close> ever fails them.  The argument is one shape: a batch is a part that sends
  nothing, followed by a part that writes nothing, and only a batch that persisted the hard state asks
  for votes.
\<close>

section \<open>The audits\<close>

fun sim_audit_from :: "bool \<Rightarrow> effect list \<Rightarrow> unit fallible" where
  "sim_audit_from saw_send [] = Inr ()"
| "sim_audit_from saw_send (PersistHardState _ # es) =
     (if saw_send then Inl ''PersistHardState appears after a Send in one effect batch'' else sim_audit_from saw_send es)"
| "sim_audit_from saw_send (PersistLogEntries _ _ # es) =
     (if saw_send then Inl ''PersistLogEntries appears after a Send in one effect batch'' else sim_audit_from saw_send es)"
| "sim_audit_from saw_send (Send _ _ # es) = sim_audit_from True es"
| "sim_audit_from saw_send (_ # es) = sim_audit_from saw_send es"

definition sim_audit_persist_before_send :: "effect list \<Rightarrow> unit fallible" where
  "sim_audit_persist_before_send batch = sim_audit_from False batch"

fun position :: "('a \<Rightarrow> bool) \<Rightarrow> 'a list \<Rightarrow> nat option" where
  "position P [] = None"
| "position P (x # xs) = (if P x then Some 0 else map_option Suc (position P xs))"

fun is_persist_log :: "effect \<Rightarrow> bool" where
  "is_persist_log (PersistLogEntries _ _) = True"
| "is_persist_log _ = False"

definition require_prior :: "nat option \<Rightarrow> nat \<Rightarrow> string \<Rightarrow> unit fallible" where
  "require_prior persist_at send_at message =
     (case persist_at of
        Some at \<Rightarrow> if at < send_at then Inr () else Inl message
      | None \<Rightarrow> Inl message)"

definition inner_message :: "raft_message \<Rightarrow> raft_message" where
  "inner_message msg = (case msg of GroupMessage _ _ inner \<Rightarrow> inner | _ \<Rightarrow> msg)"

definition audit_message :: "nat option \<Rightarrow> nat option \<Rightarrow> nat \<Rightarrow> raft_message \<Rightarrow> unit fallible" where
  "audit_message first_hard first_log send_at msg =
     (case msg of
        RequestVote _ _ _ _ \<Rightarrow> require_prior first_hard send_at ''RequestVote must follow PersistHardState''
      | RequestVoteReply _ granted \<Rightarrow>
          if granted \<and> first_hard \<noteq> None
          then require_prior first_hard send_at ''granted RequestVoteReply precedes PersistHardState'' else Inr ()
      | AppendEntriesReply _ success _ _ _ \<Rightarrow>
          if success \<and> first_log \<noteq> None
          then require_prior first_log send_at ''successful AppendEntriesReply precedes PersistLogEntries'' else Inr ()
      | _ \<Rightarrow> Inr ())"

fun driver_audit_from :: "nat option \<Rightarrow> nat option \<Rightarrow> nat \<Rightarrow> effect list \<Rightarrow> unit fallible" where
  "driver_audit_from first_hard first_log send_at [] = Inr ()"
| "driver_audit_from first_hard first_log send_at (Send _ msg # es) =
     rbind (audit_message first_hard first_log send_at (inner_message msg))
       (\<lambda>_. driver_audit_from first_hard first_log (send_at + 1) es)"
| "driver_audit_from first_hard first_log send_at (_ # es) = driver_audit_from first_hard first_log (send_at + 1) es"

definition driver_audit_persist_before_send :: "effect list \<Rightarrow> unit fallible" where
  "driver_audit_persist_before_send batch =
     driver_audit_from (position is_persist_hard batch) (position is_persist_log batch) 0 batch"

section \<open>The shape of a batch\<close>

fun writes :: "effect \<Rightarrow> bool" where
  "writes (PersistHardState _) = True"
| "writes (PersistLogEntries _ _) = True"
| "writes (PublishSnapshot _ _ _) = True"
| "writes _ = False"

fun asks :: "effect \<Rightarrow> bool" where
  "asks (Send _ msg) = (case inner_message msg of RequestVote _ _ _ _ \<Rightarrow> True | _ \<Rightarrow> False)"
| "asks _ = False"

abbreviation unsent :: "effect \<Rightarrow> bool" where
  "unsent e \<equiv> \<not> is_send e"

abbreviation modest :: "effect \<Rightarrow> bool" where
  "modest e \<equiv> \<not> writes e \<and> \<not> asks e"

definition orderly :: "effect list \<Rightarrow> bool" where
  "orderly es \<longleftrightarrow> (\<exists>pre post. es = pre @ post \<and> list_all unsent pre \<and> list_all (\<lambda>e. \<not> writes e) post \<and>
     (list_ex asks post \<longrightarrow> list_ex is_persist_hard pre))"

text \<open>Only these effects are pushed by the action, if it returns.\<close>

abbreviation emits :: "(effect \<Rightarrow> bool) \<Rightarrow> raft_node \<Rightarrow> node_outcome \<Rightarrow> bool" where
  "emits Q \<equiv> keeps (\<lambda>_ _. list_all Q) (\<lambda>_. True)"

abbreviation ordered :: "raft_node \<Rightarrow> node_outcome \<Rightarrow> bool" where
  "ordered \<equiv> keeps (\<lambda>_ _. orderly) (\<lambda>_. True)"

named_theorems emit_intros

section \<open>An orderly batch passes both audits\<close>

lemma sim_audit_unwritten: "list_all (\<lambda>e. \<not> writes e) es \<Longrightarrow> sim_audit_from b es = Inr ()"
proof (induction es arbitrary: b)
  case (Cons e es)
  then show ?case by (cases e) auto
qed simp

lemma sim_audit_pre: "list_all unsent pre \<Longrightarrow> sim_audit_from False (pre @ post) = sim_audit_from False post"
proof (induction pre)
  case (Cons e es)
  then show ?case by (cases e) auto
qed simp

lemma orderly_sim_audit: "orderly es \<Longrightarrow> sim_audit_persist_before_send es = Inr ()"
  by (auto simp: orderly_def sim_audit_persist_before_send_def sim_audit_pre sim_audit_unwritten)

lemma position_append: "position P (xs @ ys) =
    (if list_ex P xs then position P xs else map_option (\<lambda>i. length xs + i) (position P ys))"
  by (induction xs; cases "position P ys") auto

lemma position_Some: "list_ex P xs \<Longrightarrow> \<exists>i < length xs. position P xs = Some i"
  by (induction xs) force+

lemma position_None: "\<not> list_ex P xs \<Longrightarrow> position P xs = None"
  by (induction xs) auto

lemma driver_audit_silent: "list_all unsent pre \<Longrightarrow>
    driver_audit_from h l k (pre @ post) = driver_audit_from h l (k + length pre) post"
proof (induction pre arbitrary: k)
  case (Cons e es)
  then show ?case by (cases e) auto
qed simp

lemma driver_audit_post:
  assumes "\<And>i. h = Some i \<Longrightarrow> i < k" "\<And>i. l = Some i \<Longrightarrow> i < k" "list_ex asks es \<Longrightarrow> h \<noteq> None"
  shows "driver_audit_from h l k es = Inr ()"
  using assms
proof (induction es arbitrary: k)
  case (Cons e es)
  have rest: "driver_audit_from h l (k + 1) es = Inr ()"
    by (rule Cons.IH) (use Cons.prems in \<open>auto intro: less_SucI\<close>)
  show ?case
  proof (cases e)
    case (Send to msg)
    have "audit_message h l k (inner_message msg) = Inr ()"
      using Cons.prems Send by (cases "inner_message msg") (auto simp: audit_message_def require_prior_def split: option.splits)
    with Send rest show ?thesis by simp
  qed (use rest in simp_all)
qed simp

lemma orderly_driver_audit:
  assumes "orderly es"
  shows "driver_audit_persist_before_send es = Inr ()"
proof -
  obtain pre post where es: "es = pre @ post" "list_all unsent pre" "list_all (\<lambda>e. \<not> writes e) post"
    "list_ex asks post \<Longrightarrow> list_ex is_persist_hard pre" using assms by (auto simp: orderly_def)
  have none: "\<not> list_ex is_persist_hard post" "\<not> list_ex is_persist_log post"
  proof -
    have "is_persist_hard e \<Longrightarrow> writes e" "is_persist_log e \<Longrightarrow> writes e" for e by (cases e; simp)+
    with es(3) show "\<not> list_ex is_persist_hard post" "\<not> list_ex is_persist_log post"
      by (auto simp: list_all_iff list_ex_iff)
  qed
  have at: "i < length pre" if "position P (pre @ post) = Some i" "\<not> list_ex P post" for P i
    using that position_Some [of P pre] by (auto simp: position_append position_None split: if_splits)
  have "driver_audit_from (position is_persist_hard es) (position is_persist_log es) (length pre) post = Inr ()"
  proof (rule driver_audit_post)
    assume "list_ex asks post"
    then have "list_ex is_persist_hard pre" by (rule es(4))
    with position_Some [of is_persist_hard pre] show "position is_persist_hard es \<noteq> None"
      by (auto simp: es(1) position_append)
  qed (use at none es(1) in auto)
  with driver_audit_silent [OF es(2)] show ?thesis by (simp add: driver_audit_persist_before_send_def es(1))
qed

section \<open>Composing batches\<close>

interpretation emits: effect_relation "\<lambda>_ _. list_all Q" "\<lambda>_. True" for Q
  by unfold_locales auto

lemma emits_modify: "emits Q n (modify f n)"
  by (simp add: modify_def)

lemma emits_push: "Q e \<Longrightarrow> emits Q n (push e n)"
  by (simp add: push_def)

lemma emits_push_all: "list_all Q es \<Longrightarrow> emits Q n (push_all es n)"
  by (simp add: push_all_def)

lemmas emit_blocks = emits.keeps_skip emits.keeps_run_Cons emits.keeps_run_Nil emits.keeps_for_each
  emits_modify emits_push emits_push_all

lemma emits_mono: "emits Q n m \<Longrightarrow> (\<And>e. Q e \<Longrightarrow> Q' e) \<Longrightarrow> emits Q' n m"
  by (erule keeps_mono) (auto simp: list_all_iff)

lemma quiet_emits: "keeps quiet P n m \<Longrightarrow> emits modest n m"
proof (erule keeps_mono)
  have "modest e" if "quiet_effect e" for e
  proof (cases e)
    case (Send to msg)
    have "\<not> (case inner_message msg of RequestVote _ _ _ _ \<Rightarrow> True | _ \<Rightarrow> False)"
      using that Send by (cases msg) (auto simp: inner_message_def split: raft_message.splits)
    with Send show ?thesis by simp
  qed (use that in simp_all)
  then show "list_all modest es" if "quiet n t es" for t es using that by (auto simp: quiet_def list_all_iff)
qed simp

lemma ordered_silent: "emits unsent n m \<Longrightarrow> ordered n m"
proof (erule keeps_mono)
  show "orderly es" if "list_all unsent es" for es
    unfolding orderly_def using that by (intro exI [of _ es] exI [of _ "[]"]) simp
qed simp

lemma ordered_modest: "emits modest n m \<Longrightarrow> ordered n m"
proof (erule keeps_mono)
  show "orderly es" if "list_all modest es" for es
    unfolding orderly_def using that by (intro exI [of _ "[]"] exI [of _ es]) (auto simp: list_all_iff list_ex_iff)
qed simp

lemma orderly_silent_append: "list_all unsent xs \<Longrightarrow> orderly ys \<Longrightarrow> orderly (xs @ ys)"
proof -
  assume xs: "list_all unsent xs" and "orderly ys"
  then obtain pre post where "ys = pre @ post" "list_all unsent pre" "list_all (\<lambda>e. \<not> writes e) post"
    "list_ex asks post \<longrightarrow> list_ex is_persist_hard pre" by (auto simp: orderly_def)
  with xs show ?thesis unfolding orderly_def by (intro exI [of _ "xs @ pre"] exI [of _ post]) simp
qed

lemma orderly_append_modest: "orderly xs \<Longrightarrow> list_all modest ys \<Longrightarrow> orderly (xs @ ys)"
proof -
  assume "orderly xs" and ys: "list_all modest ys"
  then obtain pre post where "xs = pre @ post" "list_all unsent pre" "list_all (\<lambda>e. \<not> writes e) post"
    "list_ex asks post \<longrightarrow> list_ex is_persist_hard pre" by (auto simp: orderly_def)
  with ys show ?thesis unfolding orderly_def
    by (intro exI [of _ pre] exI [of _ "post @ ys"]) (auto simp: list_all_iff list_ex_iff)
qed

lemma ordered_run_Cons:
  "emits unsent n (a n) \<Longrightarrow> (\<And>t es. a n = Some (t, es) \<Longrightarrow> ordered t (run as t)) \<Longrightarrow> ordered n (run (a # as) n)"
  unfolding run_Cons act_seq_def by (auto simp: keeps_def intro: orderly_silent_append split: option.splits)

lemma ordered_run_modest:
  "ordered n (a n) \<Longrightarrow> (\<And>t es. a n = Some (t, es) \<Longrightarrow> emits modest t (run as t)) \<Longrightarrow> ordered n (run (a # as) n)"
  unfolding run_Cons act_seq_def by (auto simp: keeps_def intro: orderly_append_modest split: option.splits)

lemma ordered_modify: "ordered n (modify f n)"
  by (simp add: ordered_silent emits_modify)

lemma ordered_skip: "ordered n (skip n)"
  by (simp add: ordered_silent emits.keeps_skip)

lemma ordered_push: "\<not> asks e \<Longrightarrow> ordered n (push e n)"
  by (cases "is_send e"; cases e) (auto intro!: emits_push intro: ordered_silent [OF emits_push] ordered_modest [OF emits_push])

lemma ordered_run_single: "ordered n (a n) \<Longrightarrow> ordered n (run [a] n)"
  by (simp add: run.simps(2))

section \<open>Actions that never send\<close>

abbreviation plain :: "effect \<Rightarrow> bool" where
  "plain e \<equiv> \<not> is_send e \<and> (writes e \<longrightarrow> is_persist_hard e)"

lemma plain_silent: "emits plain n m \<Longrightarrow> emits unsent n m"
  by (erule emits_mono) simp

lemma plain_reject_pending_reads [emit_intros]: "emits plain n (reject_pending_reads r n)"
  unfolding reject_pending_reads_def by (auto intro!: emit_blocks simp: list_all_iff)

lemma plain_become_follower [emit_intros]: "emits plain n (become_follower n)"
  unfolding become_follower_def by (auto intro!: emit_blocks emit_intros)

lemma plain_cancel_incoming [emit_intros]: "emits plain n (cancel_incoming_snapshot n)"
  unfolding cancel_incoming_snapshot_def by (auto intro!: emit_blocks emit_intros split: option.splits)

lemma plain_adopt_term [emit_intros]: "emits plain n (adopt_term t n)"
  unfolding adopt_term_def by (auto intro!: emit_blocks emit_intros)

lemma plain_restart_round [emit_intros]: "emits plain n (restart_quorum_round n)"
  unfolding restart_quorum_round_def by (auto intro!: emit_blocks emit_intros split: option.splits)

lemma plain_refresh [emit_intros]: "emits plain n (refresh_effective_membership n)"
  unfolding refresh_effective_membership_def Let_def
  by (auto intro!: emit_blocks emit_intros simp: panic_def split: sum.splits)

lemma plain_apply_committed [emit_intros]: "emits plain n (apply_committed n)"
  by (simp add: apply_committed_eq list_all_iff)

lemma plain_advance_commit [emit_intros]: "emits plain n (advance_commit i n)"
  unfolding advance_commit_def Let_def
  by (auto intro!: emit_blocks emit_intros simp: panic_def split: sum.splits)

lemma plain_on_recover [emit_intros]: "emits plain n (on_recover n)"
  unfolding on_recover_def by (auto intro!: emit_blocks emit_intros)

lemma plain_on_append_entries_reply [emit_intros]: "emits plain n (on_append_entries_reply f t s m r c n)"
  unfolding on_append_entries_reply_def
  by (auto intro!: emit_blocks emit_intros split: option.splits role.splits)

lemma plain_cancel_read [emit_intros]: "emits plain n (cancel_read r n)"
  unfolding cancel_read_def by (auto intro!: emit_blocks emit_intros)

lemmas silent_intros = emit_blocks emit_intros [THEN plain_silent]

lemma silent_append_configuration:
  "append_configuration ce n = Some (r, n', es) \<Longrightarrow> list_all unsent es"
proof -
  have "emits unsent n (run [modify (\<lambda>n. n\<lparr>log := log n @ [e]\<rparr>), push (PersistLogEntries None [e]),
      refresh_effective_membership, (\<lambda>n. case quorum_commit_candidate n of Some c \<Rightarrow> advance_commit c n | None \<Rightarrow> skip n)] n)" for e
    by (auto intro!: silent_intros split: option.splits)
  then show "append_configuration ce n = Some (r, n', es) \<Longrightarrow> list_all unsent es"
    by (auto simp: append_configuration_def Let_def split: option.splits if_splits dest!: keepsD)
qed

lemma silent_maybe_finalize: "emits unsent n (maybe_finalize_membership n)"
  unfolding maybe_finalize_membership_def
  by (auto simp: keeps_def skip_def split: option.splits dest: silent_append_configuration)

lemma silent_on_membership_change: "emits unsent n (on_membership_change rid op n)"
  unfolding on_membership_change_def admit_membership_def Let_def
  by (auto simp: keeps_def admit_change_def split: option.splits if_splits sum.splits admin_operation.splits
      dest: silent_append_configuration)

lemma silent_propose: "emits unsent n (on_client_propose_batch cs n)"
  unfolding on_client_propose_batch_def Let_def
  by (auto intro!: silent_intros simp: list_all_iff)

lemma silent_on_compact: "emits unsent n (on_compact d n)"
  unfolding on_compact_def Let_def snapshot_reject_def by (auto intro!: silent_intros)

lemma silent_store_entries: "emits unsent n (store_entries es n)"
  by (cases "merge_entries n None [] es")
    (auto simp: store_entries_def run.simps act_seq_def modify_def push_def skip_def)

section \<open>Actions that only send\<close>

interpretation modest: message_relation "\<lambda>_ _. list_all modest" "\<lambda>_. True"
proof unfold_locales
  show "list_all modest es" if "quiet n n' es" for n n' es
    using quiet_emits [of "\<lambda>_. False" n "Some (n', es)"] that by simp
qed (simp_all add: append_message_def inner_message_def)

lemmas modest_intros = emit_blocks modest.keeps_send_append_entries keeps_intros [THEN quiet_emits]

section \<open>Elections\<close>

lemma ordered_any: "ordered m k \<Longrightarrow> ordered n k"
  by (simp add: keeps_def)

lemmas order_plain = emit_intros [THEN plain_silent, THEN ordered_silent, THEN ordered_any]

lemma plain_parts:
  assumes "list_all plain cs"
  shows "list_all unsent (filter is_persist_hard cs)" "list_all modest (filter (\<lambda>e. \<not> is_persist_hard e) cs)"
proof -
  have "\<not> asks e" if "\<not> is_send e" for e using that by (cases e) auto
  with assms show "list_all unsent (filter is_persist_hard cs)" "list_all modest (filter (\<lambda>e. \<not> is_persist_hard e) cs)"
    by (auto simp: list_all_iff)
qed

lemma ordered_become_leader: "ordered n (become_leader n)"
proof (cases "\<exists>nx. checked_add (last_log_index n) 1 = Some nx \<and> nx < u64_max")
  case True
  then obtain nx where nx: "checked_add (last_log_index n) 1 = Some nx" "nx < u64_max" by blast
  let ?noop = "\<lparr>index = nx, e_term = term_of n, command = NoOp\<rparr>"
  let ?n1 = "(install_leader nx n)\<lparr>log := log n @ [?noop]\<rparr>"
  let ?commit = "if self_quorum ?n1 then advance_commit (last_log_index ?n1) ?n1 else skip ?n1"
  show ?thesis
  proof (cases ?commit)
    case None
    then show ?thesis unfolding become_leader_def nx(1) option.case if_P [OF nx(2)] Let_def None by simp
  next
    case (Some r)
    obtain n2 cs where r: "r = (n2, cs)" by force
    have "emits plain ?n1 ?commit" by (auto intro!: emit_blocks emit_intros)
    then have "list_all plain cs" using Some unfolding r by (rule keepsD)
    note parts = plain_parts [OF this]
    have rest: "emits modest t (run [push_all (filter (\<lambda>e. \<not> is_persist_hard e) cs)] t)" for t
      using emits_push_all [OF parts(2)] by (simp add: run.simps(2))
    have "ordered n2 (run [push (PersistLogEntries None [?noop]), push_all (filter is_persist_hard cs),
        (\<lambda>n. push (RoleChanged ''Leader'' (term_of n)) n), send_append_entries,
        modify (\<lambda>n. n\<lparr>heartbeat_due_ms := saturating_add (now_ms n) HEARTBEAT_MS\<rparr>),
        push_all (filter (\<lambda>e. \<not> is_persist_hard e) cs)] n2)"
      by (rule ordered_run_Cons, (auto intro!: emit_blocks)[1], rule ordered_run_Cons, rule emits_push_all, rule parts(1),
          rule ordered_modest) (auto intro!: modest_intros rest)
    then show ?thesis
      unfolding become_leader_def nx(1) option.case if_P [OF nx(2)] Let_def Some r prod.case by (rule ordered_any)
  qed
next
  case False
  then show ?thesis
    by (auto simp: become_leader_def Let_def intro!: ordered_silent silent_intros split: option.splits)
qed

lemma ordered_ask:
  assumes "emits (\<lambda>e. \<not> writes e) t (run as t) \<or> ordered t (run as t)"
  shows "ordered t (run ((\<lambda>n. push (PersistHardState (h n)) n) # as) t)"
proof -
  have "orderly (PersistHardState x # es)" if "list_all (\<lambda>e. \<not> writes e) es" for x es
    unfolding orderly_def using that by (intro exI [of _ "[PersistHardState x]"] exI [of _ es]) simp
  then show ?thesis
    using assms orderly_silent_append [of "[PersistHardState (h t)]"]
    unfolding run_Cons act_seq_def by (auto simp: keeps_def push_def split: option.splits)
qed

lemma ordered_start_election: "ordered n (start_election n)"
proof -
  have asking: "emits (\<lambda>e. \<not> writes e) m (solicit_vote p m)" for p m
    unfolding solicit_vote_def
    by (auto intro!: emit_blocks quiet_advertise_membership [THEN quiet_emits, THEN emits_mono])
  have "ordered m (run [(\<lambda>n. push (PersistHardState (hard n)) n),
      (\<lambda>n. if self_quorum n then become_leader n
           else run [push (RoleChanged ''Candidate'' (term_of n)), for_each (peers n) solicit_vote] n)] m)" for m
    by (cases "self_quorum m")
      (auto intro!: ordered_ask emit_blocks asking ordered_become_leader simp: run.simps(2))
  then show ?thesis
    unfolding start_election_def
    by (auto simp: run_modify run.simps(2) intro: ordered_any order_plain ordered_skip split: option.splits)
qed

lemma ordered_start_pre_vote: "ordered n (start_pre_vote n)"
proof -
  have probing: "emits modest m (run [push (RoleChanged ''PreCandidate'' t), for_each ps (solicit_pre_vote pt cid)] m)" for m t ps pt cid
    unfolding solicit_pre_vote_def by (auto intro!: emit_blocks quiet_advertise_membership [THEN quiet_emits] simp: inner_message_def)
  have "ordered m (run [modify f, modify g, (\<lambda>n. if self_quorum n then start_election n
      else run [push (RoleChanged ''PreCandidate'' (term_of n)), for_each (peers n) (solicit_pre_vote pt cid)] n)] m)" for m f g pt cid
    by (simp add: run_modify run.simps(2) ordered_any [OF ordered_start_election] ordered_any [OF ordered_modest [OF probing]])
  then show ?thesis
    unfolding start_pre_vote_def Let_def
    by (auto intro!: ordered_run_Cons silent_intros ordered_run_single ordered_skip order_plain split: option.splits)
qed

lemma ordered_on_request_vote: "ordered n (on_request_vote t c li lt n)"
  unfolding on_request_vote_def Let_def
  by (auto intro!: ordered_run_Cons silent_intros ordered_run_single ordered_skip order_plain ordered_push
      simp: inner_message_def)

lemma ordered_on_request_vote_reply: "ordered n (on_request_vote_reply f t g n)"
  unfolding on_request_vote_reply_def Let_def
  by (auto intro!: ordered_run_Cons silent_intros ordered_run_single ordered_skip ordered_become_leader split: role.splits)

lemma ordered_on_pre_vote_reply: "ordered n (on_pre_vote_reply f t pt cid g n)"
  unfolding on_pre_vote_reply_def Let_def
  by (auto intro!: ordered_run_Cons silent_intros ordered_run_single ordered_skip ordered_start_election split: role.splits)

section \<open>Replication, reads and snapshots\<close>

lemma ordered_accept_entries: "ordered n (accept_entries ldr prev pt es pl lc r n)"
proof -
  have "ordered m (run [store_entries es,
      (\<lambda>n. let new_commit = min lc pl
           in if new_commit > commit_index n then advance_commit new_commit n else refresh_effective_membership n),
      append_reply ldr True pl r None] m)" for m
    by (auto intro!: ordered_run_Cons silent_intros silent_store_entries ordered_run_single ordered_push
        simp: append_reply_def Let_def inner_message_def)
  then show ?thesis
    unfolding accept_entries_def append_reply_def
    by (auto intro!: ordered_push simp: inner_message_def panic_def split: option.splits)
qed

lemma ordered_on_append_entries: "ordered n (on_append_entries t ldr prev pt es pl lc r n)"
  unfolding on_append_entries_def
  by (auto intro!: ordered_run_Cons silent_intros ordered_run_single ordered_accept_entries ordered_push
      simp: append_reply_def inner_message_def)

lemma ordered_on_install_snapshot_reply: "ordered n (on_install_snapshot_reply f t tr no m a i r n)"
proof -
  have "ordered m (run [modify g, on_append_entries_reply f t True mt 0 None, send_append_entries] m)" for m g mt
    by (auto intro!: ordered_run_Cons silent_intros ordered_run_single ordered_modest [OF modest.keeps_send_append_entries])
  moreover have "ordered m (run [modify g, send_snapshot_chunk f] m)" for m g
    by (auto intro!: ordered_run_Cons silent_intros ordered_run_single ordered_modest [OF quiet_emits [OF quiet_send_snapshot_chunk]])
  ultimately have "ordered (h m) ((if i then run [modify g, on_append_entries_reply f t True mt 0 None, send_append_entries]
      else run [modify g', send_snapshot_chunk f]) (h m))" for m h g g' mt
    by (cases i) simp_all
  then have "ordered m (run [modify h, (if i then run [modify g, on_append_entries_reply f t True mt 0 None, send_append_entries]
      else run [modify g', send_snapshot_chunk f])] m)" for m h g g' mt
    unfolding run_modify run.simps(2) by (rule ordered_any)
  moreover have "ordered m (run [modify h, modify g] m)" for m h g
    by (auto intro!: ordered_silent silent_intros)
  ultimately show ?thesis
    unfolding on_install_snapshot_reply_def Let_def by (auto intro!: ordered_skip split: option.splits)
qed

lemma modest_on_read_index: "emits modest n (on_read_index rid n)"
  unfolding on_read_index_def Let_def send_probe_def
  by (auto intro!: emit_blocks simp: inner_message_def split: option.splits)

lemma ordered_on_read_probe: "ordered n (on_read_probe t ldr ctx n)"
  unfolding on_read_probe_def Let_def
  by (auto intro!: ordered_run_Cons silent_intros ordered_run_single ordered_push simp: inner_message_def)

lemma modest_on_read_probe_reply: "emits modest n (on_read_probe_reply f t ctx a n)"
  unfolding on_read_probe_reply_def Let_def by (auto intro!: emit_blocks split: option.splits)

lemma modest_refuse: "emits modest n (refuse_snapshot tr no n)"
  unfolding refuse_snapshot_def snapshot_reply_def by (auto intro!: emit_blocks simp: inner_message_def)

lemma ordered_on_snapshot_chunk_staged: "ordered n (on_snapshot_chunk_staged tr d off r n)"
proof -
  have "ordered m (chunk_staged_ok tr d active ee rd no c m)" for m active ee rd no c
    unfolding chunk_staged_ok_def Let_def snapshot_reply_def
    by (auto intro!: ordered_run_Cons silent_intros ordered_run_single ordered_push ordered_modest [OF modest_refuse]
        simp: inner_message_def)
  then show ?thesis
    unfolding on_snapshot_chunk_staged_def
    by (auto intro!: ordered_run_Cons silent_intros ordered_run_single ordered_skip ordered_modest [OF modest_refuse]
        split: option.splits snapshot_stage_result.splits)
qed

lemma ordered_on_snapshot_published: "ordered n (on_snapshot_published tr d n)"
proof -
  have "ordered m (install_published t d r m)" for m t r
    unfolding install_published_def snapshot_reply_def
    by (auto intro!: ordered_run_Cons silent_intros ordered_run_single ordered_push
        simp: inner_message_def split: option.splits)
  then show ?thesis
    unfolding on_snapshot_published_def
    by (auto intro!: ordered_run_Cons silent_intros ordered_run_single ordered_skip split: option.splits)
qed

section \<open>The whole step\<close>

lemma ordered_tick_leader: "ordered n (tick_leader now n)"
proof -
  let ?beat = "\<lambda>n. if \<not> is_leader n then skip n
    else if heartbeat_due_ms n \<le> now
    then run [send_append_entries, modify (\<lambda>n. n\<lparr>heartbeat_due_ms := saturating_add now HEARTBEAT_MS\<rparr>)] n else skip n"
  have "ordered m (run [?beat] m)" for m by (rule ordered_modest) (auto intro!: modest_intros)
  then have tail: "ordered m (run [maybe_finalize_membership, ?beat] m)" for m
    by (rule ordered_run_Cons [OF silent_maybe_finalize])
  then have "ordered m (run [modify f, maybe_finalize_membership, ?beat] m)" for m f
    by (simp only: run_modify ordered_any [OF tail])
  moreover have "ordered m (run [become_follower, modify f] m)" for m f
    by (auto intro!: ordered_silent silent_intros)
  ultimately show ?thesis unfolding tick_leader_def Let_def using tail by (auto split: option.split)
qed

lemma ordered_on_tick: "ordered n (on_tick now n)"
  unfolding on_tick_def
  by (auto intro!: ordered_run_Cons silent_intros ordered_run_single ordered_skip ordered_start_pre_vote
      ordered_tick_leader order_plain ordered_modify)

lemma ordered_dispatch: "ordered n (dispatch f msg al n)"
  unfolding dispatch_def
  by (cases msg)
    (auto intro!: ordered_skip order_plain ordered_on_request_vote ordered_on_request_vote_reply ordered_on_pre_vote_reply
      ordered_on_append_entries ordered_on_install_snapshot_reply ordered_on_read_probe ordered_modest [OF modest_on_read_probe_reply]
      ordered_modest [OF quiet_emits [OF quiet_on_install_snapshot]] ordered_push
      simp: panic_def on_pre_vote_def inner_message_def split: option.splits)

lemma ordered_on_message: "ordered n (on_message f wire n)"
proof -
  have "ordered m (process_message f msg m)" for m msg
    unfolding process_message_def append_reply_def
    by (auto intro!: ordered_run_Cons silent_intros ordered_run_single ordered_dispatch ordered_push
        simp: inner_message_def split: option.splits raft_message.splits)
  then show ?thesis
    unfolding on_message_def
    by (auto intro!: ordered_skip ordered_modest [OF quiet_emits [OF quiet_on_membership_advertisement]]
        split: option.splits raft_message.splits)
qed

lemma ordered_handle: "ordered n (handle inp n)"
  unfolding handle_def on_client_propose_def
  by (cases inp)
    (auto intro!: order_plain ordered_on_tick ordered_on_message ordered_silent [OF silent_on_membership_change]
      ordered_silent [OF silent_propose] ordered_modest [OF modest_on_read_index] ordered_silent [OF silent_on_compact]
      ordered_modest [OF quiet_emits [OF quiet_on_snapshot_chunk_read]] ordered_on_snapshot_chunk_staged ordered_on_snapshot_published)

lemma orderly_wrap: "orderly es \<Longrightarrow> orderly (wrap_group_effects n es)"
proof -
  have w: "is_send (wrap_send g vs e) = is_send e" "writes (wrap_send g vs e) = writes e"
    "is_persist_hard (wrap_send g vs e) = is_persist_hard e" "asks (wrap_send g vs e) = asks e" for g vs e
    by (cases e; simp add: inner_message_def split: raft_message.split)+
  assume "orderly es"
  then obtain pre post where "es = pre @ post" "list_all unsent pre" "list_all (\<lambda>e. \<not> writes e) post"
    "list_ex asks post \<longrightarrow> list_ex is_persist_hard pre" by (auto simp: orderly_def)
  moreover from this have "orderly (map (wrap_send g vs) es)" for g vs
    unfolding orderly_def
    by (intro exI [of _ "map (wrap_send g vs) pre"] exI [of _ "map (wrap_send g vs) post"])
      (auto simp: list_all_iff list_ex_iff w )
  ultimately show ?thesis using \<open>orderly es\<close> by (simp add: wrap_group_effects_def Let_def)
qed

lemma step_orderly: "step n inp = Some (n', es) \<Longrightarrow> orderly es"
  using ordered_handle [of n inp]
  by (auto simp: step_def keeps_def orderly_wrap split: if_splits option.splits)
    (auto simp: orderly_def)

text \<open>
  C8.  No batch of effects ever fails an audit: every \<open>step\<close>, on any node and any input, returns
  effects that the simulator's and the server's persist-before-send audits both accept.
\<close>

theorem audits_pass:
  assumes "step n inp = Some (n', es)"
  shows "sim_audit_persist_before_send es = Inr () \<and> driver_audit_persist_before_send es = Inr ()"
  using orderly_sim_audit orderly_driver_audit step_orderly [OF assms] by blast

theorem audits_pass_witness:
  "\<exists>n' es. step sample_node (Message 2 (RequestVote 1 2 0 0)) = Some (n', es) \<and>
     driver_audit_persist_before_send es = Inr ()"
  using sample_vote_step audits_pass by blast

text \<open>
  C7.  Persist before send.  When a living node sends a message, the disk already holds the term,
  the vote, the membership, the log and the snapshot the node holds after the step: nothing that is
  written later in the batch, or after it, is needed to make good on the message.
\<close>

theorem persist_before_send:
  assumes "lives n" and "step n inp = Some (n', pre @ Send to msg # post)" and "publishing_snapshot n' = None"
    and "disk_log d = log n" "disk_snapshot d = snapshot n" "disk_hard d = hard n"
  shows "disk_log (persist_all pre d) = log n' \<and> disk_snapshot (persist_all pre d) = snapshot n' \<and>
    (recovery_refresh_hard n' \<or> disk_hard (persist_all pre d) = hard n')"
proof -
  obtain xs ys where xs: "pre @ Send to msg # post = xs @ ys" "list_all unsent xs" "list_all (\<lambda>e. \<not> writes e) ys"
    using step_orderly [OF assms(2)] by (auto simp: orderly_def)
  have "list_all (\<lambda>e. \<not> writes e) (Send to msg # post)"
  proof -
    from xs(1) obtain us where "pre = xs @ us \<and> us @ Send to msg # post = ys \<or> pre @ us = xs \<and> Send to msg # post = us @ ys"
      by (auto simp: append_eq_append_conv2)
    with xs(2,3) show ?thesis by (cases us) auto
  qed
  moreover have "persist_all es e = e" if "list_all (\<lambda>e. \<not> writes e) es" for es e
    using that
  proof (induction es arbitrary: e)
    case (Cons x es)
    then show ?case by (cases x) auto
  qed simp
  ultimately have "persist_all (pre @ Send to msg # post) d = persist_all pre d" by (metis persist_all_simps(3))
  moreover have "moves n n' (pre @ Send to msg # post)"
    using step_sound [OF lives_sound [OF assms(1)], of inp] assms(2,3) by (auto simp: publishes_def)
  then have "durable n' (persist_all (pre @ Send to msg # post) d)" using assms(4-) by (auto simp: moves_def durable_def)
  ultimately show ?thesis by (simp add: durable_def)
qed

lemma sample_vote_quiet:
  "\<exists>n' es. step sample_node (Message 2 (RequestVote 1 2 0 0)) = Some (n', es) \<and> Send 2 (RequestVoteReply 1 True) \<in> set es \<and>
     publishing_snapshot n' = None \<and> \<not> recovery_refresh_hard n'"
  by (simp add: sample_step_defs may_vote_for_def on_request_vote_def decide_vote_def last_log_index_def last_log_term_def
      snapshot_index_def snapshot_term_def reset_election_deadline_def voter_config_def committed_membership_def
      sample_node_def fresh_node_def split: prod.splits)

theorem persist_before_send_witness:
  "\<exists>n' pre post. step sample_node (Message 2 (RequestVote 1 2 0 0)) = Some (n', pre @ Send 2 (RequestVoteReply 1 True) # post) \<and>
     disk_hard (persist_all pre \<lparr>disk_hard = hard sample_node, disk_log = [], disk_snapshot = None\<rparr>) = hard n'"
proof -
  obtain n' es where s: "step sample_node (Message 2 (RequestVote 1 2 0 0)) = Some (n', es)"
    "Send 2 (RequestVoteReply 1 True) \<in> set es" "publishing_snapshot n' = None" "\<not> recovery_refresh_hard n'"
    using sample_vote_quiet by blast
  from split_list [OF s(2)] obtain pre post where es: "es = pre @ Send 2 (RequestVoteReply 1 True) # post" by blast
  from persist_before_send [OF lives_sample s(1) [unfolded es] s(3),
      of "\<lparr>disk_hard = hard sample_node, disk_log = [], disk_snapshot = None\<rparr>"] s(1,4) es
  show ?thesis by auto
qed

end
