(* ===== verification/Application.thy ===== *)
theory Application
  imports Types Bytes
begin

text \<open>
  \<^verbatim>\<open>kv-node/src/application.rs\<close>: the deterministic application behind the log.  It applies committed
  commands in log order, keeps client sessions with one retry record per key, and refuses or replays
  requests from that state alone; transactions undo a provisional range; the whole state is exported to
  and imported from a snapshot.  The outer \<open>None\<close> of an operation is a panic of an index or
  \<^verbatim>\<open>expect\<close> in the sources.  \<^verbatim>\<open>SHA-256\<close>, of a crate the sources only call, is the parameter
  \<open>digest\<close>.
\<close>

section \<open>Data\<close>

definition MAX_SESSIONS :: nat where "MAX_SESSIONS = 1024"
definition MAX_KEYS_PER_SESSION :: nat where "MAX_KEYS_PER_SESSION = 256"
definition MAX_SESSION_KEYS :: nat where "MAX_SESSION_KEYS = 8192"
definition MAX_RETAINED_PAYLOAD_BYTES :: nat where "MAX_RETAINED_PAYLOAD_BYTES = 16 * 1024 * 1024"
definition MAX_NONCE_BYTES :: nat where "MAX_NONCE_BYTES = 128"
definition MAX_KEY_BYTES :: nat where "MAX_KEY_BYTES = 1024"
definition MAX_VALUE_BYTES :: nat where "MAX_VALUE_BYTES = 64 * 1024"

datatype session_error =
    InvalidNonce | InvalidKey | ValueTooLarge | InvalidSequence | UnknownSession | SessionClosed
  | SessionCapacity | KeyCapacity | PayloadCapacity | PayloadMismatch | StaleSequence | SequenceGap
  | SequenceExhausted

record session_result =
  sr_ok :: bool
  sr_session_id :: "log_index option"
  sr_sequence :: "nat option"
  sr_index :: "log_index option"
  sr_error :: "session_error option"
  sr_expected_sequence :: "nat option"

definition success :: "log_index \<Rightarrow> nat option \<Rightarrow> log_index \<Rightarrow> session_result" where
  "success sid sq i = \<lparr>sr_ok = True, sr_session_id = Some sid, sr_sequence = sq, sr_index = Some i,
     sr_error = None, sr_expected_sequence = None\<rparr>"

definition rejected :: "session_error \<Rightarrow> nat option \<Rightarrow> session_result" where
  "rejected e expected = \<lparr>sr_ok = False, sr_session_id = None, sr_sequence = None, sr_index = None,
     sr_error = Some e, sr_expected_sequence = expected\<rparr>"

datatype apply_outcome =
    Applied log_index
  | SessionOutcome session_result

record apply_error =
  ae_previous :: log_index
  ae_received :: log_index

record key_record =
  kr_sequence :: nat
  kr_digest :: "byte list"
  kr_payload :: "byte list"
  kr_result :: session_result

record session =
  ss_registered :: session_result
  ss_closed :: "session_result option"
  ss_keys :: "(string, key_record) btree"

record state_machine =
  app_values :: "(string, string) btree"
  app_registrations :: "(string, log_index) btree"
  app_sessions :: "(log_index, session) btree"
  app_last_applied :: log_index
  app_retained_keys :: nat
  app_retained_payload_bytes :: nat

definition initial_state :: state_machine where
  "initial_state = \<lparr>app_values = [], app_registrations = [], app_sessions = [], app_last_applied = 0,
     app_retained_keys = 0, app_retained_payload_bytes = 0\<rparr>"

section \<open>Canonical payloads\<close>

definition PAYLOAD_PREFIX :: string where
  "PAYLOAD_PREFIX = ''micro-raft/session-payload/v1''"

definition canonical_payload :: "string \<Rightarrow> string option \<Rightarrow> byte list" where
  "canonical_payload key v =
     text_bytes PAYLOAD_PREFIX @ [if v \<noteq> None then 1 else 0] @ be_bytes 8 (length key) @ text_bytes key @
     (case v of None \<Rightarrow> [] | Some x \<Rightarrow> be_bytes 8 (length x) @ text_bytes x)"

definition payload_field :: "nat \<Rightarrow> byte list \<Rightarrow> (byte list \<times> byte list) fallible" where
  "payload_field maximum tail =
     (let invalid = Inl ''malformed canonical retry payload length''
      in if length tail < 8 then invalid
         else let len = be_value (take 8 tail)
              in if len > maximum then invalid
                 else let tail = drop 8 tail
                      in if length tail < len then invalid else Inr (take len tail, drop len tail))"

definition snapshot_require :: "bool \<Rightarrow> string \<Rightarrow> unit fallible" where
  "snapshot_require c message = (if c then Inr () else Inl message)"

definition decode_payload :: "string \<Rightarrow> byte list \<Rightarrow> string option fallible" where
  "decode_payload key payload =
     (let invalid = Inl ''malformed canonical retry payload''; prefix = text_bytes PAYLOAD_PREFIX
      in if take (length prefix) payload \<noteq> prefix then invalid
         else case drop (length prefix) payload of
           [] \<Rightarrow> invalid
         | tag # tail \<Rightarrow>
             rbind (payload_field MAX_KEY_BYTES tail) (\<lambda>(k, tail).
             rbind (snapshot_require (k = text_bytes key) ''snapshot retry payload key mismatch'') (\<lambda>_.
             rbind (if tag = 0 then Inr (None, tail)
                    else if tag = 1
                    then rbind (payload_field MAX_VALUE_BYTES tail) (\<lambda>(x, tail).
                           if utf8_valid (map unat x) then Inr (Some (bytes_text x), tail) else Inl ''malformed canonical retry payload'')
                    else Inl ''malformed canonical retry payload'') (\<lambda>(v, tail).
             rbind (snapshot_require (tail = []) ''snapshot retry payload has trailing bytes'') (\<lambda>_.
               Inr v)))))"

section \<open>Applying an entry\<close>

definition nonce_valid :: "string \<Rightarrow> bool" where
  "nonce_valid nonce \<longleftrightarrow> nonce \<noteq> [] \<and> length nonce \<le> MAX_NONCE_BYTES \<and> \<not> has_control (bytes_of nonce)"

definition register :: "string \<Rightarrow> log_index \<Rightarrow> state_machine \<Rightarrow> (session_result \<times> state_machine) option" where
  "register nonce i s =
     (if \<not> nonce_valid nonce then Some (rejected InvalidNonce None, s)
      else case bt_get (app_registrations s) nonce of
        Some sid \<Rightarrow>
          (case bt_get (app_sessions s) sid of
             None \<Rightarrow> None
           | Some session \<Rightarrow> Some (ss_registered session, s))
      | None \<Rightarrow>
          if length (app_sessions s) = MAX_SESSIONS then Some (rejected SessionCapacity None, s)
          else let result = success i None i
               in Some (result, s\<lparr>app_registrations := bt_insert nonce i (app_registrations s),
                    app_sessions := bt_insert i \<lparr>ss_registered = result, ss_closed = None, ss_keys = []\<rparr> (app_sessions s)\<rparr>))"

definition close :: "log_index \<Rightarrow> log_index \<Rightarrow> state_machine \<Rightarrow> session_result \<times> state_machine" where
  "close sid i s =
     (case bt_get (app_sessions s) sid of
        None \<Rightarrow> (rejected UnknownSession None, s)
      | Some session \<Rightarrow>
          (case ss_closed session of
             Some result \<Rightarrow> (result, s)
           | None \<Rightarrow> let result = success sid None i
                     in (result, s\<lparr>app_sessions := bt_insert sid (session\<lparr>ss_closed := Some result\<rparr>) (app_sessions s)\<rparr>)))"

text \<open>What the retained record of a key decides: a final answer, or the sequence number to expect.\<close>

definition check_previous :: "nat \<Rightarrow> byte list \<Rightarrow> byte list \<Rightarrow> key_record option \<Rightarrow> session_result + nat" where
  "check_previous sq dig payload previous =
     (case previous of
        None \<Rightarrow> Inr 1
      | Some p \<Rightarrow>
          if sq = kr_sequence p
          then Inl (if dig = kr_digest p \<and> payload = kr_payload p then kr_result p else rejected PayloadMismatch None)
          else if sq < kr_sequence p then Inl (rejected StaleSequence None)
          else (case checked_add (kr_sequence p) 1 of
                  None \<Rightarrow> Inl (rejected SequenceExhausted None)
                | Some nxt \<Rightarrow> Inr nxt))"

definition mutate :: "(byte list \<Rightarrow> byte list) \<Rightarrow> log_index \<Rightarrow> string \<Rightarrow> nat \<Rightarrow> string option \<Rightarrow> log_index \<Rightarrow>
    state_machine \<Rightarrow> (session_result \<times> state_machine) option" where
  "mutate digest sid key sq v i s =
     (let reject = (\<lambda>e expected. Some (rejected e expected, s))
      in if key = [] \<or> length key > MAX_KEY_BYTES then reject InvalidKey None
      else if (case v of None \<Rightarrow> False | Some x \<Rightarrow> length x > MAX_VALUE_BYTES) then reject ValueTooLarge None
      else case bt_get (app_sessions s) sid of
        None \<Rightarrow> reject UnknownSession None
      | Some session \<Rightarrow>
        if ss_closed session \<noteq> None then reject SessionClosed None
        else let previous = bt_get (ss_keys session) key
        in if sq = 0
        then (if (case previous of None \<Rightarrow> False | Some p \<Rightarrow> kr_sequence p = u64_max)
              then reject SequenceExhausted None else reject InvalidSequence (Some 1))
        else let payload = canonical_payload key v; dig = digest payload
        in case check_previous sq dig payload previous of
          Inl answer \<Rightarrow> Some (answer, s)
        | Inr expected \<Rightarrow>
          if sq \<noteq> expected then reject SequenceGap (Some expected)
          else if previous = None \<and> (length (ss_keys session) = MAX_KEYS_PER_SESSION \<or> app_retained_keys s = MAX_SESSION_KEYS)
          then reject KeyCapacity None
          else (case checked_sub (app_retained_payload_bytes s) (case previous of None \<Rightarrow> 0 | Some p \<Rightarrow> length (kr_payload p)) of
            None \<Rightarrow> None
          | Some kept \<Rightarrow>
            let retained_bytes = kept + length payload
            in if retained_bytes > MAX_RETAINED_PAYLOAD_BYTES then reject PayloadCapacity None
            else let result = success sid (Some sq) i;
                     r = \<lparr>kr_sequence = sq, kr_digest = dig, kr_payload = payload, kr_result = result\<rparr>
            in Some (result,
                 s\<lparr>app_retained_keys := (if previous = None then app_retained_keys s + 1 else app_retained_keys s),
                   app_retained_payload_bytes := retained_bytes,
                   app_sessions := bt_insert sid (session\<lparr>ss_keys := bt_insert key r (ss_keys session)\<rparr>) (app_sessions s),
                   app_values := (case v of Some x \<Rightarrow> bt_insert key x (app_values s) | None \<Rightarrow> bt_remove key (app_values s))\<rparr>)))"

definition session_outcome :: "(session_result \<times> state_machine) option \<Rightarrow> (apply_outcome \<times> state_machine) option" where
  "session_outcome r = map_option (\<lambda>(x, s). (SessionOutcome x, s)) r"

definition apply_command :: "(byte list \<Rightarrow> byte list) \<Rightarrow> command \<Rightarrow> log_index \<Rightarrow> state_machine \<Rightarrow>
    (apply_outcome \<times> state_machine) option" where
  "apply_command digest c i s =
     (case c of
        Put key v \<Rightarrow> Some (Applied i, s\<lparr>app_values := bt_insert key v (app_values s)\<rparr>)
      | Delete key \<Rightarrow> Some (Applied i, s\<lparr>app_values := bt_remove key (app_values s)\<rparr>)
      | NoOp \<Rightarrow> Some (Applied i, s)
      | Configuration _ \<Rightarrow> Some (Applied i, s)
      | RegisterSession nonce \<Rightarrow> session_outcome (register nonce i s)
      | CloseSession sid \<Rightarrow> session_outcome (Some (close sid i s))
      | SessionPut sid key sq v \<Rightarrow> session_outcome (mutate digest sid key sq (Some v) i s)
      | SessionDelete sid key sq \<Rightarrow> session_outcome (mutate digest sid key sq None i s))"

definition app_apply :: "(byte list \<Rightarrow> byte list) \<Rightarrow> entry \<Rightarrow> state_machine \<Rightarrow>
    (apply_error + apply_outcome \<times> state_machine) option" where
  "app_apply digest e s =
     (if checked_add (app_last_applied s) 1 \<noteq> Some (index e)
      then Some (Inl \<lparr>ae_previous = app_last_applied s, ae_received = index e\<rparr>)
      else map_option (\<lambda>(x, s). Inr (x, s\<lparr>app_last_applied := index e\<rparr>)) (apply_command digest (command e) (index e) s))"

section \<open>Transactions\<close>

datatype session_undo =
    UndoUnchanged
  | UndoRegistered log_index
  | UndoClosed log_index "session_result option"
  | UndoKey log_index string "key_record option"

record application_undo =
  un_last_applied :: log_index
  un_retained_keys :: nat
  un_retained_payload_bytes :: nat
  un_value :: "(string \<times> string option) option"
  un_registration :: "(string \<times> log_index option) option"
  un_session :: session_undo

definition capture_key :: "state_machine \<Rightarrow> log_index \<Rightarrow> string \<Rightarrow> session_undo" where
  "capture_key s sid key =
     (case bt_get (app_sessions s) sid of
        None \<Rightarrow> UndoUnchanged
      | Some session \<Rightarrow> UndoKey sid key (bt_get (ss_keys session) key))"

definition capture :: "state_machine \<Rightarrow> entry \<Rightarrow> application_undo" where
  "capture s e =
     (let undo = \<lparr>un_last_applied = app_last_applied s, un_retained_keys = app_retained_keys s,
            un_retained_payload_bytes = app_retained_payload_bytes s, un_value = None, un_registration = None,
            un_session = UndoUnchanged\<rparr>;
          value_of = (\<lambda>key. Some (key, bt_get (app_values s) key))
      in case command e of
           Put key _ \<Rightarrow> undo\<lparr>un_value := value_of key\<rparr>
         | Delete key \<Rightarrow> undo\<lparr>un_value := value_of key\<rparr>
         | RegisterSession nonce \<Rightarrow>
             undo\<lparr>un_registration := Some (nonce, bt_get (app_registrations s) nonce), un_session := UndoRegistered (index e)\<rparr>
         | CloseSession sid \<Rightarrow>
             (case bt_get (app_sessions s) sid of
                None \<Rightarrow> undo
              | Some session \<Rightarrow> undo\<lparr>un_session := UndoClosed sid (ss_closed session)\<rparr>)
         | SessionPut sid key _ _ \<Rightarrow> undo\<lparr>un_value := value_of key, un_session := capture_key s sid key\<rparr>
         | SessionDelete sid key _ \<Rightarrow> undo\<lparr>un_value := value_of key, un_session := capture_key s sid key\<rparr>
         | NoOp \<Rightarrow> undo
         | Configuration _ \<Rightarrow> undo)"

definition restore_cell :: "'k::linorder \<Rightarrow> 'v option \<Rightarrow> ('k, 'v) btree \<Rightarrow> ('k, 'v) btree" where
  "restore_cell k v m = (case v of Some x \<Rightarrow> bt_insert k x m | None \<Rightarrow> bt_remove k m)"

definition restore_session :: "session_undo \<Rightarrow> (log_index, session) btree \<Rightarrow> (log_index, session) btree option" where
  "restore_session u m =
     (case u of
        UndoUnchanged \<Rightarrow> Some m
      | UndoRegistered sid \<Rightarrow> Some (bt_remove sid m)
      | UndoClosed sid previous \<Rightarrow>
          map_option (\<lambda>session. bt_insert sid (session\<lparr>ss_closed := previous\<rparr>) m) (bt_get m sid)
      | UndoKey sid key previous \<Rightarrow>
          map_option (\<lambda>session. bt_insert sid (session\<lparr>ss_keys := restore_cell key previous (ss_keys session)\<rparr>) m) (bt_get m sid))"

definition restore_undo :: "application_undo \<Rightarrow> state_machine \<Rightarrow> state_machine option" where
  "restore_undo u s =
     map_option (\<lambda>sessions.
       s\<lparr>app_values := (case un_value u of None \<Rightarrow> app_values s | Some (k, v) \<Rightarrow> restore_cell k v (app_values s)),
         app_registrations := (case un_registration u of
            None \<Rightarrow> app_registrations s | Some (n, sid) \<Rightarrow> restore_cell n sid (app_registrations s)),
         app_sessions := sessions, app_last_applied := un_last_applied u, app_retained_keys := un_retained_keys u,
         app_retained_payload_bytes := un_retained_payload_bytes u\<rparr>)
       (restore_session (un_session u) (app_sessions s))"

record transaction =
  tx_state :: state_machine
  tx_undo :: "application_undo list"

definition tx_begin :: "state_machine \<Rightarrow> transaction" where
  "tx_begin s = \<lparr>tx_state = s, tx_undo = []\<rparr>"

definition tx_undo_last :: "transaction \<Rightarrow> transaction option" where
  "tx_undo_last t =
     (if tx_undo t = [] then None
      else map_option (\<lambda>s. \<lparr>tx_state = s, tx_undo = butlast (tx_undo t)\<rparr>) (restore_undo (last (tx_undo t)) (tx_state t)))"

definition tx_apply :: "(byte list \<Rightarrow> byte list) \<Rightarrow> entry \<Rightarrow> transaction \<Rightarrow> ((apply_error + apply_outcome) \<times> transaction) option" where
  "tx_apply digest e t =
     (if checked_add (app_last_applied (tx_state t)) 1 \<noteq> Some (index e)
      then Some (Inl \<lparr>ae_previous = app_last_applied (tx_state t), ae_received = index e\<rparr>, t)
      else let t = t\<lparr>tx_undo := tx_undo t @ [capture (tx_state t) e]\<rparr>
           in case app_apply digest e (tx_state t) of
                None \<Rightarrow> None
              | Some (Inr (x, s)) \<Rightarrow> Some (Inr x, t\<lparr>tx_state := s\<rparr>)
              | Some (Inl err) \<Rightarrow> map_option (\<lambda>t. (Inl err, t)) (tx_undo_last t))"

fun restore_all :: "application_undo list \<Rightarrow> state_machine \<Rightarrow> state_machine option" where
  "restore_all [] s = Some s"
| "restore_all (u # us) s = Option.bind (restore_undo u s) (restore_all us)"

text \<open>Dropping a transaction that was not committed.\<close>

definition tx_drop :: "transaction \<Rightarrow> state_machine option" where
  "tx_drop t = restore_all (rev (tx_undo t)) (tx_state t)"

end
