(* ===== verification/Sessions.thy ===== *)
theory Sessions
  imports Application
begin

text \<open>
  The invariant of the application, kept by every committed command, and what it gives: no entry makes the
  application panic, an uncommitted transaction is undone exactly, and a client's session command takes
  effect at most once however often it is retried.
\<close>

section \<open>Maps\<close>

lemma bt_insert_split:
  assumes "bt_sorted m"
  shows "\<exists>xs ys. m = xs @ (case bt_get m k of None \<Rightarrow> [] | Some w \<Rightarrow> [(k, w)]) @ ys \<and> bt_insert k v m = xs @ (k, v) # ys"
  using assms
proof (induction k v m rule: bt_insert.induct)
  case (2 k v k' v' m)
  consider "k < k'" | "k = k'" | "k' < k" by (cases k k' rule: linorder_cases) auto
  then show ?case
  proof cases
    case 1
    then have "bt_get ((k', v') # m) k = None" using bt_sorted_head_None [OF "2.prems"] by simp
    with 1 show ?thesis by (intro exI [of _ "[]"] exI [of _ "(k', v') # m"]) simp
  next
    case 2
    then show ?thesis by (intro exI [of _ "[]"] exI [of _ m]) simp
  next
    case 3
    then have k: "\<not> k < k'" "k \<noteq> k'" by auto
    have "bt_sorted m" using "2.prems" by (simp add: bt_sorted_Cons)
    from "2.IH" [OF k this] obtain xs ys where "m = xs @ (case bt_get m k of None \<Rightarrow> [] | Some w \<Rightarrow> [(k, w)]) @ ys"
      "bt_insert k v m = xs @ (k, v) # ys" by blast
    with 3 show ?thesis by (intro exI [of _ "(k', v') # xs"] exI [of _ ys]) auto
  qed
qed simp

lemma restore_cell_inverse:
  assumes "bt_sorted m" "bt_sorted m'" "\<And>k'. k' \<noteq> k \<Longrightarrow> bt_get m' k' = bt_get m k'"
  shows "restore_cell k (bt_get m k) m' = m"
proof (rule bt_sorted_ext)
  show "bt_sorted (restore_cell k (bt_get m k) m')"
    using assms(2) by (auto simp: restore_cell_def bt_sorted_insert bt_sorted_remove split: option.split)
  show "bt_get (restore_cell k (bt_get m k) m') k' = bt_get m k'" for k'
    using assms(3) by (auto simp: restore_cell_def bt_get_insert bt_get_remove split: option.split)
qed (rule assms(1))

section \<open>The invariant\<close>

definition value_ok :: "string option \<Rightarrow> bool" where
  "value_ok v \<longleftrightarrow> (case v of None \<Rightarrow> True | Some x \<Rightarrow> length x \<le> MAX_VALUE_BYTES \<and> utf8_valid (map unat (text_bytes x)))"

definition key_ok :: "(byte list \<Rightarrow> byte list) \<Rightarrow> log_index \<Rightarrow> log_index option \<Rightarrow> log_index \<Rightarrow> string \<Rightarrow> key_record \<Rightarrow> bool" where
  "key_ok digest last_index closed sid key r \<longleftrightarrow>
     key \<noteq> [] \<and> length key \<le> MAX_KEY_BYTES \<and> 0 < kr_sequence r \<and>
     (\<exists>v. kr_payload r = canonical_payload key v \<and> value_ok v) \<and> kr_digest r = digest (kr_payload r) \<and>
     (\<exists>i. kr_result r = success sid (Some (kr_sequence r)) i \<and> sid < i \<and> i \<le> last_index \<and> kr_sequence r \<le> i - sid \<and>
       (\<forall>c. closed = Some c \<longrightarrow> i < c))"

definition closed_index :: "session \<Rightarrow> log_index option" where
  "closed_index ss = Option.bind (ss_closed ss) sr_index"

definition session_ok :: "(byte list \<Rightarrow> byte list) \<Rightarrow> log_index \<Rightarrow> log_index \<Rightarrow> session \<Rightarrow> bool" where
  "session_ok digest last_index sid ss \<longleftrightarrow>
     0 < sid \<and> sid \<le> last_index \<and> ss_registered ss = success sid None sid \<and>
     (\<forall>c. ss_closed ss = Some c \<longrightarrow> (\<exists>i. c = success sid None i \<and> sid < i \<and> i \<le> last_index)) \<and>
     bt_sorted (ss_keys ss) \<and> length (ss_keys ss) \<le> MAX_KEYS_PER_SESSION \<and>
     (\<forall>(key, r) \<in> set (ss_keys ss). key_ok digest last_index (closed_index ss) sid key r)"

text \<open>The log positions a session still remembers: its registration, its close, the latest command of each key.\<close>

definition result_index :: "session_result \<Rightarrow> log_index" where
  "result_index r = (case sr_index r of None \<Rightarrow> 0 | Some i \<Rightarrow> i)"

definition session_ops :: "log_index \<times> session \<Rightarrow> log_index list" where
  "session_ops p = fst p # (case ss_closed (snd p) of None \<Rightarrow> [] | Some c \<Rightarrow> [result_index c]) @
     map (\<lambda>(_, r). result_index (kr_result r)) (ss_keys (snd p))"

definition session_bytes :: "session \<Rightarrow> nat" where
  "session_bytes ss = sum_list (map (\<lambda>(_, r). length (kr_payload r)) (ss_keys ss))"

definition app_ok :: "(byte list \<Rightarrow> byte list) \<Rightarrow> state_machine \<Rightarrow> bool" where
  "app_ok digest s \<longleftrightarrow>
     bt_sorted (app_values s) \<and> bt_sorted (app_registrations s) \<and> bt_sorted (app_sessions s) \<and>
     (\<forall>(nonce, _) \<in> set (app_registrations s). nonce_valid nonce) \<and>
     distinct (map snd (app_registrations s)) \<and> snd ` set (app_registrations s) = fst ` set (app_sessions s) \<and>
     (\<forall>(sid, ss) \<in> set (app_sessions s). session_ok digest (app_last_applied s) sid ss) \<and>
     distinct (concat (map session_ops (app_sessions s))) \<and>
     app_retained_keys s = sum_list (map (\<lambda>(_, ss). length (ss_keys ss)) (app_sessions s)) \<and>
     app_retained_payload_bytes s = sum_list (map (\<lambda>(_, ss). session_bytes ss) (app_sessions s)) \<and>
     app_retained_keys s \<le> MAX_SESSION_KEYS \<and> app_retained_payload_bytes s \<le> MAX_RETAINED_PAYLOAD_BYTES \<and>
     length (app_sessions s) \<le> MAX_SESSIONS \<and> app_last_applied s \<le> u64_max \<and>
     (app_last_applied s = 0 \<longrightarrow> app_values s = [])"

text \<open>The strings of a command are UTF-8, as every \<^verbatim>\<open>String\<close> is.\<close>

fun text_command :: "command \<Rightarrow> bool" where
  "text_command (SessionPut _ _ _ v) = utf8_valid (map unat (text_bytes v))"
| "text_command _ = True"

lemma app_ok_initial: "app_ok digest initial_state"
  by (simp add: app_ok_def initial_state_def bt_sorted_def)

lemma session_ok_mono: "session_ok digest l sid ss \<Longrightarrow> l \<le> l' \<Longrightarrow> session_ok digest l' sid ss"
  by (fastforce simp: session_ok_def key_ok_def)

lemma session_ops_bounded:
  assumes "session_ok digest l sid ss" "i \<in> set (session_ops (sid, ss))"
  shows "0 < i \<and> i \<le> l"
proof -
  have "result_index (kr_result r) \<le> l \<and> 0 < result_index (kr_result r)" if "(k, r) \<in> set (ss_keys ss)" for k r
    using assms(1) that by (fastforce simp: session_ok_def key_ok_def result_index_def success_def)
  moreover have "result_index c \<le> l \<and> 0 < result_index c" if "ss_closed ss = Some c" for c
    using assms(1) that by (fastforce simp: session_ok_def result_index_def success_def)
  ultimately show ?thesis
    using assms by (auto simp: session_ops_def session_ok_def split: option.splits)
qed

lemma app_okD:
  assumes "app_ok digest s"
  shows "bt_sorted (app_values s)" "bt_sorted (app_registrations s)" "bt_sorted (app_sessions s)"
    "app_last_applied s \<le> u64_max" "length (app_sessions s) \<le> MAX_SESSIONS"
    "app_retained_keys s \<le> MAX_SESSION_KEYS" "app_retained_payload_bytes s \<le> MAX_RETAINED_PAYLOAD_BYTES"
  using assms by (simp_all add: app_ok_def)

lemma app_ok_session:
  assumes "app_ok digest s" "bt_get (app_sessions s) sid = Some ss"
  shows "session_ok digest (app_last_applied s) sid ss" "distinct (session_ops (sid, ss))"
    "session_bytes ss \<le> app_retained_payload_bytes s"
proof -
  have mem: "(sid, ss) \<in> set (app_sessions s)" using assms(2) by (rule map_of_SomeD)
  then show "session_ok digest (app_last_applied s) sid ss" "distinct (session_ops (sid, ss))"
    using assms(1) by (auto simp: app_ok_def distinct_concat_iff)
  have "session_bytes ss \<in> set (map (\<lambda>(_, ss). session_bytes ss) (app_sessions s))" using mem by force
  then have "session_bytes ss \<le> sum_list (map (\<lambda>(_, ss). session_bytes ss) (app_sessions s))" by (rule member_le_sum_list) simp
  then show "session_bytes ss \<le> app_retained_payload_bytes s" using assms(1) by (simp add: app_ok_def)
qed

lemma app_ok_next:
  assumes "app_ok digest s" and "app_last_applied s < i" "i \<le> u64_max" and "bt_sorted (app_values s')"
    and "app_registrations s' = app_registrations s" "app_sessions s' = app_sessions s" "app_last_applied s' = i"
    "app_retained_keys s' = app_retained_keys s" "app_retained_payload_bytes s' = app_retained_payload_bytes s"
  shows "app_ok digest s'"
  using assms session_ok_mono [of digest "app_last_applied s" _ _ i] by (fastforce simp: app_ok_def)

lemma distinct_replace:
  "distinct (a @ b @ c) \<Longrightarrow> distinct b' \<Longrightarrow> set b' \<subseteq> insert i (set b) \<Longrightarrow> i \<notin> set a \<Longrightarrow> i \<notin> set c \<Longrightarrow> distinct (a @ b' @ c)"
  by auto

lemma app_ok_update:
  assumes ok: "app_ok digest s" and i: "app_last_applied s < i" "i \<le> u64_max"
    and old: "bt_get (app_sessions s) sid = Some ss"
    and new: "session_ok digest i sid ss'" "distinct (session_ops (sid, ss'))"
      "set (session_ops (sid, ss')) \<subseteq> insert i (set (session_ops (sid, ss)))"
    and same: "app_registrations s' = app_registrations s" "app_sessions s' = bt_insert sid ss' (app_sessions s)"
      "app_last_applied s' = i" "bt_sorted (app_values s')"
    and counts: "app_retained_keys s' + length (ss_keys ss) = app_retained_keys s + length (ss_keys ss')"
      "app_retained_payload_bytes s' + session_bytes ss = app_retained_payload_bytes s + session_bytes ss'"
      "app_retained_keys s' \<le> MAX_SESSION_KEYS" "app_retained_payload_bytes s' \<le> MAX_RETAINED_PAYLOAD_BYTES"
  shows "app_ok digest s'"
proof -
  obtain xs ys where xy: "app_sessions s = xs @ (sid, ss) # ys" "app_sessions s' = xs @ (sid, ss') # ys"
    using bt_insert_split [OF app_okD(3) [OF ok], of sid ss'] old same(2) by auto
  have each: "session_ok digest (app_last_applied s) t u" if "(t, u) \<in> set xs \<union> set ys" for t u
    using ok that xy(1) by (auto simp: app_ok_def)
  then have later: "session_ok digest i t u" if "(t, u) \<in> set xs \<union> set ys" for t u
    using that i(1) session_ok_mono less_imp_le by blast
  have fresh: "i \<notin> set (concat (map session_ops xs))" "i \<notin> set (concat (map session_ops ys))"
    using each session_ops_bounded i(1) by fastforce+
  have "distinct (concat (map session_ops (app_sessions s)))" using ok by (simp add: app_ok_def)
  then have "distinct (concat (map session_ops (app_sessions s')))"
    using distinct_replace [OF _ new(2,3) fresh] unfolding xy by simp
  moreover have "fst ` set (app_sessions s') = fst ` set (app_sessions s)" unfolding xy by simp
  moreover have "bt_sorted (app_sessions s')" unfolding same(2) by (rule bt_sorted_insert [OF app_okD(3) [OF ok]])
  moreover have "app_retained_keys s' = sum_list (map (\<lambda>(_, ss). length (ss_keys ss)) (app_sessions s'))"
    "app_retained_payload_bytes s' = sum_list (map (\<lambda>(_, ss). session_bytes ss) (app_sessions s'))"
    using ok counts(1,2) unfolding app_ok_def xy by simp_all
  moreover have "length (app_sessions s') \<le> MAX_SESSIONS" using app_okD(5) [OF ok] unfolding xy by simp
  moreover have "\<forall>(sid, ss) \<in> set (app_sessions s'). session_ok digest i sid ss" using later new(1) unfolding xy by auto
  ultimately show ?thesis using ok i same(1,3,4) counts(3,4) by (auto simp: app_ok_def)
qed

section \<open>Every command keeps the invariant\<close>

lemma register_new_ok:
  assumes ok: "app_ok digest s" and i: "app_last_applied s < i" "i \<le> u64_max"
    and new: "bt_get (app_registrations s) nonce = None" "nonce_valid nonce" "length (app_sessions s) \<noteq> MAX_SESSIONS"
    and s1: "app_registrations s1 = bt_insert nonce i (app_registrations s)"
      "app_sessions s1 = bt_insert i \<lparr>ss_registered = success i None i, ss_closed = None, ss_keys = []\<rparr> (app_sessions s)"
      "app_values s1 = app_values s" "app_last_applied s1 = i" "app_retained_keys s1 = app_retained_keys s"
      "app_retained_payload_bytes s1 = app_retained_payload_bytes s"
  shows "app_ok digest s1"
proof -
  let ?ss = "\<lparr>ss_registered = success i None i, ss_closed = None, ss_keys = []\<rparr>"
  have ids: "t \<le> app_last_applied s" if "t \<in> fst ` set (app_sessions s)" for t
    using ok that by (fastforce simp: app_ok_def session_ok_def)
  then have none: "bt_get (app_sessions s) i = None" using i(1) by (force simp: map_of_eq_None_iff)
  obtain xs ys where xy: "app_sessions s = xs @ ys" "app_sessions s1 = xs @ (i, ?ss) # ys"
    using bt_insert_split [OF app_okD(3) [OF ok], of i ?ss] none s1(2) by auto
  obtain us vs where uv: "app_registrations s = us @ vs" "app_registrations s1 = us @ (nonce, i) # vs"
    using bt_insert_split [OF app_okD(2) [OF ok], of nonce i] new(1) s1(1) by auto
  have each: "session_ok digest (app_last_applied s) t u" if "(t, u) \<in> set xs \<union> set ys" for t u
    using ok that xy(1) by (auto simp: app_ok_def)
  have "i \<notin> set (concat (map session_ops xs))" "i \<notin> set (concat (map session_ops ys))"
    using each session_ops_bounded i(1) by fastforce+
  then have "distinct (concat (map session_ops (app_sessions s1)))"
    using ok unfolding app_ok_def xy by (auto simp: session_ops_def)
  moreover have "snd ` set us \<union> snd ` set vs = fst ` set (app_sessions s)" using ok uv(1) by (auto simp: app_ok_def)
  then have "i \<notin> snd ` set us \<union> snd ` set vs" using ids i(1) by force
  then have "distinct (map snd (app_registrations s1))" using ok unfolding app_ok_def uv by auto
  moreover have "snd ` set (app_registrations s1) = fst ` set (app_sessions s1)"
    using ok unfolding app_ok_def uv xy by auto
  moreover have "session_ok digest i i ?ss" using i by (simp add: session_ok_def bt_sorted_def)
  then have "\<forall>(t, u) \<in> set (app_sessions s1). session_ok digest i t u"
    using each session_ok_mono [of digest "app_last_applied s" _ _ i] i(1) unfolding xy by auto
  moreover have "length (app_sessions s1) \<le> MAX_SESSIONS" using new(3) app_okD(5) [OF ok] unfolding xy by simp
  moreover have "\<forall>(n, _) \<in> set (app_registrations s1). nonce_valid n" using ok new(2) unfolding app_ok_def uv by auto
  moreover have "sum_list (map (\<lambda>(_, ss). length (ss_keys ss)) (app_sessions s1)) = app_retained_keys s"
    "sum_list (map (\<lambda>(_, ss). session_bytes ss) (app_sessions s1)) = app_retained_payload_bytes s"
    using ok unfolding app_ok_def xy by (simp_all add: session_bytes_def [of ?ss])
  moreover have "bt_sorted (app_registrations s1)" "bt_sorted (app_sessions s1)"
    using app_okD(2,3) [OF ok] by (simp_all add: s1 bt_sorted_insert)
  ultimately show ?thesis using ok i by (auto simp: app_ok_def s1(3-))
qed

lemma register_ok:
  assumes ok: "app_ok digest s" and i: "app_last_applied s < i" "i \<le> u64_max"
  shows "\<exists>r s'. register nonce i s = Some (r, s') \<and> app_ok digest (s'\<lparr>app_last_applied := i\<rparr>)"
proof (cases "bt_get (app_registrations s) nonce")
  case (Some sid)
  then have "sid \<in> snd ` set (app_registrations s)" by (metis map_of_SomeD image_eqI snd_conv)
  then have "sid \<in> fst ` set (app_sessions s)" using ok by (simp add: app_ok_def)
  then obtain ss where "bt_get (app_sessions s) sid = Some ss" by (metis domD dom_map_of_conv_image_fst)
  with Some app_ok_next [OF ok i] app_okD(1) [OF ok] show ?thesis by (auto simp: register_def)
next
  case None
  show ?thesis
  proof (cases "nonce_valid nonce \<and> length (app_sessions s) \<noteq> MAX_SESSIONS")
    case False
    with None app_ok_next [OF ok i] app_okD(1) [OF ok] show ?thesis by (auto simp: register_def)
  next
    case True
    with None show ?thesis
      using register_new_ok [OF ok i None] by (simp add: register_def Let_def)
  qed
qed

lemma close_ok:
  assumes ok: "app_ok digest s" and i: "app_last_applied s < i" "i \<le> u64_max"
  shows "app_ok digest ((snd (close sid i s))\<lparr>app_last_applied := i\<rparr>)"
proof -
  have idle: "app_ok digest (s\<lparr>app_last_applied := i\<rparr>)" using app_okD(1) [OF ok] by (intro app_ok_next [OF ok i]) simp_all
  have "app_ok digest (s\<lparr>app_sessions := bt_insert sid (ss\<lparr>ss_closed := Some (success sid None i)\<rparr>) (app_sessions s), app_last_applied := i\<rparr>)"
    if ss: "bt_get (app_sessions s) sid = Some ss" "ss_closed ss = None" for ss
  proof (rule app_ok_update [OF ok i ss(1)])
    let ?ss = "ss\<lparr>ss_closed := Some (success sid None i)\<rparr>"
    note so = app_ok_session [OF ok ss(1)]
    have keys: "key_ok digest i (Some i) sid k r" if "(k, r) \<in> set (ss_keys ss)" for k r
      using so(1) that i(1) by (fastforce simp: session_ok_def key_ok_def)
    have ci: "closed_index ?ss = Some i" by (simp add: closed_index_def success_def)
    show "session_ok digest i sid ?ss" using so(1) keys i(1) unfolding session_ok_def ci by auto
    have ops: "session_ops (sid, ?ss) = sid # i # tl (session_ops (sid, ss))" by (simp add: session_ops_def ss(2) result_index_def success_def)
    have "i \<notin> set (session_ops (sid, ss))" using session_ops_bounded [OF so(1)] i(1) by fastforce
    then show "distinct (session_ops (sid, ?ss))" "set (session_ops (sid, ?ss)) \<subseteq> insert i (set (session_ops (sid, ss)))"
      using so(2) unfolding ops by (auto simp: session_ops_def ss(2))
  qed (use app_okD [OF ok] in \<open>simp_all add: session_bytes_def\<close>)
  with idle show ?thesis by (simp add: close_def Let_def split: option.split)
qed

lemma distinct_swap: "distinct (x # a @ b @ c) \<Longrightarrow> i \<notin> set (x # a @ b @ c) \<Longrightarrow> distinct (x # a @ i # c)"
  by auto

text \<open>The session after a command of a key was accepted.\<close>

lemma accepted_session:
  assumes ss: "session_ok digest l sid ss" "ss_closed ss = None" "distinct (session_ops (sid, ss))" and i: "l < i"
    and key: "key \<noteq> []" "length key \<le> MAX_KEY_BYTES" "value_ok v"
    and sq: "check_previous sq (digest (canonical_payload key v)) (canonical_payload key v) (bt_get (ss_keys ss) key) = Inr sq" "sq \<noteq> 0"
    and room: "bt_get (ss_keys ss) key = None \<Longrightarrow> length (ss_keys ss) \<noteq> MAX_KEYS_PER_SESSION"
    and r: "r = \<lparr>kr_sequence = sq, kr_digest = digest (canonical_payload key v), kr_payload = canonical_payload key v,
      kr_result = success sid (Some sq) i\<rparr>" and ss': "ss' = ss\<lparr>ss_keys := bt_insert key r (ss_keys ss)\<rparr>"
  shows "session_ok digest i sid ss'" "distinct (session_ops (sid, ss'))"
    "set (session_ops (sid, ss')) \<subseteq> insert i (set (session_ops (sid, ss)))"
    "length (ss_keys ss') = length (ss_keys ss) + (if bt_get (ss_keys ss) key = None then 1 else 0)"
    "session_bytes ss' + (case bt_get (ss_keys ss) key of None \<Rightarrow> 0 | Some p \<Rightarrow> length (kr_payload p)) =
       session_bytes ss + length (kr_payload r)"
    "(case bt_get (ss_keys ss) key of None \<Rightarrow> 0 | Some p \<Rightarrow> length (kr_payload p)) \<le> session_bytes ss"
proof -
  let ?old = "case bt_get (ss_keys ss) key of None \<Rightarrow> [] | Some p \<Rightarrow> [(key, p)]"
  have srt: "bt_sorted (ss_keys ss)" using ss(1) by (simp add: session_ok_def)
  obtain us vs where uv: "ss_keys ss = us @ ?old @ vs" "ss_keys ss' = us @ (key, r) # vs"
    using bt_insert_split [OF srt, of key r] ss' by auto
  have olds: "set us \<union> set vs \<subseteq> set (ss_keys ss)" by (subst uv(1)) auto
  have "length (ss_keys ss) = length us + length ?old + length vs" using arg_cong [OF uv(1), of length] by simp
  then show len: "length (ss_keys ss') = length (ss_keys ss) + (if bt_get (ss_keys ss) key = None then 1 else 0)"
    unfolding uv(2) by (simp split: option.splits)
  let ?size = "\<lambda>m. sum_list (map (\<lambda>(_, r). length (kr_payload r)) m)"
  have "session_bytes ss = ?size us + ?size ?old + ?size vs"
    unfolding session_bytes_def using arg_cong [OF uv(1), of ?size] by simp
  then show "session_bytes ss' + (case bt_get (ss_keys ss) key of None \<Rightarrow> 0 | Some p \<Rightarrow> length (kr_payload p)) =
      session_bytes ss + length (kr_payload r)" "(case bt_get (ss_keys ss) key of None \<Rightarrow> 0 | Some p \<Rightarrow> length (kr_payload p)) \<le> session_bytes ss"
    unfolding session_bytes_def [of ss'] uv(2) by (simp_all split: option.splits)
  let ?idx = "map (\<lambda>(_, r). result_index (kr_result r))"
  have "session_ops (sid, ss) = sid # ?idx (ss_keys ss)" using ss(2) by (simp add: session_ops_def)
  with arg_cong [OF uv(1), of ?idx] have ops: "session_ops (sid, ss) = sid # ?idx us @ ?idx ?old @ ?idx vs" by (metis map_append)
  have ops': "session_ops (sid, ss') = sid # map (\<lambda>(_, r). result_index (kr_result r)) us @ i # map (\<lambda>(_, r). result_index (kr_result r)) vs"
    using ss(2) uv(2) ss' by (simp add: session_ops_def r result_index_def success_def)
  have "i \<notin> set (session_ops (sid, ss))" using session_ops_bounded [OF ss(1)] i by fastforce
  then show "distinct (session_ops (sid, ss'))" using ss(3) unfolding ops ops' by (rule distinct_swap [rotated])
  show "set (session_ops (sid, ss')) \<subseteq> insert i (set (session_ops (sid, ss)))" unfolding ops ops' by auto
  have sid: "0 < sid" "sid \<le> l" using ss(1) by (simp_all add: session_ok_def)
  have "sq \<le> i - sid"
  proof (cases "bt_get (ss_keys ss) key")
    case None
    with sq(1) sid i show ?thesis by (simp add: check_previous_def)
  next
    case (Some p)
    then have "key_ok digest l (closed_index ss) sid key p" using ss(1) map_of_SomeD by (fastforce simp: session_ok_def)
    then obtain j where "j \<le> l" "kr_sequence p \<le> j - sid" "sid < j" by (auto simp: key_ok_def)
    moreover have "sq = kr_sequence p + 1" using sq(1) Some by (auto simp: check_previous_def split: if_splits option.splits)
    ultimately show ?thesis using i by simp
  qed
  then have "key_ok digest i None sid key r" using key sq(2) sid i by (auto simp: key_ok_def r)
  moreover have "key_ok digest i None sid k x" if "(k, x) \<in> set (ss_keys ss)" for k x
    using ss(1) that i by (fastforce simp: session_ok_def key_ok_def)
  ultimately have "\<forall>(k, x) \<in> set (ss_keys ss'). key_ok digest i (closed_index ss') sid k x"
    using olds ss(2) unfolding uv(2) by (auto simp: closed_index_def ss')
  moreover have "length (ss_keys ss') \<le> MAX_KEYS_PER_SESSION"
    using room len ss(1) by (auto simp: session_ok_def split: if_splits)
  ultimately show "session_ok digest i sid ss'"
    using ss sid i bt_sorted_insert [OF srt] by (auto simp: session_ok_def ss')
qed

text \<open>The state after a session command was accepted, and the two ways a session command ends.\<close>

definition accepted_key :: "(byte list \<Rightarrow> byte list) \<Rightarrow> log_index \<Rightarrow> string \<Rightarrow> nat \<Rightarrow> string option \<Rightarrow> log_index \<Rightarrow> key_record" where
  "accepted_key digest sid key sq v i = \<lparr>kr_sequence = sq, kr_digest = digest (canonical_payload key v),
     kr_payload = canonical_payload key v, kr_result = success sid (Some sq) i\<rparr>"

definition previous_bytes :: "session \<Rightarrow> string \<Rightarrow> nat" where
  "previous_bytes ss key = (case bt_get (ss_keys ss) key of None \<Rightarrow> 0 | Some p \<Rightarrow> length (kr_payload p))"

definition accepted_state :: "(byte list \<Rightarrow> byte list) \<Rightarrow> log_index \<Rightarrow> session \<Rightarrow> string \<Rightarrow> nat \<Rightarrow> string option \<Rightarrow> log_index \<Rightarrow>
    state_machine \<Rightarrow> state_machine" where
  "accepted_state digest sid ss key sq v i s =
     s\<lparr>app_retained_keys := (if bt_get (ss_keys ss) key = None then app_retained_keys s + 1 else app_retained_keys s),
       app_retained_payload_bytes := app_retained_payload_bytes s - previous_bytes ss key + length (canonical_payload key v),
       app_sessions := bt_insert sid (ss\<lparr>ss_keys := bt_insert key (accepted_key digest sid key sq v i) (ss_keys ss)\<rparr>) (app_sessions s),
       app_values := (case v of Some x \<Rightarrow> bt_insert key x (app_values s) | None \<Rightarrow> bt_remove key (app_values s))\<rparr>"

definition acceptable :: "(byte list \<Rightarrow> byte list) \<Rightarrow> log_index \<Rightarrow> session \<Rightarrow> string \<Rightarrow> nat \<Rightarrow> string option \<Rightarrow> state_machine \<Rightarrow> bool" where
  "acceptable digest sid ss key sq v s \<longleftrightarrow>
     key \<noteq> [] \<and> length key \<le> MAX_KEY_BYTES \<and> (\<forall>x. v = Some x \<longrightarrow> length x \<le> MAX_VALUE_BYTES) \<and>
     bt_get (app_sessions s) sid = Some ss \<and> ss_closed ss = None \<and> sq \<noteq> 0 \<and>
     check_previous sq (digest (canonical_payload key v)) (canonical_payload key v) (bt_get (ss_keys ss) key) = Inr sq \<and>
     (bt_get (ss_keys ss) key = None \<longrightarrow> length (ss_keys ss) \<noteq> MAX_KEYS_PER_SESSION \<and> app_retained_keys s \<noteq> MAX_SESSION_KEYS) \<and>
     app_retained_payload_bytes s - previous_bytes ss key + length (canonical_payload key v) \<le> MAX_RETAINED_PAYLOAD_BYTES"

lemma previous_bytes_le:
  assumes "app_ok digest s" "bt_get (app_sessions s) sid = Some ss"
  shows "previous_bytes ss key \<le> app_retained_payload_bytes s"
proof (cases "bt_get (ss_keys ss) key")
  case (Some p)
  then have "length (kr_payload p) \<in> set (map (\<lambda>(_, r). length (kr_payload r)) (ss_keys ss))" by (force dest: map_of_SomeD)
  then have "length (kr_payload p) \<le> session_bytes ss" unfolding session_bytes_def by (rule member_le_sum_list) simp
  with Some app_ok_session(3) [OF assms] show ?thesis by (simp add: previous_bytes_def)
qed (simp add: previous_bytes_def)

lemma mutate_steps:
  assumes "key \<noteq> []" "length key \<le> MAX_KEY_BYTES" "\<forall>x. v = Some x \<longrightarrow> length x \<le> MAX_VALUE_BYTES"
    "bt_get (app_sessions s) sid = Some ss" "ss_closed ss = None" "sq \<noteq> 0"
  shows "mutate digest sid key sq v i s =
     (case check_previous sq (digest (canonical_payload key v)) (canonical_payload key v) (bt_get (ss_keys ss) key) of
        Inl answer \<Rightarrow> Some (answer, s)
      | Inr expected \<Rightarrow>
          if sq \<noteq> expected then Some (rejected SequenceGap (Some expected), s)
          else if bt_get (ss_keys ss) key = None \<and> (length (ss_keys ss) = MAX_KEYS_PER_SESSION \<or> app_retained_keys s = MAX_SESSION_KEYS)
          then Some (rejected KeyCapacity None, s)
          else if previous_bytes ss key > app_retained_payload_bytes s then None
          else if app_retained_payload_bytes s - previous_bytes ss key + length (canonical_payload key v) > MAX_RETAINED_PAYLOAD_BYTES
          then Some (rejected PayloadCapacity None, s)
          else Some (success sid (Some sq) i, accepted_state digest sid ss key sq v i s))"
proof -
  have val: "\<not> (case v of None \<Rightarrow> False | Some x \<Rightarrow> length x > MAX_VALUE_BYTES)" using assms(3) by (auto split: option.splits)
  have sub: "checked_sub (app_retained_payload_bytes s) (case bt_get (ss_keys ss) key of None \<Rightarrow> 0 | Some p \<Rightarrow> length (kr_payload p)) =
      (if previous_bytes ss key > app_retained_payload_bytes s then None else Some (app_retained_payload_bytes s - previous_bytes ss key))"
    unfolding previous_bytes_def [symmetric] by (simp add: checked_sub_def)
  have "\<not> (key = [] \<or> MAX_KEY_BYTES < length key)" "\<not> ss_closed ss \<noteq> None" using assms by auto
  then show ?thesis
    unfolding mutate_def Let_def assms(4) option.case sub if_not_P [OF val] if_not_P [OF assms(6)] accepted_state_def accepted_key_def
    by (auto split: sum.split)
qed

text \<open>The retained record shows that this command, or a later one of its key, was executed.\<close>

definition remembers :: "(byte list \<Rightarrow> byte list) \<Rightarrow> log_index \<Rightarrow> string \<Rightarrow> nat \<Rightarrow> string option \<Rightarrow> session_result \<Rightarrow> state_machine \<Rightarrow> bool" where
  "remembers digest sid key sq v r s \<longleftrightarrow>
     (\<exists>ss p. bt_get (app_sessions s) sid = Some ss \<and> bt_get (ss_keys ss) key = Some p \<and>
       (sq < kr_sequence p \<or> kr_sequence p = sq \<and> kr_payload p = canonical_payload key v \<and>
          kr_digest p = digest (canonical_payload key v) \<and> kr_result p = r))"

lemma mutate_refused:
  assumes good: "app_ok digest s" and no: "\<And>ss. \<not> acceptable digest sid ss key sq v s"
  shows "\<exists>r. mutate digest sid key sq v i s = Some (r, s) \<and> (sr_ok r \<longrightarrow> remembers digest sid key sq v r s)"
proof (rule ccontr)
  assume n: "\<nexists>r. mutate digest sid key sq v i s = Some (r, s) \<and> (sr_ok r \<longrightarrow> remembers digest sid key sq v r s)"
  have ok [simp]: "sr_ok (rejected x y) = False" for x y by (simp add: rejected_def)
  have key: "key \<noteq> []" "length key \<le> MAX_KEY_BYTES"
    by (rule ccontr, use n in \<open>auto simp: mutate_def Let_def\<close>)+
  have val: "\<forall>x. v = Some x \<longrightarrow> length x \<le> MAX_VALUE_BYTES"
    by (rule ccontr) (use n key in \<open>auto simp: mutate_def Let_def\<close>)
  then have "\<not> (case v of None \<Rightarrow> False | Some x \<Rightarrow> length x > MAX_VALUE_BYTES)" by (auto split: option.splits)
  note early = mutate_def Let_def if_not_P [OF this]
  obtain ss where ss: "bt_get (app_sessions s) sid = Some ss"
    by (rule ccontr) (use n key in \<open>cases "bt_get (app_sessions s) sid"; simp add: early\<close>)
  have closed: "ss_closed ss = None" by (rule ccontr) (use n key ss in \<open>simp add: early\<close>)
  have sq: "sq \<noteq> 0" by (rule ccontr) (use n key ss closed in \<open>simp add: early split: if_splits\<close>)
  have answer: "remembers digest sid key sq v x s"
    if "check_previous sq (digest (canonical_payload key v)) (canonical_payload key v) (bt_get (ss_keys ss) key) = Inl x" "sr_ok x" for x
    using that ss by (auto simp: check_previous_def remembers_def split: option.splits if_splits)
  have "acceptable digest sid ss key sq v s"
    using n answer previous_bytes_le [OF good ss, of key] key val ss closed sq
    unfolding mutate_steps [OF key val ss closed sq] acceptable_def by (auto split: sum.splits if_splits)
  with no show False by blast
qed

lemma mutate_accepted:
  assumes "app_ok digest s" and a: "acceptable digest sid ss key sq v s"
  shows "mutate digest sid key sq v i s = Some (success sid (Some sq) i, accepted_state digest sid ss key sq v i s)"
proof -
  have c: "key \<noteq> []" "length key \<le> MAX_KEY_BYTES" "\<forall>x. v = Some x \<longrightarrow> length x \<le> MAX_VALUE_BYTES"
    "bt_get (app_sessions s) sid = Some ss" "ss_closed ss = None" "sq \<noteq> 0" using a by (simp_all add: acceptable_def)
  show ?thesis
    using a previous_bytes_le [OF assms(1) c(4), of key] unfolding mutate_steps [OF c] acceptable_def by auto
qed

lemma mutate_ok:
  assumes ok: "app_ok digest s" and i: "app_last_applied s < i" "i \<le> u64_max" and v: "\<And>x. v = Some x \<Longrightarrow> utf8_valid (map unat (text_bytes x))"
  shows "\<exists>r s'. mutate digest sid key sq v i s = Some (r, s') \<and> app_ok digest (s'\<lparr>app_last_applied := i\<rparr>)"
proof (cases "\<exists>ss. acceptable digest sid ss key sq v s")
  case False
  have "app_ok digest (s\<lparr>app_last_applied := i\<rparr>)" using app_okD(1) [OF ok] by (intro app_ok_next [OF ok i]) simp_all
  with mutate_refused [OF ok] False show ?thesis by blast
next
  case True
  then obtain ss where a: "acceptable digest sid ss key sq v s" ..
  then have ss: "bt_get (app_sessions s) sid = Some ss" "ss_closed ss = None" by (simp_all add: acceptable_def)
  note so = app_ok_session [OF ok ss(1)]
  let ?r = "accepted_key digest sid key sq v i" and ?s = "accepted_state digest sid ss key sq v i s"
  let ?ss = "ss\<lparr>ss_keys := bt_insert key ?r (ss_keys ss)\<rparr>"
  have c: "key \<noteq> []" "length key \<le> MAX_KEY_BYTES" "value_ok v" "sq \<noteq> 0"
    "check_previous sq (digest (canonical_payload key v)) (canonical_payload key v) (bt_get (ss_keys ss) key) = Inr sq"
    "bt_get (ss_keys ss) key = None \<Longrightarrow> length (ss_keys ss) \<noteq> MAX_KEYS_PER_SESSION"
    using a v by (auto simp: acceptable_def value_ok_def split: option.splits)
  have acc: "session_ok digest i sid ?ss" "distinct (session_ops (sid, ?ss))" "set (session_ops (sid, ?ss)) \<subseteq> insert i (set (session_ops (sid, ss)))"
    "length (ss_keys ?ss) = length (ss_keys ss) + (if bt_get (ss_keys ss) key = None then 1 else 0)"
    "session_bytes ?ss + previous_bytes ss key = session_bytes ss + length (kr_payload ?r)"
    unfolding previous_bytes_def
    by (rule accepted_session [where digest = digest and key = key and v = v and sq = sq,
        OF so(1) ss(2) so(2) i(1) c(1-3,5,4,6) accepted_key_def [of digest sid key sq v i] refl]; assumption)+
  have "app_ok digest (?s\<lparr>app_last_applied := i\<rparr>)"
  proof (rule app_ok_update [OF ok i ss(1) acc(1-3)])
    show "bt_sorted (app_values (?s\<lparr>app_last_applied := i\<rparr>))"
      using app_okD(1) [OF ok] by (simp add: accepted_state_def bt_sorted_insert bt_sorted_remove split: option.split)
    show "app_retained_payload_bytes (?s\<lparr>app_last_applied := i\<rparr>) + session_bytes ss = app_retained_payload_bytes s + session_bytes ?ss"
      using acc(5) previous_bytes_le [OF ok ss(1), of key] by (simp add: accepted_state_def accepted_key_def)
  qed (use acc(4) a app_okD(6) [OF ok] in \<open>auto simp: accepted_state_def acceptable_def\<close>)
  with mutate_accepted [OF ok a] show ?thesis by blast
qed

lemma app_apply_ok:
  assumes ok: "app_ok digest s" and e: "index e = app_last_applied s + 1" "index e \<le> u64_max" "text_command (command e)"
  shows "\<exists>x s'. app_apply digest e s = Some (Inr (x, s')) \<and> app_ok digest s' \<and> app_last_applied s' = index e"
proof -
  have i: "app_last_applied s < index e" "index e \<le> u64_max" using e by simp_all
  have nxt: "app_ok digest (s\<lparr>app_values := m, app_last_applied := index e\<rparr>)" if "bt_sorted m" for m
    using that by (intro app_ok_next [OF ok i]) simp_all
  then have idle: "app_ok digest (s\<lparr>app_last_applied := index e\<rparr>)" using app_okD(1) [OF ok] by fastforce
  have "\<exists>x s'. apply_command digest (command e) (index e) s = Some (x, s') \<and> app_ok digest (s'\<lparr>app_last_applied := index e\<rparr>)"
  proof (cases "command e")
    case (RegisterSession nonce)
    with register_ok [OF ok i, of nonce] show ?thesis by (auto simp: apply_command_def session_outcome_def)
  next
    case (CloseSession sid)
    with close_ok [OF ok i, of sid] show ?thesis
      by (auto simp: apply_command_def session_outcome_def split: prod.splits)
  next
    case (SessionPut sid key sq v)
    with mutate_ok [OF ok i, of "Some v" sid key sq] e(3) show ?thesis
      by (auto simp: apply_command_def session_outcome_def)
  next
    case (SessionDelete sid key sq)
    with mutate_ok [OF ok i, of None sid key sq] show ?thesis
      by (auto simp: apply_command_def session_outcome_def)
  qed (use nxt idle app_okD(1) [OF ok] in \<open>simp_all add: apply_command_def bt_sorted_insert bt_sorted_remove\<close>)
  then show ?thesis using e(1,2) by (auto simp: app_apply_def checked_add_def)
qed

section \<open>Undoing an entry\<close>

lemma undo_cell:
  assumes "bt_sorted m"
  shows "restore_cell k (bt_get m k) m = m" "restore_cell k (bt_get m k) (bt_insert k v m) = m"
    "restore_cell k (bt_get m k) (bt_remove k m) = m"
  using assms by (auto intro!: restore_cell_inverse simp: bt_sorted_insert bt_sorted_remove bt_get_insert bt_get_remove)

lemma put_back:
  assumes "bt_sorted m" "bt_get m k = Some x"
  shows "bt_insert k x m = m" "bt_insert k x (bt_insert k y m) = m"
  using undo_cell(1,2) [OF assms(1), of k] assms(2) by (simp_all add: restore_cell_def)

lemma bt_remove_absent:
  assumes "bt_sorted m" "bt_get m k = None"
  shows "bt_remove k m = m" "bt_remove k (bt_insert k y m) = m"
  using undo_cell(1,2) [OF assms(1), of k] assms(2) by (simp_all add: restore_cell_def)

lemma later_absent:
  assumes "app_ok digest s" "app_last_applied s < i"
  shows "bt_get (app_sessions s) i = None"
proof (rule ccontr)
  assume "bt_get (app_sessions s) i \<noteq> None"
  then obtain ss where "bt_get (app_sessions s) i = Some ss" by auto
  from app_ok_session(1) [OF assms(1) this] assms(2) show False by (simp add: session_ok_def)
qed

lemma undo_mutate:
  assumes ok: "app_ok digest s" and run: "mutate digest sid key sq v i s = Some (r, s1)"
  shows "restore_session (capture_key s sid key) (app_sessions s1) = Some (app_sessions s)"
    "restore_cell key (bt_get (app_values s) key) (app_values s1) = app_values s"
    "app_registrations s1 = app_registrations s"
proof -
  note srt = app_okD(1,3) [OF ok]
  have idle: "restore_session (capture_key s sid key) (app_sessions s) = Some (app_sessions s)"
  proof (cases "bt_get (app_sessions s) sid")
    case (Some ss)
    then have "bt_sorted (ss_keys ss)" using app_ok_session(1) [OF ok] by (auto simp: session_ok_def)
    with Some show ?thesis by (simp add: capture_key_def restore_session_def undo_cell put_back srt)
  qed (simp add: capture_key_def restore_session_def)
  consider "s1 = s" | ss where "acceptable digest sid ss key sq v s" "s1 = accepted_state digest sid ss key sq v i s"
    using run mutate_accepted [OF ok] mutate_refused [OF ok] by (metis option.inject prod.inject)
  then have "restore_session (capture_key s sid key) (app_sessions s1) = Some (app_sessions s) \<and>
    restore_cell key (bt_get (app_values s) key) (app_values s1) = app_values s \<and> app_registrations s1 = app_registrations s"
  proof cases
    case 1
    with idle undo_cell(1) [OF srt(1)] show ?thesis by simp
  next
    case 2
    then have ss: "bt_get (app_sessions s) sid = Some ss" by (simp add: acceptable_def)
    then have "bt_sorted (ss_keys ss)" using app_ok_session(1) [OF ok] by (auto simp: session_ok_def)
    then have "restore_session (capture_key s sid key) (app_sessions s1) = Some (app_sessions s)"
      using ss by (simp add: 2(2) accepted_state_def capture_key_def restore_session_def bt_get_insert undo_cell put_back srt)
    then show ?thesis
      using undo_cell(2,3) [OF srt(1)] by (simp add: 2(2) accepted_state_def split: option.split)
  qed
  then show "restore_session (capture_key s sid key) (app_sessions s1) = Some (app_sessions s)"
    "restore_cell key (bt_get (app_values s) key) (app_values s1) = app_values s" "app_registrations s1 = app_registrations s"
    by simp_all
qed

lemma undo_register:
  assumes ok: "app_ok digest s" and i: "app_last_applied s < i" and run: "register nonce i s = Some (r, s1)"
  shows "restore_cell nonce (bt_get (app_registrations s) nonce) (app_registrations s1) = app_registrations s"
    "bt_remove i (app_sessions s1) = app_sessions s" "app_values s1 = app_values s"
proof -
  note srt = app_okD(2,3) [OF ok]
  have "s1 = s \<or> (\<exists>ss. app_registrations s1 = bt_insert nonce i (app_registrations s) \<and>
      app_sessions s1 = bt_insert i ss (app_sessions s) \<and> app_values s1 = app_values s)"
    using run by (auto simp: register_def Let_def split: if_splits option.splits)
  then show "restore_cell nonce (bt_get (app_registrations s) nonce) (app_registrations s1) = app_registrations s"
    "bt_remove i (app_sessions s1) = app_sessions s" "app_values s1 = app_values s"
    using undo_cell [OF srt(1)] bt_remove_absent [OF srt(2) later_absent [OF ok i]] by auto
qed

lemma undo_entry:
  assumes ok: "app_ok digest s" and run: "app_apply digest e s = Some (Inr (x, s'))"
  shows "restore_undo (capture s e) s' = Some s"
proof -
  note srt = app_okD(1-3) [OF ok]
  from run obtain s1 where s1: "apply_command digest (command e) (index e) s = Some (x, s1)" "s' = s1\<lparr>app_last_applied := index e\<rparr>"
    and i: "index e = app_last_applied s + 1" by (auto simp: app_apply_def split: if_splits)
  note put = undo_cell [OF srt(1)] put_back [OF srt(3)]
  show ?thesis
  proof (cases "command e")
    case (RegisterSession nonce)
    then obtain r where "register nonce (index e) s = Some (r, s1)"
      using s1(1) by (auto simp: apply_command_def session_outcome_def)
    from undo_register [OF ok _ this] i RegisterSession show ?thesis
      by (simp add: s1(2) restore_undo_def capture_def restore_session_def)
  next
    case (CloseSession sid)
    with s1 put show ?thesis
      by (auto simp: apply_command_def session_outcome_def close_def Let_def restore_undo_def capture_def restore_session_def
          bt_get_insert split: if_splits option.splits)
  next
    case (SessionPut sid key sq v)
    then obtain r where "mutate digest sid key sq (Some v) (index e) s = Some (r, s1)"
      using s1(1) by (auto simp: apply_command_def session_outcome_def)
    from undo_mutate [OF ok this] SessionPut show ?thesis by (simp add: s1(2) restore_undo_def capture_def)
  next
    case (SessionDelete sid key sq)
    then obtain r where "mutate digest sid key sq None (index e) s = Some (r, s1)"
      using s1(1) by (auto simp: apply_command_def session_outcome_def)
    from undo_mutate [OF ok this] SessionDelete show ?thesis by (simp add: s1(2) restore_undo_def capture_def)
  qed (use s1 put in \<open>auto simp: apply_command_def restore_undo_def capture_def restore_session_def\<close>)
qed

section \<open>Committed histories\<close>

inductive app_reachable :: "(byte list \<Rightarrow> byte list) \<Rightarrow> state_machine \<Rightarrow> bool" for digest where
  app_start: "app_reachable digest initial_state"
| app_step: "app_reachable digest s \<Longrightarrow> text_command (command e) \<Longrightarrow> app_apply digest e s = Some (Inr (x, s')) \<Longrightarrow> app_reachable digest s'"

lemma app_apply_index: "app_apply digest e s = Some (Inr (x, s')) \<Longrightarrow> index e = app_last_applied s + 1 \<and> index e \<le> u64_max"
  by (auto simp: app_apply_def split: if_splits)

lemma app_apply_keeps:
  assumes "app_ok digest s" "text_command (command e)" "app_apply digest e s = Some (Inr (x, s'))"
  shows "app_ok digest s'" "app_last_applied s' = index e"
  using app_apply_ok [OF assms(1) _ _ assms(2)] app_apply_index [OF assms(3)] assms(3) by auto

lemma app_reachable_ok: "app_reachable digest s \<Longrightarrow> app_ok digest s"
  by (induction rule: app_reachable.induct) (auto intro: app_ok_initial app_apply_keeps)

text \<open>A run of committed entries, with their answers.\<close>

fun app_run :: "(byte list \<Rightarrow> byte list) \<Rightarrow> entry list \<Rightarrow> state_machine \<Rightarrow> (apply_outcome list \<times> state_machine) option" where
  "app_run digest [] s = Some ([], s)"
| "app_run digest (e # es) s =
     (case app_apply digest e s of
        Some (Inr (x, s)) \<Rightarrow> map_option (\<lambda>(xs, s). (x # xs, s)) (app_run digest es s)
      | _ \<Rightarrow> None)"

lemma app_run_induct [consumes 1, case_names start step]:
  assumes "app_run digest es s = Some (xs, s')" "P s"
    and "\<And>e x s1 s2. e \<in> set es \<Longrightarrow> P s1 \<Longrightarrow> app_apply digest e s1 = Some (Inr (x, s2)) \<Longrightarrow> P s2"
  shows "P s'"
  using assms
proof (induction es arbitrary: s xs)
  case (Cons e es)
  from Cons.prems(1) obtain x s1 ys where "app_apply digest e s = Some (Inr (x, s1))" "app_run digest es s1 = Some (ys, s')"
    by (auto split: option.splits sum.splits)
  with Cons show ?case by (metis list.set_intros)
qed simp

section \<open>Transactions\<close>

text \<open>Entries offered to a transaction one after the other, refused ones included.\<close>

fun tx_run :: "(byte list \<Rightarrow> byte list) \<Rightarrow> entry list \<Rightarrow> transaction \<Rightarrow> ((apply_error + apply_outcome) list \<times> transaction) option" where
  "tx_run digest [] t = Some ([], t)"
| "tx_run digest (e # es) t =
     (case tx_apply digest e t of
        None \<Rightarrow> None
      | Some (x, t) \<Rightarrow> map_option (\<lambda>(xs, t). (x # xs, t)) (tx_run digest es t))"

lemma tx_apply_undone:
  assumes ok: "app_ok digest (tx_state t)" "tx_drop t = Some s0" and e: "text_command (command e)"
  shows "\<exists>x t'. tx_apply digest e t = Some (x, t') \<and> app_ok digest (tx_state t') \<and> tx_drop t' = Some s0"
proof (cases "checked_add (app_last_applied (tx_state t)) 1 = Some (index e)")
  case True
  then have i: "index e = app_last_applied (tx_state t) + 1" "index e \<le> u64_max" by auto
  obtain x s' where s': "app_apply digest e (tx_state t) = Some (Inr (x, s'))" "app_ok digest s'"
    using app_apply_ok [OF ok(1) i e] by blast
  with True ok(2) undo_entry [OF ok(1) s'(1)] show ?thesis by (simp add: tx_apply_def tx_drop_def)
next
  case False
  with ok show ?thesis by (simp add: tx_apply_def)
qed

lemma tx_run_undone:
  "app_ok digest (tx_state t) \<Longrightarrow> tx_drop t = Some s0 \<Longrightarrow> \<forall>e \<in> set es. text_command (command e) \<Longrightarrow>
     \<exists>xs t'. tx_run digest es t = Some (xs, t') \<and> tx_drop t' = Some s0"
proof (induction es arbitrary: t)
  case (Cons e es)
  obtain x t1 where t1: "tx_apply digest e t = Some (x, t1)" "app_ok digest (tx_state t1)" "tx_drop t1 = Some s0"
    using tx_apply_undone [OF Cons.prems(1,2), of e] Cons.prems(3) by auto
  with Cons.IH [OF t1(2,3)] Cons.prems(3) show ?case by auto
qed simp

section \<open>At most once\<close>

lemma remembers_other:
  assumes "remembers digest sid key sq v r s"
    and "\<And>ss. bt_get (app_sessions s) sid = Some ss \<Longrightarrow> \<exists>ss'. bt_get (app_sessions s') sid = Some ss' \<and> ss_keys ss' = ss_keys ss"
  shows "remembers digest sid key sq v r s'"
  using assms unfolding remembers_def by metis

lemma remembers_mutate:
  assumes ok: "app_ok digest s" and rem: "remembers digest sid key sq v r s"
    and run: "mutate digest sid' key' sq' v' i s = Some (r', s1)"
  shows "remembers digest sid key sq v r s1"
proof -
  consider "s1 = s" | ss where "acceptable digest sid' ss key' sq' v' s" "s1 = accepted_state digest sid' ss key' sq' v' i s"
    using run mutate_accepted [OF ok] mutate_refused [OF ok] by (metis option.inject prod.inject)
  then show ?thesis
  proof cases
    case 2
    from rem obtain tt p where tt: "bt_get (app_sessions s) sid = Some tt" "bt_get (ss_keys tt) key = Some p" "sq \<le> kr_sequence p"
      by (auto simp: remembers_def)
    have newer: "kr_sequence p < sq'" if "sid' = sid" "key' = key"
      using 2(1) that tt by (auto simp: acceptable_def check_previous_def split: if_splits option.splits)
    show ?thesis
    proof (cases "sid' = sid \<and> key' = key")
      case True
      with newer tt(3) have "sq < sq'" by simp
      with True show ?thesis by (simp add: remembers_def 2(2) accepted_state_def accepted_key_def bt_get_insert)
    next
      case False
      have "bt_get (app_sessions s) sid' = Some ss" using 2(1) by (simp add: acceptable_def)
      with False rem show ?thesis by (auto simp: remembers_def 2(2) accepted_state_def bt_get_insert)
    qed
  qed (use rem in simp)
qed

lemma remembers_apply:
  assumes ok: "app_ok digest s" and rem: "remembers digest sid key sq v r s" and run: "app_apply digest e s = Some (Inr (x, s'))"
  shows "remembers digest sid key sq v r s'"
proof -
  from run obtain s1 where s1: "apply_command digest (command e) (index e) s = Some (x, s1)" "s' = s1\<lparr>app_last_applied := index e\<rparr>"
    and i: "index e = app_last_applied s + 1" by (auto simp: app_apply_def split: if_splits)
  have "remembers digest sid key sq v r s1"
  proof (cases "command e")
    case (RegisterSession nonce)
    have "bt_get (app_sessions s) (index e) = None" using later_absent [OF ok] i by simp
    with RegisterSession s1(1) show ?thesis
      by (intro remembers_other [OF rem])
        (auto simp: apply_command_def session_outcome_def register_def Let_def bt_get_insert split: if_splits option.splits)
  next
    case (CloseSession sid')
    with s1(1) show ?thesis
      by (intro remembers_other [OF rem])
        (auto simp: apply_command_def session_outcome_def close_def Let_def bt_get_insert split: if_splits option.splits)
  qed (use s1(1) rem remembers_mutate [OF ok rem] in \<open>auto simp: apply_command_def session_outcome_def remembers_def\<close>)
  then show ?thesis by (simp add: s1(2) remembers_def)
qed

lemma remembered_retry:
  assumes ok: "app_ok digest s" and rem: "remembers digest sid key sq v r s"
    and run: "mutate digest sid key sq v i s = Some (r', s1)" "sq \<noteq> 0" "key \<noteq> []" "length key \<le> MAX_KEY_BYTES"
      "\<forall>x. v = Some x \<longrightarrow> length x \<le> MAX_VALUE_BYTES"
  shows "s1 = s" "r' \<in> {r, rejected StaleSequence None, rejected SessionClosed None}"
proof -
  from rem obtain ss p where ss: "bt_get (app_sessions s) sid = Some ss" "bt_get (ss_keys ss) key = Some p"
    "sq < kr_sequence p \<or> kr_sequence p = sq \<and> kr_payload p = canonical_payload key v \<and> kr_digest p = digest (canonical_payload key v) \<and> kr_result p = r"
    by (auto simp: remembers_def)
  have "s1 = s \<and> r' \<in> {r, rejected StaleSequence None, rejected SessionClosed None}"
  proof (cases "ss_closed ss")
    case None
    show ?thesis
      using run(1) ss(2,3) unfolding mutate_steps [OF run(3-5) ss(1) None run(2)] check_previous_def
      by auto
  next
    case (Some c)
    have "\<not> (case v of None \<Rightarrow> False | Some x \<Rightarrow> length x > MAX_VALUE_BYTES)" using run(5) by (auto split: option.splits)
    with Some ss(1) run show ?thesis by (simp add: mutate_def Let_def)
  qed
  then show "s1 = s" "r' \<in> {r, rejected StaleSequence None, rejected SessionClosed None}" by simp_all
qed

lemma executed_remembered:
  assumes ok: "app_ok digest s" and run: "mutate digest sid key sq v i s = Some (r, s1)" and "sr_ok r"
  shows "remembers digest sid key sq v r s1" "sq \<noteq> 0 \<and> key \<noteq> [] \<and> length key \<le> MAX_KEY_BYTES \<and> (\<forall>x. v = Some x \<longrightarrow> length x \<le> MAX_VALUE_BYTES)"
proof -
  show "remembers digest sid key sq v r s1"
  proof (cases "\<exists>ss. acceptable digest sid ss key sq v s")
    case True
    then obtain ss where a: "acceptable digest sid ss key sq v s" ..
    with mutate_accepted [OF ok a] run show ?thesis
      by (auto simp: remembers_def accepted_state_def accepted_key_def bt_get_insert)
  next
    case False
    with mutate_refused [OF ok, of sid key sq v i] run assms(3) show ?thesis by auto
  qed
  show "sq \<noteq> 0 \<and> key \<noteq> [] \<and> length key \<le> MAX_KEY_BYTES \<and> (\<forall>x. v = Some x \<longrightarrow> length x \<le> MAX_VALUE_BYTES)"
    using run assms(3) by (auto simp: mutate_def Let_def rejected_def split: if_splits option.splits)
qed

section \<open>A sample history\<close>

text \<open>A client registers and writes a key; the digest of the sample is the identity.\<close>

definition sample_digest :: "byte list \<Rightarrow> byte list" where "sample_digest bs = bs"

definition sample_registered :: state_machine where
  "sample_registered = initial_state\<lparr>app_registrations := [(''n'', 1)],
     app_sessions := [(1, \<lparr>ss_registered = success 1 None 1, ss_closed = None, ss_keys = []\<rparr>)], app_last_applied := 1\<rparr>"

definition sample_put :: entry where
  "sample_put = \<lparr>index = 2, e_term = 1, command = SessionPut 1 ''k'' 1 ''v''\<rparr>"

definition sample_written :: state_machine where
  "sample_written = sample_registered\<lparr>app_values := [(''k'', ''v'')], app_last_applied := 2, app_retained_keys := 1,
     app_retained_payload_bytes := length (canonical_payload ''k'' (Some ''v'')),
     app_sessions := [(1, \<lparr>ss_registered = success 1 None 1, ss_closed = None,
       ss_keys = [(''k'', \<lparr>kr_sequence = 1, kr_digest = sample_digest (canonical_payload ''k'' (Some ''v'')),
         kr_payload = canonical_payload ''k'' (Some ''v''), kr_result = success 1 (Some 1) 2\<rparr>)]\<rparr>)]\<rparr>"

lemma utf8_sample: "utf8_valid (map unat (text_bytes ''v''))"
  by (simp add: text_bytes_def)

lemma sample_register: "app_apply sample_digest \<lparr>index = 1, e_term = 1, command = RegisterSession ''n''\<rparr> initial_state =
    Some (Inr (SessionOutcome (success 1 None 1), sample_registered))"
  by (simp add: app_apply_def apply_command_def initial_state_def u64_max_def register_def nonce_valid_def MAX_NONCE_BYTES_def
      MAX_SESSIONS_def session_outcome_def sample_registered_def bytes_of_def Let_def)

lemma sample_registered_reachable: "app_reachable sample_digest sample_registered"
  by (rule app_step [OF app_start _ sample_register]) simp

lemma sample_put_accepted:
  "app_apply sample_digest sample_put sample_registered = Some (Inr (SessionOutcome (success 1 (Some 1) 2), sample_written))"
  by (simp add: app_apply_def apply_command_def sample_registered_def sample_put_def initial_state_def u64_max_def session_outcome_def
      mutate_def check_previous_def MAX_KEY_BYTES_def MAX_VALUE_BYTES_def MAX_KEYS_PER_SESSION_def MAX_SESSION_KEYS_def
      MAX_RETAINED_PAYLOAD_BYTES_def sample_written_def checked_sub_def checked_add_def canonical_payload_def PAYLOAD_PREFIX_def text_bytes_def Let_def)

section \<open>Properties\<close>

text \<open> C27.
  In every reachable state of the application, the next committed entry, whatever its command, is applied: nothing
  panics and no error is returned, the applied position moves to the entry, and the accounting the capacity checks
  rely on stays exact and within its limits: the number of retained keys is the sum over the sessions, the retained
  bytes are the sum of the retained payloads, and every session and every retry record stays in bounds.
\<close>
theorem application_total:
  assumes "app_reachable digest s" "index e = app_last_applied s + 1" "index e \<le> u64_max" "text_command (command e)"
  shows "\<exists>x s'. app_apply digest e s = Some (Inr (x, s')) \<and> app_last_applied s' = index e \<and>
    app_retained_keys s' = sum_list (map (\<lambda>(_, ss). length (ss_keys ss)) (app_sessions s')) \<and>
    app_retained_payload_bytes s' = sum_list (map (\<lambda>(_, ss). session_bytes ss) (app_sessions s')) \<and>
    app_retained_keys s' \<le> MAX_SESSION_KEYS \<and> app_retained_payload_bytes s' \<le> MAX_RETAINED_PAYLOAD_BYTES \<and>
    length (app_sessions s') \<le> MAX_SESSIONS \<and> (\<forall>(_, ss) \<in> set (app_sessions s'). length (ss_keys ss) \<le> MAX_KEYS_PER_SESSION)"
proof -
  obtain x s' where s': "app_apply digest e s = Some (Inr (x, s'))" "app_ok digest s'" "app_last_applied s' = index e"
    using app_apply_ok [OF app_reachable_ok [OF assms(1)] assms(2-4)] by blast
  moreover have "\<forall>(_, ss) \<in> set (app_sessions s'). length (ss_keys ss) \<le> MAX_KEYS_PER_SESSION"
    using s'(2) by (auto simp: app_ok_def session_ok_def)
  ultimately show ?thesis by (auto simp: app_ok_def)
qed

theorem application_total_witness:
  "app_reachable sample_digest sample_registered \<and>
   (\<exists>x s'. app_apply sample_digest sample_put sample_registered = Some (Inr (x, s')) \<and> app_last_applied s' = 2)"
proof -
  have "index sample_put = app_last_applied sample_registered + 1" "index sample_put = 2" "text_command (command sample_put)"
    by (simp_all add: sample_registered_def sample_put_def utf8_sample)
  with application_total [OF sample_registered_reachable, of sample_put] show ?thesis
    using sample_registered_reachable by (auto simp: u64_max_def)
qed

text \<open> C28.
  Any sequence of entries, offered to a transaction over a reachable state, is undone exactly when the transaction
  is dropped without a commit: every value, registration, session, retry record and counter is as it was before.
\<close>
theorem transaction_undone:
  assumes "app_reachable digest s" "\<forall>e \<in> set es. text_command (command e)"
  shows "\<exists>xs t. tx_run digest es (tx_begin s) = Some (xs, t) \<and> tx_drop t = Some s"
  using tx_run_undone [of digest "tx_begin s" s es] app_reachable_ok [OF assms(1)] assms(2)
  by (simp add: tx_begin_def tx_drop_def)

theorem transaction_undone_witness:
  "\<exists>xs t. tx_run sample_digest [sample_put, sample_put] (tx_begin sample_registered) = Some (xs, t) \<and> tx_drop t = Some sample_registered"
  by (rule transaction_undone [OF sample_registered_reachable]) (simp add: sample_put_def utf8_sample)

text \<open> C26.
  A session command that was once answered with success is never executed again.  After any committed entries in
  between, a repetition of the command changes nothing but the applied position, and it is answered with the original
  result, or refused as stale because a later command of the key was executed, or because the session was closed.
\<close>
theorem session_command_at_most_once:
  assumes "app_reachable digest s" "\<forall>e' \<in> set es. text_command (command e')" "text_command (command e)"
    and "command e = SessionPut sid key sq w \<or> command e = SessionDelete sid key sq"
    and "app_apply digest e s = Some (Inr (SessionOutcome r, s1))" "sr_ok r"
    and "app_run digest es s1 = Some (xs, s2)" "command again = command e"
    and "app_apply digest again s2 = Some (Inr (SessionOutcome r', s3))"
  shows "s3 = s2\<lparr>app_last_applied := index again\<rparr> \<and> r' \<in> {r, rejected StaleSequence None, rejected SessionClosed None}"
proof -
  obtain v where v: "apply_command digest (command e) i t = session_outcome (mutate digest sid key sq v i t)" for i t
    using assms(4) by (auto simp: apply_command_def intro: that)
  have ok: "app_ok digest s" by (rule app_reachable_ok [OF assms(1)])
  have run: "\<exists>u. mutate digest sid key sq v (index a) t = Some (y, u) \<and> t' = u\<lparr>app_last_applied := index a\<rparr>"
    if "app_apply digest a t = Some (Inr (SessionOutcome y, t'))" "command a = command e" for a t y t'
    using that v by (auto simp: app_apply_def session_outcome_def split: if_splits)
  from run [OF assms(5) refl] obtain u where u: "mutate digest sid key sq v (index e) s = Some (r, u)" "s1 = u\<lparr>app_last_applied := index e\<rparr>"
    by blast
  note first = executed_remembered [OF ok u(1) assms(6)]
  have "app_ok digest s2 \<and> remembers digest sid key sq v r s2"
    using assms(7)
  proof (induction rule: app_run_induct)
    case start
    from first(1) have "remembers digest sid key sq v r s1" by (simp add: u(2) remembers_def)
    with app_apply_keeps(1) [OF ok assms(3,5)] show ?case ..
  next
    case (step a x t t')
    with assms(2) app_apply_keeps(1) remembers_apply show ?case by blast
  qed
  moreover from run [OF assms(9,8)] obtain u' where "mutate digest sid key sq v (index again) s2 = Some (r', u')"
    "s3 = u'\<lparr>app_last_applied := index again\<rparr>" by blast
  ultimately show ?thesis using remembered_retry first(2) by metis
qed

theorem session_command_at_most_once_witness:
  "\<exists>r s3. app_apply sample_digest (sample_put\<lparr>index := 4\<rparr>) (sample_written\<lparr>app_last_applied := 3\<rparr>) = Some (Inr (SessionOutcome r, s3)) \<and>
     s3 = sample_written\<lparr>app_last_applied := 4\<rparr> \<and>
     r \<in> {success 1 (Some 1) 2, rejected StaleSequence None, rejected SessionClosed None}"
proof -
  let ?noop = "\<lparr>index = 3, e_term = 1, command = NoOp\<rparr>"
  have first: "app_apply sample_digest sample_put sample_registered = Some (Inr (SessionOutcome (success 1 (Some 1) 2), sample_written))"
    by (rule sample_put_accepted)
  have noop: "app_run sample_digest [?noop] sample_written = Some ([Applied 3], sample_written\<lparr>app_last_applied := 3\<rparr>)"
    by (simp add: app_apply_def apply_command_def sample_written_def sample_registered_def u64_max_def)
  have again: "app_apply sample_digest (sample_put\<lparr>index := 4\<rparr>) (sample_written\<lparr>app_last_applied := 3\<rparr>) =
      Some (Inr (SessionOutcome (success 1 (Some 1) 2), sample_written\<lparr>app_last_applied := 4\<rparr>))"
    by (simp add: app_apply_def apply_command_def sample_written_def sample_registered_def sample_put_def u64_max_def session_outcome_def
        mutate_def Let_def check_previous_def MAX_KEY_BYTES_def MAX_VALUE_BYTES_def)
  show ?thesis
    using session_command_at_most_once [OF sample_registered_reachable _ _ _ first _ noop _ again, of 1 "''k''" 1 "''v''"] again
    by (simp add: sample_put_def utf8_sample success_def)
qed

end
