(* ===== verification/App_Snapshot.thy ===== *)
theory App_Snapshot
  imports Sessions "HOL-Library.Multiset"
begin

text \<open>
  \<^verbatim>\<open>kv-node/src/application.rs\<close>, snapshots: exporting the whole application at its applied position
  and rebuilding it from untrusted snapshot data.  The lists of a snapshot keep duplicates, which the import
  refuses.  The import accepts exactly the well-formed states, and it gives back the state that was exported.
\<close>

section \<open>Export\<close>

record session_key_snapshot =
  ks_key :: string
  ks_sequence :: nat
  ks_digest :: "byte list"
  ks_payload :: "byte list"
  ks_result :: session_result

record session_snapshot =
  sn_nonce :: string
  sn_session_id :: log_index
  sn_registered :: session_result
  sn_closed :: "session_result option"
  sn_keys :: "session_key_snapshot list"

record application_snapshot =
  as_schema_version :: nat
  as_last_applied :: log_index
  as_values :: "(string \<times> string) list"
  as_sessions :: "session_snapshot list"
  as_retained_keys :: nat
  as_retained_payload_bytes :: nat

definition export_key :: "string \<times> key_record \<Rightarrow> session_key_snapshot" where
  "export_key p = \<lparr>ks_key = fst p, ks_sequence = kr_sequence (snd p), ks_digest = kr_digest (snd p),
     ks_payload = kr_payload (snd p), ks_result = kr_result (snd p)\<rparr>"

definition export_session :: "string \<Rightarrow> log_index \<Rightarrow> session \<Rightarrow> session_snapshot" where
  "export_session nonce sid ss = \<lparr>sn_nonce = nonce, sn_session_id = sid, sn_registered = ss_registered ss,
     sn_closed = ss_closed ss, sn_keys = map export_key (ss_keys ss)\<rparr>"

fun export_sessions :: "(log_index, session) btree \<Rightarrow> (string \<times> log_index) list \<Rightarrow> session_snapshot list option" where
  "export_sessions sessions [] = Some []"
| "export_sessions sessions ((nonce, sid) # rs) =
     (case bt_get sessions sid of
        None \<Rightarrow> None
      | Some ss \<Rightarrow> map_option (\<lambda>out. export_session nonce sid ss # out) (export_sessions sessions rs))"

definition export_snapshot :: "state_machine \<Rightarrow> application_snapshot option" where
  "export_snapshot s =
     map_option (\<lambda>sessions. \<lparr>as_schema_version = 1, as_last_applied = app_last_applied s, as_values = app_values s,
         as_sessions = sessions, as_retained_keys = app_retained_keys s,
         as_retained_payload_bytes = app_retained_payload_bytes s\<rparr>)
       (export_sessions (app_sessions s) (app_registrations s))"

section \<open>Import\<close>

fun import_values :: "(string \<times> string) list \<Rightarrow> (string, string) btree \<Rightarrow> (string, string) btree fallible" where
  "import_values [] m = Inr m"
| "import_values ((key, v) # rest) m =
     rbind (snapshot_require (key \<noteq> [] \<and> length key \<le> MAX_KEY_BYTES) ''invalid snapshot value key'') (\<lambda>_.
     rbind (snapshot_require (length v \<le> MAX_VALUE_BYTES) ''snapshot value exceeds byte limit'') (\<lambda>_.
     rbind (snapshot_require (bt_get m key = None) ''duplicate snapshot value key'') (\<lambda>_.
       import_values rest (bt_insert key v m))))"

record importing =
  im_state :: state_machine
  im_operations :: "log_index set"

definition new_operation :: "log_index \<Rightarrow> importing \<Rightarrow> importing fallible" where
  "new_operation i im =
     (if i \<in> im_operations im then Inl ''duplicate snapshot operation index''
      else Inr (im\<lparr>im_operations := insert i (im_operations im)\<rparr>))"

definition require_index :: "log_index option \<Rightarrow> string \<Rightarrow> log_index fallible" where
  "require_index i message = (case i of None \<Rightarrow> Inl message | Some i \<Rightarrow> Inr i)"

definition count_key :: "nat \<Rightarrow> importing \<Rightarrow> importing fallible" where
  "count_key n im =
     (let s = im_state im; s = s\<lparr>app_retained_keys := app_retained_keys s + 1\<rparr>
      in case checked_add (app_retained_payload_bytes s) n of
           None \<Rightarrow> Inl ''snapshot payload byte counter overflow''
         | Some bytes \<Rightarrow>
             let s = s\<lparr>app_retained_payload_bytes := bytes\<rparr>
             in rbind (snapshot_require (app_retained_keys s \<le> MAX_SESSION_KEYS \<and> bytes \<le> MAX_RETAINED_PAYLOAD_BYTES)
                  ''snapshot retained retry state exceeds capacity'') (\<lambda>_. Inr (im\<lparr>im_state := s\<rparr>)))"

definition import_key :: "(byte list \<Rightarrow> byte list) \<Rightarrow> log_index \<Rightarrow> log_index \<Rightarrow> log_index option \<Rightarrow> session_key_snapshot \<Rightarrow>
    (string, key_record) btree \<Rightarrow> importing \<Rightarrow> ((string, key_record) btree \<times> importing) fallible" where
  "import_key digest last_index sid close_index r keys im =
     rbind (snapshot_require (ks_key r \<noteq> [] \<and> length (ks_key r) \<le> MAX_KEY_BYTES) ''invalid snapshot retry key'') (\<lambda>_.
     rbind (snapshot_require (ks_sequence r > 0) ''snapshot retry sequence is zero'') (\<lambda>_.
     rbind (decode_payload (ks_key r) (ks_payload r)) (\<lambda>v.
     rbind (snapshot_require (canonical_payload (ks_key r) v = ks_payload r) ''snapshot retry payload is not canonical'') (\<lambda>_.
     rbind (snapshot_require (digest (ks_payload r) = ks_digest r) ''snapshot payload digest mismatch'') (\<lambda>_.
     rbind (require_index (sr_index (ks_result r)) ''retry result has no index'') (\<lambda>i.
     rbind (snapshot_require (i > sid \<and> i \<le> last_index \<and> ks_sequence r \<le> i - sid \<and>
              (case close_index of None \<Rightarrow> True | Some c \<Rightarrow> i < c) \<and> ks_result r = success sid (Some (ks_sequence r)) i)
            ''retry result is inconsistent with its sequence or applied index'') (\<lambda>_.
     rbind (new_operation i im) (\<lambda>im.
     rbind (count_key (length (ks_payload r)) im) (\<lambda>im.
     rbind (snapshot_require (bt_get keys (ks_key r) = None) ''duplicate snapshot session key'') (\<lambda>_.
       Inr (bt_insert (ks_key r) \<lparr>kr_sequence = ks_sequence r, kr_digest = ks_digest r, kr_payload = ks_payload r,
              kr_result = ks_result r\<rparr> keys, im)))))))))))"

fun import_keys :: "(byte list \<Rightarrow> byte list) \<Rightarrow> log_index \<Rightarrow> log_index \<Rightarrow> log_index option \<Rightarrow> session_key_snapshot list \<Rightarrow>
    (string, key_record) btree \<Rightarrow> importing \<Rightarrow> ((string, key_record) btree \<times> importing) fallible" where
  "import_keys digest last_index sid close_index [] keys im = Inr (keys, im)"
| "import_keys digest last_index sid close_index (r # rs) keys im =
     rbind (import_key digest last_index sid close_index r keys im) (\<lambda>(keys, im).
       import_keys digest last_index sid close_index rs keys im)"

definition import_closed :: "log_index \<Rightarrow> log_index \<Rightarrow> session_result option \<Rightarrow> importing \<Rightarrow> (log_index option \<times> importing) fallible" where
  "import_closed last_index sid closed im =
     (case closed of
        None \<Rightarrow> Inr (None, im)
      | Some c \<Rightarrow>
          rbind (require_index (sr_index c) ''closed result has no index'') (\<lambda>i.
          rbind (snapshot_require (i > sid \<and> i \<le> last_index \<and> c = success sid None i) ''invalid closed-session result'') (\<lambda>_.
          rbind (new_operation i im) (\<lambda>im. Inr (Some i, im)))))"

definition import_session :: "(byte list \<Rightarrow> byte list) \<Rightarrow> log_index \<Rightarrow> session_snapshot \<Rightarrow> importing \<Rightarrow> importing fallible" where
  "import_session digest last_index saved im =
     (let sid = sn_session_id saved
      in rbind (snapshot_require (nonce_valid (sn_nonce saved)) ''invalid snapshot registration nonce'') (\<lambda>_.
         rbind (snapshot_require (sid > 0 \<and> sid \<le> last_index) ''invalid snapshot session identity'') (\<lambda>_.
         rbind (snapshot_require (sn_registered saved = success sid None sid) ''registration result does not match its identity'') (\<lambda>_.
         rbind (new_operation sid im) (\<lambda>im.
         rbind (snapshot_require (length (sn_keys saved) \<le> MAX_KEYS_PER_SESSION) ''snapshot exceeds per-session key capacity'') (\<lambda>_.
         rbind (import_closed last_index sid (sn_closed saved) im) (\<lambda>(close_index, im).
         rbind (import_keys digest last_index sid close_index (sn_keys saved) [] im) (\<lambda>(keys, im).
         let s = im_state im
         in rbind (snapshot_require (bt_get (app_registrations s) (sn_nonce saved) = None) ''duplicate snapshot registration nonce'') (\<lambda>_.
            rbind (snapshot_require (bt_get (app_sessions s) sid = None) ''duplicate snapshot session identity'') (\<lambda>_.
              Inr (im\<lparr>im_state := s\<lparr>app_registrations := bt_insert (sn_nonce saved) sid (app_registrations s),
                app_sessions := bt_insert sid \<lparr>ss_registered = sn_registered saved, ss_closed = sn_closed saved, ss_keys = keys\<rparr>
                  (app_sessions s)\<rparr>\<rparr>)))))))))))"

fun import_sessions :: "(byte list \<Rightarrow> byte list) \<Rightarrow> log_index \<Rightarrow> session_snapshot list \<Rightarrow> importing \<Rightarrow> importing fallible" where
  "import_sessions digest last_index [] im = Inr im"
| "import_sessions digest last_index (saved # rest) im =
     rbind (import_session digest last_index saved im) (import_sessions digest last_index rest)"

definition import_snapshot :: "(byte list \<Rightarrow> byte list) \<Rightarrow> application_snapshot \<Rightarrow> log_index \<Rightarrow> state_machine fallible" where
  "import_snapshot digest snap expected_last_applied =
     rbind (snapshot_require (as_schema_version snap = 1) ''unsupported application snapshot version'') (\<lambda>_.
     rbind (snapshot_require (as_last_applied snap = expected_last_applied) ''application/Raft snapshot index mismatch'') (\<lambda>_.
     rbind (snapshot_require (length (as_sessions snap) \<le> MAX_SESSIONS) ''snapshot exceeds retained session capacity'') (\<lambda>_.
     rbind (snapshot_require (as_retained_keys snap \<le> MAX_SESSION_KEYS) ''snapshot key counter exceeds capacity'') (\<lambda>_.
     rbind (snapshot_require (as_retained_payload_bytes snap \<le> MAX_RETAINED_PAYLOAD_BYTES) ''snapshot payload counter exceeds capacity'') (\<lambda>_.
     rbind (snapshot_require (as_last_applied snap > 0 \<or> as_values snap = [] \<and> as_sessions snap = [])
            ''zero-index snapshot contains application state'') (\<lambda>_.
     rbind (import_values (as_values snap) []) (\<lambda>vals.
     rbind (import_sessions digest (as_last_applied snap) (as_sessions snap)
             \<lparr>im_state = initial_state\<lparr>app_last_applied := as_last_applied snap, app_values := vals\<rparr>, im_operations = {}\<rparr>) (\<lambda>im.
     rbind (snapshot_require (app_retained_keys (im_state im) = as_retained_keys snap) ''snapshot retained-key counter mismatch'') (\<lambda>_.
     rbind (snapshot_require (app_retained_payload_bytes (im_state im) = as_retained_payload_bytes snap)
            ''snapshot retained-payload byte counter mismatch'') (\<lambda>_.
       Inr (im_state im)))))))))))"

section \<open>Inserting a list of cells\<close>

fun inserted :: "('k::linorder \<times> 'v) list \<Rightarrow> ('k, 'v) btree \<Rightarrow> ('k, 'v) btree" where
  "inserted [] m = m"
| "inserted (p # ps) m = inserted ps (bt_insert (fst p) (snd p) m)"

lemma inserted_sorted: "bt_sorted m \<Longrightarrow> bt_sorted (inserted ps m)"
  by (induction ps arbitrary: m) (simp_all add: bt_sorted_insert)

lemma inserted_get:
  "distinct (map fst ps) \<Longrightarrow> bt_get (inserted ps m) k = (case map_of ps k of None \<Rightarrow> bt_get m k | Some v \<Rightarrow> Some v)"
proof (induction ps arbitrary: m)
  case (Cons p ps)
  then have "map_of ps (fst p) = None" by (simp add: map_of_eq_None_iff)
  with Cons show ?case by (cases p) (auto simp: bt_get_insert split: option.split)
qed simp

lemma inserted_mset:
  "distinct (map fst ps) \<Longrightarrow> bt_sorted m \<Longrightarrow> \<forall>p \<in> set ps. bt_get m (fst p) = None \<Longrightarrow> mset (inserted ps m) = mset ps + mset m"
proof (induction ps arbitrary: m)
  case (Cons p ps)
  obtain xs ys where "m = xs @ ys" "bt_insert (fst p) (snd p) m = xs @ (fst p, snd p) # ys"
    using bt_insert_split [OF Cons.prems(2), of "fst p" "snd p"] Cons.prems(3) by auto
  then have "mset (bt_insert (fst p) (snd p) m) = add_mset p (mset m)" by simp
  moreover have "\<forall>q \<in> set ps. bt_get (bt_insert (fst p) (snd p) m) (fst q) = None"
    using Cons.prems(1,3) by (auto simp: bt_get_insert image_iff)
  ultimately show ?case using Cons by (simp add: bt_sorted_insert)
qed simp

lemma inserted_empty:
  assumes "distinct (map fst ps)"
  shows "bt_sorted (inserted ps [])" "mset (inserted ps []) = mset ps" "set (inserted ps []) = set ps" "length (inserted ps []) = length ps"
proof -
  show "bt_sorted (inserted ps [])" by (rule inserted_sorted) (simp add: bt_sorted_def)
  show m: "mset (inserted ps []) = mset ps" using inserted_mset [OF assms, of "[]"] by (simp add: bt_sorted_def)
  from m show "set (inserted ps []) = set ps" by (rule mset_eq_setD)
  from m show "length (inserted ps []) = length ps" by (rule mset_eq_length)
qed

lemma inserted_same:
  assumes "bt_sorted m" "distinct (map fst ps)" "set ps = set m"
  shows "inserted ps [] = m"
proof (rule bt_sorted_ext)
  show "bt_get (inserted ps []) k = bt_get m k" for k
    using map_of_inject_set [OF assms(2) bt_sorted_distinct [OF assms(1)]] assms(3)
    by (simp add: inserted_get [OF assms(2)] split: option.split)
qed (simp_all add: inserted_empty assms)

section \<open>Payloads\<close>

lemma be_value_length [simp]: "length s \<le> MAX_VALUE_BYTES \<Longrightarrow> be_value (be_bytes 8 (length s)) = length s"
  by (rule be_value_small) (simp add: MAX_VALUE_BYTES_def)

lemma payload_field_text:
  "length s \<le> maximum \<Longrightarrow> maximum \<le> MAX_VALUE_BYTES \<Longrightarrow>
     payload_field maximum (be_bytes 8 (length s) @ text_bytes s @ rest) = Inr (text_bytes s, rest)"
  by (simp add: payload_field_def Let_def)

lemma decode_canonical:
  assumes "length key \<le> MAX_KEY_BYTES" "value_ok v"
  shows "decode_payload key (canonical_payload key v) = Inr v"
proof -
  have max: "MAX_KEY_BYTES \<le> MAX_VALUE_BYTES" by (simp add: MAX_KEY_BYTES_def MAX_VALUE_BYTES_def)
  show ?thesis
  proof (cases v)
    case None
    with payload_field_text [OF assms(1) max, of "[]"] show ?thesis
      by (simp add: decode_payload_def canonical_payload_def Let_def rbind_def snapshot_require_def)
  next
    case (Some x)
    then have x: "length x \<le> MAX_VALUE_BYTES" "utf8_valid (map unat (text_bytes x))" using assms(2) by (simp_all add: value_ok_def)
    with Some payload_field_text [OF assms(1) max] payload_field_text [OF x(1) order_refl, of "[]"] show ?thesis
      by (simp add: decode_payload_def canonical_payload_def Let_def rbind_def snapshot_require_def)
  qed
qed

lemma payload_field_length: "payload_field maximum p = Inr (x, rest) \<Longrightarrow> length x \<le> maximum"
  by (auto simp: payload_field_def Let_def split: if_splits)

lemma decode_value_ok:
  assumes "decode_payload key p = Inr v"
  shows "value_ok v"
proof -
  have bytes: "text_bytes (bytes_text b) = b" for b
    by (simp add: text_bytes_def bytes_text_def comp_def unat_byte unat_word_of_nat word_unat_eq_iff of_char_of)
  from assms show ?thesis
    by (auto simp: decode_payload_def Let_def rbind_Inr_iff snapshot_require_def value_ok_def bytes
        split: if_splits list.splits option.split dest: payload_field_length)
qed

lemma canonical_iff:
  "length key \<le> MAX_KEY_BYTES \<Longrightarrow>
     (\<exists>v. decode_payload key p = Inr v \<and> canonical_payload key v = p) \<longleftrightarrow> (\<exists>v. p = canonical_payload key v \<and> value_ok v)"
  using decode_canonical decode_value_ok by blast

section \<open>What the import accepts\<close>

lemma require_Inr [simp]: "snapshot_require c m = Inr u \<longleftrightarrow> c"
  by (simp add: snapshot_require_def)

lemma import_values_iff:
  "import_values ps m = Inr m' \<longleftrightarrow>
     (\<forall>(k, v) \<in> set ps. k \<noteq> [] \<and> length k \<le> MAX_KEY_BYTES \<and> length v \<le> MAX_VALUE_BYTES) \<and>
     distinct (map fst ps) \<and> (\<forall>k \<in> set (map fst ps). bt_get m k = None) \<and> m' = inserted ps m"
  by (induction ps m rule: import_values.induct) (auto simp: rbind_Inr_iff bt_get_insert)

definition saved_key :: "session_key_snapshot \<Rightarrow> string \<times> key_record" where
  "saved_key r = (ks_key r, \<lparr>kr_sequence = ks_sequence r, kr_digest = ks_digest r, kr_payload = ks_payload r, kr_result = ks_result r\<rparr>)"

lemma saved_key_simps [simp]: "fst (saved_key r) = ks_key r" "kr_payload (snd (saved_key r)) = ks_payload r" "kr_result (snd (saved_key r)) = ks_result r"
  by (simp_all add: saved_key_def)

definition counted :: "nat \<Rightarrow> nat \<Rightarrow> log_index set \<Rightarrow> importing \<Rightarrow> importing" where
  "counted n bytes ops im = im\<lparr>im_state := (im_state im)\<lparr>app_retained_keys := app_retained_keys (im_state im) + n,
     app_retained_payload_bytes := app_retained_payload_bytes (im_state im) + bytes\<rparr>, im_operations := ops \<union> im_operations im\<rparr>"

definition counts_ok :: "importing \<Rightarrow> bool" where
  "counts_ok im \<longleftrightarrow> app_retained_keys (im_state im) \<le> MAX_SESSION_KEYS \<and> app_retained_payload_bytes (im_state im) \<le> MAX_RETAINED_PAYLOAD_BYTES"

lemma import_key_iff:
  "import_key digest l sid ci r keys im = Inr (keys', im') \<longleftrightarrow>
     key_ok digest l ci sid (ks_key r) (snd (saved_key r)) \<and> result_index (ks_result r) \<notin> im_operations im \<and>
     bt_get keys (ks_key r) = None \<and> keys' = bt_insert (ks_key r) (snd (saved_key r)) keys \<and>
     im' = counted 1 (length (ks_payload r)) {result_index (ks_result r)} im \<and> counts_ok im'"
proof -
  have [simp]: "sr_index (success sid q i) = Some i" "result_index (success sid q i) = i" for q i
    by (simp_all add: success_def result_index_def)
  have before: "(case ci of None \<Rightarrow> True | Some c \<Rightarrow> i < c) \<longleftrightarrow> (\<forall>c. ci = Some c \<longrightarrow> i < c)" for i
    by (simp split: option.split)
  have some: "require_index o' m = Inr i \<longleftrightarrow> o' = Some i" for o' m i by (simp add: require_index_def split: option.split)
  have new: "new_operation i im = Inr y \<longleftrightarrow> i \<notin> im_operations im \<and> y = im\<lparr>im_operations := insert i (im_operations im)\<rparr>" for i y
    by (auto simp: new_operation_def)
  have max: "MAX_RETAINED_PAYLOAD_BYTES \<le> u64_max" by (simp add: MAX_RETAINED_PAYLOAD_BYTES_def u64_max_def)
  have count: "count_key n x = Inr y \<longleftrightarrow> y = counted 1 n {} x \<and> counts_ok y" for n x y
    using max by (auto simp: count_key_def Let_def counted_def counts_ok_def rbind_Inr_iff split: option.splits)
  have once: "counted k n {} (im\<lparr>im_operations := insert i (im_operations im)\<rparr>) = counted k n {i} im" for k n i
    by (simp add: counted_def)
  show ?thesis
  proof (cases "length (ks_key r) \<le> MAX_KEY_BYTES")
    case True
    then have pay: "(\<exists>v. decode_payload (ks_key r) (ks_payload r) = Inr v \<and> canonical_payload (ks_key r) v = ks_payload r) \<longleftrightarrow>
        (\<exists>v. ks_payload r = canonical_payload (ks_key r) v \<and> value_ok v)" by (rule canonical_iff)
    have "import_key digest l sid ci r keys im = Inr (keys', im') \<longleftrightarrow>
      ks_key r \<noteq> [] \<and> ks_sequence r > 0 \<and> (\<exists>v. decode_payload (ks_key r) (ks_payload r) = Inr v \<and> canonical_payload (ks_key r) v = ks_payload r) \<and>
      digest (ks_payload r) = ks_digest r \<and>
      (\<exists>i. ks_result r = success sid (Some (ks_sequence r)) i \<and> sid < i \<and> i \<le> l \<and> ks_sequence r \<le> i - sid \<and> (\<forall>c. ci = Some c \<longrightarrow> i < c) \<and>
        i \<notin> im_operations im \<and> bt_get keys (ks_key r) = None \<and> keys' = bt_insert (ks_key r) (snd (saved_key r)) keys \<and>
        im' = counted 1 (length (ks_payload r)) {i} im \<and> counts_ok im')"
      using True unfolding import_key_def rbind_Inr_iff count new before some by (auto simp: saved_key_def once)
    with True show ?thesis unfolding pay key_ok_def by (auto simp: saved_key_def)
  next
    case False
    then show ?thesis by (simp add: import_key_def rbind_Inr_iff key_ok_def)
  qed
qed

lemma counted_simps:
  "counted a b O1 (counted c d O2 im) = counted (c + a) (d + b) (O2 \<union> O1) im" "im_operations (counted a b O1 im) = O1 \<union> im_operations im"
  "counted 0 0 {} im = im" "counts_ok (counted a b O1 im) \<Longrightarrow> counts_ok im"
  by (auto simp: counted_def counts_ok_def ac_simps)

definition key_op :: "session_key_snapshot \<Rightarrow> log_index" where
  "key_op r = result_index (ks_result r)"

definition payload_bytes :: "session_key_snapshot list \<Rightarrow> nat" where
  "payload_bytes rs = sum_list (map (\<lambda>r. length (ks_payload r)) rs)"

lemma import_keys_iff:
  "counts_ok im \<Longrightarrow> import_keys digest l sid ci rs keys im = Inr (keys', im') \<longleftrightarrow>
     (\<forall>r \<in> set rs. key_ok digest l ci sid (ks_key r) (snd (saved_key r))) \<and>
     (distinct (map ks_key rs) \<and> (\<forall>r \<in> set rs. bt_get keys (ks_key r) = None)) \<and>
     (distinct (map key_op rs) \<and> key_op ` set rs \<inter> im_operations im = {}) \<and>
     keys' = inserted (map saved_key rs) keys \<and> im' = counted (length rs) (payload_bytes rs) (key_op ` set rs) im \<and> counts_ok im'"
proof (induction rs arbitrary: keys im)
  case Nil
  then show ?case by (auto simp: counted_simps payload_bytes_def)
next
  case (Cons r rs)
  let ?im = "counted 1 (length (ks_payload r)) {key_op r} im" and ?keys = "bt_insert (ks_key r) (snd (saved_key r)) keys"
  have all: "counted (length rs) (payload_bytes rs) (key_op ` set rs) ?im = counted (length (r # rs)) (payload_bytes (r # rs)) (key_op ` set (r # rs)) im"
    by (simp add: counted_simps payload_bytes_def)
  have fresh: "distinct (map ks_key (r # rs)) \<and> (\<forall>x \<in> set (r # rs). bt_get keys (ks_key x) = None) \<longleftrightarrow>
      bt_get keys (ks_key r) = None \<and> distinct (map ks_key rs) \<and> (\<forall>x \<in> set rs. bt_get ?keys (ks_key x) = None)"
    by (auto simp: bt_get_insert) (metis image_eqI)
  have ops: "distinct (map key_op (r # rs)) \<and> key_op ` set (r # rs) \<inter> im_operations im = {} \<longleftrightarrow>
      key_op r \<notin> im_operations im \<and> distinct (map key_op rs) \<and> key_op ` set rs \<inter> im_operations ?im = {}"
    by (auto simp: counted_simps)
  have "import_keys digest l sid ci (r # rs) keys im = Inr (keys', im') \<longleftrightarrow>
      key_ok digest l ci sid (ks_key r) (snd (saved_key r)) \<and> key_op r \<notin> im_operations im \<and> bt_get keys (ks_key r) = None \<and>
      counts_ok ?im \<and> import_keys digest l sid ci rs ?keys ?im = Inr (keys', im')"
    by (auto simp: rbind_Inr_iff import_key_iff key_op_def)
  also have "\<dots> \<longleftrightarrow> key_ok digest l ci sid (ks_key r) (snd (saved_key r)) \<and> key_op r \<notin> im_operations im \<and> bt_get keys (ks_key r) = None \<and>
      (\<forall>r \<in> set rs. key_ok digest l ci sid (ks_key r) (snd (saved_key r))) \<and>
      (distinct (map ks_key rs) \<and> (\<forall>r \<in> set rs. bt_get ?keys (ks_key r) = None)) \<and>
      (distinct (map key_op rs) \<and> key_op ` set rs \<inter> im_operations ?im = {}) \<and>
      keys' = inserted (map saved_key rs) ?keys \<and> im' = counted (length rs) (payload_bytes rs) (key_op ` set rs) ?im \<and> counts_ok im'"
  proof (cases "counts_ok ?im")
    case True
    from Cons.IH [OF this] show ?thesis using True by simp
  next
    case False
    then show ?thesis using counted_simps(4) [of "length rs" "payload_bytes rs" "key_op ` set rs" ?im] by blast
  qed
  finally show ?case unfolding fresh ops all by auto
qed

text \<open>The session a saved session stands for, and the log positions it claims.\<close>

definition saved_session :: "session_snapshot \<Rightarrow> session" where
  "saved_session sv = \<lparr>ss_registered = sn_registered sv, ss_closed = sn_closed sv, ss_keys = inserted (map saved_key (sn_keys sv)) []\<rparr>"

definition saved_ops :: "session_snapshot \<Rightarrow> log_index list" where
  "saved_ops sv = sn_session_id sv # (case sn_closed sv of None \<Rightarrow> [] | Some c \<Rightarrow> [result_index c]) @ map key_op (sn_keys sv)"

definition saved_ok :: "(byte list \<Rightarrow> byte list) \<Rightarrow> log_index \<Rightarrow> session_snapshot \<Rightarrow> bool" where
  "saved_ok digest l sv \<longleftrightarrow> nonce_valid (sn_nonce sv) \<and> distinct (map ks_key (sn_keys sv)) \<and> session_ok digest l (sn_session_id sv) (saved_session sv)"

lemma saved_session_parts:
  assumes "distinct (map ks_key (sn_keys sv))"
  shows "mset (session_ops (sn_session_id sv, saved_session sv)) = mset (saved_ops sv)"
    "session_bytes (saved_session sv) = payload_bytes (sn_keys sv)" "length (ss_keys (saved_session sv)) = length (sn_keys sv)"
    "set (ss_keys (saved_session sv)) = saved_key ` set (sn_keys sv)" "bt_sorted (ss_keys (saved_session sv))"
proof -
  have "distinct (map fst (map saved_key (sn_keys sv)))" using assms by (simp add: comp_def)
  note ins = inserted_empty [OF this]
  show "length (ss_keys (saved_session sv)) = length (sn_keys sv)" "set (ss_keys (saved_session sv)) = saved_key ` set (sn_keys sv)"
    "bt_sorted (ss_keys (saved_session sv))" by (simp_all add: saved_session_def ins)
  have mm: "mset (map f (ss_keys (saved_session sv))) = mset (map (\<lambda>r. f (saved_key r)) (sn_keys sv))" for f :: "string \<times> key_record \<Rightarrow> nat"
    by (simp add: saved_session_def ins(2) multiset.map_comp comp_def)
  show "mset (session_ops (sn_session_id sv, saved_session sv)) = mset (saved_ops sv)"
    using mm [of "\<lambda>(_, r). result_index (kr_result r)"]
    by (simp add: session_ops_def saved_ops_def key_op_def [abs_def] case_prod_unfold) (simp add: saved_session_def split: option.split)
  show "session_bytes (saved_session sv) = payload_bytes (sn_keys sv)"
    using arg_cong [OF mm [of "\<lambda>(_, r). length (kr_payload r)"], of sum_mset]
    by (simp only: session_bytes_def payload_bytes_def sum_mset_sum_list case_prod_unfold saved_key_simps)
qed

lemma import_closed_iff:
  "import_closed l sid closed im = Inr (ci, im') \<longleftrightarrow>
     (\<forall>c. closed = Some c \<longrightarrow> (\<exists>i. c = success sid None i \<and> sid < i \<and> i \<le> l \<and> i \<notin> im_operations im)) \<and>
     ci = Option.bind closed sr_index \<and>
     im' = counted 0 0 (set (case closed of None \<Rightarrow> [] | Some c \<Rightarrow> [result_index c])) im"
proof (cases closed)
  case None
  then show ?thesis by (auto simp: import_closed_def counted_simps)
next
  case (Some c)
  have "counted 0 0 {i} im = im\<lparr>im_operations := insert i (im_operations im)\<rparr>" for i by (simp add: counted_def)
  with Some show ?thesis
    by (auto simp: import_closed_def rbind_Inr_iff new_operation_def require_index_def result_index_def success_def
        split: option.splits if_splits)
qed

definition placed :: "session_snapshot \<Rightarrow> importing \<Rightarrow> importing" where
  "placed sv im = (let x = counted (length (sn_keys sv)) (payload_bytes (sn_keys sv)) (set (saved_ops sv)) im
     in x\<lparr>im_state := (im_state x)\<lparr>
         app_registrations := bt_insert (sn_nonce sv) (sn_session_id sv) (app_registrations (im_state im)),
         app_sessions := bt_insert (sn_session_id sv) (saved_session sv) (app_sessions (im_state im))\<rparr>\<rparr>)"

lemma import_session_iff:
  assumes "counts_ok im" "\<forall>i. bt_get (app_sessions (im_state im)) i \<noteq> None \<longrightarrow> i \<in> im_operations im"
  shows "import_session digest l sv im = Inr im' \<longleftrightarrow>
     saved_ok digest l sv \<and> distinct (saved_ops sv) \<and> set (saved_ops sv) \<inter> im_operations im = {} \<and>
     bt_get (app_registrations (im_state im)) (sn_nonce sv) = None \<and>
     im' = placed sv im \<and> counts_ok im'"
proof -
  let ?sid = "sn_session_id sv" and ?st = "im_state im"
  define cl where "cl = (case sn_closed sv of None \<Rightarrow> [] | Some c \<Rightarrow> [result_index c])"
  let ?im1 = "counted 0 0 {?sid} im"
  let ?im2 = "counted 0 0 (set cl) ?im1"
  let ?x = "counted (length (sn_keys sv)) (payload_bytes (sn_keys sv)) (set (saved_ops sv)) im"
  have x: "counted (length (sn_keys sv)) (payload_bytes (sn_keys sv)) (key_op ` set (sn_keys sv)) ?im2 = ?x"
    by (simp add: counted_simps saved_ops_def cl_def Un_assoc)
  have ops: "im_operations ?im2 = insert ?sid (set cl) \<union> im_operations im" "im_operations ?im1 = insert ?sid (im_operations im)"
    by (auto simp: counted_simps)
  have st: "app_registrations (im_state (counted n b s y)) = app_registrations (im_state y)"
    "app_sessions (im_state (counted n b s y)) = app_sessions (im_state y)" for n b s y
    by (simp_all add: counted_def)
  have new: "new_operation ?sid im = Inr y \<longleftrightarrow> ?sid \<notin> im_operations im \<and> y = ?im1" for y
    by (auto simp: new_operation_def counted_def)
  have ok2: "counts_ok ?im2" using assms(1) by (simp add: counts_ok_def counted_def)
  have none: "?sid \<notin> im_operations im \<Longrightarrow> bt_get (app_sessions ?st) ?sid = None" using assms(2) by blast
  have closed: "(\<forall>c. sn_closed sv = Some c \<longrightarrow> (\<exists>i. c = success ?sid None i \<and> ?sid < i \<and> i \<le> l \<and> i \<notin> im_operations ?im1)) \<longleftrightarrow>
      (\<forall>c. sn_closed sv = Some c \<longrightarrow> (\<exists>i. c = success ?sid None i \<and> ?sid < i \<and> i \<le> l)) \<and> ?sid \<notin> set cl \<and> set cl \<inter> im_operations im = {}"
    unfolding ops by (cases "sn_closed sv") (auto simp: cl_def result_index_def success_def)
  have "import_session digest l sv im = Inr im' \<longleftrightarrow>
      nonce_valid (sn_nonce sv) \<and> 0 < ?sid \<and> ?sid \<le> l \<and> sn_registered sv = success ?sid None ?sid \<and> ?sid \<notin> im_operations im \<and>
      length (sn_keys sv) \<le> MAX_KEYS_PER_SESSION \<and>
      (\<forall>c. sn_closed sv = Some c \<longrightarrow> (\<exists>i. c = success ?sid None i \<and> ?sid < i \<and> i \<le> l \<and> i \<notin> im_operations ?im1)) \<and>
      (\<exists>keys x. import_keys digest l ?sid (closed_index (saved_session sv)) (sn_keys sv) [] ?im2 = Inr (keys, x) \<and>
        bt_get (app_registrations (im_state x)) (sn_nonce sv) = None \<and> bt_get (app_sessions (im_state x)) ?sid = None \<and>
        im' = x\<lparr>im_state := (im_state x)\<lparr>app_registrations := bt_insert (sn_nonce sv) ?sid (app_registrations (im_state x)),
          app_sessions := bt_insert ?sid \<lparr>ss_registered = sn_registered sv, ss_closed = sn_closed sv, ss_keys = keys\<rparr> (app_sessions (im_state x))\<rparr>\<rparr>)"
    unfolding import_session_def Let_def rbind_Inr_iff new
    by (auto simp: rbind_Inr_iff import_closed_iff closed_index_def saved_session_def cl_def)
  also have "\<dots> \<longleftrightarrow> nonce_valid (sn_nonce sv) \<and> 0 < ?sid \<and> ?sid \<le> l \<and> sn_registered sv = success ?sid None ?sid \<and> ?sid \<notin> im_operations im \<and>
      length (sn_keys sv) \<le> MAX_KEYS_PER_SESSION \<and>
      (\<forall>c. sn_closed sv = Some c \<longrightarrow> (\<exists>i. c = success ?sid None i \<and> ?sid < i \<and> i \<le> l)) \<and> ?sid \<notin> set cl \<and> set cl \<inter> im_operations im = {} \<and>
      (\<forall>r \<in> set (sn_keys sv). key_ok digest l (closed_index (saved_session sv)) ?sid (ks_key r) (snd (saved_key r))) \<and>
      distinct (map ks_key (sn_keys sv)) \<and> distinct (map key_op (sn_keys sv)) \<and> key_op ` set (sn_keys sv) \<inter> im_operations ?im2 = {} \<and>
      counts_ok ?x \<and> bt_get (app_registrations ?st) (sn_nonce sv) = None \<and>
      im' = ?x\<lparr>im_state := (im_state ?x)\<lparr>app_registrations := bt_insert (sn_nonce sv) ?sid (app_registrations ?st),
          app_sessions := bt_insert ?sid (saved_session sv) (app_sessions ?st)\<rparr>\<rparr>"
    unfolding import_keys_iff [OF ok2] closed x using none by (auto simp: st saved_session_def)
  also have "\<dots> \<longleftrightarrow> saved_ok digest l sv \<and> distinct (saved_ops sv) \<and> set (saved_ops sv) \<inter> im_operations im = {} \<and>
      bt_get (app_registrations ?st) (sn_nonce sv) = None \<and> counts_ok ?x \<and>
      im' = ?x\<lparr>im_state := (im_state ?x)\<lparr>app_registrations := bt_insert (sn_nonce sv) ?sid (app_registrations ?st),
          app_sessions := bt_insert ?sid (saved_session sv) (app_sessions ?st)\<rparr>\<rparr>"
  proof (cases "distinct (map ks_key (sn_keys sv))")
    case True
    have "distinct cl" by (simp add: cl_def split: option.split)
    then have "distinct (saved_ops sv) \<and> set (saved_ops sv) \<inter> im_operations im = {} \<longleftrightarrow>
        ?sid \<notin> im_operations im \<and> ?sid \<notin> set cl \<and> set cl \<inter> im_operations im = {} \<and> distinct (map key_op (sn_keys sv)) \<and>
        key_op ` set (sn_keys sv) \<inter> im_operations ?im2 = {}"
      unfolding saved_ops_def cl_def [symmetric] ops by auto
    moreover have "session_ok digest l ?sid (saved_session sv) \<longleftrightarrow> 0 < ?sid \<and> ?sid \<le> l \<and> sn_registered sv = success ?sid None ?sid \<and>
        length (sn_keys sv) \<le> MAX_KEYS_PER_SESSION \<and> (\<forall>c. sn_closed sv = Some c \<longrightarrow> (\<exists>i. c = success ?sid None i \<and> ?sid < i \<and> i \<le> l)) \<and>
        (\<forall>r \<in> set (sn_keys sv). key_ok digest l (closed_index (saved_session sv)) ?sid (ks_key r) (snd (saved_key r)))"
      unfolding session_ok_def saved_session_parts(3,4) [OF True]
      using saved_session_parts(5) [OF True] by (auto simp: case_prod_unfold saved_session_def)
    ultimately show ?thesis unfolding saved_ok_def using True by blast
  qed (auto simp: saved_ok_def)
  finally show ?thesis by (auto simp: placed_def Let_def counts_ok_def)
qed

lemma placed_simps [simp]:
  "app_registrations (im_state (placed sv im)) = bt_insert (sn_nonce sv) (sn_session_id sv) (app_registrations (im_state im))"
  "app_sessions (im_state (placed sv im)) = bt_insert (sn_session_id sv) (saved_session sv) (app_sessions (im_state im))"
  "app_values (im_state (placed sv im)) = app_values (im_state im)"
  "app_last_applied (im_state (placed sv im)) = app_last_applied (im_state im)"
  "app_retained_keys (im_state (placed sv im)) = app_retained_keys (im_state im) + length (sn_keys sv)"
  "app_retained_payload_bytes (im_state (placed sv im)) = app_retained_payload_bytes (im_state im) + payload_bytes (sn_keys sv)"
  "im_operations (placed sv im) = set (saved_ops sv) \<union> im_operations im"
  by (simp_all add: placed_def Let_def counted_def)

lemma fold_placed:
  "app_registrations (im_state (fold placed svs im)) = inserted (map (\<lambda>sv. (sn_nonce sv, sn_session_id sv)) svs) (app_registrations (im_state im))"
  "app_sessions (im_state (fold placed svs im)) = inserted (map (\<lambda>sv. (sn_session_id sv, saved_session sv)) svs) (app_sessions (im_state im))"
  "app_values (im_state (fold placed svs im)) = app_values (im_state im)"
  "app_last_applied (im_state (fold placed svs im)) = app_last_applied (im_state im)"
  "app_retained_keys (im_state (fold placed svs im)) = app_retained_keys (im_state im) + sum_list (map (\<lambda>sv. length (sn_keys sv)) svs)"
  "app_retained_payload_bytes (im_state (fold placed svs im)) =
     app_retained_payload_bytes (im_state im) + sum_list (map (\<lambda>sv. payload_bytes (sn_keys sv)) svs)"
  by (induction svs arbitrary: im) simp_all

lemma import_sessions_iff:
  "counts_ok im \<Longrightarrow> \<forall>i. bt_get (app_sessions (im_state im)) i \<noteq> None \<longrightarrow> i \<in> im_operations im \<Longrightarrow>
   import_sessions digest l svs im = Inr im' \<longleftrightarrow>
     (\<forall>sv \<in> set svs. saved_ok digest l sv) \<and>
     (distinct (concat (map saved_ops svs)) \<and> set (concat (map saved_ops svs)) \<inter> im_operations im = {}) \<and>
     (distinct (map sn_nonce svs) \<and> (\<forall>sv \<in> set svs. bt_get (app_registrations (im_state im)) (sn_nonce sv) = None)) \<and>
     im' = fold placed svs im \<and> counts_ok im'"
proof (induction svs arbitrary: im)
  case (Cons sv svs)
  let ?im = "placed sv im"
  have ids: "\<forall>i. bt_get (app_sessions (im_state ?im)) i \<noteq> None \<longrightarrow> i \<in> im_operations ?im"
    using Cons.prems(2) by (auto simp: bt_get_insert saved_ops_def split: if_splits)
  have ops: "distinct (concat (map saved_ops (sv # svs))) \<and> set (concat (map saved_ops (sv # svs))) \<inter> im_operations im = {} \<longleftrightarrow>
      distinct (saved_ops sv) \<and> set (saved_ops sv) \<inter> im_operations im = {} \<and>
      (distinct (concat (map saved_ops svs)) \<and> set (concat (map saved_ops svs)) \<inter> im_operations ?im = {})"
    by auto
  have nonces: "distinct (map sn_nonce (sv # svs)) \<and> (\<forall>x \<in> set (sv # svs). bt_get (app_registrations (im_state im)) (sn_nonce x) = None) \<longleftrightarrow>
      bt_get (app_registrations (im_state im)) (sn_nonce sv) = None \<and>
      (distinct (map sn_nonce svs) \<and> (\<forall>x \<in> set svs. bt_get (app_registrations (im_state ?im)) (sn_nonce x) = None))"
    by (auto simp: bt_get_insert) (metis image_eqI)
  have mono: "counts_ok (fold placed svs ?im) \<Longrightarrow> counts_ok ?im"
    by (auto simp: counts_ok_def fold_placed(5,6) [of svs ?im])
  have run: "import_sessions digest l (sv # svs) im = Inr im' \<longleftrightarrow> import_session digest l sv im = Inr ?im \<and> import_sessions digest l svs ?im = Inr im'"
    using import_session_iff [OF Cons.prems, of digest l sv] by (auto simp: rbind_Inr_iff)
  show ?case
  proof (cases "counts_ok ?im")
    case True
    show ?thesis unfolding run import_session_iff [OF Cons.prems] Cons.IH [OF True ids] ops nonces
      using True by auto
  next
    case False
    with mono show ?thesis unfolding run import_session_iff [OF Cons.prems] by auto
  qed
qed auto

section \<open>Import against the invariant\<close>

text \<open>The values of an importable state are within the limits of a key and a value.\<close>

definition values_ok :: "state_machine \<Rightarrow> bool" where
  "values_ok s \<longleftrightarrow> (\<forall>(k, v) \<in> set (app_values s). k \<noteq> [] \<and> length k \<le> MAX_KEY_BYTES \<and> length v \<le> MAX_VALUE_BYTES)"

definition import_start :: "application_snapshot \<Rightarrow> importing" where
  "import_start snap = \<lparr>im_state = initial_state\<lparr>app_last_applied := as_last_applied snap, app_values := inserted (as_values snap) []\<rparr>,
     im_operations = {}\<rparr>"

lemma import_snapshot_iff:
  "import_snapshot digest snap n = Inr s \<longleftrightarrow>
     as_schema_version snap = 1 \<and> as_last_applied snap = n \<and> length (as_sessions snap) \<le> MAX_SESSIONS \<and>
     (n > 0 \<or> as_values snap = [] \<and> as_sessions snap = []) \<and>
     (\<forall>(k, v) \<in> set (as_values snap). k \<noteq> [] \<and> length k \<le> MAX_KEY_BYTES \<and> length v \<le> MAX_VALUE_BYTES) \<and> distinct (map fst (as_values snap)) \<and>
     (\<forall>sv \<in> set (as_sessions snap). saved_ok digest n sv) \<and> distinct (concat (map saved_ops (as_sessions snap))) \<and>
     distinct (map sn_nonce (as_sessions snap)) \<and> s = im_state (fold placed (as_sessions snap) (import_start snap)) \<and>
     app_retained_keys s = as_retained_keys snap \<and> app_retained_payload_bytes s = as_retained_payload_bytes snap \<and>
     app_retained_keys s \<le> MAX_SESSION_KEYS \<and> app_retained_payload_bytes s \<le> MAX_RETAINED_PAYLOAD_BYTES"
proof -
  have start: "counts_ok (import_start snap)" by (simp add: counts_ok_def import_start_def initial_state_def)
  have ids: "\<forall>i. bt_get (app_sessions (im_state (import_start snap))) i \<noteq> None \<longrightarrow> i \<in> im_operations (import_start snap)"
    and ops: "im_operations (import_start snap) = {}" and regs: "app_registrations (im_state (import_start snap)) = []"
    by (simp_all add: import_start_def initial_state_def)
  have "import_snapshot digest snap n = Inr s \<longleftrightarrow>
      as_schema_version snap = 1 \<and> as_last_applied snap = n \<and> length (as_sessions snap) \<le> MAX_SESSIONS \<and>
      as_retained_keys snap \<le> MAX_SESSION_KEYS \<and> as_retained_payload_bytes snap \<le> MAX_RETAINED_PAYLOAD_BYTES \<and>
      (n > 0 \<or> as_values snap = [] \<and> as_sessions snap = []) \<and>
      (\<forall>(k, v) \<in> set (as_values snap). k \<noteq> [] \<and> length k \<le> MAX_KEY_BYTES \<and> length v \<le> MAX_VALUE_BYTES) \<and> distinct (map fst (as_values snap)) \<and>
      (\<exists>im. import_sessions digest n (as_sessions snap) (import_start snap) = Inr im \<and> s = im_state im \<and>
        app_retained_keys s = as_retained_keys snap \<and> app_retained_payload_bytes s = as_retained_payload_bytes snap)"
    unfolding import_snapshot_def rbind_Inr_iff import_values_iff import_start_def by auto
  then show ?thesis unfolding import_sessions_iff [OF start ids] ops regs counts_ok_def by auto
qed

lemma mset_concat_map: "mset xs = mset ys \<Longrightarrow> mset (concat (map f xs)) = mset (concat (map f ys))"
  by (metis image_mset.compositionality mset_concat mset_map sum_mset_sum_list)

lemma sum_list_mset: "mset xs = mset ys \<Longrightarrow> sum_list (map f xs) = sum_list (map (f :: 'a \<Rightarrow> nat) ys)"
  by (metis mset_map sum_mset_sum_list)

lemma distinct_mset: "mset xs = mset ys \<Longrightarrow> distinct xs \<longleftrightarrow> distinct ys"
  by (rule mset_eq_imp_distinct_iff)

lemma saved_ids_distinct: "distinct (concat (map saved_ops svs)) \<Longrightarrow> distinct (map sn_session_id svs)"
proof (induction svs)
  case (Cons sv svs)
  have "sn_session_id x \<in> set (saved_ops x)" for x by (simp add: saved_ops_def)
  with Cons show ?case by (force simp: saved_ops_def)
qed simp

lemma saved_ops_all: "\<forall>sv \<in> set svs. distinct (map ks_key (sn_keys sv)) \<Longrightarrow>
    mset (concat (map session_ops (map (\<lambda>sv. (sn_session_id sv, saved_session sv)) svs))) = mset (concat (map saved_ops svs))"
  by (induction svs) (simp_all add: saved_session_parts)

text \<open>An imported state is well formed.\<close>

lemma import_ok:
  assumes "import_snapshot digest snap n = Inr s" "n \<le> u64_max"
  shows "app_ok digest s" "values_ok s" "app_last_applied s = n"
proof -
  let ?svs = "as_sessions snap"
  note imp = assms(1) [unfolded import_snapshot_iff]
  have dist: "distinct (map fst (map (\<lambda>sv. (sn_session_id sv, saved_session sv)) ?svs))"
    using saved_ids_distinct [of ?svs] imp by (simp add: comp_def)
  have nonces: "distinct (map fst (map (\<lambda>sv. (sn_nonce sv, sn_session_id sv)) ?svs))" using imp by (simp add: comp_def)
  have vals: "distinct (map fst (as_values snap))" using imp by simp
  have s: "app_registrations s = inserted (map (\<lambda>sv. (sn_nonce sv, sn_session_id sv)) ?svs) []"
    "app_sessions s = inserted (map (\<lambda>sv. (sn_session_id sv, saved_session sv)) ?svs) []"
    "app_values s = inserted (as_values snap) []" "app_last_applied s = n"
    "app_retained_keys s = sum_list (map (\<lambda>sv. length (sn_keys sv)) ?svs)"
    "app_retained_payload_bytes s = sum_list (map (\<lambda>sv. payload_bytes (sn_keys sv)) ?svs)"
    using imp by (simp_all add: fold_placed import_start_def initial_state_def)
  have keys: "\<forall>sv \<in> set ?svs. distinct (map ks_key (sn_keys sv))" and each: "\<forall>sv \<in> set ?svs. saved_ok digest n sv"
    using imp by (auto simp: saved_ok_def)
  note m = inserted_empty [OF dist] and mr = inserted_empty [OF nonces] and mv = inserted_empty [OF vals]
  have opss: "mset (concat (map session_ops (app_sessions s))) = mset (concat (map saved_ops ?svs))"
  proof -
    have "mset (concat (map session_ops (app_sessions s))) = mset (concat (map session_ops (map (\<lambda>sv. (sn_session_id sv, saved_session sv)) ?svs)))"
      using m(2) by (intro mset_concat_map) (simp add: s(2))
    also have "\<dots> = mset (concat (map saved_ops ?svs))" using keys by (rule saved_ops_all)
    finally show ?thesis .
  qed
  have sums: "sum_list (map f (app_sessions s)) = sum_list (map (\<lambda>sv. f (sn_session_id sv, saved_session sv)) ?svs)" for f :: "_ \<Rightarrow> nat"
    using sum_list_mset [OF m(2), of f] by (simp add: s(2) comp_def)
  have "app_retained_keys s = sum_list (map (\<lambda>(_, ss). length (ss_keys ss)) (app_sessions s))"
    "app_retained_payload_bytes s = sum_list (map (\<lambda>(_, ss). session_bytes ss) (app_sessions s))"
    unfolding sums s(5,6) using keys by (auto intro!: arg_cong [of _ _ sum_list] simp: saved_session_parts)
  moreover have "distinct (concat (map session_ops (app_sessions s)))" unfolding distinct_mset [OF opss] using imp by simp
  moreover have "distinct (map snd (app_registrations s))"
  proof -
    have "mset (map snd (app_registrations s)) = mset (map sn_session_id ?svs)" using mr(2) by (simp add: s(1) multiset.map_comp comp_def)
    from distinct_mset [OF this] dist show ?thesis by (simp add: comp_def)
  qed
  moreover have sets: "set (app_sessions s) = (\<lambda>sv. (sn_session_id sv, saved_session sv)) ` set ?svs"
    "set (app_registrations s) = (\<lambda>sv. (sn_nonce sv, sn_session_id sv)) ` set ?svs"
    unfolding s(1,2) m(3) mr(3) by simp_all
  moreover have "\<forall>(nonce, _) \<in> set (app_registrations s). nonce_valid nonce"
    "\<forall>(sid, ss) \<in> set (app_sessions s). session_ok digest n sid ss"
    using each unfolding sets by (auto simp: saved_ok_def)
  moreover have "snd ` set (app_registrations s) = fst ` set (app_sessions s)" unfolding sets by (simp add: image_image)
  moreover have "bt_sorted (app_values s)" "bt_sorted (app_registrations s)" "bt_sorted (app_sessions s)" "length (app_sessions s) = length ?svs"
    unfolding s(1-3) by (simp_all add: m(1,4) mr(1) mv(1))
  moreover have "n = 0 \<longrightarrow> as_values snap = []" using imp by auto
  then have "app_last_applied s = 0 \<longrightarrow> app_values s = []" unfolding s(3,4) by simp
  moreover have "app_retained_keys s \<le> MAX_SESSION_KEYS" "app_retained_payload_bytes s \<le> MAX_RETAINED_PAYLOAD_BYTES"
    "length ?svs \<le> MAX_SESSIONS" using imp by blast+
  ultimately show "app_ok digest s" using assms(2) s(4) unfolding app_ok_def by simp
  show "values_ok s" unfolding values_ok_def s(3) mv(3) using imp by blast
  show "app_last_applied s = n" by (rule s(4))
qed

text \<open>A snapshot that lists the parts of a well-formed state, in any order, is imported as that state.\<close>

lemma permuted:
  assumes "distinct (map f xs)" "bt_sorted m" "set xs = set m"
  shows "mset xs = mset m"
  using assms bt_sorted_distinct [OF assms(2)] by (metis distinct_map set_eq_iff_mset_eq_distinct)

lemma listed_sessions:
  assumes ok: "app_ok digest s" and ids: "sn_session_id ` set svs = fst ` set (app_sessions s)"
    and each: "\<And>sv. sv \<in> set svs \<Longrightarrow> (sn_nonce sv, sn_session_id sv) \<in> set (app_registrations s) \<and> (sn_session_id sv, saved_session sv) \<in> set (app_sessions s)"
  shows "set (map (\<lambda>sv. (sn_session_id sv, saved_session sv)) svs) = set (app_sessions s)"
    "set (map (\<lambda>sv. (sn_nonce sv, sn_session_id sv)) svs) = set (app_registrations s)"
proof -
  have "(i, x) \<in> set (map (\<lambda>sv. (sn_session_id sv, saved_session sv)) svs)" if m: "(i, x) \<in> set (app_sessions s)" for i x
  proof -
    obtain sv where sv: "sv \<in> set svs" "sn_session_id sv = i" using ids m by force
    then have "saved_session sv = x" using each [OF sv(1)] m bt_sorted_distinct [OF app_okD(3) [OF ok]] by (metis eq_key_imp_eq_value)
    with sv show ?thesis by auto
  qed
  then show "set (map (\<lambda>sv. (sn_session_id sv, saved_session sv)) svs) = set (app_sessions s)" using each by auto
  have "(n, i) \<in> set (map (\<lambda>sv. (sn_nonce sv, sn_session_id sv)) svs)" if m: "(n, i) \<in> set (app_registrations s)" for n i
  proof -
    have "snd ` set (app_registrations s) = sn_session_id ` set svs" using ok ids by (simp add: app_ok_def)
    then obtain sv where sv: "sv \<in> set svs" "sn_session_id sv = i" using imageI [OF m, of snd] by auto
    have "inj_on snd (set (app_registrations s))" using ok by (simp add: app_ok_def distinct_map)
    from inj_onD [OF this, of "(n, i)" "(sn_nonce sv, sn_session_id sv)"] have "sn_nonce sv = n" using each [OF sv(1)] m sv(2) by simp
    with sv show ?thesis by auto
  qed
  then show "set (map (\<lambda>sv. (sn_nonce sv, sn_session_id sv)) svs) = set (app_registrations s)" using each by auto
qed

lemma import_listed:
  assumes ok: "app_ok digest s" and vals: "values_ok s"
    and vs: "distinct (map fst vs)" "set vs = set (app_values s)"
    and ids: "distinct (map sn_session_id svs)" "sn_session_id ` set svs = fst ` set (app_sessions s)"
    and each: "\<And>sv. sv \<in> set svs \<Longrightarrow> (sn_nonce sv, sn_session_id sv) \<in> set (app_registrations s) \<and> (sn_session_id sv, saved_session sv) \<in> set (app_sessions s)"
    and keys: "\<And>sv. sv \<in> set svs \<Longrightarrow> distinct (map ks_key (sn_keys sv))"
  shows "import_snapshot digest \<lparr>as_schema_version = 1, as_last_applied = app_last_applied s, as_values = vs, as_sessions = svs,
    as_retained_keys = app_retained_keys s, as_retained_payload_bytes = app_retained_payload_bytes s\<rparr> (app_last_applied s) = Inr s"
proof -
  let ?cells = "map (\<lambda>sv. (sn_session_id sv, saved_session sv)) svs" and ?regs = "map (\<lambda>sv. (sn_nonce sv, sn_session_id sv)) svs"
  let ?snap = "\<lparr>as_schema_version = 1, as_last_applied = app_last_applied s, as_values = vs, as_sessions = svs,
    as_retained_keys = app_retained_keys s, as_retained_payload_bytes = app_retained_payload_bytes s\<rparr>"
  note srt = app_okD(1-3) [OF ok]
  have sets: "set ?cells = set (app_sessions s)" "set ?regs = set (app_registrations s)" using listed_sessions [OF ok ids(2)] each by blast+
  have dist: "distinct (map fst ?cells)" "distinct (map snd ?regs)" using ids(1) by (simp_all add: comp_def)
  have perm: "mset ?cells = mset (app_sessions s)" "mset ?regs = mset (app_registrations s)"
    by (rule permuted [OF dist(1) srt(3) sets(1)], rule permuted [OF dist(2) srt(2) sets(2)])
  have "mset (map fst ?regs) = mset (map fst (app_registrations s))" by (simp only: mset_map [of fst] perm(2))
  then have nonces: "distinct (map fst ?regs)" using bt_sorted_distinct [OF srt(2)] distinct_mset by blast
  have ops: "mset (concat (map saved_ops svs)) = mset (concat (map session_ops (app_sessions s)))"
    using saved_ops_all [of svs] mset_concat_map [OF perm(1), of session_ops] keys by auto
  have sums: "sum_list (map (\<lambda>sv. length (sn_keys sv)) svs) = app_retained_keys s"
    "sum_list (map (\<lambda>sv. payload_bytes (sn_keys sv)) svs) = app_retained_payload_bytes s"
    using sum_list_mset [OF perm(1), of "\<lambda>(_, ss). length (ss_keys ss)"] sum_list_mset [OF perm(1), of "\<lambda>(_, ss). session_bytes ss"] ok
      saved_session_parts [OF keys] by (simp_all add: app_ok_def comp_def cong: map_cong)
  have "s = im_state (fold placed svs (import_start ?snap))"
  proof (rule state_machine.equality)
    show "app_registrations s = app_registrations (im_state (fold placed svs (import_start ?snap)))"
      using inserted_same [OF srt(2) nonces sets(2)] by (simp add: fold_placed import_start_def initial_state_def)
    show "app_sessions s = app_sessions (im_state (fold placed svs (import_start ?snap)))"
      using inserted_same [OF srt(3) dist(1) sets(1)] by (simp add: fold_placed import_start_def initial_state_def)
    show "app_values s = app_values (im_state (fold placed svs (import_start ?snap)))"
      using inserted_same [OF srt(1) vs] by (simp add: fold_placed import_start_def)
  qed (simp_all add: fold_placed sums import_start_def initial_state_def)
  moreover have good: "\<forall>sv \<in> set svs. saved_ok digest (app_last_applied s) sv"
    unfolding saved_ok_def
  proof (intro ballI conjI)
    fix sv
    assume sv: "sv \<in> set svs"
    show "nonce_valid (sn_nonce sv)" "session_ok digest (app_last_applied s) (sn_session_id sv) (saved_session sv)"
      using each [OF sv] ok by (auto simp: app_ok_def)
    show "distinct (map ks_key (sn_keys sv))" by (rule keys [OF sv])
  qed
  moreover have "svs = []" "vs = []" if "app_last_applied s = 0"
    using good that vs(2) ok by (cases svs; auto simp: saved_ok_def session_ok_def app_ok_def)+
  then have "0 < app_last_applied s \<or> vs = [] \<and> svs = []" by blast
  moreover have "length svs = length (app_sessions s)" using mset_eq_length [OF perm(1)] by simp
  moreover have "distinct (concat (map saved_ops svs))" unfolding distinct_mset [OF ops] using ok by (simp add: app_ok_def)
  ultimately show ?thesis
    using ok vals vs nonces unfolding import_snapshot_iff by (simp add: app_ok_def values_ok_def comp_def)
qed

text \<open>An exported state is imported again.\<close>

lemma saved_key_export [simp]: "saved_key (export_key p) = p"
  by (cases p) (simp add: saved_key_def export_key_def)

lemma export_session_parts:
  assumes "bt_sorted (ss_keys ss)"
  shows "saved_session (export_session nonce sid ss) = ss" "saved_ops (export_session nonce sid ss) = session_ops (sid, ss)"
    "distinct (map ks_key (sn_keys (export_session nonce sid ss)))" "sn_nonce (export_session nonce sid ss) = nonce"
    "sn_session_id (export_session nonce sid ss) = sid" "length (sn_keys (export_session nonce sid ss)) = length (ss_keys ss)"
    "payload_bytes (sn_keys (export_session nonce sid ss)) = session_bytes ss"
proof -
  have keys: "map saved_key (sn_keys (export_session nonce sid ss)) = ss_keys ss" by (simp add: export_session_def comp_def)
  show "saved_session (export_session nonce sid ss) = ss"
    unfolding saved_session_def keys inserted_same [OF assms bt_sorted_distinct [OF assms] refl] by (simp add: export_session_def)
  show "saved_ops (export_session nonce sid ss) = session_ops (sid, ss)"
    by (simp add: saved_ops_def session_ops_def export_session_def key_op_def export_key_def case_prod_unfold)
  show "distinct (map ks_key (sn_keys (export_session nonce sid ss)))"
    using bt_sorted_distinct [OF assms] by (simp add: export_session_def export_key_def comp_def)
  show "payload_bytes (sn_keys (export_session nonce sid ss)) = session_bytes ss"
    by (simp add: payload_bytes_def session_bytes_def export_session_def export_key_def comp_def case_prod_unfold)
qed (simp_all add: export_session_def)

lemma export_sessions_all:
  "\<forall>p \<in> set rs. bt_get m (snd p) = Some (ss p) \<Longrightarrow> export_sessions m rs = Some (map (\<lambda>p. export_session (fst p) (snd p) (ss p)) rs)"
  by (induction m rs rule: export_sessions.induct) auto

lemma export_sessions_ok:
  assumes ok: "app_ok digest s"
  shows "\<exists>ss. (\<forall>p \<in> set (app_registrations s). bt_get (app_sessions s) (snd p) = Some (ss p) \<and> bt_sorted (ss_keys (ss p))) \<and>
    export_sessions (app_sessions s) (app_registrations s) = Some (map (\<lambda>p. export_session (fst p) (snd p) (ss p)) (app_registrations s))"
proof -
  define ss where "ss p = the (bt_get (app_sessions s) (snd p))" for p :: "string \<times> log_index"
  have get: "bt_get (app_sessions s) (snd p) = Some (ss p)" if "p \<in> set (app_registrations s)" for p
  proof -
    have "snd p \<in> fst ` set (app_sessions s)" using ok that by (auto simp: app_ok_def)
    then obtain x where "bt_get (app_sessions s) (snd p) = Some x" by (metis domD dom_map_of_conv_image_fst)
    then show ?thesis by (simp add: ss_def)
  qed
  then have "bt_sorted (ss_keys (ss p))" if "p \<in> set (app_registrations s)" for p
    using app_ok_session(1) [OF ok get [OF that]] by (simp add: session_ok_def)
  with get export_sessions_all [of "app_registrations s" "app_sessions s" ss] show ?thesis by blast
qed

lemma export_import:
  assumes ok: "app_ok digest s" and vals: "values_ok s"
  shows "\<exists>snap. export_snapshot s = Some snap \<and> import_snapshot digest snap (app_last_applied s) = Inr s"
proof -
  let ?regs = "app_registrations s"
  obtain ss where get: "\<forall>p \<in> set ?regs. bt_get (app_sessions s) (snd p) = Some (ss p) \<and> bt_sorted (ss_keys (ss p))"
    and exp: "export_sessions (app_sessions s) ?regs = Some (map (\<lambda>p. export_session (fst p) (snd p) (ss p)) ?regs)"
    using export_sessions_ok [OF ok] by blast
  define svs where "svs = map (\<lambda>p. export_session (fst p) (snd p) (ss p)) ?regs"
  have parts: "saved_session (export_session n i (ss (n, i))) = ss (n, i)" "distinct (map ks_key (sn_keys (export_session n i (ss (n, i)))))"
    if "(n, i) \<in> set ?regs" for n i using get that export_session_parts(1,3) by fastforce+
  have ids: "map sn_session_id svs = map snd ?regs" by (simp add: svs_def export_session_def)
  have "import_snapshot digest \<lparr>as_schema_version = 1, as_last_applied = app_last_applied s, as_values = app_values s, as_sessions = svs,
    as_retained_keys = app_retained_keys s, as_retained_payload_bytes = app_retained_payload_bytes s\<rparr> (app_last_applied s) = Inr s"
  proof (rule import_listed [OF ok vals bt_sorted_distinct [OF app_okD(1) [OF ok]] refl])
    show "distinct (map sn_session_id svs)" unfolding ids using ok by (simp add: app_ok_def)
    show "sn_session_id ` set svs = fst ` set (app_sessions s)" using arg_cong [OF ids, of set] ok by (simp add: app_ok_def)
    fix sv
    assume "sv \<in> set svs"
    then obtain n i where sv: "sv = export_session n i (ss (n, i))" "(n, i) \<in> set ?regs" by (auto simp: svs_def)
    have "(i, ss (n, i)) \<in> set (app_sessions s)" using bspec [OF get sv(2)] by (simp add: map_of_SomeD)
    then show "(sn_nonce sv, sn_session_id sv) \<in> set ?regs \<and> (sn_session_id sv, saved_session sv) \<in> set (app_sessions s)"
      using sv parts [OF sv(2)] by (simp add: export_session_def)
    show "distinct (map ks_key (sn_keys sv))" using parts [OF sv(2)] sv(1) by simp
  qed
  with exp show ?thesis by (auto simp: export_snapshot_def svs_def)
qed

section \<open>Properties\<close>

text \<open> C29.
  The import is a trust boundary with exactly the right strength: for a log index that fits its machine type, the
  states that some snapshot data can produce are the states that satisfy the application's invariant and hold keys and
  values within their limits.  No snapshot, however it was made, yields any other state.
\<close>
theorem import_exact:
  assumes "n \<le> u64_max"
  shows "(\<exists>snap. import_snapshot digest snap n = Inr s) \<longleftrightarrow> app_ok digest s \<and> values_ok s \<and> app_last_applied s = n"
  using import_ok [OF _ assms] export_import by blast

theorem import_exact_witness:
  "\<exists>snap. import_snapshot sample_digest snap 2 = Inr sample_written"
proof -
  have "app_ok sample_digest sample_written"
    by (rule app_reachable_ok [OF app_step [OF sample_registered_reachable _ sample_put_accepted]]) (simp add: sample_put_def utf8_sample)
  moreover have "values_ok sample_written" "app_last_applied sample_written = 2"
    by (simp_all add: values_ok_def sample_written_def MAX_KEY_BYTES_def MAX_VALUE_BYTES_def)
  ultimately show ?thesis using import_exact [of 2 sample_digest sample_written] by (simp add: u64_max_def)
qed

text \<open> C30.
  The snapshot of every reachable application can be exported.  When the keys and values of the state are within their
  limits, importing it at the applied position gives back the very same state, with every value, session, tombstone,
  retry record and counter.  The limits on plain writes are kept by the HTTP layer, not by the application, which applies
  a write whatever its size: the snapshot of a state with an empty or oversized key or an oversized value is refused by
  the import, at every position.
\<close>
theorem snapshot_roundtrip:
  assumes "app_reachable digest s"
  shows "\<exists>snap. export_snapshot s = Some snap \<and> as_last_applied snap = app_last_applied s \<and>
    (values_ok s \<longrightarrow> import_snapshot digest snap (app_last_applied s) = Inr s) \<and>
    (\<not> values_ok s \<longrightarrow> (\<forall>n. \<exists>message. import_snapshot digest snap n = Inl message))"
proof -
  note ok = app_reachable_ok [OF assms]
  obtain snap where snap: "export_snapshot s = Some snap"
    using export_sessions_ok [OF ok] by (auto simp: export_snapshot_def)
  then have kept: "as_last_applied snap = app_last_applied s" "as_values snap = app_values s"
    by (auto simp: export_snapshot_def)
  have "\<exists>message. import_snapshot digest snap n = Inl message" if "\<not> values_ok s" for n
  proof (cases "import_snapshot digest snap n")
    case (Inr t)
    then show ?thesis using that kept(2) by (fastforce simp: import_snapshot_iff values_ok_def)
  qed simp
  moreover have "import_snapshot digest snap (app_last_applied s) = Inr s" if "values_ok s"
    using export_import [OF ok that] snap by auto
  ultimately show ?thesis using snap kept(1) by blast
qed

text \<open>A written value with its session and retry record comes back; a write with an empty key cannot be restored.\<close>

theorem snapshot_roundtrip_witness:
  "(\<exists>snap. export_snapshot sample_written = Some snap \<and> app_values sample_written = [(''k'', ''v'')] \<and>
      app_retained_keys sample_written = 1 \<and> import_snapshot sample_digest snap 2 = Inr sample_written) \<and>
   (\<exists>s snap. app_reachable sample_digest s \<and> export_snapshot s = Some snap \<and>
      (\<forall>n. \<exists>message. import_snapshot sample_digest snap n = Inl message))"
proof
  have "app_reachable sample_digest sample_written"
    by (rule app_step [OF sample_registered_reachable _ sample_put_accepted]) (simp add: sample_put_def utf8_sample)
  moreover have "values_ok sample_written" "app_last_applied sample_written = 2"
    "app_values sample_written = [(''k'', ''v'')]" "app_retained_keys sample_written = 1"
    by (simp_all add: values_ok_def sample_written_def MAX_KEY_BYTES_def MAX_VALUE_BYTES_def)
  ultimately show "\<exists>snap. export_snapshot sample_written = Some snap \<and> app_values sample_written = [(''k'', ''v'')] \<and>
      app_retained_keys sample_written = 1 \<and> import_snapshot sample_digest snap 2 = Inr sample_written"
    using snapshot_roundtrip [of sample_digest sample_written] by auto
  let ?s = "initial_state\<lparr>app_values := [([], [])], app_last_applied := 1\<rparr>"
  have "app_apply sample_digest \<lparr>index = 1, e_term = 1, command = Put [] []\<rparr> initial_state = Some (Inr (Applied 1, ?s))"
    by (simp add: app_apply_def apply_command_def initial_state_def u64_max_def)
  then have reach: "app_reachable sample_digest ?s" by (rule app_step [OF app_start, rotated]) simp
  have "\<not> values_ok ?s" by (simp add: values_ok_def)
  then show "\<exists>s snap. app_reachable sample_digest s \<and> export_snapshot s = Some snap \<and>
      (\<forall>n. \<exists>message. import_snapshot sample_digest snap n = Inl message)"
    using snapshot_roundtrip [OF reach] reach by blast
qed

end
