(* ===== verification/Store_Codec.thy ===== *)
theory Store_Codec
  imports Bytes
begin

text \<open>
  The data and the byte formats of \<^verbatim>\<open>state-store\<close> (\<^verbatim>\<open>lib.rs\<close> and \<^verbatim>\<open>codec.rs\<close>): bounded
  batches of mutations, versioned records, the write-ahead-log batch and the checksummed frame.
  The digest, \<^verbatim>\<open>SHA-256\<close> of a crate the sources only call, is a parameter of the framing functions.
\<close>

section \<open>Data and limits\<close>

definition MAX_KEY_BYTES :: nat where "MAX_KEY_BYTES = 4096"
definition MAX_VALUE_BYTES :: nat where "MAX_VALUE_BYTES = 1024 * 1024"
definition MAX_BATCH_BYTES :: nat where "MAX_BATCH_BYTES = 16 * 1024 * 1024"
definition MAX_BATCH_RECORDS :: nat where "MAX_BATCH_RECORDS = 65536"
definition MAX_INSTALL_BYTES :: nat where "MAX_INSTALL_BYTES = 128 * 1024 * 1024"
definition MAX_INSTALL_RECORDS :: nat where "MAX_INSTALL_RECORDS = 1000000"
definition MAX_APPLY_RANGE :: nat where "MAX_APPLY_RANGE = 256"
definition MAX_FRAME :: nat where "MAX_FRAME = MAX_BATCH_BYTES + MAX_BATCH_RECORDS * 16 + 24"
definition u32_max :: nat where "u32_max = 4294967295"

record mutation =
  mut_key :: "byte list"
  mut_value :: "byte list option"

record store_record =
  rec_key :: "byte list"
  rec_value :: "byte list option"
  rec_sequence :: nat

text \<open>The kinds of \<^verbatim>\<open>io::Error\<close> the store produces.\<close>

datatype store_error =
    InvalidData string
  | InvalidInput string
  | OtherError string
  | OutOfMemory string

type_synonym 'a stored = "store_error + 'a"

definition value_length :: "byte list option \<Rightarrow> nat" where
  "value_length v = (case v of None \<Rightarrow> 0 | Some b \<Rightarrow> length b)"

definition record_size :: "store_record \<Rightarrow> nat" where
  "record_size r = 16 + length (rec_key r) + value_length (rec_value r)"

section \<open>Validation\<close>

definition validate_range :: "nat \<Rightarrow> nat \<Rightarrow> unit stored" where
  "validate_range fst_index idx =
     (if fst_index = 0 \<or> idx < fst_index \<or> idx - fst_index \<ge> MAX_APPLY_RANGE
      then Inl (InvalidInput ''invalid or oversized applied range'') else Inr ())"

fun validate_each :: "nat \<Rightarrow> nat \<Rightarrow> byte list set \<Rightarrow> mutation list \<Rightarrow> nat stored" where
  "validate_each max_bytes bytes keys [] = Inr bytes"
| "validate_each max_bytes bytes keys (c # cs) =
     (if mut_key c = [] \<or> length (mut_key c) > MAX_KEY_BYTES \<or>
         (case mut_value c of None \<Rightarrow> False | Some v \<Rightarrow> length v > MAX_VALUE_BYTES) \<or> mut_key c \<in> keys
      then Inl (InvalidInput ''invalid key/value bounds or duplicate batch key'')
      else case checked_add bytes (length (mut_key c) + value_length (mut_value c)) of
             None \<Rightarrow> Inl (InvalidInput ''batch size overflow'')
           | Some bytes \<Rightarrow>
               if bytes > max_bytes then Inl (InvalidInput ''batch byte limit exceeded'')
               else validate_each max_bytes bytes (insert (mut_key c) keys) cs)"

definition validate_mutations :: "mutation list \<Rightarrow> nat \<Rightarrow> nat \<Rightarrow> nat stored" where
  "validate_mutations changes max_records max_bytes =
     (if length changes > max_records then Inl (InvalidInput ''too many batch records'')
      else validate_each max_bytes 0 {} changes)"

definition validate_changes :: "mutation list \<Rightarrow> nat stored" where
  "validate_changes changes = validate_mutations changes MAX_BATCH_RECORDS MAX_BATCH_BYTES"

definition validate_install :: "mutation list \<Rightarrow> nat stored" where
  "validate_install cells = validate_mutations cells MAX_INSTALL_RECORDS MAX_INSTALL_BYTES"

section \<open>Records\<close>

definition encode_record :: "store_record \<Rightarrow> byte list" where
  "encode_record r =
     le_bytes 8 (rec_sequence r) @ le_bytes 4 (length (rec_key r)) @
     le_bytes 4 (case rec_value r of None \<Rightarrow> u32_max | Some v \<Rightarrow> length v) @
     rec_key r @ (case rec_value r of None \<Rightarrow> [] | Some v \<Rightarrow> v)"

fun decode_loop :: "nat \<Rightarrow> byte list \<Rightarrow> store_record list stored" where
  "decode_loop 0 bytes =
     (if bytes \<noteq> [] then Inl (InvalidData ''trailing record data'') else Inr [])"
| "decode_loop (Suc n) bytes =
     (if length bytes < 16 then Inl (InvalidData ''short record header'')
      else let header = take 16 bytes; bytes = drop 16 bytes;
               sq = le_value (take 8 header);
               key_len = le_value (take 4 (drop 8 header));
               value_len = le_value (drop 12 header);
               len = (if value_len = u32_max then 0 else value_len)
           in if key_len = 0 \<or> key_len > MAX_KEY_BYTES \<or> len > MAX_VALUE_BYTES \<or> key_len + len > length bytes
              then Inl (InvalidData ''record bounds invalid'')
              else rbind (decode_loop n (drop (key_len + len) bytes)) (\<lambda>rest.
                Inr (\<lparr>rec_key = take key_len bytes,
                      rec_value = (if value_len \<noteq> u32_max then Some (take len (drop key_len bytes)) else None),
                      rec_sequence = sq\<rparr> # rest)))"

definition decode_records :: "byte list \<Rightarrow> nat \<Rightarrow> store_record list stored" where
  "decode_records bytes count =
     (if count > MAX_BATCH_RECORDS then Inl (InvalidData ''record count exceeds limit'')
      else decode_loop count bytes)"

section \<open>Batches\<close>

definition batch_record :: "nat \<Rightarrow> mutation \<Rightarrow> store_record" where
  "batch_record sq c = \<lparr>rec_key = mut_key c, rec_value = mut_value c, rec_sequence = sq\<rparr>"

definition encode_batch :: "nat \<Rightarrow> nat \<Rightarrow> mutation list \<Rightarrow> byte list stored" where
  "encode_batch fst_index idx changes =
     rbind (validate_range fst_index idx) (\<lambda>_.
     rbind (validate_changes changes) (\<lambda>_.
       Inr (le_bytes 8 fst_index @ le_bytes 8 idx @ le_bytes 4 (length changes) @
            concat (map (\<lambda>c. encode_record (batch_record idx c)) changes))))"

definition as_invalid :: "'a stored \<Rightarrow> 'a stored" where
  "as_invalid r = (case r of
       Inr x \<Rightarrow> Inr x
     | Inl (InvalidData m) \<Rightarrow> Inl (InvalidData m)
     | Inl (InvalidInput m) \<Rightarrow> Inl (InvalidData m)
     | Inl (OtherError m) \<Rightarrow> Inl (InvalidData m)
     | Inl (OutOfMemory m) \<Rightarrow> Inl (InvalidData m))"

definition decode_batch :: "byte list \<Rightarrow> (nat \<times> nat \<times> mutation list) stored" where
  "decode_batch bytes =
     (if length bytes < 20 then Inl (InvalidData ''short batch'')
      else let fst_index = le_value (take 8 bytes); idx = le_value (take 8 (drop 8 bytes))
           in rbind (as_invalid (validate_range fst_index idx)) (\<lambda>_.
              rbind (decode_records (drop 20 bytes) (le_value (take 4 (drop 16 bytes)))) (\<lambda>records.
              if list_ex (\<lambda>r. rec_sequence r \<noteq> idx) records then Inl (InvalidData ''mixed batch sequence'')
              else let changes = map (\<lambda>r. \<lparr>mut_key = rec_key r, mut_value = rec_value r\<rparr>) records
                   in rbind (as_invalid (validate_changes changes)) (\<lambda>_. Inr (fst_index, idx, changes)))))"

section \<open>Frames\<close>

type_synonym digest_fun = "byte list \<Rightarrow> byte list"

definition frame :: "digest_fun \<Rightarrow> byte list \<Rightarrow> byte list \<Rightarrow> byte list stored" where
  "frame digest magic payload =
     (if length payload > MAX_FRAME then Inl (InvalidData ''frame too large'')
      else let header = magic @ le_bytes 4 (length payload);
               body = header @ digest header @ payload
           in Inr (body @ digest body))"

text \<open>
  \<^verbatim>\<open>read_frame\<close> on the bytes left in the reader.  \<open>Inr None\<close> is the end of the file or an
  incomplete last frame; otherwise the payload and the number of bytes consumed are returned.
\<close>

definition read_frame :: "digest_fun \<Rightarrow> byte list \<Rightarrow> byte list \<Rightarrow> (byte list \<times> nat) option stored" where
  "read_frame digest magic bytes =
     (if length bytes < 44 then Inr None
      else let header = take 44 bytes; len = le_value (take 4 (drop 8 header))
           in if take 8 header \<noteq> magic then Inl (InvalidData ''frame magic/version mismatch'')
              else if digest (take 12 header) \<noteq> drop 12 header
              then Inl (InvalidData ''frame header checksum mismatch'')
              else if len > MAX_FRAME then Inl (InvalidData ''frame length exceeds limit'')
              else if length (drop 44 bytes) < len + 32 then Inr None
              else let rest = take (len + 32) (drop 44 bytes)
                   in if digest (header @ take len rest) \<noteq> drop len rest
                      then Inl (InvalidData ''frame checksum mismatch'')
                      else Inr (Some (take len rest, len + 76)))"

lemmas codec_limits = MAX_KEY_BYTES_def MAX_VALUE_BYTES_def MAX_BATCH_BYTES_def MAX_BATCH_RECORDS_def MAX_FRAME_def u32_max_def

section \<open>What validation accepts\<close>

definition valid_cell :: "byte list \<Rightarrow> byte list option \<Rightarrow> bool" where
  "valid_cell k v \<longleftrightarrow> k \<noteq> [] \<and> length k \<le> MAX_KEY_BYTES \<and> value_length v \<le> MAX_VALUE_BYTES"

definition valid_record :: "store_record \<Rightarrow> bool" where
  "valid_record r \<longleftrightarrow> valid_cell (rec_key r) (rec_value r) \<and> rec_sequence r \<le> u64_max"

definition batch_bytes :: "mutation list \<Rightarrow> nat" where
  "batch_bytes cs = sum_list (map (\<lambda>c. length (mut_key c) + value_length (mut_value c)) cs)"

lemma validate_each_iff:
  assumes "max_bytes \<le> u64_max" "bytes \<le> max_bytes"
  shows "validate_each max_bytes bytes keys cs = Inr sz \<longleftrightarrow>
    list_all (\<lambda>c. valid_cell (mut_key c) (mut_value c)) cs \<and> distinct (map mut_key cs) \<and>
    keys \<inter> mut_key ` set cs = {} \<and> sz = bytes + batch_bytes cs \<and> sz \<le> max_bytes"
  using assms
proof (induction cs arbitrary: bytes keys)
  case Nil
  then show ?case by (auto simp: batch_bytes_def)
next
  case (Cons c cs)
  let ?b = "bytes + (length (mut_key c) + value_length (mut_value c))"
  have over: "(case mut_value c of None \<Rightarrow> False | Some v \<Rightarrow> length v > MAX_VALUE_BYTES) \<longleftrightarrow> \<not> value_length (mut_value c) \<le> MAX_VALUE_BYTES"
    by (auto simp: value_length_def split: option.splits)
  show ?case
  proof (cases "valid_cell (mut_key c) (mut_value c) \<and> mut_key c \<notin> keys \<and> ?b \<le> max_bytes")
    case True
    then have "validate_each max_bytes bytes keys (c # cs) = validate_each max_bytes ?b (insert (mut_key c) keys) cs"
      using Cons.prems over by (auto simp: valid_cell_def checked_add_def)
    with Cons.IH [of ?b "insert (mut_key c) keys"] Cons.prems True show ?thesis
      by (auto simp: batch_bytes_def image_iff)
  next
    case False
    then have "\<not> is_ok (validate_each max_bytes bytes keys (c # cs))"
      using over by (auto simp: valid_cell_def checked_add_def split: option.split)
    with False show ?thesis by (auto simp: batch_bytes_def)
  qed
qed

lemma validate_changes_iff:
  "validate_changes cs = Inr sz \<longleftrightarrow> length cs \<le> MAX_BATCH_RECORDS \<and> list_all (\<lambda>c. valid_cell (mut_key c) (mut_value c)) cs \<and>
     distinct (map mut_key cs) \<and> sz = batch_bytes cs \<and> sz \<le> MAX_BATCH_BYTES"
  using validate_each_iff [of MAX_BATCH_BYTES 0 "{}" cs sz]
  by (auto simp: validate_changes_def validate_mutations_def codec_limits u64_max_def)

lemma validate_range_iff: "validate_range f l = Inr () \<longleftrightarrow> 0 < f \<and> f \<le> l \<and> l - f < MAX_APPLY_RANGE"
  by (auto simp: validate_range_def)

section \<open>Decoding is the exact inverse of encoding\<close>

declare decode_loop.simps(2) [simp del]

lemma valid_lengths:
  assumes "valid_cell k v"
  shows "length k < 4294967296" "value_length v < u32_max"
  using assms by (auto simp: valid_cell_def codec_limits)

lemma decode_encode_record:
  assumes r: "valid_record r"
  shows "decode_loop (Suc n) (encode_record r @ rest) = rbind (decode_loop n rest) (\<lambda>rs. Inr (r # rs))"
proof -
  let ?k = "rec_key r" and ?v = "rec_value r"
  let ?vl = "case ?v of None \<Rightarrow> u32_max | Some v \<Rightarrow> length v"
  let ?body = "case ?v of None \<Rightarrow> [] | Some v \<Rightarrow> v"
  have c: "valid_cell ?k ?v" "rec_sequence r \<le> u64_max" using r by (auto simp: valid_record_def)
  note l = valid_lengths [OF c(1)]
  have body: "length ?body = value_length ?v" by (simp add: value_length_def split: option.split)
  have vl: "(?vl = u32_max) = (?v = None)" "?vl < 4294967296"
    using l(2) by (auto simp: value_length_def u32_max_def split: option.splits)
  let ?bs = "encode_record r @ rest"
  have parts: "take 8 (take 16 ?bs) = le_bytes 8 (rec_sequence r)" "take 4 (drop 8 (take 16 ?bs)) = le_bytes 4 (length ?k)"
    "drop 12 (take 16 ?bs) = le_bytes 4 ?vl" "drop 16 ?bs = ?k @ ?body @ rest" "\<not> length ?bs < 16"
    by (simp_all add: encode_record_def)
  have sq: "le_value (le_bytes 8 (rec_sequence r)) = rec_sequence r"
    using c(2) by (intro le_value_small) (simp add: u64_max_def)
  have kl: "le_value (le_bytes 4 (length ?k)) = length ?k" "le_value (le_bytes 4 ?vl) = ?vl"
    using l(1) vl(2) by (auto intro!: le_value_small)
  have len: "(if ?vl = u32_max then 0 else ?vl) = value_length ?v"
    using vl(1) by (auto simp: value_length_def split: option.splits)
  have val: "(if ?vl \<noteq> u32_max then Some (take (value_length ?v) (drop (length ?k) (?k @ ?body @ rest))) else None) = ?v"
    using vl(1) by (auto simp: value_length_def split: option.splits)
  have ok: "\<not> (length ?k = 0 \<or> length ?k > MAX_KEY_BYTES \<or> value_length ?v > MAX_VALUE_BYTES \<or>
      length ?k + value_length ?v > length (?k @ ?body @ rest))"
    using c(1) body by (auto simp: valid_cell_def)
  have rest: "drop (length ?k + value_length ?v) (?k @ ?body @ rest) = rest" using body by simp
  show ?thesis
    unfolding decode_loop.simps(2) if_not_P [OF parts(5)] Let_def parts(1-4) sq kl len if_not_P [OF ok] rest val
    by (cases r) simp
qed

lemma decode_encode:
  "list_all valid_record rs \<Longrightarrow> decode_loop (length rs) (concat (map encode_record rs)) = Inr rs"
  by (induction rs) (auto simp: decode_encode_record)

lemma decode_loop_SucE:
  assumes d: "decode_loop (Suc n) bs = Inr out"
  obtains r rs rest where "out = r # rs" "bs = encode_record r @ rest" "valid_record r" "decode_loop n rest = Inr rs"
proof -
  let ?h = "take 16 bs" and ?bs = "drop 16 bs"
  let ?kl = "le_value (take 4 (drop 8 ?h))" and ?vl = "le_value (drop 12 ?h)"
  let ?len = "if ?vl = u32_max then 0 else ?vl"
  let ?r = "\<lparr>rec_key = take ?kl ?bs, rec_value = (if ?vl \<noteq> u32_max then Some (take ?len (drop ?kl ?bs)) else None),
    rec_sequence = le_value (take 8 ?h)\<rparr>"
  from d have ok: "\<not> length bs < 16" "?kl \<noteq> 0" "?kl \<le> MAX_KEY_BYTES" "?len \<le> MAX_VALUE_BYTES" "?kl + ?len \<le> length ?bs"
    by (auto simp: decode_loop.simps(2) Let_def split: if_splits)
  from d ok obtain rs where rs: "out = ?r # rs" "decode_loop n (drop (?kl + ?len) ?bs) = Inr rs"
    by (auto simp: decode_loop.simps(2) Let_def rbind_Inr_iff split: if_splits)
  have h: "length ?h = 16" using ok(1) by simp
  have vl: "value_length (rec_value ?r) = ?len" "(case rec_value ?r of None \<Rightarrow> u32_max | Some v \<Rightarrow> length v) = ?vl"
    using ok(5) by (auto simp: value_length_def)
  have kl: "length (rec_key ?r) = ?kl" using ok(5) by simp
  have "encode_record ?r = take 8 ?h @ take 4 (drop 8 ?h) @ drop 12 ?h @ take ?kl ?bs @ take ?len (drop ?kl ?bs)"
  proof -
    have "le_bytes 8 (rec_sequence ?r) = take 8 ?h" "le_bytes 4 ?kl = take 4 (drop 8 ?h)" "le_bytes 4 ?vl = drop 12 ?h"
      using h by (auto intro!: le_bytes_exact)
    moreover have "(case rec_value ?r of None \<Rightarrow> [] | Some v \<Rightarrow> v) = take ?len (drop ?kl ?bs)" by simp
    ultimately show ?thesis unfolding encode_record_def vl(2) kl by simp
  qed
  also have "\<dots> = ?h @ take (?kl + ?len) ?bs"
  proof -
    have "?h = take 8 ?h @ take 4 (drop 8 ?h) @ drop 12 ?h"
      using take_take_drop [of ?h 8 4] by simp
    moreover have "take (?kl + ?len) ?bs = take ?kl ?bs @ take ?len (drop ?kl ?bs)" by (rule take_add)
    ultimately show ?thesis by simp
  qed
  finally have enc: "encode_record ?r = ?h @ take (?kl + ?len) ?bs" .
  have "bs = encode_record ?r @ drop (?kl + ?len) ?bs" unfolding enc append_assoc append_take_drop_id ..
  moreover have "valid_record ?r"
    using ok vl(1) kl le_value_bound [of "take 8 ?h"] h by (auto simp: valid_record_def valid_cell_def u64_max_def)
  ultimately show ?thesis using rs that by blast
qed

lemma decode_exact:
  "decode_loop n bs = Inr rs \<Longrightarrow> bs = concat (map encode_record rs) \<and> length rs = n \<and> list_all valid_record rs"
proof (induction n arbitrary: bs rs)
  case (Suc n)
  from Suc.prems obtain r rest rs' where "rs = r # rs'" "bs = encode_record r @ rest" "valid_record r" "decode_loop n rest = Inr rs'"
    by (rule decode_loop_SucE)
  with Suc.IH [of rest rs'] show ?case by simp
qed (auto split: if_splits)

lemma decode_records_iff:
  "decode_records bs n = Inr rs \<longleftrightarrow>
     bs = concat (map encode_record rs) \<and> length rs = n \<and> n \<le> MAX_BATCH_RECORDS \<and> list_all valid_record rs"
  using decode_exact [of n bs rs] decode_encode [of rs] by (auto simp: decode_records_def)

lemma as_invalid_Inr [simp]: "as_invalid r = Inr x \<longleftrightarrow> r = Inr x"
  by (auto simp: as_invalid_def split: sum.splits store_error.splits)

lemma batch_split:
  assumes "length a = 8" "length b = 8" "length c = 4"
  shows "take 8 (a @ b @ c @ d) = a" "take 8 (drop 8 (a @ b @ c @ d)) = b" "take 4 (drop 16 (a @ b @ c @ d)) = c"
    "drop 20 (a @ b @ c @ d) = d"
  using assms by simp_all

lemma batch_records:
  "map (\<lambda>r. \<lparr>mut_key = rec_key r, mut_value = rec_value r\<rparr>) (map (batch_record i) cs) = cs"
  "list_all (\<lambda>r. rec_sequence r = i) rs \<Longrightarrow>
     map (batch_record i) (map (\<lambda>r. \<lparr>mut_key = rec_key r, mut_value = rec_value r\<rparr>) rs) = rs"
  by (auto simp: batch_record_def comp_def list_all_iff intro!: map_idI)

lemma valid_batch_record: "valid_record (batch_record i c) \<longleftrightarrow> valid_cell (mut_key c) (mut_value c) \<and> i \<le> u64_max"
  by (simp add: valid_record_def batch_record_def)

lemma decode_batch_Inr:
  assumes "length a = 8" "length b = 8" "length c = 4"
  shows "decode_batch (a @ b @ c @ d) = Inr (f, i, cs) \<longleftrightarrow>
    f = le_value a \<and> i = le_value b \<and> validate_range f i = Inr () \<and> is_ok (validate_changes cs) \<and>
    decode_records d (le_value c) = Inr (map (batch_record i) cs)"
proof -
  let ?m = "\<lambda>r. \<lparr>mut_key = rec_key r, mut_value = rec_value r\<rparr>"
  have "decode_batch (a @ b @ c @ d) = Inr (f, i, cs) \<longleftrightarrow> f = le_value a \<and> i = le_value b \<and> validate_range f i = Inr () \<and>
      (\<exists>rs. decode_records d (le_value c) = Inr rs \<and> list_all (\<lambda>r. rec_sequence r = i) rs \<and> cs = map ?m rs \<and> is_ok (validate_changes cs))"
    unfolding decode_batch_def Let_def batch_split [OF assms]
    using assms by (auto simp: rbind_Inr_iff list_all_iff list_ex_iff is_ok_iff)
  also have "(\<exists>rs. decode_records d (le_value c) = Inr rs \<and> list_all (\<lambda>r. rec_sequence r = i) rs \<and> cs = map ?m rs \<and> is_ok (validate_changes cs))
      \<longleftrightarrow> is_ok (validate_changes cs) \<and> decode_records d (le_value c) = Inr (map (batch_record i) cs)"
    using batch_records by (auto simp: list_all_iff batch_record_def)
  finally show ?thesis by blast
qed

lemma batch_iff:
  "decode_batch bs = Inr (f, i, cs) \<longleftrightarrow> encode_batch f i cs = Inr bs \<and> f \<le> u64_max \<and> i \<le> u64_max" (is "?dec \<longleftrightarrow> ?enc")
proof -
  let ?body = "concat (map (\<lambda>c. encode_record (batch_record i c)) cs)"
  let ?bs = "le_bytes 8 f @ le_bytes 8 i @ le_bytes 4 (length cs) @ ?body"
  have enc: "?enc \<longleftrightarrow> validate_range f i = Inr () \<and> is_ok (validate_changes cs) \<and> bs = ?bs \<and> f \<le> u64_max \<and> i \<le> u64_max"
    by (auto simp: encode_batch_def rbind_Inr_iff is_ok_iff)
  have u64: "n \<le> u64_max \<longleftrightarrow> n < 256 ^ 8" for n by (auto simp: u64_max_def)
  show ?thesis
  proof
    assume ?enc
    then have e: "validate_range f i = Inr ()" "is_ok (validate_changes cs)" "bs = ?bs" "f \<le> u64_max" "i \<le> u64_max"
      using enc by auto
    from e(2) have cs: "list_all (\<lambda>c. valid_cell (mut_key c) (mut_value c)) cs" "length cs \<le> MAX_BATCH_RECORDS"
      by (auto simp: is_ok_iff validate_changes_iff)
    have "decode_records ?body (length cs) = Inr (map (batch_record i) cs)"
      using cs e(5) by (simp add: decode_records_iff comp_def list_all_iff valid_batch_record)
    moreover have "le_value (le_bytes 8 f) = f" "le_value (le_bytes 8 i) = i" "le_value (le_bytes 4 (length cs)) = length cs"
      using e(4,5) cs(2) by (auto simp only: u64 intro!: le_value_small) (simp add: codec_limits)
    ultimately show ?dec
      unfolding e(3) by (subst decode_batch_Inr) (use e in auto)
  next
    assume dec: ?dec
    then have len: "\<not> length bs < 20" by (auto simp: decode_batch_def split: if_splits)
    let ?a = "take 8 bs" and ?b = "take 8 (drop 8 bs)" and ?c = "take 4 (drop 16 bs)" and ?d = "drop 20 bs"
    have abcd: "bs = ?a @ ?b @ ?c @ ?d" "length ?a = 8" "length ?b = 8" "length ?c = 4"
      using take_take_drop [of bs 8 8] take_take_drop [of "drop 16 bs" 4 0] len by auto
    from dec abcd decode_batch_Inr [OF abcd(2-4)] have d: "f = le_value ?a" "i = le_value ?b" "validate_range f i = Inr ()"
      "is_ok (validate_changes cs)" "decode_records ?d (le_value ?c) = Inr (map (batch_record i) cs)" by metis+
    from d(5) have body: "?d = ?body" "le_value ?c = length cs"
      by (auto simp: decode_records_iff comp_def)
    have "le_bytes 8 f = ?a" "le_bytes 8 i = ?b" "le_bytes 4 (length cs) = ?c"
      using d(1,2) abcd(2-4) le_bytes_exact body(2) by (metis, metis, metis)
    with abcd(1) body(1) have "bs = ?bs" by metis
    moreover have "f \<le> u64_max" "i \<le> u64_max"
      using le_value_bound [of ?a] le_value_bound [of ?b] abcd(2,3) d(1,2) by (auto simp only: u64)
    ultimately show ?enc using d enc by blast
  qed
qed

section \<open>Frames survive, and torn frames are recognised\<close>

lemma frame_parts:
  assumes fr: "frame digest magic payload = Inr bs" and m: "length magic = 8" and dig: "\<And>x. length (digest x) = 32"
  defines "h \<equiv> magic @ le_bytes 4 (length payload)"
  shows "bs = h @ digest h @ payload @ digest (h @ digest h @ payload)" "length bs = length payload + 76"
    "length payload \<le> MAX_FRAME" "take 8 (h @ x) = magic" "take 12 (h @ x) = h" "drop 12 (h @ x) = x"
    "le_value (take 4 (drop 8 (h @ x))) = length payload"
proof -
  show pl: "length payload \<le> MAX_FRAME" using fr by (auto simp: frame_def split: if_splits)
  show bs: "bs = h @ digest h @ payload @ digest (h @ digest h @ payload)"
    using fr by (auto simp: frame_def Let_def h_def split: if_splits)
  show "length bs = length payload + 76" unfolding bs by (simp add: dig h_def m)
  show "take 8 (h @ x) = magic" "take 12 (h @ x) = h" "drop 12 (h @ x) = x" by (simp_all add: h_def m)
  have "le_value (le_bytes 4 (length payload)) = length payload"
    using pl by (intro le_value_small) (simp add: codec_limits)
  then show "le_value (take 4 (drop 8 (h @ x))) = length payload" by (simp add: h_def m)
qed

lemma read_frame_complete:
  assumes fr: "frame digest magic payload = Inr bs" and m: "length magic = 8" and dig: "\<And>x. length (digest x) = 32"
  shows "read_frame digest magic (bs @ later) = Inr (Some (payload, length bs))"
proof -
  let ?h = "magic @ le_bytes 4 (length payload)"
  note p = frame_parts [OF fr m dig]
  let ?body = "?h @ digest ?h @ payload"
  have bs: "bs @ later = (?h @ digest ?h) @ (payload @ digest ?body @ later)" unfolding p(1) by simp
  have hd: "take 44 (bs @ later) = ?h @ digest ?h" "drop 44 (bs @ later) = payload @ digest ?body @ later"
    unfolding bs by (simp_all add: m dig)
  have rest: "take (length payload + 32) (payload @ digest ?body @ later) = payload @ digest ?body"
    "take (length payload) (payload @ digest ?body) = payload" "drop (length payload) (payload @ digest ?body) = digest ?body"
    by (simp_all add: dig)
  have cond: "\<not> length (bs @ later) < 44" "\<not> length (payload @ digest ?body @ later) < length payload + 32"
    "\<not> length payload > MAX_FRAME" using p(2,3) by (simp_all add: dig)
  show ?thesis
    unfolding read_frame_def if_not_P [OF cond(1)] Let_def hd p(4-7) rest if_not_P [OF cond(2)] if_not_P [OF cond(3)]
    by (simp add: p(2))
qed

lemma read_frame_torn:
  assumes fr: "frame digest magic payload = Inr bs" and m: "length magic = 8" and dig: "\<And>x. length (digest x) = 32"
    and k: "k < length bs"
  shows "read_frame digest magic (take k bs) = Inr None"
proof (cases "k < 44")
  case False
  let ?h = "magic @ le_bytes 4 (length payload)"
  note p = frame_parts [OF fr m dig]
  let ?tail = "payload @ digest (?h @ digest ?h @ payload)"
  have bs: "bs = (?h @ digest ?h) @ ?tail" unfolding p(1) by simp
  have hd: "take 44 (take k bs) = ?h @ digest ?h" using False unfolding bs by (simp add: m dig min_def)
  have cond: "\<not> length (take k bs) < 44" "length (drop 44 (take k bs)) < length payload + 32" "\<not> length payload > MAX_FRAME"
    using False k p(2,3) by auto
  show ?thesis
    unfolding read_frame_def if_not_P [OF cond(1)] Let_def hd p(4-7) if_P [OF cond(2)] if_not_P [OF cond(3)] by simp
qed (simp add: read_frame_def min_less_iff_disj)

text \<open>
  C36.  The write-ahead-log batch format is unambiguous: decoding accepts exactly the byte strings
  that encoding produces, and returns the range and the mutations that were encoded.
\<close>

theorem batch_roundtrip:
  "decode_batch bs = Inr (f, i, cs) \<longleftrightarrow> encode_batch f i cs = Inr bs \<and> f \<le> u64_max \<and> i \<le> u64_max"
  by (rule batch_iff)

text \<open>
  C37.  A frame followed by anything reads back as its payload, consuming exactly the frame; and every
  proper prefix of a frame, as a crash during the write may leave it, reads as an incomplete tail, never
  as an error and never as data.  The digest is any function with 32-byte results.
\<close>

theorem frame_roundtrip:
  assumes "frame digest magic payload = Inr bs" and "length magic = 8" and "\<And>x. length (digest x) = 32"
  shows "read_frame digest magic (bs @ later) = Inr (Some (payload, length bs)) \<and>
    (k < length bs \<longrightarrow> read_frame digest magic (take k bs) = Inr None)"
  using read_frame_complete [OF assms] read_frame_torn [OF assms] by blast

theorem frame_roundtrip_witness:
  "\<exists>bs. frame (\<lambda>_. replicate 32 0) (replicate 8 1) [7] = Inr bs \<and>
     read_frame (\<lambda>_. replicate 32 0) (replicate 8 1) (bs @ [9]) = Inr (Some ([7], length bs))"
proof -
  obtain bs where "frame (\<lambda>_. replicate 32 0) (replicate 8 1) [7 :: byte] = Inr bs"
    by (simp add: frame_def codec_limits Let_def)
  with frame_roundtrip [OF this] show ?thesis by simp
qed

end
