(* ===== verification/Bloom.thy ===== *)
theory Bloom
  imports Store_Codec
begin

unbundle bit_operations_syntax

text \<open>
  \<^verbatim>\<open>state-store/src/bloom.rs\<close>: the Bloom filter of a table.  Two wrapping 64-bit hashes give
  seven probe positions; building sets their bits, a lookup tests them.  A panic, which the division
  by an empty filter's length would be, is \<open>None\<close>.
\<close>

section \<open>The filter\<close>

definition BITS_PER_KEY :: nat where "BITS_PER_KEY = 10"
definition PROBES :: nat where "PROBES = 7"

record bloom =
  bloom_bits :: "byte list"
  bloom_probes :: nat
  bloom_keys :: nat

definition hash_byte :: "byte \<Rightarrow> 64 word \<times> 64 word \<Rightarrow> 64 word \<times> 64 word" where
  "hash_byte byte ab =
     ((fst ab XOR ucast byte) * 0x100000001b3,
      word_rotl 13 (snd ab XOR ucast byte) * 0xbf58476d1ce4e5b9)"

definition hashes :: "byte list \<Rightarrow> 64 word \<times> 64 word" where
  "hashes key =
     (let ab = fold hash_byte key (0xcbf29ce484222325, 0x9e3779b97f4a7c15)
      in (fst ab, snd ab OR 1))"

definition div_ceil :: "nat \<Rightarrow> nat \<Rightarrow> nat" where
  "div_ceil a b = (a + b - 1) div b"

definition filter_bytes :: "nat \<Rightarrow> nat" where
  "filter_bytes keys = max (div_ceil (keys * BITS_PER_KEY) 8) 8"

definition probe_bit :: "64 word \<times> 64 word \<Rightarrow> nat \<Rightarrow> nat \<Rightarrow> nat" where
  "probe_bit ab len probe = unat (fst ab + of_nat probe * snd ab) mod len"

definition mark_bit :: "nat \<Rightarrow> byte list \<Rightarrow> byte list" where
  "mark_bit b bits = bits[b div 8 := bits ! (b div 8) OR push_bit (b mod 8) 1]"

definition add_key :: "byte list \<Rightarrow> byte list \<Rightarrow> byte list" where
  "add_key key bits = fold (\<lambda>probe bits. mark_bit (probe_bit (hashes key) (length bits * 8) probe) bits) [0..<PROBES] bits"

definition bloom_build :: "byte list list \<Rightarrow> bloom" where
  "bloom_build keys =
     \<lparr>bloom_bits = fold add_key keys (replicate (filter_bytes (length keys)) 0),
      bloom_probes = PROBES, bloom_keys = length keys\<rparr>"

definition bloom_validate :: "bloom \<Rightarrow> nat \<Rightarrow> unit stored" where
  "bloom_validate f keys =
     (if bloom_keys f \<noteq> keys \<or> bloom_probes f \<noteq> PROBES \<or> length (bloom_bits f) \<noteq> filter_bytes keys
      then Inl (InvalidData ''invalid Bloom encoding'') else Inr ())"

definition bloom_contains :: "bloom \<Rightarrow> byte list \<Rightarrow> bool option" where
  "bloom_contains f key =
     (let len = length (bloom_bits f) * 8
      in if len = 0 \<and> bloom_probes f \<noteq> 0 then None
         else Some (list_all (\<lambda>probe. let b = probe_bit (hashes key) len probe
                in bloom_bits f ! (b div 8) AND push_bit (b mod 8) 1 \<noteq> 0) [0..<bloom_probes f]))"

section \<open>Bits are only ever set\<close>

definition has_bit :: "byte list \<Rightarrow> nat \<Rightarrow> bool" where
  "has_bit bits b \<longleftrightarrow> bit (bits ! (b div 8)) (b mod 8)"

lemma mask_bit: "(w :: byte) AND 2 ^ i \<noteq> 0 \<longleftrightarrow> bit w i"
  by (simp add: and_exp_eq_0_iff_not_bit)

lemma length_mark_bit [simp]: "length (mark_bit b bits) = length bits"
  by (simp add: mark_bit_def)

lemma has_bit_mark:
  assumes "j < length bits * 8"
  shows "has_bit (mark_bit j bits) i \<longleftrightarrow> i = j \<or> has_bit bits i"
proof -
  have j: "j div 8 < length bits" using assms by (simp add: less_mult_imp_div_less)
  have "i = j \<longleftrightarrow> i div 8 = j div 8 \<and> i mod 8 = j mod 8"
    by (metis mult_div_mod_eq)
  moreover have "bit (bits ! (j div 8) OR push_bit (j mod 8) 1) (i mod 8) \<longleftrightarrow> bit (bits ! (j div 8)) (i mod 8) \<or> i mod 8 = j mod 8"
    by (auto simp: bit_simps)
  ultimately show ?thesis using j by (auto simp: has_bit_def mark_bit_def nth_list_update)
qed

lemma probe_bit_less: "0 < len \<Longrightarrow> probe_bit ab len p < len"
  by (simp add: probe_bit_def)

lemma fold_mark:
  assumes "0 < length bits"
  shows "length (fold (\<lambda>p bits. mark_bit (probe_bit ab (length bits * 8) p) bits) ps bits) = length bits \<and>
    (has_bit (fold (\<lambda>p bits. mark_bit (probe_bit ab (length bits * 8) p) bits) ps bits) i \<longleftrightarrow>
       has_bit bits i \<or> i \<in> probe_bit ab (length bits * 8) ` set ps)"
  using assms
proof (induction ps arbitrary: bits)
  case (Cons p ps)
  let ?b = "mark_bit (probe_bit ab (length bits * 8) p) bits"
  from Cons.prems have "has_bit ?b i \<longleftrightarrow> i = probe_bit ab (length bits * 8) p \<or> has_bit bits i"
    by (intro has_bit_mark probe_bit_less) simp
  with Cons.IH [of ?b] Cons.prems show ?case by auto
qed simp

lemma add_key_bits:
  assumes "0 < length bits"
  shows "length (add_key key bits) = length bits"
    "has_bit (add_key key bits) i \<longleftrightarrow> has_bit bits i \<or> i \<in> probe_bit (hashes key) (length bits * 8) ` {0..<PROBES}"
  using fold_mark [OF assms, of "hashes key" "[0..<PROBES]" i] by (simp_all add: add_key_def)

lemma build_bits:
  assumes "0 < length bits"
  shows "length (fold add_key keys bits) = length bits \<and>
    (has_bit (fold add_key keys bits) i \<longleftrightarrow>
      has_bit bits i \<or> (\<exists>k \<in> set keys. i \<in> probe_bit (hashes k) (length bits * 8) ` {0..<PROBES}))"
  using assms
proof (induction keys arbitrary: bits)
  case (Cons k keys)
  note a = add_key_bits(1) [OF Cons.prems, of k] add_key_bits(2) [OF Cons.prems, of k i]
  have "0 < length (add_key k bits)" using Cons.prems a(1) by simp
  note ih = Cons.IH [OF this, unfolded a(1)]
  show ?case unfolding fold_simps using ih a(2) by (simp only: list.set bex_simps(5)) blast
qed simp

lemma filter_bytes_pos: "0 < filter_bytes n"
  by (simp add: filter_bytes_def)

lemma bloom_contains_iff:
  assumes "bloom_bits f \<noteq> []"
  shows "bloom_contains f key = Some (\<forall>p < bloom_probes f. has_bit (bloom_bits f) (probe_bit (hashes key) (length (bloom_bits f) * 8) p))"
  using assms by (simp add: bloom_contains_def Let_def has_bit_def list_all_iff push_bit_of_1 mask_bit Ball_def)

lemma bloom_complete:
  assumes "key \<in> set keys"
  shows "bloom_contains (bloom_build keys) key = Some True"
proof -
  let ?zero = "replicate (filter_bytes (length keys)) (0 :: byte)"
  have z: "0 < length ?zero" using filter_bytes_pos by simp
  note b = build_bits [OF z, of keys]
  have "bloom_bits (bloom_build keys) \<noteq> []" using b z by (auto simp: bloom_build_def)
  moreover have "has_bit (bloom_bits (bloom_build keys)) (probe_bit (hashes key) (length (bloom_bits (bloom_build keys)) * 8) p)"
    if "p < PROBES" for p
  proof -
    have "probe_bit (hashes key) (length ?zero * 8) p \<in> probe_bit (hashes key) (length ?zero * 8) ` {0..<PROBES}"
      using that by (intro imageI) simp
    with b [of "probe_bit (hashes key) (length ?zero * 8) p"] assms show ?thesis by (auto simp: bloom_build_def)
  qed
  ultimately show ?thesis by (simp add: bloom_contains_iff) (simp add: bloom_build_def)
qed

lemma bloom_valid: "bloom_validate (bloom_build keys) (length keys) = Inr ()"
proof -
  have "length (bloom_bits (bloom_build keys)) = filter_bytes (length keys)"
    using build_bits [of "replicate (filter_bytes (length keys)) 0" keys] filter_bytes_pos by (simp add: bloom_build_def)
  then show ?thesis by (simp add: bloom_validate_def) (simp add: bloom_build_def)
qed

text \<open>
  C38.  The Bloom filter has no false negatives: the filter built from a table's keys is well-formed for
  their number, and it contains every one of them.
\<close>

theorem bloom_no_false_negatives:
  "bloom_validate (bloom_build keys) (length keys) = Inr () \<and>
   list_all (\<lambda>key. bloom_contains (bloom_build keys) key = Some True) keys"
  by (simp add: bloom_valid list_all_iff bloom_complete)

end
