(* ===== verification/Table.thy ===== *)
theory Table
  imports Bloom "HOL-Library.Countable"
begin

text \<open>
  \<^verbatim>\<open>state-store/src/table.rs\<close>: immutable sorted table files.  A file is its bytes: a header, checksummed
  blocks of records, a checksummed index with the Bloom filter, and a trailer that locates the index.  The index is
  encoded by \<^verbatim>\<open>serde_json\<close>, a crate the sources only call: its encoder and parser are the parameters \<open>json\<close> and
  \<open>parse\<close>, as SHA-256 is the parameter \<open>digest\<close>.  \<^verbatim>\<open>partition_point\<close> and \<^verbatim>\<open>binary_search_by\<close> are given by their
  documented results on the ordered data they are used on.
\<close>

section \<open>Data\<close>

definition TABLE_HEADER :: "byte list" where "TABLE_HEADER = text_bytes ''MRSTBL01''"
definition BLOCK_MAGIC :: "byte list" where "BLOCK_MAGIC = text_bytes ''MRSBLK01''"
definition FOOTER_MAGIC :: "byte list" where "FOOTER_MAGIC = text_bytes ''MRSIDX01''"
definition TABLE_END :: "byte list" where "TABLE_END = text_bytes ''MRSEND01''"
definition BLOCK_TARGET :: nat where "BLOCK_TARGET = 16 * 1024"
definition MAX_TABLE_BYTES :: nat where "MAX_TABLE_BYTES = 64 * 1024 * 1024"
definition MAX_FOOTER_BYTES :: nat where "MAX_FOOTER_BYTES = 4 * 1024 * 1024"

record table_meta =
  tm_id :: nat
  tm_level :: nat
  tm_bytes :: nat
  tm_first :: "byte list"
  tm_last :: "byte list"
  tm_min_sequence :: nat
  tm_max_sequence :: nat
  tm_records :: nat

definition meta_contains :: "table_meta \<Rightarrow> byte list \<Rightarrow> bool" where
  "meta_contains m key \<longleftrightarrow> tm_first m \<le> key \<and> key \<le> tm_last m"

definition meta_overlaps :: "table_meta \<Rightarrow> byte list \<Rightarrow> byte list \<Rightarrow> bool" where
  "meta_overlaps m lo hi \<longleftrightarrow> tm_first m \<le> hi \<and> lo \<le> tm_last m"

record block_meta =
  bm_offset :: nat
  bm_bytes :: nat
  bm_first :: "byte list"
  bm_last :: "byte list"
  bm_records :: nat

record footer =
  ft_version :: nat
  ft_blocks :: "block_meta list"
  ft_bloom :: bloom
  ft_records :: nat

section \<open>Writing\<close>

text \<open>One block: records are added while it is empty or below its target size.\<close>

fun fill_block :: "bool \<Rightarrow> byte list \<Rightarrow> store_record list \<Rightarrow> store_record list \<times> store_record list \<times> byte list" where
  "fill_block started payload [] = ([], [], payload)"
| "fill_block started payload (r # rs) =
     (if started \<and> length payload \<ge> BLOCK_TARGET then ([], r # rs, payload)
      else let (block, rest, payload) = fill_block True (payload @ encode_record r) rs in (r # block, rest, payload))"

lemma fill_block_split: "fill_block started payload rs = (block, rest, out) \<Longrightarrow> rs = block @ rest \<and> out = payload @ concat (map encode_record block)"
  by (induction started payload rs arbitrary: block rest out rule: fill_block.induct) (auto split: if_splits prod.splits)

lemma fill_block_nonempty: "fill_block False payload (r # rs) = (block, rest, out) \<Longrightarrow> block \<noteq> []"
  by (auto split: prod.splits)

function write_blocks :: "digest_fun \<Rightarrow> nat \<Rightarrow> store_record list \<Rightarrow> (byte list \<times> block_meta list) stored" where
  "write_blocks digest offset [] = Inr ([], [])"
| "write_blocks digest offset (r # rs) =
     (let (block, rest, payload) = fill_block False (replicate 4 0) (r # rs);
          payload = le_bytes 4 (length block) @ drop 4 payload
      in rbind (frame digest BLOCK_MAGIC payload) (\<lambda>encoded.
         rbind (write_blocks digest (offset + length encoded) rest) (\<lambda>(bytes, metas).
           Inr (encoded @ bytes,
             \<lparr>bm_offset = offset, bm_bytes = length encoded, bm_first = rec_key (hd block), bm_last = rec_key (last block),
              bm_records = length block\<rparr> # metas))))"
  by pat_completeness auto
termination
proof (relation "measure (\<lambda>(_, _, rs). length rs)")
  fix digest :: digest_fun and offset r rs x block y rest xa xb xc
  assume "x = fill_block False (replicate 4 0) (r # rs)" "(block, y) = x" "(rest, xa) = y"
  then have "fill_block False (replicate 4 0) (r # rs) = (block, rest, xa)" by simp
  from fill_block_split [OF this] fill_block_nonempty [OF this]
  show "((digest, offset + length xc, rest), digest, offset, r # rs) \<in> measure (\<lambda>(_, _, rs). length rs)"
    by (cases block) auto
qed simp

definition table_rejected :: "store_record list \<Rightarrow> bool" where
  "table_rejected records =
     (records = [] \<or> length records > MAX_BATCH_RECORDS \<or> \<not> successively (\<lambda>a b. rec_key a < rec_key b) records \<or>
      list_ex (\<lambda>r. rec_sequence r = 0) records)"

definition write_table :: "digest_fun \<Rightarrow> (footer \<Rightarrow> byte list) \<Rightarrow> nat \<Rightarrow> nat \<Rightarrow> store_record list \<Rightarrow> (table_meta \<times> byte list) stored" where
  "write_table digest json tid level records =
     (if table_rejected records then Inl (InvalidData ''table records must be nonempty, ordered and versioned'')
      else rbind (write_blocks digest (length TABLE_HEADER) records) (\<lambda>(body, blocks).
        let footer = \<lparr>ft_version = 1, ft_blocks = blocks, ft_bloom = bloom_build (map rec_key records), ft_records = length records\<rparr>
        in rbind (frame digest FOOTER_MAGIC (json footer)) (\<lambda>bytes.
          if length bytes > MAX_FOOTER_BYTES then Inl (InvalidData ''table index exceeds limit'')
          else let file = TABLE_HEADER @ body @ bytes @ le_bytes 8 (length bytes) @ TABLE_END
               in if length file > MAX_TABLE_BYTES then Inl (InvalidData ''table byte limit exceeded'')
                  else Inr (\<lparr>tm_id = tid, tm_level = level, tm_bytes = length file, tm_first = rec_key (hd records),
                         tm_last = rec_key (last records), tm_min_sequence = Min (set (map rec_sequence records)),
                         tm_max_sequence = Max (set (map rec_sequence records)), tm_records = length records\<rparr>, file))))"

section \<open>Reading\<close>

record table =
  tb_file :: "byte list"
  tb_meta :: table_meta
  tb_footer :: footer

definition read_block :: "digest_fun \<Rightarrow> byte list \<Rightarrow> block_meta \<Rightarrow> store_record list stored" where
  "read_block digest file block =
     rbind (read_frame digest BLOCK_MAGIC (drop (bm_offset block) file)) (\<lambda>fr.
       case fr of
         None \<Rightarrow> Inl (InvalidData ''incomplete data block'')
       | Some (payload, consumed) \<Rightarrow>
           if consumed \<noteq> bm_bytes block \<or> length payload < 4 then Inl (InvalidData ''data block size mismatch'')
           else let count = le_value (take 4 payload)
                in rbind (decode_records (drop 4 payload) count) (\<lambda>records.
                     if count \<noteq> bm_records block \<or> records = [] \<or> \<not> successively (\<lambda>a b. rec_key a < rec_key b) records \<or>
                        rec_key (hd records) \<noteq> bm_first block \<or> rec_key (records ! (count - 1)) \<noteq> bm_last block
                     then Inl (InvalidData ''data block order/index mismatch'') else Inr records))"

text \<open>The results a \<^verbatim>\<open>TableIterator\<close> yields: the records of one block after the other, up to the first unreadable block.\<close>

fun iter_blocks :: "digest_fun \<Rightarrow> byte list \<Rightarrow> block_meta list \<Rightarrow> store_record stored list" where
  "iter_blocks digest file [] = []"
| "iter_blocks digest file (b # bs) =
     (case read_block digest file b of
        Inr records \<Rightarrow> map Inr records @ iter_blocks digest file bs
      | Inl e \<Rightarrow> [Inl e])"

definition table_iter :: "digest_fun \<Rightarrow> table \<Rightarrow> store_record stored list" where
  "table_iter digest t = iter_blocks digest (tb_file t) (ft_blocks (tb_footer t))"

fun check_blocks :: "nat \<Rightarrow> nat \<Rightarrow> byte list option \<Rightarrow> nat \<Rightarrow> nat \<Rightarrow> block_meta list \<Rightarrow> (nat \<times> nat) stored" where
  "check_blocks footer_at records previous nxt count [] = Inr (nxt, count)"
| "check_blocks footer_at records previous nxt count (b # bs) =
     (if bm_offset b \<noteq> nxt \<or> bm_bytes b < 48 \<or> bm_bytes b > MAX_TABLE_BYTES \<or> bm_first b > bm_last b \<or>
         bm_records b = 0 \<or> bm_records b > MAX_BATCH_RECORDS \<or>
         (case previous of None \<Rightarrow> False | Some l \<Rightarrow> l \<ge> bm_first b)
      then Inl (InvalidData ''invalid block index/order'')
      else case checked_add nxt (bm_bytes b) of
             None \<Rightarrow> Inl (InvalidData ''block offset overflow'')
           | Some nxt \<Rightarrow>
               (case checked_add count (bm_records b) of
                  None \<Rightarrow> Inl (InvalidData ''block record count overflow'')
                | Some count \<Rightarrow>
                    if nxt > footer_at \<or> count > records then Inl (InvalidData ''block index exceeds table'')
                    else check_blocks footer_at records (Some (bm_last b)) nxt count bs))"

text \<open>The pass over the records that ends the opening of a table: the filter knows every key; the sequence range.\<close>

fun check_rows :: "bloom \<Rightarrow> nat \<Rightarrow> nat \<Rightarrow> store_record stored list \<Rightarrow> (nat \<times> nat) stored" where
  "check_rows f low high [] = Inr (low, high)"
| "check_rows f low high (Inl e # _) = Inl e"
| "check_rows f low high (Inr r # rs) =
     (if bloom_contains f (rec_key r) \<noteq> Some True then Inl (InvalidData ''Bloom false negative in stored table'')
      else check_rows f (min low (rec_sequence r)) (max high (rec_sequence r)) rs)"

definition check_footer :: "digest_fun \<Rightarrow> byte list \<Rightarrow> table_meta \<Rightarrow> nat \<Rightarrow> footer \<Rightarrow> table stored" where
  "check_footer digest file meta footer_at footer =
     (if ft_version footer \<noteq> 1 \<or> ft_records footer \<noteq> tm_records meta \<or> ft_blocks footer = [] \<or>
         length (ft_blocks footer) > tm_records meta
      then Inl (InvalidData ''invalid table index'')
      else rbind (bloom_validate (ft_bloom footer) (tm_records meta)) (\<lambda>_.
           rbind (check_blocks footer_at (tm_records meta) None 8 0 (ft_blocks footer)) (\<lambda>(nxt, count).
           if nxt \<noteq> footer_at \<or> count \<noteq> tm_records meta \<or> bm_first (hd (ft_blocks footer)) \<noteq> tm_first meta \<or>
              bm_last (last (ft_blocks footer)) \<noteq> tm_last meta
           then Inl (InvalidData ''table index bounds mismatch'')
           else let table = \<lparr>tb_file = file, tb_meta = meta, tb_footer = footer\<rparr>
                in rbind (check_rows (ft_bloom footer) u64_max 0 (table_iter digest table)) (\<lambda>(low, high).
                     if low \<noteq> tm_min_sequence meta \<or> high \<noteq> tm_max_sequence meta
                     then Inl (InvalidData ''table sequence range mismatch'') else Inr table))))"

definition open_index :: "digest_fun \<Rightarrow> (byte list \<Rightarrow> string + footer) \<Rightarrow> byte list \<Rightarrow> table_meta \<Rightarrow> nat \<Rightarrow> nat \<Rightarrow>
    (byte list \<times> nat) option \<Rightarrow> table stored" where
  "open_index digest parse file meta footer_at footer_len fr =
     (case fr of
        None \<Rightarrow> Inl (InvalidData ''incomplete table index'')
      | Some (payload, consumed) \<Rightarrow>
          if consumed \<noteq> footer_len then Inl (InvalidData ''table index length mismatch'')
          else (case parse payload of
                  Inl e \<Rightarrow> Inl (InvalidData e)
                | Inr footer \<Rightarrow> check_footer digest file meta footer_at footer))"

definition table_open :: "digest_fun \<Rightarrow> (byte list \<Rightarrow> string + footer) \<Rightarrow> byte list \<Rightarrow> table_meta \<Rightarrow> table stored" where
  "table_open digest parse file meta =
     (let len = length file
      in if len \<noteq> tm_bytes meta \<or> \<not> (68 \<le> len \<and> len \<le> MAX_TABLE_BYTES) \<or> tm_level meta > 2 \<or> tm_id meta = 0 \<or>
            tm_first meta = [] \<or> tm_first meta > tm_last meta \<or> tm_min_sequence meta = 0 \<or>
            tm_min_sequence meta > tm_max_sequence meta \<or> tm_records meta = 0 \<or> tm_records meta > MAX_BATCH_RECORDS
         then Inl (InvalidData ''table metadata invalid'')
         else if take 8 file \<noteq> TABLE_HEADER then Inl (InvalidData ''table header/version mismatch'')
         else let trailer = drop (len - 16) file
              in if drop 8 trailer \<noteq> TABLE_END then Inl (InvalidData ''table footer marker missing'')
                 else let footer_len = le_value (take 8 trailer)
                      in if footer_len > MAX_FOOTER_BYTES \<or> footer_len + 24 > len then Inl (InvalidData ''footer length invalid'')
                         else let footer_at = len - 16 - footer_len
                              in rbind (read_frame digest FOOTER_MAGIC (drop footer_at file)) (open_index digest parse file meta footer_at footer_len))"

record lookup =
  lk_record :: "store_record option"
  lk_bloom_positive :: bool
  lk_block_bytes :: nat

definition table_lookup :: "digest_fun \<Rightarrow> table \<Rightarrow> byte list \<Rightarrow> lookup stored" where
  "table_lookup digest t key =
     (if bloom_contains (ft_bloom (tb_footer t)) key \<noteq> Some True
      then Inr \<lparr>lk_record = None, lk_bloom_positive = False, lk_block_bytes = 0\<rparr>
      else let blocks = ft_blocks (tb_footer t);
               number = length (takeWhile (\<lambda>b. bm_last b < key) blocks)
           in if number < length blocks \<and> bm_first (blocks ! number) \<le> key
              then rbind (read_block digest (tb_file t) (blocks ! number)) (\<lambda>records.
                     Inr \<lparr>lk_record = find (\<lambda>r. rec_key r = key) records, lk_bloom_positive = True,
                          lk_block_bytes = bm_bytes (blocks ! number)\<rparr>)
              else Inr \<lparr>lk_record = None, lk_bloom_positive = True, lk_block_bytes = 0\<rparr>)"

section \<open>Blocks\<close>

abbreviation key_ordered :: "store_record list \<Rightarrow> bool" where
  "key_ordered rs \<equiv> sorted_wrt (<) (map rec_key rs)"

lemma key_ordered_windows: "successively (\<lambda>a b. rec_key a < rec_key b) rs \<longleftrightarrow> key_ordered rs"
proof -
  have "successively (\<lambda>a b. rec_key a < rec_key b) rs \<longleftrightarrow> sorted_wrt (\<lambda>a b. rec_key a < rec_key b) rs"
    by (rule successively_conv_sorted_wrt) (auto intro: transpI)
  then show ?thesis by (simp add: sorted_wrt_map)
qed

lemma magic_length [simp]: "length TABLE_HEADER = 8" "length BLOCK_MAGIC = 8" "length FOOTER_MAGIC = 8" "length TABLE_END = 8"
  by (simp_all add: TABLE_HEADER_def BLOCK_MAGIC_def FOOTER_MAGIC_def TABLE_END_def)

lemma key_ordered_hd: "key_ordered rs \<Longrightarrow> r \<in> set rs \<Longrightarrow> rec_key (hd rs) \<le> rec_key r"
  by (cases rs) auto

lemma key_ordered_last: "key_ordered rs \<Longrightarrow> r \<in> set rs \<Longrightarrow> rec_key r \<le> rec_key (last rs)"
  by (induction rs) (auto simp: order.strict_implies_order)

lemma write_blocks_Cons:
  assumes w: "write_blocks digest offset (r # rs) = Inr (bytes, metas)"
  obtains block rest encoded later ms where "r # rs = block @ rest" "block \<noteq> []"
    "frame digest BLOCK_MAGIC (le_bytes 4 (length block) @ concat (map encode_record block)) = Inr encoded"
    "write_blocks digest (offset + length encoded) rest = Inr (later, ms)" "bytes = encoded @ later"
    "metas = \<lparr>bm_offset = offset, bm_bytes = length encoded, bm_first = rec_key (hd block), bm_last = rec_key (last block),
              bm_records = length block\<rparr> # ms"
proof -
  obtain block rest payload where f: "fill_block False (replicate 4 0) (r # rs) = (block, rest, payload)" by (metis prod_cases3)
  have s: "r # rs = block @ rest" "payload = replicate 4 0 @ concat (map encode_record block)" "block \<noteq> []"
    using fill_block_split [OF f] fill_block_nonempty [OF f] by auto
  have p: "drop 4 payload = concat (map encode_record block)" by (simp add: s(2))
  from w obtain encoded later ms where "frame digest BLOCK_MAGIC (le_bytes 4 (length block) @ concat (map encode_record block)) = Inr encoded"
    "write_blocks digest (offset + length encoded) rest = Inr (later, ms)" "bytes = encoded @ later"
    "metas = \<lparr>bm_offset = offset, bm_bytes = length encoded, bm_first = rec_key (hd block), bm_last = rec_key (last block),
              bm_records = length block\<rparr> # ms"
    unfolding write_blocks.simps f Let_def prod.case p by (auto simp: rbind_Inr_iff)
  with s that show thesis by blast
qed

lemma read_written_block:
  assumes fr: "frame digest BLOCK_MAGIC (le_bytes 4 (length block) @ concat (map encode_record block)) = Inr encoded"
    and dig: "\<And>x. length (digest x) = 32" and at: "drop offset file = encoded @ extra"
    and block: "block \<noteq> []" "list_all valid_record block" "key_ordered block" "length block \<le> MAX_BATCH_RECORDS"
  shows "read_block digest file \<lparr>bm_offset = offset, bm_bytes = length encoded, bm_first = rec_key (hd block),
    bm_last = rec_key (last block), bm_records = length block\<rparr> = Inr block"
proof -
  have rf: "read_frame digest BLOCK_MAGIC (encoded @ extra) =
      Inr (Some (le_bytes 4 (length block) @ concat (map encode_record block), length encoded))"
    by (rule read_frame_complete [OF fr _ dig]) simp
  have n: "le_value (le_bytes 4 (length block)) = length block"
    using block(4) by (intro le_value_small) (simp add: codec_limits)
  have "decode_records (concat (map encode_record block)) (length block) = Inr block"
    using block by (simp add: decode_records_iff)
  then show ?thesis
    using block rf n by (simp add: read_block_def at key_ordered_windows last_conv_nth)
qed

lemma write_blocks_spec:
  assumes "write_blocks digest offset rs = Inr (bytes, metas)" "\<And>x. length (digest x) = 32" "drop offset file = bytes @ extra"
    "list_all valid_record rs" "key_ordered rs" "length rs \<le> MAX_BATCH_RECORDS"
  shows "iter_blocks digest file metas = map Inr rs"
  using assms
proof (induction "length rs" arbitrary: offset rs bytes metas rule: less_induct)
  case less
  show ?case
  proof (cases rs)
    case Nil
    with less.prems(1) show ?thesis by simp
  next
    case (Cons r rs')
    obtain block rest encoded later ms where b: "r # rs' = block @ rest" "block \<noteq> []"
      "frame digest BLOCK_MAGIC (le_bytes 4 (length block) @ concat (map encode_record block)) = Inr encoded"
      "write_blocks digest (offset + length encoded) rest = Inr (later, ms)" "bytes = encoded @ later"
      "metas = \<lparr>bm_offset = offset, bm_bytes = length encoded, bm_first = rec_key (hd block), bm_last = rec_key (last block),
                bm_records = length block\<rparr> # ms"
      by (rule write_blocks_Cons [OF less.prems(1) [unfolded Cons]])
    have rest: "list_all valid_record block" "key_ordered block" "length block \<le> MAX_BATCH_RECORDS"
      "list_all valid_record rest" "key_ordered rest" "length rest \<le> MAX_BATCH_RECORDS" "length rest < length rs"
      using less.prems(4-6) b(2) unfolding Cons b(1) by (auto simp: sorted_wrt_append)
    have at: "drop offset file = encoded @ later @ extra" using less.prems(3) b(5) by simp
    then have "drop (offset + length encoded) file = later @ extra" by (metis add.commute append_eq_conv_conj drop_drop)
    from less.hyps [OF rest(7) b(4) less.prems(2) this rest(4-6)] show ?thesis
      using read_written_block [OF b(3) less.prems(2) at b(2) rest(1-3)] b(1,6) Cons by simp
  qed
qed

lemma check_blocks_step:
  assumes "bm_offset b = nxt" "48 \<le> bm_bytes b" "bm_bytes b \<le> MAX_TABLE_BYTES" "bm_first b \<le> bm_last b" "bm_records b \<noteq> 0"
    "bm_records b \<le> MAX_BATCH_RECORDS" "\<And>l. previous = Some l \<Longrightarrow> l < bm_first b"
    "nxt + bm_bytes b \<le> at" "at \<le> u64_max" "count + bm_records b \<le> maximum" "maximum \<le> u64_max"
  shows "check_blocks at maximum previous nxt count (b # bs) =
    check_blocks at maximum (Some (bm_last b)) (nxt + bm_bytes b) (count + bm_records b) bs"
proof -
  have "\<not> (case previous of None \<Rightarrow> False | Some l \<Rightarrow> l \<ge> bm_first b)" using assms(7) by (cases previous) force+
  then show ?thesis using assms by (simp add: checked_add_def not_less [symmetric])
qed

lemma write_blocks_index:
  assumes "write_blocks digest offset rs = Inr (bytes, metas)" "\<And>x. length (digest x) = 32" "list_all valid_record rs" "key_ordered rs"
    "offset + length bytes \<le> at" "at \<le> MAX_TABLE_BYTES" "count + length rs \<le> maximum" "maximum \<le> MAX_BATCH_RECORDS"
    "\<And>l. previous = Some l \<Longrightarrow> rs \<noteq> [] \<Longrightarrow> l < rec_key (hd rs)"
  shows "check_blocks at maximum previous offset count metas = Inr (offset + length bytes, count + length rs)"
    "length metas \<le> length rs" "metas = [] \<longleftrightarrow> rs = []"
    "rs \<noteq> [] \<Longrightarrow> bm_first (hd metas) = rec_key (hd rs) \<and> bm_last (last metas) = rec_key (last rs)"
  using assms
proof -
  have "check_blocks at maximum previous offset count metas = Inr (offset + length bytes, count + length rs) \<and> length metas \<le> length rs \<and>
    (metas = [] \<longleftrightarrow> rs = []) \<and> (rs \<noteq> [] \<longrightarrow> bm_first (hd metas) = rec_key (hd rs) \<and> bm_last (last metas) = rec_key (last rs))"
    using assms
  proof (induction "length rs" arbitrary: offset rs bytes metas previous count rule: less_induct)
    case less
    show ?case
    proof (cases rs)
      case Nil
      with less.prems(1) show ?thesis by simp
    next
      case (Cons r rs')
      obtain block rest encoded later ms where b: "r # rs' = block @ rest" "block \<noteq> []"
        "frame digest BLOCK_MAGIC (le_bytes 4 (length block) @ concat (map encode_record block)) = Inr encoded"
        "write_blocks digest (offset + length encoded) rest = Inr (later, ms)" "bytes = encoded @ later"
        "metas = \<lparr>bm_offset = offset, bm_bytes = length encoded, bm_first = rec_key (hd block), bm_last = rec_key (last block),
                  bm_records = length block\<rparr> # ms"
        by (rule write_blocks_Cons [OF less.prems(1) [unfolded Cons]])
      have rs: "rs = block @ rest" using Cons b(1) by simp
      have enc: "length encoded = 4 + length (concat (map encode_record block)) + 76"
        using frame_parts(2) [OF b(3) _ less.prems(2)] by simp
      have ord: "key_ordered block" "key_ordered rest" "list_all valid_record rest" "length rest < length rs"
        "rest \<noteq> [] \<Longrightarrow> rec_key (last block) < rec_key (hd rest)"
        using less.prems(3,4) b(2) unfolding rs by (auto simp: sorted_wrt_append)
      have lens: "offset + length encoded + length later \<le> at" "count + length block + length rest \<le> maximum"
        using less.prems(5,7) unfolding rs b(5) by simp_all
      have ih: "check_blocks at maximum (Some (rec_key (last block))) (offset + length encoded) (count + length block) ms =
          Inr (offset + length encoded + length later, count + length block + length rest) \<and> length ms \<le> length rest \<and>
          (ms = [] \<longleftrightarrow> rest = []) \<and> (rest \<noteq> [] \<longrightarrow> bm_first (hd ms) = rec_key (hd rest) \<and> bm_last (last ms) = rec_key (last rest))"
        by (rule less.hyps [OF ord(4) b(4) less.prems(2) ord(3,2) lens(1) less.prems(6) lens(2) less.prems(8)]) (use ord(5) in auto)
      have first: "rec_key (hd block) \<le> rec_key (last block)" using key_ordered_hd [OF ord(1)] b(2) by simp
      have "at \<le> u64_max" "maximum \<le> u64_max" using less.prems(6,8) by (simp_all add: MAX_TABLE_BYTES_def codec_limits u64_max_def)
      then have "check_blocks at maximum previous offset count metas =
          check_blocks at maximum (Some (rec_key (last block))) (offset + length encoded) (count + length block) ms"
        unfolding b(6) by (subst check_blocks_step) (use enc first b(2) lens less.prems(6,8,9) rs in \<open>auto simp: hd_append\<close>)
      then have "check_blocks at maximum previous offset count metas = Inr (offset + length bytes, count + length rs)"
        using ih unfolding rs b(5) by simp
      moreover have "length metas \<le> length rs" "metas \<noteq> []" using ih b(2) unfolding b(6) rs by (cases block; simp)+
      ultimately show ?thesis using ih b(2) unfolding b(6) rs by (auto simp: hd_append)
    qed
  qed
  then show "check_blocks at maximum previous offset count metas = Inr (offset + length bytes, count + length rs)"
    "length metas \<le> length rs" "metas = [] \<longleftrightarrow> rs = []"
    "rs \<noteq> [] \<Longrightarrow> bm_first (hd metas) = rec_key (hd rs) \<and> bm_last (last metas) = rec_key (last rs)"
    by simp_all
qed

section \<open>What an opened table holds\<close>

lemma read_block_sound:
  assumes "read_block digest file b = Inr rs"
  shows "rs \<noteq> []" "key_ordered rs" "length rs = bm_records b" "list_all valid_record rs"
    "rec_key (hd rs) = bm_first b" "rec_key (last rs) = bm_last b"
proof -
  let ?fr = "read_frame digest BLOCK_MAGIC (drop (bm_offset b) file)"
  from assms obtain fr where "?fr = Inr (Some fr)"
    by (auto simp: read_block_def rbind_Inr_iff split: option.splits)
  then obtain payload consumed where fr: "?fr = Inr (Some (payload, consumed))" by (cases fr) simp
  let ?n = "le_value (take 4 payload)"
  have "decode_records (drop 4 payload) ?n = Inr rs \<and> ?n = bm_records b \<and> rs \<noteq> [] \<and> key_ordered rs \<and>
      rec_key (hd rs) = bm_first b \<and> rec_key (rs ! (?n - 1)) = bm_last b"
    using assms unfolding read_block_def fr by (auto simp: rbind_Inr_iff Let_def key_ordered_windows split: if_splits)
  then show "rs \<noteq> []" "key_ordered rs" "length rs = bm_records b" "list_all valid_record rs"
    "rec_key (hd rs) = bm_first b" "rec_key (last rs) = bm_last b"
    by (auto simp: decode_records_iff last_conv_nth)
qed

text \<open>Blocks in order, whose contents are read without an error.\<close>

lemma check_blocks_Cons:
  assumes "check_blocks at maximum previous nxt count (b # bs) = Inr out"
  shows "\<And>l. previous = Some l \<Longrightarrow> l < bm_first b" "bm_first b \<le> bm_last b"
    "check_blocks at maximum (Some (bm_last b)) (nxt + bm_bytes b) (count + bm_records b) bs = Inr out"
  using assms by (auto split: if_splits option.splits)

lemma iter_blocks_sound:
  assumes "check_blocks at maximum previous nxt count bs = Inr out" "\<forall>x \<in> set (iter_blocks digest file bs). is_ok x"
  shows "\<exists>rs. iter_blocks digest file bs = map Inr rs \<and> key_ordered rs \<and> list_all valid_record rs \<and>
    (\<forall>l. previous = Some l \<longrightarrow> (\<forall>r \<in> set rs. l < rec_key r)) \<and>
    (\<forall>b \<in> set bs. \<exists>block. read_block digest file b = Inr block \<and> set block \<subseteq> set rs) \<and>
    (bs \<noteq> [] \<longrightarrow> rs \<noteq> [] \<and> rec_key (hd rs) = bm_first (hd bs) \<and> rec_key (last rs) = bm_last (last bs)) \<and>
    (\<forall>key. bs \<noteq> [] \<longrightarrow> find (\<lambda>r. rec_key r = key) rs =
       (let number = length (takeWhile (\<lambda>b. bm_last b < key) bs)
        in if number < length bs \<and> bm_first (bs ! number) \<le> key
           then (case read_block digest file (bs ! number) of Inr block \<Rightarrow> find (\<lambda>r. rec_key r = key) block | Inl _ \<Rightarrow> None)
           else None))"
  using assms
proof (induction bs arbitrary: previous nxt count)
  case (Cons b bs)
  note chk = check_blocks_Cons [OF Cons.prems(1)]
  obtain block where block: "read_block digest file b = Inr block"
    using Cons.prems(2) by (cases "read_block digest file b") auto
  note bl = read_block_sound [OF block]
  from Cons.prems(2) block have ok: "\<forall>x \<in> set (iter_blocks digest file bs). is_ok x" by simp
  obtain rs where rs: "iter_blocks digest file bs = map Inr rs" "key_ordered rs" "list_all valid_record rs"
    "\<forall>r \<in> set rs. bm_last b < rec_key r" "\<forall>b \<in> set bs. \<exists>block. read_block digest file b = Inr block \<and> set block \<subseteq> set rs"
    "bs \<noteq> [] \<longrightarrow> rs \<noteq> [] \<and> rec_key (hd rs) = bm_first (hd bs) \<and> rec_key (last rs) = bm_last (last bs)"
    "\<forall>key. bs \<noteq> [] \<longrightarrow> find (\<lambda>r. rec_key r = key) rs =
       (let number = length (takeWhile (\<lambda>b. bm_last b < key) bs)
        in if number < length bs \<and> bm_first (bs ! number) \<le> key
           then (case read_block digest file (bs ! number) of Inr block \<Rightarrow> find (\<lambda>r. rec_key r = key) block | Inl _ \<Rightarrow> None)
           else None)"
    using Cons.IH [OF chk(3) ok] by auto
  have inb: "bm_first b \<le> rec_key r \<and> rec_key r \<le> bm_last b" if "r \<in> set block" for r
    using key_ordered_hd [OF bl(2) that] key_ordered_last [OF bl(2) that] bl(5,6) by simp
  have ord: "key_ordered (block @ rs)" using bl(2) rs(2,4) inb by (auto simp: sorted_wrt_append intro: le_less_trans)
  have fnd: "find (\<lambda>r. rec_key r = key) (block @ rs) =
      (let number = length (takeWhile (\<lambda>b. bm_last b < key) (b # bs))
        in if number < length (b # bs) \<and> bm_first ((b # bs) ! number) \<le> key
           then (case read_block digest file ((b # bs) ! number) of Inr block \<Rightarrow> find (\<lambda>r. rec_key r = key) block | Inl _ \<Rightarrow> None)
           else None)" for key
  proof (cases "bm_last b < key")
    case True
    then have nb: "\<forall>r \<in> set block. rec_key r \<noteq> key" using inb by force
    then have "find (\<lambda>r. rec_key r = key) (block @ rs) = find (\<lambda>r. rec_key r = key) rs"
      by (induction block) auto
    moreover have "bs = [] \<Longrightarrow> rs = []" using rs(1) by (cases rs) auto
    ultimately show ?thesis using True rs(7) by (cases "bs = []") (auto simp: Let_def)
  next
    case False
    then have nr: "\<forall>r \<in> set rs. rec_key r \<noteq> key" using rs(4) by force
    then have "find (\<lambda>r. rec_key r = key) (block @ rs) = find (\<lambda>r. rec_key r = key) block"
      by (induction block) (auto simp: find_None_iff)
    moreover have "find (\<lambda>r. rec_key r = key) block = None" if "\<not> bm_first b \<le> key"
      using that inb by (force simp: find_None_iff)
    ultimately show ?thesis using False block by (auto simp: Let_def)
  qed
  have low: "\<forall>r \<in> set (block @ rs). l < rec_key r" if "previous = Some l" for l
    using chk(1) [OF that] chk(2) inb rs(4) by (auto intro: less_le_trans dest!: bspec order.strict_trans1 [OF chk(2)] elim: less_trans)
  show ?case
  proof (intro exI [of _ "block @ rs"] conjI)
    show "iter_blocks digest file (b # bs) = map Inr (block @ rs)" using block rs(1) by simp
    show "key_ordered (block @ rs)" by (rule ord)
    show "list_all valid_record (block @ rs)" using bl(4) rs(3) by simp
    show "\<forall>l. previous = Some l \<longrightarrow> (\<forall>r \<in> set (block @ rs). l < rec_key r)" using low by blast
    show "\<forall>b' \<in> set (b # bs). \<exists>block'. read_block digest file b' = Inr block' \<and> set block' \<subseteq> set (block @ rs)"
      using block rs(5) by (auto, blast)
    show "b # bs \<noteq> [] \<longrightarrow> block @ rs \<noteq> [] \<and> rec_key (hd (block @ rs)) = bm_first (hd (b # bs)) \<and> rec_key (last (block @ rs)) = bm_last (last (b # bs))"
      using bl(1,5,6) rs(1,6) by (cases "bs = []") auto
  qed (use fnd in auto)
qed simp

lemma Min_Max_insert:
  "finite S \<Longrightarrow> Min (insert (min a b) S) = Min (insert a (insert b S))" "finite S \<Longrightarrow> Max (insert (max a b) S) = Max (insert a (insert b S))"
  for S :: "nat set"
  by (cases "S = {}"; simp add: min.assoc max.assoc)+

lemma Min_capped:
  assumes "finite S" "S \<noteq> {}" "\<forall>x \<in> S. x \<le> u"
  shows "Min (insert u S) = Min S"
  using assms(3) Min_in [OF assms(1,2)] assms(1,2) by (simp add: min_absorb2)

lemma check_rows_map:
  "check_rows f low high (map Inr rs) = Inr (lo, hi) \<longleftrightarrow>
     (\<forall>r \<in> set rs. bloom_contains f (rec_key r) = Some True) \<and>
     lo = Min (insert low (rec_sequence ` set rs)) \<and> hi = Max (insert high (rec_sequence ` set rs))"
proof (induction rs arbitrary: low high)
  case (Cons r rs)
  have "check_rows f low high (map Inr (r # rs)) = Inr (lo, hi) \<longleftrightarrow> bloom_contains f (rec_key r) = Some True \<and>
      check_rows f (min low (rec_sequence r)) (max high (rec_sequence r)) (map Inr rs) = Inr (lo, hi)" by simp
  then show ?case unfolding Cons.IH using Min_Max_insert [of "rec_sequence ` set rs"] by auto
qed auto

lemma check_rows_ok: "check_rows f low high xs = Inr out \<Longrightarrow> \<exists>rs. xs = map Inr rs"
proof (induction f low high xs rule: check_rows.induct)
  case (3 f low high r xs)
  then obtain rs where "xs = map Inr rs" by (auto split: if_splits)
  then show ?case by (intro exI [of _ "r # rs"]) simp
qed auto

text \<open>
  A table that was opened: its records, in key order, are what iteration yields, and a lookup answers as a search
  through all of them would.
\<close>

definition table_holds :: "digest_fun \<Rightarrow> table \<Rightarrow> store_record list \<Rightarrow> bool" where
  "table_holds digest t rs \<longleftrightarrow>
     rs \<noteq> [] \<and> key_ordered rs \<and> list_all valid_record rs \<and> table_iter digest t = map Inr rs \<and>
     tm_first (tb_meta t) = rec_key (hd rs) \<and> tm_last (tb_meta t) = rec_key (last rs) \<and>
     tm_min_sequence (tb_meta t) = Min (rec_sequence ` set rs) \<and> tm_max_sequence (tb_meta t) = Max (rec_sequence ` set rs) \<and>
     (\<forall>key. \<exists>p n. table_lookup digest t key =
        Inr \<lparr>lk_record = find (\<lambda>r. rec_key r = key) rs, lk_bloom_positive = p, lk_block_bytes = n\<rparr>)"

lemma check_footer_sound:
  assumes "check_footer digest file meta at footer = Inr t"
  shows "\<exists>rs. table_holds digest t rs \<and> t = \<lparr>tb_file = file, tb_meta = meta, tb_footer = footer\<rparr>"
proof -
  let ?t = "\<lparr>tb_file = file, tb_meta = meta, tb_footer = footer\<rparr>" and ?bs = "ft_blocks footer"
  from assms obtain nxt count lo hi where c: "?bs \<noteq> []" "check_blocks at (tm_records meta) None 8 0 ?bs = Inr (nxt, count)"
    "bm_first (hd ?bs) = tm_first meta" "bm_last (last ?bs) = tm_last meta" "t = ?t"
    "check_rows (ft_bloom footer) u64_max 0 (iter_blocks digest file ?bs) = Inr (lo, hi)" "lo = tm_min_sequence meta" "hi = tm_max_sequence meta"
    by (auto simp: check_footer_def rbind_Inr_iff table_iter_def split: if_splits)
  obtain rs' where "iter_blocks digest file ?bs = map Inr rs'" using check_rows_ok [OF c(6)] by blast
  then have "\<forall>x \<in> set (iter_blocks digest file ?bs). is_ok x" by auto
  then obtain rs where rs: "iter_blocks digest file ?bs = map Inr rs" "key_ordered rs" "list_all valid_record rs"
    "\<forall>b \<in> set ?bs. \<exists>block. read_block digest file b = Inr block \<and> set block \<subseteq> set rs"
    "rs \<noteq> []" "rec_key (hd rs) = bm_first (hd ?bs)" "rec_key (last rs) = bm_last (last ?bs)"
    "\<And>key. find (\<lambda>r. rec_key r = key) rs =
       (let number = length (takeWhile (\<lambda>b. bm_last b < key) ?bs)
        in if number < length ?bs \<and> bm_first (?bs ! number) \<le> key
           then (case read_block digest file (?bs ! number) of Inr block \<Rightarrow> find (\<lambda>r. rec_key r = key) block | Inl _ \<Rightarrow> None)
           else None)"
    using iter_blocks_sound [OF c(2), of digest "file"] c(1) by auto
  have fin: "finite (rec_sequence ` set rs)" "rec_sequence ` set rs \<noteq> {}" using rs(5) by auto
  have u64: "\<forall>r \<in> set rs. rec_sequence r \<le> u64_max" using rs(3) by (auto simp: list_all_iff valid_record_def)
  have rows: "\<forall>r \<in> set rs. bloom_contains (ft_bloom footer) (rec_key r) = Some True"
    "lo = Min (insert u64_max (rec_sequence ` set rs))" "hi = Max (insert 0 (rec_sequence ` set rs))"
    using c(6) unfolding rs(1) check_rows_map by auto
  have "lo = Min (rec_sequence ` set rs)" using rows(2) Min_capped [OF fin] u64 by auto
  moreover have "hi = Max (rec_sequence ` set rs)" using rows(3) fin by simp
  moreover have "\<exists>p n. table_lookup digest ?t key =
        Inr \<lparr>lk_record = find (\<lambda>r. rec_key r = key) rs, lk_bloom_positive = p, lk_block_bytes = n\<rparr>" for key
  proof (cases "bloom_contains (ft_bloom footer) key = Some True")
    case False
    then have "find (\<lambda>r. rec_key r = key) rs = None" using rows(1) by (auto simp: find_None_iff)
    with False show ?thesis by (auto simp: table_lookup_def)
  next
    case True
    let ?n = "length (takeWhile (\<lambda>b. bm_last b < key) ?bs)"
    show ?thesis
    proof (cases "?n < length ?bs \<and> bm_first (?bs ! ?n) \<le> key")
      case False
      with rs(8) [of key] have "find (\<lambda>r. rec_key r = key) rs = None" by (auto simp: Let_def)
      moreover have "table_lookup digest ?t key = Inr \<lparr>lk_record = None, lk_bloom_positive = True, lk_block_bytes = 0\<rparr>"
        using True False by (auto simp: table_lookup_def Let_def)
      ultimately show ?thesis by auto
    next
      case inside: True
      then obtain block where "read_block digest file (?bs ! ?n) = Inr block" using rs(4) nth_mem by blast
      with inside True rs(8) [of key] show ?thesis by (auto simp: table_lookup_def Let_def)
    qed
  qed
  ultimately show ?thesis
    using rs(1-3,5-7) c(3-5,7,8) by (auto simp: table_holds_def table_iter_def)
qed

lemma table_open_sound:
  assumes "table_open digest parse file meta = Inr t"
  shows "\<exists>rs. table_holds digest t rs" "tb_meta t = meta" "tm_level meta \<le> 2" "0 < tm_min_sequence meta" "tb_file t = file"
proof -
  have index: "open_index digest parse file meta at n fr = Inr t \<Longrightarrow> \<exists>footer. check_footer digest file meta at footer = Inr t" for at n fr
    by (auto simp: open_index_def split: option.splits prod.splits if_splits sum.splits)
  from assms obtain at footer where c: "check_footer digest file meta at footer = Inr t" "tm_level meta \<le> 2" "0 < tm_min_sequence meta"
    unfolding table_open_def Let_def by (auto simp: rbind_Inr_iff dest!: index split: if_splits)
  from check_footer_sound [OF c(1)] c(2,3) show "\<exists>rs. table_holds digest t rs" "tb_meta t = meta" "tm_level meta \<le> 2"
    "0 < tm_min_sequence meta" "tb_file t = file" by auto
qed

section \<open>What was written is what is opened\<close>

lemma find_key: "key_ordered rs \<Longrightarrow> find (\<lambda>r. rec_key r = key) rs = Some r \<longleftrightarrow> r \<in> set rs \<and> rec_key r = key"
  by (induction rs) (auto simp: order.strict_iff_order)

lemma table_holds_unique: "table_holds digest t rs \<Longrightarrow> table_holds digest t rs' \<Longrightarrow> rs = rs'"
  by (auto simp: table_holds_def dest: map_injective)

lemma write_table_Inr:
  assumes "write_table digest json tid level records = Inr (meta, file)"
  obtains body blocks bytes where "records \<noteq> []" "length records \<le> MAX_BATCH_RECORDS" "key_ordered records" "\<forall>r \<in> set records. 0 < rec_sequence r"
    "write_blocks digest 8 records = Inr (body, blocks)"
    "frame digest FOOTER_MAGIC (json \<lparr>ft_version = 1, ft_blocks = blocks, ft_bloom = bloom_build (map rec_key records), ft_records = length records\<rparr>) = Inr bytes"
    "length bytes \<le> MAX_FOOTER_BYTES" "file = TABLE_HEADER @ body @ bytes @ le_bytes 8 (length bytes) @ TABLE_END" "length file \<le> MAX_TABLE_BYTES"
    "meta = \<lparr>tm_id = tid, tm_level = level, tm_bytes = length file, tm_first = rec_key (hd records),
       tm_last = rec_key (last records), tm_min_sequence = Min (rec_sequence ` set records),
       tm_max_sequence = Max (rec_sequence ` set records), tm_records = length records\<rparr>"
  using assms unfolding write_table_def table_rejected_def Let_def key_ordered_windows
  by (auto simp: rbind_Inr_iff list_ex_iff split: if_splits)

lemma written_table_opens:
  assumes w: "write_table digest json tid level records = Inr (meta, file)" and dig: "\<And>x. length (digest x) = 32"
    and json: "\<And>f. parse (json f) = Inr f" and valid: "list_all valid_record records" and id: "tid \<noteq> 0" "level \<le> 2"
  shows "\<exists>t. table_open digest parse file meta = Inr t \<and> table_holds digest t records"
proof -
  obtain body blocks bytes where p: "records \<noteq> []" "length records \<le> MAX_BATCH_RECORDS" "key_ordered records" "\<forall>r \<in> set records. 0 < rec_sequence r"
    "write_blocks digest 8 records = Inr (body, blocks)"
    "frame digest FOOTER_MAGIC (json \<lparr>ft_version = 1, ft_blocks = blocks, ft_bloom = bloom_build (map rec_key records), ft_records = length records\<rparr>) = Inr bytes"
    "length bytes \<le> MAX_FOOTER_BYTES" "file = TABLE_HEADER @ body @ bytes @ le_bytes 8 (length bytes) @ TABLE_END" "length file \<le> MAX_TABLE_BYTES"
    "meta = \<lparr>tm_id = tid, tm_level = level, tm_bytes = length file, tm_first = rec_key (hd records),
       tm_last = rec_key (last records), tm_min_sequence = Min (rec_sequence ` set records),
       tm_max_sequence = Max (rec_sequence ` set records), tm_records = length records\<rparr>"
    by (rule write_table_Inr [OF w])
  let ?footer = "\<lparr>ft_version = 1, ft_blocks = blocks, ft_bloom = bloom_build (map rec_key records), ft_records = length records\<rparr>"
  let ?t = "\<lparr>tb_file = file, tb_meta = meta, tb_footer = ?footer\<rparr>" and ?at = "8 + length body"
  have len: "length file = 8 + length body + length bytes + 16" using p(8) by simp
  have at: "drop 8 file = body @ bytes @ le_bytes 8 (length bytes) @ TABLE_END" using p(8) by simp
  have iter: "iter_blocks digest file blocks = map Inr records" by (rule write_blocks_spec [OF p(5) dig at valid p(3,2)])
  have idx: "check_blocks ?at (length records) None 8 0 blocks = Inr (?at, length records)" "length blocks \<le> length records" "blocks \<noteq> []"
    "bm_first (hd blocks) = rec_key (hd records)" "bm_last (last blocks) = rec_key (last records)"
    using write_blocks_index [OF p(5) dig valid p(3), of ?at 0 "length records" None] p(1,2,9) len by simp_all
  have bloom: "bloom_validate (bloom_build (map rec_key records)) (length records) = Inr ()"
    "\<forall>r \<in> set records. bloom_contains (bloom_build (map rec_key records)) (rec_key r) = Some True"
    using bloom_valid [of "map rec_key records"] bloom_complete [of _ "map rec_key records"] by auto
  have u64: "\<forall>r \<in> set records. rec_sequence r \<le> u64_max" using valid by (auto simp: list_all_iff valid_record_def)
  have fin: "finite (rec_sequence ` set records)" "rec_sequence ` set records \<noteq> {}" using p(1) by auto
  have lo: "Min (insert u64_max (rec_sequence ` set records)) = Min (rec_sequence ` set records)"
    using Min_capped [OF fin] u64 by blast
  have rows: "check_rows (bloom_build (map rec_key records)) u64_max 0 (table_iter digest ?t) =
      Inr (Min (rec_sequence ` set records), Max (rec_sequence ` set records))"
    using iter bloom(2) lo fin by (simp add: table_iter_def check_rows_map)
  have foot: "check_footer digest file meta ?at ?footer = Inr ?t"
    using bloom(1) idx rows p(10) by (simp add: check_footer_def table_iter_def)
  have "Min (rec_sequence ` set records) \<noteq> 0" using Min_in [OF fin] p(4) by auto
  moreover have "Min (rec_sequence ` set records) \<le> Max (rec_sequence ` set records)" using fin by (meson Max_ge Min_in)
  moreover have "rec_key (hd records) \<noteq> []" using valid p(1) by (cases records) (auto simp: valid_record_def valid_cell_def)
  moreover have "rec_key (hd records) \<le> rec_key (last records)" using key_ordered_hd [OF p(3)] p(1) by simp
  moreover have big: "68 \<le> length file" using len frame_parts(2) [OF p(6) _ dig] by simp
  ultimately have meta: "\<not> (length file \<noteq> tm_bytes meta \<or> \<not> (68 \<le> length file \<and> length file \<le> MAX_TABLE_BYTES) \<or> tm_level meta > 2 \<or> tm_id meta = 0 \<or>
            tm_first meta = [] \<or> tm_first meta > tm_last meta \<or> tm_min_sequence meta = 0 \<or>
            tm_min_sequence meta > tm_max_sequence meta \<or> tm_records meta = 0 \<or> tm_records meta > MAX_BATCH_RECORDS)"
    using p(1,2,9,10) id big by (simp add: not_less) (metis list.set_sel(1) order_refl)
  have trailer: "drop (length file - 16) file = le_bytes 8 (length bytes) @ TABLE_END" unfolding len p(8) by simp
  have fl: "le_value (le_bytes 8 (length bytes)) = length bytes"
    using p(7) by (intro le_value_small) (simp add: MAX_FOOTER_BYTES_def)
  have fa: "length file - 16 - length bytes = ?at" "drop ?at file = bytes @ le_bytes 8 (length bytes) @ TABLE_END"
    unfolding len by (simp_all add: p(8))
  have rf: "read_frame digest FOOTER_MAGIC (bytes @ le_bytes 8 (length bytes) @ TABLE_END) = Inr (Some (json ?footer, length bytes))"
    by (rule read_frame_complete [OF p(6) _ dig]) simp
  have "take 8 file = TABLE_HEADER" using p(8) by simp
  then have op: "table_open digest parse file meta = Inr ?t"
    unfolding table_open_def Let_def if_not_P [OF meta] trailer
    using fl fa rf p(7) len json foot by (simp add: open_index_def)
  obtain rs where rs: "table_holds digest ?t rs" using table_open_sound(1) [OF op] by blast
  then have "map Inr rs = (map Inr records :: store_record stored list)" using iter by (simp add: table_holds_def table_iter_def)
  then have "rs = records" by (rule map_injective) simp
  with op rs show ?thesis by blast
qed

section \<open>A sample encoding\<close>

text \<open>
  An encoder and a parser that satisfy what the tables rely on: a value given in advance is encoded as the empty string,
  every other value by the length of its code.
\<close>

definition unary_json :: "'a \<Rightarrow> ('a \<Rightarrow> 'b::countable) \<Rightarrow> 'a \<Rightarrow> byte list" where
  "unary_json x0 code x = (if x = x0 then [] else replicate (Suc (to_nat (code x))) 0)"

definition unary_parse :: "'a \<Rightarrow> ('b::countable \<Rightarrow> 'a) \<Rightarrow> byte list \<Rightarrow> string + 'a" where
  "unary_parse x0 value_of bs = Inr (if bs = [] then x0 else value_of (from_nat (length bs - 1)))"

lemma unary_parse_json: "(\<And>x. value_of (code x) = x) \<Longrightarrow> unary_parse x0 value_of (unary_json x0 code x) = Inr x"
  by (simp add: unary_parse_def unary_json_def)

definition footer_code :: "footer \<Rightarrow> nat \<times> (nat \<times> nat \<times> byte list \<times> byte list \<times> nat) list \<times> (byte list \<times> nat \<times> nat) \<times> nat" where
  "footer_code f = (ft_version f, map (\<lambda>b. (bm_offset b, bm_bytes b, bm_first b, bm_last b, bm_records b)) (ft_blocks f),
     (bloom_bits (ft_bloom f), bloom_probes (ft_bloom f), bloom_keys (ft_bloom f)), ft_records f)"

definition code_footer :: "nat \<times> (nat \<times> nat \<times> byte list \<times> byte list \<times> nat) list \<times> (byte list \<times> nat \<times> nat) \<times> nat \<Rightarrow> footer" where
  "code_footer c = (case c of (v, bs, (bits, probes, keys), n) \<Rightarrow>
     \<lparr>ft_version = v, ft_blocks = map (\<lambda>(o', n, a, z, r). \<lparr>bm_offset = o', bm_bytes = n, bm_first = a, bm_last = z, bm_records = r\<rparr>) bs,
      ft_bloom = \<lparr>bloom_bits = bits, bloom_probes = probes, bloom_keys = keys\<rparr>, ft_records = n\<rparr>)"

lemma code_footer_code: "code_footer (footer_code f) = f"
  by (auto simp: code_footer_def footer_code_def comp_def intro!: footer.equality bloom.equality map_idI block_meta.equality)

definition sample_row :: store_record where
  "sample_row = \<lparr>rec_key = [1], rec_value = Some [2], rec_sequence = 3\<rparr>"

definition zero_digest :: digest_fun where
  "zero_digest bs = replicate 32 0"

lemma zero_digest_length [simp]: "length (zero_digest bs) = 32"
  by (simp add: zero_digest_def)

definition sample_footer :: footer where
  "sample_footer = \<lparr>ft_version = 1, ft_blocks = [\<lparr>bm_offset = 8, bm_bytes = 98, bm_first = [1], bm_last = [1], bm_records = 1\<rparr>],
     ft_bloom = bloom_build [[1]], ft_records = 1\<rparr>"

lemma sample_blocks: "\<exists>body. write_blocks zero_digest 8 [sample_row] = Inr (body, ft_blocks sample_footer) \<and> length body = 98"
  by (simp add: sample_row_def sample_footer_def frame_def codec_limits zero_digest_def encode_record_def Let_def)

lemma sample_write: "\<exists>meta bytes. write_table zero_digest (unary_json sample_footer footer_code) 1 0 [sample_row] = Inr (meta, bytes)"
proof -
  obtain body where body: "write_blocks zero_digest 8 [sample_row] = Inr (body, ft_blocks sample_footer)" "length body = 98"
    using sample_blocks by blast
  have foot: "\<lparr>ft_version = 1, ft_blocks = ft_blocks sample_footer, ft_bloom = bloom_build [rec_key sample_row], ft_records = 1\<rparr> = sample_footer"
    by (simp add: sample_footer_def sample_row_def)
  have "frame zero_digest FOOTER_MAGIC (unary_json sample_footer footer_code sample_footer) =
      Inr (FOOTER_MAGIC @ le_bytes 4 0 @ replicate 64 0)"
    by (simp add: unary_json_def frame_def zero_digest_def Let_def replicate_add [symmetric])
  then show ?thesis
    using body foot by (simp add: write_table_def table_rejected_def rbind_def Let_def sample_row_def MAX_BATCH_RECORDS_def MAX_FOOTER_BYTES_def MAX_TABLE_BYTES_def)
qed

section \<open>Properties\<close>

text \<open> C39.
  A table file that was written for nonempty, ordered records opens again, iterating it yields exactly these records
  in key order, and a lookup through the Bloom filter and the block index finds the record of a key if there is one and
  nothing otherwise.  The digest has 32-byte results and the index parser inverts the index encoder.
\<close>
theorem table_roundtrip:
  assumes "write_table digest json tid level records = Inr (meta, bytes)" "\<And>x. length (digest x) = 32" "\<And>f. parse (json f) = Inr f"
    "list_all valid_record records" "tid \<noteq> 0" "level \<le> 2"
  shows "\<exists>t. table_open digest parse bytes meta = Inr t \<and> table_iter digest t = map Inr records \<and>
    (\<forall>key. \<exists>lk. table_lookup digest t key = Inr lk \<and> lk_record lk = find (\<lambda>r. rec_key r = key) records)"
proof -
  obtain t where t: "table_open digest parse bytes meta = Inr t" "table_holds digest t records"
    using written_table_opens [OF assms(1) assms(2) assms(3) assms(4-6)] by blast
  have "\<exists>lk. table_lookup digest t key = Inr lk \<and> lk_record lk = find (\<lambda>r. rec_key r = key) records" for key
    using t(2) unfolding table_holds_def by (metis lookup.select_convs(1))
  with t show ?thesis by (auto simp: table_holds_def)
qed

theorem table_roundtrip_witness:
  "\<exists>meta bytes t. write_table zero_digest (unary_json sample_footer footer_code) 1 0 [sample_row] = Inr (meta, bytes) \<and>
     table_open zero_digest (unary_parse sample_footer code_footer) bytes meta = Inr t \<and> table_iter zero_digest t = [Inr sample_row]"
proof -
  obtain meta bytes where w: "write_table zero_digest (unary_json sample_footer footer_code) 1 0 [sample_row] = Inr (meta, bytes)"
    using sample_write by blast
  have "list_all valid_record [sample_row]" by (simp add: sample_row_def valid_record_def valid_cell_def codec_limits value_length_def u64_max_def)
  with table_roundtrip [OF w zero_digest_length unary_parse_json [OF code_footer_code]] w show ?thesis by auto
qed

text \<open> C40.
  Whatever bytes a table file holds, if the table opens then its records are ordered and within the bounds the metadata
  gives, iterating it never fails, and a lookup never fails and agrees with the iteration: a damaged table is refused when
  it is opened, never answered from.
\<close>
theorem opened_table_consistent:
  assumes "table_open digest parse bytes meta = Inr t"
  shows "\<exists>records. table_iter digest t = map Inr records \<and> sorted_wrt (<) (map rec_key records) \<and>
    (\<forall>r \<in> set records. meta_contains meta (rec_key r) \<and> tm_min_sequence meta \<le> rec_sequence r \<and> rec_sequence r \<le> tm_max_sequence meta) \<and>
    (\<forall>key. \<exists>lk. table_lookup digest t key = Inr lk \<and> lk_record lk = find (\<lambda>r. rec_key r = key) records)"
proof -
  obtain rs where rs: "table_holds digest t rs" using table_open_sound(1) [OF assms] by blast
  have meta: "tb_meta t = meta" by (rule table_open_sound(2) [OF assms])
  have "\<exists>lk. table_lookup digest t key = Inr lk \<and> lk_record lk = find (\<lambda>r. rec_key r = key) rs" for key
    using rs unfolding table_holds_def by (metis lookup.select_convs(1))
  moreover have "meta_contains meta (rec_key r) \<and> tm_min_sequence meta \<le> rec_sequence r \<and> rec_sequence r \<le> tm_max_sequence meta" if "r \<in> set rs" for r
    using rs that key_ordered_hd [of rs r] key_ordered_last [of rs r] by (auto simp: table_holds_def meta_contains_def meta)
  ultimately show ?thesis using rs by (auto simp: table_holds_def)
qed

theorem opened_table_consistent_witness:
  "\<exists>bytes meta t. table_open zero_digest (unary_parse sample_footer code_footer) bytes meta = Inr t \<and>
     (\<exists>records. table_iter zero_digest t = map Inr records)"
proof -
  obtain meta bytes where w: "write_table zero_digest (unary_json sample_footer footer_code) 1 0 [sample_row] = Inr (meta, bytes)"
    using sample_write by blast
  have "list_all valid_record [sample_row]" by (simp add: sample_row_def valid_record_def valid_cell_def codec_limits value_length_def u64_max_def)
  then obtain t where "table_open zero_digest (unary_parse sample_footer code_footer) bytes meta = Inr t"
    using written_table_opens [OF w zero_digest_length unary_parse_json [OF code_footer_code]] by auto
  with opened_table_consistent [OF this] show ?thesis by blast
qed

end
