(* ===== verification/Merge.thy ===== *)
theory Merge
  imports Store_Codec
begin

text \<open>
  \<^verbatim>\<open>state-store/src/merge.rs\<close>: the k-way merge of sorted runs.  A source is the list of results its
  iterator will yield.  \<^verbatim>\<open>BinaryHeap\<close> is the list of its items, from which \<^verbatim>\<open>pop\<close> takes the greatest in the
  order of \<^verbatim>\<open>Head\<close>; at most one head per source is ever in the heap, so the greatest is unique.  A head always
  names a source of the merge; an index outside of the sources, which would panic, yields nothing here.
\<close>

section \<open>The merge\<close>

record head =
  head_source :: nat
  head_record :: store_record

record merge =
  mg_sources :: "store_record stored list list"
  mg_heap :: "head list"
  mg_failed :: bool

definition head_less :: "head \<Rightarrow> head \<Rightarrow> bool" where
  "head_less a b =
     (let ra = head_record a; rb = head_record b
      in rec_key rb < rec_key ra \<or>
         rec_key rb = rec_key ra \<and> (rec_sequence ra < rec_sequence rb \<or>
           rec_sequence ra = rec_sequence rb \<and> head_source b < head_source a))"

fun heap_peek :: "head list \<Rightarrow> head option" where
  "heap_peek [] = None"
| "heap_peek (h # hs) =
     (case heap_peek hs of
        None \<Rightarrow> Some h
      | Some g \<Rightarrow> if head_less h g then Some g else Some h)"

definition heap_pop :: "head list \<Rightarrow> (head \<times> head list) option" where
  "heap_pop hs = map_option (\<lambda>h. (h, remove1 h hs)) (heap_peek hs)"

definition merge_advance :: "nat \<Rightarrow> merge \<Rightarrow> unit stored \<times> merge" where
  "merge_advance s m =
     (case (if s < length (mg_sources m) then mg_sources m ! s else []) of
        [] \<Rightarrow> (Inr (), m)
      | x # rest \<Rightarrow>
          let m = m\<lparr>mg_sources := (mg_sources m)[s := rest]\<rparr>
          in case x of
               Inl e \<Rightarrow> (Inl e, m)
             | Inr r \<Rightarrow> (Inr (), m\<lparr>mg_heap := \<lparr>head_source = s, head_record = r\<rparr> # mg_heap m\<rparr>))"

fun merge_fill :: "nat list \<Rightarrow> merge \<Rightarrow> merge stored" where
  "merge_fill [] m = Inr m"
| "merge_fill (s # ss) m =
     (case merge_advance s m of
        (Inl e, _) \<Rightarrow> Inl e
      | (Inr _, m) \<Rightarrow> merge_fill ss m)"

definition merge_new :: "store_record stored list list \<Rightarrow> merge stored" where
  "merge_new sources = merge_fill [0..<length sources] \<lparr>mg_sources = sources, mg_heap = [], mg_failed = False\<rparr>"

definition pending_items :: "merge \<Rightarrow> nat" where
  "pending_items m = length (mg_heap m) + sum_list (map length (mg_sources m))"

lemma heap_peek_None [simp]: "heap_peek hs = None \<longleftrightarrow> hs = []"
  by (cases hs) (auto split: option.splits)

lemma heap_peek_in: "heap_peek hs = Some h \<Longrightarrow> h \<in> set hs"
  by (induction hs arbitrary: h) (auto split: option.splits if_splits)

lemma heap_pop_length: "heap_pop hs = Some (h, hs') \<Longrightarrow> Suc (length hs') = length hs"
  by (auto simp: heap_pop_def length_remove1 dest!: heap_peek_in) (metis Suc_pred length_pos_if_in_set)

lemma sum_list_update_nat: "i < length xs \<Longrightarrow> sum_list (xs[i := (x :: nat)]) + xs ! i = sum_list xs + x"
proof (induction xs arbitrary: i)
  case (Cons y ys)
  then show ?case by (cases i) auto
qed simp

lemma merge_advance_pending: "merge_advance s m = (Inr u, m') \<Longrightarrow> pending_items m' = pending_items m"
proof -
  have "sum_list ((map length (mg_sources m))[s := length rest]) + Suc (length rest) = sum_list (map length (mg_sources m)) + length rest"
    if "s < length (mg_sources m)" "mg_sources m ! s = x # rest" for x rest
    using sum_list_update_nat [of s "map length (mg_sources m)" "length rest"] that by simp
  then show "merge_advance s m = (Inr u, m') \<Longrightarrow> pending_items m' = pending_items m"
    by (auto simp: merge_advance_def pending_items_def Let_def map_update split: list.splits sum.splits if_splits)
qed

lemma merge_advance_fields: "mg_failed (snd (merge_advance s m)) = mg_failed m"
  by (auto simp: merge_advance_def Let_def split: list.splits sum.splits)

function merge_drain :: "store_record \<Rightarrow> merge \<Rightarrow> store_record option stored \<times> merge" where
  "merge_drain winner m =
     (case heap_pop (mg_heap m) of
        None \<Rightarrow> (Inr (Some winner), m)
      | Some (duplicate, heap) \<Rightarrow>
          let r = head_record duplicate
          in if rec_key r \<noteq> rec_key winner then (Inr (Some winner), m)
             else if rec_sequence r > rec_sequence winner \<or>
                     (rec_sequence r = rec_sequence winner \<and> rec_value r \<noteq> rec_value winner)
             then (Inl (InvalidData ''conflicting equal-sequence record or unsorted source''), m\<lparr>mg_heap := heap\<rparr>)
             else (case merge_advance (head_source duplicate) (m\<lparr>mg_heap := heap\<rparr>) of
                     (Inl e, m) \<Rightarrow> (Inl e, m)
                   | (Inr _, m) \<Rightarrow> merge_drain winner m))"
  by pat_completeness auto
termination
  by (relation "measure (\<lambda>(_, m). pending_items m)")
    (auto dest!: heap_pop_length merge_advance_pending [OF sym] simp: pending_items_def)

declare merge_drain.simps [simp del]

definition merge_take :: "merge \<Rightarrow> store_record option stored \<times> merge" where
  "merge_take m =
     (case heap_pop (mg_heap m) of
        None \<Rightarrow> (Inr None, m)
      | Some (h, heap) \<Rightarrow>
          (case merge_advance (head_source h) (m\<lparr>mg_heap := heap\<rparr>) of
             (Inl e, m) \<Rightarrow> (Inl e, m)
           | (Inr _, m) \<Rightarrow> merge_drain (head_record h) m))"

definition merge_next :: "merge \<Rightarrow> store_record stored option \<times> merge" where
  "merge_next m =
     (if mg_failed m then (None, m)
      else case merge_take m of
        (Inr r, m) \<Rightarrow> (map_option Inr r, m)
      | (Inl e, m) \<Rightarrow> (Some (Inl e), m\<lparr>mg_failed := True\<rparr>))"

lemma merge_drain_pending: "merge_drain w m = (r, m') \<Longrightarrow> pending_items m' \<le> pending_items m \<or> isl r"
proof (induction w m arbitrary: r m' rule: merge_drain.induct)
  case (1 winner m)
  show ?case
  proof (cases "heap_pop (mg_heap m)")
    case None
    with "1.prems" show ?thesis by (simp add: merge_drain.simps)
  next
    case (Some p)
    obtain d heap where p: "p = (d, heap)" by force
    note len = heap_pop_length [OF Some [unfolded p]]
    have "pending_items y \<le> pending_items m" if "merge_advance (head_source d) (m\<lparr>mg_heap := heap\<rparr>) = (Inr u, y)" for u y
      using merge_advance_pending [OF that] len by (simp add: pending_items_def)
    then show ?thesis
      using "1.prems" "1.IH" [OF Some p [symmetric] refl] Some p
      by (fastforce simp: merge_drain.simps [of winner m] Let_def split: if_splits prod.splits sum.splits)
  qed
qed

lemma merge_next_pending: "merge_next m = (Some (Inr r), m') \<Longrightarrow> pending_items m' < pending_items m"
proof -
  assume "merge_next m = (Some (Inr r), m')"
  then obtain h heap u m1 where t: "heap_pop (mg_heap m) = Some (h, heap)" "merge_advance (head_source h) (m\<lparr>mg_heap := heap\<rparr>) = (Inr u, m1)"
    "merge_drain (head_record h) m1 = (Inr (Some r), m')"
    by (auto simp: merge_next_def merge_take_def split: if_splits option.splits prod.splits sum.splits)
  then show ?thesis
    using heap_pop_length [OF t(1)] merge_advance_pending [OF t(2)] merge_drain_pending [OF t(3)] by (auto simp: pending_items_def)
qed

text \<open>\<^verbatim>\<open>collect::<io::Result<Vec<_>>>\<close> of the iterator: all records, or the first error.\<close>

function merge_collect :: "merge \<Rightarrow> store_record list stored" where
  "merge_collect m =
     (case merge_next m of
        (None, _) \<Rightarrow> Inr []
      | (Some (Inl e), _) \<Rightarrow> Inl e
      | (Some (Inr r), m) \<Rightarrow> rbind (merge_collect m) (\<lambda>rs. Inr (r # rs)))"
  by pat_completeness auto
termination
  by (relation "measure pending_items") (auto dest: merge_next_pending [OF sym])

declare merge_collect.simps [simp del]

definition merge_runs :: "store_record stored list list \<Rightarrow> store_record list stored" where
  "merge_runs sources = rbind (merge_new sources) merge_collect"

section \<open>The order of heads\<close>

lemma head_less_trans: "head_less a b \<Longrightarrow> head_less b c \<Longrightarrow> head_less a c"
  by (auto simp: head_less_def Let_def)

lemma head_less_asym: "head_less a b \<Longrightarrow> \<not> head_less b a"
  by (auto simp: head_less_def Let_def)

lemma head_geq_trans: "\<not> head_less a b \<Longrightarrow> \<not> head_less b c \<Longrightarrow> \<not> head_less a c"
  unfolding head_less_def Let_def
  by (cases "rec_key (head_record a)" "rec_key (head_record b)" rule: linorder_cases;
      cases "rec_key (head_record b)" "rec_key (head_record c)" rule: linorder_cases) auto

lemma heap_peek_greatest: "heap_peek hs = Some h \<Longrightarrow> g \<in> set hs \<Longrightarrow> \<not> head_less h g"
proof (induction hs arbitrary: h g)
  case (Cons x hs)
  show ?case
  proof (cases "heap_peek hs")
    case None
    with Cons.prems show ?thesis by (auto simp: head_less_def Let_def)
  next
    case (Some y)
    have "\<not> head_less x x" by (auto simp: head_less_def Let_def)
    with Cons.IH [OF Some] Cons.prems Some show ?thesis
      using head_geq_trans [of x y g] by (auto split: if_splits dest: head_less_asym)
  qed
qed simp

lemma heap_pop_best:
  assumes "heap_pop hs = Some (h, hs')" "g \<in> set hs"
  shows "rec_key (head_record h) \<le> rec_key (head_record g)"
    "rec_key (head_record g) = rec_key (head_record h) \<Longrightarrow> rec_sequence (head_record g) \<le> rec_sequence (head_record h)"
proof -
  have "\<not> head_less h g" using assms by (auto simp: heap_pop_def dest: heap_peek_greatest)
  then show "rec_key (head_record h) \<le> rec_key (head_record g)"
    "rec_key (head_record g) = rec_key (head_record h) \<Longrightarrow> rec_sequence (head_record g) \<le> rec_sequence (head_record h)"
    by (auto simp: head_less_def Let_def)
qed

section \<open>Merging sorted runs\<close>

text \<open>
  The state of a merge of error-free runs sorted by key: every head comes before what is left of its source, and
  each source of \<open>S\<close> that is not exhausted has its head in the heap.
\<close>

definition merging :: "nat set \<Rightarrow> merge \<Rightarrow> bool" where
  "merging S m \<longleftrightarrow>
     \<not> mg_failed m \<and> distinct (map head_source (mg_heap m)) \<and>
     (\<forall>src \<in> set (mg_sources m). \<exists>rs. src = map Inr rs \<and> sorted_wrt (<) (map rec_key rs)) \<and>
     (\<forall>s \<in> S. s < length (mg_sources m) \<longrightarrow> mg_sources m ! s \<noteq> [] \<longrightarrow> s \<in> head_source ` set (mg_heap m)) \<and>
     (\<forall>h \<in> set (mg_heap m). head_source h < length (mg_sources m) \<and>
        (\<forall>r. Inr r \<in> set (mg_sources m ! head_source h) \<longrightarrow> rec_key (head_record h) < rec_key r))"

definition remaining :: "merge \<Rightarrow> store_record set" where
  "remaining m = head_record ` set (mg_heap m) \<union> {r. \<exists>src \<in> set (mg_sources m). Inr r \<in> set src}"

lemma left_after_next:
  assumes "s < length xs" "xs ! s = Inr r # rest"
  shows "{x. \<exists>src \<in> set xs. Inr x \<in> set src} = insert r {x. \<exists>src \<in> set (xs[s := rest]). Inr x \<in> set src}"
proof -
  have "xs = take s xs @ (Inr r # rest) # drop (Suc s) xs" using id_take_nth_drop [OF assms(1)] assms(2) by simp
  then have "set xs = set (take s xs) \<union> {Inr r # rest} \<union> set (drop (Suc s) xs)"
    by (metis Un_insert_right list.simps(15) set_append sup_bot_right Un_insert_left)
  moreover have "set (xs[s := rest]) = set (take s xs) \<union> {rest} \<union> set (drop (Suc s) xs)"
    unfolding upd_conv_take_nth_drop [OF assms(1)] by auto
  ultimately show ?thesis by auto
qed

lemma merging_advance:
  assumes m: "merging S m" and s: "s < length (mg_sources m)" "s \<notin> head_source ` set (mg_heap m)"
  shows "\<exists>m'. merge_advance s m = (Inr (), m') \<and> merging (insert s S) m' \<and> remaining m' = remaining m \<and>
    length (mg_sources m') = length (mg_sources m)"
proof -
  have "\<forall>src \<in> set (mg_sources m). \<exists>rs. src = map Inr rs \<and> sorted_wrt (<) (map rec_key rs)" using m by (simp add: merging_def)
  with nth_mem [OF s(1)] obtain rs where rs: "mg_sources m ! s = map Inr rs" "sorted_wrt (<) (map rec_key rs)" by blast
  show ?thesis
  proof (cases rs)
    case Nil
    then show ?thesis using m rs s by (intro exI [of _ m]) (auto simp: merge_advance_def merging_def)
  next
    case (Cons r rest)
    let ?m = "m\<lparr>mg_sources := (mg_sources m)[s := map Inr rest], mg_heap := \<lparr>head_source = s, head_record = r\<rparr> # mg_heap m\<rparr>"
    have adv: "merge_advance s m = (Inr (), ?m)" using rs(1) s(1) Cons by (simp add: merge_advance_def)
    have src: "set ((mg_sources m)[s := map Inr rest]) \<subseteq> insert (map Inr rest) (set (mg_sources m))" by (rule set_update_subset_insert)
    have other: "(mg_sources m)[s := map Inr rest] ! head_source h = mg_sources m ! head_source h" if "h \<in> set (mg_heap m)" for h
      using that s(2) by (intro nth_list_update_neq) auto
    have "merging (insert s S) ?m"
      unfolding merging_def
    proof (intro conjI ballI)
      show "\<not> mg_failed ?m" using m by (simp add: merging_def)
      show "distinct (map head_source (mg_heap ?m))" using m s(2) by (auto simp: merging_def)
      fix x assume "x \<in> set (mg_sources ?m)"
      then show "\<exists>rs. x = map Inr rs \<and> sorted_wrt (<) (map rec_key rs)"
        using src m rs(2) Cons by (auto simp: merging_def subset_iff)
    next
      fix t assume "t \<in> insert s S"
      then show "t < length (mg_sources ?m) \<longrightarrow> mg_sources ?m ! t \<noteq> [] \<longrightarrow> t \<in> head_source ` set (mg_heap ?m)"
        using m by (cases "t = s") (auto simp: merging_def)
    next
      fix h assume h: "h \<in> set (mg_heap ?m)"
      then show "head_source h < length (mg_sources ?m)" using m s(1) by (auto simp: merging_def)
      show "\<forall>x. Inr x \<in> set (mg_sources ?m ! head_source h) \<longrightarrow> rec_key (head_record h) < rec_key x"
        using h m s(1) rs(2) Cons other by (auto simp: merging_def)
    qed
    moreover have "remaining ?m = remaining m"
    proof -
      have "{x. \<exists>src \<in> set (mg_sources m). Inr x \<in> set src} =
          insert r {x. \<exists>src \<in> set ((mg_sources m)[s := map Inr rest]). Inr x \<in> set src}"
        by (rule left_after_next) (use rs(1) Cons s(1) in simp_all)
      then show ?thesis by (auto simp: remaining_def)
    qed
    ultimately show ?thesis using adv by simp
  qed
qed

abbreviation all_sources :: "merge \<Rightarrow> nat set" where
  "all_sources m \<equiv> {..<length (mg_sources m)}"

lemma merging_least:
  assumes m: "merging (all_sources m) m" and pop: "heap_pop (mg_heap m) = Some (h, heap)" and r: "r \<in> remaining m"
  shows "rec_key (head_record h) \<le> rec_key r"
    "rec_key r = rec_key (head_record h) \<Longrightarrow> rec_sequence r \<le> rec_sequence (head_record h)"
proof -
  have "\<exists>g \<in> set (mg_heap m). r = head_record g \<or> rec_key (head_record g) < rec_key r"
  proof (cases "r \<in> head_record ` set (mg_heap m)")
    case False
    with r obtain src where "src \<in> set (mg_sources m)" "Inr r \<in> set src" by (auto simp: remaining_def)
    then obtain s where s: "s < length (mg_sources m)" "Inr r \<in> set (mg_sources m ! s)" by (auto simp: in_set_conv_nth [of src])
    then have "mg_sources m ! s \<noteq> []" by auto
    with m s(1) have "s \<in> head_source ` set (mg_heap m)" by (simp add: merging_def)
    then obtain g where g: "g \<in> set (mg_heap m)" "head_source g = s" by blast
    with m s(2) have "rec_key (head_record g) < rec_key r" by (auto simp: merging_def)
    with g(1) show ?thesis by blast
  qed auto
  then obtain g where "g \<in> set (mg_heap m)" "r = head_record g \<or> rec_key (head_record g) < rec_key r" by blast
  with heap_pop_best [OF pop] show "rec_key (head_record h) \<le> rec_key r"
    "rec_key r = rec_key (head_record h) \<Longrightarrow> rec_sequence r \<le> rec_sequence (head_record h)"
    by (fastforce dest: order.strict_trans1)+
qed

lemma merging_pop:
  assumes m: "merging (all_sources m) m" and pop: "heap_pop (mg_heap m) = Some (h, heap)"
  shows "\<exists>m'. merge_advance (head_source h) (m\<lparr>mg_heap := heap\<rparr>) = (Inr (), m') \<and> merging (all_sources m') m' \<and>
    remaining m = insert (head_record h) (remaining m')"
proof -
  have h: "h \<in> set (mg_heap m)" "heap = remove1 h (mg_heap m)" using pop by (auto simp: heap_pop_def dest: heap_peek_in)
  have dist: "distinct (mg_heap m)" using m by (auto simp: merging_def distinct_map)
  have set: "set heap = set (mg_heap m) - {h}" using dist h(2) by simp
  have inj: "inj_on head_source (set (mg_heap m))" using m by (simp add: merging_def distinct_map)
  have free: "head_source h \<notin> head_source ` set heap" using inj h(1) set by (auto simp: inj_on_def)
  let ?m = "m\<lparr>mg_heap := heap\<rparr>"
  have "merging (all_sources m - {head_source h}) ?m"
    using m inj h set dist
    by (auto simp: merging_def distinct_map inj_on_def image_iff)
  moreover have "head_source h < length (mg_sources m)" using m h(1) by (simp add: merging_def)
  ultimately obtain m' where m': "merge_advance (head_source h) ?m = (Inr (), m')"
    "merging (insert (head_source h) (all_sources m - {head_source h})) m'" "remaining m' = remaining ?m"
    "length (mg_sources m') = length (mg_sources m)"
    using merging_advance [of "all_sources m - {head_source h}" ?m "head_source h"] free by auto
  moreover have "insert (head_source h) (all_sources m - {head_source h}) = all_sources m'"
    using m'(4) \<open>head_source h < length (mg_sources m)\<close> by auto
  moreover have "remaining m = insert (head_record h) (remaining ?m)" using h(1) set by (auto simp: remaining_def)
  ultimately show ?thesis by metis
qed

lemma merging_empty: "merging (all_sources m) m \<Longrightarrow> mg_heap m = [] \<Longrightarrow> remaining m = {}"
  by (fastforce simp: merging_def remaining_def in_set_conv_nth)

text \<open>Records that share a key and a sequence number agree.\<close>

definition agreeing :: "store_record set \<Rightarrow> bool" where
  "agreeing R \<longleftrightarrow> (\<forall>r \<in> R. \<forall>r' \<in> R. rec_key r = rec_key r' \<longrightarrow> rec_sequence r = rec_sequence r' \<longrightarrow> rec_value r = rec_value r')"

lemma agreeing_mono: "agreeing R \<Longrightarrow> R' \<subseteq> R \<Longrightarrow> agreeing R'"
  unfolding agreeing_def by blast

lemma merge_drain_spec:
  assumes "merging (all_sources m) m" and "agreeing (insert w (remaining m))"
    and "\<forall>r \<in> remaining m. rec_key w \<le> rec_key r \<and> (rec_key r = rec_key w \<longrightarrow> rec_sequence r \<le> rec_sequence w)"
  shows "\<exists>m'. merge_drain w m = (Inr (Some w), m') \<and> merging (all_sources m') m' \<and>
    remaining m' = {r \<in> remaining m. rec_key r \<noteq> rec_key w}"
  using assms
proof (induction "pending_items m" arbitrary: m rule: less_induct)
  case less
  show ?case
  proof (cases "heap_pop (mg_heap m)")
    case None
    then have "mg_heap m = []" by (simp add: heap_pop_def)
    with merging_empty [OF less.prems(1)] None less.prems(1) show ?thesis by (simp add: merge_drain.simps)
  next
    case (Some p)
    obtain d heap where p: "p = (d, heap)" by force
    note pop = Some [unfolded p] and least = merging_least [OF less.prems(1) Some [unfolded p]]
    let ?r = "head_record d"
    have dr: "?r \<in> remaining m" using pop by (auto simp: heap_pop_def remaining_def dest: heap_peek_in)
    show ?thesis
    proof (cases "rec_key ?r = rec_key w")
      case False
      then have "rec_key r \<noteq> rec_key w" if "r \<in> remaining m" for r
        using least(1) [OF that] less.prems(3) dr by force
      then have "{r \<in> remaining m. rec_key r \<noteq> rec_key w} = remaining m" by blast
      with False pop less.prems(1) show ?thesis by (simp add: merge_drain.simps Let_def)
    next
      case True
      obtain m1 where m1: "merge_advance (head_source d) (m\<lparr>mg_heap := heap\<rparr>) = (Inr (), m1)" "merging (all_sources m1) m1"
        "remaining m = insert ?r (remaining m1)" using merging_pop [OF less.prems(1) pop] by blast
      have smaller: "pending_items m1 < pending_items m"
        using merge_advance_pending [OF m1(1)] heap_pop_length [OF pop] by (simp add: pending_items_def)
      have ok: "\<not> (rec_sequence ?r > rec_sequence w \<or> (rec_sequence ?r = rec_sequence w \<and> rec_value ?r \<noteq> rec_value w))"
      proof -
        have "rec_sequence ?r \<le> rec_sequence w" using less.prems(3) dr True by blast
        moreover have "rec_value ?r = rec_value w" if "rec_sequence ?r = rec_sequence w"
          using less.prems(2) dr True that unfolding agreeing_def by blast
        ultimately show ?thesis by auto
      qed
      have step: "merge_drain w m = merge_drain w m1"
        unfolding merge_drain.simps [of w m] pop option.case prod.case Let_def m1(1) if_not_P [OF ok] using True by simp
      have "agreeing (insert w (remaining m1))" by (rule agreeing_mono [OF less.prems(2)]) (use m1(3) in auto)
      moreover have "\<forall>r \<in> remaining m1. rec_key w \<le> rec_key r \<and> (rec_key r = rec_key w \<longrightarrow> rec_sequence r \<le> rec_sequence w)"
        using less.prems(3) m1(3) by simp
      ultimately obtain m' where "merge_drain w m1 = (Inr (Some w), m')" "merging (all_sources m') m'" "remaining m' = {r \<in> remaining m1. rec_key r \<noteq> rec_key w}"
        using less.hyps [OF smaller m1(2)] by blast
      moreover have "{r \<in> remaining m1. rec_key r \<noteq> rec_key w} = {r \<in> remaining m. rec_key r \<noteq> rec_key w}"
        using True m1(3) by auto
      ultimately show ?thesis using step by simp
    qed
  qed
qed

lemma merge_next_spec:
  assumes m: "merging (all_sources m) m" and agree: "agreeing (remaining m)" and some: "remaining m \<noteq> {}"
  shows "\<exists>w m'. merge_next m = (Some (Inr w), m') \<and> merging (all_sources m') m' \<and> w \<in> remaining m \<and>
    remaining m' = {r \<in> remaining m. rec_key r \<noteq> rec_key w} \<and>
    (\<forall>r \<in> remaining m. rec_key w \<le> rec_key r \<and> (rec_key r = rec_key w \<longrightarrow> rec_sequence r \<le> rec_sequence w))"
proof -
  have "mg_heap m \<noteq> []" using merging_empty [OF m] some by blast
  then obtain h heap where pop: "heap_pop (mg_heap m) = Some (h, heap)"
    by (cases "heap_peek (mg_heap m)") (auto simp: heap_pop_def)
  let ?w = "head_record h"
  note least = merging_least [OF m pop]
  obtain m1 where m1: "merge_advance (head_source h) (m\<lparr>mg_heap := heap\<rparr>) = (Inr (), m1)" "merging (all_sources m1) m1"
    "remaining m = insert ?w (remaining m1)" using merging_pop [OF m pop] by blast
  have "\<forall>r \<in> remaining m1. rec_key ?w \<le> rec_key r \<and> (rec_key r = rec_key ?w \<longrightarrow> rec_sequence r \<le> rec_sequence ?w)"
    using least m1(3) by auto
  then obtain m' where m': "merge_drain ?w m1 = (Inr (Some ?w), m')" "merging (all_sources m') m'"
    "remaining m' = {r \<in> remaining m1. rec_key r \<noteq> rec_key ?w}"
    using merge_drain_spec [OF m1(2), of ?w] agree m1(3) by auto
  have "merge_next m = (Some (Inr ?w), m')"
    using m pop m1(1) m'(1) by (simp add: merge_next_def merge_take_def merging_def)
  moreover have "remaining m' = {r \<in> remaining m. rec_key r \<noteq> rec_key ?w}" using m'(3) m1(3) by auto
  ultimately show ?thesis using m'(2) m1(3) least by auto
qed

text \<open>The newest record of every key, in key order.\<close>

definition newest_rows :: "store_record set \<Rightarrow> store_record list \<Rightarrow> bool" where
  "newest_rows R rows \<longleftrightarrow> sorted_wrt (<) (map rec_key rows) \<and>
     set rows = {r \<in> R. \<forall>r' \<in> R. rec_key r' = rec_key r \<longrightarrow> rec_sequence r' \<le> rec_sequence r}"

lemma agreeing_unique:
  assumes "agreeing R" "w \<in> R" "r \<in> R" "rec_key r = rec_key w" "rec_sequence r = rec_sequence w"
  shows "r = w"
proof -
  have "rec_value r = rec_value w" using assms unfolding agreeing_def by blast
  with assms(4,5) show ?thesis by simp
qed

lemma newest_rows_Cons:
  assumes agree: "agreeing R" and w: "w \<in> R" "\<And>r. r \<in> R \<Longrightarrow> rec_key w \<le> rec_key r"
      "\<And>r. r \<in> R \<Longrightarrow> rec_key r = rec_key w \<Longrightarrow> rec_sequence r \<le> rec_sequence w"
    and rows: "newest_rows {r \<in> R. rec_key r \<noteq> rec_key w} rows"
  shows "newest_rows R (w # rows)"
proof -
  let ?N = "{r \<in> R. \<forall>r' \<in> R. rec_key r' = rec_key r \<longrightarrow> rec_sequence r' \<le> rec_sequence r}"
  have "set rows = {r \<in> {r \<in> R. rec_key r \<noteq> rec_key w}. \<forall>r' \<in> {r \<in> R. rec_key r \<noteq> rec_key w}.
      rec_key r' = rec_key r \<longrightarrow> rec_sequence r' \<le> rec_sequence r}" using rows by (simp add: newest_rows_def)
  then have rest: "r \<in> set rows \<longleftrightarrow> r \<in> ?N \<and> rec_key r \<noteq> rec_key w" for r by simp fastforce
  have "rec_key w < rec_key r" if "r \<in> set rows" for r
  proof -
    from rest [of r] that have "r \<in> R" "rec_key r \<noteq> rec_key w" by simp_all
    with w(2) [of r] show ?thesis by (simp add: order.strict_iff_order)
  qed
  then have "sorted_wrt (<) (map rec_key (w # rows))" using rows by (simp add: newest_rows_def)
  moreover have "r = w" if "r \<in> ?N" "rec_key r = rec_key w" for r
  proof (rule agreeing_unique [OF agree w(1)])
    show "r \<in> R" using that(1) by simp
    then show "rec_sequence r = rec_sequence w" using that w(1) w(3) [of r] by (simp add: antisym)
  qed (rule that(2))
  then have "set (w # rows) = ?N" using rest w(1,3) by auto
  ultimately show ?thesis by (simp add: newest_rows_def)
qed

lemma merge_collect_spec:
  assumes "merging (all_sources m) m" and "agreeing (remaining m)"
  shows "\<exists>rows. merge_collect m = Inr rows \<and> newest_rows (remaining m) rows"
  using assms
proof (induction "pending_items m" arbitrary: m rule: less_induct)
  case less
  show ?case
  proof (cases "remaining m = {}")
    case True
    then have "mg_heap m = []" by (auto simp: remaining_def)
    with less.prems(1) have "merge_next m = (None, m)" by (simp add: merge_next_def merge_take_def heap_pop_def merging_def)
    with True show ?thesis by (simp add: merge_collect.simps newest_rows_def)
  next
    case False
    obtain w m' where w: "merge_next m = (Some (Inr w), m')" "merging (all_sources m') m'" "w \<in> remaining m"
      "remaining m' = {r \<in> remaining m. rec_key r \<noteq> rec_key w}"
      "\<And>r. r \<in> remaining m \<Longrightarrow> rec_key w \<le> rec_key r"
      "\<And>r. r \<in> remaining m \<Longrightarrow> rec_key r = rec_key w \<Longrightarrow> rec_sequence r \<le> rec_sequence w"
      using merge_next_spec [OF less.prems False] by blast
    have "agreeing (remaining m')" by (rule agreeing_mono [OF less.prems(2)]) (use w(4) in auto)
    then obtain rows where rows: "merge_collect m' = Inr rows" "newest_rows (remaining m') rows"
      using less.hyps [OF merge_next_pending [OF w(1)] w(2)] by blast
    have "merge_collect m = Inr (w # rows)" using w(1) rows(1) by (simp add: merge_collect.simps [of m])
    moreover have "newest_rows (remaining m) (w # rows)"
      by (rule newest_rows_Cons [OF less.prems(2) w(3,5,6)]) (use rows(2) w(4) in auto)
    ultimately show ?thesis by blast
  qed
qed

lemma merge_fill_spec:
  assumes "merging S m" "distinct ss" "set ss \<subseteq> all_sources m" "set ss \<inter> head_source ` set (mg_heap m) = {}"
  shows "\<exists>m'. merge_fill ss m = Inr m' \<and> merging (S \<union> set ss) m' \<and> remaining m' = remaining m \<and>
    length (mg_sources m') = length (mg_sources m)"
  using assms
proof (induction ss arbitrary: S m)
  case (Cons s ss)
  obtain m1 where m1: "merge_advance s m = (Inr (), m1)" "merging (insert s S) m1" "remaining m1 = remaining m"
    "length (mg_sources m1) = length (mg_sources m)"
    using merging_advance [OF Cons.prems(1), of s] Cons.prems(3,4) by auto
  have "head_source ` set (mg_heap m1) \<subseteq> insert s (head_source ` set (mg_heap m))"
    using m1(1) by (auto simp: merge_advance_def Let_def split: list.splits sum.splits if_splits)
  then have "set ss \<inter> head_source ` set (mg_heap m1) = {}" using Cons.prems(2,4) by auto
  then obtain m' where "merge_fill ss m1 = Inr m'" "merging (insert s S \<union> set ss) m'" "remaining m' = remaining m1"
    "length (mg_sources m') = length (mg_sources m1)"
    using Cons.IH [OF m1(2)] Cons.prems(2,3) m1(4) by auto
  then show ?case using m1 by simp
qed auto

lemma merge_runs_spec:
  assumes runs: "\<forall>rs \<in> set runs. sorted_wrt (<) (map rec_key rs)" and agree: "agreeing (\<Union>(set ` set runs))"
  shows "\<exists>rows. merge_runs (map (map Inr) runs) = Inr rows \<and> newest_rows (\<Union>(set ` set runs)) rows"
proof -
  let ?m = "\<lparr>mg_sources = map (map Inr) runs, mg_heap = [], mg_failed = False\<rparr>"
  have start: "merging {} ?m" "remaining ?m = \<Union>(set ` set runs)" using runs by (auto simp: merging_def remaining_def)
  obtain m where m: "merge_fill [0..<length runs] ?m = Inr m" "merging (all_sources m) m" "remaining m = \<Union>(set ` set runs)"
    using merge_fill_spec [OF start(1), of "[0..<length runs]"] start(2) by (auto simp: atLeast0LessThan)
  then show ?thesis
    using merge_collect_spec [OF m(2)] agree by (simp add: merge_runs_def merge_new_def)
qed

text \<open>
  C35.  Merging sorted runs, whose records of one key and one sequence number agree, always succeeds, and
  yields every key of the runs exactly once, in increasing key order, with its newest record.
\<close>

theorem merge_newest:
  assumes "\<forall>rs \<in> set runs. sorted_wrt (<) (map rec_key rs)" and "agreeing (\<Union>(set ` set runs))"
  shows "\<exists>rows. merge_runs (map (map Inr) runs) = Inr rows \<and> sorted_wrt (<) (map rec_key rows) \<and>
    set rows = {r \<in> \<Union>(set ` set runs). \<forall>r' \<in> \<Union>(set ` set runs). rec_key r' = rec_key r \<longrightarrow> rec_sequence r' \<le> rec_sequence r}"
  using merge_runs_spec [OF assms] by (simp add: newest_rows_def)

definition row :: "byte \<Rightarrow> byte \<Rightarrow> nat \<Rightarrow> store_record" where
  "row k v s = \<lparr>rec_key = [k], rec_value = Some [v], rec_sequence = s\<rparr>"

theorem merge_newest_witness:
  "\<exists>rows. merge_runs (map (map Inr) [[row 1 1 1, row 3 1 1], [row 1 2 2]]) = Inr rows \<and> row 1 2 2 \<in> set rows \<and> row 1 1 1 \<notin> set rows"
proof -
  have "\<forall>rs \<in> set [[row 1 1 1, row 3 1 1], [row 1 2 2]]. sorted_wrt (<) (map rec_key rs)"
    by (simp add: row_def)
  moreover have "agreeing (\<Union>(set ` set [[row 1 1 1, row 3 1 1], [row 1 2 2]]))" by (simp add: agreeing_def row_def)
  ultimately obtain rows where "merge_runs (map (map Inr) [[row 1 1 1, row 3 1 1], [row 1 2 2]]) = Inr rows"
    "set rows = {r \<in> {row 1 1 1, row 3 1 1, row 1 2 2}. \<forall>r' \<in> {row 1 1 1, row 3 1 1, row 1 2 2}.
       rec_key r' = rec_key r \<longrightarrow> rec_sequence r' \<le> rec_sequence r}"
    using merge_newest [of "[[row 1 1 1, row 3 1 1], [row 1 2 2]]"] by (auto simp: insert_commute)
  moreover from this(2) have "row 1 2 2 \<in> set rows" "row 1 1 1 \<notin> set rows" by (simp_all add: row_def)
  ultimately show ?thesis by blast
qed

end
