(* ===== verification/Lsm.thy ===== *)
theory Lsm
  imports Table Merge
begin

text \<open>
  \<^verbatim>\<open>state-store/src/lsm.rs\<close> with \<^verbatim>\<open>durable.rs\<close>: the log-structured engine.  A directory is the contents of its
  files; an operation takes the handle and returns a result and the handle, so that what a failed operation left in the
  directory is part of the model; only a failed opening leaves no handle.  Failures are those the sources inject at the twelve boundaries between system calls;
  the operating system itself does not fail.  A file is synchronised when it is written: what a crash of the machine would
  lose of unsynchronised data is not modelled, except for the tail of the write-ahead log.  A table file whose writing
  failed keeps its header and what was written of its blocks; no manifest names it, and the model keeps its header only.  The locks, the counters of \<^verbatim>\<open>Statistics\<close> and the paths are not modelled;
  \<^verbatim>\<open>read_dir\<close> lists the files in the order of their names.
\<close>

section \<open>Data\<close>

definition WAL_MAGIC :: "byte list" where "WAL_MAGIC = text_bytes ''MRSWAL01''"
definition MANIFEST_MAGIC :: "byte list" where "MANIFEST_MAGIC = text_bytes ''MRSMAN01''"
definition MAX_TABLES :: nat where "MAX_TABLES = 256"
definition MAX_MANIFEST_BYTES :: nat where "MAX_MANIFEST_BYTES = 4 * 1024 * 1024"

record lsm_options =
  op_memtable_bytes :: nat
  op_target_table_bytes :: nat
  op_l0_trigger :: nat
  op_level1_bytes :: nat
  op_max_compaction_input_bytes :: nat

definition default_options :: lsm_options where
  "default_options = \<lparr>op_memtable_bytes = 1024 * 1024, op_target_table_bytes = 512 * 1024, op_l0_trigger = 4,
     op_level1_bytes = 8 * 1024 * 1024, op_max_compaction_input_bytes = 64 * 1024 * 1024\<rparr>"

definition options_validate :: "lsm_options \<Rightarrow> unit stored" where
  "options_validate o' =
     (if \<not> (256 \<le> op_memtable_bytes o' \<and> op_memtable_bytes o' \<le> 16 * 1024 * 1024) \<or>
         \<not> (256 \<le> op_target_table_bytes o' \<and> op_target_table_bytes o' \<le> 16 * 1024 * 1024) \<or>
         \<not> (2 \<le> op_l0_trigger o' \<and> op_l0_trigger o' \<le> 32) \<or>
         op_level1_bytes o' < op_target_table_bytes o' \<or>
         \<not> (1024 \<le> op_max_compaction_input_bytes o' \<and> op_max_compaction_input_bytes o' \<le> 256 * 1024 * 1024)
      then Inl (InvalidData ''invalid LSM work bounds'') else Inr ())"

datatype fault_point =
    WalWritten | WalSynced | TableWritten | TableSynced | NewWalSynced | FilesDirectorySynced
  | ManifestWritten | ManifestSynced | ManifestRenamed | ManifestDirectorySynced
  | ObsoleteRemoved | ReclaimDirectorySynced

record manifest =
  mf_version :: nat
  mf_applied :: nat
  mf_last_digest :: "byte list"
  mf_next_id :: nat
  mf_wal_id :: nat
  mf_tables :: "table_meta list"

text \<open>The crates the engine calls: SHA-256 and the JSON forms of a manifest and of a table index.\<close>

record platform =
  pf_digest :: digest_fun
  pf_manifest_json :: "manifest \<Rightarrow> byte list"
  pf_manifest_parse :: "byte list \<Rightarrow> string + manifest"
  pf_footer_json :: "footer \<Rightarrow> byte list"
  pf_footer_parse :: "byte list \<Rightarrow> string + footer"

definition mf_allocate :: "manifest \<Rightarrow> (nat \<times> manifest) stored" where
  "mf_allocate m =
     (case checked_add (mf_next_id m) 1 of
        None \<Rightarrow> Inl (InvalidData ''file identity exhausted'')
      | Some n \<Rightarrow> Inr (mf_next_id m, m\<lparr>mf_next_id := n\<rparr>))"

fun check_ids :: "nat \<Rightarrow> nat \<Rightarrow> nat set \<Rightarrow> table_meta list \<Rightarrow> unit stored" where
  "check_ids next_id applied ids [] = Inr ()"
| "check_ids next_id applied ids (t # ts) =
     (if tm_id t \<in> ids \<or> tm_id t \<ge> next_id \<or> tm_max_sequence t > applied \<or> tm_level t > 2
      then Inl (InvalidData ''manifest table identities/bounds invalid'')
      else check_ids next_id applied (insert (tm_id t) ids) ts)"

definition level_disjoint :: "table_meta list \<Rightarrow> nat \<Rightarrow> bool" where
  "level_disjoint ts level =
     successively (\<lambda>a b. tm_last a < tm_first b) (sort_key tm_first (filter (\<lambda>t. tm_level t = level) ts))"

definition mf_validate :: "manifest \<Rightarrow> unit stored" where
  "mf_validate m =
     (if mf_version m \<noteq> 1 \<or> mf_wal_id m = 0 \<or> mf_next_id m \<le> mf_wal_id m \<or> length (mf_tables m) > MAX_TABLES
      then Inl (InvalidData ''invalid selected manifest'')
      else rbind (check_ids (mf_next_id m) (mf_applied m) {mf_wal_id m} (mf_tables m)) (\<lambda>_.
           if \<not> level_disjoint (mf_tables m) 1 \<or> \<not> level_disjoint (mf_tables m) 2
           then Inl (InvalidData ''leveled runs overlap'') else Inr ()))"

section \<open>The directory\<close>

record directory =
  fs_engine :: "byte list option"
  fs_engine_new :: "byte list option"
  fs_current :: "byte list option"
  fs_current_new :: "byte list option"
  fs_sst :: "(nat, byte list) btree"
  fs_wal :: "(nat, byte list) btree"

definition empty_directory :: directory where
  "empty_directory = \<lparr>fs_engine = None, fs_engine_new = None, fs_current = None, fs_current_new = None, fs_sst = [], fs_wal = []\<rparr>"

definition engine_identity :: "byte list" where
  "engine_identity = text_bytes ''micro-raft-state-store'' @ [10] @ text_bytes ''version=1'' @ [10] @ text_bytes ''engine=lsm'' @ [10]"

text \<open>\<^verbatim>\<open>Directory::open\<close>: the marker of the engine, and whether the directory is fresh.\<close>

definition directory_open :: "directory \<Rightarrow> (bool \<times> directory) stored" where
  "directory_open d =
     (if fs_engine_new d \<noteq> None then Inl (InvalidData ''interrupted engine identity publication; recovery requires review'')
      else case fs_engine d of
        Some marker \<Rightarrow>
          if marker \<noteq> engine_identity then Inl (InvalidData ''store engine identity is corrupt or belongs to another engine'')
          else if fs_current d = None then Inl (InvalidData ''selected engine payload is missing; refusing empty reinitialization'')
          else Inr (False, d)
      | None \<Rightarrow>
          if fs_current d \<noteq> None \<or> fs_current_new d \<noteq> None \<or> fs_sst d \<noteq> [] \<or> fs_wal d \<noteq> []
          then Inl (InvalidData ''unmarked nonempty store directory; refusing stale/new ambiguity'')
          else Inr (True, d\<lparr>fs_engine := Some engine_identity\<rparr>))"

record lsm =
  ls_dir :: directory
  ls_options :: lsm_options
  ls_manifest :: manifest
  ls_tables :: "table list"
  ls_wal_len :: nat
  ls_mem :: "(byte list, store_record) btree"
  ls_mem_bytes :: nat
  ls_applied :: nat
  ls_last_digest :: "byte list"
  ls_poisoned :: bool
  ls_fault :: "fault_point option"

type_synonym 'a lsm_op = "lsm \<Rightarrow> 'a stored \<times> lsm"

definition op_ok :: "'a \<Rightarrow> 'a lsm_op" where "op_ok x s = (Inr x, s)"
definition op_fail :: "store_error \<Rightarrow> 'a lsm_op" where "op_fail e s = (Inl e, s)"
definition op_lift :: "'a stored \<Rightarrow> 'a lsm_op" where "op_lift r s = (r, s)"
definition op_bind :: "'a lsm_op \<Rightarrow> ('a \<Rightarrow> 'b lsm_op) \<Rightarrow> 'b lsm_op" where
  "op_bind f g s = (case f s of (Inl e, s) \<Rightarrow> (Inl e, s) | (Inr x, s) \<Rightarrow> g x s)"
definition op_change :: "(lsm \<Rightarrow> lsm) \<Rightarrow> unit lsm_op" where "op_change f s = (Inr (), f s)"
definition op_dir :: "(directory \<Rightarrow> directory) \<Rightarrow> unit lsm_op" where
  "op_dir f = op_change (\<lambda>s. s\<lparr>ls_dir := f (ls_dir s)\<rparr>)"

definition missing :: store_error where "missing = OtherError ''file not found''"
definition exists_already :: store_error where "exists_already = OtherError ''file exists''"

definition hit :: "fault_point \<Rightarrow> unit lsm_op" where
  "hit point s =
     (if ls_fault s = Some point then (Inl (OtherError ''injected LSM failure''), s\<lparr>ls_fault := None\<rparr>) else (Inr (), s))"

definition healthy :: "unit lsm_op" where
  "healthy s =
     (if ls_poisoned s then (Inl (OtherError ''state store requires reopen after durable mutation failure''), s) else (Inr (), s))"

definition mutation_guard :: "'a lsm_op \<Rightarrow> 'a lsm_op" where
  "mutation_guard action = op_bind healthy (\<lambda>_ s.
     case action s of
       (Inr x, s) \<Rightarrow> (Inr x, s)
     | (Inl e, s) \<Rightarrow> (Inl e, s\<lparr>ls_poisoned := True\<rparr>))"

section \<open>The memtable and the log\<close>

definition apply_change :: "nat \<Rightarrow> mutation \<Rightarrow> (byte list, store_record) btree \<times> nat \<Rightarrow> (byte list, store_record) btree \<times> nat" where
  "apply_change sq c mb =
     (let r = batch_record sq c; bytes = snd mb + record_size r
      in (bt_insert (rec_key r) r (fst mb),
          case bt_get (fst mb) (rec_key r) of None \<Rightarrow> bytes | Some previous \<Rightarrow> bytes - record_size previous))"

definition apply_mem :: "nat \<Rightarrow> mutation list \<Rightarrow> (byte list, store_record) btree \<times> nat \<Rightarrow> (byte list, store_record) btree \<times> nat" where
  "apply_mem sq changes mb = fold (apply_change sq) changes mb"

record replayed =
  rp_applied :: nat
  rp_last_digest :: "byte list"
  rp_mem :: "(byte list, store_record) btree \<times> nat"
  rp_wal_len :: nat

lemma rbind_cong [fundef_cong]: "r = r' \<Longrightarrow> (\<And>x. r' = Inr x \<Longrightarrow> k x = k' x) \<Longrightarrow> rbind r k = rbind r' k'"
  by (cases r') auto

lemma read_frame_consumes:
  "read_frame digest magic bytes = Inr (Some (payload, used)) \<Longrightarrow> 0 < used \<and> used \<le> length bytes"
  by (auto simp: read_frame_def Let_def split: if_splits)

function replay_wal :: "digest_fun \<Rightarrow> byte list \<Rightarrow> replayed \<Rightarrow> replayed stored" where
  "replay_wal digest bytes rp =
     rbind (read_frame digest WAL_MAGIC bytes) (\<lambda>fr.
       case fr of
         None \<Rightarrow> Inr rp
       | Some (payload, used) \<Rightarrow>
           rbind (decode_batch payload) (\<lambda>(fst_index, idx, changes).
             if checked_add (rp_applied rp) 1 \<noteq> Some fst_index then Inl (InvalidData ''WAL applied-index discontinuity'')
             else replay_wal digest (drop used bytes)
               \<lparr>rp_applied = idx, rp_last_digest = digest payload, rp_mem = apply_mem idx changes (rp_mem rp),
                rp_wal_len = rp_wal_len rp + used\<rparr>))"
  by pat_completeness auto

termination
  by (relation "measure (\<lambda>(_, bytes, _). length bytes)") (auto dest: read_frame_consumes)

declare replay_wal.simps [simp del]

section \<open>Tables and the manifest\<close>

definition create_table :: "platform \<Rightarrow> nat \<Rightarrow> store_record list \<Rightarrow> manifest \<Rightarrow> (table_meta \<times> manifest) lsm_op" where
  "create_table pf level records m =
     op_bind (op_lift (mf_allocate m)) (\<lambda>(tid, m) s.
       if \<not> table_rejected records \<and> bt_contains tid (fs_sst (ls_dir s)) then op_fail exists_already s
       else case write_table (pf_digest pf) (pf_footer_json pf) tid level records of
         Inl e \<Rightarrow>
           if table_rejected records then op_fail e s
           else op_bind (op_dir (\<lambda>d. d\<lparr>fs_sst := bt_insert tid TABLE_HEADER (fs_sst d)\<rparr>)) (\<lambda>_. op_fail e) s
       | Inr (meta, bytes) \<Rightarrow>
           op_bind (op_dir (\<lambda>d. d\<lparr>fs_sst := bt_insert tid bytes (fs_sst d)\<rparr>)) (\<lambda>_.
           op_bind (hit TableWritten) (\<lambda>_.
           op_bind (hit TableSynced) (\<lambda>_. op_ok (meta, m)))) s)"

fun create_tables :: "platform \<Rightarrow> nat \<Rightarrow> store_record stored list \<Rightarrow> store_record list \<Rightarrow> nat \<Rightarrow> table_meta list \<Rightarrow> manifest \<Rightarrow>
    (table_meta list \<times> manifest) lsm_op" where
  "create_tables pf level [] batch sz result m =
     (if batch = [] then op_ok (result, m)
      else op_bind (create_table pf level batch m) (\<lambda>(meta, m). op_ok (result @ [meta], m)))"
| "create_tables pf level (Inl e # rows) batch sz result m = op_fail e"
| "create_tables pf level (Inr r # rows) batch sz result m = (\<lambda>s.
     op_bind
       (if batch \<noteq> [] \<and> (sz + record_size r > op_target_table_bytes (ls_options s) \<or> length batch = MAX_BATCH_RECORDS)
        then op_bind (create_table pf level batch m) (\<lambda>(meta, m). op_ok ([], 0, result @ [meta], m))
        else op_ok (batch, sz, result, m))
       (\<lambda>(batch, sz, result, m).
          if length result \<ge> MAX_TABLES then op_fail (InvalidData ''table count capacity exceeded'')
          else create_tables pf level rows (batch @ [r]) (sz + record_size r) result m) s)"

fun open_tables :: "platform \<Rightarrow> directory \<Rightarrow> table_meta list \<Rightarrow> table list stored" where
  "open_tables pf d [] = Inr []"
| "open_tables pf d (meta # metas) =
     (case bt_get (fs_sst d) (tm_id meta) of
        None \<Rightarrow> Inl missing
      | Some bytes \<Rightarrow>
          rbind (table_open (pf_digest pf) (pf_footer_parse pf) bytes meta) (\<lambda>t.
          rbind (open_tables pf d metas) (\<lambda>ts. Inr (t # ts))))"

text \<open>Files of the store that the selected manifest does not name, in the order of their names.\<close>

datatype file_name = CurrentNew | Sst nat | Wal nat

definition obsolete :: "manifest \<Rightarrow> directory \<Rightarrow> file_name list" where
  "obsolete m d =
     (if fs_current_new d \<noteq> None then [CurrentNew] else []) @
     map Sst (filter (\<lambda>i. i \<notin> tm_id ` set (mf_tables m)) (bt_keys (fs_sst d))) @
     map Wal (filter (\<lambda>i. i \<noteq> mf_wal_id m) (bt_keys (fs_wal d)))"

fun remove_file :: "file_name \<Rightarrow> directory \<Rightarrow> directory" where
  "remove_file CurrentNew d = d\<lparr>fs_current_new := None\<rparr>"
| "remove_file (Sst i) d = d\<lparr>fs_sst := bt_remove i (fs_sst d)\<rparr>"
| "remove_file (Wal i) d = d\<lparr>fs_wal := bt_remove i (fs_wal d)\<rparr>"

fun remove_files :: "file_name list \<Rightarrow> unit lsm_op" where
  "remove_files [] = op_ok ()"
| "remove_files (f # fs) = op_bind (op_dir (remove_file f)) (\<lambda>_. op_bind (hit ObsoleteRemoved) (\<lambda>_. remove_files fs))"

definition reclaim :: "unit lsm_op" where
  "reclaim s =
     (let files = obsolete (ls_manifest s) (ls_dir s)
      in op_bind (remove_files files) (\<lambda>_. if files \<noteq> [] then hit ReclaimDirectorySynced else op_ok ()) s)"

definition publish :: "platform \<Rightarrow> manifest \<Rightarrow> unit lsm_op" where
  "publish pf m = op_bind (op_lift (mf_allocate m)) (\<lambda>(wal, m) s.
     let m = m\<lparr>mf_wal_id := wal, mf_applied := ls_applied s, mf_last_digest := ls_last_digest s\<rparr>
     in op_bind (op_lift (mf_validate m)) (\<lambda>_.
        op_bind (if bt_contains wal (fs_wal (ls_dir s)) then op_fail exists_already
                 else op_dir (\<lambda>d. d\<lparr>fs_wal := bt_insert wal [] (fs_wal d)\<rparr>)) (\<lambda>_.
        op_bind (hit NewWalSynced) (\<lambda>_.
        op_bind (\<lambda>s. op_lift (open_tables pf (ls_dir s) (mf_tables m)) s) (\<lambda>tables.
        op_bind (hit FilesDirectorySynced) (\<lambda>_.
        op_bind (op_lift (frame (pf_digest pf) MANIFEST_MAGIC (pf_manifest_json pf m))) (\<lambda>bytes.
        if length bytes > MAX_MANIFEST_BYTES then op_fail (InvalidData ''manifest capacity exceeded'')
        else
          op_bind (op_dir (\<lambda>d. d\<lparr>fs_current_new := Some bytes\<rparr>)) (\<lambda>_.
          op_bind (hit ManifestWritten) (\<lambda>_.
          op_bind (hit ManifestSynced) (\<lambda>_.
          op_bind (op_dir (\<lambda>d. d\<lparr>fs_current := Some bytes, fs_current_new := None\<rparr>)) (\<lambda>_.
          op_bind (hit ManifestRenamed) (\<lambda>_.
          op_bind (hit ManifestDirectorySynced) (\<lambda>_.
          op_bind (op_change (\<lambda>s. s\<lparr>ls_wal_len := 0, ls_manifest := m, ls_tables := tables, ls_mem := [], ls_mem_bytes := 0\<rparr>)) (\<lambda>_.
            reclaim))))))))))))) s)"

section \<open>Opening\<close>

definition initial_manifest :: manifest where
  "initial_manifest = \<lparr>mf_version = 1, mf_applied = 0, mf_last_digest = replicate 32 0, mf_next_id = 2, mf_wal_id = 1, mf_tables = []\<rparr>"

definition initialize :: "platform \<Rightarrow> directory \<Rightarrow> directory stored" where
  "initialize pf d =
     rbind (frame (pf_digest pf) MANIFEST_MAGIC (pf_manifest_json pf initial_manifest)) (\<lambda>bytes.
       Inr (d\<lparr>fs_wal := bt_insert 1 [] (fs_wal d), fs_current := Some bytes\<rparr>))"

definition select_manifest :: "platform \<Rightarrow> directory \<Rightarrow> manifest stored" where
  "select_manifest pf d =
     (case fs_current d of
        None \<Rightarrow> Inl missing
      | Some bytes \<Rightarrow>
          if length bytes > MAX_MANIFEST_BYTES then Inl (InvalidData ''manifest too large'')
          else rbind (read_frame (pf_digest pf) MANIFEST_MAGIC bytes) (\<lambda>fr.
            case fr of
              None \<Rightarrow> Inl (InvalidData ''incomplete selected manifest'')
            | Some (payload, used) \<Rightarrow>
                if used \<noteq> length bytes then Inl (InvalidData ''manifest trailing bytes'')
                else (case pf_manifest_parse pf payload of
                        Inl e \<Rightarrow> Inl (InvalidData e)
                      | Inr m \<Rightarrow> rbind (mf_validate m) (\<lambda>_. Inr m))))"

definition read_store :: "platform \<Rightarrow> directory \<Rightarrow> (manifest \<times> table list \<times> replayed) stored" where
  "read_store pf d =
     rbind (select_manifest pf d) (\<lambda>m.
     rbind (open_tables pf d (mf_tables m)) (\<lambda>tables.
       case bt_get (fs_wal d) (mf_wal_id m) of
         None \<Rightarrow> Inl missing
       | Some wal \<Rightarrow>
           if length wal > 64 * 1024 * 1024 then Inl (InvalidData ''WAL recovery byte bound exceeded'')
           else rbind (replay_wal (pf_digest pf) wal
                  \<lparr>rp_applied = mf_applied m, rp_last_digest = mf_last_digest m, rp_mem = ([], 0), rp_wal_len = 0\<rparr>) (\<lambda>rp.
             Inr (m, tables, rp))))"

definition truncate_wal :: "nat \<Rightarrow> nat \<Rightarrow> directory \<Rightarrow> directory" where
  "truncate_wal wal len d =
     (case bt_get (fs_wal d) wal of
        None \<Rightarrow> d
      | Some bytes \<Rightarrow> if len \<noteq> length bytes then d\<lparr>fs_wal := bt_insert wal (take len bytes) (fs_wal d)\<rparr> else d)"

definition recover :: "platform \<Rightarrow> lsm_options \<Rightarrow> directory \<Rightarrow> lsm stored" where
  "recover pf options d =
     rbind (read_store pf d) (\<lambda>(m, tables, rp).
       Inr \<lparr>ls_dir = truncate_wal (mf_wal_id m) (rp_wal_len rp) d, ls_options = options,
         ls_manifest = m, ls_tables = tables, ls_wal_len = rp_wal_len rp, ls_mem = fst (rp_mem rp),
         ls_mem_bytes = snd (rp_mem rp), ls_applied = rp_applied rp, ls_last_digest = rp_last_digest rp,
         ls_poisoned = False, ls_fault = None\<rparr>)"

definition lsm_open :: "platform \<Rightarrow> lsm_options \<Rightarrow> directory \<Rightarrow> lsm stored" where
  "lsm_open pf options d =
     rbind (options_validate options) (\<lambda>_.
     rbind (directory_open d) (\<lambda>(fresh, d).
     rbind (if fresh then initialize pf d else Inr d) (\<lambda>d.
     rbind (recover pf options d) (\<lambda>s.
       case reclaim s of (Inl e, s) \<Rightarrow> Inl e | (Inr _, s) \<Rightarrow> Inr s))))"

section \<open>Flushing and compaction\<close>

definition mem_rows :: "lsm \<Rightarrow> store_record stored list" where
  "mem_rows s = map (Inr \<circ> snd) (ls_mem s)"

definition flush_inner :: "platform \<Rightarrow> unit lsm_op" where
  "flush_inner pf s =
     (if ls_applied s = mf_applied (ls_manifest s) then op_ok () s
      else op_bind (create_tables pf 0 (mem_rows s) [] 0 [] (ls_manifest s)) (\<lambda>(added, m).
        publish pf (m\<lparr>mf_tables := mf_tables m @ added\<rparr>)) s)"

text \<open>\<^verbatim>\<open>min_by_key\<close>: the first table with the least identity.\<close>

fun oldest :: "table list \<Rightarrow> table option" where
  "oldest [] = None"
| "oldest (t # ts) =
     (case oldest ts of
        None \<Rightarrow> Some t
      | Some u \<Rightarrow> if tm_id (tb_meta t) \<le> tm_id (tb_meta u) then Some t else Some u)"

definition level_tables :: "nat \<Rightarrow> lsm \<Rightarrow> table list" where
  "level_tables level s = filter (\<lambda>t. tm_level (tb_meta t) = level) (ls_tables s)"

definition compaction_sources :: "lsm \<Rightarrow> (table list \<times> nat) option" where
  "compaction_sources s =
     (if length (level_tables 0 s) \<ge> op_l0_trigger (ls_options s) then Some (level_tables 0 s, 1)
      else if sum_list (map (\<lambda>t. tm_bytes (tb_meta t)) (level_tables 1 s)) > op_level1_bytes (ls_options s)
      then map_option (\<lambda>t. ([t], 2)) (oldest (level_tables 1 s))
      else None)"

definition compaction_plan :: "lsm \<Rightarrow> (nat \<times> nat set) option" where
  "compaction_plan s =
     (case compaction_sources s of
        None \<Rightarrow> None
      | Some (sources, destination) \<Rightarrow>
          if sources = [] then None
          else let lo = Min (set (map (tm_first \<circ> tb_meta) sources)); hi = Max (set (map (tm_last \<circ> tb_meta) sources))
               in Some (destination, set (map (tm_id \<circ> tb_meta) sources) \<union>
                    set (map (tm_id \<circ> tb_meta)
                      (filter (\<lambda>t. tm_level (tb_meta t) = destination \<and> meta_overlaps (tb_meta t) lo hi) (ls_tables s)))))"

text \<open>The results the merge iterator yields, up to the first error.\<close>

function merge_yields :: "merge \<Rightarrow> store_record stored list" where
  "merge_yields m =
     (case merge_next m of
        (None, _) \<Rightarrow> []
      | (Some (Inl e), _) \<Rightarrow> [Inl e]
      | (Some (Inr r), m) \<Rightarrow> Inr r # merge_yields m)"
  by pat_completeness auto
termination
  by (relation "measure pending_items") (auto dest: merge_next_pending [OF sym])

declare merge_yields.simps [simp del]

definition selected_tables :: "nat set \<Rightarrow> lsm \<Rightarrow> table list" where
  "selected_tables ids s = filter (\<lambda>t. tm_id (tb_meta t) \<in> ids) (ls_tables s)"

definition unselected_metas :: "nat set \<Rightarrow> lsm \<Rightarrow> table_meta list" where
  "unselected_metas ids s = map tb_meta (filter (\<lambda>t. tm_id (tb_meta t) \<notin> ids) (ls_tables s))"

definition visible :: "table_meta list \<Rightarrow> store_record stored \<Rightarrow> bool" where
  "visible unselected x =
     (case x of Inl _ \<Rightarrow> True | Inr r \<Rightarrow> rec_value r \<noteq> None \<or> list_ex (\<lambda>m. meta_contains m (rec_key r)) unselected)"

definition compact_inner :: "platform \<Rightarrow> bool lsm_op" where
  "compact_inner pf = op_bind (flush_inner pf) (\<lambda>_ s.
     case compaction_plan s of
       None \<Rightarrow> op_ok False s
     | Some (destination, ids) \<Rightarrow>
         if sum_list (map (\<lambda>t. tm_bytes (tb_meta t)) (selected_tables ids s)) > op_max_compaction_input_bytes (ls_options s)
         then op_fail (OutOfMemory ''compaction input work limit exceeded'') s
         else op_bind (op_lift (merge_new (map (table_iter (pf_digest pf)) (selected_tables ids s)))) (\<lambda>merged s.
                let m = ls_manifest s; m = m\<lparr>mf_tables := filter (\<lambda>t. tm_id t \<notin> ids) (mf_tables m)\<rparr>;
                    rows = filter (visible (unselected_metas ids s)) (merge_yields merged)
                in op_bind (create_tables pf destination rows [] 0 [] m) (\<lambda>(added, m).
                   op_bind (publish pf (m\<lparr>mf_tables := mf_tables m @ added\<rparr>)) (\<lambda>_. op_ok True)) s) s)"

definition compact_once :: "platform \<Rightarrow> bool lsm_op" where
  "compact_once pf = mutation_guard (compact_inner pf)"

section \<open>The store\<close>

definition newer :: "store_record option \<Rightarrow> store_record \<Rightarrow> bool" where
  "newer newest r = (case newest of None \<Rightarrow> True | Some previous \<Rightarrow> rec_sequence previous < rec_sequence r)"

fun get_tables :: "platform \<Rightarrow> byte list \<Rightarrow> table list \<Rightarrow> store_record option \<Rightarrow> store_record option stored" where
  "get_tables pf key [] newest = Inr newest"
| "get_tables pf key (t # ts) newest =
     (if \<not> meta_contains (tb_meta t) key \<or>
         (case newest of None \<Rightarrow> False | Some r \<Rightarrow> rec_sequence r > tm_max_sequence (tb_meta t))
      then get_tables pf key ts newest
      else rbind (table_lookup (pf_digest pf) t key) (\<lambda>lk.
        case lk_record lk of
          None \<Rightarrow> get_tables pf key ts newest
        | Some r \<Rightarrow>
            if (case newest of None \<Rightarrow> False | Some p \<Rightarrow> rec_sequence p = rec_sequence r \<and> rec_value p \<noteq> rec_value r)
            then Inl (InvalidData ''conflicting record version'')
            else get_tables pf key ts (if newer newest r then Some r else newest)))"

definition lsm_get :: "platform \<Rightarrow> byte list \<Rightarrow> byte list option lsm_op" where
  "lsm_get pf key = op_bind healthy (\<lambda>_ s.
     op_bind (op_lift (get_tables pf key (ls_tables s) (bt_get (ls_mem s) key))) (\<lambda>newest.
       op_ok (Option.bind newest rec_value)) s)"

fun scan_rows :: "nat \<Rightarrow> store_record stored list \<Rightarrow> (byte list \<times> byte list) list stored" where
  "scan_rows bytes [] = Inr []"
| "scan_rows bytes (Inl e # rows) = Inl e"
| "scan_rows bytes (Inr r # rows) =
     (case rec_value r of
        None \<Rightarrow> scan_rows bytes rows
      | Some v \<Rightarrow>
          let bytes = bytes + length (rec_key r) + length v
          in if bytes > 256 * 1024 * 1024 then Inl (OutOfMemory ''materialized scan exceeds 256 MiB'')
             else rbind (scan_rows bytes rows) (\<lambda>rest. Inr ((rec_key r, v) # rest)))"

definition lsm_scan :: "platform \<Rightarrow> (byte list \<times> byte list) list lsm_op" where
  "lsm_scan pf = op_bind healthy (\<lambda>_ s.
     op_bind (op_lift (merge_new (mem_rows s # map (table_iter (pf_digest pf)) (ls_tables s)))) (\<lambda>merged.
       op_lift (scan_rows 0 (merge_yields merged))) s)"

datatype commit_outcome = CommitApplied | CommitReplay

definition write_batch :: "platform \<Rightarrow> nat \<Rightarrow> mutation list \<Rightarrow> byte list \<Rightarrow> commit_outcome lsm_op" where
  "write_batch pf idx changes payload =
     op_bind (\<lambda>s. if ls_mem_bytes s \<ge> op_memtable_bytes (ls_options s) \<or>
                    ls_wal_len s \<ge> min (op_memtable_bytes (ls_options s) * 4) (32 * 1024 * 1024)
                 then flush_inner pf s else op_ok () s) (\<lambda>_ s.
     let wal = mf_wal_id (ls_manifest s)
     in case bt_get (fs_wal (ls_dir s)) wal of
          None \<Rightarrow> op_fail missing s
        | Some named \<Rightarrow>
            if length named \<noteq> ls_wal_len s then op_fail (InvalidData ''active WAL changed outside its writer'') s
            else op_bind (op_lift (frame (pf_digest pf) WAL_MAGIC payload)) (\<lambda>bytes.
                 op_bind (op_dir (\<lambda>d. d\<lparr>fs_wal := bt_insert wal (named @ bytes) (fs_wal d)\<rparr>)) (\<lambda>_.
                 op_bind (op_change (\<lambda>s. s\<lparr>ls_wal_len := ls_wal_len s + length bytes\<rparr>)) (\<lambda>_.
                 op_bind (hit WalWritten) (\<lambda>_.
                 op_bind (hit WalSynced) (\<lambda>_.
                 op_bind (op_change (\<lambda>s. let mb = apply_mem idx changes (ls_mem s, ls_mem_bytes s)
                            in s\<lparr>ls_mem := fst mb, ls_mem_bytes := snd mb, ls_applied := idx, ls_last_digest := pf_digest pf payload\<rparr>)) (\<lambda>_.
                   op_ok CommitApplied)))))) s)"

definition commit_range :: "platform \<Rightarrow> nat \<Rightarrow> nat \<Rightarrow> mutation list \<Rightarrow> commit_outcome lsm_op" where
  "commit_range pf fst_index idx changes =
     op_bind healthy (\<lambda>_.
     op_bind (op_lift (validate_changes changes)) (\<lambda>_.
     op_bind (op_lift (encode_batch fst_index idx changes)) (\<lambda>payload s.
       if idx = ls_applied s \<and> idx > 0 \<and> pf_digest pf payload = ls_last_digest s then op_ok CommitReplay s
       else if checked_add (ls_applied s) 1 \<noteq> Some fst_index
       then op_fail (InvalidInput ''applied range must start at the next index'') s
       else mutation_guard (write_batch pf idx changes payload) s)))"

definition install_rows :: "nat \<Rightarrow> mutation list \<Rightarrow> store_record stored list" where
  "install_rows idx cells = map Inr (sort_key rec_key (map (batch_record idx) cells))"

definition lsm_install :: "platform \<Rightarrow> nat \<Rightarrow> mutation list \<Rightarrow> unit lsm_op" where
  "lsm_install pf idx cells =
     op_bind (op_lift (validate_install cells)) (\<lambda>_.
       if list_ex (\<lambda>c. mut_value c = None) cells \<or> (idx = 0 \<and> cells \<noteq> [])
       then op_fail (InvalidInput ''snapshot cells must be live at a nonzero boundary'')
       else mutation_guard (\<lambda>s.
         op_bind (create_tables pf 2 (install_rows idx cells) [] 0 [] ((ls_manifest s)\<lparr>mf_tables := []\<rparr>)) (\<lambda>(added, m).
         op_bind (op_change (\<lambda>s. s\<lparr>ls_applied := idx, ls_last_digest := replicate 32 0\<rparr>)) (\<lambda>_.
           publish pf (m\<lparr>mf_tables := added\<rparr>))) s))"

definition lsm_flush :: "platform \<Rightarrow> unit lsm_op" where
  "lsm_flush pf = mutation_guard (flush_inner pf)"

definition lsm_maintain :: "platform \<Rightarrow> bool lsm_op" where
  "lsm_maintain pf = op_bind healthy (\<lambda>_ s. if compaction_plan s \<noteq> None then compact_once pf s else op_ok False s)"

end
