(* ===== verification/Lsm_View.thy ===== *)
theory Lsm_View
  imports Lsm
begin

text \<open>
  What the engine's records stand for.  A key has the value of its newest record; a record without a value is a
  deletion.  This is the abstract state of the store: the sources, memtable and tables, only differ in where the
  records are.
\<close>

section \<open>The newest record of a key\<close>

definition top_record :: "store_record set \<Rightarrow> store_record \<Rightarrow> bool" where
  "top_record R r \<longleftrightarrow> r \<in> R \<and> (\<forall>r' \<in> R. rec_key r' = rec_key r \<longrightarrow> rec_sequence r' \<le> rec_sequence r)"

definition view :: "store_record set \<Rightarrow> byte list \<Rightarrow> byte list option" where
  "view R k = (if \<exists>r. top_record R r \<and> rec_key r = k then rec_value (SOME r. top_record R r \<and> rec_key r = k) else None)"

lemma top_record_unique:
  assumes "agreeing R" "top_record R r" "top_record R r'" "rec_key r = rec_key r'"
  shows "r = r'"
proof -
  have "rec_sequence r = rec_sequence r'" using assms(2-4) unfolding top_record_def by (metis order_antisym)
  then show ?thesis using agreeing_unique [OF assms(1), of r' r] assms(2-4) by (auto simp: top_record_def)
qed

lemma view_top: "agreeing R \<Longrightarrow> top_record R r \<Longrightarrow> view R (rec_key r) = rec_value r"
  unfolding view_def by (metis (mono_tags, lifting) someI top_record_unique)

lemma view_None: "(\<And>r. r \<in> R \<Longrightarrow> rec_key r \<noteq> k) \<Longrightarrow> view R k = None"
  by (auto simp: view_def top_record_def)

lemma top_record_exists:
  assumes "finite R" "r \<in> R"
  obtains w where "top_record R w" "rec_key w = rec_key r"
proof -
  let ?K = "{w \<in> R. rec_key w = rec_key r}"
  have fin: "finite (rec_sequence ` ?K)" "rec_sequence ` ?K \<noteq> {}" using assms by auto
  obtain w where "w \<in> ?K" "rec_sequence w = Max (rec_sequence ` ?K)" using Max_in [OF fin] by auto
  with that [of w] fin show thesis by (auto simp: top_record_def)
qed

lemma view_cases:
  assumes "finite R" "agreeing R"
  obtains (absent) "\<forall>r \<in> R. rec_key r \<noteq> k" "view R k = None"
    | (present) r where "top_record R r" "rec_key r = k" "view R k = rec_value r"
proof (cases "\<exists>r \<in> R. rec_key r = k")
  case True
  then show thesis using top_record_exists [OF assms(1)] view_top [OF assms(2)] present by metis
next
  case False
  then have none: "\<forall>r \<in> R. rec_key r \<noteq> k" by blast
  then have "view R k = None" by (intro view_None) blast
  with none show thesis by (rule absent)
qed

lemma view_Some_iff:
  assumes "finite R" "agreeing R"
  shows "view R k = Some v \<longleftrightarrow> (\<exists>r. top_record R r \<and> rec_key r = k \<and> rec_value r = Some v)"
  using assms
proof (cases rule: view_cases [of R k])
  case absent
  then show ?thesis by (auto simp: top_record_def)
next
  case (present r)
  then show ?thesis using view_top [OF assms(2)] by metis
qed

text \<open>Two sets of records with the same visible newest records look the same.\<close>

lemma view_eqI:
  assumes R: "finite R" "agreeing R" and S: "finite S" "agreeing S"
    and eq: "\<And>r v. rec_value r = Some v \<Longrightarrow> top_record R r \<longleftrightarrow> top_record S r"
  shows "view R = view S"
proof
  fix k
  have "view R k = Some v \<longleftrightarrow> view S k = Some v" for v
    using eq by (auto simp: view_Some_iff [OF R] view_Some_iff [OF S])
  then show "view R k = view S k" by (metis option.exhaust)
qed

section \<open>Newer records win\<close>

definition updated :: "mutation list \<Rightarrow> (byte list \<Rightarrow> byte list option) \<Rightarrow> byte list \<Rightarrow> byte list option" where
  "updated changes f k = (case map_of (map (\<lambda>c. (mut_key c, mut_value c)) changes) k of None \<Rightarrow> f k | Some v \<Rightarrow> v)"

lemma view_newer:
  assumes R: "finite R" "agreeing R" "\<forall>r \<in> R. rec_sequence r < sq" and cs: "distinct (map mut_key cs)"
    and S: "S \<subseteq> R \<union> batch_record sq ` set cs" "batch_record sq ` set cs \<subseteq> S" "{r \<in> R. rec_key r \<notin> mut_key ` set cs} \<subseteq> S"
  shows "agreeing S" "view S = updated cs (view R)"
proof -
  have batch: "agreeing (batch_record sq ` set cs)"
    using cs by (auto simp: agreeing_def batch_record_def distinct_map dest: inj_onD)
  have "agreeing (R \<union> batch_record sq ` set cs)"
    unfolding agreeing_def
  proof (intro ballI impI)
    fix r r' assume r: "r \<in> R \<union> batch_record sq ` set cs" "r' \<in> R \<union> batch_record sq ` set cs"
      and eq: "rec_key r = rec_key r'" "rec_sequence r = rec_sequence r'"
    have sides: "x \<in> R \<and> rec_sequence x < sq \<or> x \<in> batch_record sq ` set cs \<and> rec_sequence x = sq" if "x \<in> R \<union> batch_record sq ` set cs" for x
      using that R(3) by (auto simp: batch_record_def)
    from sides [OF r(1)] sides [OF r(2)] eq(2) have "(r \<in> R \<and> r' \<in> R) \<or> (r \<in> batch_record sq ` set cs \<and> r' \<in> batch_record sq ` set cs)" by auto
    then show "rec_value r = rec_value r'" using R(2) batch eq unfolding agreeing_def by blast
  qed
  then show agree: "agreeing S" using S(1) by (rule agreeing_mono)
  have fin: "finite S" using S(1) R(1) finite_subset by blast
  show "view S = updated cs (view R)"
  proof
    fix k
    show "view S k = updated cs (view R) k"
    proof (cases "k \<in> mut_key ` set cs")
      case True
      then obtain c where c: "c \<in> set cs" "mut_key c = k" by auto
      have "top_record S (batch_record sq c)"
        using S(1,2) c R(3) unfolding top_record_def by (force simp: batch_record_def)
      from view_top [OF agree this] have "view S k = mut_value c" using c by (simp add: batch_record_def)
      moreover have "map_of (map (\<lambda>c. (mut_key c, mut_value c)) cs) k = Some (mut_value c)"
        using c cs by (auto simp: comp_def intro!: map_of_is_SomeI)
      ultimately show ?thesis by (simp add: updated_def)
    next
      case False
      have same: "r \<in> S \<longleftrightarrow> r \<in> R" if "rec_key r = k" for r
      proof -
        have "r \<notin> batch_record sq ` set cs" using False that by (auto simp: batch_record_def)
        then show ?thesis using S False that by blast
      qed
      have "top_record S r \<longleftrightarrow> top_record R r" if "rec_key r = k" for r using that same by (auto simp: top_record_def)
      then have "(\<lambda>r. top_record S r \<and> rec_key r = k) = (\<lambda>r. top_record R r \<and> rec_key r = k)" by blast
      then have "view S k = view R k" by (simp only: view_def)
      moreover have "map_of (map (\<lambda>c. (mut_key c, mut_value c)) cs) k = None"
        using False by (auto simp: map_of_eq_None_iff)
      ultimately show ?thesis by (simp add: updated_def)
    qed
  qed
qed

section \<open>Compaction\<close>

text \<open>
  Merging some of the records into the newest of each key, and dropping deletions of keys nothing else knows, changes
  nothing that can be seen.
\<close>

lemma view_compacted:
  assumes fin: "finite A" "finite B" and agree: "agreeing (A \<union> B)" and rows: "newest_rows B rows"
    and kept: "C \<subseteq> set rows" "\<And>r. r \<in> set rows \<Longrightarrow> rec_value r \<noteq> None \<or> (\<exists>a \<in> A. rec_key a = rec_key r) \<Longrightarrow> r \<in> C"
  shows "agreeing (A \<union> C)" "view (A \<union> C) = view (A \<union> B)"
proof -
  have C: "C \<subseteq> B" using rows kept(1) by (auto simp: newest_rows_def)
  show ag: "agreeing (A \<union> C)" using agree C by (auto intro: agreeing_mono)
  have finC: "finite C" using C fin(2) finite_subset by blast
  have top: "r \<in> set rows \<longleftrightarrow> top_record B r" for r using rows by (auto simp: newest_rows_def top_record_def)
  show "view (A \<union> C) = view (A \<union> B)"
  proof (rule view_eqI)
    fix r :: store_record and v
    assume v: "rec_value r = Some v"
    show "top_record (A \<union> C) r \<longleftrightarrow> top_record (A \<union> B) r"
    proof
      assume r: "top_record (A \<union> B) r"
      then have "r \<in> A \<union> C" using kept(2) [of r] top [of r] v by (auto simp: top_record_def)
      then show "top_record (A \<union> C) r" using r C by (auto simp: top_record_def)
    next
      assume r: "top_record (A \<union> C) r"
      have "rec_sequence b \<le> rec_sequence r" if b: "b \<in> B" "rec_key b = rec_key r" for b
      proof -
        obtain w where w: "top_record B w" "rec_key w = rec_key b" using top_record_exists [OF fin(2) b(1)] .
        have le: "rec_sequence b \<le> rec_sequence w" using w b by (auto simp: top_record_def)
        show ?thesis
        proof (cases "w \<in> C")
          case True
          then show ?thesis using r w(2) b(2) le by (force simp: top_record_def)
        next
          case False
          then have "r \<notin> A" using kept(2) [of w] top [of w] w b(2) by auto
          then have "r \<in> C" using r by (auto simp: top_record_def)
          then have "top_record B r" using kept(1) top by auto
          then show ?thesis using b by (auto simp: top_record_def)
        qed
      qed
      then show "top_record (A \<union> B) r" using r C by (auto simp: top_record_def)
    qed
  qed (use fin finC agree ag in auto)
qed

end
