(* ===== verification/Lsm_Disk.thy ===== *)
theory Lsm_Disk
  imports Lsm_View
begin

text \<open>
  What a directory stands for, and what keeps it.  \<open>read_store\<close> is all that opening reads; the operations of the
  engine are followed through every injected failure with a weakest-precondition calculus (\<open>outcome\<close>), so that
  each lemma says both what a successful operation leaves and what an interrupted one leaves.
\<close>

section \<open>The contents of a store\<close>

type_synonym store_image = "manifest \<times> table list \<times> replayed"

definition table_rows :: "digest_fun \<Rightarrow> table list \<Rightarrow> store_record set" where
  "table_rows digest ts = {r. \<exists>t \<in> set ts. Inr r \<in> set (table_iter digest t)}"

definition image_rows :: "platform \<Rightarrow> store_image \<Rightarrow> store_record set" where
  "image_rows pf x = (case x of (m, ts, rp) \<Rightarrow> snd ` set (fst (rp_mem rp)) \<union> table_rows (pf_digest pf) ts)"

definition meaning :: "platform \<Rightarrow> store_image \<Rightarrow> nat \<times> byte list \<times> (byte list \<Rightarrow> byte list option)" where
  "meaning pf x = (case x of (m, ts, rp) \<Rightarrow> (rp_applied rp, rp_last_digest rp, view (image_rows pf x)))"

definition platform_ok :: "platform \<Rightarrow> bool" where
  "platform_ok pf \<longleftrightarrow> (\<forall>x. length (pf_digest pf x) = 32) \<and> (\<forall>m. pf_manifest_parse pf (pf_manifest_json pf m) = Inr m) \<and>
     (\<forall>f. pf_footer_parse pf (pf_footer_json pf f) = Inr f)"

lemma table_rows_Cons [simp]: "table_rows digest (t # ts) = {r. Inr r \<in> set (table_iter digest t)} \<union> table_rows digest ts"
  and table_rows_Nil [simp]: "table_rows digest [] = {}"
  and table_rows_append: "table_rows digest (ts @ us) = table_rows digest ts \<union> table_rows digest us"
  by (auto simp: table_rows_def)

lemma table_holds_rows: "table_holds digest t rs \<Longrightarrow> {r. Inr r \<in> set (table_iter digest t)} = set rs"
  by (auto simp: table_holds_def)

lemma holds_all_rows: "list_all2 (table_holds digest) ts rss \<Longrightarrow> table_rows digest ts = \<Union>(set ` set rss)"
  by (induction rule: list_all2_induct) (auto simp: table_holds_rows)

lemma finite_table_rows: "finite (table_rows digest ts)"
proof (induction ts)
  case (Cons t ts)
  have "{r. Inr r \<in> set (table_iter digest t)} = Inr -` set (table_iter digest t)" by auto
  then show ?case using Cons by (simp add: finite_vimageI)
qed simp

lemma finite_image_rows: "finite (image_rows pf x)"
  by (simp add: image_rows_def finite_table_rows split: prod.split)

section \<open>The memtable\<close>

definition mem_ok :: "nat \<Rightarrow> nat \<Rightarrow> (byte list, store_record) btree \<Rightarrow> bool" where
  "mem_ok lo hi mem \<longleftrightarrow> bt_sorted mem \<and>
     (\<forall>k r. bt_get mem k = Some r \<longrightarrow> rec_key r = k \<and> valid_record r \<and> lo < rec_sequence r \<and> rec_sequence r \<le> hi)"

lemma mem_ok_insert:
  "mem_ok lo hi mem \<Longrightarrow> valid_record r \<Longrightarrow> lo < rec_sequence r \<Longrightarrow> rec_sequence r \<le> hi \<Longrightarrow> mem_ok lo hi (bt_insert (rec_key r) r mem)"
  by (auto simp: mem_ok_def bt_sorted_insert bt_get_insert)

lemma mem_ok_mono: "mem_ok lo hi mem \<Longrightarrow> hi \<le> hi' \<Longrightarrow> mem_ok lo hi' mem"
  unfolding mem_ok_def by (meson order_trans)

lemma apply_mem_Cons: "apply_mem sq (c # cs) mb = apply_mem sq cs (apply_change sq c mb)"
  by (simp add: apply_mem_def)

lemma apply_mem_get:
  assumes "distinct (map mut_key cs)"
  shows "bt_get (fst (apply_mem sq cs mb)) k =
    (case map_of (map (\<lambda>c. (mut_key c, batch_record sq c)) cs) k of None \<Rightarrow> bt_get (fst mb) k | Some r \<Rightarrow> Some r)"
  using assms
proof (induction cs arbitrary: mb)
  case (Cons c cs)
  have "map_of (map (\<lambda>c. (mut_key c, batch_record sq c)) cs) (mut_key c) = None"
    using Cons.prems by (auto simp: map_of_eq_None_iff)
  then show ?case using Cons
    by (auto simp: apply_mem_Cons apply_change_def Let_def bt_get_insert batch_record_def split: option.split)
qed (simp add: apply_mem_def)

lemma apply_mem_ok:
  assumes "mem_ok lo hi (fst mb)" "lo < sq" "hi \<le> sq" "sq \<le> u64_max" "list_all (\<lambda>c. valid_cell (mut_key c) (mut_value c)) cs"
  shows "mem_ok lo sq (fst (apply_mem sq cs mb))"
proof -
  have "mem_ok lo sq (fst mb)" using assms(1,3) by (rule mem_ok_mono)
  then show ?thesis using assms(5)
  proof (induction cs arbitrary: mb)
    case (Cons c cs)
    have "mem_ok lo sq (fst (apply_change sq c mb))"
      using mem_ok_insert [OF Cons.prems(1), of "batch_record sq c"] Cons.prems(2) assms(2,4)
      by (simp add: apply_change_def Let_def valid_batch_record) (simp add: batch_record_def)
    with Cons show ?case by (simp add: apply_mem_Cons)
  qed (simp add: apply_mem_def)
qed

lemma mem_rows_get: "bt_sorted m \<Longrightarrow> snd ` set m = {r. \<exists>k. bt_get m k = Some r}"
proof -
  assume "bt_sorted m"
  then have "distinct (map fst m)" by (auto simp: bt_sorted_def strict_sorted_iff)
  then show ?thesis by (force simp: map_of_eq_Some_iff)
qed

section \<open>Replaying the log\<close>

lemma read_frame_append:
  assumes "read_frame digest magic bytes = Inr (Some (payload, used))"
  shows "read_frame digest magic (bytes @ later) = Inr (Some (payload, used))"
proof -
  let ?h = "take 44 bytes"
  let ?n = "le_value (take 4 (drop 8 ?h))"
  have long: "\<not> length bytes < 44" using assms by (auto simp: read_frame_def)
  have rest: "\<not> length (drop 44 bytes) < ?n + 32"
    using assms unfolding read_frame_def if_not_P [OF long] Let_def by (metis Inr_inject option.distinct(1) sum.distinct(1))
  have same: "take 44 (bytes @ later) = ?h" "drop 44 (bytes @ later) = drop 44 bytes @ later"
    "take (?n + 32) (drop 44 bytes @ later) = take (?n + 32) (drop 44 bytes)"
    using long rest by simp_all
  have long': "\<not> length (bytes @ later) < 44" "\<not> length (drop 44 bytes @ later) < ?n + 32" using long rest by auto
  show ?thesis
    using assms unfolding read_frame_def if_not_P [OF long] if_not_P [OF long'(1)] Let_def same if_not_P [OF rest] if_not_P [OF long'(2)] .
qed

lemma read_frame_Nil [simp]: "read_frame digest magic [] = Inr None"
  by (simp add: read_frame_def)

definition replay_step :: "digest_fun \<Rightarrow> byte list \<Rightarrow> nat \<Rightarrow> nat \<Rightarrow> mutation list \<Rightarrow> replayed \<Rightarrow> replayed" where
  "replay_step digest payload used idx changes rp =
     \<lparr>rp_applied = idx, rp_last_digest = digest payload, rp_mem = apply_mem idx changes (rp_mem rp), rp_wal_len = rp_wal_len rp + used\<rparr>"

lemma replay_wal_cases:
  assumes "replay_wal digest bytes rp = Inr rp'"
  obtains (stop) "read_frame digest WAL_MAGIC bytes = Inr None" "rp' = rp"
    | (frame) payload used fst_index idx changes where "read_frame digest WAL_MAGIC bytes = Inr (Some (payload, used))"
        "decode_batch payload = Inr (fst_index, idx, changes)" "checked_add (rp_applied rp) 1 = Some fst_index"
        "replay_wal digest (drop used bytes) (replay_step digest payload used idx changes rp) = Inr rp'"
proof -
  from assms obtain fr where fr: "read_frame digest WAL_MAGIC bytes = Inr fr"
    unfolding replay_wal.simps [of digest bytes rp] by (auto simp: rbind_Inr_iff)
  show thesis
  proof (cases fr)
    case None
    then show thesis using stop fr assms by (simp add: replay_wal.simps [of digest bytes rp])
  next
    case (Some pu)
    then obtain payload used where pu: "fr = Some (payload, used)" by (cases pu) auto
    with assms fr obtain f i cs where "decode_batch payload = Inr (f, i, cs)"
      unfolding replay_wal.simps [of digest bytes rp] by (auto simp: rbind_Inr_iff)
    then show thesis
      using frame [of payload used f i cs] assms fr pu
      by (auto simp: replay_wal.simps [of digest bytes rp] replay_step_def split: if_splits)
  qed
qed

lemma replay_wal_stop: "read_frame digest WAL_MAGIC bytes = Inr None \<Longrightarrow> replay_wal digest bytes rp = Inr rp"
  by (simp add: replay_wal.simps [of digest bytes rp])

lemma replay_wal_frame:
  assumes "read_frame digest WAL_MAGIC bytes = Inr (Some (payload, used))"
    "decode_batch payload = Inr (fst_index, idx, changes)" "checked_add (rp_applied rp) 1 = Some fst_index"
  shows "replay_wal digest bytes rp = replay_wal digest (drop used bytes) (replay_step digest payload used idx changes rp)"
  using assms by (simp add: replay_wal.simps [of digest bytes rp] replay_step_def)

lemma decoded_range:
  assumes "decode_batch payload = Inr (f, i, cs)" "checked_add a 1 = Some f"
  shows "a < i" "i \<le> u64_max" "list_all (\<lambda>c. valid_cell (mut_key c) (mut_value c)) cs" "distinct (map mut_key cs)"
proof -
  from assms(1) have "encode_batch f i cs = Inr payload" "i \<le> u64_max" by (auto simp: batch_iff)
  then have "validate_range f i = Inr ()" "is_ok (validate_changes cs)" "i \<le> u64_max"
    by (auto simp: encode_batch_def rbind_Inr_iff is_ok_iff)
  moreover have "f = Suc a" using assms(2) by (auto simp: checked_add_def split: if_splits)
  ultimately show "a < i" "i \<le> u64_max" "list_all (\<lambda>c. valid_cell (mut_key c) (mut_value c)) cs" "distinct (map mut_key cs)"
    by (auto simp: validate_range_iff validate_changes_iff is_ok_iff)
qed

text \<open>What replaying keeps; the position grows with every frame, so an unmoved position means an empty log.\<close>

lemma replay_wal_keeps:
  assumes "replay_wal digest bytes rp = Inr rp'" "mem_ok lo (rp_applied rp) (fst (rp_mem rp))" "lo \<le> rp_applied rp"
  shows "mem_ok lo (rp_applied rp') (fst (rp_mem rp')) \<and> rp_applied rp \<le> rp_applied rp' \<and>
    (rp_applied rp' = rp_applied rp \<longrightarrow> rp' = rp) \<and> rp_wal_len rp' \<le> rp_wal_len rp + length bytes"
  using assms
proof (induction "length bytes" arbitrary: bytes rp rule: less_induct)
  case less
  from less.prems(1) show ?case
  proof (cases rule: replay_wal_cases)
    case stop
    then show ?thesis using less.prems by simp
  next
    case (frame payload used f i cs)
    note r = decoded_range [OF frame(2,3)]
    let ?rp = "replay_step digest payload used i cs rp"
    have len: "0 < used" "used \<le> length bytes" using read_frame_consumes [OF frame(1)] by auto
    have rp: "rp_applied ?rp = i" "rp_mem ?rp = apply_mem i cs (rp_mem rp)" "rp_wal_len ?rp = rp_wal_len rp + used"
      by (simp_all add: replay_step_def)
    have "mem_ok lo (rp_applied ?rp) (fst (rp_mem ?rp))"
      unfolding rp using less.prems(2,3) r by (intro apply_mem_ok) auto
    moreover have "lo \<le> rp_applied ?rp" using r(1) less.prems(3) by (simp add: rp)
    moreover have "length (drop used bytes) < length bytes" using len by simp
    ultimately have "mem_ok lo (rp_applied rp') (fst (rp_mem rp')) \<and> i \<le> rp_applied rp' \<and> rp_wal_len rp' \<le> rp_wal_len ?rp + length (drop used bytes)"
      using less.hyps [of "drop used bytes" ?rp] frame(4) by (auto simp: rp(1))
    then show ?thesis using len r(1) by (auto simp: rp(3))
  qed
qed

text \<open>A log read to its end takes one more frame.\<close>

lemma replay_wal_append:
  assumes "replay_wal digest bytes rp = Inr rp'" "rp_wal_len rp' = rp_wal_len rp + length bytes"
  shows "replay_wal digest (bytes @ later) rp = replay_wal digest later rp'"
  using assms
proof (induction "length bytes" arbitrary: bytes rp rule: less_induct)
  case less
  from less.prems(1) show ?case
  proof (cases rule: replay_wal_cases)
    case stop
    then show ?thesis using less.prems(2) by simp
  next
    case (frame payload used f i cs)
    let ?rp = "replay_step digest payload used i cs rp"
    have len: "0 < used" "used \<le> length bytes" using read_frame_consumes [OF frame(1)] by auto
    have "replay_wal digest (bytes @ later) rp = replay_wal digest (drop used (bytes @ later)) ?rp"
      by (rule replay_wal_frame [OF read_frame_append [OF frame(1)] frame(2,3)])
    also have "\<dots> = replay_wal digest (drop used bytes @ later) ?rp" using len by simp
    also have "\<dots> = replay_wal digest later rp'"
    proof (rule less.hyps)
      show "length (drop used bytes) < length bytes" using len by simp
      show "replay_wal digest (drop used bytes) ?rp = Inr rp'" by (rule frame(4))
      show "rp_wal_len rp' = rp_wal_len ?rp + length (drop used bytes)" using len less.prems(2) by (simp add: replay_step_def)
    qed
    finally show ?thesis .
  qed
qed

lemma read_frame_used:
  assumes "read_frame digest magic bytes = Inr (Some (payload, used))"
  shows "read_frame digest magic (take used bytes) = Inr (Some (payload, used))"
proof -
  let ?h = "take 44 bytes"
  let ?n = "le_value (take 4 (drop 8 ?h))"
  have long: "\<not> length bytes < 44" using assms by (auto simp: read_frame_def)
  have rest: "\<not> length (drop 44 bytes) < ?n + 32" "used = ?n + 76"
    using assms unfolding read_frame_def if_not_P [OF long] Let_def by (auto split: if_splits)
  have same: "take 44 (take used bytes) = ?h" "take (?n + 32) (drop 44 (take used bytes)) = take (?n + 32) (drop 44 bytes)"
    using rest by (simp_all add: min_def drop_take)
  have long': "\<not> length (take used bytes) < 44" "\<not> length (drop 44 (take used bytes)) < ?n + 32" using long rest by auto
  show ?thesis
    using assms unfolding read_frame_def if_not_P [OF long] if_not_P [OF long'(1)] Let_def same if_not_P [OF rest(1)] if_not_P [OF long'(2)] .
qed

text \<open>Cutting the unreadable tail off changes nothing.\<close>

lemma replay_wal_truncated:
  assumes "replay_wal digest bytes rp = Inr rp'"
  shows "rp_wal_len rp \<le> rp_wal_len rp' \<and> replay_wal digest (take (rp_wal_len rp' - rp_wal_len rp) bytes) rp = Inr rp'"
  using assms
proof (induction "length bytes" arbitrary: bytes rp rule: less_induct)
  case less
  from less.prems show ?case
  proof (cases rule: replay_wal_cases)
    case stop
    then show ?thesis by (simp add: replay_wal_stop)
  next
    case (frame payload used f i cs)
    let ?rp = "replay_step digest payload used i cs rp" and ?n = "rp_wal_len rp' - rp_wal_len rp"
    have len: "0 < used" "used \<le> length bytes" using read_frame_consumes [OF frame(1)] by auto
    have rp: "rp_wal_len ?rp = rp_wal_len rp + used" by (simp add: replay_step_def)
    have "length (drop used bytes) < length bytes" using len by simp
    from less.hyps [OF this frame(4)] have ih: "rp_wal_len rp + used \<le> rp_wal_len rp'"
      "replay_wal digest (take (?n - used) (drop used bytes)) ?rp = Inr rp'" by (simp_all add: rp)
    have split: "take ?n bytes = take used bytes @ take (?n - used) (drop used bytes)"
      using ih(1) by (metis add_diff_inverse_nat diff_is_0_eq le_diff_conv2 add.commute not_less take_add add_leD1)
    have "read_frame digest WAL_MAGIC (take ?n bytes) = Inr (Some (payload, used))"
      unfolding split by (rule read_frame_append [OF read_frame_used [OF frame(1)]])
    from replay_wal_frame [where rp = rp, OF this frame(2,3)] have "replay_wal digest (take ?n bytes) rp = replay_wal digest (take (?n - used) (drop used bytes)) ?rp"
      using len unfolding split by simp
    then show ?thesis using ih by simp
  qed
qed

section \<open>Reading a directory\<close>

definition start_of :: "manifest \<Rightarrow> replayed" where
  "start_of m = \<lparr>rp_applied = mf_applied m, rp_last_digest = mf_last_digest m, rp_mem = ([], 0), rp_wal_len = 0\<rparr>"

lemma read_store_Inr:
  "read_store pf d = Inr (m, ts, rp) \<longleftrightarrow>
     select_manifest pf d = Inr m \<and> open_tables pf d (mf_tables m) = Inr ts \<and>
     (\<exists>wal. bt_get (fs_wal d) (mf_wal_id m) = Some wal \<and> length wal \<le> 64 * 1024 * 1024 \<and>
        replay_wal (pf_digest pf) wal (start_of m) = Inr rp)"
    (is "?read \<longleftrightarrow> ?parts")
proof
  assume ?read
  then show ?parts unfolding read_store_def start_of_def by (auto simp: rbind_Inr_iff split: option.splits if_splits)
next
  assume ?parts
  then obtain wal where "select_manifest pf d = Inr m" "open_tables pf d (mf_tables m) = Inr ts"
    "bt_get (fs_wal d) (mf_wal_id m) = Some wal" "\<not> length wal > 64 * 1024 * 1024" "replay_wal (pf_digest pf) wal (start_of m) = Inr rp"
    by (auto simp: not_less)
  then show ?read unfolding read_store_def start_of_def by simp
qed

lemma select_manifest_valid: "select_manifest pf d = Inr m \<Longrightarrow> mf_validate m = Inr () \<and> fs_current d \<noteq> None"
proof -
  assume m: "select_manifest pf d = Inr m"
  then obtain bytes fr where b: "fs_current d = Some bytes" "read_frame (pf_digest pf) MANIFEST_MAGIC bytes = Inr fr"
    by (auto simp: select_manifest_def rbind_Inr_iff split: option.splits if_splits)
  with m obtain payload used where "fr = Some (payload, used)" by (cases fr) (auto simp: select_manifest_def split: if_splits)
  with m b show ?thesis
    by (cases "pf_manifest_parse pf payload") (auto simp: select_manifest_def rbind_Inr_iff split: if_splits)
qed

lemma select_manifest_cong: "fs_current d' = fs_current d \<Longrightarrow> select_manifest pf d' = select_manifest pf d"
  by (simp add: select_manifest_def)

lemma open_tables_cong:
  "(\<And>t. t \<in> set metas \<Longrightarrow> bt_get (fs_sst d') (tm_id t) = bt_get (fs_sst d) (tm_id t)) \<Longrightarrow> open_tables pf d' metas = open_tables pf d metas"
proof (induction metas)
  case (Cons t ts)
  have "open_tables pf d' ts = open_tables pf d ts" "bt_get (fs_sst d') (tm_id t) = bt_get (fs_sst d) (tm_id t)" using Cons by auto
  then show ?case by (simp only: open_tables.simps)
qed simp

lemma read_store_cong:
  assumes "read_store pf d = Inr (m, ts, rp)" "fs_current d' = fs_current d"
    "\<And>t. t \<in> set (mf_tables m) \<Longrightarrow> bt_get (fs_sst d') (tm_id t) = bt_get (fs_sst d) (tm_id t)"
    "bt_get (fs_wal d') (mf_wal_id m) = bt_get (fs_wal d) (mf_wal_id m)"
  shows "read_store pf d' = Inr (m, ts, rp)"
  using assms open_tables_cong [of "mf_tables m" d' d pf] by (simp add: read_store_Inr select_manifest_cong [of d' d])

text \<open>The tables of a manifest, with the records they hold.\<close>

definition opens :: "platform \<Rightarrow> directory \<Rightarrow> table_meta \<Rightarrow> store_record list \<Rightarrow> bool" where
  "opens pf d meta rs \<longleftrightarrow> (\<exists>bytes t. bt_get (fs_sst d) (tm_id meta) = Some bytes \<and>
     table_open (pf_digest pf) (pf_footer_parse pf) bytes meta = Inr t \<and> table_holds (pf_digest pf) t rs)"

lemma open_tables_opens:
  "open_tables pf d metas = Inr ts \<Longrightarrow>
     \<exists>rss. list_all2 (opens pf d) metas rss \<and> list_all2 (table_holds (pf_digest pf)) ts rss \<and> map tb_meta ts = metas"
proof (induction metas arbitrary: ts)
  case (Cons meta metas)
  then obtain bytes t us where t: "bt_get (fs_sst d) (tm_id meta) = Some bytes" "table_open (pf_digest pf) (pf_footer_parse pf) bytes meta = Inr t"
    "open_tables pf d metas = Inr us" "ts = t # us" by (auto simp: rbind_Inr_iff split: option.splits)
  obtain rs where rs: "table_holds (pf_digest pf) t rs" using table_open_sound(1) [OF t(2)] by blast
  obtain rss where "list_all2 (opens pf d) metas rss" "list_all2 (table_holds (pf_digest pf)) us rss" "map tb_meta us = metas"
    using Cons.IH [OF t(3)] by blast
  moreover have "opens pf d meta rs" using t(1,2) rs by (auto simp: opens_def)
  ultimately show ?case using t(4) rs table_open_sound(2) [OF t(2)] by (intro exI [of _ "rs # rss"]) simp
qed simp

lemma opens_open_tables:
  "list_all2 (opens pf d) metas rss \<Longrightarrow>
     \<exists>ts. open_tables pf d metas = Inr ts \<and> list_all2 (table_holds (pf_digest pf)) ts rss \<and> map tb_meta ts = metas"
proof (induction rule: list_all2_induct)
  case (Cons meta metas rs rss)
  then obtain ts where ts: "open_tables pf d metas = Inr ts" "list_all2 (table_holds (pf_digest pf)) ts rss" "map tb_meta ts = metas" by blast
  from Cons(1) obtain bytes t where t: "bt_get (fs_sst d) (tm_id meta) = Some bytes"
    "table_open (pf_digest pf) (pf_footer_parse pf) bytes meta = Inr t" "table_holds (pf_digest pf) t rs" by (auto simp: opens_def)
  then show ?case using ts table_open_sound(2) [OF t(2)] by auto
qed simp

section \<open>The shape of what was read\<close>

definition shaped :: "platform \<Rightarrow> store_image \<Rightarrow> bool" where
  "shaped pf x \<longleftrightarrow> (case x of (m, ts, rp) \<Rightarrow>
     mf_validate m = Inr () \<and> map tb_meta ts = mf_tables m \<and> (\<exists>rss. list_all2 (table_holds (pf_digest pf)) ts rss) \<and>
     mem_ok (mf_applied m) (rp_applied rp) (fst (rp_mem rp)) \<and> mf_applied m \<le> rp_applied rp \<and>
     (rp_applied rp = mf_applied m \<longrightarrow> rp = start_of m))"

lemma read_store_shaped:
  assumes "read_store pf d = Inr x"
  shows "shaped pf x"
proof -
  obtain m ts rp where x: "x = (m, ts, rp)" by (cases x) auto
  from assms obtain wal where r: "select_manifest pf d = Inr m" "open_tables pf d (mf_tables m) = Inr ts"
    "replay_wal (pf_digest pf) wal (start_of m) = Inr rp" unfolding x read_store_Inr by blast
  have "mem_ok (mf_applied m) (rp_applied (start_of m)) (fst (rp_mem (start_of m)))" by (simp add: start_of_def mem_ok_def bt_sorted_def)
  from replay_wal_keeps [OF r(3) this] have k: "mem_ok (mf_applied m) (rp_applied rp) (fst (rp_mem rp))" "mf_applied m \<le> rp_applied rp"
    "rp_applied rp = mf_applied m \<longrightarrow> rp = start_of m" by (simp_all add: start_of_def)
  then show ?thesis
    using select_manifest_valid [OF r(1)] open_tables_opens [OF r(2)] unfolding x shaped_def prod.case by blast
qed

lemma check_ids_iff:
  "check_ids n a ids ts = Inr () \<longleftrightarrow>
     distinct (map tm_id ts) \<and> (\<forall>t \<in> set ts. tm_id t \<notin> ids \<and> tm_id t < n \<and> tm_max_sequence t \<le> a \<and> tm_level t \<le> 2)"
  by (induction ts arbitrary: ids) (auto simp: image_iff)

lemma mf_validate_iff:
  "mf_validate m = Inr () \<longleftrightarrow> mf_version m = 1 \<and> mf_wal_id m \<noteq> 0 \<and> mf_wal_id m < mf_next_id m \<and> length (mf_tables m) \<le> MAX_TABLES \<and>
     distinct (map tm_id (mf_tables m)) \<and> (\<forall>t \<in> set (mf_tables m). tm_id t \<noteq> mf_wal_id m \<and> tm_id t < mf_next_id m \<and>
       tm_max_sequence t \<le> mf_applied m \<and> tm_level t \<le> 2) \<and> level_disjoint (mf_tables m) 1 \<and> level_disjoint (mf_tables m) 2"
  unfolding mf_validate_def by (auto simp: rbind_Inr_iff check_ids_iff)

text \<open>Records in tables are valid, and no newer than the manifest; so records in the memtable are newer than they are.\<close>

lemma table_rows_bounds:
  assumes "shaped pf (m, ts, rp)" "r \<in> table_rows (pf_digest pf) ts"
  shows "valid_record r \<and> rec_sequence r \<le> mf_applied m"
proof -
  from assms(1) obtain rss where sh: "mf_validate m = Inr ()" "map tb_meta ts = mf_tables m" "list_all2 (table_holds (pf_digest pf)) ts rss"
    by (auto simp: shaped_def)
  from assms(2) obtain t where t: "t \<in> set ts" "Inr r \<in> set (table_iter (pf_digest pf) t)" by (auto simp: table_rows_def)
  then obtain rs where rs: "table_holds (pf_digest pf) t rs" using sh(3) by (metis list_all2_conv_all_nth in_set_conv_nth)
  then have r: "r \<in> set rs" using t(2) table_holds_rows by fastforce
  have "tm_max_sequence (tb_meta t) \<le> mf_applied m" using sh(1,2) t(1) by (metis (no_types, lifting) imageI list.set_map mf_validate_iff)
  moreover have "valid_record r" "rec_sequence r \<le> tm_max_sequence (tb_meta t)" using rs r by (auto simp: table_holds_def list_all_iff)
  ultimately show ?thesis by simp
qed

end
