(* ===== verification/Lsm_Steps.thy ===== *)
theory Lsm_Steps
  imports Lsm_Disk
begin

text \<open>
  The steps that change the directory, each followed through all the points where it may be interrupted: writing
  tables, publishing a manifest, reclaiming files.
\<close>

section \<open>Outcomes\<close>

definition outcome :: "'a stored \<times> lsm \<Rightarrow> ('a \<Rightarrow> lsm \<Rightarrow> bool) \<Rightarrow> (lsm \<Rightarrow> bool) \<Rightarrow> bool" where
  "outcome r Q E = (case r of (Inr x, s) \<Rightarrow> Q x s | (Inl e, s) \<Rightarrow> E s)"

named_theorems wp \<open>weakest preconditions\<close>

lemma outcome_bind [wp]: "outcome (op_bind f g s) Q E \<longleftrightarrow> outcome (f s) (\<lambda>x s'. outcome (g x s') Q E) E"
  and outcome_ok [wp]: "outcome (op_ok x s) Q' E \<longleftrightarrow> Q' x s"
  and outcome_fail [wp]: "outcome (op_fail e s) Q E \<longleftrightarrow> E s"
  and outcome_lift [wp]: "outcome (op_lift r s) Q' E \<longleftrightarrow> (case r of Inl e \<Rightarrow> E s | Inr x \<Rightarrow> Q' x s)"
  and outcome_change [wp]: "outcome (op_change h s) Q'' E \<longleftrightarrow> Q'' () (h s)"
  and outcome_dir [wp]: "outcome (op_dir k s) Q'' E \<longleftrightarrow> Q'' () (s\<lparr>ls_dir := k (ls_dir s)\<rparr>)"
  and outcome_hit [wp]: "outcome (hit p s) Q'' E \<longleftrightarrow> (if ls_fault s = Some p then E (s\<lparr>ls_fault := None\<rparr>) else Q'' () s)"
  and outcome_healthy [wp]: "outcome (healthy s) Q'' E \<longleftrightarrow> (if ls_poisoned s then E s else Q'' () s)"
  by (simp_all add: outcome_def op_bind_def op_ok_def op_fail_def op_lift_def op_change_def op_dir_def hit_def healthy_def
      split: prod.split sum.split)

lemma outcome_if [wp]: "outcome (if c then r else r') Q E \<longleftrightarrow> (if c then outcome r Q E else outcome r' Q E)"
  by simp

lemma outcome_guard: "outcome (mutation_guard f s) Q E \<longleftrightarrow>
    (if ls_poisoned s then E s else outcome (f s) Q (\<lambda>s'. E (s'\<lparr>ls_poisoned := True\<rparr>)))"
  by (simp add: outcome_def mutation_guard_def op_bind_def healthy_def split: prod.split sum.split)

lemma outcome_mono:
  "outcome r Q E \<Longrightarrow> (\<And>x s'. Q x s' \<Longrightarrow> Q' x s') \<Longrightarrow> (\<And>s'. E s' \<Longrightarrow> E' s') \<Longrightarrow> outcome r Q' E'"
  by (auto simp: outcome_def split: prod.splits sum.splits)

lemma outcome_Inr: "outcome (Inr x, s) Q E \<longleftrightarrow> Q x s" and outcome_Inl: "outcome (Inl e, s) Q E \<longleftrightarrow> E s"
  by (simp_all add: outcome_def)

section \<open>What directories share\<close>

text \<open>\<open>extends\<close>: files were only added.  \<open>spares\<close>: nothing a manifest names was touched.\<close>

definition extends :: "directory \<Rightarrow> directory \<Rightarrow> bool" where
  "extends d d' \<longleftrightarrow> fs_engine d' = fs_engine d \<and> fs_engine_new d' = fs_engine_new d \<and> fs_current d' = fs_current d \<and>
     (\<forall>i b. bt_get (fs_sst d) i = Some b \<longrightarrow> bt_get (fs_sst d') i = Some b) \<and>
     (\<forall>i b. bt_get (fs_wal d) i = Some b \<longrightarrow> bt_get (fs_wal d') i = Some b)"

definition spares :: "manifest \<Rightarrow> directory \<Rightarrow> directory \<Rightarrow> bool" where
  "spares m d d' \<longleftrightarrow> fs_engine d' = fs_engine d \<and> fs_engine_new d' = fs_engine_new d \<and> fs_current d' = fs_current d \<and>
     (\<forall>t \<in> set (mf_tables m). bt_get (fs_sst d') (tm_id t) = bt_get (fs_sst d) (tm_id t)) \<and>
     bt_get (fs_wal d') (mf_wal_id m) = bt_get (fs_wal d) (mf_wal_id m)"

definition beside :: "lsm \<Rightarrow> lsm \<Rightarrow> bool" where
  "beside s s' \<longleftrightarrow> s' = s\<lparr>ls_dir := ls_dir s', ls_fault := ls_fault s'\<rparr>"

lemma extends_refl [simp]: "extends d d" and extends_trans: "extends d d' \<Longrightarrow> extends d' d'' \<Longrightarrow> extends d d''"
  by (auto simp: extends_def)

lemma spares_refl [simp]: "spares m d d" and spares_trans: "spares m d d' \<Longrightarrow> spares m d' d'' \<Longrightarrow> spares m d d''"
  by (auto simp: spares_def)

lemma beside_refl [simp]: "beside s s" by (simp add: beside_def)

lemma beside_fields:
  assumes "beside s s'"
  shows "ls_options s' = ls_options s" "ls_manifest s' = ls_manifest s" "ls_tables s' = ls_tables s" "ls_wal_len s' = ls_wal_len s"
    "ls_mem s' = ls_mem s" "ls_mem_bytes s' = ls_mem_bytes s" "ls_applied s' = ls_applied s" "ls_last_digest s' = ls_last_digest s"
    "ls_poisoned s' = ls_poisoned s"
  using assms unfolding beside_def by (metis lsm.select_convs lsm.surjective lsm.update_convs(1) lsm.update_convs(11))+

lemma beside_trans: "beside s s' \<Longrightarrow> beside s' s'' \<Longrightarrow> beside s s''"
  by (rule lsm.equality [of s'' "s\<lparr>ls_dir := ls_dir s'', ls_fault := ls_fault s''\<rparr>", folded beside_def]) (simp_all add: beside_fields)

lemma beside_updates [simp]: "beside s (s'\<lparr>ls_dir := d\<rparr>) \<longleftrightarrow> beside s s'" "beside s (s'\<lparr>ls_fault := f\<rparr>) \<longleftrightarrow> beside s s'"
proof -
  have "s'\<lparr>ls_dir := d\<rparr> = s\<lparr>ls_dir := d, ls_fault := ls_fault s'\<rparr>" if "beside s s'" for s s' :: lsm and d
    by (rule lsm.equality) (simp_all add: beside_fields [OF that])
  moreover have "s'\<lparr>ls_fault := f\<rparr> = s\<lparr>ls_dir := ls_dir s', ls_fault := f\<rparr>" if "beside s s'" for s s' :: lsm and f
    by (rule lsm.equality) (simp_all add: beside_fields [OF that])
  ultimately have up: "beside s s' \<Longrightarrow> beside s (s'\<lparr>ls_dir := d\<rparr>)" "beside s s' \<Longrightarrow> beside s (s'\<lparr>ls_fault := f\<rparr>)" for s s' d f
    unfolding beside_def [of _ "_\<lparr>ls_dir := _\<rparr>"] beside_def [of _ "_\<lparr>ls_fault := _\<rparr>"] by simp_all
  show "beside s (s'\<lparr>ls_dir := d\<rparr>) \<longleftrightarrow> beside s s'"
    using up(1) [of s s' d] up(1) [of s "s'\<lparr>ls_dir := d\<rparr>" "ls_dir s'"] by auto
  show "beside s (s'\<lparr>ls_fault := f\<rparr>) \<longleftrightarrow> beside s s'"
    using up(2) [of s s' f] up(2) [of s "s'\<lparr>ls_fault := f\<rparr>" "ls_fault s'"] by auto
qed

lemma opens_tables_present: "open_tables pf d metas = Inr ts \<Longrightarrow> t \<in> set metas \<Longrightarrow> \<exists>b. bt_get (fs_sst d) (tm_id t) = Some b"
  by (induction metas arbitrary: ts) (auto simp: rbind_Inr_iff split: option.splits)

lemma extends_spares:
  assumes "read_store pf d = Inr (m, ts, rp)" "extends d d'"
  shows "spares m d d'"
  using assms opens_tables_present unfolding read_store_Inr extends_def spares_def by metis

lemma spares_read: "read_store pf d = Inr (m, ts, rp) \<Longrightarrow> spares m d d' \<Longrightarrow> read_store pf d' = Inr (m, ts, rp)"
  by (rule read_store_cong) (auto simp: spares_def)

lemma extends_opens: "opens pf d meta rs \<Longrightarrow> extends d d' \<Longrightarrow> opens pf d' meta rs"
  by (auto simp: opens_def extends_def)

lemma extends_opens_all: "list_all2 (opens pf d) metas rss \<Longrightarrow> extends d d' \<Longrightarrow> list_all2 (opens pf d') metas rss"
  by (auto elim: list_all2_mono intro: extends_opens)

section \<open>Writing tables\<close>

lemma extends_new_sst: "\<not> bt_contains i (fs_sst d) \<Longrightarrow> extends d (d\<lparr>fs_sst := bt_insert i b (fs_sst d)\<rparr>)"
  and extends_new_wal: "\<not> bt_contains i (fs_wal d) \<Longrightarrow> extends d (d\<lparr>fs_wal := bt_insert i b (fs_wal d)\<rparr>)"
  by (auto simp: extends_def bt_get_insert bt_contains_def)

lemma create_table_outcome:
  assumes pf: "platform_ok pf" and valid: "list_all valid_record records" and m: "mf_next_id m \<noteq> 0" "level \<le> 2"
  shows "outcome (create_table pf level records m s)
    (\<lambda>(meta, m') s'. beside s s' \<and> extends (ls_dir s) (ls_dir s') \<and> opens pf (ls_dir s') meta records \<and> tm_id meta = mf_next_id m \<and>
       tm_level meta = level \<and> m' = m\<lparr>mf_next_id := Suc (mf_next_id m)\<rparr>)
    (\<lambda>s'. extends (ls_dir s) (ls_dir s'))"
proof (cases "mf_allocate m")
  case (Inl e)
  then show ?thesis by (simp add: create_table_def wp)
next
  case (Inr a)
  then have a: "a = (mf_next_id m, m\<lparr>mf_next_id := Suc (mf_next_id m)\<rparr>)"
    by (auto simp: mf_allocate_def checked_add_def split: option.splits if_splits)
  let ?w = "write_table (pf_digest pf) (pf_footer_json pf) (mf_next_id m) level records"
  show ?thesis
  proof (cases ?w)
    case (Inl e)
    then show ?thesis by (simp add: create_table_def Inr a wp extends_new_sst)
  next
    case w: (Inr mb)
    then obtain meta bytes where mb: "?w = Inr (meta, bytes)" by (cases mb) auto
    have "\<exists>t. table_open (pf_digest pf) (pf_footer_parse pf) bytes meta = Inr t \<and> table_holds (pf_digest pf) t records"
      using written_table_opens [OF mb, of "pf_footer_parse pf"] pf valid m by (auto simp: platform_ok_def)
    moreover have meta: "tm_id meta = mf_next_id m" "tm_level meta = level" by (rule write_table_Inr [OF mb]; simp)+
    ultimately have "opens pf (d\<lparr>fs_sst := bt_insert (mf_next_id m) bytes (fs_sst d)\<rparr>) meta records" for d
      by (auto simp: opens_def bt_get_insert)
    moreover have "\<not> table_rejected records" using mb by (auto simp: write_table_def)
    ultimately show ?thesis using meta
      by (simp add: create_table_def Inr a mb wp extends_new_sst)
  qed
qed

text \<open>The batches cut from the rows are the contents of the tables, one after the other.\<close>

definition created :: "platform \<Rightarrow> lsm \<Rightarrow> nat \<Rightarrow> store_record list \<Rightarrow> table_meta list \<Rightarrow> manifest \<Rightarrow> table_meta list \<times> manifest \<Rightarrow> lsm \<Rightarrow> bool" where
  "created pf s level rows result m out s' \<longleftrightarrow> (case out of (res, m') \<Rightarrow>
     beside s s' \<and> extends (ls_dir s) (ls_dir s') \<and> m' = m\<lparr>mf_next_id := mf_next_id m'\<rparr> \<and> mf_next_id m \<le> mf_next_id m' \<and>
     (\<exists>added rss. res = result @ added \<and> concat rss = rows \<and> list_all2 (opens pf (ls_dir s')) added rss \<and> (\<forall>t \<in> set added. tm_level t = level)))"

lemma created_step:
  assumes "created pf s1 level rows (result @ [meta]) m1 out s2" "beside s s1" "extends (ls_dir s) (ls_dir s1)"
    "opens pf (ls_dir s1) meta batch" "tm_level meta = level" "m1 = m\<lparr>mf_next_id := n\<rparr>" "mf_next_id m \<le> n"
  shows "created pf s level (batch @ rows) result m out s2"
proof -
  obtain res m' where out: "out = (res, m')" by (cases out)
  from assms(1) obtain added rss where a: "beside s1 s2" "extends (ls_dir s1) (ls_dir s2)" "m' = m1\<lparr>mf_next_id := mf_next_id m'\<rparr>"
    "mf_next_id m1 \<le> mf_next_id m'" "res = (result @ [meta]) @ added" "concat rss = rows" "list_all2 (opens pf (ls_dir s2)) added rss"
    "\<forall>t \<in> set added. tm_level t = level" by (auto simp: created_def out)
  have "m' = m\<lparr>mf_next_id := mf_next_id m'\<rparr>" using a(3) assms(6) by (metis manifest.surjective manifest.update_convs(4))
  moreover have "list_all2 (opens pf (ls_dir s2)) (meta # added) (batch # rss)"
    using a(7) extends_opens [OF assms(4) a(2)] by simp
  moreover have "mf_next_id m \<le> mf_next_id m'" using a(4) assms(6,7) by simp
  ultimately show ?thesis
    unfolding created_def out prod.case using a beside_trans [OF assms(2) a(1)] extends_trans [OF assms(3) a(2)] assms(5)
    by (intro conjI exI [of _ "meta # added"] exI [of _ "batch # rss"]) auto
qed

lemma create_tables_outcome:
  assumes pf: "platform_ok pf" and level: "level \<le> 2" and valid: "list_all valid_record (batch @ rows)" and m: "mf_next_id m \<noteq> 0"
  shows "outcome (create_tables pf level (map Inr rows) batch sz result m s) (created pf s level (batch @ rows) result m) (\<lambda>s'. extends (ls_dir s) (ls_dir s'))"
  using valid m
proof (induction rows arbitrary: batch sz result m s)
  case Nil
  have ct: "outcome (create_table pf level batch m s)
    (\<lambda>x s'. outcome ((case x of (meta, m) \<Rightarrow> op_ok (result @ [meta], m)) s') (created pf s level batch result m) (\<lambda>s'. extends (ls_dir s) (ls_dir s')))
    (\<lambda>s'. extends (ls_dir s) (ls_dir s'))" if "batch \<noteq> []"
    by (rule outcome_mono [OF create_table_outcome [OF pf _ Nil.prems(2) level]])
      (use Nil.prems(1) in \<open>auto simp: wp created_def intro!: exI [of _ "[_]"]\<close>)
  show ?case
  proof (cases "batch = []")
    case True
    then show ?thesis by (simp add: wp created_def)
  next
    case False
    with ct show ?thesis by (simp add: wp)
  qed
next
  case (Cons r rows)
  let ?Q = "created pf s level (batch @ r # rows) result m" and ?E = "\<lambda>s'. extends (ls_dir s) (ls_dir s')"
  have next_rows: "outcome (create_tables pf level (map Inr rows) (batch' @ [r]) sz' res m1 s1) (created pf s1 level (batch' @ r # rows) res m1) (\<lambda>s'. extends (ls_dir s1) (ls_dir s'))"
    if "list_all valid_record batch'" "mf_next_id m1 \<noteq> 0" for batch' sz' res m1 s1
    using Cons.IH [of "batch' @ [r]" m1 sz' res s1] Cons.prems(1) that by simp
  show ?case
  proof (cases "batch \<noteq> [] \<and> (sz + record_size r > op_target_table_bytes (ls_options s) \<or> length batch = MAX_BATCH_RECORDS)")
    case False
    have "outcome (create_tables pf level (map Inr rows) (batch @ [r]) (sz + record_size r) result m s) ?Q ?E"
      using next_rows [of batch m] Cons.prems by simp
    then show ?thesis unfolding list.map create_tables.simps if_not_P [OF False] using Cons.prems by (simp add: wp)
  next
    case True
    have "outcome (create_table pf level batch m s)
      (\<lambda>x s1. outcome ((case x of (meta, m) \<Rightarrow> op_ok ([], 0, result @ [meta], m)) s1) (\<lambda>x s1.
         outcome ((case x of (batch, sz, result, m) \<Rightarrow>
            if length result \<ge> MAX_TABLES then op_fail (InvalidData ''table count capacity exceeded'')
            else create_tables pf level (map Inr rows) (batch @ [r]) (sz + record_size r) result m) s1) ?Q ?E) ?E) ?E"
    proof (rule outcome_mono [OF create_table_outcome [OF pf _ Cons.prems(2) level]])
      show "list_all valid_record batch" using Cons.prems(1) by simp
    next
      fix x s1
      assume "(case x of (meta, m') \<Rightarrow> \<lambda>s'. beside s s' \<and> extends (ls_dir s) (ls_dir s') \<and> opens pf (ls_dir s') meta batch \<and>
         tm_id meta = mf_next_id m \<and> tm_level meta = level \<and> m' = m\<lparr>mf_next_id := Suc (mf_next_id m)\<rparr>) s1"
      then obtain meta where x: "x = (meta, m\<lparr>mf_next_id := Suc (mf_next_id m)\<rparr>)" "beside s s1" "extends (ls_dir s) (ls_dir s1)"
        "opens pf (ls_dir s1) meta batch" "tm_level meta = level" by (cases x) auto
      let ?m = "m\<lparr>mf_next_id := Suc (mf_next_id m)\<rparr>"
      have "outcome (create_tables pf level (map Inr rows) [r] (record_size r) (result @ [meta]) ?m s1) ?Q ?E"
        by (rule outcome_mono [OF next_rows [of "[]" ?m, simplified]])
          (use x created_step [where ?s1.0 = s1 and result = result and meta = meta and ?m1.0 = ?m and m = m and batch = batch and s = s] extends_trans in \<open>auto simp del: append_assoc\<close>)
      then show "outcome ((case x of (meta, m) \<Rightarrow> op_ok ([], 0, result @ [meta], m)) s1) (\<lambda>x s1.
         outcome ((case x of (batch, sz, result, m) \<Rightarrow>
            if length result \<ge> MAX_TABLES then op_fail (InvalidData ''table count capacity exceeded'')
            else create_tables pf level (map Inr rows) (batch @ [r]) (sz + record_size r) result m) s1) ?Q ?E) ?E"
        using x(1,3) by (simp add: wp)
    next
      fix s1 assume "extends (ls_dir s) (ls_dir s1)"
      then show "extends (ls_dir s) (ls_dir s1)" .
    qed
    then show ?thesis using True by (simp add: wp)
  qed
qed

section \<open>Reclaiming\<close>

definition unnamed :: "manifest \<Rightarrow> file_name \<Rightarrow> bool" where
  "unnamed m f = (case f of CurrentNew \<Rightarrow> True | Sst i \<Rightarrow> i \<notin> tm_id ` set (mf_tables m) | Wal i \<Rightarrow> i \<noteq> mf_wal_id m)"

lemma remove_file_spares: "unnamed m f \<Longrightarrow> spares m d (remove_file f d)"
  by (cases f) (auto simp: unnamed_def spares_def bt_get_remove)

lemma remove_files_outcome:
  "\<forall>f \<in> set fs. unnamed m f \<Longrightarrow> outcome (remove_files fs s) (\<lambda>_ s'. beside s s' \<and> spares m (ls_dir s) (ls_dir s')) (\<lambda>s'. spares m (ls_dir s) (ls_dir s'))"
proof (induction fs arbitrary: s)
  case Nil
  then show ?case by (simp add: wp)
next
  case (Cons f fs)
  let ?s = "s\<lparr>ls_dir := remove_file f (ls_dir s)\<rparr>"
  have "spares m (ls_dir s) (remove_file f (ls_dir s))" using Cons.prems by (simp add: remove_file_spares)
  moreover have "outcome (remove_files fs ?s) (\<lambda>_ s'. beside s s' \<and> spares m (ls_dir s) (ls_dir s')) (\<lambda>s'. spares m (ls_dir s) (ls_dir s'))"
    by (rule outcome_mono [OF Cons.IH [of ?s]])
      (use Cons.prems calculation in \<open>auto intro: spares_trans beside_trans [of s ?s]\<close>)
  ultimately show ?case by (simp add: wp)
qed

lemma reclaim_outcome:
  "outcome (reclaim s) (\<lambda>_ s'. beside s s' \<and> spares (ls_manifest s) (ls_dir s) (ls_dir s')) (\<lambda>s'. spares (ls_manifest s) (ls_dir s) (ls_dir s'))"
proof -
  let ?fs = "obsolete (ls_manifest s) (ls_dir s)"
  have "\<forall>f \<in> set ?fs. unnamed (ls_manifest s) f" by (auto simp: obsolete_def unnamed_def)
  from remove_files_outcome [OF this, of s] show ?thesis
    unfolding reclaim_def Let_def outcome_bind by (rule outcome_mono) (auto simp: wp)
qed

section \<open>Publishing a manifest\<close>

definition marked :: "directory \<Rightarrow> bool" where
  "marked d \<longleftrightarrow> fs_engine d = Some engine_identity \<and> fs_engine_new d = None"

text \<open>What a publication of manifest \<open>m\<close>, whose tables hold \<open>rss\<close>, makes of the directory.\<close>

definition published :: "platform \<Rightarrow> lsm \<Rightarrow> manifest \<Rightarrow> store_record list list \<Rightarrow> store_image \<Rightarrow> bool" where
  "published pf s m rss x \<longleftrightarrow> (case x of (m', ts, rp) \<Rightarrow>
     rp = start_of m' \<and> mf_validate m' = Inr () \<and> mf_tables m' = mf_tables m \<and> mf_applied m' = ls_applied s \<and>
     mf_last_digest m' = ls_last_digest s \<and> list_all2 (table_holds (pf_digest pf)) ts rss \<and> map tb_meta ts = mf_tables m)"

definition handle_image :: "lsm \<Rightarrow> store_image" where
  "handle_image s = (ls_manifest s, ls_tables s,
     \<lparr>rp_applied = ls_applied s, rp_last_digest = ls_last_digest s, rp_mem = (ls_mem s, ls_mem_bytes s), rp_wal_len = ls_wal_len s\<rparr>)"

text \<open>The handle holds what opening its directory would give.\<close>

definition follows :: "platform \<Rightarrow> lsm \<Rightarrow> bool" where
  "follows pf s \<longleftrightarrow> marked (ls_dir s) \<and> read_store pf (ls_dir s) = Inr (handle_image s) \<and>
     (\<exists>wal. bt_get (fs_wal (ls_dir s)) (mf_wal_id (ls_manifest s)) = Some wal \<and> length wal = ls_wal_len s)"

definition kept :: "platform \<Rightarrow> (store_image \<Rightarrow> bool) \<Rightarrow> directory \<Rightarrow> bool" where
  "kept pf X d \<longleftrightarrow> marked d \<and> (\<exists>x. read_store pf d = Inr x \<and> X x)"

lemma extends_kept: "kept pf X d \<Longrightarrow> extends d d' \<Longrightarrow> kept pf X d'"
proof -
  assume k: "kept pf X d" and ext: "extends d d'"
  then obtain m ts rp where r: "read_store pf d = Inr (m, ts, rp)" "X (m, ts, rp)" "marked d" by (auto simp: kept_def)
  then have "read_store pf d' = Inr (m, ts, rp)" using spares_read extends_spares [OF _ ext] by blast
  moreover have "marked d'" using r(3) ext by (simp add: marked_def extends_def)
  ultimately show ?thesis using r(2) by (auto simp: kept_def)
qed

lemma extends_current_new [simp]: "extends d (d'\<lparr>fs_current_new := c\<rparr>) \<longleftrightarrow> extends d d'"
  by (auto simp: extends_def)

lemma WAL_magic_length [simp]: "length WAL_MAGIC = 8" "length MANIFEST_MAGIC = 8"
  by (simp_all add: WAL_MAGIC_def MANIFEST_MAGIC_def)

lemma select_written:
  assumes pf: "platform_ok pf" and f: "frame (pf_digest pf) MANIFEST_MAGIC (pf_manifest_json pf m) = Inr bytes"
    and len: "length bytes \<le> MAX_MANIFEST_BYTES" and v: "mf_validate m = Inr ()" and c: "fs_current d = Some bytes"
  shows "select_manifest pf d = Inr m"
proof -
  have "read_frame (pf_digest pf) MANIFEST_MAGIC bytes = Inr (Some (pf_manifest_json pf m, length bytes))"
    using read_frame_complete [OF f, of "[]"] pf by (simp add: platform_ok_def)
  then show ?thesis using pf len v c by (simp add: select_manifest_def platform_ok_def)
qed

lemma publish_outcome:
  assumes pf: "platform_ok pf" and old: "kept pf X (ls_dir s)" and tables: "list_all2 (opens pf (ls_dir s)) (mf_tables m) rss"
  shows "outcome (publish pf m s)
    (\<lambda>_ s'. follows pf s' \<and> published pf s m rss (handle_image s') \<and> ls_options s' = ls_options s \<and> ls_poisoned s' = ls_poisoned s)
    (\<lambda>s'. kept pf (\<lambda>x. X x \<or> published pf s m rss x) (ls_dir s'))"
proof (cases "mf_allocate m")
  case (Inl e)
  then show ?thesis using old by (auto simp: publish_def wp kept_def)
next
  case (Inr a)
  obtain wal m1 where a: "a = (wal, m1)" "mf_tables m1 = mf_tables m"
    using Inr by (auto simp: mf_allocate_def split: option.splits)
  let ?m = "m1\<lparr>mf_wal_id := wal, mf_applied := ls_applied s, mf_last_digest := ls_last_digest s\<rparr>"
  let ?E = "\<lambda>s'. kept pf (\<lambda>x. X x \<or> published pf s m rss x) (ls_dir s')"
  let ?d = "(ls_dir s)\<lparr>fs_wal := bt_insert wal [] (fs_wal (ls_dir s))\<rparr>"
  have old': "kept pf (\<lambda>x. X x \<or> published pf s m rss x) d" if "extends (ls_dir s) d" for d
    using extends_kept [OF old that] by (auto simp: kept_def)
  show ?thesis
  proof (cases "mf_validate ?m = Inr () \<and> \<not> bt_contains wal (fs_wal (ls_dir s))")
    case False
    then show ?thesis using old' [of "ls_dir s"] by (auto simp: publish_def Inr a wp Let_def split: sum.split)
  next
    case True
    then have ext: "extends (ls_dir s) ?d" by (simp add: extends_new_wal)
    obtain ts where ts: "open_tables pf ?d (mf_tables m) = Inr ts" "list_all2 (table_holds (pf_digest pf)) ts rss" "map tb_meta ts = mf_tables m"
      using opens_open_tables [OF extends_opens_all [OF tables ext]] by blast
    show ?thesis
    proof (cases "frame (pf_digest pf) MANIFEST_MAGIC (pf_manifest_json pf ?m)")
      case (Inl e)
      then show ?thesis using True old' [OF ext] ts(1) by (simp add: publish_def \<open>mf_allocate m = Inr a\<close> a wp Let_def)
    next
      case f: (Inr bytes)
      show ?thesis
      proof (cases "length bytes \<le> MAX_MANIFEST_BYTES")
        case False
        then show ?thesis using True f old' [OF ext] ts(1) by (simp add: publish_def Inr a wp Let_def)
      next
        case small: True
        let ?d2 = "?d\<lparr>fs_current := Some bytes, fs_current_new := None\<rparr>"
        let ?s = "s\<lparr>ls_dir := ?d2, ls_wal_len := 0, ls_manifest := ?m, ls_tables := ts, ls_mem := [], ls_mem_bytes := 0\<rparr>"
        have tables2: "open_tables pf ?d2 (mf_tables m) = Inr ts" using ts(1) open_tables_cong [of "mf_tables m" ?d2 ?d pf] by simp
        have read: "read_store pf ?d2 = Inr (?m, ts, start_of ?m)"
          unfolding read_store_Inr using select_written [OF pf f small, of ?d2] True tables2 a(2)
          by (simp add: bt_get_insert replay_wal_stop)
        have pub: "published pf s m rss (?m, ts, start_of ?m)" using True ts a(2) by (simp add: published_def)
        have mark: "marked ?d2" using old by (auto simp: kept_def marked_def)
        have new: "kept pf (\<lambda>x. X x \<or> published pf s m rss x) ?d2" using mark read pub by (auto simp: kept_def)
        have read': "read_store pf d = Inr (?m, ts, start_of ?m)" "marked d" if "spares ?m ?d2 d" for d
          using spares_read [OF read that] mark that by (auto simp: spares_def marked_def)
        have fin: "follows pf s2 \<and> published pf s m rss (handle_image s2)" if sp: "spares ?m ?d2 (ls_dir s2)" and b: "beside ?s s2" for s2
        proof -
          have img: "handle_image s2 = (?m, ts, start_of ?m)" "ls_manifest s2 = ?m" "ls_wal_len s2 = 0"
            using beside_fields [OF b] by (simp_all add: handle_image_def start_of_def)
          have "bt_get (fs_wal (ls_dir s2)) wal = Some []" using sp by (simp add: spares_def bt_get_insert)
          then show ?thesis using read' [OF sp] pub unfolding follows_def img by simp
        qed
        have rec: "outcome (reclaim ?s)
            (\<lambda>_ s'. follows pf s' \<and> published pf s m rss (handle_image s') \<and> ls_options s' = ls_options s \<and> ls_poisoned s' = ls_poisoned s) ?E"
        proof (rule outcome_mono [OF reclaim_outcome])
          fix s2 :: lsm assume "beside ?s s2 \<and> spares (ls_manifest ?s) (ls_dir ?s) (ls_dir s2)"
          then show "follows pf s2 \<and> published pf s m rss (handle_image s2) \<and> ls_options s2 = ls_options s \<and> ls_poisoned s2 = ls_poisoned s"
            using fin [of s2] beside_fields [of ?s s2] by simp
        next
          fix s2 :: lsm assume "spares (ls_manifest ?s) (ls_dir ?s) (ls_dir s2)"
          then show "?E s2" using read' [of "ls_dir s2"] pub by (auto simp: kept_def)
        qed
        have staged: "kept pf (\<lambda>x. X x \<or> published pf s m rss x) (?d\<lparr>fs_current_new := Some bytes\<rparr>)"
          by (rule old') (simp add: ext)
        show ?thesis
          using True f small ts(1) old' [OF ext] staged new rec by (simp add: publish_def Inr a wp Let_def)
      qed
    qed
  qed
qed

end
