(* ===== verification/Lsm_Store.thy ===== *)
theory Lsm_Store
  imports Lsm_Steps
begin

text \<open>
  The engine as a store.  Its state is the applied position, the digest of the last batch and the value of every key;
  reads answer from it, commits and installations change it, flushing and compaction do not.  Every operation is
  followed through its failures: the directory then stands for the state before or the state after.
\<close>

section \<open>The invariant\<close>

definition sound_image :: "platform \<Rightarrow> nat \<times> byte list \<times> (byte list \<Rightarrow> byte list option) \<Rightarrow> store_image \<Rightarrow> bool" where
  "sound_image pf A x \<longleftrightarrow> agreeing (image_rows pf x) \<and> meaning pf x = A"

definition lsm_ok :: "platform \<Rightarrow> lsm \<Rightarrow> bool" where
  "lsm_ok pf s \<longleftrightarrow> follows pf s \<and> agreeing (image_rows pf (handle_image s)) \<and> options_validate (ls_options s) = Inr ()"

definition lsm_state :: "platform \<Rightarrow> lsm \<Rightarrow> nat \<times> byte list \<times> (byte list \<Rightarrow> byte list option)" where
  "lsm_state pf s = meaning pf (handle_image s)"

lemma lsm_ok_shaped: "lsm_ok pf s \<Longrightarrow> shaped pf (handle_image s)"
  unfolding lsm_ok_def follows_def by (blast intro: read_store_shaped)

lemma lsm_ok_kept: "lsm_ok pf s \<Longrightarrow> kept pf (sound_image pf (lsm_state pf s)) (ls_dir s)"
  by (auto simp: lsm_ok_def follows_def kept_def sound_image_def lsm_state_def)

lemma kept_mono: "kept pf X d \<Longrightarrow> (\<And>x. X x \<Longrightarrow> Y x) \<Longrightarrow> kept pf Y d"
  by (auto simp: kept_def)

definition rows_of :: "digest_fun \<Rightarrow> table \<Rightarrow> store_record list" where
  "rows_of digest t = map projr (table_iter digest t)"

lemma rows_of_holds: "table_holds digest t rs \<Longrightarrow> rows_of digest t = rs"
  by (simp add: rows_of_def table_holds_def comp_def)

text \<open>What is known of the tables of a healthy handle.\<close>

lemma table_rows_of: "\<forall>t \<in> set ts. table_holds digest t (rows_of digest t) \<Longrightarrow> table_rows digest ts = \<Union>(set ` rows_of digest ` set ts)"
  using holds_all_rows [of digest ts "map (rows_of digest) ts"] by (simp add: list_all2_conv_all_nth)

lemma lsm_tables:
  assumes "lsm_ok pf s"
  shows "mf_tables (ls_manifest s) = map tb_meta (ls_tables s)"
    "\<forall>t \<in> set (ls_tables s). table_holds (pf_digest pf) t (rows_of (pf_digest pf) t)"
    "set us \<subseteq> set (ls_tables s) \<Longrightarrow> list_all2 (opens pf (ls_dir s)) (map tb_meta us) (map (rows_of (pf_digest pf)) us)"
proof -
  from assms have open_: "open_tables pf (ls_dir s) (mf_tables (ls_manifest s)) = Inr (ls_tables s)"
    by (auto simp: lsm_ok_def follows_def handle_image_def read_store_Inr)
  then obtain rss where rss: "list_all2 (opens pf (ls_dir s)) (mf_tables (ls_manifest s)) rss"
    "list_all2 (table_holds (pf_digest pf)) (ls_tables s) rss" "map tb_meta (ls_tables s) = mf_tables (ls_manifest s)"
    using open_tables_opens by blast
  have rss': "rss = map (rows_of (pf_digest pf)) (ls_tables s)"
    using rss(2) by (induction rule: list_all2_induct) (auto simp: rows_of_holds)
  show "mf_tables (ls_manifest s) = map tb_meta (ls_tables s)" using rss(3) by simp
  show "\<forall>t \<in> set (ls_tables s). table_holds (pf_digest pf) t (rows_of (pf_digest pf) t)"
    using rss(2) unfolding rss' by (auto simp: list_all2_conv_all_nth in_set_conv_nth)
  have "\<forall>t \<in> set (ls_tables s). opens pf (ls_dir s) (tb_meta t) (rows_of (pf_digest pf) t)"
    using rss(1) unfolding rss' rss(3) [symmetric] by (auto simp: list_all2_conv_all_nth in_set_conv_nth)
  then show "list_all2 (opens pf (ls_dir s)) (map tb_meta us) (map (rows_of (pf_digest pf)) us)" if "set us \<subseteq> set (ls_tables s)"
    using that by (auto simp: list_all2_conv_all_nth subset_iff)
qed

lemma handle_rows: "image_rows pf (handle_image s) = snd ` set (ls_mem s) \<union> table_rows (pf_digest pf) (ls_tables s)"
  by (simp add: image_rows_def handle_image_def)

lemma lsm_mem:
  assumes "lsm_ok pf s"
  shows "mem_ok (mf_applied (ls_manifest s)) (ls_applied s) (ls_mem s)" "mf_applied (ls_manifest s) \<le> ls_applied s"
    "mf_validate (ls_manifest s) = Inr ()"
    "ls_applied s = mf_applied (ls_manifest s) \<Longrightarrow> ls_mem s = [] \<and> ls_wal_len s = 0"
    "r \<in> table_rows (pf_digest pf) (ls_tables s) \<Longrightarrow> valid_record r \<and> rec_sequence r \<le> mf_applied (ls_manifest s)"
proof -
  note sh = lsm_ok_shaped [OF assms, unfolded handle_image_def]
  show "mem_ok (mf_applied (ls_manifest s)) (ls_applied s) (ls_mem s)" "mf_applied (ls_manifest s) \<le> ls_applied s"
    "mf_validate (ls_manifest s) = Inr ()"
    "ls_applied s = mf_applied (ls_manifest s) \<Longrightarrow> ls_mem s = [] \<and> ls_wal_len s = 0"
    using sh by (auto simp: shaped_def start_of_def)
  show "r \<in> table_rows (pf_digest pf) (ls_tables s) \<Longrightarrow> valid_record r \<and> rec_sequence r \<le> mf_applied (ls_manifest s)"
    using sh by (rule table_rows_bounds)
qed

section \<open>Publishing, in terms of states\<close>

lemma published_meaning:
  assumes "published pf s m rss x"
  shows "image_rows pf x = \<Union>(set ` set rss)" "meaning pf x = (ls_applied s, ls_last_digest s, view (\<Union>(set ` set rss)))"
proof -
  obtain m' ts rp where x: "x = (m', ts, rp)" by (cases x)
  have "rp = start_of m'" "mf_applied m' = ls_applied s" "mf_last_digest m' = ls_last_digest s"
    "table_rows (pf_digest pf) ts = \<Union>(set ` set rss)"
    using assms holds_all_rows by (auto simp: published_def x)
  then show "image_rows pf x = \<Union>(set ` set rss)" "meaning pf x = (ls_applied s, ls_last_digest s, view (\<Union>(set ` set rss)))"
    by (simp_all add: image_rows_def meaning_def x start_of_def)
qed

lemma publish_state:
  assumes pf: "platform_ok pf" and old: "kept pf (sound_image pf A) (ls_dir s)" and tables: "list_all2 (opens pf (ls_dir s)) (mf_tables m) rss"
    and opts: "options_validate (ls_options s) = Inr ()" and agree: "agreeing (\<Union>(set ` set rss))"
    and B: "B = (ls_applied s, ls_last_digest s, view (\<Union>(set ` set rss)))"
  shows "outcome (publish pf m s)
    (\<lambda>_ s'. lsm_ok pf s' \<and> lsm_state pf s' = B \<and> ls_options s' = ls_options s \<and> ls_poisoned s' = ls_poisoned s \<and>
       ls_applied s' = mf_applied (ls_manifest s') \<and> mf_tables (ls_manifest s') = mf_tables m)
    (\<lambda>s'. kept pf (\<lambda>x. sound_image pf A x \<or> sound_image pf B x) (ls_dir s'))"
proof (rule outcome_mono [OF publish_outcome [OF pf old tables]])
  fix s'
  assume "follows pf s' \<and> published pf s m rss (handle_image s') \<and> ls_options s' = ls_options s \<and> ls_poisoned s' = ls_poisoned s"
  then show "lsm_ok pf s' \<and> lsm_state pf s' = B \<and> ls_options s' = ls_options s \<and> ls_poisoned s' = ls_poisoned s \<and>
      ls_applied s' = mf_applied (ls_manifest s') \<and> mf_tables (ls_manifest s') = mf_tables m"
    using published_meaning [of pf s m rss "handle_image s'"] opts agree B
    by (auto simp: lsm_ok_def lsm_state_def published_def handle_image_def start_of_def)
next
  fix s' assume k: "kept pf (\<lambda>x. sound_image pf A x \<or> published pf s m rss x) (ls_dir s')"
  show "kept pf (\<lambda>x. sound_image pf A x \<or> sound_image pf B x) (ls_dir s')"
    by (rule kept_mono [OF k]) (use published_meaning [of pf s m rss] agree B in \<open>auto simp: sound_image_def\<close>)
qed

section \<open>Flushing\<close>

definition maintained :: "platform \<Rightarrow> lsm \<Rightarrow> lsm \<Rightarrow> bool" where
  "maintained pf s s' \<longleftrightarrow> lsm_ok pf s' \<and> lsm_state pf s' = lsm_state pf s \<and> ls_options s' = ls_options s \<and> ls_poisoned s' = ls_poisoned s"

abbreviation still :: "platform \<Rightarrow> lsm \<Rightarrow> lsm \<Rightarrow> bool" where
  "still pf s s' \<equiv> kept pf (sound_image pf (lsm_state pf s)) (ls_dir s')"

lemma lsm_state_parts: "lsm_state pf s = (ls_applied s, ls_last_digest s, view (image_rows pf (handle_image s)))"
  by (simp add: lsm_state_def meaning_def handle_image_def image_rows_def)

lemma flush_outcome:
  assumes pf: "platform_ok pf" and s: "lsm_ok pf s"
  shows "outcome (flush_inner pf s) (\<lambda>_ s'. maintained pf s s' \<and> ls_applied s' = mf_applied (ls_manifest s') \<and>
    (ls_applied s = mf_applied (ls_manifest s) \<longrightarrow> s' = s)) (still pf s)"
proof (cases "ls_applied s = mf_applied (ls_manifest s)")
  case True
  then show ?thesis using s by (simp add: flush_inner_def wp maintained_def)
next
  case False
  let ?m = "ls_manifest s" and ?rows = "map snd (ls_mem s)" and ?old = "map (rows_of (pf_digest pf)) (ls_tables s)"
  have opts: "options_validate (ls_options s) = Inr ()" using s by (simp add: lsm_ok_def)
  have valid: "list_all valid_record ([] @ ?rows)"
    using lsm_mem(1) [OF s] mem_rows_get [of "ls_mem s"] by (auto simp: mem_ok_def list_all_iff set_map)
  have id: "mf_next_id ?m \<noteq> 0" using lsm_mem(3) [OF s] by (auto simp: mf_validate_iff)
  have rows: "mem_rows s = map Inr ?rows" by (simp add: mem_rows_def)
  have publish: "outcome (publish pf (m'\<lparr>mf_tables := mf_tables m' @ added\<rparr>) s')
     (\<lambda>_ s'. maintained pf s s' \<and> ls_applied s' = mf_applied (ls_manifest s') \<and>
       (ls_applied s = mf_applied (ls_manifest s) \<longrightarrow> s' = s)) (still pf s)"
    if c: "created pf s 0 ?rows [] ?m (added, m') s'" for added m' s'
  proof -
    from c obtain rss where r: "beside s s'" "extends (ls_dir s) (ls_dir s')" "m' = ?m\<lparr>mf_next_id := mf_next_id m'\<rparr>"
      "concat rss = ?rows" "list_all2 (opens pf (ls_dir s')) added rss" by (auto simp: created_def)
    have m': "mf_tables m' = mf_tables ?m" using r(3) by (metis manifest.select_convs(6) manifest.surjective manifest.update_convs(4))
    have tables: "list_all2 (opens pf (ls_dir s')) (mf_tables (m'\<lparr>mf_tables := mf_tables m' @ added\<rparr>)) (?old @ rss)"
      using extends_opens_all [OF lsm_tables(3) [OF s, of "ls_tables s"] r(2)] r(5) lsm_tables(1) [OF s] by (simp add: m' list_all2_appendI)
    have all: "\<Union>(set ` set (?old @ rss)) = image_rows pf (handle_image s)"
      using table_rows_of [OF lsm_tables(2) [OF s]] arg_cong [OF r(4), of set] by (auto simp: handle_rows)
    have old: "kept pf (sound_image pf (lsm_state pf s)) (ls_dir s')" by (rule extends_kept [OF lsm_ok_kept [OF s] r(2)])
    note f = beside_fields [OF r(1)]
    have agree: "agreeing (\<Union>(set ` set (?old @ rss)))" unfolding all using s by (simp add: lsm_ok_def)
    have B: "lsm_state pf s = (ls_applied s', ls_last_digest s', view (\<Union>(set ` set (?old @ rss))))"
      unfolding all by (simp add: lsm_state_parts f)
    show ?thesis
      by (rule outcome_mono [OF publish_state [OF pf old tables _ agree B]]) (use opts False in \<open>auto simp: f maintained_def\<close>)
  qed
  show ?thesis
    unfolding flush_inner_def if_not_P [OF False] outcome_bind rows
    by (rule outcome_mono [OF create_tables_outcome [OF pf _ valid id]])
      (use publish extends_kept [OF lsm_ok_kept [OF s]] in \<open>auto\<close>)
qed

section \<open>Compaction\<close>

lemma merge_yields_collect: "merge_collect m = Inr rows \<Longrightarrow> merge_yields m = map Inr rows"
proof (induction m arbitrary: rows rule: merge_yields.induct)
  case (1 m)
  obtain x m' where n: "merge_next m = (x, m')" by (cases "merge_next m")
  show ?case
  proof (cases x)
    case None
    then show ?thesis using 1(2) by (simp add: merge_yields.simps [of m] merge_collect.simps [of m] n)
  next
    case (Some y)
    then show ?thesis using 1 by (cases y) (auto simp: merge_yields.simps [of m] merge_collect.simps [of m] n rbind_Inr_iff)
  qed
qed

lemma merge_tables:
  assumes hold: "\<forall>t \<in> set us. table_holds digest t (rows_of digest t)" and agree: "agreeing (table_rows digest us)"
  obtains merged rows where "merge_new (map (table_iter digest) us) = Inr merged" "merge_yields merged = map Inr rows"
    "newest_rows (table_rows digest us) rows"
proof -
  let ?runs = "map (rows_of digest) us"
  have iter: "map (table_iter digest) us = map (map Inr) ?runs" using hold by (auto simp: table_holds_def)
  have "\<forall>rs \<in> set ?runs. sorted_wrt (<) (map rec_key rs)" using hold by (auto simp: table_holds_def)
  moreover have all: "\<Union>(set ` set ?runs) = table_rows digest us" using table_rows_of [OF hold] by simp
  ultimately obtain rows where "merge_runs (map (map Inr) ?runs) = Inr rows" "newest_rows (table_rows digest us) rows"
    using merge_runs_spec [of ?runs] agree by auto
  then show thesis
    unfolding merge_runs_def iter [symmetric] rbind_Inr_iff using that merge_yields_collect by blast
qed

lemma compaction_plan_level: "compaction_plan s = Some (destination, ids) \<Longrightarrow> destination \<le> 2"
  by (auto simp: compaction_plan_def compaction_sources_def Let_def split: option.splits if_splits)

text \<open>
  The tables a compaction leaves: those that were not selected, and new ones of the level it fills.  Work that is left
  for later: a flush, the tables of level zero, the tables of level one.
\<close>

definition moved :: "nat \<Rightarrow> nat set \<Rightarrow> lsm \<Rightarrow> lsm \<Rightarrow> bool" where
  "moved level ids s s' \<longleftrightarrow> ls_applied s' = mf_applied (ls_manifest s') \<and> (\<exists>added. (\<forall>t \<in> set added. tm_level t = level) \<and>
     map tb_meta (ls_tables s') = map tb_meta (filter (\<lambda>t. tm_id (tb_meta t) \<notin> ids) (ls_tables s)) @ added)"

definition backlog :: "lsm \<Rightarrow> nat \<times> nat \<times> nat" where
  "backlog s = (if ls_applied s = mf_applied (ls_manifest s) then 0 else 1, length (level_tables 0 s), length (level_tables 1 s))"

definition shrinks :: "(lsm \<times> lsm) set" where
  "shrinks = inv_image (less_than <*lex*> less_than <*lex*> less_than) backlog"

lemma level_tables_metas: "length (level_tables l s) = length (filter (\<lambda>m. tm_level m = l) (map tb_meta (ls_tables s)))"
  by (simp add: level_tables_def filter_map comp_def)

lemma oldest_in: "oldest ts = Some t \<Longrightarrow> t \<in> set ts"
  by (induction ts arbitrary: t) (auto split: option.splits if_splits)

lemma plan_first:
  assumes "compaction_plan s = Some (1, ids)"
  shows "\<forall>t \<in> set (level_tables 0 s). tm_id (tb_meta t) \<in> ids" "level_tables 0 s \<noteq> []"
  using assms unfolding compaction_plan_def compaction_sources_def
  by (auto simp: Let_def level_tables_def split: option.splits if_splits)

lemma plan_second:
  assumes "compaction_plan s = Some (destination, ids)" "destination \<noteq> 1"
  shows "destination = 2 \<and> (\<exists>t \<in> set (level_tables 1 s). ids = insert (tm_id (tb_meta t)) (ids \<inter> (tm_id \<circ> tb_meta) ` set (level_tables 2 s)))"
proof -
  obtain src where src: "compaction_sources s = Some (src, destination)"
    "ids = set (map (tm_id \<circ> tb_meta) src) \<union> set (map (tm_id \<circ> tb_meta)
       (filter (\<lambda>t. tm_level (tb_meta t) = destination \<and> meta_overlaps (tb_meta t) (Min (set (map (tm_first \<circ> tb_meta) src)))
          (Max (set (map (tm_last \<circ> tb_meta) src)))) (ls_tables s)))"
    using assms(1) unfolding compaction_plan_def by (auto simp: Let_def split: option.splits if_splits)
  then obtain t where t: "src = [t]" "destination = 2" "oldest (level_tables 1 s) = Some t"
    using assms(2) unfolding compaction_sources_def by (auto split: if_splits)
  then show ?thesis using oldest_in [OF t(3)] src(2) by (auto simp: level_tables_def)
qed

lemma moved_shrinks:
  assumes m: "moved level ids s s'" and plan: "compaction_plan s = Some (level, ids)" and idle: "ls_applied s = mf_applied (ls_manifest s)"
    and ids: "distinct (map tm_id (map tb_meta (ls_tables s)))"
  shows "(s', s) \<in> shrinks"
proof -
  obtain added where a: "\<forall>t \<in> set added. tm_level t = level" "ls_applied s' = mf_applied (ls_manifest s')"
    "map tb_meta (ls_tables s') = map tb_meta (filter (\<lambda>t. tm_id (tb_meta t) \<notin> ids) (ls_tables s)) @ added"
    using m by (auto simp: moved_def)
  have lt: "length (level_tables l s') = length (filter (\<lambda>t. tm_level (tb_meta t) = l \<and> tm_id (tb_meta t) \<notin> ids) (ls_tables s)) +
      length (filter (\<lambda>t. tm_level t = l) added)" for l
    unfolding level_tables_metas a(3) by (simp add: filter_map comp_def conj_commute)
  show ?thesis
  proof (cases "level = 1")
    case True
    then have "filter (\<lambda>t. tm_level (tb_meta t) = 0 \<and> tm_id (tb_meta t) \<notin> ids) (ls_tables s) = []" "filter (\<lambda>t. tm_level t = 0) added = []"
      using plan_first(1) [of s ids] plan a(1) by (auto simp: filter_empty_conv level_tables_def)
    then have "length (level_tables 0 s') = 0" by (simp add: lt)
    then show ?thesis using plan_first(2) [of s ids] plan True a(2) idle by (simp add: shrinks_def backlog_def)
  next
    case False
    then obtain t where t: "level = 2" "t \<in> set (level_tables 1 s)" "ids = insert (tm_id (tb_meta t)) (ids \<inter> (tm_id \<circ> tb_meta) ` set (level_tables 2 s))"
      using plan_second [OF plan] by blast
    have same: "u = v" if "u \<in> set (ls_tables s)" "v \<in> set (ls_tables s)" "tm_id (tb_meta u) = tm_id (tb_meta v)" for u v
      using ids that by (auto simp: distinct_map inj_on_def)
    have upper: "tm_level (tb_meta u) = 2 \<or> u = t" if "u \<in> set (ls_tables s)" "tm_id (tb_meta u) \<in> ids" for u
    proof -
      from that(2) t(3) consider "tm_id (tb_meta u) = tm_id (tb_meta t)" | v where "v \<in> set (level_tables 2 s)" "tm_id (tb_meta u) = tm_id (tb_meta v)"
        by auto
      then show ?thesis using same [OF that(1)] t(2) by cases (auto simp: level_tables_def)
    qed
    have t1: "t \<in> set (ls_tables s)" "tm_level (tb_meta t) = 1" "tm_id (tb_meta t) \<in> ids" using t(2,3) by (auto simp: level_tables_def)
    have "filter (\<lambda>u. tm_level (tb_meta u) = 0 \<and> tm_id (tb_meta u) \<notin> ids) (ls_tables s) = level_tables 0 s"
    proof -
      have "tm_id (tb_meta u) \<notin> ids" if "u \<in> set (ls_tables s)" "tm_level (tb_meta u) = 0" for u using upper [OF that(1)] that(2) t1(2) by auto
      then show ?thesis unfolding level_tables_def by (intro filter_cong) auto
    qed
    moreover have "length (filter (\<lambda>u. tm_level (tb_meta u) = 1 \<and> tm_id (tb_meta u) \<notin> ids) (ls_tables s)) < length (level_tables 1 s)"
    proof -
      have "filter (\<lambda>u. tm_level (tb_meta u) = 1 \<and> tm_id (tb_meta u) \<notin> ids) (ls_tables s) = filter (\<lambda>u. tm_id (tb_meta u) \<notin> ids) (level_tables 1 s)"
        by (simp add: level_tables_def conj_commute)
      then show ?thesis using length_filter_less [OF t(2), of "\<lambda>u. tm_id (tb_meta u) \<notin> ids"] t1(3) by simp
    qed
    moreover have "filter (\<lambda>t. tm_level t = 0) added = []" "filter (\<lambda>t. tm_level t = 1) added = []" using a(1) t(1) by (auto simp: filter_empty_conv)
    ultimately show ?thesis using a(2) idle by (simp add: shrinks_def backlog_def lt)
  qed
qed

lemma compact_publish:
  assumes pf: "platform_ok pf" and s: "lsm_ok pf s" and mem: "ls_mem s = []"
    and rows: "newest_rows (table_rows (pf_digest pf) (selected_tables ids s)) rows"
    and shown: "shown = filter (\<lambda>r. visible (unselected_metas ids s) (Inr r)) rows"
    and c: "created pf s level shown [] ((ls_manifest s)\<lparr>mf_tables := filter (\<lambda>t. tm_id t \<notin> ids) (mf_tables (ls_manifest s))\<rparr>) (added, m') s'"
  shows "outcome (publish pf (m'\<lparr>mf_tables := mf_tables m' @ added\<rparr>) s') (\<lambda>_ s'. maintained pf s s' \<and> moved level ids s s') (still pf s)"
proof -
  let ?us = "filter (\<lambda>t. tm_id (tb_meta t) \<notin> ids) (ls_tables s)" and ?sel = "selected_tables ids s" and ?dg = "pf_digest pf"
  let ?old = "map (rows_of ?dg) ?us"
  from c obtain rss where r: "beside s s'" "extends (ls_dir s) (ls_dir s')"
    "m' = (ls_manifest s)\<lparr>mf_tables := filter (\<lambda>t. tm_id t \<notin> ids) (mf_tables (ls_manifest s)), mf_next_id := mf_next_id m'\<rparr>"
    "concat rss = shown" "list_all2 (opens pf (ls_dir s')) added rss" by (auto simp: created_def)
  have m': "mf_tables m' = map tb_meta ?us"
    using arg_cong [OF r(3), of mf_tables] lsm_tables(1) [OF s] by (simp add: filter_map comp_def)
  have hold: "\<forall>t \<in> set ?us. table_holds ?dg t (rows_of ?dg t)" "\<forall>t \<in> set ?sel. table_holds ?dg t (rows_of ?dg t)"
    using lsm_tables(2) [OF s] by (auto simp: selected_tables_def)
  have tables: "list_all2 (opens pf (ls_dir s')) (mf_tables (m'\<lparr>mf_tables := mf_tables m' @ added\<rparr>)) (?old @ rss)"
    using extends_opens_all [OF lsm_tables(3) [OF s, of ?us] r(2)] r(5) by (simp add: m' list_all2_appendI)
  have all: "\<Union>(set ` set (?old @ rss)) = table_rows ?dg ?us \<union> set shown"
    using table_rows_of [OF hold(1)] arg_cong [OF r(4), of set] by auto
  have whole: "image_rows pf (handle_image s) = table_rows ?dg ?us \<union> table_rows ?dg ?sel"
    by (auto simp: handle_rows mem selected_tables_def table_rows_def)
  have agree: "agreeing (table_rows ?dg ?us \<union> table_rows ?dg ?sel)" using s unfolding whole [symmetric] by (simp add: lsm_ok_def)
  have known: "visible (unselected_metas ids s) (Inr q)" if "a \<in> table_rows ?dg ?us" "rec_key a = rec_key q" for a q
  proof -
    from that(1) obtain t where t: "t \<in> set ?us" "a \<in> set (rows_of ?dg t)" using table_rows_of [OF hold(1)] by auto
    then have "table_holds ?dg t (rows_of ?dg t)" using hold(1) by blast
    then have "meta_contains (tb_meta t) (rec_key a)"
      using t(2) key_ordered_hd [of "rows_of ?dg t" a] key_ordered_last [of "rows_of ?dg t" a] by (auto simp: table_holds_def meta_contains_def)
    then show ?thesis using t(1) that(2) by (auto simp: visible_def unselected_metas_def list_ex_iff)
  qed
  have compacted: "agreeing (table_rows ?dg ?us \<union> set shown)"
      "view (table_rows ?dg ?us \<union> set shown) = view (table_rows ?dg ?us \<union> table_rows ?dg ?sel)"
    by (rule view_compacted [OF finite_table_rows finite_table_rows agree rows]; use shown known in \<open>auto simp: visible_def\<close>)+
  have old: "kept pf (sound_image pf (lsm_state pf s)) (ls_dir s')" by (rule extends_kept [OF lsm_ok_kept [OF s] r(2)])
  note f = beside_fields [OF r(1)]
  have ag: "agreeing (\<Union>(set ` set (?old @ rss)))" unfolding all by (rule compacted(1))
  have B: "lsm_state pf s = (ls_applied s', ls_last_digest s', view (\<Union>(set ` set (?old @ rss))))"
    unfolding all compacted(2) by (simp add: lsm_state_parts f whole)
  show ?thesis
  proof (rule outcome_mono [OF publish_state [OF pf old tables _ ag B]])
    fix u s2
    assume "lsm_ok pf s2 \<and> lsm_state pf s2 = lsm_state pf s \<and> ls_options s2 = ls_options s' \<and> ls_poisoned s2 = ls_poisoned s' \<and>
      ls_applied s2 = mf_applied (ls_manifest s2) \<and> mf_tables (ls_manifest s2) = mf_tables (m'\<lparr>mf_tables := mf_tables m' @ added\<rparr>)"
    then show "maintained pf s s2 \<and> moved level ids s s2"
      using lsm_tables(1) [of pf s2] m' c by (auto simp: f maintained_def moved_def created_def)
  qed (use s in \<open>auto simp: f lsm_ok_def\<close>)
qed

lemma compact_outcome:
  assumes pf: "platform_ok pf" and s: "lsm_ok pf s" and mem: "ls_mem s = []" and plan: "compaction_plan s = Some (destination, ids)"
    and merged: "merge_new (map (table_iter (pf_digest pf)) (selected_tables ids s)) = Inr merged"
  shows "outcome (create_tables pf destination (filter (visible (unselected_metas ids s)) (merge_yields merged)) [] 0 []
      ((ls_manifest s)\<lparr>mf_tables := filter (\<lambda>t. tm_id t \<notin> ids) (mf_tables (ls_manifest s))\<rparr>) s)
    (\<lambda>x s'. outcome (case x of (added, m) \<Rightarrow> publish pf (m\<lparr>mf_tables := mf_tables m @ added\<rparr>) s')
      (\<lambda>_ s'. maintained pf s s' \<and> moved destination ids s s') (still pf s)) (still pf s)"
proof -
  let ?sel = "selected_tables ids s" and ?dg = "pf_digest pf"
  have hold: "\<forall>t \<in> set ?sel. table_holds ?dg t (rows_of ?dg t)" using lsm_tables(2) [OF s] by (auto simp: selected_tables_def)
  have agree: "agreeing (table_rows ?dg ?sel)"
    by (rule agreeing_mono [of "image_rows pf (handle_image s)"]) (use s in \<open>auto simp: lsm_ok_def handle_rows selected_tables_def table_rows_def\<close>)
  obtain rows where rows: "merge_yields merged = map Inr rows" "newest_rows (table_rows ?dg ?sel) rows"
    using merge_tables [OF hold agree] merged by (metis Inr_inject)
  let ?shown = "filter (\<lambda>r. visible (unselected_metas ids s) (Inr r)) rows"
  have valid: "list_all valid_record ([] @ ?shown)"
    using rows(2) lsm_mem(5) [OF s] by (auto simp: list_all_iff newest_rows_def selected_tables_def table_rows_def)
  have id: "mf_next_id ((ls_manifest s)\<lparr>mf_tables := filter (\<lambda>t. tm_id t \<notin> ids) (mf_tables (ls_manifest s))\<rparr>) \<noteq> 0"
    using lsm_mem(3) [OF s] by (auto simp: mf_validate_iff)
  have shown: "filter (visible (unselected_metas ids s)) (merge_yields merged) = map Inr ?shown"
    by (simp add: rows(1) filter_map comp_def)
  show ?thesis
    unfolding shown
    by (rule outcome_mono [OF create_tables_outcome [OF pf compaction_plan_level [OF plan] valid id]])
      (use compact_publish [OF pf s mem rows(2) refl] extends_kept [OF lsm_ok_kept [OF s]] in auto)
qed

lemma maintained_trans: "maintained pf s s1 \<Longrightarrow> maintained pf s1 s2 \<Longrightarrow> maintained pf s s2"
  by (simp add: maintained_def)

lemma compact_inner_outcome:
  assumes pf: "platform_ok pf" and s: "lsm_ok pf s"
  shows "outcome (compact_inner pf s) (\<lambda>ran s'. maintained pf s s' \<and> (ran \<longrightarrow> (s', s) \<in> shrinks)) (still pf s)"
  unfolding compact_inner_def outcome_bind
proof (rule outcome_mono [OF flush_outcome [OF pf s]])
  fix u s1
  assume "maintained pf s s1 \<and> ls_applied s1 = mf_applied (ls_manifest s1) \<and> (ls_applied s = mf_applied (ls_manifest s) \<longrightarrow> s1 = s)"
  then have m: "maintained pf s s1" and s1: "lsm_ok pf s1" and mem: "ls_mem s1 = []" and st: "lsm_state pf s1 = lsm_state pf s"
    and idle: "ls_applied s1 = mf_applied (ls_manifest s1)" and flushed: "ls_applied s = mf_applied (ls_manifest s) \<longrightarrow> s1 = s"
    using lsm_mem(4) by (auto simp: maintained_def)
  have ids: "distinct (map tm_id (map tb_meta (ls_tables s1)))"
    using lsm_mem(3) [OF s1] lsm_tables(1) [OF s1] by (simp add: mf_validate_iff)
  have k: "still pf s s1" using lsm_ok_kept [OF s1] by (simp add: st)
  show "outcome (case compaction_plan s1 of
       None \<Rightarrow> op_ok False s1
     | Some (destination, ids) \<Rightarrow>
         if sum_list (map (\<lambda>t. tm_bytes (tb_meta t)) (selected_tables ids s1)) > op_max_compaction_input_bytes (ls_options s1)
         then op_fail (OutOfMemory ''compaction input work limit exceeded'') s1
         else op_bind (op_lift (merge_new (map (table_iter (pf_digest pf)) (selected_tables ids s1)))) (\<lambda>merged s.
                let m = ls_manifest s; m = m\<lparr>mf_tables := filter (\<lambda>t. tm_id t \<notin> ids) (mf_tables m)\<rparr>;
                    rows = filter (visible (unselected_metas ids s)) (merge_yields merged)
                in op_bind (create_tables pf destination rows [] 0 [] m) (\<lambda>(added, m).
                   op_bind (publish pf (m\<lparr>mf_tables := mf_tables m @ added\<rparr>)) (\<lambda>_. op_ok True)) s) s1)
     (\<lambda>ran s'. maintained pf s s' \<and> (ran \<longrightarrow> (s', s) \<in> shrinks)) (still pf s)"
  proof (cases "compaction_plan s1")
    case None
    then show ?thesis using m by (simp add: wp)
  next
    case (Some p)
    then obtain destination ids where p: "compaction_plan s1 = Some (destination, ids)" by (cases p) auto
    have smaller: "(s2, s) \<in> shrinks" if "moved destination ids s1 s2" for s2
    proof (cases "ls_applied s = mf_applied (ls_manifest s)")
      case True
      then show ?thesis using moved_shrinks [OF that p idle ids] flushed by simp
    next
      case False
      then show ?thesis using that by (simp add: moved_def shrinks_def backlog_def)
    qed
    show ?thesis
    proof (cases "merge_new (map (table_iter (pf_digest pf)) (selected_tables ids s1))")
      case (Inl e)
      then show ?thesis using k by (simp add: p wp)
    next
      case (Inr merged)
      let ?create = "create_tables pf destination (filter (visible (unselected_metas ids s1)) (merge_yields merged)) [] 0 []
        ((ls_manifest s1)\<lparr>mf_tables := filter (\<lambda>t. tm_id t \<notin> ids) (mf_tables (ls_manifest s1))\<rparr>) s1"
      have "outcome ?create (\<lambda>x s'. outcome ((case x of (added, m) \<Rightarrow> op_bind (publish pf (m\<lparr>mf_tables := mf_tables m @ added\<rparr>)) (\<lambda>_. op_ok True)) s')
          (\<lambda>ran s'. maintained pf s s' \<and> (ran \<longrightarrow> (s', s) \<in> shrinks)) (still pf s)) (still pf s)"
      proof (rule outcome_mono [OF compact_outcome [OF pf s1 mem p Inr]])
        fix x s2
        assume "outcome (case x of (added, m) \<Rightarrow> publish pf (m\<lparr>mf_tables := mf_tables m @ added\<rparr>) s2) (\<lambda>_ s'. maintained pf s1 s' \<and> moved destination ids s1 s') (still pf s1)"
        then have "outcome (case x of (added, m) \<Rightarrow> publish pf (m\<lparr>mf_tables := mf_tables m @ added\<rparr>) s2) (\<lambda>_ s'. maintained pf s s' \<and> (s', s) \<in> shrinks) (still pf s)"
          by (rule outcome_mono) (use maintained_trans [OF m] st smaller in auto)
        then show "outcome ((case x of (added, m) \<Rightarrow> op_bind (publish pf (m\<lparr>mf_tables := mf_tables m @ added\<rparr>)) (\<lambda>_. op_ok True)) s2)
            (\<lambda>ran s'. maintained pf s s' \<and> (ran \<longrightarrow> (s', s) \<in> shrinks)) (still pf s)"
          by (cases x) (simp add: wp)
      qed (simp add: st)
      then show ?thesis using k by (simp add: p wp Inr Let_def)
    qed
  qed
qed

section \<open>Commits\<close>

lemma payload_small: "frame digest magic payload = Inr bytes \<Longrightarrow> length magic = 8 \<Longrightarrow> (\<And>x. length (digest x) = 32) \<Longrightarrow> length bytes \<le> MAX_FRAME + 76"
  using frame_parts(2,3) [of digest magic payload bytes] by auto

text \<open>The state after a batch.\<close>

definition committed :: "platform \<Rightarrow> nat \<Rightarrow> mutation list \<Rightarrow> byte list \<Rightarrow> nat \<times> byte list \<times> (byte list \<Rightarrow> byte list option) \<Rightarrow>
    nat \<times> byte list \<times> (byte list \<Rightarrow> byte list option)" where
  "committed pf idx changes payload A = (case A of (a, h, f) \<Rightarrow> (idx, pf_digest pf payload, updated changes f))"

definition logged :: "platform \<Rightarrow> nat \<Rightarrow> mutation list \<Rightarrow> byte list \<Rightarrow> nat \<Rightarrow> lsm \<Rightarrow> lsm" where
  "logged pf idx changes payload n s =
     (let mb = apply_mem idx changes (ls_mem s, ls_mem_bytes s)
      in s\<lparr>ls_wal_len := ls_wal_len s + n, ls_mem := fst mb, ls_mem_bytes := snd mb, ls_applied := idx, ls_last_digest := pf_digest pf payload\<rparr>)"

lemma applied_rows:
  assumes mem: "mem_ok lo hi (fst mb)" and cs: "distinct (map mut_key cs)" and m': "mem' = fst (apply_mem idx cs mb)" "bt_sorted mem'"
  shows "snd ` set mem' \<union> T \<subseteq> (snd ` set (fst mb) \<union> T) \<union> batch_record idx ` set cs"
    "batch_record idx ` set cs \<subseteq> snd ` set mem' \<union> T"
    "{r \<in> snd ` set (fst mb) \<union> T. rec_key r \<notin> mut_key ` set cs} \<subseteq> snd ` set mem' \<union> T"
proof -
  let ?new = "map_of (map (\<lambda>c. (mut_key c, batch_record idx c)) cs)"
  have get: "bt_get mem' k = (case ?new k of None \<Rightarrow> bt_get (fst mb) k | Some r \<Rightarrow> Some r)" for k
    unfolding m'(1) by (rule apply_mem_get [OF cs])
  have key: "rec_key r = k" if "bt_get (fst mb) k = Some r" for k r using mem that by (auto simp: mem_ok_def)
  have rows: "snd ` set (fst mb) = {r. \<exists>k. bt_get (fst mb) k = Some r}" "snd ` set mem' = {r. \<exists>k. bt_get mem' k = Some r}"
    using mem m'(2) by (auto simp: mem_rows_get mem_ok_def)
  show "snd ` set mem' \<union> T \<subseteq> (snd ` set (fst mb) \<union> T) \<union> batch_record idx ` set cs"
  proof
    fix r assume "r \<in> snd ` set mem' \<union> T"
    then consider k where "bt_get mem' k = Some r" | "r \<in> T" unfolding rows by blast
    then show "r \<in> (snd ` set (fst mb) \<union> T) \<union> batch_record idx ` set cs"
    proof cases
      case (1 k)
      then show ?thesis unfolding rows by (cases "?new k") (auto simp: get dest!: map_of_SomeD [of "map _ cs"])
    qed simp
  qed
  show "batch_record idx ` set cs \<subseteq> snd ` set mem' \<union> T"
  proof
    fix r assume "r \<in> batch_record idx ` set cs"
    then obtain c where c: "c \<in> set cs" "r = batch_record idx c" by auto
    then have "?new (mut_key c) = Some r" using cs by (auto intro!: map_of_is_SomeI simp: comp_def)
    then show "r \<in> snd ` set mem' \<union> T" unfolding rows by (auto simp: get intro!: exI [of _ "mut_key c"])
  qed
  show "{r \<in> snd ` set (fst mb) \<union> T. rec_key r \<notin> mut_key ` set cs} \<subseteq> snd ` set mem' \<union> T"
  proof
    fix r assume r: "r \<in> {r \<in> snd ` set (fst mb) \<union> T. rec_key r \<notin> mut_key ` set cs}"
    then have "?new (rec_key r) = None" by (auto simp: map_of_eq_None_iff)
    then show "r \<in> snd ` set mem' \<union> T" using r key unfolding rows by (auto simp: get intro!: exI [of _ "rec_key r"])
  qed
qed

lemma append_frame:
  assumes pf: "platform_ok pf" and s: "lsm_ok pf s" and d: "decode_batch payload = Inr (fst_index, idx, changes)"
    and nxt: "checked_add (ls_applied s) 1 = Some fst_index" and f: "frame (pf_digest pf) WAL_MAGIC payload = Inr bytes"
    and named: "bt_get (fs_wal (ls_dir s)) (mf_wal_id (ls_manifest s)) = Some named" and small: "length named + length bytes \<le> 64 * 1024 * 1024"
    and s': "s' = (logged pf idx changes payload (length bytes) s)\<lparr>ls_dir :=
        (ls_dir s)\<lparr>fs_wal := bt_insert (mf_wal_id (ls_manifest s)) (named @ bytes) (fs_wal (ls_dir s))\<rparr>\<rparr>"
  shows "lsm_ok pf s' \<and> lsm_state pf s' = committed pf idx changes payload (lsm_state pf s)"
proof -
  let ?m = "ls_manifest s" and ?dg = "pf_digest pf"
  from s have marked: "marked (ls_dir s)" and read: "read_store pf (ls_dir s) = Inr (handle_image s)" and len: "length named = ls_wal_len s"
    using named by (auto simp: lsm_ok_def follows_def)
  from read named have r: "select_manifest pf (ls_dir s) = Inr ?m" "open_tables pf (ls_dir s) (mf_tables ?m) = Inr (ls_tables s)"
    "replay_wal ?dg named (start_of ?m) = Inr (snd (snd (handle_image s)))"
    by (auto simp: read_store_Inr handle_image_def)
  have fr: "read_frame ?dg WAL_MAGIC bytes = Inr (Some (payload, length bytes))"
    using read_frame_complete [OF f, of "[]"] pf by (simp add: platform_ok_def)
  have "replay_wal ?dg (named @ bytes) (start_of ?m) = replay_wal ?dg bytes (snd (snd (handle_image s)))"
    by (rule replay_wal_append [OF r(3)]) (simp add: start_of_def handle_image_def len)
  also have "\<dots> = replay_wal ?dg [] (replay_step ?dg payload (length bytes) idx changes (snd (snd (handle_image s))))"
    using replay_wal_frame [OF fr d, of "snd (snd (handle_image s))"] nxt by (simp add: handle_image_def)
  also have "\<dots> = Inr (snd (snd (handle_image s')))"
    by (simp add: replay_wal_stop replay_step_def s' handle_image_def logged_def Let_def)
  finally have replay: "replay_wal ?dg (named @ bytes) (start_of ?m) = Inr (snd (snd (handle_image s')))" .
  obtain rp where rp: "snd (snd (handle_image s')) = rp" by blast
  have parts: "handle_image s' = (?m, ls_tables s, rp)" unfolding rp [symmetric] by (simp add: handle_image_def s' logged_def Let_def)
  have dir: "fs_current (ls_dir s') = fs_current (ls_dir s)" "fs_sst (ls_dir s') = fs_sst (ls_dir s)"
    "bt_get (fs_wal (ls_dir s')) (mf_wal_id ?m) = Some (named @ bytes)" by (simp_all add: s' bt_get_insert)
  have read': "read_store pf (ls_dir s') = Inr (handle_image s')"
    unfolding parts read_store_Inr using r(1,2) select_manifest_cong [OF dir(1)] open_tables_cong [of "mf_tables ?m" "ls_dir s'" "ls_dir s" pf] dir replay small
    by (simp add: rp)
  note rng = decoded_range [OF d nxt]
  let ?R = "image_rows pf (handle_image s)" and ?S = "image_rows pf (handle_image s')" and ?mb = "(ls_mem s, ls_mem_bytes s)"
  have mem: "ls_mem s' = fst (apply_mem idx changes ?mb)" "ls_tables s' = ls_tables s" by (simp_all add: s' logged_def Let_def)
  have sorted: "bt_sorted (ls_mem s)" and mem_old: "mem_ok (mf_applied ?m) (ls_applied s) (fst ?mb)" using lsm_mem(1) [OF s] by (auto simp: mem_ok_def)
  have "mem_ok (mf_applied ?m) idx (fst (apply_mem idx changes ?mb))"
    by (rule apply_mem_ok [of _ "ls_applied s"]) (use lsm_mem(1,2) [OF s] rng in simp_all)
  then have sorted': "bt_sorted (ls_mem s')" unfolding mem(1) mem_ok_def by blast
  have old: "\<forall>r \<in> ?R. rec_sequence r < idx"
    using lsm_mem(1,2) [OF s] lsm_mem(5) [OF s] rng(1) by (fastforce simp: handle_rows mem_rows_get [OF sorted] mem_ok_def)
  note S = applied_rows [OF mem_old rng(4) mem(1) sorted', of "table_rows ?dg (ls_tables s)", unfolded fst_conv]
  have agree: "agreeing ?R" using s by (simp add: lsm_ok_def)
  note view = view_newer [OF finite_image_rows agree old rng(4), of ?S]
  have new: "agreeing ?S" "view ?S = updated changes (view ?R)" by (rule view; use S in \<open>simp add: handle_rows mem(2)\<close>)+
  have "lsm_ok pf s'"
    using marked read' dir(3) len new(1) s by (auto simp: lsm_ok_def follows_def marked_def s' logged_def Let_def)
  moreover have "lsm_state pf s' = committed pf idx changes payload (lsm_state pf s)"
    by (simp add: lsm_state_parts committed_def new(2)) (simp add: s' logged_def Let_def)
  ultimately show ?thesis by blast
qed

end
