(* ===== verification/Lsm_Commit.thy ===== *)
theory Lsm_Commit
  imports Lsm_Store
begin

text \<open>
  Commits, installations and opening: the operations that change the state of the store, and the one that finds it again.
\<close>

section \<open>Commits\<close>

abbreviation either :: "platform \<Rightarrow> nat \<times> byte list \<times> (byte list \<Rightarrow> byte list option) \<Rightarrow> nat \<times> byte list \<times> (byte list \<Rightarrow> byte list option) \<Rightarrow> lsm \<Rightarrow> bool" where
  "either pf A B s' \<equiv> kept pf (\<lambda>x. sound_image pf A x \<or> sound_image pf B x) (ls_dir s')"

lemma maintained_refl: "lsm_ok pf s \<Longrightarrow> maintained pf s s"
  by (simp add: maintained_def)

lemma still_either: "still pf s s' \<Longrightarrow> either pf (lsm_state pf s) B s'"
  by (erule kept_mono) simp

lemma lsm_ok_fault: "lsm_ok pf (s\<lparr>ls_fault := f\<rparr>) = lsm_ok pf s" "lsm_state pf (s\<lparr>ls_fault := f\<rparr>) = lsm_state pf s"
  by (simp_all add: lsm_ok_def follows_def lsm_state_def handle_image_def)

lemma append_outcome:
  assumes pf: "platform_ok pf" and s: "lsm_ok pf s" and d: "decode_batch payload = Inr (fst_index, idx, changes)"
    and nxt: "checked_add (ls_applied s) 1 = Some fst_index" and small: "ls_wal_len s \<le> 32 * 1024 * 1024"
  defines "B \<equiv> committed pf idx changes payload (lsm_state pf s)"
  shows "outcome (case bt_get (fs_wal (ls_dir s)) (mf_wal_id (ls_manifest s)) of
          None \<Rightarrow> op_fail missing s
        | Some named \<Rightarrow>
            if length named \<noteq> ls_wal_len s then op_fail (InvalidData ''active WAL changed outside its writer'') s
            else op_bind (op_lift (frame (pf_digest pf) WAL_MAGIC payload)) (\<lambda>bytes.
                 op_bind (op_dir (\<lambda>d. d\<lparr>fs_wal := bt_insert (mf_wal_id (ls_manifest s)) (named @ bytes) (fs_wal d)\<rparr>)) (\<lambda>_.
                 op_bind (op_change (\<lambda>s. s\<lparr>ls_wal_len := ls_wal_len s + length bytes\<rparr>)) (\<lambda>_.
                 op_bind (hit WalWritten) (\<lambda>_.
                 op_bind (hit WalSynced) (\<lambda>_.
                 op_bind (op_change (\<lambda>s. let mb = apply_mem idx changes (ls_mem s, ls_mem_bytes s)
                            in s\<lparr>ls_mem := fst mb, ls_mem_bytes := snd mb, ls_applied := idx, ls_last_digest := pf_digest pf payload\<rparr>)) (\<lambda>_.
                   op_ok CommitApplied)))))) s)
    (\<lambda>r s'. r = CommitApplied \<and> lsm_ok pf s' \<and> lsm_state pf s' = B \<and> ls_options s' = ls_options s \<and> ls_poisoned s' = ls_poisoned s) (either pf (lsm_state pf s) B)"
proof -
  obtain named where named: "bt_get (fs_wal (ls_dir s)) (mf_wal_id (ls_manifest s)) = Some named" "length named = ls_wal_len s"
    using s by (auto simp: lsm_ok_def follows_def)
  have old: "either pf (lsm_state pf s) B s" using still_either [OF lsm_ok_kept [OF s]] .
  show ?thesis
  proof (cases "frame (pf_digest pf) WAL_MAGIC payload")
    case (Inl e)
    then show ?thesis using named old by (simp add: wp)
  next
    case (Inr bytes)
    let ?d = "(ls_dir s)\<lparr>fs_wal := bt_insert (mf_wal_id (ls_manifest s)) (named @ bytes) (fs_wal (ls_dir s))\<rparr>"
    let ?s = "(logged pf idx changes payload (length bytes) s)\<lparr>ls_dir := ?d\<rparr>"
    have "length bytes \<le> MAX_FRAME + 76" using payload_small [OF Inr] pf by (simp add: platform_ok_def)
    then have "length named + length bytes \<le> 64 * 1024 * 1024" using small named(2) by (simp add: codec_limits)
    then have new: "lsm_ok pf ?s" "lsm_state pf ?s = B"
      using append_frame [OF pf s d nxt Inr named(1) _ refl] by (auto simp: B_def)
    have "either pf (lsm_state pf s) B ?s" using lsm_ok_kept [OF new(1)] by (rule kept_mono) (simp add: new(2))
    then have dir: "kept pf (\<lambda>x. sound_image pf (lsm_state pf s) x \<or> sound_image pf B x) ?d" by simp
    have order: "?s = s\<lparr>ls_dir := ?d, ls_wal_len := ls_wal_len s + length bytes, ls_mem := fst (apply_mem idx changes (ls_mem s, ls_mem_bytes s)),
        ls_mem_bytes := snd (apply_mem idx changes (ls_mem s, ls_mem_bytes s)), ls_applied := idx, ls_last_digest := pf_digest pf payload\<rparr>"
      by (rule lsm.equality) (simp_all add: logged_def Let_def)
    show ?thesis using new [unfolded order] dir named Inr by (simp add: wp Let_def)
  qed
qed

lemma write_batch_outcome:
  assumes pf: "platform_ok pf" and s: "lsm_ok pf s" and d: "decode_batch payload = Inr (fst_index, idx, changes)"
    and nxt: "checked_add (ls_applied s) 1 = Some fst_index"
  defines "B \<equiv> committed pf idx changes payload (lsm_state pf s)"
  shows "outcome (write_batch pf idx changes payload s)
    (\<lambda>r s'. r = CommitApplied \<and> lsm_ok pf s' \<and> lsm_state pf s' = B \<and> ls_options s' = ls_options s \<and> ls_poisoned s' = ls_poisoned s) (either pf (lsm_state pf s) B)"
proof -
  have room: "outcome (if ls_mem_bytes s \<ge> op_memtable_bytes (ls_options s) \<or>
                    ls_wal_len s \<ge> min (op_memtable_bytes (ls_options s) * 4) (32 * 1024 * 1024)
                 then flush_inner pf s else op_ok () s)
      (\<lambda>_ s1. maintained pf s s1 \<and> ls_wal_len s1 \<le> 32 * 1024 * 1024) (either pf (lsm_state pf s) B)"
    (is "outcome (if ?full then _ else _) _ _")
  proof (cases ?full)
    case True
    show ?thesis unfolding if_P [OF True]
    proof (rule outcome_mono [OF flush_outcome [OF pf s]])
      fix s1 assume "maintained pf s s1 \<and> ls_applied s1 = mf_applied (ls_manifest s1) \<and> (ls_applied s = mf_applied (ls_manifest s) \<longrightarrow> s1 = s)"
      then show "maintained pf s s1 \<and> ls_wal_len s1 \<le> 32 * 1024 * 1024" using lsm_mem(4) [of pf s1] by (simp add: maintained_def)
    qed (rule still_either)
  next
    case False
    then show ?thesis using maintained_refl [OF s] by (auto simp: wp)
  qed
  show ?thesis
    unfolding write_batch_def outcome_bind Let_def
  proof (rule outcome_mono [OF room], goal_cases)
    case (1 u s1)
    then have s1: "lsm_ok pf s1" "lsm_state pf s1 = lsm_state pf s" "ls_options s1 = ls_options s" "ls_poisoned s1 = ls_poisoned s" "ls_wal_len s1 \<le> 32 * 1024 * 1024"
      by (auto simp: maintained_def)
    have "ls_applied s1 = ls_applied s" using s1(2) by (simp add: lsm_state_parts)
    then show ?case
      using append_outcome [OF pf s1(1) d _ s1(5)] nxt unfolding s1(2-4) B_def [symmetric] Let_def by simp
  qed
qed

text \<open>
  \<open>commit_range\<close>: a refused batch changes nothing, a repeated batch is recognised, an accepted one is applied, and a
  failed one leaves the directory with or without it.
\<close>

definition commit_result :: "platform \<Rightarrow> nat \<Rightarrow> nat \<Rightarrow> mutation list \<Rightarrow> nat \<times> byte list \<times> (byte list \<Rightarrow> byte list option) \<Rightarrow>
    nat \<times> byte list \<times> (byte list \<Rightarrow> byte list option)" where
  "commit_result pf fst_index idx changes A =
     (case encode_batch fst_index idx changes of Inl _ \<Rightarrow> A | Inr payload \<Rightarrow> committed pf idx changes payload A)"

lemma commit_outcome:
  assumes pf: "platform_ok pf" and s: "lsm_ok pf s" and idx: "idx \<le> u64_max"
    and B_def: "B = commit_result pf fst_index idx changes (lsm_state pf s)"
  shows "outcome (commit_range pf fst_index idx changes s)
    (\<lambda>r s'. lsm_ok pf s' \<and> ls_options s' = ls_options s \<and> \<not> ls_poisoned s' \<and>
       (r = CommitReplay \<longrightarrow> s' = s \<and> idx = ls_applied s) \<and>
       (r = CommitApplied \<longrightarrow> lsm_state pf s' = B \<and> ls_applied s + 1 = fst_index \<and> is_ok (encode_batch fst_index idx changes)))
    (\<lambda>s'. either pf (lsm_state pf s) B s' \<and> (ls_poisoned s' \<or> s' = s))"
proof -
  have old: "either pf (lsm_state pf s) B s" using still_either [OF lsm_ok_kept [OF s]] .
  show ?thesis
  proof (cases "\<not> ls_poisoned s \<and> is_ok (validate_changes changes) \<and> is_ok (encode_batch fst_index idx changes)")
    case False
    then show ?thesis using old by (auto simp: commit_range_def wp is_ok_def split: sum.splits)
  next
    case True
    then obtain n payload where e: "validate_changes changes = Inr n" "encode_batch fst_index idx changes = Inr payload" "\<not> ls_poisoned s"
      by (auto simp: is_ok_iff)
    have B: "B = committed pf idx changes payload (lsm_state pf s)" by (simp add: B_def commit_result_def e)
    show ?thesis
    proof (cases "checked_add (ls_applied s) 1 = Some fst_index")
      case False
      then show ?thesis using e old s by (simp add: commit_range_def wp)
    next
      case nxt: True
      have f: "fst_index \<le> u64_max" "fst_index = ls_applied s + 1" using nxt by (auto simp: checked_add_def split: if_splits)
      then have d: "decode_batch payload = Inr (fst_index, idx, changes)" using e idx by (simp add: batch_iff)
      have "outcome (write_batch pf idx changes payload s)
        (\<lambda>r s'. lsm_ok pf s' \<and> ls_options s' = ls_options s \<and> \<not> ls_poisoned s' \<and> (r = CommitReplay \<longrightarrow> s' = s \<and> idx = ls_applied s) \<and>
           (r = CommitApplied \<longrightarrow> lsm_state pf s' = B \<and> ls_applied s + 1 = fst_index \<and> is_ok (encode_batch fst_index idx changes)))
        (\<lambda>s'. either pf (lsm_state pf s) B (s'\<lparr>ls_poisoned := True\<rparr>))"
        by (rule outcome_mono [OF write_batch_outcome [OF pf s d nxt]]) (use e f in \<open>auto simp: B is_ok_iff\<close>)
      then show ?thesis using e nxt s by (simp add: commit_range_def wp outcome_guard is_ok_iff)
    qed
  qed
qed

section \<open>Installing a snapshot\<close>

lemma validate_install_valid:
  assumes "validate_install cells = Inr sz"
  shows "list_all (\<lambda>c. valid_cell (mut_key c) (mut_value c)) cells" "distinct (map mut_key cells)"
  using assms validate_each_iff [of MAX_INSTALL_BYTES 0 "{}" cells sz]
  by (auto simp: validate_install_def validate_mutations_def MAX_INSTALL_BYTES_def u64_max_def split: if_splits)

lemma view_empty: "view {} = (\<lambda>_. None)"
  by (rule ext) (simp add: view_def top_record_def)

definition installed :: "nat \<Rightarrow> mutation list \<Rightarrow> nat \<times> byte list \<times> (byte list \<Rightarrow> byte list option)" where
  "installed idx cells = (idx, replicate 32 0, updated cells (\<lambda>_. None))"

lemma install_outcome:
  assumes pf: "platform_ok pf" and s: "lsm_ok pf s" and idx: "idx \<le> u64_max"
  shows "outcome (lsm_install pf idx cells s)
    (\<lambda>_ s'. lsm_ok pf s' \<and> lsm_state pf s' = installed idx cells \<and> ls_options s' = ls_options s \<and> \<not> ls_poisoned s')
    (\<lambda>s'. either pf (lsm_state pf s) (installed idx cells) s' \<and> (ls_poisoned s' \<or> s' = s))"
proof -
  let ?B = "installed idx cells" and ?rows = "sort_key rec_key (map (batch_record idx) cells)" and ?m = "(ls_manifest s)\<lparr>mf_tables := []\<rparr>"
  have old: "either pf (lsm_state pf s) ?B s" using still_either [OF lsm_ok_kept [OF s]] .
  show ?thesis
  proof (cases "ls_poisoned s \<or> \<not> is_ok (validate_install cells)")
    case True
    then show ?thesis using old by (auto simp: lsm_install_def wp outcome_guard is_ok_def split: sum.splits)
  next
    case False
    then obtain sz where v: "validate_install cells = Inr sz" "\<not> ls_poisoned s" by (auto simp: is_ok_iff)
    note cells = validate_install_valid [OF v(1)]
    have valid: "list_all valid_record ([] @ ?rows)" using cells(1) idx by (auto simp: list_all_iff valid_batch_record)
    have id: "mf_next_id ?m \<noteq> 0" using lsm_mem(3) [OF s] by (auto simp: mf_validate_iff)
    have "\<forall>r \<in> {}. rec_sequence r < idx" "agreeing {}" by (simp_all add: agreeing_def)
    then have new: "agreeing (batch_record idx ` set cells)" "view (batch_record idx ` set cells) = updated cells (\<lambda>_. None)"
      using view_newer [of "{}" idx cells "batch_record idx ` set cells"] cells(2) by (simp_all add: view_empty)
    have publish: "outcome (publish pf (m'\<lparr>mf_tables := added\<rparr>) (s1\<lparr>ls_applied := idx, ls_last_digest := replicate 32 0\<rparr>))
        (\<lambda>_ s'. lsm_ok pf s' \<and> lsm_state pf s' = ?B \<and> ls_options s' = ls_options s \<and> \<not> ls_poisoned s') (either pf (lsm_state pf s) ?B)"
      if c: "created pf s 2 ?rows [] ?m (added, m') s1" for added m' s1
    proof -
      let ?s = "s1\<lparr>ls_applied := idx, ls_last_digest := replicate 32 0\<rparr>"
      from c obtain rss where r: "beside s s1" "extends (ls_dir s) (ls_dir s1)" "concat rss = ?rows" "list_all2 (opens pf (ls_dir s1)) added rss"
        by (auto simp: created_def)
      have all: "\<Union>(set ` set rss) = batch_record idx ` set cells" using arg_cong [OF r(3), of set] by simp
      have kept: "kept pf (sound_image pf (lsm_state pf s)) (ls_dir ?s)" using extends_kept [OF lsm_ok_kept [OF s] r(2)] by simp
      have tables: "list_all2 (opens pf (ls_dir ?s)) (mf_tables (m'\<lparr>mf_tables := added\<rparr>)) rss" using r(4) by simp
      have ag: "agreeing (\<Union>(set ` set rss))" unfolding all by (rule new(1))
      have B: "?B = (ls_applied ?s, ls_last_digest ?s, view (\<Union>(set ` set rss)))" unfolding all new(2) by (simp add: installed_def)
      show ?thesis
        by (rule outcome_mono [OF publish_state [OF pf kept tables _ ag B]])
          (use beside_fields [OF r(1)] s v(2) in \<open>auto simp: lsm_ok_def\<close>)
    qed
    have "outcome (create_tables pf 2 (map Inr ?rows) [] 0 [] ?m s)
       (\<lambda>x s1. outcome ((case x of (added, m) \<Rightarrow> op_bind (op_change (\<lambda>s. s\<lparr>ls_applied := idx, ls_last_digest := replicate 32 0\<rparr>)) (\<lambda>_.
           publish pf (m\<lparr>mf_tables := added\<rparr>))) s1)
        (\<lambda>_ s'. lsm_ok pf s' \<and> lsm_state pf s' = ?B \<and> ls_options s' = ls_options s \<and> \<not> ls_poisoned s') (either pf (lsm_state pf s) ?B))
       (either pf (lsm_state pf s) ?B)"
      by (rule outcome_mono [OF create_tables_outcome [OF pf _ valid id]])
        (use publish still_either extends_kept [OF lsm_ok_kept [OF s]] in \<open>auto simp: wp\<close>)
    then show ?thesis using v old by (auto simp: lsm_install_def wp outcome_guard install_rows_def)
  qed
qed

section \<open>Opening\<close>

lemma remove_files_ok: "ls_fault s = None \<Longrightarrow> \<exists>s'. remove_files fs s = (Inr (), s') \<and> ls_fault s' = None"
  by (induction fs arbitrary: s) (auto simp: op_ok_def op_bind_def op_dir_def op_change_def hit_def)

lemma reclaim_ok: "ls_fault s = None \<Longrightarrow> \<exists>s'. reclaim s = (Inr (), s') \<and> ls_fault s' = None"
  using remove_files_ok [of s "obsolete (ls_manifest s) (ls_dir s)"]
  by (auto simp: reclaim_def Let_def op_bind_def hit_def op_ok_def)

lemma truncated_reads:
  assumes "read_store pf d = Inr (m, ts, rp)"
  shows "read_store pf (truncate_wal (mf_wal_id m) (rp_wal_len rp) d) = Inr (m, ts, rp)"
    "\<exists>wal. bt_get (fs_wal (truncate_wal (mf_wal_id m) (rp_wal_len rp) d)) (mf_wal_id m) = Some wal \<and> length wal = rp_wal_len rp"
proof -
  let ?d = "truncate_wal (mf_wal_id m) (rp_wal_len rp) d"
  from assms obtain wal where w: "select_manifest pf d = Inr m" "open_tables pf d (mf_tables m) = Inr ts"
    "bt_get (fs_wal d) (mf_wal_id m) = Some wal" "length wal \<le> 64 * 1024 * 1024" "replay_wal (pf_digest pf) wal (start_of m) = Inr rp"
    unfolding read_store_Inr by blast
  have len: "rp_wal_len rp \<le> length wal"
    using replay_wal_keeps [OF w(5), of "mf_applied m"] by (simp add: start_of_def mem_ok_def bt_sorted_def)
  have replay: "replay_wal (pf_digest pf) (take (rp_wal_len rp) wal) (start_of m) = Inr rp"
    using replay_wal_truncated [OF w(5)] by (simp add: start_of_def)
  have get: "bt_get (fs_wal ?d) (mf_wal_id m) = Some (take (rp_wal_len rp) wal)"
    using w(3) len by (auto simp: truncate_wal_def bt_get_insert)
  have same: "fs_current ?d = fs_current d" "fs_sst ?d = fs_sst d" by (auto simp: truncate_wal_def split: option.split)
  show "read_store pf ?d = Inr (m, ts, rp)"
    unfolding read_store_Inr using w get replay len select_manifest_cong [OF same(1)] open_tables_cong [of "mf_tables m" ?d d pf] same(2) by simp
  show "\<exists>wal. bt_get (fs_wal ?d) (mf_wal_id m) = Some wal \<and> length wal = rp_wal_len rp" using get len by simp
qed

text \<open>Recovering a directory that reads gives a handle that follows it.\<close>

lemma recovered:
  assumes r: "read_store pf d = Inr x" and mk: "marked d"
  obtains s0 s where "recover pf options d = Inr s0" "reclaim s0 = (Inr (), s)" "follows pf s" "handle_image s = x"
    "ls_options s = options" "\<not> ls_poisoned s" "ls_fault s = None"
proof -
  obtain m ts rp where x: "x = (m, ts, rp)" by (cases x)
  let ?s = "\<lparr>ls_dir = truncate_wal (mf_wal_id m) (rp_wal_len rp) d, ls_options = options,
         ls_manifest = m, ls_tables = ts, ls_wal_len = rp_wal_len rp, ls_mem = fst (rp_mem rp),
         ls_mem_bytes = snd (rp_mem rp), ls_applied = rp_applied rp, ls_last_digest = rp_last_digest rp,
         ls_poisoned = False, ls_fault = None\<rparr>"
  have rec: "recover pf options d = Inr ?s" by (simp add: recover_def r x)
  obtain s' where s': "reclaim ?s = (Inr (), s')" "ls_fault s' = None" using reclaim_ok [of ?s] by auto
  have "outcome (reclaim ?s) (\<lambda>_ s'. beside ?s s' \<and> spares m (ls_dir ?s) (ls_dir s')) (\<lambda>s'. spares m (ls_dir ?s) (ls_dir s'))"
    using reclaim_outcome [of ?s] by simp
  then have b: "beside ?s s'" "spares m (ls_dir ?s) (ls_dir s')" unfolding s'(1) outcome_Inr by auto
  note f = beside_fields [OF b(1), simplified]
  have img: "handle_image s' = x" by (simp add: handle_image_def f x)
  have "marked (ls_dir ?s)" using mk by (auto simp: truncate_wal_def marked_def split: option.split)
  then have "follows pf s'"
    using spares_read [OF truncated_reads(1) [OF r [unfolded x]], of "ls_dir s'"] truncated_reads(2) [OF r [unfolded x]] b(2)
    unfolding follows_def img by (auto simp: f spares_def marked_def x)
  then show thesis using that rec s' img f by auto
qed

lemma reopen:
  assumes k: "kept pf X d" and o: "options_validate options = Inr ()"
  obtains s where "lsm_open pf options d = Inr s" "follows pf s" "X (handle_image s)" "ls_options s = options" "\<not> ls_poisoned s" "ls_fault s = None"
proof -
  from k obtain x where r: "read_store pf d = Inr x" "X x" "marked d" by (auto simp: kept_def)
  have "fs_current d \<noteq> None" using r(1) select_manifest_valid by (cases x) (auto simp: read_store_Inr)
  then have dir: "directory_open d = Inr (False, d)" using r(3) by (auto simp: directory_open_def marked_def)
  obtain s0 s where s: "recover pf options d = Inr s0" "reclaim s0 = (Inr (), s)" "follows pf s" "handle_image s = x"
    "ls_options s = options" "\<not> ls_poisoned s" "ls_fault s = None" by (rule recovered [OF r(1,3)])
  have "lsm_open pf options d = Inr s" by (simp add: lsm_open_def o dir s)
  then show thesis using that s r(2) by auto
qed

lemma reopen_state:
  assumes "either pf A B s" and "options_validate options = Inr ()"
  shows "\<exists>s'. lsm_open pf options (ls_dir s) = Inr s' \<and> lsm_ok pf s' \<and> \<not> ls_poisoned s' \<and> ls_options s' = options \<and>
    (lsm_state pf s' = A \<or> lsm_state pf s' = B)"
proof -
  obtain s' where "lsm_open pf options (ls_dir s) = Inr s'" "follows pf s'" "sound_image pf A (handle_image s') \<or> sound_image pf B (handle_image s')"
    "ls_options s' = options" "\<not> ls_poisoned s'" by (rule reopen [OF assms])
  then show ?thesis using assms(2) by (auto simp: lsm_ok_def sound_image_def lsm_state_def)
qed

text \<open>A directory that was opened for the first time holds nothing.\<close>

lemma open_fresh:
  assumes pf: "platform_ok pf" and s: "lsm_open pf options empty_directory = Inr s"
  shows "lsm_ok pf s" "lsm_state pf s = (0, replicate 32 0, \<lambda>_. None)" "\<not> ls_poisoned s" "ls_fault s = None" "ls_options s = options"
proof -
  let ?d = "empty_directory\<lparr>fs_engine := Some engine_identity\<rparr>"
  have dir: "directory_open empty_directory = Inr (True, ?d)" by (simp add: directory_open_def empty_directory_def)
  from s obtain bytes where o: "options_validate options = Inr ()" and f: "frame (pf_digest pf) MANIFEST_MAGIC (pf_manifest_json pf initial_manifest) = Inr bytes"
    by (auto simp: lsm_open_def dir rbind_Inr_iff initialize_def)
  let ?e = "?d\<lparr>fs_wal := bt_insert 1 [] (fs_wal ?d), fs_current := Some bytes\<rparr>"
  have init: "initialize pf ?d = Inr ?e" by (simp add: initialize_def f)
  from s obtain x where x: "read_store pf ?e = Inr x" by (auto simp: lsm_open_def dir o init rbind_Inr_iff recover_def)
  obtain m ts rp where xs: "x = (m, ts, rp)" by (cases x)
  have v: "mf_validate initial_manifest = Inr ()" by (simp add: mf_validate_iff initial_manifest_def level_disjoint_def MAX_TABLES_def)
  have "length bytes \<le> MAX_MANIFEST_BYTES"
    using x unfolding xs read_store_Inr select_manifest_def by (auto split: if_splits)
  then have "m = initial_manifest" using select_written [OF pf f _ v, of ?e] x unfolding xs read_store_Inr by simp
  then have parts: "x = (initial_manifest, [], start_of initial_manifest)"
    using x unfolding xs read_store_Inr by (auto simp: initial_manifest_def bt_get_insert empty_directory_def replay_wal_stop)
  have mk: "marked ?e" by (simp add: marked_def empty_directory_def)
  obtain s0 s' where r: "recover pf options ?e = Inr s0" "reclaim s0 = (Inr (), s')" "follows pf s'" "handle_image s' = x"
    "ls_options s' = options" "\<not> ls_poisoned s'" "ls_fault s' = None" by (rule recovered [OF x mk])
  have "s = s'" using s r(2) unfolding lsm_open_def dir o init rbind_simps prod.case if_True r(1) by simp
  moreover have "image_rows pf x = {}" "meaning pf x = (0, replicate 32 0, view {})"
    by (simp_all add: parts image_rows_def meaning_def start_of_def initial_manifest_def)
  ultimately show "lsm_ok pf s" "lsm_state pf s = (0, replicate 32 0, \<lambda>_. None)" "\<not> ls_poisoned s" "ls_fault s = None" "ls_options s = options"
    using r o by (simp_all add: lsm_ok_def lsm_state_def agreeing_def view_empty)
qed

end
