(* ===== verification/Lsm_Reads.thy ===== *)
theory Lsm_Reads
  imports Lsm_Commit
begin

text \<open>Reads answer from the newest record of a key, wherever it is.\<close>

section \<open>Point reads\<close>

definition best :: "store_record set \<Rightarrow> byte list \<Rightarrow> store_record option \<Rightarrow> bool" where
  "best R key o' \<longleftrightarrow> (case o' of None \<Rightarrow> \<forall>r \<in> R. rec_key r \<noteq> key | Some r \<Rightarrow> top_record R r \<and> rec_key r = key)"

lemma best_view: "finite R \<Longrightarrow> agreeing R \<Longrightarrow> best R key newest \<Longrightarrow> view R key = Option.bind newest rec_value"
  using view_None [of R key] view_top [of R] by (cases newest) (auto simp: best_def)

text \<open>Records that are all older, or of other keys, do not matter.\<close>

lemma best_skip:
  assumes "best P key newest" "\<And>r. r \<in> T \<Longrightarrow> rec_key r = key \<Longrightarrow> \<exists>p. newest = Some p \<and> rec_sequence r \<le> rec_sequence p"
  shows "best (P \<union> T) key newest"
  using assms by (cases newest) (fastforce simp: best_def top_record_def)+

lemma best_replace:
  assumes "best P key newest" "r \<in> T" "rec_key r = key" "\<And>r'. r' \<in> T \<Longrightarrow> rec_key r' = key \<Longrightarrow> r' = r" "newer newest r"
  shows "best (P \<union> T) key (Some r)"
  using assms by (cases newest) (fastforce simp: best_def top_record_def newer_def)+

lemma get_tables_best:
  assumes "\<forall>t \<in> set ts. table_holds (pf_digest pf) t (rows_of (pf_digest pf) t)" "agreeing (P \<union> table_rows (pf_digest pf) ts)" "best P key newest"
  shows "\<exists>o'. get_tables pf key ts newest = Inr o' \<and> best (P \<union> table_rows (pf_digest pf) ts) key o'"
  using assms
proof (induction ts arbitrary: P newest)
  case (Cons t ts)
  let ?dg = "pf_digest pf"
  let ?rs = "rows_of ?dg t"
  have t: "table_holds ?dg t ?rs" using Cons.prems(1) by simp
  have T: "{r. Inr r \<in> set (table_iter ?dg t)} = set ?rs" by (rule table_holds_rows [OF t])
  have all: "P \<union> table_rows ?dg (t # ts) = (P \<union> set ?rs) \<union> table_rows ?dg ts" by (auto simp: T)
  have agree: "agreeing ((P \<union> set ?rs) \<union> table_rows ?dg ts)" using Cons.prems(2) unfolding all .
  have go: "\<exists>o'. get_tables pf key ts n = Inr o' \<and> best (P \<union> table_rows ?dg (t # ts)) key o'" if "best (P \<union> set ?rs) key n" for n
    unfolding all using Cons.IH [OF _ agree that] Cons.prems(1) by simp
  have inside: "meta_contains (tb_meta t) (rec_key r) \<and> rec_sequence r \<le> tm_max_sequence (tb_meta t)" if "r \<in> set ?rs" for r
    using t that key_ordered_hd [of ?rs r] key_ordered_last [of ?rs r] by (auto simp: table_holds_def meta_contains_def)
  show ?case
  proof (cases "\<not> meta_contains (tb_meta t) key \<or> (case newest of None \<Rightarrow> False | Some r \<Rightarrow> rec_sequence r > tm_max_sequence (tb_meta t))")
    case True
    have "best (P \<union> set ?rs) key newest"
      by (rule best_skip [OF Cons.prems(3)]) (use True inside in \<open>force split: option.splits\<close>)
    then show ?thesis using True go by simp
  next
    case False
    obtain p n where lk: "table_lookup ?dg t key = Inr \<lparr>lk_record = find (\<lambda>r. rec_key r = key) ?rs, lk_bloom_positive = p, lk_block_bytes = n\<rparr>"
      using t unfolding table_holds_def by blast
    show ?thesis
    proof (cases "find (\<lambda>r. rec_key r = key) ?rs")
      case None
      then have "best (P \<union> set ?rs) key newest" by (intro best_skip [OF Cons.prems(3)]) (auto simp: find_None_iff)
      then show ?thesis using False go lk None by simp
    next
      case (Some r)
      have ord: "key_ordered ?rs" using t by (simp add: table_holds_def)
      have r: "r \<in> set ?rs" "rec_key r = key" using Some find_key [OF ord] by auto
      have unique: "r' = r" if "r' \<in> set ?rs" "rec_key r' = key" for r' using Some find_key [OF ord, of key r'] that by simp
      have no_conflict: "\<not> (case newest of None \<Rightarrow> False | Some q \<Rightarrow> rec_sequence q = rec_sequence r \<and> rec_value q \<noteq> rec_value r)"
      proof (cases newest)
        case (Some q)
        then have "q \<in> P" "rec_key q = rec_key r" using Cons.prems(3) r(2) by (auto simp: best_def top_record_def)
        then show ?thesis using agree r(1) Some unfolding agreeing_def by auto
      qed simp
      have "best (P \<union> set ?rs) key (if newer newest r then Some r else newest)"
      proof (cases "newer newest r")
        case True
        then show ?thesis using best_replace [OF Cons.prems(3) r(1,2) unique] by simp
      next
        case False
        then have "best (P \<union> set ?rs) key newest"
          by (intro best_skip [OF Cons.prems(3)]) (use unique in \<open>auto simp: newer_def not_less split: option.splits\<close>)
        then show ?thesis using False by simp
      qed
      then show ?thesis using False go lk Some no_conflict by simp
    qed
  qed
qed simp

lemma get_exact:
  assumes s: "lsm_ok pf s" and healthy: "\<not> ls_poisoned s"
  shows "lsm_get pf key s = (Inr (snd (snd (lsm_state pf s)) key), s)"
proof -
  let ?R = "image_rows pf (handle_image s)"
  have mem: "mem_ok (mf_applied (ls_manifest s)) (ls_applied s) (ls_mem s)" by (rule lsm_mem(1) [OF s])
  then have rows: "snd ` set (ls_mem s) = {r. \<exists>k. bt_get (ls_mem s) k = Some r}" by (simp add: mem_ok_def mem_rows_get)
  have agree: "agreeing (snd ` set (ls_mem s) \<union> table_rows (pf_digest pf) (ls_tables s))" using s by (simp add: lsm_ok_def handle_rows)
  have "best (snd ` set (ls_mem s)) key (bt_get (ls_mem s) key)"
    unfolding rows best_def top_record_def using mem by (auto simp: mem_ok_def split: option.split)
  from get_tables_best [OF lsm_tables(2) [OF s] agree this] obtain newest where
    "get_tables pf key (ls_tables s) (bt_get (ls_mem s) key) = Inr newest" "best ?R key newest" by (auto simp: handle_rows)
  then show ?thesis
    using best_view [OF finite_image_rows, of pf "handle_image s"] s healthy
    by (simp add: lsm_get_def op_bind_def healthy_def op_lift_def op_ok_def lsm_state_parts lsm_ok_def)
qed

section \<open>Scans\<close>

definition live :: "store_record list \<Rightarrow> (byte list \<times> byte list) list" where
  "live rows = List.map_filter (\<lambda>r. map_option (Pair (rec_key r)) (rec_value r)) rows"

definition row_bytes :: "(byte list \<times> byte list) list \<Rightarrow> nat" where
  "row_bytes rows = sum_list (map (\<lambda>(k, v). length k + length v) rows)"

lemma scan_rows_live:
  "n \<le> 256 * 1024 * 1024 \<Longrightarrow> scan_rows n (map Inr rows) =
     (if n + row_bytes (live rows) \<le> 256 * 1024 * 1024 then Inr (live rows) else Inl (OutOfMemory ''materialized scan exceeds 256 MiB''))"
proof (induction rows arbitrary: n)
  case (Cons r rows)
  show ?case
  proof (cases "rec_value r")
    case (Some v)
    let ?n = "n + length (rec_key r) + length v"
    show ?thesis
    proof (cases "?n \<le> 256 * 1024 * 1024")
      case True
      then show ?thesis using Cons.IH [OF True] Some by (auto simp: live_def map_filter_simps row_bytes_def)
    next
      case False
      then show ?thesis using Some by (auto simp: live_def map_filter_simps row_bytes_def)
    qed
  qed (use Cons in \<open>simp add: live_def map_filter_simps\<close>)
qed (simp add: live_def map_filter_simps row_bytes_def)

lemma live_set: "(k, v) \<in> set (live rows) \<longleftrightarrow> (\<exists>r \<in> set rows. rec_key r = k \<and> rec_value r = Some v)"
proof (induction rows)
  case (Cons r rows)
  then show ?case by (cases "rec_value r") (auto simp: live_def map_filter_simps)
qed (simp add: live_def map_filter_simps)

lemma live_ordered: "sorted_wrt (<) (map rec_key rows) \<Longrightarrow> sorted_wrt (<) (map fst (live rows))"
proof (induction rows)
  case (Cons r rows)
  have "fst ` set (live rows) \<subseteq> rec_key ` set rows" by (force simp: live_set)
  then show ?case using Cons by (cases "rec_value r") (auto simp: live_def map_filter_simps)
qed (simp add: live_def map_filter_simps)

lemma scan_exact:
  assumes s: "lsm_ok pf s" and healthy: "\<not> ls_poisoned s"
  shows "\<exists>rows. sorted_wrt (<) (map fst rows) \<and> set rows = {(k, v). snd (snd (lsm_state pf s)) k = Some v} \<and>
    lsm_scan pf s = (if row_bytes rows \<le> 256 * 1024 * 1024 then Inr rows else Inl (OutOfMemory ''materialized scan exceeds 256 MiB''), s)"
proof -
  let ?R = "image_rows pf (handle_image s)" and ?runs = "map snd (ls_mem s) # map (rows_of (pf_digest pf)) (ls_tables s)"
  have mem: "mem_ok (mf_applied (ls_manifest s)) (ls_applied s) (ls_mem s)" by (rule lsm_mem(1) [OF s])
  have keys: "map rec_key (map snd (ls_mem s)) = map fst (ls_mem s)"
  proof -
    have "distinct (map fst (ls_mem s))" using mem by (auto simp: mem_ok_def bt_sorted_def strict_sorted_iff)
    then show ?thesis using mem by (auto simp: mem_ok_def)
  qed
  have all: "\<Union>(set ` set ?runs) = ?R" using table_rows_of [OF lsm_tables(2) [OF s]] by (simp add: handle_rows)
  have "sorted_wrt (<) (map rec_key (map snd (ls_mem s)))" unfolding keys using mem by (simp add: mem_ok_def bt_sorted_def)
  then have ord: "\<forall>rs \<in> set ?runs. sorted_wrt (<) (map rec_key rs)"
    using lsm_tables(2) [OF s] by (auto simp: table_holds_def)
  have agree: "agreeing ?R" using s by (simp add: lsm_ok_def)
  obtain rows where rows: "merge_runs (map (map Inr) ?runs) = Inr rows" "newest_rows ?R rows"
    using merge_runs_spec [OF ord] agree unfolding all by blast
  have iter: "map (table_iter (pf_digest pf)) (ls_tables s) = map (map Inr) (map (rows_of (pf_digest pf)) (ls_tables s))"
    using lsm_tables(2) [OF s] by (auto simp: table_holds_def)
  have src: "mem_rows s # map (table_iter (pf_digest pf)) (ls_tables s) = map (map Inr) ?runs" unfolding iter by (simp add: mem_rows_def)
  from rows(1) obtain merged where m: "merge_new (map (map Inr) ?runs) = Inr merged" "merge_yields merged = map Inr rows"
    unfolding merge_runs_def rbind_Inr_iff using merge_yields_collect by blast
  have "lsm_scan pf s = (scan_rows 0 (map Inr rows), s)"
    using healthy m by (simp add: lsm_scan_def src op_bind_def healthy_def op_lift_def)
  moreover have "set (live rows) = {(k, v). view ?R k = Some v}"
  proof -
    have "r \<in> set rows \<longleftrightarrow> top_record ?R r" for r using rows(2) by (auto simp: newest_rows_def top_record_def)
    then have "(k, v) \<in> set (live rows) \<longleftrightarrow> view ?R k = Some v" for k v
      unfolding view_Some_iff [OF finite_image_rows agree] live_set by blast
    then show ?thesis by auto
  qed
  moreover have "sorted_wrt (<) (map fst (live rows))" using rows(2) by (intro live_ordered) (simp add: newest_rows_def)
  ultimately show ?thesis
    using scan_rows_live [of 0 rows] by (intro exI [of _ "live rows"]) (simp add: lsm_state_parts)
qed

end
