(* ===== verification/Lsm_Refines.thy ===== *)
theory Lsm_Refines
  imports Lsm_Reads
begin

text \<open>
  What the engine promises: \<^verbatim>\<open>trait StateStore\<close> of \<^verbatim>\<open>state-store/src/lib.rs\<close> as a contract, its implementation by the
  log-structured engine, and the properties of whole lives of a store with failures and restarts in between.
\<close>

section \<open>The contract of a state store\<close>

locale state_store =
  fixes usable :: "'h \<Rightarrow> bool" and contents :: "'h \<Rightarrow> nat \<times> (byte list \<Rightarrow> byte list option)"
    and read_key :: "byte list \<Rightarrow> 'h \<Rightarrow> byte list option stored"
    and read_all :: "'h \<Rightarrow> (byte list \<times> byte list) list stored"
    and commit :: "nat \<Rightarrow> nat \<Rightarrow> mutation list \<Rightarrow> 'h \<Rightarrow> commit_outcome stored \<times> 'h"
    and install :: "nat \<Rightarrow> mutation list \<Rightarrow> 'h \<Rightarrow> unit stored \<times> 'h"
    and reopen :: "'h \<Rightarrow> 'h stored"
  assumes reads: "usable h \<Longrightarrow> read_key k h = Inr (snd (contents h) k)"
    and scans: "usable h \<Longrightarrow> read_all h = Inr rows \<Longrightarrow> sorted_wrt (<) (map fst rows) \<and> set rows = {(k, v). snd (contents h) k = Some v}"
    and commits: "usable h \<Longrightarrow> idx \<le> u64_max \<Longrightarrow> commit f idx cs h = (Inr CommitApplied, h') \<Longrightarrow>
      usable h' \<and> fst (contents h) + 1 = f \<and> contents h' = (idx, updated cs (snd (contents h)))"
    and replays: "usable h \<Longrightarrow> idx \<le> u64_max \<Longrightarrow> commit f idx cs h = (Inr CommitReplay, h') \<Longrightarrow> h' = h \<and> fst (contents h) = idx"
    and commit_fails: "usable h \<Longrightarrow> idx \<le> u64_max \<Longrightarrow> commit f idx cs h = (Inl e, h') \<Longrightarrow>
      \<exists>h''. reopen h' = Inr h'' \<and> usable h'' \<and> (contents h'' = contents h \<or> contents h'' = (idx, updated cs (snd (contents h))))"
    and installs: "usable h \<Longrightarrow> idx \<le> u64_max \<Longrightarrow> install idx cells h = (Inr (), h') \<Longrightarrow>
      usable h' \<and> contents h' = (idx, updated cells (\<lambda>_. None))"
    and install_fails: "usable h \<Longrightarrow> idx \<le> u64_max \<Longrightarrow> install idx cells h = (Inl e, h') \<Longrightarrow>
      \<exists>h''. reopen h' = Inr h'' \<and> usable h'' \<and> (contents h'' = contents h \<or> contents h'' = (idx, updated cells (\<lambda>_. None)))"
    and reopens: "usable h \<Longrightarrow> \<exists>h'. reopen h = Inr h' \<and> usable h' \<and> contents h' = contents h"
begin

text \<open>Whatever a commit answers, opening the store again finds the state before it or the state after it.\<close>

lemma commit_atomic:
  assumes "usable h" "idx \<le> u64_max" "commit f idx cs h = (r, h')"
  shows "\<exists>h''. reopen h' = Inr h'' \<and> usable h'' \<and>
    (if r = Inr CommitApplied then contents h'' = (idx, updated cs (snd (contents h)))
     else contents h'' = contents h \<or> contents h'' = (idx, updated cs (snd (contents h))))"
proof (cases r)
  case (Inl e)
  then show ?thesis using commit_fails [of h idx f cs e h'] assms by auto
next
  case (Inr c)
  then show ?thesis
    using commits [of h idx f cs h'] replays [of h idx f cs h'] reopens assms by (cases c) (metis sum.inject(2) commit_outcome.distinct(1))+
qed

text \<open>A committed write is read back.\<close>

lemma reads_own_writes:
  assumes "usable h" "idx \<le> u64_max" "commit f idx cs h = (Inr CommitApplied, h')"
  shows "read_key k h' = Inr (case map_of (map (\<lambda>c. (mut_key c, mut_value c)) cs) k of None \<Rightarrow> snd (contents h) k | Some v \<Rightarrow> v)"
  using commits [OF assms] reads [of h' k] by (simp add: updated_def)

end

section \<open>The log-structured engine keeps the contract\<close>

text \<open>A handle of the contract is an open engine with its platform and the options it is opened with.\<close>

type_synonym engine = "platform \<times> lsm_options \<times> lsm"

definition lsm_usable :: "engine \<Rightarrow> bool" where
  "lsm_usable h = (case h of (pf, options, s) \<Rightarrow> platform_ok pf \<and> lsm_ok pf s \<and> ls_options s = options \<and> \<not> ls_poisoned s)"

definition lsm_contents :: "engine \<Rightarrow> nat \<times> (byte list \<Rightarrow> byte list option)" where
  "lsm_contents h = (case h of (pf, options, s) \<Rightarrow> (fst (lsm_state pf s), snd (snd (lsm_state pf s))))"

definition on_engine :: "(platform \<Rightarrow> 'a lsm_op) \<Rightarrow> engine \<Rightarrow> 'a stored \<times> engine" where
  "on_engine f h = (case h of (pf, options, s) \<Rightarrow> (case f pf s of (r, s') \<Rightarrow> (r, (pf, options, s'))))"

definition lsm_reopen :: "engine \<Rightarrow> engine stored" where
  "lsm_reopen h = (case h of (pf, options, s) \<Rightarrow> rbind (lsm_open pf options (ls_dir s)) (\<lambda>s'. Inr (pf, options, s')))"

lemma lsm_reopen_either:
  assumes "either pf A B s" "platform_ok pf" "options_validate options = Inr ()"
  shows "\<exists>h. lsm_reopen (pf, options, s) = Inr h \<and> lsm_usable h \<and> (lsm_contents h = (fst A, snd (snd A)) \<or> lsm_contents h = (fst B, snd (snd B)))"
  using reopen_state [OF assms(1,3)] assms(2) by (auto simp: lsm_reopen_def lsm_usable_def lsm_contents_def)

lemma commit_fst: "is_ok (encode_batch f idx cs) \<Longrightarrow> (fst (commit_result pf f idx cs A), snd (snd (commit_result pf f idx cs A))) = (idx, updated cs (snd (snd A)))"
  and commit_refused: "\<not> is_ok (encode_batch f idx cs) \<Longrightarrow> commit_result pf f idx cs A = A"
  by (cases A; auto simp: commit_result_def committed_def is_ok_def split: sum.splits)+

interpretation engine: state_store lsm_usable lsm_contents "\<lambda>k h. fst (on_engine (\<lambda>pf. lsm_get pf k) h)"
    "\<lambda>h. fst (on_engine lsm_scan h)" "\<lambda>f idx cs. on_engine (\<lambda>pf. commit_range pf f idx cs)"
    "\<lambda>idx cells. on_engine (\<lambda>pf. lsm_install pf idx cells)" lsm_reopen
proof
  fix h :: engine
  assume u: "lsm_usable h"
  obtain pf options s where h: "h = (pf, options, s)" by (cases h)
  have pf: "platform_ok pf" and s: "lsm_ok pf s" and hl: "\<not> ls_poisoned s" and op: "ls_options s = options"
    using u by (auto simp: lsm_usable_def h)
  have ov: "options_validate options = Inr ()" using s op by (simp add: lsm_ok_def)
  show "fst (on_engine (\<lambda>pf. lsm_get pf k) h) = Inr (snd (lsm_contents h) k)" for k
    using get_exact [OF s hl, of k] by (simp add: on_engine_def lsm_contents_def h)
  show "sorted_wrt (<) (map fst rows) \<and> set rows = {(k, v). snd (lsm_contents h) k = Some v}" if "fst (on_engine lsm_scan h) = Inr rows" for rows
    using scan_exact [OF s hl] that by (auto simp: on_engine_def lsm_contents_def h split: if_splits)
  show "\<exists>h'. lsm_reopen h = Inr h' \<and> lsm_usable h' \<and> lsm_contents h' = lsm_contents h"
  proof -
    have "either pf (lsm_state pf s) (lsm_state pf s) s" using lsm_ok_kept [OF s] by simp
    from lsm_reopen_either [OF this pf ov] show ?thesis by (auto simp: h lsm_contents_def)
  qed
  fix idx :: nat and cs :: "mutation list" and h' :: engine
  assume idx: "idx \<le> u64_max"
  obtain pf' options' s' where h': "h' = (pf', options', s')" by (cases h')
  note c = commit_outcome [OF pf s idx refl]
  note i = install_outcome [OF pf s idx]
  have st: "lsm_contents h = (fst (lsm_state pf s), snd (snd (lsm_state pf s)))" "fst (lsm_contents h) = ls_applied s"
    by (simp_all add: lsm_contents_def h lsm_state_parts)
  show "lsm_usable h' \<and> fst (lsm_contents h) + 1 = f \<and> lsm_contents h' = (idx, updated cs (snd (lsm_contents h)))"
    if "on_engine (\<lambda>pf. commit_range pf f idx cs) h = (Inr CommitApplied, h')" for f
  proof -
    have r: "commit_range pf f idx cs s = (Inr CommitApplied, s')" "pf' = pf" "options' = options"
      using that by (auto simp: on_engine_def h h' split: prod.splits)
    from c [of f cs] show ?thesis unfolding r(1) outcome_Inr using pf op commit_fst [of f idx cs pf "lsm_state pf s"]
      by (auto simp: lsm_usable_def h' r(2,3) lsm_contents_def h lsm_state_parts [of pf s])
  qed
  show "h' = h \<and> fst (lsm_contents h) = idx" if "on_engine (\<lambda>pf. commit_range pf f idx cs) h = (Inr CommitReplay, h')" for f
  proof -
    have r: "commit_range pf f idx cs s = (Inr CommitReplay, s')" "pf' = pf" "options' = options"
      using that by (auto simp: on_engine_def h h' split: prod.splits)
    from c [of f cs] show ?thesis unfolding r(1) outcome_Inr by (simp add: h h' r(2,3) lsm_contents_def lsm_state_parts)
  qed
  show "\<exists>h''. lsm_reopen h' = Inr h'' \<and> lsm_usable h'' \<and> (lsm_contents h'' = lsm_contents h \<or> lsm_contents h'' = (idx, updated cs (snd (lsm_contents h))))"
    if "on_engine (\<lambda>pf. commit_range pf f idx cs) h = (Inl e, h')" for f e
  proof -
    have r: "commit_range pf f idx cs s = (Inl e, s')" "pf' = pf" "options' = options"
      using that by (auto simp: on_engine_def h h' split: prod.splits)
    from c [of f cs] have "either pf (lsm_state pf s) (commit_result pf f idx cs (lsm_state pf s)) s'" unfolding r(1) outcome_Inl by simp
    from lsm_reopen_either [OF this pf ov] show ?thesis
      using commit_fst [of f idx cs pf "lsm_state pf s"] commit_refused [of f idx cs pf "lsm_state pf s"] unfolding h' r(2,3) st(1)
      by (cases "is_ok (encode_batch f idx cs)") auto
  qed
  show "lsm_usable h' \<and> lsm_contents h' = (idx, updated cs (\<lambda>_. None))" if "on_engine (\<lambda>pf. lsm_install pf idx cs) h = (Inr (), h')"
  proof -
    have r: "lsm_install pf idx cs s = (Inr (), s')" "pf' = pf" "options' = options"
      using that by (auto simp: on_engine_def h h' split: prod.splits)
    from i [of cs] show ?thesis unfolding r(1) outcome_Inr using pf op by (auto simp: lsm_usable_def h' r(2,3) lsm_contents_def installed_def)
  qed
  show "\<exists>h''. lsm_reopen h' = Inr h'' \<and> lsm_usable h'' \<and> (lsm_contents h'' = lsm_contents h \<or> lsm_contents h'' = (idx, updated cs (\<lambda>_. None)))"
    if "on_engine (\<lambda>pf. lsm_install pf idx cs) h = (Inl e, h')" for e
  proof -
    have r: "lsm_install pf idx cs s = (Inl e, s')" "pf' = pf" "options' = options"
      using that by (auto simp: on_engine_def h h' split: prod.splits)
    from i [of cs] have "either pf (lsm_state pf s) (installed idx cs) s'" unfolding r(1) outcome_Inl by simp
    from lsm_reopen_either [OF this pf ov] show ?thesis unfolding h' r(2,3) st(1) by (auto simp: installed_def)
  qed
qed

section \<open>Lives of a store\<close>

datatype store_command =
    Commit nat nat "mutation list" | Install nat "mutation list" | Flush | Compact | Maintain

fun run_command :: "platform \<Rightarrow> store_command \<Rightarrow> lsm \<Rightarrow> bool \<times> lsm" where
  "run_command pf (Commit f idx cs) s = (case commit_range pf f idx cs s of (r, s') \<Rightarrow> (r = Inr CommitApplied, s'))"
| "run_command pf (Install idx cells) s = (case lsm_install pf idx cells s of (r, s') \<Rightarrow> (is_ok r, s'))"
| "run_command pf Flush s = (case lsm_flush pf s of (r, s') \<Rightarrow> (is_ok r, s'))"
| "run_command pf Compact s = (case compact_once pf s of (r, s') \<Rightarrow> (is_ok r, s'))"
| "run_command pf Maintain s = (case lsm_maintain pf s of (r, s') \<Rightarrow> (is_ok r, s'))"

fun command_fits :: "store_command \<Rightarrow> bool" where
  "command_fits (Commit f idx cs) = (idx \<le> u64_max)"
| "command_fits (Install idx cells) = (idx \<le> u64_max)"
| "command_fits _ = True"

fun command_result :: "platform \<Rightarrow> store_command \<Rightarrow> nat \<times> byte list \<times> (byte list \<Rightarrow> byte list option) \<Rightarrow>
    nat \<times> byte list \<times> (byte list \<Rightarrow> byte list option)" where
  "command_result pf (Commit f idx cs) A = commit_result pf f idx cs A"
| "command_result pf (Install idx cells) A = installed idx cells"
| "command_result pf _ A = A"

lemma maintenance_outcome:
  assumes "outcome (f s) (\<lambda>_ s'. maintained pf s s') (still pf s)" "lsm_ok pf s"
  shows "outcome (mutation_guard f s) (\<lambda>_ s'. maintained pf s s' \<and> \<not> ls_poisoned s') (\<lambda>s'. still pf s s' \<and> (ls_poisoned s' \<or> s' = s))"
proof (cases "ls_poisoned s")
  case True
  then show ?thesis using lsm_ok_kept [OF assms(2)] by (simp add: outcome_guard)
next
  case False
  have "outcome (f s) (\<lambda>_ s'. maintained pf s s' \<and> \<not> ls_poisoned s') (\<lambda>s'. still pf s (s'\<lparr>ls_poisoned := True\<rparr>) \<and> (ls_poisoned (s'\<lparr>ls_poisoned := True\<rparr>) \<or> s' = s))"
    by (rule outcome_mono [OF assms(1)]) (use False in \<open>auto simp: maintained_def\<close>)
  then show ?thesis using False by (simp add: outcome_guard)
qed

lemma maintain_outcome:
  assumes pf: "platform_ok pf" and s: "lsm_ok pf s"
  shows "outcome (lsm_flush pf s) (\<lambda>_ s'. maintained pf s s' \<and> \<not> ls_poisoned s') (\<lambda>s'. still pf s s' \<and> (ls_poisoned s' \<or> s' = s))"
    "outcome (compact_once pf s) (\<lambda>_ s'. maintained pf s s' \<and> \<not> ls_poisoned s') (\<lambda>s'. still pf s s' \<and> (ls_poisoned s' \<or> s' = s))"
    "outcome (lsm_maintain pf s) (\<lambda>_ s'. maintained pf s s' \<and> \<not> ls_poisoned s') (\<lambda>s'. still pf s s' \<and> (ls_poisoned s' \<or> s' = s))"
proof -
  show "outcome (lsm_flush pf s) (\<lambda>_ s'. maintained pf s s' \<and> \<not> ls_poisoned s') (\<lambda>s'. still pf s s' \<and> (ls_poisoned s' \<or> s' = s))"
    unfolding lsm_flush_def
    by (rule maintenance_outcome [OF _ s]) (rule outcome_mono [OF flush_outcome [OF pf s]]; simp)
  show compact: "outcome (compact_once pf s) (\<lambda>_ s'. maintained pf s s' \<and> \<not> ls_poisoned s') (\<lambda>s'. still pf s s' \<and> (ls_poisoned s' \<or> s' = s))"
    unfolding compact_once_def by (rule maintenance_outcome [OF _ s]) (rule outcome_mono [OF compact_inner_outcome [OF pf s]]; simp)
  show "outcome (lsm_maintain pf s) (\<lambda>_ s'. maintained pf s s' \<and> \<not> ls_poisoned s') (\<lambda>s'. still pf s s' \<and> (ls_poisoned s' \<or> s' = s))"
    using compact lsm_ok_kept [OF s] maintained_refl [OF s] by (simp add: lsm_maintain_def wp)
qed

lemma maintenance_result:
  assumes "outcome (r, s') (\<lambda>_ s'. maintained pf s s' \<and> \<not> ls_poisoned s') (\<lambda>s'. still pf s s' \<and> (ls_poisoned s' \<or> s' = s))" "lsm_ok pf s"
  shows "either pf (lsm_state pf s) (lsm_state pf s) s' \<and> (\<not> ls_poisoned s' \<longrightarrow> lsm_ok pf s' \<and> ls_options s' = ls_options s) \<and>
    (is_ok r \<longrightarrow> \<not> ls_poisoned s' \<and> lsm_state pf s' = lsm_state pf s)"
proof (cases r)
  case (Inl e)
  then show ?thesis using assms by (auto simp: outcome_Inl is_ok_def)
next
  case (Inr x)
  then show ?thesis using assms(1) lsm_ok_kept [of pf s'] by (auto simp: outcome_Inr maintained_def)
qed

text \<open>One command, whatever its answer: the handle stays sound or becomes poisoned, and the directory holds the old state or the new.\<close>

lemma run_command_outcome:
  assumes pf: "platform_ok pf" and s: "lsm_ok pf s" and fits: "command_fits c" and run: "run_command pf c s = (acked, s')"
  shows "either pf (lsm_state pf s) (command_result pf c (lsm_state pf s)) s'" "\<not> ls_poisoned s' \<Longrightarrow> lsm_ok pf s' \<and> ls_options s' = ls_options s"
    "acked \<Longrightarrow> \<not> ls_poisoned s' \<and> lsm_state pf s' = command_result pf c (lsm_state pf s)"
proof -
  have key: "either pf (lsm_state pf s) (command_result pf c (lsm_state pf s)) s' \<and> (\<not> ls_poisoned s' \<longrightarrow> lsm_ok pf s' \<and> ls_options s' = ls_options s) \<and>
      (acked \<longrightarrow> \<not> ls_poisoned s' \<and> lsm_state pf s' = command_result pf c (lsm_state pf s))"
  proof (cases c)
    case (Commit f idx cs)
    obtain r where r: "commit_range pf f idx cs s = (r, s')" "acked = (r = Inr CommitApplied)" using run by (auto simp: Commit split: prod.splits)
    have idx: "idx \<le> u64_max" using fits by (simp add: Commit)
    have out: "outcome (r, s')
      (\<lambda>r s'. lsm_ok pf s' \<and> ls_options s' = ls_options s \<and> \<not> ls_poisoned s' \<and> (r = CommitReplay \<longrightarrow> s' = s \<and> idx = ls_applied s) \<and>
         (r = CommitApplied \<longrightarrow> lsm_state pf s' = command_result pf c (lsm_state pf s) \<and> ls_applied s + 1 = f \<and> is_ok (encode_batch f idx cs)))
      (\<lambda>s'. either pf (lsm_state pf s) (command_result pf c (lsm_state pf s)) s' \<and> (ls_poisoned s' \<or> s' = s))"
      using commit_outcome [OF pf s idx refl, of f cs] unfolding r Commit by simp
    show ?thesis
    proof (cases r)
      case (Inl e)
      then show ?thesis using out s by (auto simp: outcome_Inl r(2))
    next
      case (Inr x)
      have "either pf (lsm_state pf s) (command_result pf c (lsm_state pf s)) s'"
        using out lsm_ok_kept [of pf s'] unfolding Inr outcome_Inr by (cases x) (auto elim: kept_mono)
      then show ?thesis using out by (auto simp: outcome_Inr r(2) Inr)
    qed
  next
    case (Install idx cells)
    obtain r where r: "lsm_install pf idx cells s = (r, s')" "acked = is_ok r" using run by (auto simp: Install split: prod.splits)
    have idx: "idx \<le> u64_max" using fits by (simp add: Install)
    show ?thesis
    proof (cases r)
      case (Inl e)
      then show ?thesis using install_outcome [OF pf s idx, of cells] s unfolding r Inl outcome_Inl by (auto simp: Install is_ok_def)
    next
      case (Inr x)
      then have "lsm_ok pf s' \<and> lsm_state pf s' = installed idx cells \<and> ls_options s' = ls_options s \<and> \<not> ls_poisoned s'"
        using install_outcome [OF pf s idx, of cells] unfolding r Inr outcome_Inr by simp
      then show ?thesis using kept_mono [OF lsm_ok_kept [of pf s']] by (auto simp: Install)
    qed
  next
    case Flush
    obtain r where "lsm_flush pf s = (r, s')" "acked = is_ok r" using run by (auto simp: Flush split: prod.splits)
    then show ?thesis using maintenance_result [of r s' pf s] maintain_outcome(1) [OF pf s] s by (simp add: Flush)
  next
    case Compact
    obtain r where "compact_once pf s = (r, s')" "acked = is_ok r" using run by (auto simp: Compact split: prod.splits)
    then show ?thesis using maintenance_result [of r s' pf s] maintain_outcome(2) [OF pf s] s by (simp add: Compact)
  next
    case Maintain
    obtain r where "lsm_maintain pf s = (r, s')" "acked = is_ok r" using run by (auto simp: Maintain split: prod.splits)
    then show ?thesis using maintenance_result [of r s' pf s] maintain_outcome(3) [OF pf s] s by (simp add: Maintain)
  qed
  then show "either pf (lsm_state pf s) (command_result pf c (lsm_state pf s)) s'" "\<not> ls_poisoned s' \<Longrightarrow> lsm_ok pf s' \<and> ls_options s' = ls_options s"
    "acked \<Longrightarrow> \<not> ls_poisoned s' \<and> lsm_state pf s' = command_result pf c (lsm_state pf s)" by auto
qed

text \<open>
  A life of a store: it is opened in an empty directory, then commands run, failures are armed, and the process may
  crash and open it again at any time.  The ghost state lists the states the directory may stand for.
\<close>

inductive store_life :: "platform \<Rightarrow> lsm_options \<Rightarrow> lsm \<Rightarrow> bool" for pf options where
  opened: "lsm_open pf options empty_directory = Inr s \<Longrightarrow> store_life pf options s"
| armed: "store_life pf options s \<Longrightarrow> store_life pf options (s\<lparr>ls_fault := fault\<rparr>)"
| commanded: "store_life pf options s \<Longrightarrow> command_fits c \<Longrightarrow> run_command pf c s = (acked, s') \<Longrightarrow> store_life pf options s'"
| restarted: "store_life pf options s \<Longrightarrow> lsm_open pf options (ls_dir s) = Inr s' \<Longrightarrow> store_life pf options s'"

definition durable :: "platform \<Rightarrow> lsm_options \<Rightarrow> lsm \<Rightarrow> bool" where
  "durable pf options s \<longleftrightarrow> options_validate options = Inr () \<and> (\<exists>A. kept pf (sound_image pf A) (ls_dir s)) \<and>
     (\<not> ls_poisoned s \<longrightarrow> lsm_ok pf s \<and> ls_options s = options)"

lemma poisoned_unmoved: "ls_poisoned s \<Longrightarrow> run_command pf c s = (acked, s') \<Longrightarrow> s' = s \<and> \<not> acked"
proof (cases c)
  case (Commit f idx cs)
  assume "ls_poisoned s" "run_command pf c s = (acked, s')"
  then show ?thesis by (auto simp: Commit commit_range_def op_bind_def healthy_def)
next
  case (Install idx cells)
  assume "ls_poisoned s" "run_command pf c s = (acked, s')"
  then show ?thesis
    by (auto simp: Install lsm_install_def op_bind_def op_lift_def op_fail_def mutation_guard_def healthy_def is_ok_def split: sum.splits if_splits)
qed (auto simp: lsm_flush_def compact_once_def lsm_maintain_def mutation_guard_def op_bind_def healthy_def is_ok_def)

lemma life_durable:
  assumes pf: "platform_ok pf" and life: "store_life pf options s"
  shows "durable pf options s"
  using life
proof (induction rule: store_life.induct)
  case (opened s)
  note f = open_fresh [OF pf opened]
  then show ?case using lsm_ok_kept [OF f(1)] by (auto simp: durable_def lsm_ok_def)
next
  case (armed s fault)
  then show ?case by (auto simp: durable_def lsm_ok_fault)
next
  case (commanded s c acked s')
  show ?case
  proof (cases "ls_poisoned s")
    case True
    then show ?thesis using poisoned_unmoved [OF True commanded(3)] commanded.IH by simp
  next
    case False
    then have s: "lsm_ok pf s" "ls_options s = options" using commanded.IH by (auto simp: durable_def)
    note r = run_command_outcome [OF pf s(1) commanded(2,3)]
    have "\<exists>A. kept pf (sound_image pf A) (ls_dir s')" using r(1) unfolding kept_def by blast
    then show ?thesis using r(2) s(2) commanded.IH by (auto simp: durable_def)
  qed
next
  case (restarted s s')
  then obtain A where A: "kept pf (sound_image pf A) (ls_dir s)" "options_validate options = Inr ()" by (auto simp: durable_def)
  obtain t where t: "lsm_open pf options (ls_dir s) = Inr t" "follows pf t" "sound_image pf A (handle_image t)" "ls_options t = options"
    by (rule reopen [OF A])
  then have "lsm_ok pf s'" "ls_options s' = options" using restarted(2) A(2) by (auto simp: lsm_ok_def sound_image_def)
  then show ?case using lsm_ok_kept [of pf s'] A(2) unfolding durable_def by blast
qed

text \<open>A compaction that ran leaves less to compact.\<close>

lemma maintain_shrinks:
  assumes pf: "platform_ok pf" and s: "lsm_ok pf s" and ran: "lsm_maintain pf s = (Inr True, s')"
  shows "(s', s) \<in> shrinks"
proof -
  have c: "\<not> ls_poisoned s" "compact_inner pf s = (Inr True, s')"
    using ran by (auto simp: lsm_maintain_def compact_once_def mutation_guard_def op_bind_def healthy_def op_ok_def split: if_splits sum.splits prod.splits)
  show ?thesis using compact_inner_outcome [OF pf s] unfolding c(2) outcome_Inr by simp
qed

section \<open>Samples\<close>

definition manifest_code :: "manifest \<Rightarrow> nat \<times> nat \<times> byte list \<times> nat \<times> nat \<times> (nat \<times> nat \<times> nat \<times> byte list \<times> byte list \<times> nat \<times> nat \<times> nat) list" where
  "manifest_code m = (mf_version m, mf_applied m, mf_last_digest m, mf_next_id m, mf_wal_id m,
     map (\<lambda>t. (tm_id t, tm_level t, tm_bytes t, tm_first t, tm_last t, tm_min_sequence t, tm_max_sequence t, tm_records t)) (mf_tables m))"

definition code_manifest :: "nat \<times> nat \<times> byte list \<times> nat \<times> nat \<times> (nat \<times> nat \<times> nat \<times> byte list \<times> byte list \<times> nat \<times> nat \<times> nat) list \<Rightarrow> manifest" where
  "code_manifest c = (case c of (v, a, h, n, w, ts) \<Rightarrow> \<lparr>mf_version = v, mf_applied = a, mf_last_digest = h, mf_next_id = n, mf_wal_id = w,
     mf_tables = map (\<lambda>(i, l, b, f, e, lo, hi, r). \<lparr>tm_id = i, tm_level = l, tm_bytes = b, tm_first = f, tm_last = e,
       tm_min_sequence = lo, tm_max_sequence = hi, tm_records = r\<rparr>) ts\<rparr>)"

lemma code_manifest_code: "code_manifest (manifest_code m) = m"
  by (rule manifest.equality) (auto simp: code_manifest_def manifest_code_def comp_def intro!: map_idI)

definition sample_platform :: platform where
  "sample_platform = \<lparr>pf_digest = zero_digest, pf_manifest_json = unary_json initial_manifest manifest_code,
     pf_manifest_parse = unary_parse initial_manifest code_manifest, pf_footer_json = unary_json sample_footer footer_code,
     pf_footer_parse = unary_parse sample_footer code_footer\<rparr>"

lemma sample_platform_ok: "platform_ok sample_platform"
  by (simp add: platform_ok_def sample_platform_def unary_parse_json [OF code_manifest_code] unary_parse_json [OF code_footer_code])

lemma sample_store:
  obtains s where "lsm_open sample_platform default_options empty_directory = Inr s" "ls_wal_len s = 0"
    "bt_get (fs_wal (ls_dir s)) 1 = Some []" "mf_wal_id (ls_manifest s) = 1" "ls_mem_bytes s = 0" "ls_mem s = []" "ls_options s = default_options" "ls_tables s = []"
proof -
  let ?d = "empty_directory\<lparr>fs_engine := Some engine_identity\<rparr>"
  have dir: "directory_open empty_directory = Inr (True, ?d)" by (simp add: directory_open_def empty_directory_def)
  obtain bytes where f: "frame zero_digest MANIFEST_MAGIC [] = Inr bytes" by (simp add: frame_def Let_def codec_limits)
  have json: "unary_json initial_manifest manifest_code initial_manifest = []" by (simp add: unary_json_def)
  let ?e = "?d\<lparr>fs_wal := bt_insert 1 [] (fs_wal ?d), fs_current := Some bytes\<rparr>"
  have f': "frame (pf_digest sample_platform) MANIFEST_MAGIC (pf_manifest_json sample_platform initial_manifest) = Inr bytes"
    by (simp add: sample_platform_def json f)
  have init: "initialize sample_platform ?d = Inr ?e" by (simp add: initialize_def f')
  have v: "mf_validate initial_manifest = Inr ()" by (simp add: mf_validate_iff initial_manifest_def level_disjoint_def MAX_TABLES_def)
  have "length bytes \<le> MAX_MANIFEST_BYTES" using frame_parts(2) [OF f] by (simp add: MAX_MANIFEST_BYTES_def)
  then have sel: "select_manifest sample_platform ?e = Inr initial_manifest"
    using select_written [OF sample_platform_ok f' _ v, of ?e] by simp
  have read: "read_store sample_platform ?e = Inr (initial_manifest, [], start_of initial_manifest)"
    unfolding read_store_Inr using sel by (auto simp: initial_manifest_def empty_directory_def replay_wal_stop)
  have mk: "marked ?e" by (simp add: marked_def empty_directory_def)
  obtain s0 s where s: "recover sample_platform default_options ?e = Inr s0" "reclaim s0 = (Inr (), s)" "follows sample_platform s"
    "handle_image s = (initial_manifest, [], start_of initial_manifest)" "ls_options s = default_options"
    by (rule recovered [OF read mk])
  have o: "options_validate default_options = Inr ()" by (simp add: options_validate_def default_options_def)
  have "lsm_open sample_platform default_options empty_directory = Inr s"
    unfolding lsm_open_def dir o init rbind_simps prod.case if_True s(1) by (simp add: s(2))
  moreover have "ls_manifest s = initial_manifest" "ls_wal_len s = 0" "ls_mem s = []" "ls_mem_bytes s = 0" "ls_tables s = []"
    using s(4) by (auto simp: handle_image_def start_of_def)
  moreover from this have "bt_get (fs_wal (ls_dir s)) 1 = Some []" "mf_wal_id (ls_manifest s) = 1"
    using s(3) by (auto simp: follows_def initial_manifest_def)
  ultimately show thesis using that s(5) by blast
qed

section \<open>Properties\<close>

text \<open> C22.
  Reads are exact: on a sound, healthy handle a point read never fails and answers with the value of the key in the
  abstract state of the store, wherever its newest record is (memtable, any table of any level, or nowhere), and a scan
  yields exactly the live keys with their values, in key order, unless they exceed 256 MiB.
\<close>
theorem lsm_reads_exact:
  assumes "lsm_ok pf s" "\<not> ls_poisoned s"
  shows "lsm_get pf key s = (Inr (snd (snd (lsm_state pf s)) key), s) \<and>
    (\<exists>rows. sorted_wrt (<) (map fst rows) \<and> set rows = {(k, v). snd (snd (lsm_state pf s)) k = Some v} \<and>
      lsm_scan pf s = (if row_bytes rows \<le> 256 * 1024 * 1024 then Inr rows else Inl (OutOfMemory ''materialized scan exceeds 256 MiB''), s))"
  using get_exact [OF assms] scan_exact [OF assms] by blast

theorem lsm_reads_exact_witness:
  "\<exists>s. lsm_open sample_platform default_options empty_directory = Inr s \<and> lsm_get sample_platform [7] s = (Inr None, s)"
proof -
  obtain s where s: "lsm_open sample_platform default_options empty_directory = Inr s" by (rule sample_store)
  note f = open_fresh [OF sample_platform_ok s]
  show ?thesis using lsm_reads_exact [OF f(1,3), of "[7]"] s by (simp add: f(2))
qed

text \<open> C19.
  A batch is atomic under every failure.  Whatever \<open>commit_range\<close> answers, and wherever an armed failure interrupted it
  (in a flush it triggered, after the log was written, before it was synchronised), the directory opens again, and the
  store then holds the state before the batch or the state after it.  If the batch was acknowledged, handle and directory
  hold the state after it: the applied position, the digest, and every key as the batch left it.
\<close>
theorem lsm_commit_atomic:
  assumes "platform_ok pf" "lsm_ok pf s" "idx \<le> u64_max" "commit_range pf f idx cs s = (r, s')"
  shows "\<exists>s''. lsm_open pf (ls_options s) (ls_dir s') = Inr s'' \<and> lsm_ok pf s'' \<and>
    (lsm_state pf s'' = lsm_state pf s \<or> lsm_state pf s'' = commit_result pf f idx cs (lsm_state pf s)) \<and>
    (r = Inr CommitApplied \<longrightarrow> lsm_ok pf s' \<and> lsm_state pf s' = lsm_state pf s'' \<and>
       fst (lsm_state pf s'') = idx \<and> snd (snd (lsm_state pf s'')) = updated cs (snd (snd (lsm_state pf s))))"
proof -
  let ?B = "commit_result pf f idx cs (lsm_state pf s)"
  have run: "run_command pf (Commit f idx cs) s = (r = Inr CommitApplied, s')" using assms(4) by simp
  have fits: "command_fits (Commit f idx cs)" using assms(3) by simp
  note o = run_command_outcome [OF assms(1,2) fits run, simplified]
  have opts: "options_validate (ls_options s) = Inr ()" using assms(2) by (simp add: lsm_ok_def)
  show ?thesis
  proof (cases "r = Inr CommitApplied")
    case False
    then show ?thesis using reopen_state [OF o(1) opts] by auto
  next
    case True
    then have s': "lsm_ok pf s'" "lsm_state pf s' = ?B" using o(2,3) by auto
    have "either pf (lsm_state pf s') (lsm_state pf s') s'" using lsm_ok_kept [OF s'(1)] by simp
    moreover have "is_ok (encode_batch f idx cs)" using commit_outcome [OF assms(1-3) refl, of f cs] unfolding assms(4) True outcome_Inr by simp
    then have "fst ?B = idx" "snd (snd ?B) = updated cs (snd (snd (lsm_state pf s)))" using commit_fst [of f idx cs pf "lsm_state pf s"] by auto
    ultimately show ?thesis using reopen_state [of pf "lsm_state pf s'" "lsm_state pf s'" s', OF _ opts] s' by auto
  qed
qed

definition sample_put :: mutation where
  "sample_put = \<lparr>mut_key = [7], mut_value = Some [1]\<rparr>"

lemma first_commit:
  assumes s: "lsm_open sample_platform default_options empty_directory = Inr s" and w: "ls_wal_len s = 0"
    "bt_get (fs_wal (ls_dir s)) 1 = Some []" "mf_wal_id (ls_manifest s) = 1" "ls_mem_bytes s = 0" "ls_options s = default_options"
    and cs: "validate_changes cs = Inr (batch_bytes cs)" "encode_batch 1 1 cs = Inr payload" "length payload \<le> 1000" "batch_bytes cs \<le> 1000" "length cs \<le> 10"
  shows "\<exists>s'. commit_range sample_platform 1 1 cs s = (Inr CommitApplied, s')"
proof -
  note f = open_fresh [OF sample_platform_ok s]
  obtain bytes where b: "frame zero_digest WAL_MAGIC payload = Inr bytes" using cs(3) by (simp add: frame_def Let_def codec_limits)
  have applied: "ls_applied s = 0" using f(2) by (simp add: lsm_state_parts)
  show ?thesis
    using cs b f(3,4) w applied
    by (simp add: commit_range_def write_batch_def op_bind_def healthy_def op_lift_def op_ok_def op_change_def op_dir_def hit_def
        mutation_guard_def Let_def checked_add_def u64_max_def default_options_def sample_platform_def)
qed

lemma sample_commit:
  assumes s: "lsm_open sample_platform default_options empty_directory = Inr s" "ls_wal_len s = 0"
    "bt_get (fs_wal (ls_dir s)) 1 = Some []" "mf_wal_id (ls_manifest s) = 1" "ls_mem_bytes s = 0" "ls_options s = default_options"
  shows "\<exists>s'. commit_range sample_platform 1 1 [sample_put] s = (Inr CommitApplied, s')"
proof -
  have v: "validate_changes [sample_put] = Inr (batch_bytes [sample_put])"
    by (simp add: validate_changes_iff valid_cell_def sample_put_def codec_limits value_length_def batch_bytes_def)
  have r: "validate_range 1 1 = Inr ()" by (simp add: validate_range_iff MAX_APPLY_RANGE_def)
  obtain payload where p: "encode_batch 1 1 [sample_put] = Inr payload" "length payload \<le> 1000"
    using v r by (simp add: encode_batch_def batch_record_def sample_put_def encode_record_def)
  show ?thesis by (rule first_commit [OF s v p]) (simp_all add: batch_bytes_def sample_put_def value_length_def)
qed

theorem lsm_commit_atomic_witness:
  "\<exists>s s' s''. lsm_open sample_platform default_options empty_directory = Inr s \<and>
     commit_range sample_platform 1 1 [sample_put] s = (Inr CommitApplied, s') \<and>
     lsm_open sample_platform default_options (ls_dir s') = Inr s'' \<and> snd (snd (lsm_state sample_platform s'')) [7] = Some [1]"
proof -
  obtain s where s: "lsm_open sample_platform default_options empty_directory = Inr s" "ls_wal_len s = 0"
    "bt_get (fs_wal (ls_dir s)) 1 = Some []" "mf_wal_id (ls_manifest s) = 1" "ls_mem_bytes s = 0" "ls_options s = default_options"
    by (rule sample_store)
  note f = open_fresh [OF sample_platform_ok s(1)]
  obtain s' where s': "commit_range sample_platform 1 1 [sample_put] s = (Inr CommitApplied, s')" using sample_commit [OF s] by blast
  have idx: "1 \<le> u64_max" by (simp add: u64_max_def)
  obtain s'' where "lsm_open sample_platform default_options (ls_dir s') = Inr s''"
    "snd (snd (lsm_state sample_platform s'')) = updated [sample_put] (snd (snd (lsm_state sample_platform s)))"
    using lsm_commit_atomic [OF sample_platform_ok f(1) idx s'] s(6) by auto
  then show ?thesis using s(1) s' by (intro exI [of _ s] exI [of _ s'] exI [of _ s'']) (simp add: updated_def, simp add: sample_put_def)
qed

text \<open> C21.
  Maintenance is invisible.  Flushing the memtable, compacting (with dropped deletions and records merged into their newest
  versions) and maintaining never change the state of the store: not through the handle when they succeed, and not
  through the directory wherever a failure interrupts them.
\<close>
theorem lsm_maintenance_invisible:
  assumes "platform_ok pf" "lsm_ok pf s" "c \<in> {Flush, Compact, Maintain}" "run_command pf c s = (acked, s')"
  shows "(\<exists>s''. lsm_open pf (ls_options s) (ls_dir s') = Inr s'' \<and> lsm_ok pf s'' \<and> lsm_state pf s'' = lsm_state pf s) \<and>
    (acked \<longrightarrow> lsm_ok pf s' \<and> lsm_state pf s' = lsm_state pf s) \<and> (\<not> acked \<longrightarrow> ls_poisoned s' \<or> lsm_ok pf s')"
proof -
  have same: "command_result pf c A = A" "command_fits c" for A using assms(3) by auto
  note o = run_command_outcome [OF assms(1,2) same(2) assms(4)]
  have "options_validate (ls_options s) = Inr ()" using assms(2) by (simp add: lsm_ok_def)
  then show ?thesis using reopen_state [OF o(1)] o(2,3) by (auto simp: same(1))
qed

theorem lsm_maintenance_invisible_witness:
  "\<exists>s s' s'' s3. lsm_open sample_platform default_options empty_directory = Inr s \<and>
     commit_range sample_platform 1 1 [sample_put] s = (Inr CommitApplied, s') \<and> run_command sample_platform Flush s' = s'' \<and>
     lsm_open sample_platform default_options (ls_dir (snd s'')) = Inr s3 \<and> lsm_state sample_platform s3 = lsm_state sample_platform s'"
proof -
  obtain s where s: "lsm_open sample_platform default_options empty_directory = Inr s" "ls_wal_len s = 0"
    "bt_get (fs_wal (ls_dir s)) 1 = Some []" "mf_wal_id (ls_manifest s) = 1" "ls_mem_bytes s = 0" "ls_options s = default_options"
    by (rule sample_store)
  note f = open_fresh [OF sample_platform_ok s(1)]
  obtain s' where s': "commit_range sample_platform 1 1 [sample_put] s = (Inr CommitApplied, s')" using sample_commit [OF s] by blast
  have "1 \<le> u64_max" by (simp add: u64_max_def)
  then have ok: "lsm_ok sample_platform s'" "ls_options s' = default_options"
    using commit_outcome [OF sample_platform_ok f(1) _ refl, of 1 1 "[sample_put]"] s(6) unfolding s' outcome_Inr by auto
  obtain a s3 where r: "run_command sample_platform Flush s' = (a, s3)" by (cases "run_command sample_platform Flush s'")
  have "Flush \<in> {Flush, Compact, Maintain}" by simp
  from lsm_maintenance_invisible [OF sample_platform_ok ok(1) this r] show ?thesis using s(1) s' r ok(2) by auto
qed

text \<open> C33.
  Maintenance comes to an end: without new commits, \<open>maintain\<close> cannot report for ever that it compacted something.  Every
  compaction that ran leaves a smaller backlog, in the order of pending flush, tables of level zero, tables of level one;
  taking all level-zero tables at once is what makes this true, since the flush that precedes a compaction adds some.
\<close>
theorem lsm_maintenance_terminates:
  "wf {(s', s). platform_ok pf \<and> lsm_ok pf s \<and> lsm_maintain pf s = (Inr True, s')}"
proof (rule wf_subset)
  show "wf shrinks" by (auto simp: shrinks_def)
  show "{(s', s). platform_ok pf \<and> lsm_ok pf s \<and> lsm_maintain pf s = (Inr True, s')} \<subseteq> shrinks" using maintain_shrinks by blast
qed

text \<open> C34.
  A torn tail is dropped.  When a crash leaves any proper prefix of a further frame at the end of the write-ahead log,
  opening the directory cuts the tail off and finds exactly the state of the handle that wrote the complete frames.
\<close>
theorem lsm_torn_tail_dropped:
  assumes "platform_ok pf" "lsm_ok pf s" "frame (pf_digest pf) WAL_MAGIC payload = Inr bytes" "k < length bytes"
    "bt_get (fs_wal (ls_dir s)) (mf_wal_id (ls_manifest s)) = Some wal" "length wal + k \<le> 64 * 1024 * 1024"
  shows "\<exists>s'. lsm_open pf (ls_options s) ((ls_dir s)\<lparr>fs_wal := bt_insert (mf_wal_id (ls_manifest s)) (wal @ take k bytes) (fs_wal (ls_dir s))\<rparr>) = Inr s' \<and>
    lsm_ok pf s' \<and> lsm_state pf s' = lsm_state pf s"
proof -
  let ?m = "ls_manifest s" and ?d = "(ls_dir s)\<lparr>fs_wal := bt_insert (mf_wal_id (ls_manifest s)) (wal @ take k bytes) (fs_wal (ls_dir s))\<rparr>"
  from assms(2) have f: "follows pf s" "agreeing (image_rows pf (handle_image s))" "options_validate (ls_options s) = Inr ()" by (auto simp: lsm_ok_def)
  obtain rp where img: "handle_image s = (?m, ls_tables s, rp)" "rp_wal_len rp = ls_wal_len s" by (simp add: handle_image_def)
  from f(1) assms(5) have r: "marked (ls_dir s)" "select_manifest pf (ls_dir s) = Inr ?m" "open_tables pf (ls_dir s) (mf_tables ?m) = Inr (ls_tables s)"
    "replay_wal (pf_digest pf) wal (start_of ?m) = Inr rp" "length wal = ls_wal_len s"
    by (auto simp: follows_def img(1) read_store_Inr)
  have "read_frame (pf_digest pf) WAL_MAGIC (take k bytes) = Inr None"
    using read_frame_torn [OF assms(3) _ _ assms(4)] assms(1) by (simp add: platform_ok_def)
  then have "replay_wal (pf_digest pf) (wal @ take k bytes) (start_of ?m) = Inr rp"
    using replay_wal_append [OF r(4), of "take k bytes"] r(5) img(2) by (simp add: start_of_def replay_wal_stop)
  then have "read_store pf ?d = Inr (?m, ls_tables s, rp)"
    unfolding read_store_Inr using r(2,3) select_manifest_cong [of ?d "ls_dir s" pf] open_tables_cong [of "mf_tables ?m" ?d "ls_dir s" pf] assms(4,6)
    by (simp add: bt_get_insert)
  then have "kept pf (sound_image pf (lsm_state pf s)) ?d"
    using r(1) f(2) by (auto simp: kept_def marked_def sound_image_def lsm_state_def img(1))
  from reopen [OF this f(3)] obtain s' where "lsm_open pf (ls_options s) ?d = Inr s'" "follows pf s'" "sound_image pf (lsm_state pf s) (handle_image s')"
    "ls_options s' = ls_options s" by metis
  then show ?thesis using f(3) by (auto simp: lsm_ok_def sound_image_def lsm_state_def)
qed

theorem lsm_torn_tail_dropped_witness:
  "\<exists>s s' bytes. lsm_open sample_platform default_options empty_directory = Inr s \<and> frame zero_digest WAL_MAGIC [7] = Inr bytes \<and>
     lsm_open sample_platform default_options ((ls_dir s)\<lparr>fs_wal := bt_insert 1 (take 50 bytes) (fs_wal (ls_dir s))\<rparr>) = Inr s' \<and>
     lsm_state sample_platform s' = lsm_state sample_platform s"
proof -
  obtain s where s: "lsm_open sample_platform default_options empty_directory = Inr s" "bt_get (fs_wal (ls_dir s)) 1 = Some []"
    "mf_wal_id (ls_manifest s) = 1" "ls_options s = default_options" by (rule sample_store)
  note f = open_fresh [OF sample_platform_ok s(1)]
  obtain bytes where b: "frame zero_digest WAL_MAGIC [7] = Inr bytes" by (simp add: frame_def Let_def codec_limits)
  have len: "50 < length bytes" "50 \<le> length bytes" using frame_parts(2) [OF b] by simp_all
  have b': "frame (pf_digest sample_platform) WAL_MAGIC [7] = Inr bytes" using b by (simp add: sample_platform_def)
  have w: "bt_get (fs_wal (ls_dir s)) (mf_wal_id (ls_manifest s)) = Some []" using s(2,3) by simp
  from lsm_torn_tail_dropped [OF sample_platform_ok f(1) b' len(1) w] show ?thesis using s b by auto
qed

text \<open> C20.
  The store always comes back.  Over a whole life in which commands run, failures are armed at any of the twelve points and
  the process crashes and opens the store again at any moment, every command being arbitrary, the directory can always
  be opened: the handle obtained is sound, healthy, and answers reads.
\<close>
theorem lsm_always_reopens:
  assumes "platform_ok pf" "store_life pf options s"
  shows "\<exists>s'. lsm_open pf options (ls_dir s) = Inr s' \<and> lsm_ok pf s' \<and> \<not> ls_poisoned s' \<and>
    (\<forall>key. \<exists>v. lsm_get pf key s' = (Inr v, s')) \<and> (\<not> ls_poisoned s \<longrightarrow> lsm_state pf s' = lsm_state pf s)"
proof -
  note d = life_durable [OF assms]
  show ?thesis
  proof (cases "ls_poisoned s")
    case True
    from d obtain A where A: "either pf A A s" "options_validate options = Inr ()" by (auto simp: durable_def)
    from reopen_state [OF A] show ?thesis using get_exact True by blast
  next
    case False
    with d have s: "lsm_ok pf s" "options_validate options = Inr ()" by (auto simp: durable_def)
    then have "either pf (lsm_state pf s) (lsm_state pf s) s" using lsm_ok_kept by simp
    from reopen_state [OF this s(2)] show ?thesis using get_exact by blast
  qed
qed

theorem lsm_always_reopens_witness:
  "\<exists>s s'. lsm_open sample_platform default_options empty_directory = Inr s \<and>
     lsm_open sample_platform default_options (ls_dir (snd (run_command sample_platform (Commit 1 1 [sample_put]) (s\<lparr>ls_fault := Some WalWritten\<rparr>)))) = Inr s'"
proof -
  obtain s where s: "lsm_open sample_platform default_options empty_directory = Inr s" by (rule sample_store)
  let ?s = "s\<lparr>ls_fault := Some WalWritten\<rparr>"
  obtain a s' where r: "run_command sample_platform (Commit 1 1 [sample_put]) ?s = (a, s')" by (cases "run_command sample_platform (Commit 1 1 [sample_put]) ?s")
  have "store_life sample_platform default_options s'"
    by (rule store_life.commanded [OF store_life.armed [OF store_life.opened [OF s]] _ r]) (simp add: u64_max_def)
  from lsm_always_reopens [OF sample_platform_ok this] show ?thesis using s r by auto
qed

end
