(* ===== verification/Cells.thy ===== *)
theory Cells
  imports App_Snapshot Lsm_Refines
begin

text \<open>
  \<^verbatim>\<open>kv-node/src/applied_store.rs\<close>, the cells: how the application is laid out as keys and values of a state
  store.  \<open>entry_cells\<close> writes only what an entry can change, \<open>full_cells\<close> writes everything, \<open>decode_cells\<close> reads it back.
  The JSON texts of a cell, of a crate the sources only call, are a parameter.
\<close>

section \<open>Data\<close>

record application_identity =
  id_group :: string
  id_genesis_voters :: "node_id list"

record metadata =
  md_version :: nat
  md_identity :: application_identity
  md_applied_index :: log_index
  md_applied_term :: nat
  md_retained_keys :: nat
  md_retained_payload_bytes :: nat

record session_header =
  sh_registered :: session_result
  sh_closed :: "session_result option"

record cell_json =
  js_metadata :: "metadata \<Rightarrow> byte list"
  js_parse_metadata :: "byte list \<Rightarrow> metadata option"
  js_header :: "session_header \<Rightarrow> byte list"
  js_parse_header :: "byte list \<Rightarrow> session_header option"
  js_key :: "session_key_snapshot \<Rightarrow> byte list"
  js_parse_key :: "byte list \<Rightarrow> session_key_snapshot option"

text \<open>Parsing inverts printing.\<close>

definition json_ok :: "cell_json \<Rightarrow> bool" where
  "json_ok js \<longleftrightarrow> (\<forall>m. js_parse_metadata js (js_metadata js m) = Some m) \<and> (\<forall>h. js_parse_header js (js_header js h) = Some h) \<and>
     (\<forall>r. js_parse_key js (js_key js r) = Some r)"

definition META_KEY :: "byte list" where "META_KEY = text_bytes ''m/state''"

section \<open>What the cells are made of\<close>

text \<open>The accessors of the application the cells are made from.\<close>

definition retained_counts :: "state_machine \<Rightarrow> nat \<times> nat" where
  "retained_counts app = (app_retained_keys app, app_retained_payload_bytes app)"

definition registration_id :: "state_machine \<Rightarrow> string \<Rightarrow> log_index option" where
  "registration_id app nonce = bt_get (app_registrations app) nonce"

definition app_session_header :: "state_machine \<Rightarrow> log_index \<Rightarrow> session_header option" where
  "app_session_header app sid = map_option (\<lambda>ss. \<lparr>sh_registered = ss_registered ss, sh_closed = ss_closed ss\<rparr>) (bt_get (app_sessions app) sid)"

definition app_session_key :: "state_machine \<Rightarrow> log_index \<Rightarrow> string \<Rightarrow> session_key_snapshot option" where
  "app_session_key app sid key =
     (case bt_get (app_sessions app) sid of
        None \<Rightarrow> None
      | Some ss \<Rightarrow>
          (case bt_get (ss_keys ss) key of
             None \<Rightarrow> None
           | Some r \<Rightarrow> Some \<lparr>ks_key = key, ks_sequence = kr_sequence r, ks_digest = kr_digest r, ks_payload = kr_payload r,
               ks_result = kr_result r\<rparr>))"

definition put_cell :: "byte list \<Rightarrow> byte list \<Rightarrow> mutation" where
  "put_cell k v = \<lparr>mut_key = k, mut_value = Some v\<rparr>"

definition named :: "string \<Rightarrow> string \<Rightarrow> byte list" where
  "named prefix key = text_bytes prefix @ text_bytes key"

definition session_key :: "string \<Rightarrow> log_index \<Rightarrow> string option \<Rightarrow> byte list" where
  "session_key prefix sid key = text_bytes prefix @ be_bytes 8 sid @ (case key of None \<Rightarrow> [] | Some k \<Rightarrow> text_bytes k)"

definition session_id :: "byte list \<Rightarrow> log_index stored" where
  "session_id bs = (if length bs = 8 then Inr (be_value bs) else Inl (InvalidData ''invalid session identity cell''))"

definition cell_text :: "byte list \<Rightarrow> string stored" where
  "cell_text bs = (if utf8_valid (map unat bs) then Inr (bytes_text bs) else Inl (InvalidData ''non-UTF8 application cell''))"

definition parsed :: "'a option \<Rightarrow> 'a stored" where
  "parsed r = (case r of None \<Rightarrow> Inl (InvalidData ''malformed JSON'') | Some x \<Rightarrow> Inr x)"

definition metadata_of :: "state_machine \<Rightarrow> application_identity \<Rightarrow> nat \<Rightarrow> metadata" where
  "metadata_of app ident trm =
     (case retained_counts app of (retained_keys, retained_payload_bytes) \<Rightarrow>
        \<lparr>md_version = 1, md_identity = ident, md_applied_index = app_last_applied app, md_applied_term = trm,
          md_retained_keys = retained_keys, md_retained_payload_bytes = retained_payload_bytes\<rparr>)"

section \<open>Writing cells\<close>

definition value_cell :: "state_machine \<Rightarrow> string \<Rightarrow> mutation" where
  "value_cell app key = \<lparr>mut_key = named ''v/'' key, mut_value = map_option text_bytes (bt_get (app_values app) key)\<rparr>"

definition keyed_cells :: "cell_json \<Rightarrow> state_machine \<Rightarrow> log_index \<Rightarrow> string \<Rightarrow> mutation list" where
  "keyed_cells js app sid key =
     (case app_session_key app sid key of
        None \<Rightarrow> []
      | Some r \<Rightarrow> [value_cell app key, put_cell (session_key ''k/'' sid (Some key)) (js_key js r)])"

definition entry_cells :: "cell_json \<Rightarrow> state_machine \<Rightarrow> application_identity \<Rightarrow> entry \<Rightarrow> mutation list stored" where
  "entry_cells js app ident e =
     (let meta = put_cell META_KEY (js_metadata js (metadata_of app ident (e_term e)))
      in case command e of
           Put key _ \<Rightarrow> Inr [meta, value_cell app key]
         | Delete key \<Rightarrow> Inr [meta, value_cell app key]
         | SessionPut sid key _ _ \<Rightarrow> Inr (meta # keyed_cells js app sid key)
         | SessionDelete sid key _ \<Rightarrow> Inr (meta # keyed_cells js app sid key)
         | RegisterSession nonce \<Rightarrow>
             (case registration_id app nonce of
                None \<Rightarrow> Inr [meta]
              | Some sid \<Rightarrow>
                  (case app_session_header app sid of
                     None \<Rightarrow> Inl (InvalidData ''registration lacks session header'')
                   | Some h \<Rightarrow> Inr [meta, put_cell (named ''r/'' nonce) (be_bytes 8 sid), put_cell (session_key ''s/'' sid None) (js_header js h)]))
         | CloseSession sid \<Rightarrow>
             (case app_session_header app sid of
                None \<Rightarrow> Inr [meta]
              | Some h \<Rightarrow> Inr [meta, put_cell (session_key ''s/'' sid None) (js_header js h)])
         | NoOp \<Rightarrow> Inr [meta]
         | Configuration _ \<Rightarrow> Inr [meta])"

definition session_cells :: "cell_json \<Rightarrow> session_snapshot \<Rightarrow> mutation list" where
  "session_cells js sn =
     put_cell (named ''r/'' (sn_nonce sn)) (be_bytes 8 (sn_session_id sn)) #
     put_cell (session_key ''s/'' (sn_session_id sn) None) (js_header js \<lparr>sh_registered = sn_registered sn, sh_closed = sn_closed sn\<rparr>) #
     map (\<lambda>r. put_cell (session_key ''k/'' (sn_session_id sn) (Some (ks_key r))) (js_key js r)) (sn_keys sn)"

definition full_cells :: "cell_json \<Rightarrow> state_machine \<Rightarrow> application_identity \<Rightarrow> nat \<Rightarrow> mutation list option" where
  "full_cells js app ident trm =
     map_option (\<lambda>snap. put_cell META_KEY (js_metadata js (metadata_of app ident trm)) #
         map (\<lambda>(key, v). put_cell (named ''v/'' key) (text_bytes v)) (as_values snap) @
         concat (map (session_cells js) (as_sessions snap)))
       (export_snapshot app)"

section \<open>Reading cells\<close>

definition strip_prefix :: "string \<Rightarrow> byte list \<Rightarrow> byte list option" where
  "strip_prefix prefix bs =
     (if take (length prefix) bs = text_bytes prefix then Some (drop (length prefix) bs) else None)"

record decoding =
  dc_meta :: "metadata option"
  dc_values :: "(string \<times> string) list"
  dc_registrations :: "(log_index, string) btree"
  dc_headers :: "(log_index, session_header) btree"
  dc_keys :: "(log_index, session_key_snapshot list) btree"
  dc_seen :: "byte list set"

definition decode_start :: decoding where
  "decode_start = \<lparr>dc_meta = None, dc_values = [], dc_registrations = [], dc_headers = [], dc_keys = [], dc_seen = {}\<rparr>"

definition decode_retry :: "cell_json \<Rightarrow> byte list \<Rightarrow> byte list \<Rightarrow> decoding \<Rightarrow> decoding stored" where
  "decode_retry js key v d =
     (if length key \<le> 8 then Inl (InvalidData ''incomplete retry record key'')
      else rbind (session_id (take 8 key)) (\<lambda>sid.
           rbind (parsed (js_parse_key js v)) (\<lambda>r.
           rbind (cell_text (drop 8 key)) (\<lambda>k.
             if ks_key r \<noteq> k then Inl (InvalidData ''retry record key differs from its cell key'')
             else let old = (case bt_get (dc_keys d) sid of None \<Rightarrow> [] | Some rs \<Rightarrow> rs)
                  in Inr (d\<lparr>dc_keys := bt_insert sid (old @ [r]) (dc_keys d)\<rparr>)))))"

definition decode_registration :: "byte list \<Rightarrow> byte list \<Rightarrow> decoding \<Rightarrow> decoding stored" where
  "decode_registration key v d =
     rbind (session_id v) (\<lambda>sid.
     rbind (cell_text key) (\<lambda>nonce.
       if bt_get (dc_registrations d) sid \<noteq> None then Inl (InvalidData ''two nonces share one session'')
       else Inr (d\<lparr>dc_registrations := bt_insert sid nonce (dc_registrations d)\<rparr>)))"

definition decode_row :: "cell_json \<Rightarrow> byte list \<Rightarrow> byte list \<Rightarrow> decoding \<Rightarrow> decoding stored" where
  "decode_row js key v d =
     (if key \<in> dc_seen d then Inl (InvalidData ''duplicate application cell'')
      else let d = d\<lparr>dc_seen := insert key (dc_seen d)\<rparr>
      in if key = META_KEY then rbind (parsed (js_parse_metadata js v)) (\<lambda>m. Inr (d\<lparr>dc_meta := Some m\<rparr>))
      else case strip_prefix ''v/'' key of
        Some k \<Rightarrow> rbind (cell_text k) (\<lambda>k. rbind (cell_text v) (\<lambda>x. Inr (d\<lparr>dc_values := dc_values d @ [(k, x)]\<rparr>)))
      | None \<Rightarrow>
      case strip_prefix ''r/'' key of
        Some k \<Rightarrow> decode_registration k v d
      | None \<Rightarrow>
      case strip_prefix ''s/'' key of
        Some k \<Rightarrow> rbind (session_id k) (\<lambda>sid. rbind (parsed (js_parse_header js v)) (\<lambda>h. Inr (d\<lparr>dc_headers := bt_insert sid h (dc_headers d)\<rparr>)))
      | None \<Rightarrow>
      case strip_prefix ''k/'' key of
        Some k \<Rightarrow> decode_retry js k v d
      | None \<Rightarrow> Inl (InvalidData ''unknown application namespace''))"

fun decode_rows :: "cell_json \<Rightarrow> (byte list \<times> byte list) list \<Rightarrow> decoding \<Rightarrow> decoding stored" where
  "decode_rows js [] d = Inr d"
| "decode_rows js ((key, v) # rows) d = rbind (decode_row js key v d) (decode_rows js rows)"

fun decode_sessions :: "(log_index \<times> session_header) list \<Rightarrow> (log_index, string) btree \<Rightarrow> (log_index, session_key_snapshot list) btree \<Rightarrow>
    (session_snapshot list \<times> (log_index, string) btree \<times> (log_index, session_key_snapshot list) btree) stored" where
  "decode_sessions [] regs keys = Inr ([], regs, keys)"
| "decode_sessions ((sid, h) # hs) regs keys =
     (case bt_get regs sid of
        None \<Rightarrow> Inl (InvalidData ''session header lacks registration'')
      | Some nonce \<Rightarrow>
          rbind (decode_sessions hs (bt_remove sid regs) (bt_remove sid keys)) (\<lambda>(sessions, regs, left).
            Inr (\<lparr>sn_nonce = nonce, sn_session_id = sid, sn_registered = sh_registered h, sn_closed = sh_closed h,
                  sn_keys = (case bt_get keys sid of None \<Rightarrow> [] | Some rs \<Rightarrow> rs)\<rparr> # sessions, regs, left)))"

definition decode_cells :: "cell_json \<Rightarrow> (byte list \<Rightarrow> byte list) \<Rightarrow> (byte list \<times> byte list) list \<Rightarrow> nat \<Rightarrow> application_identity \<Rightarrow>
    (state_machine \<times> nat) stored" where
  "decode_cells js digest rows applied ident =
     (if applied = 0
      then (if rows \<noteq> [] then Inl (InvalidData ''zero engine watermark has application cells'') else Inr (initial_state, 0))
      else rbind (decode_rows js rows decode_start) (\<lambda>d.
        case dc_meta d of
          None \<Rightarrow> Inl (InvalidData ''engine lacks application metadata'')
        | Some m \<Rightarrow>
            if md_version m \<noteq> 1 \<or> md_applied_index m \<noteq> applied \<or> md_identity m \<noteq> ident \<or> md_applied_term m = 0
            then Inl (InvalidData ''engine application identity/watermark mismatch'')
            else rbind (decode_sessions (dc_headers d) (dc_registrations d) (dc_keys d)) (\<lambda>(sessions, regs, keys).
              if regs \<noteq> [] \<or> keys \<noteq> [] then Inl (InvalidData ''orphan registration/retry record'')
              else case import_snapshot digest \<lparr>as_schema_version = 1, as_last_applied = applied, as_values = dc_values d,
                       as_sessions = sessions, as_retained_keys = md_retained_keys m,
                       as_retained_payload_bytes = md_retained_payload_bytes m\<rparr> applied of
                     Inl message \<Rightarrow> Inl (InvalidData message)
                   | Inr app \<Rightarrow> Inr (app, md_applied_term m))))"

section \<open>Cell keys\<close>

text \<open>The meaning of a key, and the value the cell of that key has for a given application.\<close>

datatype cell_key = MetaKey | ValueKey string | NonceKey string | HeaderKey log_index | RetryKey log_index string

fun key_bytes :: "cell_key \<Rightarrow> byte list" where
  "key_bytes MetaKey = META_KEY"
| "key_bytes (ValueKey k) = named ''v/'' k"
| "key_bytes (NonceKey n) = named ''r/'' n"
| "key_bytes (HeaderKey i) = session_key ''s/'' i None"
| "key_bytes (RetryKey i k) = session_key ''k/'' i (Some k)"

fun key_fits :: "cell_key \<Rightarrow> bool" where
  "key_fits (HeaderKey i) = (i \<le> u64_max)"
| "key_fits (RetryKey i k) = (i \<le> u64_max)"
| "key_fits _ = True"

definition key_of :: "byte list \<Rightarrow> cell_key option" where
  "key_of bs =
     (if bs = META_KEY then Some MetaKey
      else case strip_prefix ''v/'' bs of Some r \<Rightarrow> Some (ValueKey (bytes_text r))
      | None \<Rightarrow> case strip_prefix ''r/'' bs of Some r \<Rightarrow> Some (NonceKey (bytes_text r))
      | None \<Rightarrow> case strip_prefix ''s/'' bs of Some r \<Rightarrow> (if length r = 8 then Some (HeaderKey (be_value r)) else None)
      | None \<Rightarrow> case strip_prefix ''k/'' bs of
                 Some r \<Rightarrow> (if 8 \<le> length r then Some (RetryKey (be_value (take 8 r)) (bytes_text (drop 8 r))) else None)
      | None \<Rightarrow> None)"

lemma prefixes: "META_KEY = [109, 47, 115, 116, 97, 116, 101]" "text_bytes ''v/'' = [118, 47]" "text_bytes ''r/'' = [114, 47]"
  "text_bytes ''s/'' = [115, 47]" "text_bytes ''k/'' = [107, 47]"
  by (simp_all add: META_KEY_def text_bytes_def)

lemma strip_prefix_simps [simp]: "strip_prefix p (text_bytes p @ bs) = Some bs"
  by (simp add: strip_prefix_def)

lemma strip_prefix_Some: "strip_prefix p bs = Some r \<longleftrightarrow> bs = text_bytes p @ r"
  by (auto simp: strip_prefix_def) (metis append_take_drop_id)

lemma strip_prefix_other: "text_bytes p = [a, b] \<Longrightarrow> c \<noteq> a \<Longrightarrow> strip_prefix p (c # bs) = None"
  by (auto simp: strip_prefix_def dest: arg_cong [of _ _ length])

lemmas other_prefix = strip_prefix_other [OF prefixes(2)] strip_prefix_other [OF prefixes(3)] strip_prefix_other [OF prefixes(4)]
  strip_prefix_other [OF prefixes(5)]

lemma strip_own: "strip_prefix ''v/'' (118 # 47 # bs) = Some bs" "strip_prefix ''r/'' (114 # 47 # bs) = Some bs"
  "strip_prefix ''s/'' (115 # 47 # bs) = Some bs" "strip_prefix ''k/'' (107 # 47 # bs) = Some bs"
  by (simp_all add: strip_prefix_Some prefixes)

lemma text_bytes_text [simp]: "text_bytes (bytes_text bs) = bs"
  by (simp add: text_bytes_def bytes_text_def comp_def unat_byte unat_word_of_nat word_unat_eq_iff of_char_of)

lemma be_bytes_value: "length bs = k \<Longrightarrow> be_bytes k (be_value bs) = bs"
  by (metis be_bytes_def be_value_def le_bytes_exact length_rev rev_rev_ident)

lemma be_value_fits: "length bs = 8 \<Longrightarrow> be_value bs \<le> u64_max"
  using le_value_bound [of "rev bs"] by (simp add: be_value_def u64_max_def)

lemma be_value_id: "i \<le> u64_max \<Longrightarrow> be_value (be_bytes 8 i) = i"
  by (rule be_value_small) (simp add: u64_max_def)

lemma key_of_bytes: "key_fits ck \<Longrightarrow> key_of (key_bytes ck) = Some ck"
  by (cases ck) (simp_all add: key_of_def named_def session_key_def prefixes other_prefix strip_own be_value_id)

lemma key_of_Some: "key_of bs = Some ck \<Longrightarrow> key_bytes ck = bs \<and> key_fits ck"
  by (auto simp: key_of_def named_def session_key_def strip_prefix_Some be_bytes_value be_value_fits split: if_splits option.splits)

lemma key_bytes_inj: "key_fits ck \<Longrightarrow> key_fits ck' \<Longrightarrow> key_bytes ck = key_bytes ck' \<longleftrightarrow> ck = ck'"
  by (metis key_of_bytes option.inject)

section \<open>The cells of an application\<close>

fun cell_value :: "cell_json \<Rightarrow> application_identity \<Rightarrow> nat \<Rightarrow> state_machine \<Rightarrow> cell_key \<Rightarrow> byte list option" where
  "cell_value js ident trm app MetaKey = Some (js_metadata js (metadata_of app ident trm))"
| "cell_value js ident trm app (ValueKey k) = map_option text_bytes (bt_get (app_values app) k)"
| "cell_value js ident trm app (NonceKey n) = map_option (be_bytes 8) (registration_id app n)"
| "cell_value js ident trm app (HeaderKey i) = map_option (js_header js) (app_session_header app i)"
| "cell_value js ident trm app (RetryKey i k) = map_option (js_key js) (app_session_key app i k)"

definition cells_view :: "cell_json \<Rightarrow> application_identity \<Rightarrow> nat \<Rightarrow> state_machine \<Rightarrow> byte list \<Rightarrow> byte list option" where
  "cells_view js ident trm app bs = (case key_of bs of None \<Rightarrow> None | Some ck \<Rightarrow> cell_value js ident trm app ck)"

definition cells_at :: "cell_json \<Rightarrow> application_identity \<Rightarrow> nat \<Rightarrow> state_machine \<Rightarrow> cell_key list \<Rightarrow> mutation list" where
  "cells_at js ident trm app cks = map (\<lambda>ck. \<lparr>mut_key = key_bytes ck, mut_value = cell_value js ident trm app ck\<rparr>) cks"

text \<open>Writing the cells of some keys brings a store up to date when nothing else differs.\<close>

lemma map_of_cells:
  "\<forall>ck \<in> set cks. key_fits ck \<Longrightarrow> map_of (map (\<lambda>c. (mut_key c, mut_value c)) (cells_at js ident trm app cks)) bs =
     (case key_of bs of None \<Rightarrow> None | Some ck \<Rightarrow> if ck \<in> set cks then Some (cell_value js ident trm app ck) else None)"
proof (induction cks)
  case (Cons ck cks)
  have "bs = key_bytes ck \<longleftrightarrow> key_of bs = Some ck" using Cons.prems key_of_bytes key_of_Some by auto
  with Cons show ?case by (auto simp: cells_at_def split: option.split)
qed (simp add: cells_at_def split: option.split)

lemma updated_cells:
  assumes "\<forall>ck \<in> set cks. key_fits ck" "\<And>bs. key_of bs = None \<Longrightarrow> f bs = None"
    and "\<And>bs ck. key_of bs = Some ck \<Longrightarrow> ck \<notin> set cks \<Longrightarrow> f bs = cell_value js ident trm app ck"
  shows "updated (cells_at js ident trm app cks) f = cells_view js ident trm app"
proof
  fix bs
  show "updated (cells_at js ident trm app cks) f bs = cells_view js ident trm app bs"
    using assms(2,3) [of bs] by (simp add: updated_def map_of_cells [OF assms(1)] cells_view_def split: option.split)
qed

section \<open>An entry writes every cell it changes\<close>

definition touched :: "state_machine \<Rightarrow> command \<Rightarrow> cell_key list" where
  "touched app c =
     (let keyed = (\<lambda>sid key. if app_session_key app sid key = None then [] else [ValueKey key, RetryKey sid key])
      in MetaKey # (case c of
           Put key _ \<Rightarrow> [ValueKey key]
         | Delete key \<Rightarrow> [ValueKey key]
         | SessionPut sid key _ _ \<Rightarrow> keyed sid key
         | SessionDelete sid key _ \<Rightarrow> keyed sid key
         | RegisterSession nonce \<Rightarrow> (case registration_id app nonce of None \<Rightarrow> [] | Some sid \<Rightarrow> [NonceKey nonce, HeaderKey sid])
         | CloseSession sid \<Rightarrow> if app_session_header app sid = None then [] else [HeaderKey sid]
         | _ \<Rightarrow> []))"

lemma app_ok_ids:
  assumes "app_ok digest app" "bt_get (app_sessions app) sid = Some ss"
  shows "sid \<le> u64_max"
  using app_ok_session(1) [OF assms] app_okD(4) [OF assms(1)] by (simp add: session_ok_def)

lemma registered_header:
  assumes "app_ok digest app" "registration_id app nonce = Some sid"
  shows "\<exists>ss. bt_get (app_sessions app) sid = Some ss"
proof -
  have "sid \<in> snd ` set (app_registrations app)" using assms(2) by (force simp: registration_id_def dest: map_of_SomeD)
  then have "sid \<in> fst ` set (app_sessions app)" using assms(1) by (simp add: app_ok_def)
  then show ?thesis by (metis domD dom_map_of_conv_image_fst)
qed

lemma touched_fits:
  assumes "app_ok digest app"
  shows "\<forall>ck \<in> set (touched app c). key_fits ck"
proof -
  have h: "sid \<le> u64_max" if "app_session_header app sid \<noteq> None" for sid
    using that app_ok_ids [OF assms] by (auto simp: app_session_header_def)
  moreover have "sid \<le> u64_max" if "app_session_key app sid key \<noteq> None" for sid key
    using that app_ok_ids [OF assms] by (auto simp: app_session_key_def split: option.splits)
  moreover have "sid \<le> u64_max" if "registration_id app nonce = Some sid" for sid nonce
    using registered_header [OF assms that] app_ok_ids [OF assms] by blast
  ultimately show ?thesis by (auto simp: touched_def Let_def split: command.splits option.splits)
qed

lemma entry_cells_at:
  assumes "app_ok digest app"
  shows "entry_cells js app ident e = Inr (cells_at js ident (e_term e) app (touched app (command e)))"
proof -
  have "\<exists>h. app_session_header app sid = Some h" if "registration_id app nonce = Some sid" for nonce sid
    using registered_header [OF assms that] by (auto simp: app_session_header_def)
  then show ?thesis
    by (fastforce simp: entry_cells_def touched_def Let_def cells_at_def value_cell_def put_cell_def keyed_cells_def split: command.split option.split)
qed

text \<open>What a command leaves alone.\<close>

definition same_cells :: "cell_key set \<Rightarrow> state_machine \<Rightarrow> state_machine \<Rightarrow> bool" where
  "same_cells cks s s' \<longleftrightarrow> (\<forall>js ident t t' ck. ck \<notin> cks \<longrightarrow> ck \<noteq> MetaKey \<longrightarrow> cell_value js ident t s ck = cell_value js ident t' s' ck)"

lemma same_cellsI:
  assumes "\<And>k. ValueKey k \<notin> cks \<Longrightarrow> bt_get (app_values s') k = bt_get (app_values s) k"
    and "\<And>n. NonceKey n \<notin> cks \<Longrightarrow> registration_id s' n = registration_id s n"
    and "\<And>i. HeaderKey i \<notin> cks \<Longrightarrow> app_session_header s' i = app_session_header s i"
    and "\<And>i k. RetryKey i k \<notin> cks \<Longrightarrow> app_session_key s' i k = app_session_key s i k"
  shows "same_cells cks s s'"
  unfolding same_cells_def
proof (intro allI impI)
  fix js ident t t' ck
  assume "ck \<notin> cks" "ck \<noteq> MetaKey"
  with assms show "cell_value js ident t s ck = cell_value js ident t' s' ck" by (cases ck) simp_all
qed

lemma same_cells_refl [simp]: "same_cells cks s s"
  by (rule same_cellsI) simp_all

lemma same_cells_index [simp]: "same_cells cks s (s'\<lparr>app_last_applied := i\<rparr>) = same_cells cks s s'"
proof -
  have "cell_value js ident t (s'\<lparr>app_last_applied := i\<rparr>) ck = cell_value js ident t s' ck" if "ck \<noteq> MetaKey" for js ident t ck
    using that by (cases ck) (simp_all add: registration_id_def app_session_header_def app_session_key_def)
  then show ?thesis unfolding same_cells_def by (metis (no_types))
qed

lemma mutate_touched:
  assumes ok: "app_ok digest s" and run: "mutate digest sid key sq v i s = Some (r, s1)"
  shows "same_cells (if app_session_key s1 sid key = None then {} else {ValueKey key, RetryKey sid key}) s s1"
proof (cases "\<exists>ss. acceptable digest sid ss key sq v s")
  case True
  then obtain ss where a: "acceptable digest sid ss key sq v s" ..
  have s1: "s1 = accepted_state digest sid ss key sq v i s" using mutate_accepted [OF ok a] run by simp
  have ss: "bt_get (app_sessions s) sid = Some ss" using a by (simp add: acceptable_def)
  have "app_session_key s1 sid key \<noteq> None" by (simp add: s1 app_session_key_def accepted_state_def bt_get_insert)
  moreover have "same_cells {ValueKey key, RetryKey sid key} s s1"
    by (rule same_cellsI)
      (auto simp: s1 accepted_state_def registration_id_def app_session_header_def app_session_key_def bt_get_insert bt_get_remove ss split: option.split)
  ultimately show ?thesis by (simp only: if_False)
next
  case False
  then have "s1 = s" using mutate_refused [OF ok, of sid key sq v i] run by auto
  then show ?thesis by simp
qed

lemma register_touched:
  assumes ok: "app_ok digest s" and i: "app_last_applied s < i" and run: "register nonce i s = Some (r, s1)"
  shows "same_cells (case registration_id s1 nonce of None \<Rightarrow> {} | Some sid \<Rightarrow> {NonceKey nonce, HeaderKey sid}) s s1"
proof (cases "s1 = s")
  case False
  then have s1: "app_registrations s1 = bt_insert nonce i (app_registrations s)" "app_values s1 = app_values s"
    "app_sessions s1 = bt_insert i \<lparr>ss_registered = success i None i, ss_closed = None, ss_keys = []\<rparr> (app_sessions s)"
    using run by (auto simp: register_def Let_def split: if_splits option.splits)
  have "same_cells {NonceKey nonce, HeaderKey i} s s1"
    using later_absent [OF ok i]
    by (intro same_cellsI) (auto simp: s1 registration_id_def app_session_header_def app_session_key_def bt_get_insert)
  then show ?thesis by (simp add: registration_id_def s1(1) bt_get_insert)
qed simp

lemma close_touched:
  "same_cells (if app_session_header (snd (close sid i s)) sid = None then {} else {HeaderKey sid}) s (snd (close sid i s))"
proof (cases "bt_get (app_sessions s) sid")
  case (Some ss)
  then have "app_session_header (snd (close sid i s)) sid \<noteq> None"
    by (auto simp: close_def app_session_header_def Let_def bt_get_insert split: option.split)
  moreover have "same_cells {HeaderKey sid} s (snd (close sid i s))"
    using Some by (intro same_cellsI)
      (auto simp: close_def registration_id_def app_session_header_def app_session_key_def bt_get_insert Let_def split: option.split)
  ultimately show ?thesis by (simp only: if_False)
qed (simp add: close_def)

lemma apply_touched:
  assumes ok: "app_ok digest s" and run: "app_apply digest e s = Some (Inr (x, s'))"
  shows "same_cells (set (touched s' (command e))) s s'"
proof -
  from run obtain s1 where s1: "apply_command digest (command e) (index e) s = Some (x, s1)" "s' = s1\<lparr>app_last_applied := index e\<rparr>"
    and i: "index e = app_last_applied s + 1" by (auto simp: app_apply_def split: if_splits)
  have acc: "app_session_key s' = app_session_key s1" "app_session_header s' = app_session_header s1" "registration_id s' = registration_id s1"
    by (auto simp: s1(2) app_session_key_def app_session_header_def registration_id_def fun_eq_iff)
  have plain: "same_cells (set cks) s (s\<lparr>app_values := m\<rparr>)" if "\<And>k. ValueKey k \<notin> set cks \<Longrightarrow> bt_get m k = bt_get (app_values s) k" for cks m
    using that by (intro same_cellsI) (simp_all add: registration_id_def app_session_header_def app_session_key_def)
  have wider: "same_cells B s s1" if "same_cells A s s1" "A \<subseteq> B" for A B using that unfolding same_cells_def by blast
  have "same_cells (set (touched s' (command e))) s s1"
  proof (cases "command e")
    case (RegisterSession nonce)
    then obtain r where "register nonce (index e) s = Some (r, s1)" using s1(1) by (auto simp: apply_command_def session_outcome_def)
    from wider [OF register_touched [OF ok _ this]] i RegisterSession show ?thesis
      by (auto simp: touched_def Let_def acc split: option.splits)
  next
    case (CloseSession sid)
    then have "s1 = snd (close sid (index e) s)" using s1(1) by (auto simp: apply_command_def session_outcome_def split: prod.splits)
    with wider close_touched [of sid "index e" s] CloseSession show ?thesis by (auto simp: touched_def Let_def acc split: if_splits)
  next
    case (SessionPut sid key sq v)
    then obtain r where "mutate digest sid key sq (Some v) (index e) s = Some (r, s1)"
      using s1(1) by (auto simp: apply_command_def session_outcome_def)
    from wider [OF mutate_touched [OF ok this]] SessionPut show ?thesis by (auto simp: touched_def Let_def acc split: if_splits)
  next
    case (SessionDelete sid key sq)
    then obtain r where "mutate digest sid key sq None (index e) s = Some (r, s1)"
      using s1(1) by (auto simp: apply_command_def session_outcome_def)
    from wider [OF mutate_touched [OF ok this]] SessionDelete show ?thesis by (auto simp: touched_def Let_def acc split: if_splits)
  next
    case (Put key v)
    with s1(1) plain [of "touched s' (command e)"] show ?thesis by (auto simp: apply_command_def touched_def Let_def bt_get_insert)
  next
    case (Delete key)
    with s1(1) plain [of "touched s' (command e)"] show ?thesis by (auto simp: apply_command_def touched_def Let_def bt_get_remove)
  qed (use s1(1) in \<open>simp_all add: apply_command_def\<close>)
  then show ?thesis by (simp add: s1(2))
qed

text \<open>The state of a store that holds an application: nothing at all before the first entry.\<close>

definition stored_cells :: "cell_json \<Rightarrow> application_identity \<Rightarrow> nat \<Rightarrow> state_machine \<Rightarrow> byte list \<Rightarrow> byte list option" where
  "stored_cells js ident trm app = (if app_last_applied app = 0 then (\<lambda>_. None) else cells_view js ident trm app)"

lemma app_ok_zero:
  assumes "app_ok digest s" "app_last_applied s = 0"
  shows "s = initial_state"
proof -
  have "app_sessions s = []"
  proof (rule ccontr)
    assume "app_sessions s \<noteq> []"
    then obtain sid ss where "(sid, ss) \<in> set (app_sessions s)" by (cases "app_sessions s") auto
    with assms show False by (auto simp: app_ok_def session_ok_def)
  qed
  with assms show ?thesis by (intro state_machine.equality) (simp_all add: app_ok_def initial_state_def)
qed

lemma entry_cells_view:
  assumes ok: "app_ok digest s" "app_ok digest s'" and run: "app_apply digest e s = Some (Inr (x, s'))"
  shows "updated (cells_at js ident (e_term e) s' (touched s' (command e))) (cells_view js ident trm s) = cells_view js ident (e_term e) s'"
proof (rule updated_cells [OF touched_fits [OF ok(2)]])
  show "cells_view js ident trm s bs = None" if "key_of bs = None" for bs using that by (simp add: cells_view_def)
  fix bs ck
  assume k: "key_of bs = Some ck" "ck \<notin> set (touched s' (command e))"
  moreover have "MetaKey \<in> set (touched s' (command e))" by (simp add: touched_def Let_def)
  ultimately have "cell_value js ident trm s ck = cell_value js ident (e_term e) s' ck"
    using apply_touched [OF ok(1) run] unfolding same_cells_def by metis
  with k(1) show "cells_view js ident trm s bs = cell_value js ident (e_term e) s' ck" by (simp add: cells_view_def)
qed

lemma entry_cells_updated:
  assumes ok: "app_ok digest s" "app_ok digest s'" and run: "app_apply digest e s = Some (Inr (x, s'))"
  shows "updated (cells_at js ident (e_term e) s' (touched s' (command e))) (stored_cells js ident trm s) = stored_cells js ident (e_term e) s'"
proof -
  let ?cs = "cells_at js ident (e_term e) s' (touched s' (command e))"
  have "app_last_applied s' \<noteq> 0" using run by (auto simp: app_apply_def split: if_splits)
  then have view: "stored_cells js ident (e_term e) s' = cells_view js ident (e_term e) s'" by (simp add: stored_cells_def)
  have "updated ?cs (stored_cells js ident trm s) = updated ?cs (cells_view js ident trm s)"
  proof (cases "app_last_applied s = 0")
    case True
    have "updated ?cs (\<lambda>_. None) bs = updated ?cs (cells_view js ident trm s) bs" for bs
    proof (cases "key_of bs = Some MetaKey")
      case True
      moreover have "MetaKey \<in> set (touched s' (command e))" by (simp add: touched_def Let_def)
      ultimately show ?thesis by (simp add: updated_def map_of_cells [OF touched_fits [OF ok(2)]])
    next
      case False
      have "cell_value js ident trm s ck = None" if "ck \<noteq> MetaKey" for ck
        using app_ok_zero [OF ok(1) True] that by (cases ck) (simp_all add: initial_state_def registration_id_def app_session_header_def app_session_key_def)
      then show ?thesis using False by (auto simp: updated_def cells_view_def split: option.split)
    qed
    with True show ?thesis by (simp add: stored_cells_def fun_eq_iff)
  qed (simp add: stored_cells_def)
  then show ?thesis using entry_cells_view [OF ok run] by (simp add: view)
qed

section \<open>All cells\<close>

lemma session_cells_at:
  assumes "registration_id app n = Some i" "bt_get (app_sessions app) i = Some ss" "bt_sorted (ss_keys ss)"
  shows "session_cells js (export_session n i ss) =
    cells_at js ident trm app (NonceKey n # HeaderKey i # map (\<lambda>r. RetryKey i (fst r)) (ss_keys ss))"
proof -
  have "app_session_key app i (fst r) = Some (export_key r)" if "r \<in> set (ss_keys ss)" for r
    using assms(2) that bt_sorted_distinct [OF assms(3)] by (cases r) (auto simp: app_session_key_def export_key_def)
  with assms show ?thesis
    by (auto simp: session_cells_def cells_at_def export_session_def put_cell_def app_session_header_def export_key_def)
qed

lemma full_cells_at:
  assumes ok: "app_ok digest app"
  shows "\<exists>cks. full_cells js app ident trm = Some (cells_at js ident trm app cks) \<and> (\<forall>ck \<in> set cks. key_fits ck) \<and>
    (\<forall>ck. cell_value js ident trm app ck \<noteq> None \<longrightarrow> ck \<in> set cks)"
proof -
  let ?regs = "app_registrations app"
  obtain ss where get: "\<And>n i. (n, i) \<in> set ?regs \<Longrightarrow> bt_get (app_sessions app) i = Some (ss (n, i)) \<and> bt_sorted (ss_keys (ss (n, i)))"
    and exp: "export_sessions (app_sessions app) ?regs = Some (map (\<lambda>p. export_session (fst p) (snd p) (ss p)) ?regs)"
    using export_sessions_ok [OF ok] by fastforce
  let ?keys = "\<lambda>p. NonceKey (fst p) # HeaderKey (snd p) # map (\<lambda>r. RetryKey (snd p) (fst r)) (ss_keys (ss p))"
  let ?cks = "MetaKey # map (\<lambda>p. ValueKey (fst p)) (app_values app) @ concat (map ?keys ?regs)"
  note srt = app_okD(1-3) [OF ok]
  have one: "session_cells js (export_session n i (ss (n, i))) = cells_at js ident trm app (?keys (n, i))" if m: "(n, i) \<in> set ?regs" for n i
    using session_cells_at [of app n i "ss (n, i)"] get [OF m] m bt_sorted_distinct [OF srt(2)] by (simp add: registration_id_def)
  have "concat (map (session_cells js) (map (\<lambda>p. export_session (fst p) (snd p) (ss p)) ?regs)) = cells_at js ident trm app (concat (map ?keys ?regs))"
    using one by (auto simp: cells_at_def map_concat comp_def intro!: arg_cong [of _ _ concat])
  moreover have "map (\<lambda>(key, v). put_cell (named ''v/'' key) (text_bytes v)) (app_values app) = cells_at js ident trm app (map (\<lambda>p. ValueKey (fst p)) (app_values app))"
    using bt_sorted_distinct [OF srt(1)] by (auto simp: cells_at_def put_cell_def)
  ultimately have "full_cells js app ident trm = Some (cells_at js ident trm app ?cks)"
    using exp by (simp add: full_cells_def export_snapshot_def put_cell_def cells_at_def)
  moreover have "\<forall>ck \<in> set ?cks. key_fits ck" using get app_ok_ids [OF ok] by fastforce
  moreover have "ck \<in> set ?cks" if some: "cell_value js ident trm app ck \<noteq> None" for ck
  proof -
    have session: "\<exists>n. (n, i) \<in> set ?regs \<and> ss (n, i) = x" if "bt_get (app_sessions app) i = Some x" for i x
    proof -
      have "i \<in> snd ` set ?regs" using that ok by (force simp: app_ok_def dest: map_of_SomeD)
      then obtain n where n: "(n, i) \<in> set ?regs" by auto
      from get [OF n] that have "ss (n, i) = x" by simp
      with n show ?thesis by blast
    qed
    show ?thesis
    proof (cases ck)
      case (HeaderKey i)
      then obtain x where "bt_get (app_sessions app) i = Some x" using some by (auto simp: app_session_header_def)
      from session [OF this] HeaderKey show ?thesis by force
    next
      case (RetryKey i k)
      then obtain x r where x: "bt_get (app_sessions app) i = Some x" "bt_get (ss_keys x) k = Some r"
        using some by (auto simp: app_session_key_def split: option.splits)
      from session [OF x(1)] map_of_SomeD [OF x(2)] RetryKey show ?thesis by force
    qed (use some in \<open>force simp: registration_id_def dest: map_of_SomeD\<close>)+
  qed
  ultimately show ?thesis by blast
qed

lemma full_cells_view:
  assumes "app_ok digest app"
  shows "\<exists>cells. full_cells js app ident trm = Some cells \<and> updated cells (\<lambda>_. None) = cells_view js ident trm app"
proof -
  obtain cks where c: "full_cells js app ident trm = Some (cells_at js ident trm app cks)" "\<forall>ck \<in> set cks. key_fits ck"
    "\<forall>ck. cell_value js ident trm app ck \<noteq> None \<longrightarrow> ck \<in> set cks" using full_cells_at [OF assms] by blast
  have "updated (cells_at js ident trm app cks) (\<lambda>_. None) = cells_view js ident trm app"
    by (rule updated_cells [OF c(2)]) (use c(3) in force)+
  with c(1) show ?thesis by simp
qed

end
