(* ===== verification/Cells_Read.thy ===== *)
theory Cells_Read
  imports Cells
begin

text \<open>
  Reading the cells of an application back: whatever order a store lists them in, the reader rebuilds the application they
  were written from.
\<close>

section \<open>Reading the cells back\<close>

definition utf8 :: "string \<Rightarrow> bool" where
  "utf8 s \<longleftrightarrow> utf8_valid (map unat (text_bytes s))"

lemma cell_text_utf8 [simp]: "utf8 s \<Longrightarrow> cell_text (text_bytes s) = Inr s"
  by (simp add: cell_text_def utf8_def)

text \<open>Every text of the application is UTF-8, as every \<^verbatim>\<open>String\<close> is.\<close>

definition app_texts :: "state_machine \<Rightarrow> bool" where
  "app_texts app \<longleftrightarrow> (\<forall>(k, v) \<in> set (app_values app). utf8 k \<and> utf8 v) \<and> (\<forall>(n, _) \<in> set (app_registrations app). utf8 n) \<and>
     (\<forall>(_, ss) \<in> set (app_sessions app). \<forall>(k, _) \<in> set (ss_keys ss). utf8 k)"

definition values_read :: "state_machine \<Rightarrow> cell_key list \<Rightarrow> (string \<times> string) list" where
  "values_read app cks = concat (map (\<lambda>ck. case ck of ValueKey k \<Rightarrow> [(k, the (bt_get (app_values app) k))] | _ \<Rightarrow> []) cks)"

definition retries_read :: "state_machine \<Rightarrow> log_index \<Rightarrow> cell_key list \<Rightarrow> session_key_snapshot list" where
  "retries_read app sid cks = concat (map (\<lambda>ck. case ck of RetryKey i k \<Rightarrow> if i = sid then [the (app_session_key app i k)] else [] | _ \<Rightarrow> []) cks)"

text \<open>What the reader has collected after some of the cells of an application.\<close>

definition has_read :: "application_identity \<Rightarrow> nat \<Rightarrow> state_machine \<Rightarrow> cell_key list \<Rightarrow> decoding \<Rightarrow> bool" where
  "has_read ident trm app cks d \<longleftrightarrow>
     dc_seen d = key_bytes ` set cks \<and>
     dc_meta d = (if MetaKey \<in> set cks then Some (metadata_of app ident trm) else None) \<and>
     dc_values d = values_read app cks \<and>
     bt_sorted (dc_registrations d) \<and>
     (\<forall>i n. bt_get (dc_registrations d) i = Some n \<longleftrightarrow> NonceKey n \<in> set cks \<and> registration_id app n = Some i) \<and>
     bt_sorted (dc_headers d) \<and>
     (\<forall>i. bt_get (dc_headers d) i = (if HeaderKey i \<in> set cks then app_session_header app i else None)) \<and>
     bt_sorted (dc_keys d) \<and>
     (\<forall>i. bt_get (dc_keys d) i = (if retries_read app i cks = [] then None else Some (retries_read app i cks)))"

lemma has_read_start: "has_read ident trm app [] decode_start"
  by (simp add: has_read_def decode_start_def values_read_def retries_read_def bt_sorted_def)

definition readable :: "state_machine \<Rightarrow> cell_key \<Rightarrow> bool" where
  "readable app ck \<longleftrightarrow> key_fits ck \<and> (case ck of
       MetaKey \<Rightarrow> True
     | ValueKey k \<Rightarrow> utf8 k \<and> (\<exists>v. bt_get (app_values app) k = Some v \<and> utf8 v)
     | NonceKey n \<Rightarrow> utf8 n \<and> (\<exists>i. registration_id app n = Some i \<and> i \<le> u64_max)
     | HeaderKey i \<Rightarrow> app_session_header app i \<noteq> None
     | RetryKey i k \<Rightarrow> utf8 k \<and> k \<noteq> [] \<and> (\<exists>r. app_session_key app i k = Some r \<and> ks_key r = k))"

lemma registration_unique:
  assumes "app_ok digest app" "registration_id app n = Some i" "registration_id app n' = Some i"
  shows "n = n'"
proof -
  have "inj_on snd (set (app_registrations app))" using assms(1) by (simp add: app_ok_def distinct_map)
  from inj_onD [OF this, of "(n, i)" "(n', i)"] assms(2,3) show ?thesis by (auto simp: registration_id_def dest: map_of_SomeD)
qed

lemma decode_row_cell:
  assumes js: "json_ok js" and ok: "app_ok digest app" and d: "has_read ident trm app cks d" and ck: "readable app ck" "ck \<notin> set cks"
    and fits: "\<forall>ck \<in> set cks. key_fits ck"
  shows "\<exists>d'. decode_row js (key_bytes ck) (the (cell_value js ident trm app ck)) d = Inr d' \<and> has_read ident trm app (cks @ [ck]) d'"
proof -
  have fit: "key_fits ck" using ck(1) by (simp add: readable_def)
  have new: "key_bytes ck \<notin> dc_seen d" 
  proof
    assume "key_bytes ck \<in> dc_seen d"
    then obtain ck' where "ck' \<in> set cks" "key_bytes ck = key_bytes ck'" using d by (auto simp: has_read_def)
    with ck(2) fits key_bytes_inj [OF fit, of ck'] show False by auto
  qed
  have [simp]: "js_parse_metadata js (js_metadata js m) = Some m" "js_parse_header js (js_header js h) = Some h"
    "js_parse_key js (js_key js r) = Some r" for m h r using js by (simp_all add: json_ok_def)
  note run = decode_row_def new if_not_P [OF new] Let_def parsed_def named_def session_key_def prefixes other_prefix strip_own
  show ?thesis
  proof (cases ck)
    case MetaKey
    with d new show ?thesis by (simp add: decode_row_def parsed_def Let_def has_read_def values_read_def retries_read_def)
  next
    case (ValueKey k)
    then obtain v where v: "bt_get (app_values app) k = Some v" "utf8 k" "utf8 v" using ck(1) by (auto simp: readable_def)
    with d ValueKey new show ?thesis by (simp add: run has_read_def values_read_def retries_read_def)
  next
    case (NonceKey n)
    then obtain i where i: "registration_id app n = Some i" "i \<le> u64_max" "utf8 n" using ck(1) by (auto simp: readable_def)
    have "bt_get (dc_registrations d) i = None"
    proof (rule ccontr)
      assume "bt_get (dc_registrations d) i \<noteq> None"
      then obtain n' where "NonceKey n' \<in> set cks" "registration_id app n' = Some i" using d by (auto simp: has_read_def)
      with registration_unique [OF ok i(1)] ck(2) NonceKey show False by auto
    qed
    then have "decode_row js (key_bytes ck) (the (cell_value js ident trm app ck)) d =
        Inr (d\<lparr>dc_seen := insert (key_bytes ck) (dc_seen d), dc_registrations := bt_insert i n (dc_registrations d)\<rparr>)"
      using NonceKey new i by (simp add: run decode_registration_def session_id_def be_value_id)
    moreover have "bt_get (bt_insert i n (dc_registrations d)) i' = Some n' \<longleftrightarrow> NonceKey n' \<in> set (cks @ [ck]) \<and> registration_id app n' = Some i'" for i' n'
      using d NonceKey i(1) registration_unique [OF ok i(1), of n'] by (auto simp: has_read_def bt_get_insert)
    ultimately show ?thesis using d NonceKey by (simp add: has_read_def values_read_def retries_read_def bt_sorted_insert)
  next
    case (HeaderKey i)
    then have "i \<le> u64_max" "app_session_header app i \<noteq> None" using ck(1) by (auto simp: readable_def)
    with d HeaderKey new show ?thesis
      by (auto simp: run session_id_def be_value_id has_read_def values_read_def retries_read_def bt_sorted_insert bt_get_insert)
  next
    case (RetryKey i k)
    then obtain r where i: "i \<le> u64_max" "utf8 k" "k \<noteq> []" "app_session_key app i k = Some r" "ks_key r = k" using ck(1) by (auto simp: readable_def)
    with d RetryKey new show ?thesis
      by (auto simp: run decode_retry_def session_id_def be_value_id has_read_def values_read_def retries_read_def bt_sorted_insert bt_get_insert)
  qed
qed

lemma decode_rows_cells:
  assumes "json_ok js" "app_ok digest app" "has_read ident trm app ps d" "\<forall>ck \<in> set (ps @ cks). readable app ck" "distinct (ps @ cks)"
  shows "\<exists>d'. decode_rows js (map (\<lambda>ck. (key_bytes ck, the (cell_value js ident trm app ck))) cks) d = Inr d' \<and> has_read ident trm app (ps @ cks) d'"
  using assms(3-5)
proof (induction cks arbitrary: ps d)
  case (Cons ck cks)
  have "\<forall>ck \<in> set ps. key_fits ck" using Cons.prems(2) by (auto simp: readable_def)
  with decode_row_cell [OF assms(1,2) Cons.prems(1), of ck] Cons.prems
  obtain d1 where d1: "decode_row js (key_bytes ck) (the (cell_value js ident trm app ck)) d = Inr d1" "has_read ident trm app (ps @ [ck]) d1" by auto
  from Cons.IH [OF d1(2)] Cons.prems d1(1) show ?case by simp
qed auto

lemma decode_sessions_all:
  assumes "distinct (map fst hs)" "\<forall>p \<in> set hs. bt_get regs (fst p) = Some (nonce (fst p))"
  shows "decode_sessions hs regs keys = Inr (map (\<lambda>p. \<lparr>sn_nonce = nonce (fst p), sn_session_id = fst p, sn_registered = sh_registered (snd p),
      sn_closed = sh_closed (snd p), sn_keys = (case bt_get keys (fst p) of None \<Rightarrow> [] | Some rs \<Rightarrow> rs)\<rparr>) hs,
    filter (\<lambda>p. fst p \<notin> fst ` set hs) regs, filter (\<lambda>p. fst p \<notin> fst ` set hs) keys)"
  using assms
proof (induction hs arbitrary: regs keys)
  case (Cons p hs)
  obtain sid h where p: "p = (sid, h)" by (cases p)
  have other: "fst q \<noteq> sid" if "q \<in> set hs" for q using Cons.prems(1) that p by (metis distinct.simps(2) fst_conv image_eqI list.map(2) list.set_map)
  have "\<forall>q \<in> set hs. bt_get (bt_remove sid regs) (fst q) = Some (nonce (fst q))" using Cons.prems(2) other by (simp add: bt_get_remove)
  moreover have "bt_get regs sid = Some (nonce sid)" using Cons.prems(2) p by simp
  ultimately show ?case
    using Cons.IH [of "bt_remove sid regs" "bt_remove sid keys"] Cons.prems(1) other
    by (auto simp: p bt_get_remove [unfolded bt_remove_def] bt_remove_def intro!: filter_cong)
qed simp

lemma values_read_set: "(k, v) \<in> set (values_read app cks) \<longleftrightarrow> ValueKey k \<in> set cks \<and> v = the (bt_get (app_values app) k)"
  by (force simp: values_read_def split: cell_key.splits)

lemma values_read_distinct: "distinct cks \<Longrightarrow> distinct (map fst (values_read app cks))"
proof (induction cks)
  case (Cons ck cks)
  have "k \<notin> fst ` set (values_read app cks)" if "ck = ValueKey k" for k using Cons.prems that by (auto simp: values_read_set)
  with Cons show ?case by (auto simp: values_read_def split: cell_key.splits)
qed (simp add: values_read_def)

lemma retries_read_set: "r \<in> set (retries_read app sid cks) \<longleftrightarrow> (\<exists>k. RetryKey sid k \<in> set cks \<and> r = the (app_session_key app sid k))"
  by (force simp: retries_read_def split: cell_key.splits if_splits)

lemma retries_read_distinct:
  assumes "distinct cks" "\<forall>ck \<in> set cks. readable app ck"
  shows "distinct (map ks_key (retries_read app sid cks))"
  using assms
proof (induction cks)
  case (Cons ck cks)
  have own: "ks_key (the (app_session_key app sid k)) = k" if "RetryKey sid k \<in> set (ck # cks)" for k
    using Cons.prems(2) that by (fastforce simp: readable_def)
  have "ks_key (the (app_session_key app sid k)) \<notin> ks_key ` set (retries_read app sid cks)" if "ck = RetryKey sid k" for k
    using Cons.prems(1) that own by (auto simp: retries_read_set)
  with Cons show ?case by (auto simp: retries_read_def split: cell_key.splits if_splits)
qed (simp add: retries_read_def)

lemma readable_cells:
  assumes ok: "app_ok digest app" and texts: "app_texts app" and ck: "key_fits ck" "cell_value js ident trm app ck \<noteq> None"
  shows "readable app ck"
proof (cases ck)
  case (ValueKey k)
  with ck(2) obtain v where "(k, v) \<in> set (app_values app)" "bt_get (app_values app) k = Some v" by (auto dest: map_of_SomeD)
  with texts ValueKey show ?thesis by (auto simp: readable_def app_texts_def)
next
  case (NonceKey n)
  with ck(2) obtain i where i: "registration_id app n = Some i" by auto
  then have "(n, i) \<in> set (app_registrations app)" by (simp add: registration_id_def map_of_SomeD)
  moreover have "i \<le> u64_max" using registered_header [OF ok i] app_ok_ids [OF ok] by blast
  ultimately show ?thesis using texts i NonceKey by (auto simp: readable_def app_texts_def)
next
  case (RetryKey i k)
  with ck(2) obtain ss r where s: "bt_get (app_sessions app) i = Some ss" "bt_get (ss_keys ss) k = Some r"
    by (auto simp: app_session_key_def split: option.splits)
  have mem: "(i, ss) \<in> set (app_sessions app)" "(k, r) \<in> set (ss_keys ss)" using s by (simp_all add: map_of_SomeD)
  with texts have "utf8 k" unfolding app_texts_def by fast
  moreover have "k \<noteq> []" using app_ok_session(1) [OF ok s(1)] mem(2) by (auto simp: session_ok_def key_ok_def)
  ultimately show ?thesis using s RetryKey ck(1) by (simp add: readable_def app_session_key_def)
qed (use ck in \<open>auto simp: readable_def\<close>)

text \<open>The sessions put together from all cells are those of the application.\<close>

lemma read_session:
  assumes ok: "app_ok digest app" and ss: "bt_get (app_sessions app) sid = Some ss"
    and cks: "distinct cks" "\<forall>ck \<in> set cks. readable app ck" "\<And>k. app_session_key app sid k \<noteq> None \<longleftrightarrow> RetryKey sid k \<in> set cks"
    and sv: "sn_registered sv = ss_registered ss" "sn_closed sv = ss_closed ss" "sn_keys sv = retries_read app sid cks"
  shows "saved_session sv = ss" "distinct (map ks_key (sn_keys sv))"
proof -
  show d: "distinct (map ks_key (sn_keys sv))" unfolding sv(3) by (rule retries_read_distinct [OF cks(1,2)])
  have srt: "bt_sorted (ss_keys ss)" using app_ok_session(1) [OF ok ss] by (simp add: session_ok_def)
  have key: "app_session_key app sid k = (case bt_get (ss_keys ss) k of None \<Rightarrow> None | Some r \<Rightarrow> Some (export_key (k, r)))" for k
    by (simp add: app_session_key_def ss export_key_def split: option.split)
  have "set (map saved_key (sn_keys sv)) = {(k, r). bt_get (ss_keys ss) k = Some r}"
  proof -
    have one: "saved_key (the (app_session_key app sid k)) = (k, r)" if "bt_get (ss_keys ss) k = Some r" for k r using that by (simp add: key)
    have "RetryKey sid k \<in> set cks \<longleftrightarrow> (\<exists>r. bt_get (ss_keys ss) k = Some r)" for k using cks(3) [of k] by (cases "bt_get (ss_keys ss) k") (simp_all add: key)
    then show ?thesis unfolding sv(3) set_map using one
      by (auto simp: retries_read_set image_iff) (metis (no_types) one retries_read_set)
  qed
  also have "\<dots> = set (ss_keys ss)" using bt_sorted_distinct [OF srt] by auto
  finally have "inserted (map saved_key (sn_keys sv)) [] = ss_keys ss"
    using d by (intro inserted_same [OF srt]) (simp_all add: comp_def)
  with sv show "saved_session sv = ss" by (simp add: saved_session_def)
qed

text \<open>What the reader holds once it has seen every cell.\<close>

lemma read_everything:
  assumes ok: "app_ok digest app" and d: "has_read ident trm app cks d"
    and cks: "set cks = {ck. key_fits ck \<and> cell_value js ident trm app ck \<noteq> None}"
  shows "bt_get (dc_headers d) i = app_session_header app i"
    "bt_get (dc_registrations d) i = Some n \<longleftrightarrow> registration_id app n = Some i"
    "app_session_key app i k \<noteq> None \<longleftrightarrow> RetryKey i k \<in> set cks"
    "(case bt_get (dc_keys d) i of None \<Rightarrow> [] | Some rs \<Rightarrow> rs) = retries_read app i cks"
    "fst ` set (dc_headers d) = fst ` set (app_sessions app)"
    "filter (\<lambda>p. fst p \<notin> fst ` set (dc_headers d)) (dc_registrations d) = []"
    "filter (\<lambda>p. fst p \<notin> fst ` set (dc_headers d)) (dc_keys d) = []"
proof -
  have fit: "i \<le> u64_max" if "bt_get (app_sessions app) i = Some ss" for i ss using app_ok_ids [OF ok that] .
  show hdr: "bt_get (dc_headers d) i = app_session_header app i" for i
    using d cks fit [of i] by (cases "bt_get (app_sessions app) i") (auto simp: has_read_def app_session_header_def)
  show reg: "bt_get (dc_registrations d) i = Some n \<longleftrightarrow> registration_id app n = Some i" for i n
    using d cks by (auto simp: has_read_def)
  show rk: "app_session_key app i k \<noteq> None \<longleftrightarrow> RetryKey i k \<in> set cks" for i k
    using cks fit by (auto simp: app_session_key_def split: option.splits)
  show "(case bt_get (dc_keys d) i of None \<Rightarrow> [] | Some rs \<Rightarrow> rs) = retries_read app i cks" using d by (simp add: has_read_def)
  have "dom (bt_get (dc_headers d)) = dom (bt_get (app_sessions app))" by (auto simp: dom_def hdr app_session_header_def)
  then show ids: "fst ` set (dc_headers d) = fst ` set (app_sessions app)" by (simp add: dom_map_of_conv_image_fst)
  have known: "i \<in> fst ` set (dc_headers d)" if "bt_get (app_sessions app) i \<noteq> None" for i
    unfolding ids using that by (metis domIff dom_map_of_conv_image_fst)
  have srt: "distinct (map fst (dc_registrations d))" "distinct (map fst (dc_keys d))" using d bt_sorted_distinct by (auto simp: has_read_def)
  have "fst p \<in> fst ` set (dc_headers d)" if "p \<in> set (dc_registrations d)" for p
  proof -
    have "registration_id app (snd p) = Some (fst p)" using that srt(1) reg [of "fst p" "snd p"] by simp
    from registered_header [OF ok this] known show ?thesis by blast
  qed
  then show "filter (\<lambda>p. fst p \<notin> fst ` set (dc_headers d)) (dc_registrations d) = []" by (simp add: filter_empty_conv)
  have "fst p \<in> fst ` set (dc_headers d)" if "p \<in> set (dc_keys d)" for p
  proof -
    have "bt_get (dc_keys d) (fst p) = Some (snd p)" using that srt(2) by simp
    then have "retries_read app (fst p) cks \<noteq> []" using d by (auto simp: has_read_def)
    then obtain k where "RetryKey (fst p) k \<in> set cks" using retries_read_set by (metis hd_in_set)
    then have "bt_get (app_sessions app) (fst p) \<noteq> None" using rk [of "fst p" k] by (auto simp: app_session_key_def split: option.splits)
    then show ?thesis by (rule known)
  qed
  then show "filter (\<lambda>p. fst p \<notin> fst ` set (dc_headers d)) (dc_keys d) = []" by (simp add: filter_empty_conv)
qed

lemma decode_all:
  assumes js: "json_ok js" and ok: "app_ok digest app" "values_ok app" "app_texts app" and pos: "app_last_applied app \<noteq> 0" "trm \<noteq> 0"
    and cks: "distinct cks" "set cks = {ck. key_fits ck \<and> cell_value js ident trm app ck \<noteq> None}"
  shows "decode_cells js digest (map (\<lambda>ck. (key_bytes ck, the (cell_value js ident trm app ck))) cks) (app_last_applied app) ident = Inr (app, trm)"
proof -
  have rd: "\<forall>ck \<in> set cks. readable app ck" using readable_cells [OF ok(1,3)] cks(2) by blast
  obtain d where run: "decode_rows js (map (\<lambda>ck. (key_bytes ck, the (cell_value js ident trm app ck))) cks) decode_start = Inr d"
    and d: "has_read ident trm app cks d" using decode_rows_cells [OF js ok(1) has_read_start, of cks ident trm] rd cks(1) by auto
  note all = read_everything [OF ok(1) d cks(2)]
  have hd: "distinct (map fst (dc_headers d))" using d bt_sorted_distinct by (auto simp: has_read_def)
  define nonce where "nonce i = the (bt_get (dc_registrations d) i)" for i
  have nonce: "bt_get (dc_registrations d) i = Some (nonce i)" "registration_id app (nonce i) = Some i" if s: "bt_get (app_sessions app) i = Some ss" for i ss
  proof -
    have "i \<in> snd ` set (app_registrations app)" using s ok(1) by (force simp: app_ok_def dest: map_of_SomeD)
    then obtain n where "registration_id app n = Some i" using bt_sorted_distinct [OF app_okD(2) [OF ok(1)]] by (auto simp: registration_id_def)
    with all(2) [of i n] show "bt_get (dc_registrations d) i = Some (nonce i)" "registration_id app (nonce i) = Some i" by (simp_all add: nonce_def)
  qed
  have head: "\<exists>ss. bt_get (app_sessions app) (fst p) = Some ss \<and> snd p = \<lparr>sh_registered = ss_registered ss, sh_closed = ss_closed ss\<rparr>"
    if "p \<in> set (dc_headers d)" for p
    using map_of_is_SomeI [OF hd, of "fst p" "snd p"] that all(1) [of "fst p"] by (auto simp: app_session_header_def)
  let ?sv = "\<lambda>p. \<lparr>sn_nonce = nonce (fst p), sn_session_id = fst p, sn_registered = sh_registered (snd p),
      sn_closed = sh_closed (snd p), sn_keys = (case bt_get (dc_keys d) (fst p) of None \<Rightarrow> [] | Some rs \<Rightarrow> rs)\<rparr>"
  have "\<forall>p \<in> set (dc_headers d). bt_get (dc_registrations d) (fst p) = Some (nonce (fst p))" using head nonce(1) by blast
  note parts = decode_sessions_all [OF hd this, of "dc_keys d"]
  have "import_snapshot digest \<lparr>as_schema_version = 1, as_last_applied = app_last_applied app, as_values = dc_values d, as_sessions = map ?sv (dc_headers d),
    as_retained_keys = app_retained_keys app, as_retained_payload_bytes = app_retained_payload_bytes app\<rparr> (app_last_applied app) = Inr app"
  proof (rule import_listed [OF ok(1,2)])
    show "distinct (map fst (dc_values d))" using d values_read_distinct [OF cks(1)] by (simp add: has_read_def)
    have "set (dc_values d) = {(k, v). bt_get (app_values app) k = Some v}" using d cks(2) by (auto simp: has_read_def values_read_set)
    then show "set (dc_values d) = set (app_values app)" using bt_sorted_distinct [OF app_okD(1) [OF ok(1)]] by auto
    show "distinct (map sn_session_id (map ?sv (dc_headers d)))" using hd by (simp add: comp_def)
    show "sn_session_id ` set (map ?sv (dc_headers d)) = fst ` set (app_sessions app)" using all(5) by (simp add: image_image)
    fix sv
    assume "sv \<in> set (map ?sv (dc_headers d))"
    then obtain p where p: "p \<in> set (dc_headers d)" "sv = ?sv p" by auto
    from head [OF p(1)] obtain ss where ss: "bt_get (app_sessions app) (fst p) = Some ss" "sh_registered (snd p) = ss_registered ss" "sh_closed (snd p) = ss_closed ss"
      by auto
    have "saved_session sv = ss" "distinct (map ks_key (sn_keys sv))"
      using read_session [OF ok(1) ss(1) cks(1) rd all(3), of sv] ss(2,3) p(2) all(4) by simp_all
    with ss(1) p(2) nonce(2) [OF ss(1)]
    show "(sn_nonce sv, sn_session_id sv) \<in> set (app_registrations app) \<and> (sn_session_id sv, saved_session sv) \<in> set (app_sessions app)"
      "distinct (map ks_key (sn_keys sv))" by (simp_all add: registration_id_def map_of_SomeD)
  qed
  moreover have "dc_meta d = Some (metadata_of app ident trm)" using d cks(2) by (simp add: has_read_def)
  ultimately show ?thesis
    using run parts all(6,7) pos by (simp add: decode_cells_def metadata_of_def retained_counts_def)
qed

lemma decode_stored:
  assumes js: "json_ok js" and ok: "app_ok digest app" "values_ok app" "app_texts app" and trm: "trm \<noteq> 0"
    and rows: "distinct (map fst rows)" "set rows = {(k, v). stored_cells js ident trm app k = Some v}"
  shows "decode_cells js digest rows (app_last_applied app) ident = Inr (app, if app_last_applied app = 0 then 0 else trm)"
proof (cases "app_last_applied app = 0")
  case True
  then have "rows = []" using rows(2) by (auto simp: stored_cells_def simp flip: set_empty)
  with True app_ok_zero [OF ok(1)] show ?thesis by (simp add: decode_cells_def)
next
  case False
  define cks where "cks = map (\<lambda>p. the (key_of (fst p))) rows"
  have cell: "\<exists>ck. key_of k = Some ck \<and> key_bytes ck = k \<and> key_fits ck \<and> cell_value js ident trm app ck = Some v" if "(k, v) \<in> set rows" for k v
    using that False key_of_Some by (auto simp: rows(2) stored_cells_def cells_view_def split: option.splits)
  have again: "map (\<lambda>ck. (key_bytes ck, the (cell_value js ident trm app ck))) cks = rows"
    using cell by (fastforce simp: cks_def comp_def intro!: map_idI)
  have "map key_bytes cks = map fst rows" using arg_cong [OF again, of "map fst"] by (simp add: comp_def)
  then have "distinct cks" using rows(1) distinct_map by metis
  moreover have "ck \<in> set cks" if "key_fits ck" "cell_value js ident trm app ck \<noteq> None" for ck
  proof -
    from that(2) obtain v where "cell_value js ident trm app ck = Some v" by auto
    then have "(key_bytes ck, v) \<in> set rows" using False key_of_bytes [OF that(1)] by (simp add: rows(2) stored_cells_def cells_view_def)
    then show ?thesis using key_of_bytes [OF that(1)] unfolding cks_def by force
  qed
  then have "set cks = {ck. key_fits ck \<and> cell_value js ident trm app ck \<noteq> None}" using cell by (fastforce simp: cks_def)
  ultimately have "decode_cells js digest rows (app_last_applied app) ident = Inr (app, trm)"
    using decode_all [OF js ok False trm, of cks ident] unfolding again by blast
  with False show ?thesis by simp
qed

end
