(* ===== verification/Applied_Store.thy ===== *)
theory Applied_Store
  imports Cells_Read
begin

text \<open>
  \<^verbatim>\<open>kv-node/src/applied_store.rs\<close>, the store of the applied state, and the part of \<^verbatim>\<open>kv-node/src/kv.rs\<close> that
  publishes applied entries to readers: a group of committed entries is applied under an undo transaction, its cells are
  coalesced within the engine's budget, committed in one engine transaction, and only then made visible.
  The engine is a trait object in the sources; its operations are arguments here.
\<close>

section \<open>Coalescing cells\<close>

fun merge_check :: "(byte list, byte list option) btree \<Rightarrow> byte list set \<Rightarrow> nat \<Rightarrow> nat \<Rightarrow> mutation list \<Rightarrow> (nat \<times> nat) stored" where
  "merge_check current seen bytes number [] = Inr (bytes, number)"
| "merge_check current seen bytes number (c # cs) =
     (if mut_key c \<in> seen \<or> mut_key c = [] \<or> length (mut_key c) > Store_Codec.MAX_KEY_BYTES \<or>
         (case mut_value c of None \<Rightarrow> False | Some v \<Rightarrow> length v > Store_Codec.MAX_VALUE_BYTES)
      then Inl (InvalidData ''application cell exceeds engine bounds'')
      else rbind (case bt_get current (mut_key c) of
               Some previous \<Rightarrow>
                 (case checked_sub bytes (length (mut_key c) + value_length previous) of
                    None \<Rightarrow> Inl (InvalidData ''inconsistent accumulated cell size'')
                  | Some bytes \<Rightarrow> Inr (bytes, number))
             | None \<Rightarrow> Inr (bytes, number + 1)) (\<lambda>(bytes, number).
           case checked_add bytes (length (mut_key c) + value_length (mut_value c)) of
             None \<Rightarrow> Inl (InvalidData ''cell byte count overflow'')
           | Some bytes \<Rightarrow> merge_check current (insert (mut_key c) seen) bytes number cs))"

definition merge_cells :: "(byte list, byte list option) btree \<Rightarrow> nat \<Rightarrow> mutation list \<Rightarrow>
    ((byte list, byte list option) btree \<times> nat) option stored" where
  "merge_cells current bytes changes =
     rbind (merge_check current {} bytes (length current) changes) (\<lambda>(size, number).
       if size > MAX_BATCH_BYTES \<or> number > MAX_BATCH_RECORDS then Inr None
       else Inr (Some (fold (\<lambda>c. bt_insert (mut_key c) (mut_value c)) changes current, size)))"

section \<open>The applied store\<close>

datatype state_backend = Memory | Lsm | Redb

record 'h applied_store =
  ap_backend :: state_backend
  ap_identity :: application_identity
  ap_engine :: "'h option"
  ap_index :: log_index
  ap_term :: nat
  ap_poisoned :: bool

definition reopen_required :: store_error where
  "reopen_required = OtherError ''application engine requires reopen after I/O failure''"

definition applied_commit :: "(nat \<Rightarrow> nat \<Rightarrow> mutation list \<Rightarrow> 'h \<Rightarrow> commit_outcome stored \<times> 'h) \<Rightarrow> log_index \<Rightarrow> log_index \<Rightarrow> nat \<Rightarrow>
    mutation list \<Rightarrow> 'h applied_store \<Rightarrow> unit stored \<times> 'h applied_store" where
  "applied_commit commit_range_op lo idx trm cells st =
     (if ap_poisoned st then (Inl reopen_required, st)
      else if checked_add (ap_index st) 1 \<noteq> Some lo
      then (Inl (InvalidData ''application range does not follow engine watermark''), st)
      else case ap_engine st of
             None \<Rightarrow> (Inr (), st\<lparr>ap_index := idx, ap_term := trm\<rparr>)
           | Some h \<Rightarrow>
               (case commit_range_op lo idx cells h of
                  (Inl e, h) \<Rightarrow> (Inl e, st\<lparr>ap_engine := Some h, ap_poisoned := True\<rparr>)
                | (Inr _, h) \<Rightarrow> (Inr (), st\<lparr>ap_engine := Some h, ap_index := idx, ap_term := trm\<rparr>)))"

record snapshot_image =
  si_descriptor :: snapshot_descriptor
  si_application :: state_machine

definition image_matches :: "application_identity \<Rightarrow> snapshot_descriptor \<Rightarrow> bool" where
  "image_matches ident d =
     (case sm_membership (metadata d) of
        Some m \<Rightarrow>
          (let g = (if group_id (cm_state m) = LEGACY_GROUP_ID then ''legacy'' else group_id (cm_state m))
           in g = id_group ident \<and> genesis_voters (cm_state m) = id_genesis_voters ident)
      | None \<Rightarrow> members (metadata d) = id_genesis_voters ident)"

text \<open>\<open>None\<close> is a panic of the export.\<close>

definition applied_install :: "(nat \<Rightarrow> mutation list \<Rightarrow> 'h \<Rightarrow> unit stored \<times> 'h) \<Rightarrow> cell_json \<Rightarrow> snapshot_image \<Rightarrow> 'h applied_store \<Rightarrow>
    (unit stored \<times> 'h applied_store) option" where
  "applied_install install_op js img st =
     (let d = si_descriptor img; idx = last_included_index (metadata d); trm = last_included_term (metadata d)
      in if ap_poisoned st then Some (Inl reopen_required, st)
         else if \<not> image_matches (ap_identity st) d \<or> idx \<le> ap_index st
         then Some (Inl (InvalidData ''snapshot does not advance this application's identity/boundary''), st)
         else case ap_engine st of
                None \<Rightarrow> Some (Inr (), st\<lparr>ap_index := idx, ap_term := trm\<rparr>)
              | Some h \<Rightarrow>
                  map_option (\<lambda>cells. case install_op idx cells h of
                       (Inl e, h) \<Rightarrow> (Inl e, st\<lparr>ap_engine := Some h, ap_poisoned := True\<rparr>)
                     | (Inr _, h) \<Rightarrow> (Inr (), st\<lparr>ap_engine := Some h, ap_index := idx, ap_term := trm\<rparr>))
                    (full_cells js (si_application img) (ap_identity st) trm))"

definition applied_flush :: "('h \<Rightarrow> unit stored \<times> 'h) \<Rightarrow> 'h applied_store \<Rightarrow> unit stored \<times> 'h applied_store" where
  "applied_flush flush_op st =
     (if ap_poisoned st then (Inl reopen_required, st)
      else case ap_engine st of None \<Rightarrow> (Inr (), st) | Some h \<Rightarrow> (case flush_op h of (r, h) \<Rightarrow> (r, st\<lparr>ap_engine := Some h\<rparr>)))"

definition applied_maintain :: "('h \<Rightarrow> bool stored \<times> 'h) \<Rightarrow> 'h applied_store \<Rightarrow> bool stored \<times> 'h applied_store" where
  "applied_maintain maintain_op st =
     (if ap_poisoned st then (Inl reopen_required, st)
      else case ap_engine st of None \<Rightarrow> (Inr False, st) | Some h \<Rightarrow> (case maintain_op h of (r, h) \<Rightarrow> (r, st\<lparr>ap_engine := Some h\<rparr>)))"

text \<open>The status a store reports; the statistics of the engine may fail, their contents are not looked at.\<close>

record store_status =
  ss_backend :: state_backend
  ss_applied_index :: log_index
  ss_durable :: bool

definition applied_status :: "('h \<Rightarrow> unit stored) \<Rightarrow> 'h applied_store \<Rightarrow> store_status stored" where
  "applied_status statistics st =
     rbind (case ap_engine st of None \<Rightarrow> Inr () | Some h \<Rightarrow> statistics h) (\<lambda>_.
       Inr \<lparr>ss_backend = ap_backend st, ss_applied_index = ap_index st, ss_durable = (ap_engine st \<noteq> None)\<rparr>)"

section \<open>Publishing a group of entries\<close>

record read_state =
  rs_application :: state_machine
  rs_last_applied :: log_index
  rs_commit_index :: log_index
  rs_store :: "store_status option"

record group =
  gr_tx :: transaction
  gr_cells :: "(byte list, byte list option) btree"
  gr_bytes :: nat
  gr_outcomes :: "(log_index \<times> apply_outcome) list"
  gr_term :: nat

text \<open>The loop over the entries; an error carries the transaction that is then dropped, \<open>None\<close> is a panic.\<close>

fun prepare :: "cell_json \<Rightarrow> (byte list \<Rightarrow> byte list) \<Rightarrow> application_identity \<Rightarrow> entry list \<Rightarrow> group \<Rightarrow> (store_error \<times> transaction + group) option" where
  "prepare js digest ident [] g = Some (Inr g)"
| "prepare js digest ident (e # es) g =
     (case tx_apply digest e (gr_tx g) of
        None \<Rightarrow> None
      | Some (Inl err, tx) \<Rightarrow> Some (Inl (InvalidData ''noncontiguous application entry'', tx))
      | Some (Inr x, tx) \<Rightarrow>
          (case entry_cells js (tx_state tx) ident e of
             Inl err \<Rightarrow> Some (Inl (err, tx))
           | Inr changes \<Rightarrow>
               (case merge_cells (gr_cells g) (gr_bytes g) changes of
                  Inl err \<Rightarrow> Some (Inl (err, tx))
                | Inr None \<Rightarrow>
                    (case tx_undo_last tx of
                       None \<Rightarrow> None
                     | Some tx \<Rightarrow>
                         if gr_outcomes g = [] then Some (Inl (InvalidData ''one applied entry exceeds engine transaction budget'', tx))
                         else Some (Inr (g\<lparr>gr_tx := tx\<rparr>)))
                | Inr (Some (cells, bytes)) \<Rightarrow>
                    prepare js digest ident es \<lparr>gr_tx = tx, gr_cells = cells, gr_bytes = bytes,
                      gr_outcomes = gr_outcomes g @ [(index e, x)], gr_term = e_term e\<rparr>)))"

definition cell_mutations :: "(byte list, byte list option) btree \<Rightarrow> mutation list" where
  "cell_mutations m = map (\<lambda>(k, v). \<lparr>mut_key = k, mut_value = v\<rparr>) m"

definition apply_group :: "(nat \<Rightarrow> nat \<Rightarrow> mutation list \<Rightarrow> 'h \<Rightarrow> commit_outcome stored \<times> 'h) \<Rightarrow> ('h \<Rightarrow> unit stored) \<Rightarrow> cell_json \<Rightarrow>
    (byte list \<Rightarrow> byte list) \<Rightarrow> entry list \<Rightarrow> read_state \<Rightarrow> 'h applied_store \<Rightarrow>
    ((log_index \<times> apply_outcome) list stored \<times> read_state \<times> 'h applied_store) option" where
  "apply_group commit_range_op statistics js digest es rs st =
     (case es of
        [] \<Rightarrow> Some (Inl (InvalidInput ''empty applied range''), rs, st)
      | e # _ \<Rightarrow>
          (case prepare js digest (ap_identity st) (take MAX_APPLY_RANGE es)
               \<lparr>gr_tx = tx_begin (rs_application rs), gr_cells = [], gr_bytes = 0, gr_outcomes = [], gr_term = 0\<rparr> of
             None \<Rightarrow> None
           | Some (Inl (err, tx)) \<Rightarrow> map_option (\<lambda>app. (Inl err, rs\<lparr>rs_application := app\<rparr>, st)) (tx_drop tx)
           | Some (Inr g) \<Rightarrow>
               if gr_outcomes g = [] then None
               else let hi = fst (last (gr_outcomes g))
               in case applied_commit commit_range_op (index e) hi (gr_term g) (cell_mutations (gr_cells g)) st of
                    (Inl err, st) \<Rightarrow> map_option (\<lambda>app. (Inl err, rs\<lparr>rs_application := app\<rparr>, st)) (tx_drop (gr_tx g))
                  | (Inr _, st) \<Rightarrow>
                      let rs = rs\<lparr>rs_application := tx_state (gr_tx g), rs_last_applied := hi,
                        rs_commit_index := max (rs_commit_index rs) hi\<rparr>
                      in case applied_status statistics st of
                           Inl err \<Rightarrow> Some (Inl err, rs, st)
                         | Inr status \<Rightarrow> Some (Inr (gr_outcomes g), rs\<lparr>rs_store := Some status\<rparr>, st)))"


section \<open>What coalescing keeps\<close>

lemma updated_batch: "updated (cell_mutations m) f k = (case bt_get m k of None \<Rightarrow> f k | Some v \<Rightarrow> v)"
proof -
  have "map (\<lambda>c. (mut_key c, mut_value c)) (cell_mutations m) = m" by (simp add: cell_mutations_def case_prod_unfold comp_def)
  then show ?thesis by (simp add: updated_def)
qed

lemma updated_merged:
  assumes "distinct (map mut_key cs)"
  shows "updated (cell_mutations (fold (\<lambda>c. bt_insert (mut_key c) (mut_value c)) cs m)) f = updated cs (updated (cell_mutations m) f)"
proof
  fix k
  have "bt_get (fold (\<lambda>c. bt_insert (mut_key c) (mut_value c)) cs m) k =
      (case map_of (map (\<lambda>c. (mut_key c, mut_value c)) cs) k of None \<Rightarrow> bt_get m k | Some v \<Rightarrow> Some v)"
    using assms
  proof (induction cs arbitrary: m)
    case (Cons c cs)
    then have "map_of (map (\<lambda>c. (mut_key c, mut_value c)) cs) (mut_key c) = None" by (auto simp: map_of_eq_None_iff)
    with Cons show ?case by (auto simp: bt_get_insert split: option.split)
  qed simp
  then show "updated (cell_mutations (fold (\<lambda>c. bt_insert (mut_key c) (mut_value c)) cs m)) f k = updated cs (updated (cell_mutations m) f) k"
    unfolding updated_batch updated_def [of cs] by (simp split: option.split)
qed

text \<open>The accumulated cells stay within the budget of one engine transaction.\<close>

lemma cell_guard: "k = [] \<or> length k > Store_Codec.MAX_KEY_BYTES \<or> (case v of None \<Rightarrow> False | Some x \<Rightarrow> length x > Store_Codec.MAX_VALUE_BYTES) \<longleftrightarrow>
    \<not> valid_cell k v"
  by (auto simp: valid_cell_def value_length_def split: option.split)

definition cell_bytes :: "(byte list, byte list option) btree \<Rightarrow> nat" where
  "cell_bytes m = sum_list (map (\<lambda>p. length (fst p) + value_length (snd p)) m)"

definition batch_ok :: "(byte list, byte list option) btree \<Rightarrow> nat \<Rightarrow> bool" where
  "batch_ok m bytes \<longleftrightarrow> bt_sorted m \<and> bytes = cell_bytes m \<and> bytes \<le> MAX_BATCH_BYTES \<and> length m \<le> MAX_BATCH_RECORDS \<and>
     (\<forall>p \<in> set m. valid_cell (fst p) (snd p))"

lemma batch_insert:
  assumes "bt_sorted m" "\<forall>p \<in> set m. valid_cell (fst p) (snd p)" "valid_cell k v"
  shows "\<forall>p \<in> set (bt_insert k v m). valid_cell (fst p) (snd p)"
    "bt_get m k = Some w \<Longrightarrow> cell_bytes (bt_insert k v m) + (length k + value_length w) = cell_bytes m + (length k + value_length v) \<and> length (bt_insert k v m) = length m"
    "bt_get m k = None \<Longrightarrow> cell_bytes (bt_insert k v m) = cell_bytes m + (length k + value_length v) \<and> length (bt_insert k v m) = length m + 1"
proof -
  obtain xs ys where xy: "m = xs @ (case bt_get m k of None \<Rightarrow> [] | Some w \<Rightarrow> [(k, w)]) @ ys" "bt_insert k v m = xs @ (k, v) # ys"
    using bt_insert_split [OF assms(1)] by blast
  have "set xs \<union> set ys \<subseteq> set m" by (subst xy(1)) auto
  then show "\<forall>p \<in> set (bt_insert k v m). valid_cell (fst p) (snd p)" unfolding xy(2) using assms(2,3) by auto
  show "cell_bytes (bt_insert k v m) + (length k + value_length w) = cell_bytes m + (length k + value_length v) \<and> length (bt_insert k v m) = length m"
    if "bt_get m k = Some w"
  proof -
    have "m = xs @ (k, w) # ys" using xy(1) that by simp
    then show ?thesis unfolding xy(2) by (simp add: cell_bytes_def)
  qed
  show "cell_bytes (bt_insert k v m) = cell_bytes m + (length k + value_length v) \<and> length (bt_insert k v m) = length m + 1" if "bt_get m k = None"
  proof -
    have "m = xs @ ys" using xy(1) that by simp
    then show ?thesis unfolding xy(2) by (simp add: cell_bytes_def)
  qed
qed

lemma merge_check_exact:
  assumes "merge_check current seen bytes number cs = Inr (bytes', number')"
    and "bt_sorted m" "\<forall>p \<in> set m. valid_cell (fst p) (snd p)" "bytes = cell_bytes m" "number = length m"
    and "\<And>k. k \<notin> seen \<Longrightarrow> bt_get m k = bt_get current k"
  shows "distinct (map mut_key cs) \<and> mut_key ` set cs \<inter> seen = {} \<and>
    (let m' = fold (\<lambda>c. bt_insert (mut_key c) (mut_value c)) cs m
     in bt_sorted m' \<and> bytes' = cell_bytes m' \<and> number' = length m' \<and> (\<forall>p \<in> set m'. valid_cell (fst p) (snd p)))"
  using assms
proof (induction cs arbitrary: seen bytes number m)
  case (Cons c cs)
  let ?k = "mut_key c" and ?v = "mut_value c"
  let ?m = "bt_insert ?k ?v m"
  have guard: "?k \<notin> seen" "valid_cell ?k ?v" using Cons.prems(1) by (auto simp: cell_guard split: if_splits)
  then have run: "rbind (case bt_get current ?k of
               Some previous \<Rightarrow>
                 (case checked_sub bytes (length ?k + value_length previous) of
                    None \<Rightarrow> Inl (InvalidData ''inconsistent accumulated cell size'')
                  | Some bytes \<Rightarrow> Inr (bytes, number))
             | None \<Rightarrow> Inr (bytes, number + 1)) (\<lambda>(bytes, number).
           case checked_add bytes (length ?k + value_length ?v) of
             None \<Rightarrow> Inl (InvalidData ''cell byte count overflow'')
           | Some bytes \<Rightarrow> merge_check current (insert ?k seen) bytes number cs) = Inr (bytes', number')"
    using Cons.prems(1) by (simp add: cell_guard split: if_splits)
  have same: "bt_get m ?k = bt_get current ?k" using Cons.prems(6) guard(1) by simp
  note ins = batch_insert [OF Cons.prems(2,3) guard(2)]
  have step: "merge_check current (insert ?k seen) (cell_bytes ?m) (length ?m) cs = Inr (bytes', number')"
  proof (cases "bt_get m ?k")
    case None
    with run same ins(3) show ?thesis by (auto simp: rbind_def Cons.prems(4,5) split: option.splits)
  next
    case (Some w)
    define a where "a = length ?k + value_length w"
    define b where "b = length ?k + value_length ?v"
    have m: "cell_bytes ?m + a = cell_bytes m + b" "length ?m = length m" using ins(2) [OF Some] by (simp_all add: a_def b_def)
    from run same Some have "a \<le> cell_bytes m \<and> merge_check current (insert ?k seen) (cell_bytes m - a + b) (length m) cs = Inr (bytes', number')"
      by (auto simp: rbind_def Cons.prems(4,5) checked_sub_def a_def [symmetric] b_def [symmetric] split: option.splits if_splits)
    moreover have "cell_bytes ?m = cell_bytes m - a + b" if "a \<le> cell_bytes m" using m(1) that by linarith
    ultimately show ?thesis using m(2) by metis
  qed
  have "bt_get ?m k = bt_get current k" if "k \<notin> insert ?k seen" for k using that Cons.prems(6) by (simp add: bt_get_insert)
  from Cons.IH [OF step bt_sorted_insert [OF Cons.prems(2)] ins(1) refl refl this] guard(1) show ?case by (auto simp: Let_def)
qed (auto simp: Let_def)

lemma merge_cells_ok:
  assumes "merge_cells m bytes cs = Inr (Some (m', bytes'))" "batch_ok m bytes"
  shows "batch_ok m' bytes'" "updated (cell_mutations m') f = updated cs (updated (cell_mutations m) f)"
proof -
  from assms(1) obtain number where run: "merge_check m {} bytes (length m) cs = Inr (bytes', number)" "bytes' \<le> MAX_BATCH_BYTES" "number \<le> MAX_BATCH_RECORDS"
    and m': "m' = fold (\<lambda>c. bt_insert (mut_key c) (mut_value c)) cs m"
    by (auto simp: merge_cells_def rbind_Inr_iff split: if_splits)
  from merge_check_exact [OF run(1), of m] assms(2) have e: "distinct (map mut_key cs)" "bt_sorted m'" "bytes' = cell_bytes m'" "number = length m'"
    "\<forall>p \<in> set m'. valid_cell (fst p) (snd p)" by (auto simp: batch_ok_def Let_def m')
  then show "batch_ok m' bytes'" using run by (simp add: batch_ok_def)
  show "updated (cell_mutations m') f = updated cs (updated (cell_mutations m) f)" unfolding m' by (rule updated_merged [OF e(1)])
qed

text \<open>Such a batch passes the validation of the engine.\<close>

lemma batch_accepted:
  assumes "batch_ok m bytes"
  shows "validate_changes (cell_mutations m) = Inr (batch_bytes (cell_mutations m))"
proof -
  have "distinct (map fst m)" "list_all (\<lambda>p. valid_cell (fst p) (snd p)) m" using assms bt_sorted_distinct by (auto simp: batch_ok_def list_all_iff)
  then show ?thesis
    using assms by (simp add: validate_changes_iff batch_ok_def cell_mutations_def batch_bytes_def cell_bytes_def case_prod_unfold list_all_iff comp_def)
qed

section \<open>Entries as clients may propose them\<close>

text \<open>The limits the HTTP layer puts on plain writes, and texts that are UTF-8.\<close>

fun client_command :: "command \<Rightarrow> bool" where
  "client_command (Put k v) = (k \<noteq> [] \<and> length k \<le> Application.MAX_KEY_BYTES \<and> length v \<le> Application.MAX_VALUE_BYTES \<and> utf8 k \<and> utf8 v)"
| "client_command (SessionPut sid k sq v) = (utf8 k \<and> utf8 v)"
| "client_command (SessionDelete sid k sq) = utf8 k"
| "client_command (RegisterSession n) = utf8 n"
| "client_command _ = True"

definition app_good :: "(byte list \<Rightarrow> byte list) \<Rightarrow> state_machine \<Rightarrow> bool" where
  "app_good digest s \<longleftrightarrow> app_ok digest s \<and> values_ok s \<and> app_texts s"

lemma client_text: "client_command c \<Longrightarrow> text_command c"
  by (cases c) (simp_all add: utf8_def)

lemma bt_insert_subset: "set (bt_insert k v m) \<subseteq> insert (k, v) (set m)"
  by (induction k v m rule: bt_insert.induct) auto

definition value_good :: "string \<times> string \<Rightarrow> bool" where
  "value_good p \<longleftrightarrow> fst p \<noteq> [] \<and> length (fst p) \<le> Application.MAX_KEY_BYTES \<and> length (snd p) \<le> Application.MAX_VALUE_BYTES \<and> utf8 (fst p) \<and> utf8 (snd p)"

definition keys_good :: "session \<Rightarrow> bool" where
  "keys_good ss \<longleftrightarrow> (\<forall>p \<in> set (ss_keys ss). utf8 (fst p))"

lemma good_iff: "values_ok s \<and> app_texts s \<longleftrightarrow> (\<forall>p \<in> set (app_values s). value_good p) \<and>
    (\<forall>p \<in> set (app_registrations s). utf8 (fst p)) \<and> (\<forall>p \<in> set (app_sessions s). keys_good (snd p))"
  unfolding values_ok_def app_texts_def value_good_def keys_good_def by (simp add: case_prod_unfold) blast

lemma bt_remove_subset: "set (bt_remove k m) \<subseteq> set m"
  by (auto simp: bt_remove_def)

lemma good_insert: "\<forall>p \<in> set m. P p \<Longrightarrow> P (k, v) \<Longrightarrow> \<forall>p \<in> set (bt_insert k v m). P p"
  using bt_insert_subset [of k v m] by blast

lemma good_remove: "\<forall>p \<in> set m. P p \<Longrightarrow> \<forall>p \<in> set (bt_remove k m). P p"
  using bt_remove_subset [of k m] by blast

lemma good_session: "\<forall>p \<in> set m. P (snd p) \<Longrightarrow> bt_get m k = Some x \<Longrightarrow> P x"
  using map_of_SomeD by fastforce

lemma mutate_good:
  assumes ok: "app_ok digest s" and good: "values_ok s \<and> app_texts s" and run: "mutate digest sid key sq v i s = Some (r, s1)"
    and texts: "utf8 key" "\<And>x. v = Some x \<Longrightarrow> utf8 x"
  shows "values_ok s1 \<and> app_texts s1"
proof (cases "\<exists>ss. acceptable digest sid ss key sq v s")
  case True
  then obtain ss where a: "acceptable digest sid ss key sq v s" ..
  have s1: "s1 = accepted_state digest sid ss key sq v i s" using mutate_accepted [OF ok a] run by simp
  note g = good [unfolded good_iff]
  have "keys_good ss" using a g by (intro good_session [of "app_sessions s" keys_good sid]) (simp_all add: acceptable_def)
  then have keys: "keys_good (ss\<lparr>ss_keys := bt_insert key w (ss_keys ss)\<rparr>)" for w
    using texts(1) good_insert [of "ss_keys ss" "\<lambda>p. utf8 (fst p)" key w] by (simp add: keys_good_def)
  have new: "value_good (key, x)" if "v = Some x" for x using a texts that by (simp add: value_good_def acceptable_def)
  have vals: "app_values s1 = (case v of Some x \<Rightarrow> bt_insert key x (app_values s) | None \<Rightarrow> bt_remove key (app_values s))"
    unfolding s1 accepted_state_def by simp
  have old: "\<forall>p \<in> set (app_values s). value_good p" using g by blast
  have "\<forall>p \<in> set (app_values s1). value_good p"
  proof (cases v)
    case None
    show ?thesis unfolding vals None option.case by (rule good_remove [OF old])
  next
    case (Some x)
    show ?thesis unfolding vals Some option.case by (rule good_insert [OF old new [OF Some]])
  qed
  moreover have "\<forall>p \<in> set (app_sessions s1). keys_good (snd p)"
  proof -
    have "app_sessions s1 = bt_insert sid (ss\<lparr>ss_keys := bt_insert key (accepted_key digest sid key sq v i) (ss_keys ss)\<rparr>) (app_sessions s)"
      unfolding s1 accepted_state_def by simp
    moreover have "\<forall>p \<in> set (app_sessions s). keys_good (snd p)" using g by blast
    then have "\<forall>p \<in> set (bt_insert sid (ss\<lparr>ss_keys := bt_insert key w (ss_keys ss)\<rparr>) (app_sessions s)). keys_good (snd p)" for w
      by (rule good_insert) (simp only: snd_conv keys)
    ultimately show ?thesis by (simp only:)
  qed
  moreover have "app_registrations s1 = app_registrations s" unfolding s1 accepted_state_def by simp
  ultimately show ?thesis unfolding good_iff using g by simp
next
  case False
  then have "s1 = s" using mutate_refused [OF ok, of sid key sq v i] run by auto
  with good show ?thesis by simp
qed

lemma app_apply_good:
  assumes good: "app_good digest s" and e: "client_command (command e)" and run: "app_apply digest e s = Some (Inr (x, s'))"
  shows "app_good digest s'"
proof -
  have ok: "app_ok digest s" and g: "values_ok s \<and> app_texts s" using good by (simp_all add: app_good_def)
  from run obtain s1 where s1: "apply_command digest (command e) (index e) s = Some (x, s1)" "s' = s1\<lparr>app_last_applied := index e\<rparr>"
    by (auto simp: app_apply_def split: if_splits)
  note g' = g [unfolded good_iff]
  have "values_ok s1 \<and> app_texts s1"
  proof (cases "command e")
    case (RegisterSession nonce)
    then obtain r where r: "register nonce (index e) s = Some (r, s1)" using s1(1) by (auto simp: apply_command_def session_outcome_def)
    consider "s1 = s" | q where "app_registrations s1 = bt_insert nonce (index e) (app_registrations s)" "app_values s1 = app_values s"
        "app_sessions s1 = bt_insert (index e) \<lparr>ss_registered = q, ss_closed = None, ss_keys = []\<rparr> (app_sessions s)"
      using r by (auto simp: register_def Let_def split: if_splits option.splits)
    then show ?thesis
    proof cases
      case 2
      have "keys_good \<lparr>ss_registered = q, ss_closed = None, ss_keys = []\<rparr>" by (simp add: keys_good_def)
      then show ?thesis unfolding good_iff 2 using g' e RegisterSession
          good_insert [of "app_registrations s" "\<lambda>p. utf8 (fst p)"] good_insert [of "app_sessions s" "\<lambda>p. keys_good (snd p)"] by simp
    qed (use g in simp)
  next
    case (CloseSession sid)
    then have c: "s1 = snd (close sid (index e) s)" using s1(1) by (auto simp: apply_command_def session_outcome_def split: prod.splits)
    have "keys_good (ss\<lparr>ss_closed := c\<rparr>)" if "bt_get (app_sessions s) sid = Some ss" for ss c
      using good_session [of "app_sessions s" keys_good sid] g' that by (simp add: keys_good_def)
    then show ?thesis unfolding good_iff using g' good_insert [of "app_sessions s" "\<lambda>p. keys_good (snd p)" sid]
      by (simp add: c close_def Let_def split: option.split) blast
  next
    case (SessionPut sid key sq v)
    then obtain r where "mutate digest sid key sq (Some v) (index e) s = Some (r, s1)"
      using s1(1) by (auto simp: apply_command_def session_outcome_def)
    from mutate_good [OF ok g this] e SessionPut show ?thesis by simp
  next
    case (SessionDelete sid key sq)
    then obtain r where "mutate digest sid key sq None (index e) s = Some (r, s1)"
      using s1(1) by (auto simp: apply_command_def session_outcome_def)
    from mutate_good [OF ok g this] e SessionDelete show ?thesis by simp
  next
    case (Put key v)
    with s1(1) have p: "s1 = s\<lparr>app_values := bt_insert key v (app_values s)\<rparr>" by (simp add: apply_command_def)
    have "value_good (key, v)" using e Put by (simp add: value_good_def)
    then show ?thesis unfolding good_iff p using g' good_insert [of "app_values s" value_good key v] by simp
  next
    case (Delete key)
    with s1(1) have p: "s1 = s\<lparr>app_values := bt_remove key (app_values s)\<rparr>" by (simp add: apply_command_def)
    then show ?thesis unfolding good_iff p using g' good_remove [of "app_values s" value_good key] by simp
  qed (use s1(1) g in \<open>simp_all add: apply_command_def\<close>)
  then have "values_ok s' \<and> app_texts s'" unfolding good_iff by (simp add: s1(2))
  with app_apply_keeps(1) [OF ok client_text [OF e] run] show ?thesis by (simp add: app_good_def)
qed

end
