(* ===== verification/Apply_Group.thy ===== *)
theory Apply_Group
  imports Applied_Store
begin

text \<open>
  Publishing a group of entries is atomic: readers see all of a group or nothing, what they see is durable, and after a
  failure at any point the store, opened again, holds the application before the group or after it.
\<close>

section \<open>Preparing a group\<close>

lemma app_run_snoc:
  "app_run digest es s = Some (xs, s1) \<Longrightarrow> app_apply digest e s1 = Some (Inr (x, s2)) \<Longrightarrow> app_run digest (es @ [e]) s = Some (xs @ [x], s2)"
  by (induction es arbitrary: s xs) (auto split: option.splits sum.splits)

lemma tx_apply_Inr:
  assumes "tx_apply digest e t = Some (Inr x, t')" "app_ok digest (tx_state t)" "text_command (command e)"
  shows "app_apply digest e (tx_state t) = Some (Inr (x, tx_state t'))" "tx_undo_last t' = Some t"
proof -
  have run: "app_apply digest e (tx_state t) = Some (Inr (x, tx_state t'))" "tx_undo t' = tx_undo t @ [capture (tx_state t) e]"
    using assms(1) by (auto simp: tx_apply_def Let_def split: if_splits option.splits sum.splits)
  then show "app_apply digest e (tx_state t) = Some (Inr (x, tx_state t'))" by simp
  have "tx_undo_last t' = Some \<lparr>tx_state = tx_state t, tx_undo = tx_undo t\<rparr>"
    using undo_entry [OF assms(2) run(1)] run(2) by (simp add: tx_undo_last_def)
  then show "tx_undo_last t' = Some t" by simp
qed

text \<open>A group that has taken in some entries on top of a state \<open>s\<close>.\<close>

definition group_ok :: "cell_json \<Rightarrow> (byte list \<Rightarrow> byte list) \<Rightarrow> application_identity \<Rightarrow> nat \<Rightarrow> state_machine \<Rightarrow> entry list \<Rightarrow> group \<Rightarrow> bool" where
  "group_ok js digest ident trm s es g \<longleftrightarrow>
     app_good digest (tx_state (gr_tx g)) \<and> tx_drop (gr_tx g) = Some s \<and>
     app_run digest es s = Some (map snd (gr_outcomes g), tx_state (gr_tx g)) \<and> map fst (gr_outcomes g) = map index es \<and>
     batch_ok (gr_cells g) (gr_bytes g) \<and>
     (if es = [] then gr_cells g = [] else gr_term g = e_term (last es) \<and>
        updated (cell_mutations (gr_cells g)) (stored_cells js ident trm s) = stored_cells js ident (gr_term g) (tx_state (gr_tx g)))"

lemma group_start:
  assumes "app_good digest s"
  shows "group_ok js digest ident trm s [] \<lparr>gr_tx = tx_begin s, gr_cells = [], gr_bytes = 0, gr_outcomes = [], gr_term = 0\<rparr>"
  using assms by (simp add: group_ok_def tx_begin_def tx_drop_def batch_ok_def bt_sorted_def cell_bytes_def)

lemma group_extend:
  assumes g: "group_ok js digest ident trm s es g" and e: "client_command (command e)"
    and run: "tx_apply digest e (gr_tx g) = Some (Inr x, tx)" and drop: "tx_drop tx = Some s"
    and merge: "entry_cells js (tx_state tx) ident e = Inr changes" "merge_cells (gr_cells g) (gr_bytes g) changes = Inr (Some (cells, bytes))"
  shows "group_ok js digest ident trm s (es @ [e]) \<lparr>gr_tx = tx, gr_cells = cells, gr_bytes = bytes,
    gr_outcomes = gr_outcomes g @ [(index e, x)], gr_term = e_term e\<rparr>"
proof -
  let ?s1 = "tx_state (gr_tx g)"
  have g1: "app_good digest ?s1" "app_run digest es s = Some (map snd (gr_outcomes g), ?s1)" "batch_ok (gr_cells g) (gr_bytes g)"
    using g by (simp_all add: group_ok_def)
  then have ok: "app_ok digest ?s1" by (simp add: app_good_def)
  note a = tx_apply_Inr(1) [OF run ok client_text [OF e]]
  have good: "app_good digest (tx_state tx)" by (rule app_apply_good [OF g1(1) e a])
  then have ok': "app_ok digest (tx_state tx)" by (simp add: app_good_def)
  have ch: "changes = cells_at js ident (e_term e) (tx_state tx) (touched (tx_state tx) (command e))"
    using merge(1) entry_cells_at [OF ok'] by simp
  have "\<exists>t. updated (cell_mutations (gr_cells g)) (stored_cells js ident trm s) = stored_cells js ident t ?s1"
  proof (cases es)
    case Nil
    then have "?s1 = s" "gr_cells g = []" using g by (simp_all add: group_ok_def)
    then show ?thesis by (auto simp: updated_def cell_mutations_def fun_eq_iff)
  next
    case (Cons a as)
    then show ?thesis using g by (auto simp: group_ok_def)
  qed
  then obtain t where "updated (cell_mutations (gr_cells g)) (stored_cells js ident trm s) = stored_cells js ident t ?s1" ..
  then have "updated (cell_mutations cells) (stored_cells js ident trm s) = stored_cells js ident (e_term e) (tx_state tx)"
    unfolding merge_cells_ok(2) [OF merge(2) g1(3)] using entry_cells_updated [OF ok ok' a] ch by simp
  then show ?thesis
    using good drop app_run_snoc [OF g1(2) a] merge_cells_ok(1) [OF merge(2) g1(3)] g by (simp add: group_ok_def)
qed

lemma prepare_ok:
  assumes "group_ok js digest ident trm s ds g" "\<forall>e \<in> set es. client_command (command e)" "ds \<noteq> [] \<or> es \<noteq> []"
  shows "(\<exists>err tx. prepare js digest ident es g = Some (Inl (err, tx)) \<and> tx_drop tx = Some s) \<or>
    (\<exists>n g'. prepare js digest ident es g = Some (Inr g') \<and> n \<le> length es \<and> ds @ take n es \<noteq> [] \<and> group_ok js digest ident trm s (ds @ take n es) g')"
  using assms
proof (induction es arbitrary: ds g)
  case Nil
  then show ?case by auto
next
  case (Cons e es)
  have e: "client_command (command e)" and rest: "\<forall>e \<in> set es. client_command (command e)" using Cons.prems(2) by simp_all
  have ok: "app_ok digest (tx_state (gr_tx g))" "tx_drop (gr_tx g) = Some s" using Cons.prems(1) by (simp_all add: group_ok_def app_good_def)
  obtain r tx where t: "tx_apply digest e (gr_tx g) = Some (r, tx)" "app_ok digest (tx_state tx)" "tx_drop tx = Some s"
    using tx_apply_undone [OF ok client_text [OF e]] by blast
  show ?case
  proof (cases r)
    case (Inl err)
    with t show ?thesis by simp
  next
    case (Inr x)
    note t' = t(1) [unfolded Inr]
    obtain changes where c: "entry_cells js (tx_state tx) ident e = Inr changes" using entry_cells_at [OF t(2)] by blast
    consider err where "merge_cells (gr_cells g) (gr_bytes g) changes = Inl err" | "merge_cells (gr_cells g) (gr_bytes g) changes = Inr None"
      | cells bytes where "merge_cells (gr_cells g) (gr_bytes g) changes = Inr (Some (cells, bytes))"
      by (cases "merge_cells (gr_cells g) (gr_bytes g) changes") (metis not_None_eq surj_pair)+
    then show ?thesis
    proof cases
      case 1
      with t' c t(3) show ?thesis by simp
    next
      case 2
      have u: "tx_undo_last tx = Some (gr_tx g)" by (rule tx_apply_Inr(2) [OF t' ok(1) client_text [OF e]])
      have o: "gr_outcomes g = [] \<longleftrightarrow> ds = []" using Cons.prems(1) by (metis group_ok_def map_is_Nil_conv)
      show ?thesis
      proof (cases "ds = []")
        case True
        with 2 t' c u o ok(2) show ?thesis by simp
      next
        case False
        with 2 t' c u o have "prepare js digest ident (e # es) g = Some (Inr g)" by simp
        with Cons.prems(1) False show ?thesis by (intro disjI2 exI [of _ 0] exI [of _ g]) simp
      qed
    next
      case 3
      let ?g = "\<lparr>gr_tx = tx, gr_cells = cells, gr_bytes = bytes, gr_outcomes = gr_outcomes g @ [(index e, x)], gr_term = e_term e\<rparr>"
      have step: "prepare js digest ident (e # es) g = prepare js digest ident es ?g" using 3 t' c by simp
      have "ds @ [e] \<noteq> [] \<or> es \<noteq> []" by simp
      from Cons.IH [OF group_extend [OF Cons.prems(1) e t' t(3) c 3] rest this] show ?thesis unfolding step
      proof (elim disjE exE conjE)
        fix n g'
        assume "prepare js digest ident es ?g = Some (Inr g')" "n \<le> length es" "group_ok js digest ident trm s ((ds @ [e]) @ take n es) g'"
        then show "(\<exists>err tx. prepare js digest ident es ?g = Some (Inl (err, tx)) \<and> tx_drop tx = Some s) \<or>
          (\<exists>n g'. prepare js digest ident es ?g = Some (Inr g') \<and> n \<le> length (e # es) \<and> ds @ take n (e # es) \<noteq> [] \<and>
            group_ok js digest ident trm s (ds @ take n (e # es)) g')"
          by (intro disjI2 exI [of _ "Suc n"] exI [of _ g']) simp
      qed auto
    qed
  qed
qed


section \<open>Committing a group\<close>

lemma app_run_last:
  "app_run digest es s = Some (xs, s') \<Longrightarrow> es \<noteq> [] \<Longrightarrow>
     app_last_applied s' = index (last es) \<and> index (hd es) = app_last_applied s + 1 \<and> app_last_applied s < app_last_applied s'"
proof (induction es arbitrary: s xs)
  case (Cons e es)
  from Cons.prems obtain x s1 ys where r: "app_apply digest e s = Some (Inr (x, s1))" "app_run digest es s1 = Some (ys, s')"
    by (auto split: option.splits sum.splits)
  have s1: "index e = app_last_applied s + 1" "app_last_applied s1 = index e" using r(1) by (auto simp: app_apply_def split: if_splits)
  show ?case
  proof (cases es)
    case Nil
    with r s1 show ?thesis by simp
  next
    case (Cons a as)
    with Cons.IH [OF r(2)] s1 show ?thesis by simp
  qed
qed simp

lemma app_run_length: "app_run digest es s = Some (xs, s') \<Longrightarrow> app_last_applied s' = app_last_applied s + length es"
proof (induction es arbitrary: s xs)
  case (Cons e es)
  from Cons.prems obtain x s1 ys where r: "app_apply digest e s = Some (Inr (x, s1))" "app_run digest es s1 = Some (ys, s')"
    by (auto split: option.splits sum.splits)
  from r(1) have "app_last_applied s1 = app_last_applied s + 1" by (auto simp: app_apply_def split: if_splits)
  with Cons.IH [OF r(2)] show ?case by simp
qed simp

text \<open>Readers and store are in step: the store holds exactly the application the readers see.\<close>

definition holds :: "cell_json \<Rightarrow> application_identity \<Rightarrow> nat \<Rightarrow> state_machine \<Rightarrow> nat \<times> (byte list \<Rightarrow> byte list option) \<Rightarrow> bool" where
  "holds js ident trm app c \<longleftrightarrow> c = (app_last_applied app, stored_cells js ident trm app) \<and> (app_last_applied app \<noteq> 0 \<longrightarrow> trm \<noteq> 0)"

definition in_step :: "('h \<Rightarrow> bool) \<Rightarrow> ('h \<Rightarrow> nat \<times> (byte list \<Rightarrow> byte list option)) \<Rightarrow> cell_json \<Rightarrow> (byte list \<Rightarrow> byte list) \<Rightarrow> read_state \<Rightarrow>
    'h applied_store \<Rightarrow> bool" where
  "in_step usable contents js digest rs st \<longleftrightarrow> app_good digest (rs_application rs) \<and> \<not> ap_poisoned st \<and>
     ap_index st = app_last_applied (rs_application rs) \<and>
     (\<exists>h. ap_engine st = Some h \<and> usable h \<and> holds js (ap_identity st) (ap_term st) (rs_application rs) (contents h))"

lemma prepared_range:
  assumes "group_ok js digest ident trm s es g" "es \<noteq> []"
  shows "gr_outcomes g \<noteq> []" "fst (last (gr_outcomes g)) = app_last_applied (tx_state (gr_tx g))" "index (hd es) = app_last_applied s + 1"
    "app_last_applied s < app_last_applied (tx_state (gr_tx g))" "app_last_applied (tx_state (gr_tx g)) \<le> u64_max"
    "gr_outcomes g = zip (map index es) (map snd (gr_outcomes g))"
proof -
  have run: "app_run digest es s = Some (map snd (gr_outcomes g), tx_state (gr_tx g))" and ix: "map fst (gr_outcomes g) = map index es"
    and good: "app_good digest (tx_state (gr_tx g))" using assms(1) by (simp_all add: group_ok_def)
  show ne: "gr_outcomes g \<noteq> []" using ix assms(2) by auto
  have "last (map fst (gr_outcomes g)) = last (map index es)" by (simp add: ix)
  then have "fst (last (gr_outcomes g)) = index (last es)" using ne assms(2) by (simp add: last_map)
  with app_run_last [OF run assms(2)] show "fst (last (gr_outcomes g)) = app_last_applied (tx_state (gr_tx g))"
    "index (hd es) = app_last_applied s + 1" "app_last_applied s < app_last_applied (tx_state (gr_tx g))" by simp_all
  show "app_last_applied (tx_state (gr_tx g)) \<le> u64_max" using good app_okD(4) [of digest] by (simp add: app_good_def)
  show "gr_outcomes g = zip (map index es) (map snd (gr_outcomes g))" by (simp add: ix [symmetric] zip_map_fst_snd)
qed

context state_store
begin

lemma group_commit:
  assumes st: "in_step usable contents js digest rs st" and g: "group_ok js digest (ap_identity st) (ap_term st) (rs_application rs) es g" "es \<noteq> []"
    and terms: "\<forall>e \<in> set es. e_term e \<noteq> 0" and lo: "lo = index (hd es)"
    and run: "applied_commit commit lo (fst (last (gr_outcomes g))) (gr_term g) (cell_mutations (gr_cells g)) st = (r, st')"
  shows "(r = Inr () \<and> ap_identity st' = ap_identity st \<and> (\<forall>a b c. in_step usable contents js digest \<lparr>rs_application = tx_state (gr_tx g), rs_last_applied = a, rs_commit_index = b, rs_store = c\<rparr> st')) \<or>
    (\<exists>e h' h''. r = Inl e \<and> ap_poisoned st' \<and> ap_engine st' = Some h' \<and> reopen h' = Inr h'' \<and> usable h'' \<and>
       (holds js (ap_identity st) (ap_term st) (rs_application rs) (contents h'') \<or> holds js (ap_identity st) (gr_term g) (tx_state (gr_tx g)) (contents h'')))"
proof -
  let ?app = "rs_application rs" and ?app' = "tx_state (gr_tx g)"
  note p = prepared_range [OF g]
  obtain h where h: "ap_engine st = Some h" "usable h" "holds js (ap_identity st) (ap_term st) ?app (contents h)"
    and ok: "\<not> ap_poisoned st" "ap_index st = app_last_applied ?app" using st by (auto simp: in_step_def)
  have upd: "updated (cell_mutations (gr_cells g)) (snd (contents h)) = stored_cells js (ap_identity st) (gr_term g) ?app'"
    and good: "app_good digest ?app'" and trm: "gr_term g \<noteq> 0"
    using g h(3) terms last_in_set [OF g(2)] by (auto simp: group_ok_def holds_def)
  have nxt: "lo = Suc (app_last_applied ?app)" "Suc (app_last_applied ?app) \<le> u64_max" using p(3-5) lo by simp_all
  obtain q h' where q: "commit lo (app_last_applied ?app') (cell_mutations (gr_cells g)) h = (q, h')" by (cases "commit lo (app_last_applied ?app') (cell_mutations (gr_cells g)) h")
  have r: "(r, st') = (case q of Inl e \<Rightarrow> (Inl e, st\<lparr>ap_engine := Some h', ap_poisoned := True\<rparr>)
      | Inr _ \<Rightarrow> (Inr (), st\<lparr>ap_engine := Some h', ap_index := app_last_applied ?app', ap_term := gr_term g\<rparr>))"
    using run q by (simp add: applied_commit_def ok nxt h(1) p(2) split: sum.split)
  show ?thesis
  proof (cases q)
    case (Inl e)
    from commit_fails [OF h(2) p(5) q [unfolded Inl]] obtain h'' where "reopen h' = Inr h''" "usable h''"
      "contents h'' = contents h \<or> contents h'' = (app_last_applied ?app', updated (cell_mutations (gr_cells g)) (snd (contents h)))" by blast
    then show ?thesis using r Inl h(3) trm unfolding upd by (auto simp: holds_def)
  next
    case (Inr c)
    have "c = CommitApplied"
    proof (rule ccontr)
      assume "c \<noteq> CommitApplied"
      then have "c = CommitReplay" by (cases c) simp_all
      with replays [OF h(2) p(5)] q Inr have "fst (contents h) = app_last_applied ?app'" by blast
      with h(3) p(4) show False by (simp add: holds_def)
    qed
    with commits [OF h(2) p(5)] q Inr have "usable h' \<and> contents h' = (app_last_applied ?app', updated (cell_mutations (gr_cells g)) (snd (contents h)))" by blast
    then show ?thesis using r Inr ok good trm unfolding upd by (simp add: in_step_def holds_def)
  qed
qed

lemma group_atomic:
  assumes st: "in_step usable contents js digest rs st" and es: "\<forall>e \<in> set es. client_command (command e) \<and> e_term e \<noteq> 0"
  shows "\<exists>r rs' st' n xs app'. apply_group commit statistics js digest es rs st = Some (r, rs', st') \<and>
    n \<le> length es \<and> app_run digest (take n es) (rs_application rs) = Some (xs, app') \<and>
    (\<not> is_ok r \<and> rs' = rs \<and> st' = st \<or>
     \<not> is_ok r \<and> rs' = rs \<and> ap_poisoned st' \<and> (\<exists>h' h'' t app''. ap_engine st' = Some h' \<and> reopen h' = Inr h'' \<and> usable h'' \<and>
       app'' \<in> {rs_application rs, app'} \<and> holds js (ap_identity st) t app'' (contents h'')) \<or>
     0 < n \<and> rs_application rs' = app' \<and> rs_last_applied rs' = app_last_applied app' \<and> in_step usable contents js digest rs' st' \<and>
       (\<forall>outs. r = Inr outs \<longrightarrow> outs = zip (map index (take n es)) xs))"
proof (cases es)
  case Nil
  then show ?thesis by (intro exI [of _ "Inl (InvalidInput ''empty applied range'')"] exI [of _ rs] exI [of _ st] exI [of _ 0]) (simp add: apply_group_def is_ok_def)
next
  case (Cons e es')
  let ?g = "\<lparr>gr_tx = tx_begin (rs_application rs), gr_cells = [], gr_bytes = 0, gr_outcomes = [], gr_term = 0\<rparr>"
  let ?es = "take MAX_APPLY_RANGE es"
  have good: "app_good digest (rs_application rs)" using st by (simp add: in_step_def)
  have same: "rs\<lparr>rs_application := rs_application rs\<rparr> = rs" by simp
  have mem: "\<forall>e \<in> set ?es. client_command (command e)" "?es \<noteq> []"
    using es Cons by (auto simp: MAX_APPLY_RANGE_def dest: in_set_takeD)
  from prepare_ok [OF group_start [OF good, of js "ap_identity st" "ap_term st"] mem(1)] mem(2)
  consider (stopped) err tx where "prepare js digest (ap_identity st) ?es ?g = Some (Inl (err, tx))" "tx_drop tx = Some (rs_application rs)"
    | (ready) n g where "prepare js digest (ap_identity st) ?es ?g = Some (Inr g)" "take n ?es \<noteq> []" "n \<le> length ?es"
        "group_ok js digest (ap_identity st) (ap_term st) (rs_application rs) (take n ?es) g" by auto
  then show ?thesis
  proof cases
    case stopped
    with Cons show ?thesis
      by (intro exI [of _ "Inl err"] exI [of _ rs] exI [of _ st] exI [of _ 0]) (simp add: apply_group_def is_ok_def)
  next
    case ready
    let ?app' = "tx_state (gr_tx g)" and ?hi = "fst (last (gr_outcomes g))"
    have tk: "take n ?es = take n es" "n \<le> length es" "0 < n" using ready(2,3) by (auto simp: min_def take_eq_Nil split: if_splits)
    have hd: "index e = index (hd (take n ?es))" using Cons tk by (cases n) simp_all
    have run: "app_run digest (take n es) (rs_application rs) = Some (map snd (gr_outcomes g), ?app')" and drop: "tx_drop (gr_tx g) = Some (rs_application rs)"
      using ready(4) tk(1) by (simp_all add: group_ok_def)
    have terms: "\<forall>e \<in> set (take n ?es). e_term e \<noteq> 0" using es by (auto dest!: in_set_takeD)
    note p = prepared_range [OF ready(4,2)]
    obtain q st1 where c: "applied_commit commit (index e) ?hi (gr_term g) (cell_mutations (gr_cells g)) st = (q, st1)"
      by (cases "applied_commit commit (index e) ?hi (gr_term g) (cell_mutations (gr_cells g)) st")
    note k = group_commit [OF st ready(4,2) terms hd c]
    show ?thesis
    proof (cases q)
      case (Inl err)
      then have "apply_group commit statistics js digest es rs st = Some (Inl err, rs, st1)"
        using Cons ready(1) p(1) c drop by (simp add: apply_group_def)
      moreover from k Inl obtain h' h'' t app'' where "ap_poisoned st1" "ap_engine st1 = Some h'" "reopen h' = Inr h''" "usable h''"
        "app'' \<in> {rs_application rs, ?app'}" "holds js (ap_identity st) t app'' (contents h'')" by blast
      moreover have "\<not> is_ok (Inl err)" by (simp add: is_ok_def)
      ultimately show ?thesis using tk(2) run by blast
    next
      case (Inr u)
      let ?rs = "rs\<lparr>rs_application := ?app', rs_last_applied := ?hi, rs_commit_index := max (rs_commit_index rs) ?hi\<rparr>"
      have in': "in_step usable contents js digest \<lparr>rs_application = ?app', rs_last_applied = a, rs_commit_index = b, rs_store = c\<rparr> st1" for a b c
        using k Inr by blast
      have outs: "gr_outcomes g = zip (map index (take n es)) (map snd (gr_outcomes g))" using p(6) tk(1) by simp
      show ?thesis
      proof (cases "applied_status statistics st1")
        case (Inl err)
        then have "apply_group commit statistics js digest es rs st = Some (Inl err, ?rs, st1)"
          using Cons ready(1) p(1) c Inr by (simp add: apply_group_def Let_def)
        moreover have "in_step usable contents js digest ?rs st1" using in' by (cases rs) simp
        ultimately show ?thesis using tk(2,3) run p(2)
          by (intro exI [of _ "Inl err"] exI [of _ ?rs] exI [of _ st1] exI [of _ n] exI [of _ "map snd (gr_outcomes g)"] exI [of _ ?app']) simp
      next
        case (Inr status)
        let ?rs' = "?rs\<lparr>rs_store := Some status\<rparr>"
        have "apply_group commit statistics js digest es rs st = Some (Inr (gr_outcomes g), ?rs', st1)"
          using Cons ready(1) p(1) c \<open>q = Inr u\<close> Inr by (simp add: apply_group_def Let_def)
        moreover have "in_step usable contents js digest ?rs' st1" using in' by (cases rs) simp
        ultimately show ?thesis using tk(2,3) run p(2) outs
          by (intro exI [of _ "Inr (gr_outcomes g)"] exI [of _ ?rs'] exI [of _ st1] exI [of _ n] exI [of _ "map snd (gr_outcomes g)"] exI [of _ ?app']) simp
      qed
    qed
  qed
qed

text \<open>What a store holds is what the reader of the cells finds in it.\<close>

lemma held_read:
  assumes "usable h" "holds js ident trm app (contents h)" "json_ok js" "app_good digest app" "read_all h = Inr rows"
  shows "decode_cells js digest rows (fst (contents h)) ident = Inr (app, if app_last_applied app = 0 then 0 else trm)"
proof -
  from scans [OF assms(1,5)] have rows: "distinct (map fst rows)" "set rows = {(k, v). snd (contents h) k = Some v}"
    by (auto simp: strict_sorted_iff)
  have c: "fst (contents h) = app_last_applied app" "snd (contents h) = stored_cells js ident trm app" using assms(2) by (simp_all add: holds_def)
  show ?thesis
  proof (cases "app_last_applied app = 0")
    case True
    with rows(2) c have "rows = []" by (auto simp: stored_cells_def simp flip: set_empty)
    with True c(1) app_ok_zero [of digest app] assms(4) show ?thesis by (simp add: decode_cells_def app_good_def)
  next
    case False
    then have "trm \<noteq> 0" using assms(2) by (simp add: holds_def)
    with decode_stored [OF assms(3), of digest app trm rows ident] rows assms(4) c show ?thesis by (simp add: app_good_def)
  qed
qed

end

end
