(* ===== verification/Applied_Refines.thy ===== *)
theory Applied_Refines
  imports Apply_Group "HOL-Library.Countable"
begin

text \<open>
  The applied store on the log-structured engine: properties of the cells, of a published group of entries and of recovery.
\<close>

section \<open>A sample store\<close>

text \<open>JSON texts are modelled by the lengths of codes, as for the manifest of the engine.\<close>

instance session_error :: countable
  by countable_datatype

type_synonym result_code = "bool \<times> nat option \<times> nat option \<times> nat option \<times> session_error option \<times> nat option"

definition result_code :: "session_result \<Rightarrow> result_code" where
  "result_code r = (sr_ok r, sr_session_id r, sr_sequence r, sr_index r, sr_error r, sr_expected_sequence r)"

definition code_result :: "result_code \<Rightarrow> session_result" where
  "code_result c = (case c of (a, b, d, e, f, g) \<Rightarrow> \<lparr>sr_ok = a, sr_session_id = b, sr_sequence = d, sr_index = e, sr_error = f, sr_expected_sequence = g\<rparr>)"

lemma code_result_code [simp]: "code_result (result_code r) = r"
  by (simp add: code_result_def result_code_def)

definition sample_identity :: application_identity where
  "sample_identity = \<lparr>id_group = ''legacy'', id_genesis_voters = [1]\<rparr>"

definition sample_applied :: state_machine where
  "sample_applied = initial_state\<lparr>app_values := [(''k'', ''v'')], app_last_applied := 1\<rparr>"

definition sample_entry :: entry where
  "sample_entry = \<lparr>index = 1, e_term = 1, command = Put ''k'' ''v''\<rparr>"

definition metadata_code :: "metadata \<Rightarrow> nat \<times> string \<times> node_id list \<times> nat \<times> nat \<times> nat \<times> nat" where
  "metadata_code m = (md_version m, id_group (md_identity m), id_genesis_voters (md_identity m), md_applied_index m, md_applied_term m,
     md_retained_keys m, md_retained_payload_bytes m)"

definition code_metadata :: "nat \<times> string \<times> node_id list \<times> nat \<times> nat \<times> nat \<times> nat \<Rightarrow> metadata" where
  "code_metadata c = (case c of (v, g, vs, i, t, k, b) \<Rightarrow> \<lparr>md_version = v, md_identity = \<lparr>id_group = g, id_genesis_voters = vs\<rparr>,
     md_applied_index = i, md_applied_term = t, md_retained_keys = k, md_retained_payload_bytes = b\<rparr>)"

definition unary :: "'a::countable \<Rightarrow> byte list" where
  "unary x = replicate (to_nat x) 0"

definition of_unary :: "byte list \<Rightarrow> 'a::countable" where
  "of_unary bs = from_nat (length bs)"

lemma of_unary [simp]: "of_unary (unary x) = x"
  by (simp add: of_unary_def unary_def)

definition sample_meta :: metadata where
  "sample_meta = metadata_of sample_applied sample_identity 1"

definition sample_json :: cell_json where
  "sample_json =
     \<lparr>js_metadata = unary_json sample_meta metadata_code,
      js_parse_metadata = (\<lambda>bs. case unary_parse sample_meta code_metadata bs of Inl _ \<Rightarrow> None | Inr m \<Rightarrow> Some m),
      js_header = (\<lambda>h. unary (result_code (sh_registered h), map_option result_code (sh_closed h))),
      js_parse_header = (\<lambda>bs. case of_unary bs of (a, b) \<Rightarrow> Some \<lparr>sh_registered = code_result a, sh_closed = map_option code_result b\<rparr>),
      js_key = (\<lambda>r. unary (ks_key r, ks_sequence r, ks_digest r, ks_payload r, result_code (ks_result r))),
      js_parse_key = (\<lambda>bs. case of_unary bs of (k, sq, d, p, q) \<Rightarrow>
        Some \<lparr>ks_key = k, ks_sequence = sq, ks_digest = d, ks_payload = p, ks_result = code_result q\<rparr>)\<rparr>"

lemma sample_json_ok: "json_ok sample_json"
proof -
  have m: "code_metadata (metadata_code m) = m" for m by (simp add: code_metadata_def metadata_code_def)
  have o: "map_option code_result (map_option result_code q) = q" for q by (simp add: option.map_comp comp_def option.map_ident)
  show ?thesis by (simp add: json_ok_def sample_json_def unary_parse_json [OF m] o)
qed

definition sample_readers :: read_state where
  "sample_readers = \<lparr>rs_application = initial_state, rs_last_applied = 0, rs_commit_index = 0, rs_store = None\<rparr>"

definition sample_applied_store :: "lsm \<Rightarrow> engine applied_store" where
  "sample_applied_store s = \<lparr>ap_backend = state_backend.Lsm, ap_identity = sample_identity, ap_engine = Some (sample_platform, default_options, s),
     ap_index = 0, ap_term = 0, ap_poisoned = False\<rparr>"

lemma initial_good: "app_good digest initial_state"
  by (simp add: app_good_def app_ok_initial values_ok_def app_texts_def) (simp add: initial_state_def)

lemma sample_in_step:
  assumes "lsm_open sample_platform default_options empty_directory = Inr s"
  shows "in_step lsm_usable lsm_contents js digest sample_readers (sample_applied_store s)"
  using open_fresh [OF sample_platform_ok assms] sample_platform_ok initial_good
  by (simp add: in_step_def sample_readers_def sample_applied_store_def holds_def lsm_usable_def lsm_contents_def stored_cells_def initial_state_def)


abbreviation lsm_commit_op :: "nat \<Rightarrow> nat \<Rightarrow> mutation list \<Rightarrow> engine \<Rightarrow> commit_outcome stored \<times> engine" where
  "lsm_commit_op \<equiv> \<lambda>lo hi cs. on_engine (\<lambda>pf. commit_range pf lo hi cs)"

abbreviation group_start :: "state_machine \<Rightarrow> group" where
  "group_start s \<equiv> \<lparr>gr_tx = tx_begin s, gr_cells = [], gr_bytes = 0, gr_outcomes = [], gr_term = 0\<rparr>"

definition sample_cells :: "(byte list, byte list option) btree" where
  "sample_cells = [(META_KEY, Some []), (named ''v/'' ''k'', Some (text_bytes ''v''))]"

lemma sample_cell_bytes: "text_bytes ''k'' = [107]" "text_bytes ''v'' = [118]"
  by (simp_all add: text_bytes_def)

lemma sample_run: "app_apply sample_digest sample_entry initial_state = Some (Inr (Applied 1, sample_applied))"
  by (simp add: app_apply_def apply_command_def sample_entry_def sample_applied_def initial_state_def u64_max_def)

lemma sample_prepared:
  "\<exists>tx. prepare sample_json sample_digest sample_identity [sample_entry] (group_start initial_state) =
     Some (Inr \<lparr>gr_tx = tx, gr_cells = sample_cells, gr_bytes = 11, gr_outcomes = [(1, Applied 1)], gr_term = 1\<rparr>)"
proof -
  have idx: "index sample_entry = 1" "e_term sample_entry = 1" "command sample_entry = Put ''k'' ''v''" by (simp_all add: sample_entry_def)
  have "app_last_applied initial_state = 0" by (simp add: initial_state_def)
  then obtain tx where tx: "tx_apply sample_digest sample_entry (tx_begin initial_state) = Some (Inr (Applied 1), tx)" "tx_state tx = sample_applied"
    using sample_run by (simp add: tx_apply_def tx_begin_def idx u64_max_def)
  have "entry_cells sample_json sample_applied sample_identity sample_entry =
      Inr [put_cell META_KEY [], \<lparr>mut_key = named ''v/'' ''k'', mut_value = Some (text_bytes ''v'')\<rparr>]"
  proof -
    have "js_metadata sample_json (metadata_of sample_applied sample_identity 1) = []" by (simp add: sample_json_def unary_json_def sample_meta_def)
    moreover have "bt_get (app_values sample_applied) ''k'' = Some ''v''" by (simp add: sample_applied_def)
    ultimately show ?thesis by (simp add: entry_cells_def idx value_cell_def del: One_nat_def)
  qed
  moreover have "merge_cells [] 0 [put_cell META_KEY [], \<lparr>mut_key = named ''v/'' ''k'', mut_value = Some (text_bytes ''v'')\<rparr>] = Inr (Some (sample_cells, 11))"
    by (simp add: merge_cells_def put_cell_def prefixes named_def sample_cell_bytes codec_limits value_length_def u64_max_def sample_cells_def checked_add_def)
  ultimately show ?thesis using tx idx by simp
qed


text \<open>The sample entry is published: the engine accepts its cells.\<close>

lemma sample_published:
  assumes s: "lsm_open sample_platform default_options empty_directory = Inr s" "ls_wal_len s = 0"
    "bt_get (fs_wal (ls_dir s)) 1 = Some []" "mf_wal_id (ls_manifest s) = 1" "ls_mem_bytes s = 0" "ls_options s = default_options"
  shows "\<exists>rs' st'. apply_group lsm_commit_op (\<lambda>_. Inr ()) sample_json sample_digest [sample_entry] sample_readers (sample_applied_store s) =
      Some (Inr [(1, Applied 1)], rs', st') \<and> rs_application rs' = sample_applied \<and> in_step lsm_usable lsm_contents sample_json sample_digest rs' st' \<and>
      ap_identity st' = sample_identity \<and> ap_term st' = 1"
proof -
  let ?cs = "cell_mutations sample_cells"
  have v: "validate_changes ?cs = Inr (batch_bytes ?cs)"
    by (simp add: validate_changes_iff valid_cell_def cell_mutations_def sample_cells_def prefixes named_def sample_cell_bytes codec_limits value_length_def batch_bytes_def)
  have "validate_range 1 1 = Inr ()" by (simp add: validate_range_iff MAX_APPLY_RANGE_def)
  then obtain payload where p: "encode_batch 1 1 ?cs = Inr payload" "length payload \<le> 1000"
    using v by (simp add: encode_batch_def batch_record_def cell_mutations_def sample_cells_def encode_record_def prefixes named_def sample_cell_bytes)
  have small: "batch_bytes ?cs \<le> 1000" "length ?cs \<le> 10"
    by (simp_all add: batch_bytes_def cell_mutations_def sample_cells_def prefixes named_def sample_cell_bytes value_length_def)
  obtain s' where c: "commit_range sample_platform 1 1 ?cs s = (Inr CommitApplied, s')" using first_commit [OF s v p small] by blast
  obtain tx where g: "prepare sample_json sample_digest sample_identity [sample_entry] (group_start initial_state) =
     Some (Inr \<lparr>gr_tx = tx, gr_cells = sample_cells, gr_bytes = 11, gr_outcomes = [(1, Applied 1)], gr_term = 1\<rparr>)" using sample_prepared by blast
  have cmd: "\<forall>e \<in> set [sample_entry]. client_command (command e) \<and> e_term e \<noteq> 0"
    by (simp add: sample_entry_def Application.MAX_KEY_BYTES_def Application.MAX_VALUE_BYTES_def utf8_def sample_cell_bytes)
  have "index sample_entry = 1" by (simp add: sample_entry_def)
  then have "\<exists>rs' st'. apply_group lsm_commit_op (\<lambda>_. Inr ()) sample_json sample_digest [sample_entry] sample_readers (sample_applied_store s) =
      Some (Inr [(1, Applied 1)], rs', st') \<and> ap_identity st' = sample_identity \<and> ap_term st' = 1"
    using g c by (simp add: apply_group_def sample_readers_def sample_applied_store_def applied_commit_def applied_status_def on_engine_def
        MAX_APPLY_RANGE_def u64_max_def del: One_nat_def)
  then obtain rs' st' where run: "apply_group lsm_commit_op (\<lambda>_. Inr ()) sample_json sample_digest [sample_entry] sample_readers (sample_applied_store s) =
      Some (Inr [(1, Applied 1)], rs', st')" "ap_identity st' = sample_identity" "ap_term st' = 1" by blast
  from engine.group_atomic [OF sample_in_step [OF s(1)] cmd, of "\<lambda>_. Inr ()" sample_json sample_digest]
  obtain n xs app' where n: "n \<le> 1" "0 < n" "app_run sample_digest (take n [sample_entry]) initial_state = Some (xs, app')" "rs_application rs' = app'"
    "in_step lsm_usable lsm_contents sample_json sample_digest rs' st'"
    unfolding run(1) by (auto simp: is_ok_def sample_readers_def)
  then have "n = 1" by simp
  with n(3) sample_run have "app' = sample_applied" by simp
  with run n(4,5) show ?thesis by blast
qed

section \<open>Properties\<close>

text \<open> C18.
  Publishing committed entries is atomic.  Starting from a store that holds exactly the application the readers see, a group
  of entries ends in one of three ways, whatever fails and wherever.  It is refused and nothing changed, for readers and store
  alike; or the engine failed, readers still see the old application, the handle refuses further work, and opening the store
  again finds the old application or the one after a prefix of the group; or a nonempty prefix of the group is visible, it is what
  applying its entries one by one gives, and the store holds exactly that application.  Nothing is ever visible that a restart
  could lose, and no input makes the publication panic.
\<close>
theorem apply_group_atomic:
  assumes "in_step lsm_usable lsm_contents js digest rs st" "\<forall>e \<in> set es. client_command (command e) \<and> e_term e \<noteq> 0"
  shows "\<exists>r rs' st' n xs app'. apply_group (\<lambda>lo hi cs. on_engine (\<lambda>pf. commit_range pf lo hi cs)) statistics js digest es rs st = Some (r, rs', st') \<and>
    n \<le> length es \<and> app_run digest (take n es) (rs_application rs) = Some (xs, app') \<and>
    (\<not> is_ok r \<and> rs' = rs \<and> st' = st \<or>
     \<not> is_ok r \<and> rs' = rs \<and> ap_poisoned st' \<and> (\<exists>h' h'' t app''. ap_engine st' = Some h' \<and> lsm_reopen h' = Inr h'' \<and> lsm_usable h'' \<and>
       app'' \<in> {rs_application rs, app'} \<and> holds js (ap_identity st) t app'' (lsm_contents h'')) \<or>
     0 < n \<and> rs_application rs' = app' \<and> rs_last_applied rs' = app_last_applied app' \<and> in_step lsm_usable lsm_contents js digest rs' st' \<and>
       (\<forall>outs. r = Inr outs \<longrightarrow> outs = zip (map index (take n es)) xs))"
  by (rule engine.group_atomic [OF assms])

theorem apply_group_atomic_witness:
  "\<exists>s r rs' st'. lsm_open sample_platform default_options empty_directory = Inr s \<and>
     apply_group lsm_commit_op (\<lambda>_. Inr ()) sample_json sample_digest [sample_entry] sample_readers (sample_applied_store s) = Some (r, rs', st') \<and>
     (rs' = sample_readers \<or> rs_application rs' = sample_applied)"
proof -
  obtain s where s: "lsm_open sample_platform default_options empty_directory = Inr s" by (rule sample_store)
  have cmd: "\<forall>e \<in> set [sample_entry]. client_command (command e) \<and> e_term e \<noteq> 0"
    by (simp add: sample_entry_def Application.MAX_KEY_BYTES_def Application.MAX_VALUE_BYTES_def utf8_def sample_cell_bytes)
  from apply_group_atomic [OF sample_in_step [OF s, of sample_json sample_digest] cmd, of "\<lambda>_. Inr ()"]
  obtain r rs' st' n xs app' where g: "apply_group lsm_commit_op (\<lambda>_. Inr ()) sample_json sample_digest [sample_entry] sample_readers (sample_applied_store s) = Some (r, rs', st')"
    "n \<le> 1" "app_run sample_digest (take n [sample_entry]) initial_state = Some (xs, app')" "rs' = sample_readers \<or> 0 < n \<and> rs_application rs' = app'"
    by (auto simp: sample_readers_def)
  have "app' = sample_applied" if "0 < n"
  proof -
    have "n = 1" using that g(2) by simp
    with g(3) sample_run show ?thesis by simp
  qed
  with s g(1,4) show ?thesis by blast
qed


text \<open> C24.
  Writing only what an entry can change is enough.  For every state the application can reach and every next entry, the cells
  written for the entry bring a store with all cells of the old state to exactly all cells of the new state: no value, session
  header, registration, retry record or counter is forgotten, and none is left behind.
\<close>
theorem incremental_cells_exact:
  assumes "app_reachable digest s" "text_command (command e)" "app_apply digest e s = Some (Inr (x, s'))"
  shows "\<exists>cells changes cells'. full_cells js s ident trm = Some cells \<and> entry_cells js s' ident e = Inr changes \<and>
    full_cells js s' ident (e_term e) = Some cells' \<and> updated changes (updated cells (\<lambda>_. None)) = updated cells' (\<lambda>_. None)"
proof -
  have ok: "app_ok digest s" "app_ok digest s'" using app_reachable_ok [OF assms(1)] app_apply_keeps(1) [OF _ assms(2,3)] by blast+
  from full_cells_view [OF ok(1)] full_cells_view [OF ok(2)] entry_cells_at [OF ok(2), of js ident e] entry_cells_view [OF ok assms(3), of js ident trm]
  show ?thesis by metis
qed

theorem incremental_cells_exact_witness:
  "\<exists>cells changes cells'. full_cells sample_json sample_registered sample_identity 1 = Some cells \<and>
     entry_cells sample_json sample_written sample_identity Sessions.sample_put = Inr changes \<and>
     full_cells sample_json sample_written sample_identity 1 = Some cells' \<and> updated changes (updated cells (\<lambda>_. None)) = updated cells' (\<lambda>_. None)"
proof -
  have "text_command (command Sessions.sample_put)" "e_term Sessions.sample_put = 1" by (simp_all add: Sessions.sample_put_def utf8_sample)
  then show ?thesis using incremental_cells_exact [OF sample_registered_reachable _ sample_put_accepted, of sample_json sample_identity 1] by simp
qed

text \<open> C23.
  What the store holds is read back as the application it was written from.  Whenever a usable store holds the cells of an
  application, after any commits, installations, maintenance and restarts, decoding the rows of a scan gives exactly that
  application with every value, session, tombstone, retry record and counter, and the term of its last entry.
\<close>
theorem cells_roundtrip:
  assumes "json_ok js" "app_good digest app" "lsm_usable h" "holds js ident trm app (lsm_contents h)" "fst (on_engine lsm_scan h) = Inr rows"
  shows "decode_cells js digest rows (fst (lsm_contents h)) ident = Inr (app, if app_last_applied app = 0 then 0 else trm)"
  by (rule engine.held_read [OF assms(3,4,1,2,5)])

lemma sample_rows:
  assumes "lsm_usable h" "holds sample_json sample_identity trm sample_applied (lsm_contents h)" "trm = 1"
  shows "\<exists>rows. fst (on_engine lsm_scan h) = Inr rows"
proof -
  obtain pf options s where h: "h = (pf, options, s)" by (cases h)
  have ok: "lsm_ok pf s" "\<not> ls_poisoned s" using assms(1) by (simp_all add: lsm_usable_def h)
  obtain rows where rows: "sorted_wrt (<) (map fst rows)" "set rows = {(k, v). snd (snd (lsm_state pf s)) k = Some v}"
    "lsm_scan pf s = (if row_bytes rows \<le> 256 * 1024 * 1024 then Inr rows else Inl (OutOfMemory ''materialized scan exceeds 256 MiB''), s)"
    using scan_exact [OF ok] by blast
  have view: "snd (snd (lsm_state pf s)) = cells_view sample_json sample_identity 1 sample_applied"
    using assms(2,3) by (simp add: holds_def lsm_contents_def h stored_cells_def sample_applied_def)
  have "set rows \<subseteq> {(META_KEY, []), (named ''v/'' ''k'', text_bytes ''v'')}"
  proof
    fix p
    assume "p \<in> set rows"
    then obtain ck where ck: "key_of (fst p) = Some ck" "cell_value sample_json sample_identity 1 sample_applied ck = Some (snd p)"
      unfolding rows(2) view cells_view_def by (auto split: option.splits)
    from key_of_Some [OF ck(1)] ck(2) show "p \<in> {(META_KEY, []), (named ''v/'' ''k'', text_bytes ''v'')}"
      by (cases p; cases ck) (auto simp: sample_json_def unary_json_def sample_meta_def sample_applied_def initial_state_def registration_id_def
          app_session_header_def app_session_key_def split: if_splits)
  qed
  moreover have "distinct rows" using rows(1) by (metis distinct_map strict_sorted_iff)
  ultimately have "row_bytes rows \<le> 256 * 1024 * 1024"
  proof -
    assume "set rows \<subseteq> {(META_KEY, []), (named ''v/'' ''k'', text_bytes ''v'')}" "distinct rows"
    have "row_bytes rows = (\<Sum>(k, v) \<in> set rows. length k + length v)"
      unfolding row_bytes_def using \<open>distinct rows\<close> by (rule sum_list_distinct_conv_sum_set)
    also have "\<dots> \<le> (\<Sum>(k, v) \<in> {(META_KEY, []), (named ''v/'' ''k'', text_bytes ''v'')}. length k + length v)"
      by (rule sum_mono2) (use \<open>set rows \<subseteq> _\<close> in auto)
    also have "\<dots> \<le> 100" by (simp add: prefixes named_def sample_cell_bytes)
    finally show ?thesis by simp
  qed
  then show ?thesis using rows(3) by (simp add: on_engine_def h)
qed


theorem cells_roundtrip_witness:
  "\<exists>h rows. lsm_usable h \<and> fst (on_engine lsm_scan h) = Inr rows \<and>
     decode_cells sample_json sample_digest rows (fst (lsm_contents h)) sample_identity = Inr (sample_applied, 1)"
proof -
  obtain s where s: "lsm_open sample_platform default_options empty_directory = Inr s" "ls_wal_len s = 0"
    "bt_get (fs_wal (ls_dir s)) 1 = Some []" "mf_wal_id (ls_manifest s) = 1" "ls_mem_bytes s = 0" "ls_options s = default_options"
    by (rule sample_store)
  obtain rs' st' where p: "rs_application rs' = sample_applied" "in_step lsm_usable lsm_contents sample_json sample_digest rs' st'" "ap_identity st' = sample_identity"
    "ap_term st' = 1" using sample_published [OF s] by blast
  then obtain h where h: "lsm_usable h" "holds sample_json sample_identity 1 sample_applied (lsm_contents h)" and good: "app_good sample_digest sample_applied"
    by (auto simp: in_step_def)
  obtain rows where rows: "fst (on_engine lsm_scan h) = Inr rows" using sample_rows [OF h refl] by blast
  have "app_last_applied sample_applied = 1" by (simp add: sample_applied_def)
  then have "decode_cells sample_json sample_digest rows (fst (lsm_contents h)) sample_identity = Inr (sample_applied, 1)"
    using cells_roundtrip [OF sample_json_ok good h rows] by simp
  with h(1) rows show ?thesis by blast
qed

text \<open> C25.
  The budget of a group is exact.  Whatever entries are coalesced, the batch handed to the engine passes the engine's own
  validation: at most 256 entries, distinct keys, every key and value within bounds, and no more bytes and records than one
  transaction may have.  The byte count that is carried along while cells overwrite each other is the true size of the batch.
\<close>
theorem group_fits_engine:
  assumes "app_good digest s" "\<forall>e \<in> set es. client_command (command e)" "es \<noteq> []"
    and "prepare js digest ident (take MAX_APPLY_RANGE es) \<lparr>gr_tx = tx_begin s, gr_cells = [], gr_bytes = 0, gr_outcomes = [], gr_term = 0\<rparr> = Some (Inr g)"
  shows "is_ok (encode_batch (index (hd es)) (fst (last (gr_outcomes g))) (cell_mutations (gr_cells g))) \<and>
    gr_bytes g = batch_bytes (cell_mutations (gr_cells g))"
proof -
  let ?es = "take MAX_APPLY_RANGE es"
  have mem: "\<forall>e \<in> set ?es. client_command (command e)" "?es \<noteq> []" using assms(2,3) by (auto simp: MAX_APPLY_RANGE_def dest: in_set_takeD)
  from prepare_ok [OF group_start [OF assms(1), of js ident 0] mem(1)] mem(2) assms(4)
  obtain n where n: "take n ?es \<noteq> []" "group_ok js digest ident 0 s (take n ?es) g" by auto
  note p = prepared_range [OF n(2,1)]
  have b: "batch_ok (gr_cells g) (gr_bytes g)" and run: "app_run digest (take n ?es) s = Some (map snd (gr_outcomes g), tx_state (gr_tx g))"
    using n(2) by (simp_all add: group_ok_def)
  have hd: "hd (take n ?es) = hd es" using n(1) by (cases es; cases n; simp add: MAX_APPLY_RANGE_def)
  have "app_last_applied (tx_state (gr_tx g)) = app_last_applied s + length (take n ?es)" by (rule app_run_length [OF run])
  moreover have "length (take n ?es) \<le> MAX_APPLY_RANGE" "0 < length (take n ?es)" using n(1) by (simp, blast)
  ultimately have "app_last_applied s < fst (last (gr_outcomes g))" "fst (last (gr_outcomes g)) - (app_last_applied s + 1) < MAX_APPLY_RANGE"
    using p(2) by linarith+
  then have "validate_range (index (hd es)) (fst (last (gr_outcomes g))) = Inr ()" using p(3) hd by (simp add: validate_range_iff)
  with batch_accepted [OF b] have "is_ok (encode_batch (index (hd es)) (fst (last (gr_outcomes g))) (cell_mutations (gr_cells g)))"
    by (simp add: encode_batch_def is_ok_def)
  moreover have "gr_bytes g = batch_bytes (cell_mutations (gr_cells g))"
    using b by (simp add: batch_ok_def cell_bytes_def batch_bytes_def cell_mutations_def case_prod_unfold comp_def)
  ultimately show ?thesis by blast
qed

theorem group_fits_engine_witness:
  "\<exists>g. prepare sample_json sample_digest sample_identity [sample_entry] (group_start initial_state) = Some (Inr g) \<and>
     is_ok (encode_batch 1 (fst (last (gr_outcomes g))) (cell_mutations (gr_cells g)))"
proof -
  obtain g where g: "prepare sample_json sample_digest sample_identity [sample_entry] (group_start initial_state) = Some (Inr g)"
    using sample_prepared by blast
  then have "prepare sample_json sample_digest sample_identity (take MAX_APPLY_RANGE [sample_entry]) (group_start initial_state) = Some (Inr g)"
    by (simp add: MAX_APPLY_RANGE_def)
  moreover have "\<forall>e \<in> set [sample_entry]. client_command (command e)" "index sample_entry = 1"
    by (simp_all add: sample_entry_def Application.MAX_KEY_BYTES_def Application.MAX_VALUE_BYTES_def utf8_def sample_cell_bytes)
  ultimately show ?thesis using group_fits_engine [OF initial_good, of "[sample_entry]" sample_json sample_digest sample_identity g] g by simp
qed

end
