(* ===== verification/Shard_Types.thy ===== *)
theory Shard_Types
  imports Membership Bytes
begin

text \<open>
  The vocabulary of the shard service (\<^verbatim>\<open>shard-service/src/types.rs\<close>): identities of log
  positions and of transfers, the chain of proofs a transfer collects, receipts, errors, the
  placement of keys on shards, the bounded canonical encoding and the maintenance tickets of the
  controller.  SHA-256 and the JSON printers of \<^verbatim>\<open>serde\<close> are parameters of the definitions that
  use them.
\<close>

section \<open>Identities and bounds\<close>

type_synonym group_id = nat
type_synonym shard_id = nat

definition CONTROLLER :: group_id where "CONTROLLER = 0"
definition MAX_SHARDS :: nat where "MAX_SHARDS = 64"
definition MAX_GROUPS :: nat where "MAX_GROUPS = 16"
definition MAX_TRANSFERS :: nat where "MAX_TRANSFERS = 1024"
definition MAX_ACTOR_BYTES :: nat where "MAX_ACTOR_BYTES = 16 * 1024 * 1024"
definition MAX_TRANSFER_BYTES :: nat where "MAX_TRANSFER_BYTES = 4 * 1024 * 1024"
definition CHUNK_BYTES :: nat where "CHUNK_BYTES = 32 * 1024"
definition MAX_SHARD_KEY_BYTES :: nat where "MAX_SHARD_KEY_BYTES = 1024"
definition MAX_SHARD_VALUE_BYTES :: nat where "MAX_SHARD_VALUE_BYTES = 64 * 1024"
definition MAX_SHARD_SESSIONS :: nat where "MAX_SHARD_SESSIONS = 1024"
definition MAX_SHARD_RETRY_KEYS :: nat where "MAX_SHARD_RETRY_KEYS = 8192"
definition MAX_SHARD_PAYLOAD_BYTES :: nat where "MAX_SHARD_PAYLOAD_BYTES = 8 * 1024 * 1024"
definition ABORT_RECORD_RESERVE :: nat where "ABORT_RECORD_RESERVE = 1024"
definition MAX_MAINTENANCE_TICKETS :: nat where "MAX_MAINTENANCE_TICKETS = 1024"
definition MAX_MAINTENANCE_OPERATION_BYTES :: nat where "MAX_MAINTENANCE_OPERATION_BYTES = 4096"
definition MAINTENANCE_COMPLETION_RESERVE :: nat where "MAINTENANCE_COMPLETION_RESERVE = 8192"

lemmas shard_bounds = CONTROLLER_def MAX_SHARDS_def MAX_GROUPS_def MAX_TRANSFERS_def MAX_ACTOR_BYTES_def
  MAX_TRANSFER_BYTES_def CHUNK_BYTES_def MAX_SHARD_KEY_BYTES_def MAX_SHARD_VALUE_BYTES_def
  MAX_SHARD_SESSIONS_def MAX_SHARD_RETRY_KEYS_def MAX_SHARD_PAYLOAD_BYTES_def ABORT_RECORD_RESERVE_def
  MAX_MAINTENANCE_TICKETS_def MAX_MAINTENANCE_OPERATION_BYTES_def MAINTENANCE_COMPLETION_RESERVE_def

text \<open>Rust's decimal rendering of an unsigned integer.\<close>

fun decimal :: "nat \<Rightarrow> string" where
  "decimal n = (if n < 10 then [char_of (48 + n)] else decimal (n div 10) @ [char_of (48 + n mod 10)])"

declare decimal.simps [simp del]

record origin =
  o_group :: group_id
  o_index :: nat

definition origin_key :: "origin \<Rightarrow> string" where
  "origin_key x = decimal (o_group x) @ '':'' @ decimal (o_index x)"

definition origin_valid :: "origin \<Rightarrow> bool" where
  "origin_valid x = (o_index x > 0)"

record transfer_id =
  ti_shard :: shard_id
  ti_epoch :: nat
  ti_index :: nat

definition transfer_key :: "transfer_id \<Rightarrow> string" where
  "transfer_key x = decimal (ti_shard x) @ '':'' @ decimal (ti_epoch x) @ '':'' @ decimal (ti_index x)"

definition transfer_id_valid :: "transfer_id \<Rightarrow> bool" where
  "transfer_id_valid x = (ti_shard x < MAX_SHARDS \<and> ti_epoch x > 1 \<and> ti_index x > 0)"

record movement =
  mv_id :: transfer_id
  mv_source :: group_id
  mv_destination :: group_id
  mv_previous :: nat

definition movement_ok :: "movement \<Rightarrow> bool" where
  "movement_ok m =
     (transfer_id_valid (mv_id m) \<and> mv_source m \<noteq> CONTROLLER \<and> mv_destination m \<noteq> CONTROLLER \<and>
      mv_source m \<noteq> mv_destination m \<and> checked_add (mv_previous m) 1 = Some (ti_epoch (mv_id m)))"

abbreviation mv_shard :: "movement \<Rightarrow> shard_id" where
  "mv_shard m \<equiv> ti_shard (mv_id m)"

abbreviation mv_epoch :: "movement \<Rightarrow> nat" where
  "mv_epoch m \<equiv> ti_epoch (mv_id m)"

lemma movement_ok_epoch: "movement_ok m \<Longrightarrow> mv_epoch m = Suc (mv_previous m)"
  by (simp add: movement_ok_def)

section \<open>The proofs a transfer collects\<close>

record retention =
  rt_sessions :: nat
  rt_retry_keys :: nat
  rt_payload_bytes :: nat

definition retention_valid :: "retention \<Rightarrow> bool" where
  "retention_valid r =
     (rt_sessions r \<le> MAX_SHARD_SESSIONS \<and> rt_retry_keys r \<le> MAX_SHARD_RETRY_KEYS \<and>
      rt_payload_bytes r \<le> MAX_SHARD_PAYLOAD_BYTES)"

record image_proof =
  im_movement :: movement
  im_fence :: origin
  im_bytes :: nat
  im_sha256 :: "byte list"
  im_retention :: retention

definition image_valid :: "image_proof \<Rightarrow> bool" where
  "image_valid p =
     (movement_ok (im_movement p) \<and> retention_valid (im_retention p) \<and> origin_valid (im_fence p) \<and>
      o_group (im_fence p) = mv_source (im_movement p) \<and> 1 \<le> im_bytes p \<and> im_bytes p \<le> MAX_TRANSFER_BYTES)"

record installed_proof =
  ip_image :: image_proof
  ip_installed :: origin

definition installed_valid :: "installed_proof \<Rightarrow> bool" where
  "installed_valid p =
     (image_valid (ip_image p) \<and> origin_valid (ip_installed p) \<and>
      o_group (ip_installed p) = mv_destination (im_movement (ip_image p)))"

record ownership_proof =
  op_installation :: installed_proof
  op_controller :: origin

abbreviation op_movement :: "ownership_proof \<Rightarrow> movement" where
  "op_movement p \<equiv> im_movement (ip_image (op_installation p))"

definition ownership_valid :: "ownership_proof \<Rightarrow> bool" where
  "ownership_valid p =
     (installed_valid (op_installation p) \<and> origin_valid (op_controller p) \<and>
      o_group (op_controller p) = CONTROLLER \<and> o_index (op_controller p) > ti_index (mv_id (op_movement p)))"

record activation_proof =
  ap_ownership :: ownership_proof
  ap_activated :: origin

abbreviation ap_image :: "activation_proof \<Rightarrow> image_proof" where
  "ap_image p \<equiv> ip_image (op_installation (ap_ownership p))"

abbreviation ap_movement :: "activation_proof \<Rightarrow> movement" where
  "ap_movement p \<equiv> im_movement (ap_image p)"

definition activation_valid :: "activation_proof \<Rightarrow> bool" where
  "activation_valid p =
     (ownership_valid (ap_ownership p) \<and> origin_valid (ap_activated p) \<and>
      o_group (ap_activated p) = mv_destination (ap_movement p) \<and>
      o_index (ap_activated p) > o_index (ip_installed (op_installation (ap_ownership p))))"

record abort_proof =
  ab_movement :: movement
  ab_controller :: origin

definition abort_valid :: "abort_proof \<Rightarrow> bool" where
  "abort_valid p =
     (movement_ok (ab_movement p) \<and> o_group (ab_controller p) = CONTROLLER \<and>
      o_index (ab_controller p) > ti_index (mv_id (ab_movement p)))"

record abort_record =
  ar_abort :: abort_proof
  ar_recovered :: origin

record receipt =
  rc_origin :: origin
  rc_shard :: shard_id
  rc_epoch :: nat
  rc_session :: "origin option"
  rc_sequence :: "nat option"

datatype shard_error =
    InvalidInput | WrongGroup | NotInitialized | AlreadyInitialized | StaleRoute | Unavailable | Busy
  | StaleGeneration | WrongTransfer | WrongPhase | Aborted | PayloadMismatch | ChunkOffset | Capacity
  | UnknownSession | SessionClosed | StaleSequence | SequenceGap

type_synonym 'a checked = "shard_error + 'a"

section \<open>Placement and encoding\<close>

text \<open>\<open>sha\<close> stands for SHA-256.\<close>

definition key_shard :: "(byte list \<Rightarrow> byte list) \<Rightarrow> string \<Rightarrow> nat \<Rightarrow> shard_id option" where
  "key_shard sha key n =
     (if key = [] \<or> length key > MAX_SHARD_KEY_BYTES \<or> n = 0 \<or> n > MAX_SHARDS then None
      else Some (be_value (take 8 (sha (text_bytes key))) mod n))"

text \<open>
  The bounded writer: \<open>json\<close> is the JSON printer of the value's type (\<open>None\<close> when the printer
  itself fails), and output beyond the limit is refused.
\<close>

definition canonical_bytes :: "('a \<Rightarrow> byte list option) \<Rightarrow> 'a \<Rightarrow> nat \<Rightarrow> byte list checked" where
  "canonical_bytes json v limit =
     (case json v of
        None \<Rightarrow> Inl InvalidInput
      | Some bs \<Rightarrow> if length bs \<le> limit then Inr bs else Inl Capacity)"

lemma canonical_bytes_Inr [simp]:
  "canonical_bytes json v limit = Inr bs \<longleftrightarrow> json v = Some bs \<and> length bs \<le> limit"
  by (auto simp: canonical_bytes_def split: option.splits)

definition ok_or :: "'e \<Rightarrow> 'a option \<Rightarrow> 'e + 'a" where
  "ok_or e x = (case x of None \<Rightarrow> Inl e | Some v \<Rightarrow> Inr v)"

lemma ok_or_simps [simp]: "ok_or e None = Inl e" "ok_or e (Some v) = Inr v"
  by (simp_all add: ok_or_def)

lemma ok_or_Inr [simp]: "ok_or e x = Inr v \<longleftrightarrow> x = Some v"
  by (cases x) auto

definition ascending :: "nat list \<Rightarrow> bool" where
  "ascending xs = (\<not> list_ex (\<lambda>(a, b). a \<ge> b) (windows2 xs))"

section \<open>Maintenance tickets\<close>

definition maintenance_request_id_valid :: "string \<Rightarrow> bool" where
  "maintenance_request_id_valid i =
     (i \<noteq> [] \<and> length i \<le> 128 \<and> list_all (\<lambda>b. b < 128) (bytes_of i) \<and>
      \<not> list_ex (\<lambda>b. b \<in> {32, 9, 10, 12, 13} \<or> (b < 32 \<or> b = 127)) (bytes_of i))"

definition maintenance_operation_valid :: "(admin_operation \<Rightarrow> byte list option) \<Rightarrow> admin_operation \<Rightarrow> bool" where
  "maintenance_operation_valid json a =
     ((case a of
         AddLearner _ ep \<Rightarrow> is_ok (endpoints_validate ep)
       | Remove _ \<Rightarrow> True
       | SetVoters vs \<Rightarrow> is_ok (vc_validate (Stable vs))) \<and>
      is_ok (canonical_bytes json a MAX_MAINTENANCE_OPERATION_BYTES))"

record maintenance_completion =
  mc_record :: admin_record
  mc_observed :: origin
  mc_released :: origin

record maintenance_ticket =
  mt_request :: string
  mt_target :: group_id
  mt_operation :: admin_operation
  mt_origin :: origin
  mt_previous :: "origin option"
  mt_completion :: "maintenance_completion option"

definition core_request_id :: "maintenance_ticket \<Rightarrow> string" where
  "core_request_id t = ''l7-maintenance-'' @ decimal (o_index (mt_origin t))"

definition record_matches :: "maintenance_ticket \<Rightarrow> admin_record \<Rightarrow> origin \<Rightarrow> bool" where
  "record_matches t r observed =
     (case (final_index r, final_term r) of
        (Some fi, Some ft) \<Rightarrow>
          operation r = mt_operation t \<and> admin_record.first_index r > 0 \<and> first_term r > 0 \<and>
          fi \<ge> admin_record.first_index r \<and> ft \<ge> first_term r \<and>
          (if joint r then fi > admin_record.first_index r \<and> (case operation r of AddLearner _ _ \<Rightarrow> False | _ \<Rightarrow> True)
           else fi = admin_record.first_index r \<and> ft = first_term r \<and> (case operation r of SetVoters _ \<Rightarrow> False | _ \<Rightarrow> True)) \<and>
          o_group observed = mt_target t \<and> o_index observed \<ge> fi \<and>
          (mt_target t \<noteq> CONTROLLER \<or> admin_record.first_index r > o_index (mt_origin t))
      | _ \<Rightarrow> False)"

definition ticket_valid ::
  "(admin_operation \<Rightarrow> byte list option) \<Rightarrow> (maintenance_completion \<Rightarrow> byte list option) \<Rightarrow> maintenance_ticket \<Rightarrow> bool" where
  "ticket_valid op_json mc_json t =
     (maintenance_request_id_valid (mt_request t) \<and> maintenance_operation_valid op_json (mt_operation t) \<and>
      o_group (mt_origin t) = CONTROLLER \<and> o_index (mt_origin t) > 0 \<and>
      (case mt_previous t of
         None \<Rightarrow> True
       | Some p \<Rightarrow> o_group p = CONTROLLER \<and> o_index p > 0 \<and> o_index p < o_index (mt_origin t)) \<and>
      (case mt_completion t of
         None \<Rightarrow> True
       | Some c \<Rightarrow>
           record_matches t (mc_record c) (mc_observed c) \<and> o_group (mc_released c) = CONTROLLER \<and>
           o_index (mc_released c) > o_index (mt_origin t) \<and>
           (mt_target t \<noteq> CONTROLLER \<or> o_index (mc_observed c) < o_index (mc_released c)) \<and>
           is_ok (canonical_bytes mc_json c MAINTENANCE_COMPLETION_RESERVE)))"

section \<open>Decimal lengths\<close>

text \<open>The rendering of a 64-bit counter never needs more than twenty digits.\<close>

lemma decimal_length_pos: "length (decimal n) > 0"
  by (subst decimal.simps) simp

lemma decimal_length_mono: "m \<le> n \<Longrightarrow> length (decimal m) \<le> length (decimal n)"
proof (induction n arbitrary: m rule: decimal.induct)
  case (1 n)
  show ?case
  proof (cases "n < 10")
    case True
    then show ?thesis using 1(2) by (simp add: decimal.simps [of m] decimal.simps [of n])
  next
    case False
    then show ?thesis
      using 1(1) [OF False div_le_mono [OF 1(2)]] decimal_length_pos [of "n div 10"]
      by (simp add: decimal.simps [of m] decimal.simps [of n])
  qed
qed

lemma decimal_length_max: "length (decimal u64_max) = 20"
  by (simp add: u64_max_def decimal.simps)

lemma decimal_length_u64: "n \<le> u64_max \<Longrightarrow> length (decimal n) \<le> 20"
  using decimal_length_mono decimal_length_max by metis

end
