(* ===== verification/Shard_Controller.thy ===== *)
theory Shard_Controller
  imports Shard_Types
begin

text \<open>
  The replicated controller (\<^verbatim>\<open>shard-service/src/controller.rs\<close>): the route of every shard, the
  transfers with the phase each has reached, the maintenance tickets, and the execution of
  committed commands with its capacity check.  The validation of a restored controller is not
  modelled.
\<close>

section \<open>State\<close>

record route =
  ro_shard :: shard_id
  ro_epoch :: nat
  ro_owner :: group_id
  ro_transfer :: "transfer_id option"

datatype abort_stage =
    BeforeStarted
  | BeforeFenced image_proof
  | BeforeInstalled installed_proof

datatype phase =
    PStarted
  | PAborted abort_proof abort_stage "origin option" "origin option"
  | PFenced image_proof
  | PInstalled installed_proof
  | POwned ownership_proof
  | PActivated activation_proof
  | PCleaned activation_proof origin
  | PComplete activation_proof origin origin

record transfer =
  tr_request :: string
  tr_movement :: movement
  tr_phase :: phase

fun phase_complete :: "phase \<Rightarrow> bool" where
  "phase_complete (PComplete _ _ _) = True"
| "phase_complete (PAborted _ _ (Some _) (Some _)) = True"
| "phase_complete _ = False"

definition transfer_complete :: "transfer \<Rightarrow> bool" where
  "transfer_complete t = phase_complete (tr_phase t)"

datatype controller_command =
    CAcquireMaintenance string group_id admin_operation "origin option"
  | CCompleteMaintenance string origin string admin_record origin
  | CInitialize "group_id list" "group_id list"
  | CBegin string shard_id nat group_id
  | CFenced image_proof
  | CInstalled installed_proof
  | COwn transfer_id
  | CAbort transfer_id
  | CEndpointAborted abort_proof origin
  | CActivated activation_proof
  | CCleaned transfer_id origin
  | CComplete transfer_id

datatype controller_reply =
    CRInitialized origin
  | CRTransfer transfer
  | CRMaintenance maintenance_ticket

record controller =
  c_applied :: nat
  c_initialized :: "origin option"
  c_groups :: "group_id list"
  c_routes :: "route list"
  c_transfers :: "(string, transfer) btree"
  c_maintenance :: "(string, maintenance_ticket) btree"

definition controller_default :: controller where
  "controller_default =
     \<lparr>c_applied = 0, c_initialized = None, c_groups = [], c_routes = [], c_transfers = [], c_maintenance = []\<rparr>"

text \<open>The JSON printers of the measured types.\<close>

record controller_format =
  g_operation :: "admin_operation \<Rightarrow> byte list option"
  g_completion :: "maintenance_completion \<Rightarrow> byte list option"
  g_controller :: "controller \<Rightarrow> byte list option"

type_synonym controller_result = "(controller_reply \<times> controller) checked"

section \<open>Maintenance and capacity\<close>

text \<open>\<^verbatim>\<open>max_by_key\<close> returns the last of the maximal elements.\<close>

definition maintenance_generation :: "controller \<Rightarrow> origin option" where
  "maintenance_generation c =
     fold (\<lambda>(_, t) best. case best of
             None \<Rightarrow> Some (mt_origin t)
           | Some b \<Rightarrow> if o_index b \<le> o_index (mt_origin t) then Some (mt_origin t) else Some b)
       (c_maintenance c) None"

definition active_maintenance :: "controller \<Rightarrow> maintenance_ticket option" where
  "active_maintenance c = map_option snd (find (\<lambda>(_, t). mt_completion t = None) (c_maintenance c))"

definition pending_transfer :: "controller \<Rightarrow> bool" where
  "pending_transfer c = list_ex (\<lambda>(_, t). \<not> transfer_complete t) (c_transfers c)"

definition check_capacity :: "controller_format \<Rightarrow> controller \<Rightarrow> unit checked" where
  "check_capacity G c =
     (let reserved = 4096 + (length (decimal u64_max) - length (decimal (c_applied c))) +
            (if active_maintenance c \<noteq> None then MAINTENANCE_COMPLETION_RESERVE else 0)
      in rbind (canonical_bytes (g_controller G) c (saturating_sub MAX_ACTOR_BYTES reserved)) (\<lambda>_. Inr ()))"

section \<open>Execution\<close>

definition first_routes :: "group_id list \<Rightarrow> route list" where
  "first_routes owners =
     map (\<lambda>(s, g). \<lparr>ro_shard = s, ro_epoch = 1, ro_owner = g, ro_transfer = None\<rparr>) (enumerate 0 owners)"

definition ctl_initialize :: "controller \<Rightarrow> origin \<Rightarrow> group_id list \<Rightarrow> group_id list \<Rightarrow> controller_result" where
  "ctl_initialize c og gs owners =
     (case c_initialized c of
        Some ini \<Rightarrow>
          if c_groups c = gs \<and> map ro_owner (c_routes c) = owners \<and> c_transfers c = [] \<and> c_maintenance c = []
          then Inr (CRInitialized ini, c) else Inl AlreadyInitialized
      | None \<Rightarrow>
          if gs = [] \<or> length gs > MAX_GROUPS \<or> owners = [] \<or> length owners > MAX_SHARDS \<or> CONTROLLER \<in> set gs \<or>
             \<not> ascending gs \<or> list_ex (\<lambda>g. g \<notin> set gs) owners
          then Inl InvalidInput
          else Inr (CRInitialized og, c\<lparr>c_groups := gs, c_routes := first_routes owners, c_initialized := Some og\<rparr>))"

definition ctl_acquire ::
  "controller_format \<Rightarrow> controller \<Rightarrow> origin \<Rightarrow> string \<Rightarrow> group_id \<Rightarrow> admin_operation \<Rightarrow> origin option \<Rightarrow> controller_result" where
  "ctl_acquire G c og rq target oper expected =
     (if \<not> maintenance_request_id_valid rq \<or> \<not> maintenance_operation_valid (g_operation G) oper then Inl InvalidInput
      else if target \<noteq> CONTROLLER \<and> target \<notin> set (c_groups c) then Inl WrongGroup
      else case bt_get (c_maintenance c) rq of
        Some t \<Rightarrow>
          if mt_target t = target \<and> mt_operation t = oper then Inr (CRMaintenance t, c) else Inl PayloadMismatch
      | None \<Rightarrow>
          if expected \<noteq> maintenance_generation c then Inl StaleGeneration
          else if active_maintenance c \<noteq> None \<or> pending_transfer c then Inl Busy
          else if length (c_maintenance c) \<ge> MAX_MAINTENANCE_TICKETS then Inl Capacity
          else (let t = \<lparr>mt_request = rq, mt_target = target, mt_operation = oper, mt_origin = og,
                         mt_previous = expected, mt_completion = None\<rparr>
                in Inr (CRMaintenance t, c\<lparr>c_maintenance := bt_insert rq t (c_maintenance c)\<rparr>)))"

text \<open>A completion must not precede what earlier tickets of the same group have already observed.\<close>

definition regresses :: "controller \<Rightarrow> maintenance_ticket \<Rightarrow> admin_record \<Rightarrow> bool" where
  "regresses c t r =
     list_ex (\<lambda>(_, p). mt_target p = mt_target t \<and> o_index (mt_origin p) < o_index (mt_origin t) \<and>
                (case mt_completion p of
                   None \<Rightarrow> False
                 | Some z \<Rightarrow>
                     admin_record.first_index r \<le> o_index (mc_observed z) \<or>
                     first_term r < (case final_term (mc_record z) of None \<Rightarrow> 0 | Some x \<Rightarrow> x)))
       (c_maintenance c)"

definition ctl_complete_maintenance ::
  "controller_format \<Rightarrow> controller \<Rightarrow> origin \<Rightarrow> string \<Rightarrow> origin \<Rightarrow> string \<Rightarrow> admin_record \<Rightarrow> origin \<Rightarrow> controller_result" where
  "ctl_complete_maintenance G c og rq ticket core r observed =
     rbind (ok_or WrongTransfer (bt_get (c_maintenance c) rq)) (\<lambda>t.
       if mt_origin t \<noteq> ticket \<or> core_request_id t \<noteq> core then Inl WrongTransfer
       else if \<not> record_matches t r observed then Inl WrongPhase
       else case mt_completion t of
         Some z \<Rightarrow> if mc_record z = r then Inr (CRMaintenance t, c) else Inl PayloadMismatch
       | None \<Rightarrow>
           if regresses c t r then Inl WrongPhase
           else (let z = \<lparr>mc_record = r, mc_observed = observed, mc_released = og\<rparr>;
                     t' = t\<lparr>mt_completion := Some z\<rparr>
                 in if \<not> is_ok (canonical_bytes (g_completion G) z MAINTENANCE_COMPLETION_RESERVE) \<or>
                       (mt_target t = CONTROLLER \<and> o_index observed \<ge> o_index og)
                    then Inl InvalidInput
                    else Inr (CRMaintenance t', c\<lparr>c_maintenance := bt_insert rq t' (c_maintenance c)\<rparr>)))"

definition overlaps :: "controller \<Rightarrow> group_id \<Rightarrow> group_id \<Rightarrow> bool" where
  "overlaps c owner destination =
     list_ex (\<lambda>(_, t). \<not> transfer_complete t \<and>
                list_ex (\<lambda>g. g = owner \<or> g = destination) [mv_source (tr_movement t), mv_destination (tr_movement t)])
       (c_transfers c)"

definition set_route :: "shard_id \<Rightarrow> route \<Rightarrow> controller \<Rightarrow> controller" where
  "set_route s r c = c\<lparr>c_routes := (c_routes c)[s := r]\<rparr>"

definition route_at :: "controller \<Rightarrow> shard_id \<Rightarrow> route option" where
  "route_at c s = (if s < length (c_routes c) then Some (c_routes c ! s) else None)"

definition ctl_begin :: "controller \<Rightarrow> nat \<Rightarrow> string \<Rightarrow> shard_id \<Rightarrow> nat \<Rightarrow> group_id \<Rightarrow> controller_result" where
  "ctl_begin c i rq s expected destination =
     (if rq = [] \<or> length rq > 128 then Inl InvalidInput
      else case bt_get (c_transfers c) rq of
        Some t \<Rightarrow>
          if mv_shard (tr_movement t) = s \<and> mv_previous (tr_movement t) = expected \<and>
             mv_destination (tr_movement t) = destination
          then Inr (CRTransfer t, c) else Inl PayloadMismatch
      | None \<Rightarrow>
          if active_maintenance c \<noteq> None then Inl Busy
          else if length (c_transfers c) \<ge> MAX_TRANSFERS then Inl Capacity
          else rbind (ok_or InvalidInput (route_at c s)) (\<lambda>r.
            if ro_epoch r \<noteq> expected then Inl StaleRoute
            else if destination = ro_owner r \<or> destination \<notin> set (c_groups c) then Inl WrongGroup
            else if overlaps c (ro_owner r) destination then Inl Busy
            else rbind (ok_or Capacity (checked_add expected 1)) (\<lambda>e.
              let m = \<lparr>mv_id = \<lparr>ti_shard = s, ti_epoch = e, ti_index = i\<rparr>, mv_source = ro_owner r,
                       mv_destination = destination, mv_previous = expected\<rparr>;
                  t = \<lparr>tr_request = rq, tr_movement = m, tr_phase = PStarted\<rparr>
              in Inr (CRTransfer t,
                   (set_route s (r\<lparr>ro_transfer := Some (mv_id m)\<rparr>) c)\<lparr>c_transfers := bt_insert rq t (c_transfers c)\<rparr>))))"

text \<open>The phase changes.  Each returns the new phase of the transfer, or the error.\<close>

definition phase_abort :: "origin \<Rightarrow> movement \<Rightarrow> phase \<Rightarrow> phase checked" where
  "phase_abort og m p =
     (let ab = \<lparr>ab_movement = m, ab_controller = og\<rparr> in
      case p of
        PAborted _ _ _ _ \<Rightarrow> Inr p
      | PStarted \<Rightarrow> Inr (PAborted ab BeforeStarted None None)
      | PFenced im \<Rightarrow> Inr (PAborted ab (BeforeFenced im) None None)
      | PInstalled inst \<Rightarrow> Inr (PAborted ab (BeforeInstalled inst) None None)
      | _ \<Rightarrow> Inl WrongPhase)"

definition recovery_floor :: "abort_stage \<Rightarrow> movement \<Rightarrow> group_id \<Rightarrow> nat" where
  "recovery_floor stage m g =
     (case stage of
        BeforeStarted \<Rightarrow> 0
      | BeforeFenced im \<Rightarrow> if g = mv_source m then o_index (im_fence im) else 0
      | BeforeInstalled inst \<Rightarrow>
          if g = mv_source m then o_index (im_fence (ip_image inst))
          else if g = mv_destination m then o_index (ip_installed inst) else 0)"

definition put_receipt :: "origin option \<Rightarrow> origin \<Rightarrow> origin option checked" where
  "put_receipt slot recovered =
     (case slot of
        Some p \<Rightarrow> if p \<noteq> recovered then Inl PayloadMismatch else Inr slot
      | None \<Rightarrow> Inr (Some recovered))"

definition phase_endpoint_aborted :: "movement \<Rightarrow> abort_proof \<Rightarrow> origin \<Rightarrow> phase \<Rightarrow> phase checked" where
  "phase_endpoint_aborted m ab recovered p =
     (case p of
        PAborted expected stage src dst \<Rightarrow>
          if \<not> abort_valid ab \<or> ab \<noteq> expected \<or> \<not> origin_valid recovered then Inl WrongTransfer
          else if o_index recovered \<le> recovery_floor stage m (o_group recovered) then Inl WrongTransfer
          else if o_group recovered = mv_source m
          then rbind (put_receipt src recovered) (\<lambda>src'. Inr (PAborted expected stage src' dst))
          else if o_group recovered = mv_destination m
          then rbind (put_receipt dst recovered) (\<lambda>dst'. Inr (PAborted expected stage src dst'))
          else Inl WrongGroup
      | _ \<Rightarrow> Inl WrongPhase)"

definition phase_fenced :: "movement \<Rightarrow> image_proof \<Rightarrow> phase \<Rightarrow> phase checked" where
  "phase_fenced m im p =
     (if \<not> image_valid im \<or> im_movement im \<noteq> m then Inl WrongTransfer
      else case p of
        PStarted \<Rightarrow> Inr (PFenced im)
      | PFenced old \<Rightarrow> if old = im then Inr p else Inl WrongPhase
      | _ \<Rightarrow> Inl WrongPhase)"

definition phase_installed :: "movement \<Rightarrow> installed_proof \<Rightarrow> phase \<Rightarrow> phase checked" where
  "phase_installed m inst p =
     (if \<not> installed_valid inst \<or> im_movement (ip_image inst) \<noteq> m then Inl WrongTransfer
      else case p of
        PFenced im \<Rightarrow> if im = ip_image inst then Inr (PInstalled inst) else Inl WrongPhase
      | PInstalled old \<Rightarrow> if old = inst then Inr p else Inl WrongPhase
      | _ \<Rightarrow> Inl WrongPhase)"

definition phase_activated :: "activation_proof \<Rightarrow> phase \<Rightarrow> phase checked" where
  "phase_activated a p =
     (if \<not> activation_valid a then Inl InvalidInput
      else case p of
        POwned ow \<Rightarrow> if ow = ap_ownership a then Inr (PActivated a) else Inl WrongPhase
      | PActivated old \<Rightarrow> if old = a then Inr p else Inl WrongPhase
      | _ \<Rightarrow> Inl WrongPhase)"

definition phase_cleaned :: "movement \<Rightarrow> origin \<Rightarrow> phase \<Rightarrow> phase checked" where
  "phase_cleaned m cleaned p =
     (if o_group cleaned \<noteq> mv_source m \<or> \<not> origin_valid cleaned then Inl WrongGroup
      else case p of
        PActivated a \<Rightarrow> if o_index cleaned > o_index (im_fence (ap_image a)) then Inr (PCleaned a cleaned) else Inl WrongPhase
      | PCleaned _ old \<Rightarrow> if old = cleaned then Inr p else Inl WrongPhase
      | _ \<Rightarrow> Inl WrongPhase)"

text \<open>
  The commands of one transfer.  Routes change in three of them: \<^verbatim>\<open>Own\<close> moves the shard to its
  new owner and epoch, the second endpoint receipt of an abort and \<^verbatim>\<open>Complete\<close> clear the pending
  transfer.
\<close>

definition ctl_own :: "controller \<Rightarrow> origin \<Rightarrow> transfer \<Rightarrow> (phase \<times> controller) checked" where
  "ctl_own c og t =
     (let m = tr_movement t; s = mv_shard m; r = c_routes c ! s in
      case tr_phase t of
        PInstalled inst \<Rightarrow>
          if ro_owner r \<noteq> mv_source m \<or> ro_epoch r \<noteq> mv_previous m \<or> ro_transfer r \<noteq> Some (mv_id m) then Inl WrongTransfer
          else Inr (POwned \<lparr>op_installation = inst, op_controller = og\<rparr>,
                 set_route s (r\<lparr>ro_owner := mv_destination m, ro_epoch := mv_epoch m\<rparr>) c)
      | POwned _ \<Rightarrow> Inr (tr_phase t, c)
      | _ \<Rightarrow> Inl WrongPhase)"

text \<open>
  The route table is indexed by the shard of a recorded transfer, which \<open>ctl_begin\<close> looked up there;
  the table never shrinks, so the index is in range.
\<close>

definition clear_route :: "transfer_id \<Rightarrow> controller \<Rightarrow> controller" where
  "clear_route i c =
     (let r = c_routes c ! ti_shard i
      in if ro_transfer r = Some i then set_route (ti_shard i) (r\<lparr>ro_transfer := None\<rparr>) c else c)"

definition ctl_complete :: "controller \<Rightarrow> origin \<Rightarrow> transfer \<Rightarrow> (phase \<times> controller) checked" where
  "ctl_complete c og t =
     (let s = mv_shard (tr_movement t) in
      case tr_phase t of
        PCleaned a cleaned \<Rightarrow>
          Inr (PComplete a cleaned og, set_route s ((c_routes c ! s)\<lparr>ro_transfer := None\<rparr>) c)
      | PComplete _ _ _ \<Rightarrow> Inr (tr_phase t, c)
      | _ \<Rightarrow> Inl WrongPhase)"

fun ctl_transfer :: "controller \<Rightarrow> origin \<Rightarrow> transfer \<Rightarrow> controller_command \<Rightarrow> (phase \<times> controller) checked" where
  "ctl_transfer c og t (CAbort i) = rbind (phase_abort og (tr_movement t) (tr_phase t)) (\<lambda>p. Inr (p, c))"
| "ctl_transfer c og t (CEndpointAborted ab recovered) =
     rbind (phase_endpoint_aborted (tr_movement t) ab recovered (tr_phase t)) (\<lambda>p.
       Inr (p, if phase_complete p then clear_route (mv_id (tr_movement t)) c else c))"
| "ctl_transfer c og t (CFenced im) = rbind (phase_fenced (tr_movement t) im (tr_phase t)) (\<lambda>p. Inr (p, c))"
| "ctl_transfer c og t (CInstalled inst) = rbind (phase_installed (tr_movement t) inst (tr_phase t)) (\<lambda>p. Inr (p, c))"
| "ctl_transfer c og t (COwn i) = ctl_own c og t"
| "ctl_transfer c og t (CActivated a) = rbind (phase_activated a (tr_phase t)) (\<lambda>p. Inr (p, c))"
| "ctl_transfer c og t (CCleaned i cleaned) = rbind (phase_cleaned (tr_movement t) cleaned (tr_phase t)) (\<lambda>p. Inr (p, c))"
| "ctl_transfer c og t (CComplete i) = ctl_complete c og t"
| "ctl_transfer c og t _ = Inl WrongPhase"

fun command_id :: "controller_command \<Rightarrow> transfer_id option" where
  "command_id (CFenced im) = Some (mv_id (im_movement im))"
| "command_id (CInstalled inst) = Some (mv_id (im_movement (ip_image inst)))"
| "command_id (COwn i) = Some i"
| "command_id (CAbort i) = Some i"
| "command_id (CCleaned i _) = Some i"
| "command_id (CComplete i) = Some i"
| "command_id (CActivated a) = Some (mv_id (ap_movement a))"
| "command_id (CEndpointAborted ab _) = Some (mv_id (ab_movement ab))"
| "command_id _ = None"

definition find_transfer :: "controller \<Rightarrow> transfer_id \<Rightarrow> (string \<times> transfer) option" where
  "find_transfer c i = find (\<lambda>(_, t). mv_id (tr_movement t) = i) (c_transfers c)"

definition ctl_advance_transfer :: "controller \<Rightarrow> origin \<Rightarrow> transfer_id \<Rightarrow> controller_command \<Rightarrow> controller_result" where
  "ctl_advance_transfer c og i cmd =
     rbind (ok_or WrongTransfer (find_transfer c i)) (\<lambda>(rq, t).
     rbind (ctl_transfer c og t cmd) (\<lambda>(p, c').
       let t' = t\<lparr>tr_phase := p\<rparr>
       in Inr (CRTransfer t', c'\<lparr>c_transfers := bt_insert rq t' (c_transfers c')\<rparr>)))"

definition ctl_execute :: "controller_format \<Rightarrow> controller \<Rightarrow> nat \<Rightarrow> controller_command \<Rightarrow> controller_result" where
  "ctl_execute G c i cmd =
     (let og = \<lparr>o_group = CONTROLLER, o_index = i\<rparr> in
      case cmd of
        CInitialize gs owners \<Rightarrow> ctl_initialize c og gs owners
      | _ \<Rightarrow>
          if c_initialized c = None then Inl NotInitialized
          else (case cmd of
                  CAcquireMaintenance rq target oper expected \<Rightarrow> ctl_acquire G c og rq target oper expected
                | CCompleteMaintenance rq ticket core r observed \<Rightarrow> ctl_complete_maintenance G c og rq ticket core r observed
                | CBegin rq s expected destination \<Rightarrow> ctl_begin c i rq s expected destination
                | _ \<Rightarrow> rbind (ok_or WrongTransfer (command_id cmd)) (\<lambda>t. ctl_advance_transfer c og t cmd)))"

definition ctl_apply :: "controller_format \<Rightarrow> controller \<Rightarrow> nat \<Rightarrow> controller_command \<Rightarrow> (controller_reply checked \<times> controller) fallible" where
  "ctl_apply G c i cmd =
     (if checked_add (c_applied c) 1 \<noteq> Some i then Inl ''controller application gap''
      else Inr (case rbind (ctl_execute G (c\<lparr>c_applied := i\<rparr>) i cmd)
                     (\<lambda>(reply, c'). rbind (check_capacity G c') (\<lambda>_. Inr (reply, c'))) of
                  Inl e \<Rightarrow> (Inl e, c\<lparr>c_applied := i\<rparr>)
                | Inr (reply, c') \<Rightarrow> (Inr reply, c')))"

definition ctl_advance :: "controller \<Rightarrow> nat \<Rightarrow> controller fallible" where
  "ctl_advance c i =
     (if checked_add (c_applied c) 1 \<noteq> Some i then Inl ''controller application gap'' else Inr (c\<lparr>c_applied := i\<rparr>))"

end
