(* ===== verification/Shard_Data.thy ===== *)
theory Shard_Data
  imports Shard_Types
begin

text \<open>
  The replicated data machine of one group (\<^verbatim>\<open>shard-service/src/data.rs\<close>): the shards it holds
  with their ownership slots, client sessions with one retained answer per key, the transfer
  operations of both endpoints, the abort tombstones, and the validation every executed command
  has to pass before it takes effect.
\<close>

section \<open>State\<close>

record cached =
  ca_sequence :: nat
  ca_digest :: "byte list"
  ca_payload :: "byte list"
  ca_receipt :: receipt

record shard_session =
  ss_id :: origin
  ss_nonce :: string
  ss_registered :: receipt
  ss_closed :: "receipt option"
  ss_keys :: "(string, cached) btree"

record shard_data =
  sd_cells :: "(string, string option) btree"
  sd_sessions :: "(string, shard_session) btree"
  sd_nonces :: "(string, origin) btree"

definition shard_data_default :: shard_data where
  "shard_data_default = \<lparr>sd_cells = [], sd_sessions = [], sd_nonces = []\<rparr>"

definition data_retention :: "shard_data \<Rightarrow> retention" where
  "data_retention d =
     \<lparr>rt_sessions = length (sd_sessions d),
      rt_retry_keys = sum_list (map (\<lambda>(_, s). length (ss_keys s)) (sd_sessions d)),
      rt_payload_bytes =
        sum_list (map (\<lambda>(_, c). length (ca_payload c)) (concat (map (\<lambda>(_, s). ss_keys s) (sd_sessions d))))\<rparr>"

record shard_image =
  si_version :: nat
  si_identity :: movement
  si_fence :: origin
  si_count :: nat
  si_data :: shard_data

record retired_state =
  rs_activation :: activation_proof
  rs_cleaned :: origin

datatype slot =
    Active nat "activation_proof option"
  | Fenced image_proof "activation_proof option"
  | Installing image_proof "byte list" "retired_state option"
  | Installed installed_proof "retired_state option"
  | Retired activation_proof origin

record shard =
  sh_slot :: slot
  sh_data :: "shard_data option"

datatype data_command =
    DInitialize nat "group_id list" "shard_id list"
  | DRegister shard_id nat string
  | DClose shard_id nat origin
  | DMutate shard_id nat origin string nat "string option"
  | DFence movement
  | DBeginInstall image_proof
  | DResetInstall image_proof
  | DChunk transfer_id nat "byte list"
  | DFinishInstall transfer_id
  | DActivate ownership_proof
  | DCleanup activation_proof
  | DAbortTransfer abort_proof

datatype data_reply =
    RInitialized origin
  | RReceipt receipt
  | RFenced image_proof
  | RProgress transfer_id nat
  | RInstalled installed_proof
  | RActivated activation_proof
  | RCleaned transfer_id origin
  | RAborted abort_record

record data_machine =
  d_group :: group_id
  d_applied :: nat
  d_initialized :: "origin option"
  d_count :: nat
  d_groups :: "group_id list"
  d_shards :: "(shard_id, shard) btree"
  d_aborted :: "(string, abort_record) btree"

text \<open>
  What the machine uses of other crates: SHA-256 and the JSON printers and parsers \<^verbatim>\<open>serde\<close>
  derives for the types that are measured, hashed or sent.
\<close>

record data_format =
  f_sha :: "byte list \<Rightarrow> byte list"
  f_image :: "shard_image \<Rightarrow> byte list option"
  f_parse_image :: "byte list \<Rightarrow> shard_image option"
  f_value :: "string option \<Rightarrow> byte list option"
  f_parse_value :: "byte list \<Rightarrow> string option option"
  f_abort :: "abort_record \<Rightarrow> byte list option"
  f_machine :: "data_machine \<Rightarrow> byte list option"

type_synonym data_result = "(data_reply \<times> data_machine) checked"

section \<open>Operations\<close>

definition data_new :: "group_id \<Rightarrow> data_machine checked" where
  "data_new g =
     (if g = CONTROLLER then Inl WrongGroup
      else Inr \<lparr>d_group = g, d_applied = 0, d_initialized = None, d_count = 0, d_groups = [], d_shards = [], d_aborted = []\<rparr>)"

definition data_advance :: "data_machine \<Rightarrow> nat \<Rightarrow> data_machine fallible" where
  "data_advance d i =
     (if checked_add (d_applied d) 1 \<noteq> Some i then Inl ''data application gap'' else Inr (d\<lparr>d_applied := i\<rparr>))"

text \<open>\<open>data_active\<close> is both \<^verbatim>\<open>active\<close> and the guard of \<^verbatim>\<open>active_mut\<close>; \<open>put_data\<close> writes through the latter.\<close>

definition data_active :: "data_machine \<Rightarrow> shard_id \<Rightarrow> nat \<Rightarrow> shard_data checked" where
  "data_active d s e =
     rbind (ok_or StaleRoute (bt_get (d_shards d) s)) (\<lambda>st.
       case sh_slot st of
         Active e' _ \<Rightarrow> if e' = e then ok_or Unavailable (sh_data st) else Inl StaleRoute
       | Retired _ _ \<Rightarrow> Inl StaleRoute
       | _ \<Rightarrow> Inl Unavailable)"

definition put_shard :: "shard_id \<Rightarrow> shard \<Rightarrow> data_machine \<Rightarrow> data_machine" where
  "put_shard s sh d = d\<lparr>d_shards := bt_insert s sh (d_shards d)\<rparr>"

definition put_data :: "shard_id \<Rightarrow> shard_data \<Rightarrow> data_machine \<Rightarrow> data_machine" where
  "put_data s x d =
     (case bt_get (d_shards d) s of
        None \<Rightarrow> d
      | Some st \<Rightarrow> put_shard s (st\<lparr>sh_data := Some x\<rparr>) d)"

definition data_read :: "data_format \<Rightarrow> data_machine \<Rightarrow> shard_id \<Rightarrow> nat \<Rightarrow> string \<Rightarrow> string option checked" where
  "data_read F d s e key =
     (if key_shard (f_sha F) key (d_count d) \<noteq> Some s then Inl InvalidInput
      else rbind (data_active d s e) (\<lambda>x. Inr (Option.bind (bt_get (sd_cells x) key) id)))"

definition image_body :: "data_machine \<Rightarrow> movement \<Rightarrow> origin \<Rightarrow> shard_data \<Rightarrow> shard_image" where
  "image_body d m fence x =
     \<lparr>si_version = 1, si_identity = m, si_fence = fence, si_count = d_count d, si_data = x\<rparr>"

definition data_export :: "data_format \<Rightarrow> data_machine \<Rightarrow> transfer_id \<Rightarrow> nat \<Rightarrow> (image_proof \<times> byte list) checked" where
  "data_export F d i offset =
     rbind (ok_or WrongTransfer (bt_get (d_shards d) (ti_shard i))) (\<lambda>st.
       case sh_slot st of
         Fenced im _ \<Rightarrow>
           if mv_id (im_movement im) \<noteq> i then Inl WrongTransfer
           else rbind (ok_or Unavailable (sh_data st)) (\<lambda>x.
             rbind (canonical_bytes (f_image F) (image_body d (im_movement im) (im_fence im) x) MAX_TRANSFER_BYTES) (\<lambda>bs.
               if length bs \<noteq> im_bytes im \<or> f_sha F bs \<noteq> im_sha256 im then Inl PayloadMismatch
               else if offset > length bs then Inl ChunkOffset
               else Inr (im, take CHUNK_BYTES (drop offset bs))))
       | _ \<Rightarrow> Inl WrongPhase)"

definition active_one :: shard where
  "active_one = \<lparr>sh_slot = Active 1 None, sh_data = Some shard_data_default\<rparr>"

definition data_initialize :: "data_machine \<Rightarrow> nat \<Rightarrow> nat \<Rightarrow> group_id list \<Rightarrow> shard_id list \<Rightarrow> data_result" where
  "data_initialize d i n gs owned =
     (if d_initialized d \<noteq> None then Inl AlreadyInitialized
      else if n = 0 \<or> n > MAX_SHARDS \<or> gs = [] \<or> length gs > MAX_GROUPS \<or> CONTROLLER \<in> set gs \<or>
              d_group d \<notin> set gs \<or> \<not> ascending gs \<or> \<not> ascending owned \<or> list_ex (\<lambda>s. s \<ge> n) owned
      then Inl InvalidInput
      else (let og = \<lparr>o_group = d_group d, o_index = i\<rparr>
            in Inr (RInitialized og,
                 d\<lparr>d_count := n, d_groups := gs, d_initialized := Some og,
                   d_shards := fold (\<lambda>s m. bt_insert s active_one m) owned (d_shards d)\<rparr>)))"

text \<open>
  The answer to a repeated registration indexes the session map, which panics when the session is
  missing: \<open>register_panics\<close> is that case, and \<open>data_apply\<close> reports it before anything else.
\<close>

definition register_panics :: "data_machine \<Rightarrow> data_command \<Rightarrow> bool" where
  "register_panics d cmd =
     (case cmd of
        DRegister s e nonce \<Rightarrow>
          d_initialized d \<noteq> None \<and> nonce \<noteq> [] \<and> length nonce \<le> 128 \<and>
          (case data_active d s e of
             Inl _ \<Rightarrow> False
           | Inr x \<Rightarrow>
               (case bt_get (sd_nonces x) nonce of
                  None \<Rightarrow> False
                | Some sid \<Rightarrow> bt_get (sd_sessions x) (origin_key sid) = None))
      | _ \<Rightarrow> False)"

definition data_register :: "data_machine \<Rightarrow> origin \<Rightarrow> shard_id \<Rightarrow> nat \<Rightarrow> string \<Rightarrow> data_result" where
  "data_register d og s e nonce =
     (if nonce = [] \<or> length nonce > 128 then Inl InvalidInput
      else rbind (data_active d s e) (\<lambda>x.
        case bt_get (sd_nonces x) nonce of
          Some sid \<Rightarrow>
            (case bt_get (sd_sessions x) (origin_key sid) of
               Some ses \<Rightarrow> Inr (RReceipt (ss_registered ses), d)
             | None \<Rightarrow> Inl InvalidInput)
        | None \<Rightarrow>
            (let rc = \<lparr>rc_origin = og, rc_shard = s, rc_epoch = e, rc_session = Some og, rc_sequence = None\<rparr>;
                 ses = \<lparr>ss_id = og, ss_nonce = nonce, ss_registered = rc, ss_closed = None, ss_keys = []\<rparr>
             in Inr (RReceipt rc,
                  put_data s (x\<lparr>sd_nonces := bt_insert nonce og (sd_nonces x),
                                sd_sessions := bt_insert (origin_key og) ses (sd_sessions x)\<rparr>) d))))"

definition data_close :: "data_machine \<Rightarrow> origin \<Rightarrow> shard_id \<Rightarrow> nat \<Rightarrow> origin \<Rightarrow> data_result" where
  "data_close d og s e sid =
     rbind (data_active d s e) (\<lambda>x.
     rbind (ok_or UnknownSession (bt_get (sd_sessions x) (origin_key sid))) (\<lambda>ses.
       case ss_closed ses of
         Some rc \<Rightarrow> Inr (RReceipt rc, d)
       | None \<Rightarrow>
           (let rc = \<lparr>rc_origin = og, rc_shard = s, rc_epoch = e, rc_session = Some sid, rc_sequence = None\<rparr>
            in Inr (RReceipt rc,
                 put_data s (x\<lparr>sd_sessions := bt_insert (origin_key sid) (ses\<lparr>ss_closed := Some rc\<rparr>) (sd_sessions x)\<rparr>) d))))"

text \<open>What the retained answer of a key decides: an answer, an error, or to go on.\<close>

definition retained_answer :: "cached option \<Rightarrow> nat \<Rightarrow> byte list \<Rightarrow> byte list \<Rightarrow> receipt option checked" where
  "retained_answer previous sq digest payload =
     (case previous of
        Some p \<Rightarrow>
          if sq = ca_sequence p
          then (if ca_digest p = digest \<and> ca_payload p = payload then Inr (Some (ca_receipt p)) else Inl PayloadMismatch)
          else if sq < ca_sequence p then Inl StaleSequence
          else if checked_add (ca_sequence p) 1 \<noteq> Some sq then Inl SequenceGap
          else Inr None
      | None \<Rightarrow> if sq \<noteq> 1 then Inl SequenceGap else Inr None)"

definition too_long :: "string option \<Rightarrow> bool" where
  "too_long v = (case v of None \<Rightarrow> False | Some x \<Rightarrow> length x > MAX_SHARD_VALUE_BYTES)"

definition data_mutate ::
  "data_format \<Rightarrow> data_machine \<Rightarrow> origin \<Rightarrow> shard_id \<Rightarrow> nat \<Rightarrow> origin \<Rightarrow> string \<Rightarrow> nat \<Rightarrow> string option \<Rightarrow> data_result" where
  "data_mutate F d og s e sid key sq v =
     (if key_shard (f_sha F) key (d_count d) \<noteq> Some s \<or> sq = 0 \<or> too_long v then Inl InvalidInput
      else rbind (canonical_bytes (f_value F) v (MAX_SHARD_VALUE_BYTES * 6 + 32)) (\<lambda>payload.
        let digest = f_sha F payload in
        rbind (data_active d s e) (\<lambda>x.
        rbind (ok_or UnknownSession (bt_get (sd_sessions x) (origin_key sid))) (\<lambda>ses.
          if ss_closed ses \<noteq> None then Inl SessionClosed
          else rbind (retained_answer (bt_get (ss_keys ses) key) sq digest payload) (\<lambda>answer.
            case answer of
              Some rc \<Rightarrow> Inr (RReceipt rc, d)
            | None \<Rightarrow>
                (let rc = \<lparr>rc_origin = og, rc_shard = s, rc_epoch = e, rc_session = Some sid, rc_sequence = Some sq\<rparr>;
                     ca = \<lparr>ca_sequence = sq, ca_digest = digest, ca_payload = payload, ca_receipt = rc\<rparr>;
                     ses' = ses\<lparr>ss_keys := bt_insert key ca (ss_keys ses)\<rparr>
                 in Inr (RReceipt rc,
                      put_data s (x\<lparr>sd_sessions := bt_insert (origin_key sid) ses' (sd_sessions x),
                                    sd_cells := bt_insert key v (sd_cells x)\<rparr>) d)))))))"

definition movement_valid :: "data_machine \<Rightarrow> movement \<Rightarrow> bool" where
  "movement_valid d m =
     (movement_ok m \<and> mv_shard m < d_count d \<and> mv_source m \<in> set (d_groups d) \<and> mv_destination m \<in> set (d_groups d))"

definition data_fence :: "data_format \<Rightarrow> data_machine \<Rightarrow> origin \<Rightarrow> movement \<Rightarrow> data_result" where
  "data_fence F d og m =
     (if \<not> movement_valid d m \<or> mv_source m \<noteq> d_group d then Inl WrongTransfer
      else rbind (ok_or StaleRoute (bt_get (d_shards d) (mv_shard m))) (\<lambda>st.
        case sh_slot st of
          Fenced im _ \<Rightarrow> if im_movement im = m then Inr (RFenced im, d) else Inl WrongTransfer
        | _ \<Rightarrow>
            (let previous = (case sh_slot st of Active _ a \<Rightarrow> a | _ \<Rightarrow> None)
             in rbind (data_active d (mv_shard m) (mv_previous m)) (\<lambda>x.
                rbind (canonical_bytes (f_image F) (image_body d m og x) MAX_TRANSFER_BYTES) (\<lambda>bs.
                  let im = \<lparr>im_movement = m, im_fence = og, im_bytes = length bs, im_sha256 = f_sha F bs,
                            im_retention = data_retention x\<rparr>
                  in Inr (RFenced im, put_shard (mv_shard m) (st\<lparr>sh_slot := Fenced im previous\<rparr>) d))))))"

definition preparing :: "slot \<Rightarrow> bool" where
  "preparing sl = (case sl of Installing _ _ _ \<Rightarrow> True | Installed _ _ \<Rightarrow> True | _ \<Rightarrow> False)"

definition begin_fresh :: "data_machine \<Rightarrow> image_proof \<Rightarrow> data_result" where
  "begin_fresh d im =
     (if list_ex (\<lambda>(_, st). preparing (sh_slot st)) (d_shards d) then Inl Busy
      else (let previous =
                  (case bt_get (d_shards d) (mv_shard (im_movement im)) of
                     Some st \<Rightarrow> (case sh_slot st of
                                  Retired a c \<Rightarrow> Some \<lparr>rs_activation = a, rs_cleaned = c\<rparr>
                                | _ \<Rightarrow> None)
                   | None \<Rightarrow> None)
            in Inr (RProgress (mv_id (im_movement im)) 0,
                 put_shard (mv_shard (im_movement im)) \<lparr>sh_slot = Installing im [] previous, sh_data = None\<rparr> d)))"

definition data_begin_install :: "data_machine \<Rightarrow> image_proof \<Rightarrow> data_result" where
  "data_begin_install d im =
     (if \<not> image_valid im \<or> \<not> movement_valid d (im_movement im) \<or> mv_destination (im_movement im) \<noteq> d_group d
      then Inl WrongTransfer
      else case bt_get (d_shards d) (mv_shard (im_movement im)) of
        None \<Rightarrow> begin_fresh d im
      | Some st \<Rightarrow>
          (case sh_slot st of
             Installing old bs _ \<Rightarrow>
               if old = im then Inr (RProgress (mv_id (im_movement im)) (length bs), d) else Inl WrongPhase
           | Installed inst _ \<Rightarrow> if ip_image inst = im then Inr (RInstalled inst, d) else Inl WrongPhase
           | Retired a _ \<Rightarrow>
               if mv_epoch (ap_movement a) < mv_epoch (im_movement im) then begin_fresh d im else Inl WrongPhase
           | _ \<Rightarrow> Inl WrongPhase))"

definition data_chunk :: "data_machine \<Rightarrow> transfer_id \<Rightarrow> nat \<Rightarrow> byte list \<Rightarrow> data_result" where
  "data_chunk d i offset bs =
     (if bs = [] \<or> length bs > CHUNK_BYTES then Inl InvalidInput
      else rbind (ok_or WrongTransfer (bt_get (d_shards d) (ti_shard i))) (\<lambda>st.
        case sh_slot st of
          Installing im stored previous \<Rightarrow>
            if mv_id (im_movement im) \<noteq> i then Inl WrongTransfer
            else (case checked_add offset (length bs) of
                    None \<Rightarrow> Inl ChunkOffset
                  | Some end_ \<Rightarrow>
                      if end_ > im_bytes im then Inl ChunkOffset
                      else if offset < length stored
                      then (if end_ > length stored \<or> take (length bs) (drop offset stored) \<noteq> bs then Inl PayloadMismatch
                            else Inr (RProgress i (length stored), d))
                      else if offset = length stored
                      then Inr (RProgress i (length (stored @ bs)),
                             put_shard (ti_shard i) (st\<lparr>sh_slot := Installing im (stored @ bs) previous\<rparr>) d)
                      else Inl ChunkOffset)
        | _ \<Rightarrow> Inl WrongPhase))"

definition data_reset_install :: "data_machine \<Rightarrow> image_proof \<Rightarrow> data_result" where
  "data_reset_install d im =
     rbind (ok_or WrongTransfer (bt_get (d_shards d) (mv_shard (im_movement im)))) (\<lambda>st.
       case sh_slot st of
         Installing old _ previous \<Rightarrow>
           if old \<noteq> im then Inl WrongTransfer
           else Inr (RProgress (mv_id (im_movement im)) 0,
                  put_shard (mv_shard (im_movement im)) (st\<lparr>sh_slot := Installing old [] previous\<rparr>) d)
       | _ \<Rightarrow> Inl WrongPhase)"

definition data_finish_install :: "data_format \<Rightarrow> data_machine \<Rightarrow> origin \<Rightarrow> transfer_id \<Rightarrow> data_result" where
  "data_finish_install F d og i =
     rbind (ok_or WrongTransfer (bt_get (d_shards d) (ti_shard i))) (\<lambda>st.
       case sh_slot st of
         Installed inst _ \<Rightarrow>
           if mv_id (im_movement (ip_image inst)) = i then Inr (RInstalled inst, d) else Inl WrongTransfer
       | Installing im bs previous \<Rightarrow>
           if mv_id (im_movement im) \<noteq> i \<or> length bs \<noteq> im_bytes im \<or> f_sha F bs \<noteq> im_sha256 im
           then Inl PayloadMismatch
           else (case f_parse_image F bs of
                   None \<Rightarrow> Inl PayloadMismatch
                 | Some body \<Rightarrow>
                     if si_version body \<noteq> 1 \<or> si_identity body \<noteq> im_movement im \<or> si_fence body \<noteq> im_fence im \<or>
                        si_count body \<noteq> d_count d \<or> data_retention (si_data body) \<noteq> im_retention im
                     then Inl PayloadMismatch
                     else rbind (canonical_bytes (f_image F) body MAX_TRANSFER_BYTES) (\<lambda>again.
                       if again \<noteq> bs then Inl PayloadMismatch
                       else (let inst = \<lparr>ip_image = im, ip_installed = og\<rparr>
                             in Inr (RInstalled inst,
                                  put_shard (ti_shard i) \<lparr>sh_slot = Installed inst previous, sh_data = Some (si_data body)\<rparr> d))))
       | _ \<Rightarrow> Inl WrongPhase)"

definition data_activate :: "data_machine \<Rightarrow> origin \<Rightarrow> ownership_proof \<Rightarrow> data_result" where
  "data_activate d og ow =
     (if \<not> ownership_valid ow \<or> mv_destination (op_movement ow) \<noteq> d_group d then Inl WrongTransfer
      else rbind (ok_or WrongTransfer (bt_get (d_shards d) (mv_shard (op_movement ow)))) (\<lambda>st.
        case sh_slot st of
          Active _ (Some old) \<Rightarrow> if ap_ownership old = ow then Inr (RActivated old, d) else Inl WrongTransfer
        | Installed inst _ \<Rightarrow>
            if inst \<noteq> op_installation ow then Inl WrongTransfer
            else (let a = \<lparr>ap_ownership = ow, ap_activated = og\<rparr>
                  in Inr (RActivated a,
                       put_shard (mv_shard (op_movement ow)) (st\<lparr>sh_slot := Active (mv_epoch (op_movement ow)) (Some a)\<rparr>) d))
        | _ \<Rightarrow> Inl WrongPhase))"

definition data_cleanup :: "data_machine \<Rightarrow> origin \<Rightarrow> activation_proof \<Rightarrow> data_result" where
  "data_cleanup d og a =
     (if \<not> activation_valid a \<or> mv_source (ap_movement a) \<noteq> d_group d then Inl WrongTransfer
      else rbind (ok_or WrongTransfer (bt_get (d_shards d) (mv_shard (ap_movement a)))) (\<lambda>st.
        case sh_slot st of
          Retired old cleaned \<Rightarrow>
            if old = a then Inr (RCleaned (mv_id (ap_movement a)) cleaned, d) else Inl WrongTransfer
        | Fenced im _ \<Rightarrow>
            if im \<noteq> ap_image a then Inl WrongPhase
            else Inr (RCleaned (mv_id (ap_movement a)) og,
                   put_shard (mv_shard (ap_movement a)) \<lparr>sh_slot = Retired a og, sh_data = None\<rparr> d)
        | _ \<Rightarrow> Inl WrongPhase))"

text \<open>
  The two endpoint sides of \<^verbatim>\<open>abort_transfer\<close>: the source returns to serving its previous epoch,
  the destination drops its preparation and returns to what it was before.
\<close>

definition abort_source :: "data_machine \<Rightarrow> movement \<Rightarrow> data_machine checked" where
  "abort_source d m =
     rbind (ok_or WrongPhase (bt_get (d_shards d) (mv_shard m))) (\<lambda>st.
       rbind (case sh_slot st of
                Active e _ \<Rightarrow> if e = mv_previous m then Inr st else Inl WrongPhase
              | Fenced im previous \<Rightarrow>
                  if im_movement im = m then Inr (st\<lparr>sh_slot := Active (mv_previous m) previous\<rparr>) else Inl WrongPhase
              | _ \<Rightarrow> Inl WrongPhase)
             (\<lambda>st'. if sh_data st' = None then Inl WrongPhase else Inr (put_shard (mv_shard m) st' d)))"

definition back_out :: "shard_id \<Rightarrow> retired_state option \<Rightarrow> data_machine \<Rightarrow> data_machine" where
  "back_out s previous d =
     (case previous of
        Some r \<Rightarrow> put_shard s \<lparr>sh_slot = Retired (rs_activation r) (rs_cleaned r), sh_data = None\<rparr> d
      | None \<Rightarrow> d\<lparr>d_shards := bt_remove s (d_shards d)\<rparr>)"

definition abort_destination :: "data_machine \<Rightarrow> movement \<Rightarrow> data_machine checked" where
  "abort_destination d m =
     (case bt_get (d_shards d) (mv_shard m) of
        None \<Rightarrow> Inr d
      | Some st \<Rightarrow>
          (case sh_slot st of
             Installing im _ previous \<Rightarrow>
               if im_movement im = m then Inr (back_out (mv_shard m) previous d) else Inl WrongPhase
           | Installed inst previous \<Rightarrow>
               if im_movement (ip_image inst) = m then Inr (back_out (mv_shard m) previous d) else Inl WrongPhase
           | Retired a _ \<Rightarrow> if mv_epoch (ap_movement a) < mv_epoch m then Inr d else Inl WrongPhase
           | _ \<Rightarrow> Inl WrongPhase))"

definition abort_transfer :: "data_format \<Rightarrow> data_machine \<Rightarrow> origin \<Rightarrow> abort_proof \<Rightarrow> data_result" where
  "abort_transfer F d og ab =
     (let m = ab_movement ab; key = transfer_key (mv_id m) in
      if \<not> abort_valid ab \<or> \<not> movement_valid d m \<or> d_group d \<notin> {mv_source m, mv_destination m} then Inl WrongTransfer
      else case bt_get (d_aborted d) key of
        Some r \<Rightarrow> if ar_abort r = ab then Inr (RAborted r, d) else Inl PayloadMismatch
      | None \<Rightarrow>
          if length (d_aborted d) \<ge> MAX_TRANSFERS then Inl Capacity
          else rbind (if d_group d = mv_source m then abort_source d m else abort_destination d m) (\<lambda>d'.
            let r = \<lparr>ar_abort = ab, ar_recovered = og\<rparr> in
            rbind (canonical_bytes (f_abort F) r (ABORT_RECORD_RESERVE - length key - 8)) (\<lambda>_.
              Inr (RAborted r, d'\<lparr>d_aborted := bt_insert key r (d_aborted d')\<rparr>))))"

text \<open>The transfer a command belongs to: an abort is a permanent fence against it.\<close>

fun command_transfer :: "data_command \<Rightarrow> transfer_id option" where
  "command_transfer (DFence m) = Some (mv_id m)"
| "command_transfer (DBeginInstall im) = Some (mv_id (im_movement im))"
| "command_transfer (DResetInstall im) = Some (mv_id (im_movement im))"
| "command_transfer (DChunk i _ _) = Some i"
| "command_transfer (DFinishInstall i) = Some i"
| "command_transfer (DActivate ow) = Some (mv_id (op_movement ow))"
| "command_transfer (DCleanup a) = Some (mv_id (ap_movement a))"
| "command_transfer _ = None"

definition fenced_off :: "data_machine \<Rightarrow> data_command \<Rightarrow> bool" where
  "fenced_off d cmd =
     (case command_transfer cmd of None \<Rightarrow> False | Some i \<Rightarrow> bt_contains (transfer_key i) (d_aborted d))"

fun data_dispatch :: "data_format \<Rightarrow> data_machine \<Rightarrow> nat \<Rightarrow> origin \<Rightarrow> data_command \<Rightarrow> data_result" where
  "data_dispatch F d i og (DInitialize n gs owned) = data_initialize d i n gs owned"
| "data_dispatch F d i og (DRegister s e nonce) = data_register d og s e nonce"
| "data_dispatch F d i og (DClose s e sid) = data_close d og s e sid"
| "data_dispatch F d i og (DMutate s e sid key sq v) = data_mutate F d og s e sid key sq v"
| "data_dispatch F d i og (DFence m) = data_fence F d og m"
| "data_dispatch F d i og (DBeginInstall im) = data_begin_install d im"
| "data_dispatch F d i og (DResetInstall im) = data_reset_install d im"
| "data_dispatch F d i og (DChunk t offset bs) = data_chunk d t offset bs"
| "data_dispatch F d i og (DFinishInstall t) = data_finish_install F d og t"
| "data_dispatch F d i og (DActivate ow) = data_activate d og ow"
| "data_dispatch F d i og (DCleanup a) = data_cleanup d og a"
| "data_dispatch F d i og (DAbortTransfer ab) = abort_transfer F d og ab"

definition is_initialize :: "data_command \<Rightarrow> bool" where
  "is_initialize cmd = (case cmd of DInitialize _ _ _ \<Rightarrow> True | _ \<Rightarrow> False)"

definition data_execute :: "data_format \<Rightarrow> data_machine \<Rightarrow> nat \<Rightarrow> data_command \<Rightarrow> data_result" where
  "data_execute F d i cmd =
     (if \<not> is_initialize cmd \<and> d_initialized d = None then Inl NotInitialized
      else if fenced_off d cmd then Inl Aborted
      else data_dispatch F d i \<lparr>o_group = d_group d, o_index = i\<rparr> cmd)"

section \<open>Validation\<close>

definition retired_valid :: "data_machine \<Rightarrow> shard_id \<Rightarrow> retired_state \<Rightarrow> nat \<Rightarrow> bool" where
  "retired_valid d s r bound =
     (let im = ap_image (rs_activation r) in
      activation_valid (rs_activation r) \<and> movement_valid d (im_movement im) \<and> mv_source (im_movement im) = d_group d \<and>
      mv_shard (im_movement im) = s \<and> mv_epoch (im_movement im) < bound \<and> o_group (rs_cleaned r) = d_group d \<and>
      o_index (rs_cleaned r) > o_index (im_fence im) \<and> o_index (rs_cleaned r) \<le> d_applied d)"

definition config_valid :: "data_machine \<Rightarrow> bool" where
  "config_valid d =
     (d_count d \<noteq> 0 \<and> d_count d \<le> MAX_SHARDS \<and> d_groups d \<noteq> [] \<and> length (d_groups d) \<le> MAX_GROUPS \<and>
      CONTROLLER \<notin> set (d_groups d) \<and> d_group d \<in> set (d_groups d) \<and> ascending (d_groups d) \<and>
      (case d_initialized d of
         None \<Rightarrow> True
       | Some p \<Rightarrow> o_group p = d_group d \<and> o_index p \<noteq> 0 \<and> o_index p \<le> d_applied d))"

definition tombstone_valid :: "data_format \<Rightarrow> data_machine \<Rightarrow> origin \<Rightarrow> string \<Rightarrow> abort_record \<Rightarrow> bool" where
  "tombstone_valid F d ini key r =
     (key = transfer_key (mv_id (ab_movement (ar_abort r))) \<and> abort_valid (ar_abort r) \<and>
      movement_valid d (ab_movement (ar_abort r)) \<and>
      d_group d \<in> {mv_source (ab_movement (ar_abort r)), mv_destination (ab_movement (ar_abort r))} \<and>
      o_group (ar_recovered r) = d_group d \<and> origin_valid (ar_recovered r) \<and>
      o_index (ar_recovered r) \<le> d_applied d \<and> o_index (ar_recovered r) > o_index ini \<and>
      is_ok (canonical_bytes (f_abort F) r (ABORT_RECORD_RESERVE - length key - 8)))"

fun live_transfer :: "slot \<Rightarrow> transfer_id option" where
  "live_transfer (Fenced im _) = Some (mv_id (im_movement im))"
| "live_transfer (Installing im _ _) = Some (mv_id (im_movement im))"
| "live_transfer (Installed inst _) = Some (mv_id (im_movement (ip_image inst)))"
| "live_transfer (Active _ (Some a)) = Some (mv_id (ap_movement a))"
| "live_transfer (Retired a _) = Some (mv_id (ap_movement a))"
| "live_transfer (Active _ None) = None"

text \<open>The slot checks of the validation loop, one clause per state.\<close>

definition slot_valid :: "data_machine \<Rightarrow> shard_id \<Rightarrow> slot \<Rightarrow> shard_data option \<Rightarrow> bool" where
  "slot_valid d s sl x = (case sl of
   Active e a \<Rightarrow>
     (e \<noteq> 0 \<and>
      (case a of
         None \<Rightarrow> True
       | Some p \<Rightarrow>
           activation_valid p \<and> o_group (ap_activated p) = d_group d \<and> o_index (ap_activated p) \<le> d_applied d \<and>
           mv_shard (ap_movement p) = s \<and> mv_epoch (ap_movement p) = e) \<and>
      \<not> (e > 1 \<and> a = None))
 | Fenced im previous \<Rightarrow>
     (\<not> (mv_previous (im_movement im) > 1 \<and> previous = None) \<and>
      (case previous of
         None \<Rightarrow> True
       | Some p \<Rightarrow>
           activation_valid p \<and> o_group (ap_activated p) = d_group d \<and> o_index (ap_activated p) < o_index (im_fence im) \<and>
           mv_shard (ap_movement p) = s \<and> mv_epoch (ap_movement p) = mv_previous (im_movement im)) \<and>
      image_valid im \<and> movement_valid d (im_movement im) \<and> o_group (im_fence im) = d_group d \<and>
      o_index (im_fence im) \<le> d_applied d \<and> mv_shard (im_movement im) = s)
 | Installing im bs previous \<Rightarrow>
     ((case previous of None \<Rightarrow> True | Some r \<Rightarrow> retired_valid d s r (mv_epoch (im_movement im))) \<and>
      image_valid im \<and> movement_valid d (im_movement im) \<and> mv_destination (im_movement im) = d_group d \<and>
      mv_shard (im_movement im) = s \<and> length bs \<le> im_bytes im \<and> x = None)
 | Installed inst previous \<Rightarrow>
     ((case previous of None \<Rightarrow> True | Some r \<Rightarrow> retired_valid d s r (mv_epoch (im_movement (ip_image inst)))) \<and>
      installed_valid inst \<and> movement_valid d (im_movement (ip_image inst)) \<and> o_group (ip_installed inst) = d_group d \<and>
      o_index (ip_installed inst) \<le> d_applied d \<and> mv_shard (im_movement (ip_image inst)) = s)
 | Retired a cleaned \<Rightarrow>
     (activation_valid a \<and> movement_valid d (ap_movement a) \<and> mv_source (ap_movement a) = d_group d \<and>
      mv_shard (ap_movement a) = s \<and> o_group cleaned = d_group d \<and> o_index cleaned \<le> d_applied d \<and>
      o_index cleaned > o_index (im_fence (ap_image a)) \<and> x = None))"

text \<open>The epoch a slot bounds its receipts with; none for the slots that hold no data.\<close>

fun slot_epoch :: "slot \<Rightarrow> nat option" where
  "slot_epoch (Active e _) = Some e"
| "slot_epoch (Fenced im _) = Some (mv_previous (im_movement im))"
| "slot_epoch (Installed inst _) = Some (mv_previous (im_movement (ip_image inst)))"
| "slot_epoch _ = None"

fun frozen :: "slot \<Rightarrow> image_proof option" where
  "frozen (Fenced im _) = Some im"
| "frozen (Installed inst _) = Some (ip_image inst)"
| "frozen _ = None"

definition frozen_valid :: "data_format \<Rightarrow> data_machine \<Rightarrow> image_proof \<Rightarrow> shard_data \<Rightarrow> bool" where
  "frozen_valid F d im x =
     (case canonical_bytes (f_image F) (image_body d (im_movement im) (im_fence im) x) MAX_TRANSFER_BYTES of
        Inl _ \<Rightarrow> False
      | Inr bs \<Rightarrow> length bs = im_bytes im \<and> f_sha F bs = im_sha256 im \<and> data_retention x = im_retention im)"

definition receipt_valid ::
  "data_machine \<Rightarrow> shard_id \<Rightarrow> nat \<Rightarrow> image_proof option \<Rightarrow> origin \<Rightarrow> receipt \<Rightarrow> bool" where
  "receipt_valid d s e fz sid rc =
     (origin_valid (rc_origin rc) \<and> o_group (rc_origin rc) \<in> set (d_groups d) \<and> rc_shard rc = s \<and>
      rc_epoch rc > 0 \<and> rc_epoch rc \<le> e \<and> rc_session rc = Some sid \<and>
      (o_group (rc_origin rc) \<noteq> d_group d \<or> o_index (rc_origin rc) \<le> d_applied d) \<and>
      (case fz of
         None \<Rightarrow> True
       | Some im \<Rightarrow> o_group (rc_origin rc) \<noteq> o_group (im_fence im) \<or> o_index (rc_origin rc) \<le> o_index (im_fence im)))"

definition payload_valid :: "data_format \<Rightarrow> byte list \<Rightarrow> bool" where
  "payload_valid F bs =
     (case f_parse_value F bs of
        None \<Rightarrow> False
      | Some v \<Rightarrow> \<not> too_long v \<and> canonical_bytes (f_value F) v (MAX_SHARD_VALUE_BYTES * 6 + 32) = Inr bs)"

definition cached_valid ::
  "data_format \<Rightarrow> data_machine \<Rightarrow> shard_id \<Rightarrow> nat \<Rightarrow> image_proof option \<Rightarrow> shard_session \<Rightarrow> string \<Rightarrow> cached \<Rightarrow> bool" where
  "cached_valid F d s e fz ses key c =
     (key_shard (f_sha F) key (d_count d) = Some s \<and> ca_sequence c \<noteq> 0 \<and> ca_digest c = f_sha F (ca_payload c) \<and>
      receipt_valid d s e fz (ss_id ses) (ca_receipt c) \<and> rc_sequence (ca_receipt c) = Some (ca_sequence c) \<and>
      rc_epoch (ca_receipt c) \<ge> rc_epoch (ss_registered ses) \<and>
      \<not> (o_group (rc_origin (ca_receipt c)) = o_group (rc_origin (ss_registered ses)) \<and>
         o_index (rc_origin (ca_receipt c)) \<le> o_index (rc_origin (ss_registered ses))) \<and>
      (case ss_closed ses of
         None \<Rightarrow> True
       | Some z \<Rightarrow>
           rc_epoch (ca_receipt c) \<le> rc_epoch z \<and>
           \<not> (o_group (rc_origin (ca_receipt c)) = o_group (rc_origin z) \<and>
              o_index (rc_origin (ca_receipt c)) \<ge> o_index (rc_origin z))) \<and>
      payload_valid F (ca_payload c))"

definition session_valid ::
  "data_format \<Rightarrow> data_machine \<Rightarrow> shard_id \<Rightarrow> nat \<Rightarrow> image_proof option \<Rightarrow> shard_data \<Rightarrow> string \<Rightarrow> shard_session \<Rightarrow> bool" where
  "session_valid F d s e fz x key ses =
     (key = origin_key (ss_id ses) \<and> origin_valid (ss_id ses) \<and> o_group (ss_id ses) \<in> set (d_groups d) \<and>
      ss_nonce ses \<noteq> [] \<and> length (ss_nonce ses) \<le> 128 \<and> bt_get (sd_nonces x) (ss_nonce ses) = Some (ss_id ses) \<and>
      rc_origin (ss_registered ses) = ss_id ses \<and>
      receipt_valid d s e fz (ss_id ses) (ss_registered ses) \<and> rc_sequence (ss_registered ses) = None \<and>
      (case ss_closed ses of
         None \<Rightarrow> True
       | Some z \<Rightarrow>
           receipt_valid d s e fz (ss_id ses) z \<and> rc_sequence z = None \<and>
           rc_epoch z \<ge> rc_epoch (ss_registered ses) \<and>
           \<not> (o_group (rc_origin z) = o_group (rc_origin (ss_registered ses)) \<and>
              o_index (rc_origin z) \<le> o_index (rc_origin (ss_registered ses)))) \<and>
      length (ss_keys ses) \<le> 256 \<and>
      list_all (\<lambda>(k, c). cached_valid F d s e fz ses k c) (ss_keys ses))"

definition contents_valid :: "data_format \<Rightarrow> data_machine \<Rightarrow> shard_id \<Rightarrow> nat \<Rightarrow> image_proof option \<Rightarrow> shard_data \<Rightarrow> bool" where
  "contents_valid F d s e fz x =
     ((case fz of None \<Rightarrow> True | Some im \<Rightarrow> frozen_valid F d im x) \<and>
      list_all (\<lambda>(k, v). key_shard (f_sha F) k (d_count d) = Some s \<and> \<not> too_long v) (sd_cells x) \<and>
      length (sd_nonces x) = length (sd_sessions x) \<and>
      list_all (\<lambda>(k, ses). session_valid F d s e fz x k ses) (sd_sessions x))"

definition shard_valid :: "data_format \<Rightarrow> data_machine \<Rightarrow> shard_id \<Rightarrow> shard \<Rightarrow> bool" where
  "shard_valid F d s st =
     (s < d_count d \<and>
      (case live_transfer (sh_slot st) of None \<Rightarrow> True | Some i \<Rightarrow> \<not> bt_contains (transfer_key i) (d_aborted d)) \<and>
      slot_valid d s (sh_slot st) (sh_data st) \<and>
      (case slot_epoch (sh_slot st) of
         None \<Rightarrow> True
       | Some e \<Rightarrow>
           (case sh_data st of
              None \<Rightarrow> False
            | Some x \<Rightarrow> contents_valid F d s e (frozen (sh_slot st)) x)))"

text \<open>What a shard counts towards the retention limits, and the room it reserves for later steps.\<close>

definition shard_usage :: "shard \<Rightarrow> retention" where
  "shard_usage st =
     (case sh_slot st of
        Installing im _ _ \<Rightarrow> im_retention im
      | Retired _ _ \<Rightarrow> \<lparr>rt_sessions = 0, rt_retry_keys = 0, rt_payload_bytes = 0\<rparr>
      | _ \<Rightarrow> (case sh_data st of
                None \<Rightarrow> \<lparr>rt_sessions = 0, rt_retry_keys = 0, rt_payload_bytes = 0\<rparr>
              | Some x \<Rightarrow> data_retention x))"

definition shard_reserve :: "shard \<Rightarrow> nat" where
  "shard_reserve st =
     (case sh_slot st of
        Fenced _ _ \<Rightarrow> 8192
      | Installing im bs _ \<Rightarrow> (im_bytes im - length bs) * 2 + 8192
      | Installed _ _ \<Rightarrow> 8192
      | _ \<Rightarrow> 0)"

definition reserved_bytes :: "data_machine \<Rightarrow> nat" where
  "reserved_bytes d =
     (MAX_TRANSFERS - length (d_aborted d)) * ABORT_RECORD_RESERVE +
     (length (decimal u64_max) - length (decimal (d_applied d))) +
     sum_list (map (\<lambda>(_, st). shard_reserve st) (d_shards d))"

definition usage_valid :: "data_machine \<Rightarrow> bool" where
  "usage_valid d =
     (sum_list (map (\<lambda>(_, st). rt_sessions (shard_usage st)) (d_shards d)) \<le> MAX_SHARD_SESSIONS \<and>
      sum_list (map (\<lambda>(_, st). rt_retry_keys (shard_usage st)) (d_shards d)) \<le> MAX_SHARD_RETRY_KEYS \<and>
      sum_list (map (\<lambda>(_, st). rt_payload_bytes (shard_usage st)) (d_shards d)) \<le> MAX_SHARD_PAYLOAD_BYTES \<and>
      length (filter (\<lambda>(_, st). preparing (sh_slot st)) (d_shards d)) \<le> 1)"

definition data_validate :: "data_format \<Rightarrow> data_machine \<Rightarrow> bool" where
  "data_validate F d =
     (d_group d \<noteq> CONTROLLER \<and>
      (case d_initialized d of
         None \<Rightarrow> d_count d = 0 \<and> d_groups d = [] \<and> d_shards d = [] \<and> d_aborted d = []
       | Some ini \<Rightarrow>
           config_valid d \<and> length (d_aborted d) \<le> MAX_TRANSFERS \<and>
           list_all (\<lambda>(k, r). tombstone_valid F d ini k r) (d_aborted d) \<and>
           list_all (\<lambda>(s, st). shard_valid F d s st) (d_shards d) \<and>
           usage_valid d \<and>
           is_ok (canonical_bytes (f_machine F) d (MAX_ACTOR_BYTES - (reserved_bytes d + 4096)))))"

text \<open>
  One committed command: the new state is taken only when the command succeeds and the result
  validates; otherwise just the watermark moves.
\<close>

definition data_apply :: "data_format \<Rightarrow> data_machine \<Rightarrow> nat \<Rightarrow> data_command \<Rightarrow> (data_reply checked \<times> data_machine) fallible" where
  "data_apply F d i cmd =
     (if checked_add (d_applied d) 1 \<noteq> Some i then Inl ''data application gap''
      else if register_panics d cmd then Inl ''panic: session missing''
      else Inr (case rbind (data_execute F (d\<lparr>d_applied := i\<rparr>) i cmd)
                     (\<lambda>(reply, d'). if data_validate F d' then Inr (reply, d') else Inl Capacity) of
                  Inl e \<Rightarrow> (Inl e, d\<lparr>d_applied := i\<rparr>)
                | Inr (reply, d') \<Rightarrow> (Inr reply, d')))"

end
