(* ===== verification/Shard_Machine.thy ===== *)
theory Shard_Machine
  imports Types Shard_Controller Shard_Data
begin

text \<open>
  The replicated actor of one group (\<^verbatim>\<open>shard-service/src/machine.rs\<close>) and the observations a
  checked read returns (\<^verbatim>\<open>shard-service/src/query.rs\<close>): a machine is the controller or a data
  machine, operations travel through the Raft log inside an envelope, and a query is answered
  from the applied state.  \<^verbatim>\<open>Query::Membership\<close> is answered by the group runtime, not by the
  machine, and is refused here as it is there.
\<close>

section \<open>Machines and operations\<close>

datatype machine =
    MController controller
  | MData data_machine

datatype shard_operation =
    OController controller_command
  | OData data_command

record envelope =
  env_version :: nat
  env_group :: group_id
  env_operation :: shard_operation

datatype machine_reply =
    ControllerReplied controller_reply
  | DataReplied data_reply
  | Refused shard_error
  | NoOpReplied

definition ENVELOPE_KEY :: string where
  "ENVELOPE_KEY = ''@micro-raft/shard-service/v1''"

text \<open>The printers and parsers the machines use.\<close>

record shard_format =
  x_data :: data_format
  x_controller :: controller_format
  x_envelope :: "envelope \<Rightarrow> byte list option"
  x_parse_envelope :: "string \<Rightarrow> envelope option"
  x_command :: "command \<Rightarrow> byte list option"

definition machine_new :: "group_id \<Rightarrow> machine checked" where
  "machine_new g = (if g = CONTROLLER then Inr (MController controller_default) else rbind (data_new g) (\<lambda>d. Inr (MData d)))"

fun machine_group :: "machine \<Rightarrow> group_id" where
  "machine_group (MController c) = CONTROLLER"
| "machine_group (MData d) = d_group d"

fun machine_applied :: "machine \<Rightarrow> nat" where
  "machine_applied (MController c) = c_applied c"
| "machine_applied (MData d) = d_applied d"

definition as_reply :: "('r \<Rightarrow> machine_reply) \<Rightarrow> 'r checked \<Rightarrow> machine_reply" where
  "as_reply wrap r = (case r of Inl e \<Rightarrow> Refused e | Inr x \<Rightarrow> wrap x)"

fun machine_operation :: "shard_format \<Rightarrow> machine \<Rightarrow> nat \<Rightarrow> shard_operation \<Rightarrow> (machine_reply \<times> machine) fallible" where
  "machine_operation X (MController c) i (OController cmd) =
     rbind (ctl_apply (x_controller X) c i cmd) (\<lambda>(r, c'). Inr (as_reply ControllerReplied r, MController c'))"
| "machine_operation X (MData d) i (OData cmd) =
     rbind (data_apply (x_data X) d i cmd) (\<lambda>(r, d'). Inr (as_reply DataReplied r, MData d'))"
| "machine_operation X _ i _ = Inl ''command targets a different machine kind''"

fun machine_advance :: "machine \<Rightarrow> nat \<Rightarrow> (machine_reply \<times> machine) fallible" where
  "machine_advance (MController c) i = rbind (ctl_advance c i) (\<lambda>c'. Inr (NoOpReplied, MController c'))"
| "machine_advance (MData d) i = rbind (data_advance d i) (\<lambda>d'. Inr (NoOpReplied, MData d'))"

definition machine_apply :: "shard_format \<Rightarrow> machine \<Rightarrow> nat \<Rightarrow> command \<Rightarrow> (machine_reply \<times> machine) fallible" where
  "machine_apply X m i cmd =
     (case cmd of
        NoOp \<Rightarrow> machine_advance m i
      | Configuration _ \<Rightarrow> machine_advance m i
      | Put key v \<Rightarrow>
          if key = ENVELOPE_KEY
          then (case x_parse_envelope X v of
                  None \<Rightarrow> Inl ''invalid envelope''
                | Some en \<Rightarrow>
                    if env_version en \<noteq> 1 \<or> env_group en \<noteq> machine_group m then Inl ''log envelope group/version mismatch''
                    else machine_operation X m i (env_operation en))
          else Inl ''non-shard command in shard actor log''
      | _ \<Rightarrow> Inl ''non-shard command in shard actor log'')"

fun operation_targets :: "shard_operation \<Rightarrow> group_id \<Rightarrow> bool" where
  "operation_targets (OController _) g = (g = CONTROLLER)"
| "operation_targets (OData _) g = (g \<noteq> CONTROLLER)"

definition operation_encode :: "shard_format \<Rightarrow> shard_operation \<Rightarrow> group_id \<Rightarrow> command checked" where
  "operation_encode X oper g =
     (if \<not> operation_targets oper g then Inl WrongGroup
      else rbind (canonical_bytes (x_envelope X) \<lparr>env_version = 1, env_group = g, env_operation = oper\<rparr> (512 * 1024)) (\<lambda>bs.
        let cmd = Put ENVELOPE_KEY (bytes_text bs)
        in rbind (canonical_bytes (x_command X) cmd (480 * 1024)) (\<lambda>_. Inr cmd)))"

section \<open>Queries\<close>

datatype query =
    QMaintenanceGate
  | QMaintenance string
  | QMembership "string option"
  | QConfiguration
  | QPendingTransfers
  | QAborted transfer_id
  | QRoute shard_id
  | QTransfer string
  | QShard shard_id
  | QRead shard_id nat string
  | QExport transfer_id nat

datatype shard_view =
    VUnassigned
  | VActive nat "activation_proof option"
  | VFenced image_proof
  | VInstalling image_proof nat
  | VInstalled installed_proof
  | VRetired activation_proof origin

datatype observed =
    ObMaintenanceGate "origin option" "maintenance_ticket option" bool
  | ObMaintenance "maintenance_ticket option"
  | ObConfiguration group_id "origin option" "group_id list" nat bool
  | ObRoute route "transfer option"
  | ObTransfer "transfer option"
  | ObPendingTransfers "transfer list"
  | ObAborted group_id "abort_record option"
  | ObShard group_id shard_id shard_view
  | ObValue group_id shard_id nat string "string option"
  | ObExport image_proof nat "byte list"

fun slot_view :: "slot \<Rightarrow> shard_view" where
  "slot_view (Active e a) = VActive e a"
| "slot_view (Fenced im _) = VFenced im"
| "slot_view (Installing im bs _) = VInstalling im (length bs)"
| "slot_view (Installed inst _) = VInstalled inst"
| "slot_view (Retired a cleaned) = VRetired a cleaned"

definition controller_query :: "controller \<Rightarrow> query \<Rightarrow> observed checked" where
  "controller_query c q =
     (case q of
        QMaintenanceGate \<Rightarrow> Inr (ObMaintenanceGate (maintenance_generation c) (active_maintenance c) (pending_transfer c))
      | QMaintenance rq \<Rightarrow>
          if \<not> maintenance_request_id_valid rq then Inl InvalidInput else Inr (ObMaintenance (bt_get (c_maintenance c) rq))
      | QConfiguration \<Rightarrow>
          Inr (ObConfiguration CONTROLLER (c_initialized c) (c_groups c) (length (c_routes c))
                 (c_transfers c = [] \<and> c_maintenance c = []))
      | QPendingTransfers \<Rightarrow> Inr (ObPendingTransfers (filter (\<lambda>t. \<not> transfer_complete t) (map snd (c_transfers c))))
      | QRoute s \<Rightarrow>
          rbind (ok_or InvalidInput (route_at c s)) (\<lambda>r.
            Inr (ObRoute r (Option.bind (ro_transfer r) (\<lambda>i. map_option snd (find_transfer c i)))))
      | QTransfer rq \<Rightarrow> if length rq > 128 then Inl InvalidInput else Inr (ObTransfer (bt_get (c_transfers c) rq))
      | _ \<Rightarrow> Inl WrongGroup)"

definition data_query :: "data_format \<Rightarrow> data_machine \<Rightarrow> query \<Rightarrow> observed checked" where
  "data_query F d q =
     (case q of
        QConfiguration \<Rightarrow>
          Inr (ObConfiguration (d_group d) (d_initialized d) (d_groups d) (d_count d) (d_initialized d = None))
      | QAborted i \<Rightarrow>
          if \<not> transfer_id_valid i then Inl InvalidInput
          else Inr (ObAborted (d_group d) (bt_get (d_aborted d) (transfer_key i)))
      | QShard s \<Rightarrow>
          if s \<ge> d_count d then Inl InvalidInput
          else Inr (ObShard (d_group d) s
                 (case bt_get (d_shards d) s of None \<Rightarrow> VUnassigned | Some st \<Rightarrow> slot_view (sh_slot st)))
      | QRead s e key \<Rightarrow> rbind (data_read F d s e key) (\<lambda>v. Inr (ObValue (d_group d) s e key v))
      | QExport i offset \<Rightarrow> rbind (data_export F d i offset) (\<lambda>(im, bs). Inr (ObExport im offset bs))
      | _ \<Rightarrow> Inl WrongGroup)"

fun machine_query :: "shard_format \<Rightarrow> machine \<Rightarrow> query \<Rightarrow> observed checked" where
  "machine_query X (MController c) q = controller_query c q"
| "machine_query X (MData d) q = data_query (x_data X) d q"

end
