(* ===== verification/Shard_Service.thy ===== *)
theory Shard_Service
  imports Shard_Machine
begin

text \<open>
  The checked intents of \<^verbatim>\<open>shard-service/src/service.rs\<close>: a caller names an action, and the service
  turns it into an operation of the addressed group only after checked reads of the controller
  and of the endpoints.  Callers provide decisions, never proofs.  A checked read may fail; its
  answer is the applied state of the group at some moment of the read.  \<open>service_env\<close> holds
  what the service asks: the checked reads, the membership view of a group runtime and the
  endpoint validation of the route registry.
\<close>

datatype response =
    Rejected shard_error
  | UnavailableBecause string
  | NotLeader "node_id option"
  | UnknownOutcome

datatype handoff_step =
    SFence | SRecordFence | SBeginInstall | SPullChunk | SFinishInstall | SRecordInstalled | SOwn | SActivate
  | SRecordActivated | SCleanup | SRecordCleanup | SComplete | SAbort | SAbortSource | SAbortDestination
  | SRecordSourceAbort | SRecordDestinationAbort

datatype action =
    ABeginMaintenance string group_id admin_operation
  | AApplyMaintenance string
  | AReconcileMaintenance string
  | ABootstrap
  | ARegister shard_id nat string
  | AClose shard_id nat origin
  | AMutate shard_id nat origin string nat "string option"
  | ABeginMove string shard_id nat group_id
  | AAdvance string handoff_step

record topology =
  t_groups :: "group_id list"
  t_owners :: "group_id list"

record service_env =
  e_checked :: "group_id \<Rightarrow> query \<Rightarrow> response + observed"
  e_members :: "group_id \<Rightarrow> response + membership_state"
  e_endpoints :: "group_id \<Rightarrow> admin_operation \<Rightarrow> membership_state \<Rightarrow> response + unit"

type_synonym prepared = "response + shard_operation"

definition data_op :: "group_id \<Rightarrow> data_command \<Rightarrow> prepared" where
  "data_op g cmd = (if g = CONTROLLER then Inl (Rejected WrongGroup) else Inr (OData cmd))"

definition control_op :: "group_id \<Rightarrow> controller_command \<Rightarrow> prepared" where
  "control_op g cmd = (if g \<noteq> CONTROLLER then Inl (Rejected WrongGroup) else Inr (OController cmd))"

definition service_transfer :: "service_env \<Rightarrow> string \<Rightarrow> response + transfer" where
  "service_transfer v rq =
     rbind (e_checked v CONTROLLER (QTransfer rq)) (\<lambda>x.
       case x of ObTransfer (Some t) \<Rightarrow> Inr t | _ \<Rightarrow> Inl (Rejected WrongTransfer))"

definition service_shard :: "service_env \<Rightarrow> group_id \<Rightarrow> shard_id \<Rightarrow> response + shard_view" where
  "service_shard v g s =
     rbind (e_checked v g (QShard s)) (\<lambda>x.
       case x of
         ObShard g' s' view \<Rightarrow>
           if g' = g \<and> s' = s then Inr view else Inl (UnavailableBecause ''checked shard identity mismatch'')
       | _ \<Rightarrow> Inl (UnavailableBecause ''checked shard identity mismatch''))"

definition prepare_begin_maintenance ::
  "topology \<Rightarrow> service_env \<Rightarrow> group_id \<Rightarrow> string \<Rightarrow> group_id \<Rightarrow> admin_operation \<Rightarrow> prepared" where
  "prepare_begin_maintenance T v g rq target oper =
     (if g \<noteq> CONTROLLER \<or> target \<notin> set (CONTROLLER # t_groups T) then Inl (Rejected WrongGroup)
      else rbind (e_checked v CONTROLLER (QMaintenance rq)) (\<lambda>x.
        case x of
          ObMaintenance (Some t) \<Rightarrow> control_op g (CAcquireMaintenance rq target oper (mt_previous t))
        | _ \<Rightarrow>
            rbind (e_checked v CONTROLLER QMaintenanceGate) (\<lambda>y.
            rbind (case y of
                     ObMaintenanceGate generation act handoff \<Rightarrow>
                       if act = None \<and> \<not> handoff then Inr generation else Inl (Rejected Busy)
                   | _ \<Rightarrow> Inl (UnavailableBecause ''invalid checked maintenance gate'')) (\<lambda>generation.
            rbind (e_members v target) (\<lambda>members.
            rbind (case first_phase members ''l7-maintenance-preflight'' oper of
                     Inl e \<Rightarrow> Inl (UnavailableBecause e) | Inr _ \<Rightarrow> Inr ()) (\<lambda>_.
            rbind (e_endpoints v target oper members) (\<lambda>_.
              control_op g (CAcquireMaintenance rq target oper generation))))))))"

definition owned_shards :: "topology \<Rightarrow> group_id \<Rightarrow> shard_id list" where
  "owned_shards T g = map fst (filter (\<lambda>(_, w). w = g) (enumerate 0 (t_owners T)))"

definition prepare_bootstrap :: "topology \<Rightarrow> service_env \<Rightarrow> group_id \<Rightarrow> prepared" where
  "prepare_bootstrap T v g =
     (if g = CONTROLLER then control_op g (CInitialize (t_groups T) (t_owners T))
      else rbind (e_checked v CONTROLLER QConfiguration) (\<lambda>x.
        case x of
          ObConfiguration _ (Some _) gs n True \<Rightarrow>
            if gs = t_groups T \<and> n = length (t_owners T)
            then data_op g (DInitialize (length (t_owners T)) (t_groups T) (owned_shards T g))
            else Inl (UnavailableBecause ''controller cannot authorize fresh data bootstrap'')
        | _ \<Rightarrow> Inl (UnavailableBecause ''controller cannot authorize fresh data bootstrap'')))"

definition endpoint_ready :: "topology \<Rightarrow> service_env \<Rightarrow> group_id \<Rightarrow> response + unit" where
  "endpoint_ready T v g =
     rbind (e_checked v g QConfiguration) (\<lambda>x.
       case x of
         ObConfiguration g' (Some _) gs n _ \<Rightarrow>
           if g' = g \<and> gs = t_groups T \<and> n = length (t_owners T) then Inr ()
           else Inl (UnavailableBecause ''both data groups must be initialized before beginning a move'')
       | _ \<Rightarrow> Inl (UnavailableBecause ''both data groups must be initialized before beginning a move''))"

definition prepare_begin_move ::
  "topology \<Rightarrow> service_env \<Rightarrow> group_id \<Rightarrow> string \<Rightarrow> shard_id \<Rightarrow> nat \<Rightarrow> group_id \<Rightarrow> prepared" where
  "prepare_begin_move T v g rq s e destination =
     (if g \<noteq> CONTROLLER then Inl (Rejected WrongGroup)
      else rbind (e_checked v CONTROLLER (QTransfer rq)) (\<lambda>x.
        case x of
          ObTransfer (Some _) \<Rightarrow> control_op g (CBegin rq s e destination)
        | _ \<Rightarrow>
            rbind (e_checked v CONTROLLER QMaintenanceGate) (\<lambda>y.
            rbind (case y of
                     ObMaintenanceGate _ act _ \<Rightarrow> if act = None then Inr () else Inl (Rejected Busy)
                   | _ \<Rightarrow> Inl (UnavailableBecause ''invalid checked maintenance gate'')) (\<lambda>_.
            rbind (e_checked v CONTROLLER (QRoute s)) (\<lambda>z.
            rbind (case z of
                     ObRoute r _ \<Rightarrow> if ro_epoch r = e then Inr r else Inl (Rejected StaleRoute)
                   | _ \<Rightarrow> Inl (Rejected StaleRoute)) (\<lambda>r.
            rbind (endpoint_ready T v (ro_owner r)) (\<lambda>_.
            rbind (endpoint_ready T v destination) (\<lambda>_.
              control_op g (CBegin rq s e destination)))))))))"

text \<open>The group that executes a step of a transfer.\<close>

fun step_group :: "movement \<Rightarrow> handoff_step \<Rightarrow> group_id" where
  "step_group m SFence = mv_source m"
| "step_group m SCleanup = mv_source m"
| "step_group m SAbortSource = mv_source m"
| "step_group m SBeginInstall = mv_destination m"
| "step_group m SPullChunk = mv_destination m"
| "step_group m SFinishInstall = mv_destination m"
| "step_group m SActivate = mv_destination m"
| "step_group m SAbortDestination = mv_destination m"
| "step_group m _ = CONTROLLER"

definition expect_view :: "service_env \<Rightarrow> group_id \<Rightarrow> shard_id \<Rightarrow> shard_view \<Rightarrow> prepared \<Rightarrow> prepared" where
  "expect_view v g s view go =
     rbind (service_shard v g s) (\<lambda>x. if x \<noteq> view then Inl (Rejected WrongTransfer) else go)"

definition prepare_record_fence :: "service_env \<Rightarrow> group_id \<Rightarrow> movement \<Rightarrow> prepared" where
  "prepare_record_fence v g m =
     rbind (service_shard v (mv_source m) (mv_shard m)) (\<lambda>x.
       case x of
         VFenced im \<Rightarrow> if im_movement im \<noteq> m then Inl (Rejected WrongTransfer) else control_op g (CFenced im)
       | _ \<Rightarrow> Inl (Rejected WrongPhase))"

definition prepare_pull_chunk :: "service_env \<Rightarrow> group_id \<Rightarrow> movement \<Rightarrow> image_proof \<Rightarrow> prepared" where
  "prepare_pull_chunk v g m im =
     rbind (service_shard v (mv_destination m) (mv_shard m)) (\<lambda>x.
       case x of
         VInstalling target next \<Rightarrow>
           if target \<noteq> im \<or> next \<ge> im_bytes im then Inl (Rejected WrongTransfer)
           else rbind (e_checked v (mv_source m) (QExport (mv_id m) next)) (\<lambda>y.
             case y of
               ObExport source offset bs \<Rightarrow>
                 if source = im \<and> offset = next \<and> bs \<noteq> [] \<and> length bs \<le> CHUNK_BYTES
                 then data_op g (DChunk (mv_id m) offset bs) else Inl (Rejected WrongTransfer)
             | _ \<Rightarrow> Inl (Rejected WrongTransfer))
       | _ \<Rightarrow> Inl (Rejected WrongPhase))"

definition prepare_record_installed :: "service_env \<Rightarrow> group_id \<Rightarrow> movement \<Rightarrow> image_proof \<Rightarrow> prepared" where
  "prepare_record_installed v g m im =
     rbind (service_shard v (mv_destination m) (mv_shard m)) (\<lambda>x.
       case x of
         VInstalled inst \<Rightarrow> if ip_image inst \<noteq> im then Inl (Rejected WrongTransfer) else control_op g (CInstalled inst)
       | _ \<Rightarrow> Inl (Rejected WrongPhase))"

definition prepare_record_activated :: "service_env \<Rightarrow> group_id \<Rightarrow> movement \<Rightarrow> ownership_proof \<Rightarrow> prepared" where
  "prepare_record_activated v g m ow =
     rbind (service_shard v (mv_destination m) (mv_shard m)) (\<lambda>x.
       case x of
         VActive e (Some a) \<Rightarrow>
           if e \<noteq> mv_epoch m \<or> ap_ownership a \<noteq> ow then Inl (Rejected WrongTransfer) else control_op g (CActivated a)
       | _ \<Rightarrow> Inl (Rejected WrongPhase))"

definition prepare_record_cleanup :: "service_env \<Rightarrow> group_id \<Rightarrow> movement \<Rightarrow> activation_proof \<Rightarrow> prepared" where
  "prepare_record_cleanup v g m a =
     rbind (service_shard v (mv_source m) (mv_shard m)) (\<lambda>x.
       case x of
         VRetired source cleaned \<Rightarrow>
           if source \<noteq> a then Inl (Rejected WrongTransfer) else control_op g (CCleaned (mv_id m) cleaned)
       | _ \<Rightarrow> Inl (Rejected WrongPhase))"

definition prepare_record_abort :: "service_env \<Rightarrow> group_id \<Rightarrow> movement \<Rightarrow> group_id \<Rightarrow> abort_proof \<Rightarrow> prepared" where
  "prepare_record_abort v g m endpoint ab =
     rbind (e_checked v endpoint (QAborted (mv_id m))) (\<lambda>x.
       case x of
         ObAborted actual (Some r) \<Rightarrow>
           if actual = endpoint \<and> ar_abort r = ab then control_op g (CEndpointAborted ab (ar_recovered r))
           else Inl (Rejected WrongTransfer)
       | _ \<Rightarrow> Inl (Rejected WrongTransfer))"

definition advance_step :: "service_env \<Rightarrow> group_id \<Rightarrow> transfer \<Rightarrow> handoff_step \<Rightarrow> prepared" where
  "advance_step v g t step =
     (let m = tr_movement t; s = mv_shard m in
      case (step, tr_phase t) of
        (SFence, PStarted) \<Rightarrow> data_op g (DFence m)
      | (SRecordFence, PStarted) \<Rightarrow> prepare_record_fence v g m
      | (SBeginInstall, PFenced im) \<Rightarrow> expect_view v (mv_source m) s (VFenced im) (data_op g (DBeginInstall im))
      | (SPullChunk, PFenced im) \<Rightarrow> prepare_pull_chunk v g m im
      | (SFinishInstall, PFenced im) \<Rightarrow> expect_view v (mv_source m) s (VFenced im) (data_op g (DFinishInstall (mv_id m)))
      | (SRecordInstalled, PFenced im) \<Rightarrow> prepare_record_installed v g m im
      | (SOwn, PInstalled inst) \<Rightarrow> expect_view v (mv_destination m) s (VInstalled inst) (control_op g (COwn (mv_id m)))
      | (SActivate, POwned ow) \<Rightarrow> data_op g (DActivate ow)
      | (SRecordActivated, POwned ow) \<Rightarrow> prepare_record_activated v g m ow
      | (SCleanup, PActivated a) \<Rightarrow>
          expect_view v (mv_destination m) s (VActive (mv_epoch m) (Some a)) (data_op g (DCleanup a))
      | (SRecordCleanup, PActivated a) \<Rightarrow> prepare_record_cleanup v g m a
      | (SComplete, PCleaned a cleaned) \<Rightarrow>
          expect_view v (mv_source m) s (VRetired a cleaned)
            (expect_view v (mv_destination m) s (VActive (mv_epoch m) (Some a)) (control_op g (CComplete (mv_id m))))
      | (SAbort, PStarted) \<Rightarrow> control_op g (CAbort (mv_id m))
      | (SAbort, PFenced _) \<Rightarrow> control_op g (CAbort (mv_id m))
      | (SAbort, PInstalled _) \<Rightarrow> control_op g (CAbort (mv_id m))
      | (SAbortSource, PAborted ab _ _ _) \<Rightarrow> data_op g (DAbortTransfer ab)
      | (SAbortDestination, PAborted ab _ _ _) \<Rightarrow> data_op g (DAbortTransfer ab)
      | (SRecordSourceAbort, PAborted ab _ _ _) \<Rightarrow> prepare_record_abort v g m (mv_source m) ab
      | (SRecordDestinationAbort, PAborted ab _ _ _) \<Rightarrow> prepare_record_abort v g m (mv_destination m) ab
      | _ \<Rightarrow> Inl (Rejected WrongPhase))"

definition prepare_advance :: "service_env \<Rightarrow> group_id \<Rightarrow> string \<Rightarrow> handoff_step \<Rightarrow> prepared" where
  "prepare_advance v g rq step =
     rbind (service_transfer v rq) (\<lambda>t.
       if g \<noteq> step_group (tr_movement t) step then Inl (Rejected WrongGroup) else advance_step v g t step)"

definition service_prepare :: "topology \<Rightarrow> service_env \<Rightarrow> group_id \<Rightarrow> action \<Rightarrow> prepared" where
  "service_prepare T v g act =
     (case act of
        ABeginMaintenance rq target oper \<Rightarrow> prepare_begin_maintenance T v g rq target oper
      | AApplyMaintenance _ \<Rightarrow> Inl (Rejected WrongGroup)
      | AReconcileMaintenance _ \<Rightarrow> Inl (Rejected WrongGroup)
      | ABootstrap \<Rightarrow> prepare_bootstrap T v g
      | ARegister s e nonce \<Rightarrow> data_op g (DRegister s e nonce)
      | AClose s e sid \<Rightarrow> data_op g (DClose s e sid)
      | AMutate s e sid key sq x \<Rightarrow> data_op g (DMutate s e sid key sq x)
      | ABeginMove rq s e destination \<Rightarrow> prepare_begin_move T v g rq s e destination
      | AAdvance rq step \<Rightarrow> prepare_advance v g rq step)"

text \<open>
  The coordinator's choice: the step a pending transfer needs next, from its phase and what the
  endpoints have already done.
\<close>

definition abort_choice :: "service_env \<Rightarrow> movement \<Rightarrow> abort_proof \<Rightarrow> origin option \<Rightarrow> origin option \<Rightarrow> response + (group_id \<times> handoff_step)" where
  "abort_choice v m ab src dst =
     rbind (if src = None then Inr (mv_source m, SAbortSource, SRecordSourceAbort)
            else if dst = None then Inr (mv_destination m, SAbortDestination, SRecordDestinationAbort)
            else Inl (UnavailableBecause ''terminal abort unexpectedly pending'')) (\<lambda>(endpoint, go, record_it).
     rbind (e_checked v endpoint (QAborted (mv_id m))) (\<lambda>x.
       Inr (case x of
              ObAborted g (Some r) \<Rightarrow> if g = endpoint \<and> ar_abort r = ab then (CONTROLLER, record_it) else (endpoint, go)
            | _ \<Rightarrow> (endpoint, go))))"

definition reconcile_choice :: "service_env \<Rightarrow> transfer \<Rightarrow> response + (group_id \<times> handoff_step)" where
  "reconcile_choice v t =
     (let m = tr_movement t; s = mv_shard m in
      case tr_phase t of
        PStarted \<Rightarrow>
          rbind (service_shard v (mv_source m) s) (\<lambda>x. Inr (case x of
            VFenced im \<Rightarrow> if im_movement im = m then (CONTROLLER, SRecordFence) else (mv_source m, SFence)
          | _ \<Rightarrow> (mv_source m, SFence)))
      | PFenced im \<Rightarrow>
          rbind (service_shard v (mv_destination m) s) (\<lambda>x. Inr (case x of
            VInstalling target next \<Rightarrow>
              if target = im then (mv_destination m, if next = im_bytes im then SFinishInstall else SPullChunk)
              else (mv_destination m, SBeginInstall)
          | VInstalled inst \<Rightarrow> if ip_image inst = im then (CONTROLLER, SRecordInstalled) else (mv_destination m, SBeginInstall)
          | _ \<Rightarrow> (mv_destination m, SBeginInstall)))
      | PInstalled _ \<Rightarrow> Inr (CONTROLLER, SOwn)
      | POwned ow \<Rightarrow>
          rbind (service_shard v (mv_destination m) s) (\<lambda>x. Inr (case x of
            VActive _ (Some a) \<Rightarrow> if ap_ownership a = ow then (CONTROLLER, SRecordActivated) else (mv_destination m, SActivate)
          | _ \<Rightarrow> (mv_destination m, SActivate)))
      | PActivated a \<Rightarrow>
          rbind (service_shard v (mv_source m) s) (\<lambda>x. Inr (case x of
            VRetired a' _ \<Rightarrow> if a' = a then (CONTROLLER, SRecordCleanup) else (mv_source m, SCleanup)
          | _ \<Rightarrow> (mv_source m, SCleanup)))
      | PCleaned _ _ \<Rightarrow> Inr (CONTROLLER, SComplete)
      | PAborted ab _ src dst \<Rightarrow> abort_choice v m ab src dst
      | PComplete _ _ _ \<Rightarrow> Inl (UnavailableBecause ''completed transfer unexpectedly pending''))"

end
