(* ===== verification/Shard_Moves.thy ===== *)
theory Shard_Moves
  imports Shard_Service
begin

text \<open>
  What the committed commands of the shard service do, reduced to what ownership depends on: how
  the slot of a shard moves in a data machine, when a tombstone appears, and how routes and
  transfer phases move in the controller.  The relations are inductive, one rule per kind of
  change, and every successful command is shown to be one of them or to leave everything alone.
\<close>

section \<open>Slots of a data machine\<close>

definition slot_at :: "data_machine \<Rightarrow> shard_id \<Rightarrow> slot option" where
  "slot_at d s = map_option sh_slot (bt_get (d_shards d) s)"

definition before_install :: "retired_state option \<Rightarrow> slot option" where
  "before_install previous = map_option (\<lambda>r. Retired (rs_activation r) (rs_cleaned r)) previous"

inductive slot_moves :: "data_machine \<Rightarrow> data_command \<Rightarrow> shard_id \<Rightarrow> slot option \<Rightarrow> slot option \<Rightarrow> bool" where
  move_initialize:
    "d_initialized d = None \<Longrightarrow> s \<in> set owned \<Longrightarrow> slot_moves d (DInitialize n gs owned) s old (Some (Active 1 None))"
| move_fence:
    "movement_ok m \<Longrightarrow> mv_source m = d_group d \<Longrightarrow> im_movement im = m \<Longrightarrow>
     slot_moves d (DFence m) (mv_shard m) (Some (Active (mv_previous m) a)) (Some (Fenced im a))"
| move_begin:
    "image_valid im \<Longrightarrow> mv_destination (im_movement im) = d_group d \<Longrightarrow>
     (\<And>r. previous = Some r \<Longrightarrow> mv_epoch (ap_movement (rs_activation r)) < mv_epoch (im_movement im)) \<Longrightarrow>
     slot_moves d (DBeginInstall im) (mv_shard (im_movement im)) (before_install previous) (Some (Installing im [] previous))"
| move_chunk:
    "slot_moves d (DChunk i offset bs) (ti_shard i) (Some (Installing im old previous)) (Some (Installing im new previous))"
| move_reset:
    "slot_moves d (DResetInstall im') (mv_shard (im_movement im')) (Some (Installing im old previous)) (Some (Installing im [] previous))"
| move_finish:
    "ip_image inst = im \<Longrightarrow>
     slot_moves d (DFinishInstall i) (ti_shard i) (Some (Installing im bs previous)) (Some (Installed inst previous))"
| move_activate:
    "ownership_valid ow \<Longrightarrow> mv_destination (op_movement ow) = d_group d \<Longrightarrow>
     slot_moves d (DActivate ow) (mv_shard (op_movement ow)) (Some (Installed (op_installation ow) previous))
       (Some (Active (mv_epoch (op_movement ow)) (Some a)))"
| move_cleanup:
    "activation_valid a \<Longrightarrow> mv_source (ap_movement a) = d_group d \<Longrightarrow>
     slot_moves d (DCleanup a) (mv_shard (ap_movement a)) (Some (Fenced (ap_image a) previous)) (Some (Retired a cleaned))"
| move_abort_source:
    "im_movement im = ab_movement ab \<Longrightarrow> mv_source (ab_movement ab) = d_group d \<Longrightarrow>
     slot_moves d (DAbortTransfer ab) (mv_shard (ab_movement ab)) (Some (Fenced im previous))
       (Some (Active (mv_previous (ab_movement ab)) previous))"
| move_abort_installing:
    "im_movement im = ab_movement ab \<Longrightarrow>
     slot_moves d (DAbortTransfer ab) (mv_shard (ab_movement ab)) (Some (Installing im bs previous)) (before_install previous)"
| move_abort_installed:
    "im_movement (ip_image inst) = ab_movement ab \<Longrightarrow>
     slot_moves d (DAbortTransfer ab) (mv_shard (ab_movement ab)) (Some (Installed inst previous)) (before_install previous)"

lemma slot_at_put_shard [simp]:
  "slot_at (put_shard s st d) s' = (if s' = s then Some (sh_slot st) else slot_at d s')"
  by (simp add: slot_at_def put_shard_def bt_get_insert)

lemma slot_at_put_data [simp]: "slot_at (put_data s x d) s' = slot_at d s'"
  by (auto simp: slot_at_def put_data_def put_shard_def bt_get_insert split: option.splits)

lemma put_fields [simp]:
  "d_group (put_shard s st d) = d_group d" "d_group (put_data s x d) = d_group d"
  "d_initialized (put_shard s st d) = d_initialized d" "d_initialized (put_data s x d) = d_initialized d"
  "d_aborted (put_shard s st d) = d_aborted d" "d_aborted (put_data s x d) = d_aborted d"
  "d_applied (put_shard s st d) = d_applied d" "d_applied (put_data s x d) = d_applied d"
  "d_count (put_shard s st d) = d_count d" "d_count (put_data s x d) = d_count d"
  "d_groups (put_shard s st d) = d_groups d" "d_groups (put_data s x d) = d_groups d"
  by (simp_all add: put_shard_def put_data_def split: option.splits)

lemma slot_at_applied [simp]: "slot_at (d\<lparr>d_applied := i\<rparr>) s = slot_at d s"
  by (simp add: slot_at_def)

lemma slot_at_aborted [simp]: "slot_at (d\<lparr>d_aborted := x\<rparr>) s = slot_at d s"
  by (simp add: slot_at_def)

lemma bt_get_fold_insert:
  "bt_get (fold (\<lambda>s m. bt_insert s v m) ks m) k = (if k \<in> set ks then Some v else bt_get m k)"
  by (induction ks arbitrary: m) (auto simp: bt_get_insert)

lemma data_active_slot:
  assumes "data_active d s e = Inr x"
  shows "\<exists>a. slot_at d s = Some (Active e a)"
proof -
  from assms obtain st where "bt_get (d_shards d) s = Some st"
    by (auto simp: data_active_def rbind_Inr_iff)
  then show ?thesis
    using assms by (cases "sh_slot st") (auto simp: data_active_def slot_at_def split: if_splits)
qed

text \<open>
  Each handler in turn: the slots move by the rules, nothing else of the ownership state changes.
  \<open>slots_kept\<close> says that the commands of clients move no slot.
\<close>

definition slots_follow :: "data_machine \<Rightarrow> data_command \<Rightarrow> data_machine \<Rightarrow> bool" where
  "slots_follow d cmd d' \<longleftrightarrow>
     d_group d' = d_group d \<and> (\<forall>s. slot_at d' s = slot_at d s \<or> slot_moves d cmd s (slot_at d s) (slot_at d' s))"

lemma follow_initialize:
  "data_initialize d i n gs owned = Inr (r, d') \<Longrightarrow>
     slots_follow d (DInitialize n gs owned) d' \<and> d_aborted d' = d_aborted d \<and> d_initialized d = None \<and> d_initialized d' \<noteq> None"
  using move_initialize [of d _ owned n gs]
  by (auto simp: data_initialize_def slots_follow_def slot_at_def bt_get_fold_insert active_one_def Let_def
      split: if_splits)

lemma follow_clients:
  "data_register d og s e nonce = Inr (r, d') \<Longrightarrow> slots_follow d cmd d'"
  "data_close d og s e sid = Inr (r, d') \<Longrightarrow> slots_follow d cmd d'"
  "data_mutate F d og s e sid key sq v = Inr (r, d') \<Longrightarrow> slots_follow d cmd d'"
  by (auto simp: data_register_def data_close_def data_mutate_def slots_follow_def rbind_Inr_iff Let_def
      split: if_splits option.splits)

lemma follow_fence:
  assumes "data_fence F d og m = Inr (r, d')"
  shows "slots_follow d (DFence m) d'"
proof -
  from assms obtain st where m: "movement_ok m" "mv_source m = d_group d" and st: "bt_get (d_shards d) (mv_shard m) = Some st"
    by (auto simp: data_fence_def movement_valid_def rbind_Inr_iff split: if_splits)
  let ?im = "\<lambda>x bs. \<lparr>im_movement = m, im_fence = og, im_bytes = length bs, im_sha256 = f_sha F bs,
    im_retention = data_retention x\<rparr>"
  let ?go = "rbind (data_active d (mv_shard m) (mv_previous m)) (\<lambda>x.
    rbind (canonical_bytes (f_image F) (image_body d m og x) MAX_TRANSFER_BYTES) (\<lambda>bs.
      Inr (RFenced (?im x bs),
        put_shard (mv_shard m) (st\<lparr>sh_slot := Fenced (?im x bs) (case sh_slot st of Active _ a \<Rightarrow> a | _ \<Rightarrow> None)\<rparr>) d)))"
  have "d' = d \<or> ?go = Inr (r, d')"
    using assms st by (cases "sh_slot st") (simp_all add: data_fence_def Let_def split: if_splits)
  then consider "d' = d"
    | x bs where "data_active d (mv_shard m) (mv_previous m) = Inr x"
      and "d' = put_shard (mv_shard m) (st\<lparr>sh_slot := Fenced (?im x bs) (case sh_slot st of Active _ a \<Rightarrow> a | _ \<Rightarrow> None)\<rparr>) d"
    unfolding rbind_Inr_iff by blast
  then show ?thesis
  proof cases
    case (2 x bs)
    from data_active_slot [OF 2(1)] st obtain a where a: "sh_slot st = Active (mv_previous m) a"
      by (auto simp: slot_at_def)
    then have "slot_at d (mv_shard m) = Some (Active (mv_previous m) a)"
      using st by (simp add: slot_at_def)
    then show ?thesis
      using move_fence [OF m, of "?im x bs" a] a by (simp add: slots_follow_def 2(2))
  qed (simp add: slots_follow_def)
qed

lemma follow_begin:
  assumes "data_begin_install d im = Inr (r, d')"
  shows "slots_follow d (DBeginInstall im) d'"
proof -
  let ?s = "mv_shard (im_movement im)"
  have v: "image_valid im" "mv_destination (im_movement im) = d_group d"
    using assms by (auto simp: data_begin_install_def split: if_splits)
  let ?put = "\<lambda>previous. put_shard ?s \<lparr>sh_slot = Installing im [] previous, sh_data = None\<rparr> d"
  have "d' = d \<or> slot_at d ?s = None \<and> d' = ?put None \<or>
      (\<exists>a z. slot_at d ?s = Some (Retired a z) \<and> mv_epoch (ap_movement a) < mv_epoch (im_movement im) \<and>
        d' = ?put (Some \<lparr>rs_activation = a, rs_cleaned = z\<rparr>))"
    using assms
    by (auto simp: data_begin_install_def begin_fresh_def slot_at_def Let_def split: if_splits option.splits slot.splits)
  note cases = this
  have put: "slots_follow d (DBeginInstall im) (?put previous)"
    if "slot_at d ?s = before_install previous"
      "\<And>r. previous = Some r \<Longrightarrow> mv_epoch (ap_movement (rs_activation r)) < mv_epoch (im_movement im)" for previous
    using move_begin [OF v that(2)] that(1) by (simp add: slots_follow_def)
  from cases show ?thesis
  proof (elim disjE conjE exE)
    fix a z
    assume "slot_at d ?s = Some (Retired a z)" "mv_epoch (ap_movement a) < mv_epoch (im_movement im)"
      "d' = ?put (Some \<lparr>rs_activation = a, rs_cleaned = z\<rparr>)"
    then show ?thesis
      using put [of "Some \<lparr>rs_activation = a, rs_cleaned = z\<rparr>"] by (simp add: before_install_def)
  qed (use put [of None] in \<open>simp_all add: slots_follow_def [of d _ d] before_install_def\<close>)
qed

lemma follow_chunk:
  assumes "data_chunk d i offset bs = Inr (r, d')"
  shows "slots_follow d (DChunk i offset bs) d'"
proof -
  obtain st where st: "bt_get (d_shards d) (ti_shard i) = Some st"
    using assms by (auto simp: data_chunk_def rbind_Inr_iff split: if_splits)
  show ?thesis
    using assms st
    by (cases "sh_slot st") (auto simp: data_chunk_def slots_follow_def move_chunk slot_at_def put_shard_def bt_get_insert rbind_Inr_iff Let_def
        split: if_splits option.splits)
qed

lemma follow_reset:
  assumes "data_reset_install d im = Inr (r, d')"
  shows "slots_follow d (DResetInstall im) d'"
proof -
  obtain st where st: "bt_get (d_shards d) (mv_shard (im_movement im)) = Some st"
    using assms by (auto simp: data_reset_install_def rbind_Inr_iff split: if_splits)
  show ?thesis
    using assms st
    by (cases "sh_slot st") (auto simp: data_reset_install_def slots_follow_def move_reset slot_at_def put_shard_def bt_get_insert rbind_Inr_iff Let_def
        split: if_splits option.splits)
qed

lemma follow_finish:
  assumes "data_finish_install F d og i = Inr (r, d')"
  shows "slots_follow d (DFinishInstall i) d'"
proof -
  obtain st where st: "bt_get (d_shards d) (ti_shard i) = Some st"
    using assms by (auto simp: data_finish_install_def rbind_Inr_iff split: if_splits)
  show ?thesis
    using assms st
    by (cases "sh_slot st") (auto simp: data_finish_install_def slots_follow_def move_finish slot_at_def put_shard_def bt_get_insert rbind_Inr_iff Let_def
        split: if_splits option.splits)
qed

lemma follow_activate:
  assumes "data_activate d og ow = Inr (r, d')"
  shows "slots_follow d (DActivate ow) d'"
proof -
  obtain st where st: "bt_get (d_shards d) (mv_shard (op_movement ow)) = Some st"
    using assms by (auto simp: data_activate_def rbind_Inr_iff split: if_splits)
  show ?thesis
    using assms st
    by (cases "sh_slot st") (auto simp: data_activate_def slots_follow_def move_activate slot_at_def put_shard_def bt_get_insert rbind_Inr_iff Let_def
        split: if_splits option.splits)
qed

lemma follow_cleanup:
  assumes "data_cleanup d og a = Inr (r, d')"
  shows "slots_follow d (DCleanup a) d'"
proof -
  obtain st where st: "bt_get (d_shards d) (mv_shard (ap_movement a)) = Some st"
    using assms by (auto simp: data_cleanup_def rbind_Inr_iff split: if_splits)
  show ?thesis
    using assms st
    by (cases "sh_slot st") (auto simp: data_cleanup_def slots_follow_def move_cleanup slot_at_def put_shard_def bt_get_insert rbind_Inr_iff Let_def
        split: if_splits option.splits)
qed

lemma slot_at_back_out [simp]:
  "slot_at (back_out s previous d) s' = (if s' = s then before_install previous else slot_at d s')"
  by (auto simp: back_out_def before_install_def slot_at_def put_shard_def bt_get_insert bt_get_remove split: option.splits)

lemma back_out_fields [simp]:
  "d_group (back_out s previous d) = d_group d" "d_initialized (back_out s previous d) = d_initialized d"
  "d_aborted (back_out s previous d) = d_aborted d"
  by (simp_all add: back_out_def split: option.splits)

lemma follow_abort_source:
  assumes "abort_source d m = Inr d'" and "m = ab_movement ab" and "mv_source m = d_group d"
  shows "slots_follow d (DAbortTransfer ab) d' \<and> d_aborted d' = d_aborted d \<and> d_initialized d' = d_initialized d"
proof -
  obtain st where st: "bt_get (d_shards d) (mv_shard m) = Some st"
    using assms by (auto simp: abort_source_def rbind_Inr_iff)
  show ?thesis
    using assms st
    by (cases "sh_slot st") (auto simp: abort_source_def slots_follow_def move_abort_source slot_at_def put_shard_def bt_get_insert
        split: if_splits)
qed

lemma follow_abort_destination:
  assumes "abort_destination d m = Inr d'" and m: "m = ab_movement ab"
  shows "slots_follow d (DAbortTransfer ab) d' \<and> d_aborted d' = d_aborted d \<and> d_initialized d' = d_initialized d"
proof -
  have "d' = d \<or> (\<exists>im bs previous. slot_at d (mv_shard m) = Some (Installing im bs previous) \<and> im_movement im = m \<and>
        d' = back_out (mv_shard m) previous d) \<or>
      (\<exists>inst previous. slot_at d (mv_shard m) = Some (Installed inst previous) \<and> im_movement (ip_image inst) = m \<and>
        d' = back_out (mv_shard m) previous d)"
    using assms by (auto simp: abort_destination_def slot_at_def split: if_splits slot.splits option.splits)
  then show ?thesis
    using m move_abort_installing move_abort_installed by (fastforce simp: slots_follow_def)
qed

lemma follow_abort:
  assumes "abort_transfer F d og ab = Inr (r, d')"
  shows "slots_follow d (DAbortTransfer ab) d'" and "d_initialized d' = d_initialized d"
    and "d' = d \<or> bt_get (d_aborted d) (transfer_key (mv_id (ab_movement ab))) = None \<and>
           d_aborted d' = bt_insert (transfer_key (mv_id (ab_movement ab))) \<lparr>ar_abort = ab, ar_recovered = og\<rparr> (d_aborted d)"
proof -
  let ?m = "ab_movement ab"
  let ?key = "transfer_key (mv_id ?m)" and ?r = "\<lparr>ar_abort = ab, ar_recovered = og\<rparr>"
  let ?side = "if d_group d = mv_source ?m then abort_source d ?m else abort_destination d ?m"
  have "d' = d \<or> bt_get (d_aborted d) ?key = None \<and>
      rbind ?side (\<lambda>d1. rbind (canonical_bytes (f_abort F) ?r (ABORT_RECORD_RESERVE - length ?key - 8)) (\<lambda>_.
        Inr (RAborted ?r, d1\<lparr>d_aborted := bt_insert ?key ?r (d_aborted d1)\<rparr>))) = Inr (r, d')"
    using assms by (simp add: abort_transfer_def Let_def split: if_splits option.splits)
  then have "d' = d \<or> bt_get (d_aborted d) ?key = None \<and>
      (\<exists>d1. ?side = Inr d1 \<and> d' = d1\<lparr>d_aborted := bt_insert ?key ?r (d_aborted d1)\<rparr>)"
    unfolding rbind_Inr_iff by blast
  moreover have "slots_follow d (DAbortTransfer ab) d1 \<and> d_aborted d1 = d_aborted d \<and> d_initialized d1 = d_initialized d"
    if "?side = Inr d1" for d1
    using that follow_abort_source [OF _ refl] follow_abort_destination [OF _ refl] by (auto split: if_splits)
  ultimately consider "d' = d"
    | d1 where "bt_get (d_aborted d) ?key = None" and "slots_follow d (DAbortTransfer ab) d1" and "d_aborted d1 = d_aborted d"
      and "d_initialized d1 = d_initialized d" and "d' = d1\<lparr>d_aborted := bt_insert ?key ?r (d_aborted d1)\<rparr>"
    by blast
  then have "slots_follow d (DAbortTransfer ab) d' \<and> d_initialized d' = d_initialized d \<and>
      (d' = d \<or> bt_get (d_aborted d) ?key = None \<and> d_aborted d' = bt_insert ?key ?r (d_aborted d))"
    by cases (simp_all add: slots_follow_def)
  then show "slots_follow d (DAbortTransfer ab) d'" "d_initialized d' = d_initialized d"
    "d' = d \<or> bt_get (d_aborted d) ?key = None \<and> d_aborted d' = bt_insert ?key ?r (d_aborted d)"
    by blast+
qed

section \<open>One committed data command\<close>

text \<open>Everything ownership needs to know about a command that took effect.\<close>

definition data_follows :: "data_machine \<Rightarrow> nat \<Rightarrow> data_command \<Rightarrow> data_machine \<Rightarrow> bool" where
  "data_follows d i cmd d' \<longleftrightarrow>
     slots_follow d cmd d' \<and>
     (d_initialized d \<noteq> None \<and> d_initialized d' = d_initialized d \<or>
      is_initialize cmd \<and> d_initialized d = None \<and> d_initialized d' \<noteq> None) \<and>
     (d_aborted d' = d_aborted d \<or>
      (\<exists>ab. cmd = DAbortTransfer ab \<and> bt_get (d_aborted d) (transfer_key (mv_id (ab_movement ab))) = None \<and>
         d_aborted d' = bt_insert (transfer_key (mv_id (ab_movement ab)))
           \<lparr>ar_abort = ab, ar_recovered = \<lparr>o_group = d_group d, o_index = i\<rparr>\<rparr> (d_aborted d))) \<and>
     (\<forall>ab s. cmd = DAbortTransfer ab \<longrightarrow> slot_at d' s \<noteq> slot_at d s \<longrightarrow> d_aborted d' \<noteq> d_aborted d)"

lemma handlers_keep:
  "data_register d og s e nonce = Inr (r, d') \<Longrightarrow> d_initialized d' = d_initialized d \<and> d_aborted d' = d_aborted d"
  "data_close d og s e sid = Inr (r, d') \<Longrightarrow> d_initialized d' = d_initialized d \<and> d_aborted d' = d_aborted d"
  "data_mutate F d og s e sid key sq v = Inr (r, d') \<Longrightarrow> d_initialized d' = d_initialized d \<and> d_aborted d' = d_aborted d"
  "data_fence F d og m = Inr (r, d') \<Longrightarrow> d_initialized d' = d_initialized d \<and> d_aborted d' = d_aborted d"
  "data_begin_install d im = Inr (r, d') \<Longrightarrow> d_initialized d' = d_initialized d \<and> d_aborted d' = d_aborted d"
  "data_chunk d t offset bs = Inr (r, d') \<Longrightarrow> d_initialized d' = d_initialized d \<and> d_aborted d' = d_aborted d"
  "data_reset_install d im = Inr (r, d') \<Longrightarrow> d_initialized d' = d_initialized d \<and> d_aborted d' = d_aborted d"
  "data_finish_install F d og t = Inr (r, d') \<Longrightarrow> d_initialized d' = d_initialized d \<and> d_aborted d' = d_aborted d"
  "data_activate d og ow = Inr (r, d') \<Longrightarrow> d_initialized d' = d_initialized d \<and> d_aborted d' = d_aborted d"
  "data_cleanup d og a = Inr (r, d') \<Longrightarrow> d_initialized d' = d_initialized d \<and> d_aborted d' = d_aborted d"
  by (auto simp: data_register_def data_close_def data_mutate_def data_fence_def data_begin_install_def begin_fresh_def
      data_chunk_def data_reset_install_def data_finish_install_def data_activate_def data_cleanup_def rbind_def ok_or_def
      canonical_bytes_def Let_def split: if_splits option.splits sum.splits slot.splits)

lemma insert_new_neq: "bt_get m k = None \<Longrightarrow> bt_insert k v m \<noteq> m"
  by (metis bt_get_insert option.distinct(1))

lemma dispatch_follows:
  assumes "data_dispatch F d i \<lparr>o_group = d_group d, o_index = i\<rparr> cmd = Inr (r, d')" and "is_initialize cmd \<or> d_initialized d \<noteq> None"
  shows "data_follows d i cmd d'"
proof (cases cmd)
  case (DInitialize n gs owned)
  then show ?thesis
    using follow_initialize [of d i n gs owned r d'] assms by (simp add: data_follows_def is_initialize_def)
next
  case (DAbortTransfer ab)
  then have r: "abort_transfer F d \<lparr>o_group = d_group d, o_index = i\<rparr> ab = Inr (r, d')"
    using assms(1) by simp
  show ?thesis
    using follow_abort [OF r] assms(2)
      not_sym [OF insert_new_neq [of "d_aborted d" "transfer_key (mv_id (ab_movement ab))" "\<lparr>ar_abort = ab, ar_recovered = \<lparr>o_group = d_group d, o_index = i\<rparr>\<rparr>"]]
    by (auto simp: data_follows_def is_initialize_def DAbortTransfer)
qed (use assms in \<open>auto simp: data_follows_def is_initialize_def dest: follow_clients follow_fence follow_begin follow_chunk
      follow_reset follow_finish follow_activate follow_cleanup handlers_keep\<close>)

lemma execute_follows:
  assumes "data_execute F d i cmd = Inr (r, d')"
  shows "data_follows d i cmd d'"
  using assms by (intro dispatch_follows [of F]) (auto simp: data_execute_def split: if_splits)

text \<open>A committed command either only moves the watermark, or follows the rules.\<close>

lemma data_apply_cases:
  assumes "data_apply F d i cmd = Inr (r, d')"
  obtains (refused) e where "r = Inl e" and "d' = d\<lparr>d_applied := i\<rparr>" and "i = Suc (d_applied d)"
  | (done_so) x where "r = Inr x" and "data_execute F (d\<lparr>d_applied := i\<rparr>) i cmd = Inr (x, d')" and "data_validate F d'"
      and "i = Suc (d_applied d)"
  using assms
  by (cases "data_execute F (d\<lparr>d_applied := i\<rparr>) i cmd") (auto simp: data_apply_def split: if_splits)

section \<open>Routes and phases of the controller\<close>

fun phase_image :: "phase \<Rightarrow> image_proof option" where
  "phase_image (PFenced im) = Some im"
| "phase_image (PInstalled inst) = Some (ip_image inst)"
| "phase_image (POwned ow) = Some (ip_image (op_installation ow))"
| "phase_image (PActivated a) = Some (ap_image a)"
| "phase_image (PCleaned a _) = Some (ap_image a)"
| "phase_image (PComplete a _ _) = Some (ap_image a)"
| "phase_image _ = None"

fun phase_owner :: "phase \<Rightarrow> ownership_proof option" where
  "phase_owner (POwned ow) = Some ow"
| "phase_owner (PActivated a) = Some (ap_ownership a)"
| "phase_owner (PCleaned a _) = Some (ap_ownership a)"
| "phase_owner (PComplete a _ _) = Some (ap_ownership a)"
| "phase_owner _ = None"

fun phase_abort_proof :: "phase \<Rightarrow> abort_proof option" where
  "phase_abort_proof (PAborted ab _ _ _) = Some ab"
| "phase_abort_proof _ = None"

lemma phase_owner_image: "phase_owner p = Some ow \<Longrightarrow> phase_image p = Some (ip_image (op_installation ow))"
  by (cases p) auto

lemma phase_owner_not_aborted: "phase_owner p = Some ow \<Longrightarrow> phase_abort_proof p = None"
  by (cases p) auto

text \<open>How the phase of a transfer with movement \<open>m\<close> moves; ownership is gained by \<^verbatim>\<open>Own\<close> alone.\<close>

inductive phase_moves :: "movement \<Rightarrow> nat \<Rightarrow> controller_command \<Rightarrow> phase \<Rightarrow> phase \<Rightarrow> bool" where
  phase_same: "phase_moves m i cmd p p"
| phase_fence: "image_valid im \<Longrightarrow> im_movement im = m \<Longrightarrow> phase_moves m i (CFenced im) PStarted (PFenced im)"
| phase_install: "installed_valid inst \<Longrightarrow> phase_moves m i (CInstalled inst) (PFenced (ip_image inst)) (PInstalled inst)"
| phase_own:
    "ow = \<lparr>op_installation = inst, op_controller = \<lparr>o_group = CONTROLLER, o_index = i\<rparr>\<rparr> \<Longrightarrow>
     phase_moves m i (COwn t) (PInstalled inst) (POwned ow)"
| phase_activate: "activation_valid a \<Longrightarrow> phase_moves m i (CActivated a) (POwned (ap_ownership a)) (PActivated a)"
| phase_clean: "phase_moves m i (CCleaned t cleaned) (PActivated a) (PCleaned a cleaned)"
| phase_finish: "phase_moves m i (CComplete t) (PCleaned a cleaned) (PComplete a cleaned completed)"
| phase_give_up:
    "phase_owner p = None \<Longrightarrow> phase_abort_proof p = None \<Longrightarrow> ab_movement ab = m \<Longrightarrow>
     phase_moves m i (CAbort t) p (PAborted ab stage None None)"
| phase_receipt: "phase_moves m i (CEndpointAborted ab' og) (PAborted ab stage src dst) (PAborted ab stage src' dst')"

inductive_cases phase_movesE: "phase_moves m i cmd p p'"

lemma phase_moves_owner: "phase_moves m i cmd p p' \<Longrightarrow> phase_owner p = Some ow \<Longrightarrow> phase_owner p' = Some ow"
  by (auto elim!: phase_movesE)

lemma phase_moves_aborted: "phase_moves m i cmd p p' \<Longrightarrow> phase_abort_proof p = Some ab \<Longrightarrow> phase_abort_proof p' = Some ab"
  by (auto elim!: phase_movesE)

lemma phase_moves_image:
  "phase_moves m i cmd p p' \<Longrightarrow> phase_image p' = Some im \<Longrightarrow>
     phase_image p = Some im \<or> cmd = CFenced im \<and> im_movement im = m \<and> image_valid im"
  by (auto elim!: phase_movesE)

text \<open>What a command that took effect does to the controller.\<close>

inductive ctl_moves :: "controller \<Rightarrow> nat \<Rightarrow> controller_command \<Rightarrow> controller \<Rightarrow> bool" where
  ctl_quiet:
    "c_initialized c' = c_initialized c \<Longrightarrow> c_routes c' = c_routes c \<Longrightarrow> c_transfers c' = c_transfers c \<Longrightarrow>
     ctl_moves c i cmd c'"
| ctl_start:
    "c_initialized c = None \<Longrightarrow> c_initialized c' \<noteq> None \<Longrightarrow> c_routes c' = first_routes owners \<Longrightarrow>
     c_transfers c' = c_transfers c \<Longrightarrow> ctl_moves c i (CInitialize gs owners) c'"
| ctl_new:
    "c_initialized c' = c_initialized c \<Longrightarrow> bt_get (c_transfers c) rq = None \<Longrightarrow> s < length (c_routes c) \<Longrightarrow>
     ro_epoch (c_routes c ! s) = e \<Longrightarrow> tr_phase t = PStarted \<Longrightarrow>
     tr_movement t = \<lparr>mv_id = \<lparr>ti_shard = s, ti_epoch = Suc e, ti_index = i\<rparr>, mv_source = ro_owner (c_routes c ! s),
       mv_destination = destination, mv_previous = e\<rparr> \<Longrightarrow> Suc e \<le> u64_max \<Longrightarrow>
     destination \<noteq> ro_owner (c_routes c ! s) \<Longrightarrow> destination \<in> set (c_groups c) \<Longrightarrow>
     c_routes c' = (c_routes c)[s := (c_routes c ! s)\<lparr>ro_transfer := x\<rparr>] \<Longrightarrow>
     c_transfers c' = bt_insert rq t (c_transfers c) \<Longrightarrow> ctl_moves c i (CBegin rq s e destination) c'"
| ctl_phase:
    "c_initialized c' = c_initialized c \<Longrightarrow> (rq, t) \<in> set (c_transfers c) \<Longrightarrow> phase_moves (tr_movement t) i cmd (tr_phase t) p \<Longrightarrow>
     phase_owner p = phase_owner (tr_phase t) \<Longrightarrow>
     c_routes c' = (c_routes c)[k := (c_routes c ! k)\<lparr>ro_transfer := x\<rparr>] \<Longrightarrow>
     c_transfers c' = bt_insert rq (t\<lparr>tr_phase := p\<rparr>) (c_transfers c) \<Longrightarrow> ctl_moves c i cmd c'"
| ctl_owned:
    "c_initialized c' = c_initialized c \<Longrightarrow> (rq, t) \<in> set (c_transfers c) \<Longrightarrow> tr_phase t = PInstalled inst \<Longrightarrow>
     m = tr_movement t \<Longrightarrow>
     ro_owner (c_routes c ! mv_shard m) = mv_source m \<Longrightarrow> ro_epoch (c_routes c ! mv_shard m) = mv_previous m \<Longrightarrow>
     c_routes c' = (c_routes c)[mv_shard m := (c_routes c ! mv_shard m)\<lparr>ro_owner := mv_destination m, ro_epoch := mv_epoch m\<rparr>] \<Longrightarrow>
     ow = \<lparr>op_installation = inst, op_controller = \<lparr>o_group = CONTROLLER, o_index = i\<rparr>\<rparr> \<Longrightarrow>
     c_transfers c' = bt_insert rq (t\<lparr>tr_phase := POwned ow\<rparr>) (c_transfers c) \<Longrightarrow>
     ctl_moves c i (COwn tid) c'"

lemma phase_abort_moves:
  "phase_abort og m p = Inr p' \<Longrightarrow> phase_moves m i (CAbort t) p p' \<and> phase_owner p' = phase_owner p"
  by (cases p) (auto simp: phase_abort_def Let_def intro: phase_same phase_give_up)

lemma phase_endpoint_aborted_moves:
  "phase_endpoint_aborted m ab og p = Inr p' \<Longrightarrow> phase_moves m i (CEndpointAborted ab og) p p' \<and> phase_owner p' = phase_owner p"
  by (cases p) (auto simp: phase_endpoint_aborted_def rbind_Inr_iff split: if_splits intro: phase_receipt)

lemma phase_fenced_moves:
  "phase_fenced m im p = Inr p' \<Longrightarrow> phase_moves m i (CFenced im) p p' \<and> phase_owner p' = phase_owner p"
  by (cases p) (auto simp: phase_fenced_def split: if_splits intro: phase_same phase_fence)

lemma phase_installed_moves:
  "phase_installed m inst p = Inr p' \<Longrightarrow> phase_moves m i (CInstalled inst) p p' \<and> phase_owner p' = phase_owner p"
  by (cases p) (auto simp: phase_installed_def split: if_splits intro: phase_same phase_install)

lemma phase_activated_moves:
  "phase_activated a p = Inr p' \<Longrightarrow> phase_moves m i (CActivated a) p p' \<and> phase_owner p' = phase_owner p"
  by (cases p) (auto simp: phase_activated_def split: if_splits intro: phase_same phase_activate)

lemma phase_cleaned_moves:
  "phase_cleaned m cleaned p = Inr p' \<Longrightarrow> phase_moves m i (CCleaned t cleaned) p p' \<and> phase_owner p' = phase_owner p"
  by (cases p) (auto simp: phase_cleaned_def split: if_splits intro: phase_same phase_clean)

lemma no_route_change: "\<exists>k x. xs = xs[k := (xs ! k)\<lparr>ro_transfer := x\<rparr>]"
proof -
  have "xs = xs[length xs := (xs ! length xs)\<lparr>ro_transfer := None\<rparr>]"
    by (rule list_update_beyond [symmetric]) (rule order_refl)
  then show ?thesis by blast
qed

lemma clear_route_routes:
  "\<exists>k x. c_routes (clear_route i c) = (c_routes c)[k := (c_routes c ! k)\<lparr>ro_transfer := x\<rparr>]"
  unfolding clear_route_def Let_def set_route_def using no_route_change by (cases "ro_transfer (c_routes c ! ti_shard i) = Some i") auto

lemma clear_route_fields [simp]:
  "c_initialized (clear_route i c) = c_initialized c" "c_transfers (clear_route i c) = c_transfers c"
  "c_applied (clear_route i c) = c_applied c"
  by (simp_all add: clear_route_def Let_def set_route_def)

text \<open>The commands of a transfer other than \<^verbatim>\<open>Own\<close> change its phase and at most a pending marker.\<close>

lemma transfer_phase_only:
  assumes "ctl_transfer c og t cmd = Inr (p, c')" and "\<And>x. cmd \<noteq> COwn x"
  shows "phase_moves (tr_movement t) i cmd (tr_phase t) p \<and> phase_owner p = phase_owner (tr_phase t) \<and>
    c_initialized c' = c_initialized c \<and> c_transfers c' = c_transfers c \<and>
    (\<exists>k x. c_routes c' = (c_routes c)[k := (c_routes c ! k)\<lparr>ro_transfer := x\<rparr>])"
proof (cases cmd)
  case (CEndpointAborted ab recovered)
  then show ?thesis
    using assms(1) phase_endpoint_aborted_moves [of "tr_movement t" ab recovered "tr_phase t" p i]
      clear_route_routes [of "mv_id (tr_movement t)" c] no_route_change [of "c_routes c"]
    by (auto simp: rbind_Inr_iff split: if_splits)
next
  case (CComplete x)
  have "\<exists>k x. (c_routes c)[s := (c_routes c ! s)\<lparr>ro_transfer := None\<rparr>] = (c_routes c)[k := (c_routes c ! k)\<lparr>ro_transfer := x\<rparr>]" for s
    by blast
  then show ?thesis
    using CComplete assms(1) no_route_change [of "c_routes c"]
    by (cases "tr_phase t") (auto simp: ctl_complete_def Let_def set_route_def intro: phase_same phase_finish)
qed (use assms no_route_change [of "c_routes c"] phase_abort_moves phase_fenced_moves phase_installed_moves
    phase_activated_moves phase_cleaned_moves in \<open>auto simp: rbind_Inr_iff\<close>)

lemma find_transfer_in: "find_transfer c i = Some (rq, t) \<Longrightarrow> (rq, t) \<in> set (c_transfers c) \<and> mv_id (tr_movement t) = i"
  by (auto simp: find_transfer_def find_Some_iff) (metis nth_mem)

lemma advance_transfer_moves:
  assumes "ctl_advance_transfer c \<lparr>o_group = CONTROLLER, o_index = i\<rparr> tid cmd = Inr (r, c')"
  shows "ctl_moves c i cmd c'"
proof -
  let ?og = "\<lparr>o_group = CONTROLLER, o_index = i\<rparr>"
  from assms obtain rq t p c1 where t: "find_transfer c tid = Some (rq, t)"
    and p: "ctl_transfer c ?og t cmd = Inr (p, c1)"
    and c': "c' = c1\<lparr>c_transfers := bt_insert rq (t\<lparr>tr_phase := p\<rparr>) (c_transfers c1)\<rparr>"
    by (auto simp: ctl_advance_transfer_def rbind_Inr_iff Let_def)
  note t_in = find_transfer_in [OF t, THEN conjunct1]
  have quiet: "ctl_moves c i cmd c'" if "\<And>x. cmd \<noteq> COwn x"
    using transfer_phase_only [OF p that, of i] ctl_phase [OF _ t_in, of c' i cmd p] by (auto simp: c')
  show ?thesis
  proof (cases "\<exists>x. cmd = COwn x")
    case True
    then obtain x where x: "cmd = COwn x" by blast
    show ?thesis
    proof (cases "tr_phase t")
      case (PInstalled inst)
      then show ?thesis
        using p ctl_owned [OF _ t_in PInstalled refl, of c'] by (auto simp: x c' ctl_own_def Let_def set_route_def split: if_splits)
    next
      case (POwned ow)
      then have "p = tr_phase t" "c1 = c"
        using p by (auto simp: x ctl_own_def Let_def)
      then show ?thesis
        using ctl_phase [OF _ t_in phase_same refl] no_route_change [of "c_routes c"] by (auto simp: c')
    qed (use p in \<open>simp_all add: x ctl_own_def Let_def\<close>)
  qed (use quiet in blast)
qed

lemma ctl_begin_moves:
  assumes "ctl_begin c i rq s e destination = Inr (r, c')"
  shows "ctl_moves c i (CBegin rq s e destination) c'"
proof (cases "bt_get (c_transfers c) rq")
  case None
  let ?r = "c_routes c ! s"
  let ?m = "\<lparr>mv_id = \<lparr>ti_shard = s, ti_epoch = Suc e, ti_index = i\<rparr>, mv_source = ro_owner ?r,
    mv_destination = destination, mv_previous = e\<rparr>"
  let ?t = "\<lparr>tr_request = rq, tr_movement = ?m, tr_phase = PStarted\<rparr>"
  have "s < length (c_routes c)" "ro_epoch ?r = e" "Suc e \<le> u64_max" "destination \<noteq> ro_owner ?r" "destination \<in> set (c_groups c)"
    and c': "c' = (set_route s (?r\<lparr>ro_transfer := Some (mv_id ?m)\<rparr>) c)\<lparr>c_transfers := bt_insert rq ?t (c_transfers c)\<rparr>"
    using assms None by (auto simp: ctl_begin_def rbind_Inr_iff Let_def route_at_def split: if_splits)
  then show ?thesis
    using None by (intro ctl_new [of c' c rq s e ?t]) (auto simp: set_route_def)
next
  case (Some t)
  then show ?thesis
    using assms by (auto simp: ctl_begin_def split: if_splits intro: ctl_quiet)
qed

lemma ctl_execute_moves:
  assumes "ctl_execute G c i cmd = Inr (r, c')"
  shows "ctl_moves c i cmd c'"
proof (cases "\<exists>rq s e x. cmd = CBegin rq s e x")
  case True
  then show ?thesis
    using assms ctl_begin_moves by (auto simp: ctl_execute_def Let_def split: if_splits)
next
  case False
  show ?thesis
  proof (cases "command_id cmd")
    case None
    then show ?thesis
      using assms False
      by (cases cmd) (auto simp: ctl_execute_def ctl_initialize_def ctl_acquire_def ctl_complete_maintenance_def rbind_Inr_iff Let_def
          split: if_splits option.splits intro: ctl_quiet ctl_start)
  next
    case (Some t)
    then have "ctl_advance_transfer c \<lparr>o_group = CONTROLLER, o_index = i\<rparr> t cmd = Inr (r, c')"
      using assms by (cases cmd) (auto simp: ctl_execute_def Let_def split: if_splits)
    then show ?thesis by (rule advance_transfer_moves)
  qed
qed

lemma ctl_apply_cases:
  assumes "ctl_apply G c i cmd = Inr (r, c')"
  obtains (refused) e where "r = Inl e" and "c' = c\<lparr>c_applied := i\<rparr>" and "i = Suc (c_applied c)"
  | (done_so) x where "r = Inr x" and "ctl_execute G (c\<lparr>c_applied := i\<rparr>) i cmd = Inr (x, c')"
      and "check_capacity G c' = Inr ()" and "i = Suc (c_applied c)"
  using assms
  by (cases "ctl_execute G (c\<lparr>c_applied := i\<rparr>) i cmd")
    (auto simp: ctl_apply_def rbind_def split: if_splits sum.splits)

lemma ctl_execute_applied:
  assumes "ctl_execute G c i cmd = Inr (r, c')"
  shows "c_applied c' = c_applied c"
proof -
  have transfer: "c_applied c1 = c_applied c" if "ctl_transfer c og t cmd = Inr (p, c1)" for og t p c1
    using that
    by (cases cmd; cases "tr_phase t")
      (auto simp: ctl_own_def ctl_complete_def clear_route_def set_route_def rbind_Inr_iff Let_def split: if_splits)
  show ?thesis
    using assms transfer
    by (cases cmd) (auto simp: ctl_execute_def ctl_initialize_def ctl_acquire_def ctl_complete_maintenance_def ctl_begin_def
        ctl_advance_transfer_def set_route_def rbind_Inr_iff Let_def split: if_splits option.splits)
qed

end
