(* ===== verification/Shard_System.thy ===== *)
theory Shard_System
  imports Shard_Moves
begin

text \<open>
  The whole shard service as a transition system: the controller and every data group as the
  machines their Raft logs drive, the answers of checked reads, and the operations the service
  has prepared.  Reads and commits interleave freely: an operation prepared from old answers may
  be committed much later, more than once, or never; its reads may have been taken at different
  moments.  Maintenance commands are allowed at any time.
\<close>

section \<open>Systems\<close>

record system =
  ctl :: controller
  grp :: "group_id \<Rightarrow> data_machine"
  seen :: "(group_id \<times> query \<times> observed) set"
  pool :: "(group_id \<times> shard_operation) set"

definition machine_at :: "system \<Rightarrow> group_id \<Rightarrow> machine" where
  "machine_at S g = (if g = CONTROLLER then MController (ctl S) else MData (grp S g))"

definition put_machine :: "group_id \<Rightarrow> machine \<Rightarrow> system \<Rightarrow> system" where
  "put_machine g m S = (case m of MController c \<Rightarrow> S\<lparr>ctl := c\<rparr> | MData d \<Rightarrow> S\<lparr>grp := (grp S)(g := d)\<rparr>)"

definition fresh_data :: "group_id \<Rightarrow> data_machine" where
  "fresh_data g =
     \<lparr>d_group = g, d_applied = 0, d_initialized = None, d_count = 0, d_groups = [], d_shards = [], d_aborted = []\<rparr>"

definition first_system :: system where
  "first_system = \<lparr>ctl = controller_default, grp = fresh_data, seen = {}, pool = {}\<rparr>"

lemma first_machine: "machine_new g = Inr (machine_at first_system g)"
  by (simp add: machine_new_def machine_at_def first_system_def data_new_def fresh_data_def)

definition maintenance_command :: "controller_command \<Rightarrow> bool" where
  "maintenance_command cmd =
     (case cmd of CAcquireMaintenance _ _ _ _ \<Rightarrow> True | CCompleteMaintenance _ _ _ _ _ \<Rightarrow> True | _ \<Rightarrow> False)"

text \<open>The answers a preparation works with have all been given by the machines, at some time.\<close>

definition answered :: "system \<Rightarrow> service_env \<Rightarrow> bool" where
  "answered S v \<longleftrightarrow> (\<forall>g q x. e_checked v g q = Inr x \<longrightarrow> (g, q, x) \<in> seen S)"

inductive system_step :: "topology \<Rightarrow> shard_format \<Rightarrow> system \<Rightarrow> system \<Rightarrow> bool" for T X where
  step_read:
    "machine_query X (machine_at S g) q = Inr x \<Longrightarrow> system_step T X S (S\<lparr>seen := insert (g, q, x) (seen S)\<rparr>)"
| step_prepare:
    "answered S v \<Longrightarrow> service_prepare T v g act = Inr oper \<Longrightarrow> system_step T X S (S\<lparr>pool := insert (g, oper) (pool S)\<rparr>)"
| step_maintain:
    "maintenance_command cmd \<Longrightarrow> system_step T X S (S\<lparr>pool := insert (CONTROLLER, OController cmd) (pool S)\<rparr>)"
| step_commit:
    "(g, oper) \<in> pool S \<Longrightarrow> machine_operation X (machine_at S g) i oper = Inr (reply, m) \<Longrightarrow> system_step T X S (put_machine g m S)"
| step_noop:
    "machine_advance (machine_at S g) i = Inr (reply, m) \<Longrightarrow> system_step T X S (put_machine g m S)"

definition reachable_system :: "topology \<Rightarrow> shard_format \<Rightarrow> system \<Rightarrow> bool" where
  "reachable_system T X S \<longleftrightarrow> (system_step T X)\<^sup>*\<^sup>* first_system S"

section \<open>Facts that stay\<close>

text \<open>
  What an old answer still says: each of these, once true of a system, is true of all its
  successors.
\<close>

definition moving :: "system \<Rightarrow> movement \<Rightarrow> bool" where
  "moving S m \<longleftrightarrow> (\<exists>rq t. bt_get (c_transfers (ctl S)) rq = Some t \<and> tr_movement t = m)"

definition owned_with :: "system \<Rightarrow> ownership_proof \<Rightarrow> bool" where
  "owned_with S ow \<longleftrightarrow>
     (\<exists>rq t. bt_get (c_transfers (ctl S)) rq = Some t \<and> phase_owner (tr_phase t) = Some ow \<and> tr_movement t = op_movement ow)"

definition given_up :: "system \<Rightarrow> abort_proof \<Rightarrow> bool" where
  "given_up S ab \<longleftrightarrow>
     (\<exists>rq t. bt_get (c_transfers (ctl S)) rq = Some t \<and> phase_abort_proof (tr_phase t) = Some ab \<and> tr_movement t = ab_movement ab)"

definition seen_fenced :: "system \<Rightarrow> image_proof \<Rightarrow> bool" where
  "seen_fenced S im \<longleftrightarrow>
     (let m = im_movement im in (mv_source m, QShard (mv_shard m), ObShard (mv_source m) (mv_shard m) (VFenced im)) \<in> seen S)"

definition running :: "system \<Rightarrow> group_id \<Rightarrow> bool" where
  "running S g \<longleftrightarrow> (if g = CONTROLLER then c_initialized (ctl S) \<noteq> None else d_initialized (grp S g) \<noteq> None)"

definition owner_then :: "system \<Rightarrow> shard_id \<Rightarrow> nat \<Rightarrow> group_id \<Rightarrow> bool" where
  "owner_then S s e w \<longleftrightarrow>
     s < length (c_routes (ctl S)) \<and> e \<le> ro_epoch (c_routes (ctl S) ! s) \<and>
     (e = ro_epoch (c_routes (ctl S) ! s) \<longrightarrow> w = ro_owner (c_routes (ctl S) ! s))"

text \<open>The facts behind a prepared operation, and behind an answer.\<close>

definition justified :: "topology \<Rightarrow> system \<Rightarrow> group_id \<Rightarrow> shard_operation \<Rightarrow> bool" where
  "justified T S g oper =
     (case oper of
        OData cmd \<Rightarrow>
          (case cmd of
             DInitialize n gs owned \<Rightarrow> running S CONTROLLER \<and> owned = owned_shards T g
           | DFence m \<Rightarrow> moving S m
           | DBeginInstall im \<Rightarrow> seen_fenced S im
           | DActivate ow \<Rightarrow> owned_with S ow
           | DCleanup a \<Rightarrow> owned_with S (ap_ownership a)
           | DAbortTransfer ab \<Rightarrow> given_up S ab
           | _ \<Rightarrow> True)
      | OController cmd \<Rightarrow>
          (case cmd of
             CInitialize gs owners \<Rightarrow> owners = t_owners T
           | CFenced im \<Rightarrow> seen_fenced S im
           | CBegin rq s e destination \<Rightarrow>
               bt_get (c_transfers (ctl S)) rq \<noteq> None \<or>
               (\<exists>w. owner_then S s e w \<and> running S w \<and> running S destination)
           | _ \<Rightarrow> True))"

definition backed :: "system \<Rightarrow> transfer \<Rightarrow> bool" where
  "backed S t \<longleftrightarrow>
     moving S (tr_movement t) \<and>
     (\<forall>im. phase_image (tr_phase t) = Some im \<longrightarrow> seen_fenced S im \<and> im_movement im = tr_movement t) \<and>
     (\<forall>ow. phase_owner (tr_phase t) = Some ow \<longrightarrow> owned_with S ow) \<and>
     (\<forall>ab. phase_abort_proof (tr_phase t) = Some ab \<longrightarrow> given_up S ab)"

definition credible :: "system \<Rightarrow> group_id \<times> query \<times> observed \<Rightarrow> bool" where
  "credible S x =
     (case x of
        (g, QTransfer rq, ObTransfer (Some t)) \<Rightarrow> bt_get (c_transfers (ctl S)) rq \<noteq> None \<and> backed S t
      | (g, QShard s, ObShard g' s' (VFenced im)) \<Rightarrow>
          g' = g \<and> s' = s \<and> mv_source (im_movement im) = g \<and> mv_shard (im_movement im) = s
      | (g, QRoute s, ObRoute r t) \<Rightarrow> owner_then S s (ro_epoch r) (ro_owner r)
      | (g, QConfiguration, ObConfiguration g' (Some z) gs n b) \<Rightarrow> running S g
      | _ \<Rightarrow> True)"

end
