(* ===== verification/Shard_Ownership.thy ===== *)
theory Shard_Ownership
  imports Shard_System
begin

text \<open>
  Why a shard never has two owners.  The facts a preparation relies on stay true, so every
  operation in the pool is still justified when it is committed; the floor of a slot, the highest
  epoch the group has held the shard with, never falls; and a fence that a checked read has
  shown stays until its transfer is aborted or the group has moved past it.  Together these are
  an invariant of the system.
\<close>

section \<open>Facts only grow\<close>

definition accrues :: "system \<Rightarrow> system \<Rightarrow> bool" where
  "accrues S S' \<longleftrightarrow>
     (\<forall>m. moving S m \<longrightarrow> moving S' m) \<and> (\<forall>ow. owned_with S ow \<longrightarrow> owned_with S' ow) \<and>
     (\<forall>ab. given_up S ab \<longrightarrow> given_up S' ab) \<and> (\<forall>im. seen_fenced S im \<longrightarrow> seen_fenced S' im) \<and>
     (\<forall>g. running S g \<longrightarrow> running S' g) \<and> (\<forall>s e w. owner_then S s e w \<longrightarrow> owner_then S' s e w) \<and>
     (\<forall>rq. bt_get (c_transfers (ctl S)) rq \<noteq> None \<longrightarrow> bt_get (c_transfers (ctl S')) rq \<noteq> None)"

lemma accruesD:
  assumes "accrues S S'"
  shows "moving S m \<Longrightarrow> moving S' m" "owned_with S ow \<Longrightarrow> owned_with S' ow" "given_up S ab \<Longrightarrow> given_up S' ab"
    "seen_fenced S im \<Longrightarrow> seen_fenced S' im" "running S g \<Longrightarrow> running S' g" "owner_then S s e w \<Longrightarrow> owner_then S' s e w"
    "bt_get (c_transfers (ctl S)) rq \<noteq> None \<Longrightarrow> bt_get (c_transfers (ctl S')) rq \<noteq> None"
  using assms unfolding accrues_def by blast+

lemma accrues_refl: "accrues S S"
  by (simp add: accrues_def)

lemma justified_accrues: "accrues S S' \<Longrightarrow> justified T S g oper \<Longrightarrow> justified T S' g oper"
  unfolding justified_def accrues_def by (simp split: shard_operation.splits data_command.splits controller_command.splits) blast

lemma backed_accrues: "accrues S S' \<Longrightarrow> backed S t \<Longrightarrow> backed S' t"
  unfolding backed_def accrues_def by blast

lemma credible_accrues: "accrues S S' \<Longrightarrow> credible S x \<Longrightarrow> credible S' x"
  unfolding credible_def
  by (auto split: prod.splits query.splits observed.splits option.splits shard_view.splits dest: accruesD backed_accrues)

section \<open>Prepared operations are justified\<close>

lemma checked_credible:
  "answered S v \<Longrightarrow> \<forall>x \<in> seen S. credible S x \<Longrightarrow> e_checked v g q = Inr x \<Longrightarrow> credible S (g, q, x)"
  by (auto simp: answered_def)

lemma service_shard_seen:
  assumes "answered S v" and "service_shard v g s = Inr view"
  shows "(g, QShard s, ObShard g s view) \<in> seen S"
proof -
  from assms(2) obtain x where x: "e_checked v g (QShard s) = Inr x"
    and "(case x of ObShard g' s' view \<Rightarrow> if g' = g \<and> s' = s then Inr view else Inl (UnavailableBecause ''checked shard identity mismatch'')
       | _ \<Rightarrow> Inl (UnavailableBecause ''checked shard identity mismatch'')) = Inr view"
    by (auto simp: service_shard_def rbind_Inr_iff)
  then have "x = ObShard g s view"
    by (cases x) (auto split: if_splits)
  then show ?thesis
    using assms(1) x by (auto simp: answered_def)
qed

lemma expect_view_Inr: "expect_view v g s view go = Inr oper \<longleftrightarrow> service_shard v g s = Inr view \<and> go = Inr oper"
  by (auto simp: expect_view_def rbind_Inr_iff)

lemma ops_Inr [simp]:
  "data_op g cmd = Inr oper \<longleftrightarrow> g \<noteq> CONTROLLER \<and> oper = OData cmd"
  "control_op g cmd' = Inr oper \<longleftrightarrow> g = CONTROLLER \<and> oper = OController cmd'"
  by (auto simp: data_op_def control_op_def)

lemma service_transfer_backed:
  assumes "answered S v" and "\<forall>x \<in> seen S. credible S x" and "service_transfer v rq = Inr t"
  shows "backed S t"
proof -
  from assms(3) obtain x where x: "e_checked v CONTROLLER (QTransfer rq) = Inr x"
    and "(case x of ObTransfer (Some t) \<Rightarrow> Inr t | _ \<Rightarrow> Inl (Rejected WrongTransfer)) = Inr t"
    by (auto simp: service_transfer_def rbind_Inr_iff)
  then have "x = ObTransfer (Some t)"
    by (cases x) (auto split: option.splits)
  then show ?thesis
    using checked_credible [OF assms(1,2) x] by (simp add: credible_def)
qed

lemma seen_fencedI:
  "answered S v \<Longrightarrow> service_shard v (mv_source (im_movement im)) (mv_shard (im_movement im)) = Inr (VFenced im) \<Longrightarrow> seen_fenced S im"
  using service_shard_seen by (fastforce simp: seen_fenced_def Let_def)

lemma records_justified:
  "prepare_pull_chunk v g m im = Inr oper \<Longrightarrow> justified T S g oper"
  "prepare_record_installed v g m im = Inr oper \<Longrightarrow> justified T S g oper"
  "prepare_record_activated v g m ow = Inr oper \<Longrightarrow> justified T S g oper"
  "prepare_record_cleanup v g m a = Inr oper \<Longrightarrow> justified T S g oper"
  "prepare_record_abort v g m endpoint ab = Inr oper \<Longrightarrow> justified T S g oper"
  by (auto simp: prepare_pull_chunk_def prepare_record_installed_def prepare_record_activated_def prepare_record_cleanup_def
      prepare_record_abort_def justified_def rbind_def split: sum.splits shard_view.splits observed.splits option.splits if_splits)

lemma record_fence_justified:
  assumes "answered S v" and "prepare_record_fence v g m = Inr oper"
  shows "justified T S g oper"
proof -
  from assms(2) obtain x where x: "service_shard v (mv_source m) (mv_shard m) = Inr x"
    and y: "(case x of VFenced im \<Rightarrow> if im_movement im \<noteq> m then Inl (Rejected WrongTransfer) else control_op g (CFenced im)
       | _ \<Rightarrow> Inl (Rejected WrongPhase)) = Inr oper"
    by (auto simp: prepare_record_fence_def rbind_Inr_iff)
  from y obtain im where im: "x = VFenced im" "im_movement im = m" "oper = OController (CFenced im)"
    by (cases x) (auto split: if_splits)
  then show ?thesis
    using seen_fencedI [OF assms(1), of im] x by (simp add: justified_def)
qed

lemma advance_step_justified:
  assumes v: "answered S v" and t: "backed S t" and r: "advance_step v g t step = Inr oper"
  shows "justified T S g oper"
proof -
  have fenced: "seen_fenced S im" if "tr_phase t = PFenced im" for im
    using t that by (simp add: backed_def)
  show ?thesis
    using r t fenced
    by (cases step; cases "tr_phase t")
      (simp_all add: advance_step_def Let_def expect_view_Inr records_justified record_fence_justified [OF v],
        auto simp: justified_def backed_def)
qed

lemma begin_move_justified:
  assumes v: "answered S v" and c: "\<forall>x \<in> seen S. credible S x" and r: "prepare_begin_move T v g rq s e destination = Inr oper"
  shows "justified T S g oper"
proof -
  note cred = checked_credible [OF v c]
  have ready: "running S w" if "endpoint_ready T v w = Inr ()" for w
  proof -
    from that obtain x where x: "e_checked v w QConfiguration = Inr x" and y: "\<exists>g' z gs n b. x = ObConfiguration g' (Some z) gs n b"
      by (auto simp: endpoint_ready_def rbind_def split: sum.splits observed.splits option.splits if_splits)
    then show ?thesis using cred [OF x] by (auto simp: credible_def)
  qed
  from r obtain x where g: "g = CONTROLLER" and x: "e_checked v CONTROLLER (QTransfer rq) = Inr x"
    by (auto simp: prepare_begin_move_def rbind_Inr_iff split: if_splits)
  show ?thesis
  proof (cases "\<exists>t. x = ObTransfer (Some t)")
    case True
    then show ?thesis
      using r g x cred [OF x] by (auto simp: prepare_begin_move_def justified_def credible_def)
  next
    case False
    then obtain z rt where oper: "oper = OController (CBegin rq s e destination)" and z: "e_checked v CONTROLLER (QRoute s) = Inr z"
      and rt: "(case z of ObRoute r _ \<Rightarrow> if ro_epoch r = e then Inr r else Inl (Rejected StaleRoute)
        | _ \<Rightarrow> Inl (Rejected StaleRoute)) = Inr rt" and ends: "endpoint_ready T v (ro_owner rt) = Inr ()" "endpoint_ready T v destination = Inr ()"
      using r g x
      by (simp add: prepare_begin_move_def split: observed.splits option.splits) (fastforce simp: rbind_Inr_iff)+
    from rt obtain t where "z = ObRoute rt t" "ro_epoch rt = e"
      by (cases z) (auto split: if_splits)
    then have "owner_then S s e (ro_owner rt)"
      using cred [OF z] by (simp add: credible_def)
    then show ?thesis
      using ready ends by (auto simp: justified_def oper)
  qed
qed

lemma prepare_justified:
  assumes v: "answered S v" and c: "\<forall>x \<in> seen S. credible S x" and r: "service_prepare T v g act = Inr oper"
  shows "justified T S g oper"
proof (cases act)
  case ABootstrap
  have "running S CONTROLLER" if "e_checked v CONTROLLER QConfiguration = Inr (ObConfiguration g' (Some z) gs n b)" for g' z gs n b
    using checked_credible [OF v c that] by (simp add: credible_def)
  then show ?thesis
    using r by (auto simp: service_prepare_def ABootstrap prepare_bootstrap_def justified_def rbind_def
        split: sum.splits if_splits observed.splits option.splits bool.splits)
next
  case (ABeginMove rq s e destination)
  then show ?thesis
    using r begin_move_justified [OF v c] by (simp add: service_prepare_def)
next
  case (AAdvance rq step)
  then show ?thesis
    using r advance_step_justified [OF v service_transfer_backed [OF v c]]
    by (auto simp: service_prepare_def prepare_advance_def rbind_Inr_iff split: if_splits)
next
  case (ABeginMaintenance rq target operation)
  then show ?thesis
    using r by (auto simp: service_prepare_def prepare_begin_maintenance_def justified_def rbind_def
        split: if_splits sum.splits observed.splits option.splits)
qed (use r in \<open>auto simp: service_prepare_def justified_def\<close>)

section \<open>The invariant\<close>

text \<open>The highest epoch with which the group has held the shard.\<close>

fun retired_floor :: "retired_state option \<Rightarrow> nat" where
  "retired_floor None = 0"
| "retired_floor (Some r) = mv_epoch (ap_movement (rs_activation r))"

fun slot_floor :: "slot option \<Rightarrow> nat" where
  "slot_floor None = 0"
| "slot_floor (Some (Active e _)) = e"
| "slot_floor (Some (Fenced im _)) = mv_previous (im_movement im)"
| "slot_floor (Some (Installing _ _ previous)) = retired_floor previous"
| "slot_floor (Some (Installed _ previous)) = retired_floor previous"
| "slot_floor (Some (Retired a _)) = mv_epoch (ap_movement a)"

lemma floor_before_install [simp]: "slot_floor (before_install previous) = retired_floor previous"
  by (cases previous) (simp_all add: before_install_def)

definition route_of :: "controller \<Rightarrow> shard_id \<Rightarrow> nat \<Rightarrow> group_id \<Rightarrow> bool" where
  "route_of c s e g \<longleftrightarrow> s < length (c_routes c) \<and> ro_epoch (c_routes c ! s) = e \<and> ro_owner (c_routes c ! s) = g"

definition owned_move :: "system \<Rightarrow> movement \<Rightarrow> bool" where
  "owned_move S m \<longleftrightarrow> (\<exists>ow. owned_with S ow \<and> op_movement ow = m)"

definition retired_ok :: "system \<Rightarrow> shard_id \<Rightarrow> retired_state option \<Rightarrow> bool" where
  "retired_ok S s previous \<longleftrightarrow>
     (\<forall>r. previous = Some r \<longrightarrow> owned_with S (ap_ownership (rs_activation r)) \<and> mv_shard (ap_movement (rs_activation r)) = s)"

definition installing_ok :: "system \<Rightarrow> group_id \<Rightarrow> shard_id \<Rightarrow> image_proof \<Rightarrow> retired_state option \<Rightarrow> bool" where
  "installing_ok S g s im previous \<longleftrightarrow>
     seen_fenced S im \<and> mv_destination (im_movement im) = g \<and> mv_shard (im_movement im) = s \<and>
     retired_floor previous < mv_epoch (im_movement im) \<and> retired_ok S s previous"

fun slot_ok :: "system \<Rightarrow> group_id \<Rightarrow> shard_id \<Rightarrow> slot \<Rightarrow> bool" where
  "slot_ok S g s (Active e _) = route_of (ctl S) s e g"
| "slot_ok S g s (Fenced im _) =
     (let m = im_movement im in moving S m \<and> movement_ok m \<and> mv_source m = g \<and> mv_shard m = s \<and>
        (owned_move S m \<or> route_of (ctl S) s (mv_previous m) g))"
| "slot_ok S g s (Installing im _ previous) = installing_ok S g s im previous"
| "slot_ok S g s (Installed inst previous) = installing_ok S g s (ip_image inst) previous"
| "slot_ok S g s (Retired a _) = (owned_with S (ap_ownership a) \<and> mv_shard (ap_movement a) = s)"

definition buried :: "system \<Rightarrow> group_id \<Rightarrow> movement \<Rightarrow> bool" where
  "buried S g m \<longleftrightarrow> (\<exists>k r. bt_get (d_aborted (grp S g)) k = Some r \<and> ab_movement (ar_abort r) = m)"

definition fence_kept :: "system \<Rightarrow> image_proof \<Rightarrow> bool" where
  "fence_kept S im \<longleftrightarrow>
     (let m = im_movement im; g = mv_source m; sl = slot_at (grp S g) (mv_shard m) in
      moving S m \<and> movement_ok m \<and> mv_previous m \<le> slot_floor sl \<and>
      ((\<exists>p. sl = Some (Fenced im p)) \<or> buried S g m \<or> mv_epoch m \<le> slot_floor sl))"

definition data_inv :: "system \<Rightarrow> group_id \<Rightarrow> bool" where
  "data_inv S g \<longleftrightarrow>
     d_group (grp S g) = g \<and>
     (\<forall>s sl. slot_at (grp S g) s = Some sl \<longrightarrow> slot_ok S g s sl) \<and>
     (d_initialized (grp S g) = None \<longrightarrow> (\<forall>s. slot_at (grp S g) s = None)) \<and>
     (d_initialized (grp S g) \<noteq> None \<longrightarrow> running S CONTROLLER) \<and>
     (\<forall>k r. bt_get (d_aborted (grp S g)) k = Some r \<longrightarrow> given_up S (ar_abort r))"

definition transfer_inv :: "system \<Rightarrow> transfer \<Rightarrow> bool" where
  "transfer_inv S t \<longleftrightarrow>
     mv_epoch (tr_movement t) = Suc (mv_previous (tr_movement t)) \<and> ti_index (mv_id (tr_movement t)) \<le> c_applied (ctl S) \<and>
     mv_shard (tr_movement t) < length (c_routes (ctl S)) \<and>
     running S (mv_source (tr_movement t)) \<and> running S (mv_destination (tr_movement t)) \<and> backed S t"

definition chain_inv :: "system \<Rightarrow> movement \<Rightarrow> bool" where
  "chain_inv S m \<longleftrightarrow>
     (let r = c_routes (ctl S) ! mv_shard m in
      mv_epoch m \<le> ro_epoch r \<and> (mv_epoch m = ro_epoch r \<longrightarrow> mv_destination m = ro_owner r) \<and>
      (mv_epoch m < ro_epoch r \<longrightarrow>
        (\<exists>m'. owned_move S m' \<and> mv_shard m' = mv_shard m \<and> mv_previous m' = mv_epoch m \<and> mv_source m' = mv_destination m)))"

definition origin_inv :: "topology \<Rightarrow> system \<Rightarrow> shard_id \<Rightarrow> bool" where
  "origin_inv T S s \<longleftrightarrow>
     route_of (ctl S) s 1 (t_owners T ! s) \<or>
     (\<exists>m. owned_move S m \<and> mv_shard m = s \<and> mv_source m = t_owners T ! s)"

definition controller_inv :: "topology \<Rightarrow> system \<Rightarrow> bool" where
  "controller_inv T S \<longleftrightarrow>
     bt_sorted (c_transfers (ctl S)) \<and>
     (\<forall>rq t. bt_get (c_transfers (ctl S)) rq = Some t \<longrightarrow> transfer_inv S t) \<and>
     (\<forall>rq t rq' t'. bt_get (c_transfers (ctl S)) rq = Some t \<longrightarrow> bt_get (c_transfers (ctl S)) rq' = Some t' \<longrightarrow>
        mv_id (tr_movement t) = mv_id (tr_movement t') \<longrightarrow> rq = rq') \<and>
     (\<forall>m. owned_move S m \<longrightarrow> chain_inv S m) \<and>
     (c_initialized (ctl S) = None \<longrightarrow> c_routes (ctl S) = [] \<and> c_transfers (ctl S) = []) \<and>
     (c_initialized (ctl S) \<noteq> None \<longrightarrow>
        length (c_routes (ctl S)) = length (t_owners T) \<and> (\<forall>s < length (t_owners T). origin_inv T S s))"

definition system_inv :: "topology \<Rightarrow> system \<Rightarrow> bool" where
  "system_inv T S \<longleftrightarrow>
     controller_inv T S \<and> (\<forall>g. g \<noteq> CONTROLLER \<longrightarrow> data_inv S g) \<and> (\<forall>im. seen_fenced S im \<longrightarrow> fence_kept S im) \<and>
     (\<forall>x \<in> seen S. credible S x) \<and> (\<forall>(g, oper) \<in> pool S. justified T S g oper)"

end
