(* ===== verification/Shard_Invariant.thy ===== *)
theory Shard_Invariant
  imports Shard_Ownership
begin

text \<open>
  Every step of the system keeps the ownership invariant: reads and preparations, committed data
  commands, committed controller commands and no-ops.
\<close>

section \<open>Frames\<close>

lemma slot_ok_same: "ctl S' = ctl S \<Longrightarrow> accrues S S' \<Longrightarrow> slot_ok S g s sl \<Longrightarrow> slot_ok S' g s sl"
  by (cases sl) (auto simp: Let_def owned_move_def installing_ok_def retired_ok_def dest: accruesD)

lemma ctl_facts_same:
  assumes "ctl S' = ctl S"
  shows "owned_with S' ow = owned_with S ow" "given_up S' ab = given_up S ab" "moving S' m = moving S m"
    "owned_move S' m = owned_move S m" "chain_inv S' m = chain_inv S m" "origin_inv T S' s = origin_inv T S s"
    "owner_then S' s e w = owner_then S s e w"
  by (simp_all add: assms owned_with_def given_up_def moving_def owned_move_def chain_inv_def origin_inv_def owner_then_def)

lemma controller_inv_same:
  assumes "ctl S' = ctl S" and "accrues S S'" and "controller_inv T S"
  shows "controller_inv T S'"
  using assms(3) accruesD(5) [OF assms(2)] backed_accrues [OF assms(2)]
  unfolding controller_inv_def transfer_inv_def ctl_facts_same [OF assms(1)] assms(1) by blast

lemma data_inv_same:
  assumes "ctl S' = ctl S" and "accrues S S'" and "grp S' g = grp S g" and "data_inv S g"
  shows "data_inv S' g"
  using assms(4) slot_ok_same [OF assms(1,2)] accruesD(3,5) [OF assms(2)]
  unfolding data_inv_def assms(3) by blast

lemma fence_kept_same:
  assumes "accrues S S'" and "grp S' (mv_source (im_movement im)) = grp S (mv_source (im_movement im))" and "fence_kept S im"
  shows "fence_kept S' im"
  using assms(3) accruesD(1) [OF assms(1)] unfolding fence_kept_def buried_def Let_def assms(2) by blast

lemma history_accrues:
  assumes "accrues S S'" and "system_inv T S" and "seen S' = seen S" and "pool S' = pool S"
  shows "(\<forall>x \<in> seen S'. credible S' x) \<and> (\<forall>(g, oper) \<in> pool S'. justified T S' g oper)"
proof -
  have "\<forall>x \<in> seen S. credible S' x"
    using assms(2) credible_accrues [OF assms(1)] unfolding system_inv_def by blast
  moreover have "\<forall>(g, oper) \<in> pool S. justified T S' g oper"
    using assms(2) justified_accrues [OF assms(1)] unfolding system_inv_def by blast
  ultimately show ?thesis by (simp add: assms(3,4))
qed

lemma transfer_invD: "controller_inv T S \<Longrightarrow> bt_get (c_transfers (ctl S)) rq = Some t \<Longrightarrow> transfer_inv S t"
  by (simp add: controller_inv_def)

lemma owned_moveD:
  assumes "controller_inv T S" and "owned_move S m"
  shows "mv_shard m < length (c_routes (ctl S)) \<and> running S (mv_source m) \<and> running S (mv_destination m) \<and>
    mv_epoch m = Suc (mv_previous m) \<and> chain_inv S m"
proof -
  from assms(2) obtain rq t where t: "bt_get (c_transfers (ctl S)) rq = Some t" "tr_movement t = m"
    by (auto simp: owned_move_def owned_with_def)
  then show ?thesis
    using transfer_invD [OF assms(1) t(1)] assms by (simp add: transfer_inv_def controller_inv_def)
qed

lemma moving_image:
  assumes "controller_inv T S" and "owned_move S m"
  shows "\<exists>im. seen_fenced S im \<and> im_movement im = m"
proof -
  from assms(2) obtain rq t ow where t: "bt_get (c_transfers (ctl S)) rq = Some t" "phase_owner (tr_phase t) = Some ow" "tr_movement t = m"
    by (auto simp: owned_move_def owned_with_def)
  moreover have "backed S t"
    using assms(1) t(1) by (auto simp: controller_inv_def transfer_inv_def)
  ultimately show ?thesis
    using phase_owner_image [OF t(2)] by (auto simp: backed_def)
qed

lemma owned_not_given_up:
  assumes c: "controller_inv T S" and "owned_move S m" and "given_up S ab" and "ab_movement ab = m"
  shows False
proof -
  from assms obtain rq t rq' t' ow where t: "bt_get (c_transfers (ctl S)) rq = Some t" "tr_movement t = m" "phase_owner (tr_phase t) = Some ow"
    and t': "bt_get (c_transfers (ctl S)) rq' = Some t'" "tr_movement t' = m" "phase_abort_proof (tr_phase t') = Some ab"
    by (auto simp: owned_move_def owned_with_def given_up_def)
  then have "rq = rq'"
    using c unfolding controller_inv_def by metis
  then show False
    using t t' phase_owner_not_aborted by fastforce
qed

section \<open>Reads and preparations\<close>

lemma accrues_seen: "accrues S (S\<lparr>seen := insert x (seen S)\<rparr>)"
  by (auto simp: accrues_def moving_def owned_with_def given_up_def seen_fenced_def running_def owner_then_def Let_def)

lemma accrues_pool: "accrues S (S\<lparr>pool := x\<rparr>)"
  by (auto simp: accrues_def moving_def owned_with_def given_up_def seen_fenced_def running_def owner_then_def Let_def)

lemma data_query_fenced:
  "data_query F d (QShard s) = Inr (ObShard g' s' (VFenced im)) \<Longrightarrow> g' = d_group d \<and> s' = s \<and> (\<exists>p. slot_at d s = Some (Fenced im p))"
  by (auto simp: data_query_def slot_at_def split: if_splits option.splits elim: slot_view.elims)

lemma controller_query_credible:
  assumes c: "controller_inv T S" and x: "controller_query (ctl S) q = Inr x"
  shows "credible S (CONTROLLER, q, x)"
proof (cases q)
  case (QTransfer rq)
  have "backed S t" if "bt_get (c_transfers (ctl S)) rq = Some t" for t
    using c that by (auto simp: controller_inv_def transfer_inv_def)
  then show ?thesis
    using x by (cases "bt_get (c_transfers (ctl S)) rq") (auto simp: QTransfer controller_query_def credible_def split: if_splits)
next
  case (QRoute s)
  then show ?thesis
    using x by (auto simp: controller_query_def credible_def route_at_def owner_then_def rbind_Inr_iff split: if_splits)
next
  case QConfiguration
  then show ?thesis
    using x by (cases "c_initialized (ctl S)") (auto simp: controller_query_def credible_def running_def)
qed (use x in \<open>simp_all add: controller_query_def credible_def\<close>)

lemma data_query_credible:
  assumes d: "data_inv S g" and g: "g \<noteq> CONTROLLER" and x: "data_query F (grp S g) q = Inr x"
  shows "credible S (g, q, x)"
proof (cases q)
  case (QShard s)
  have fenced: "mv_source (im_movement im) = g \<and> mv_shard (im_movement im) = s" if "slot_at (grp S g) s = Some (Fenced im p)" for im p
    using d that by (fastforce simp: data_inv_def Let_def)
  from x obtain view where view: "x = ObShard g s view"
    using d by (auto simp: QShard data_query_def data_inv_def split: if_splits)
  show ?thesis
  proof (cases view)
    case (VFenced im)
    then show ?thesis
      using data_query_fenced [of F "grp S g" s g s im] x fenced by (auto simp: QShard view credible_def)
  qed (simp_all add: QShard view credible_def)
next
  case QConfiguration
  then show ?thesis
    using x g by (cases "d_initialized (grp S g)") (auto simp: data_query_def credible_def running_def)
qed (use x in \<open>simp_all add: data_query_def credible_def\<close>)

lemma read_keeps:
  assumes inv: "system_inv T S" and q: "machine_query X (machine_at S g) q = Inr x"
  shows "system_inv T (S\<lparr>seen := insert (g, q, x) (seen S)\<rparr>)" (is "system_inv T ?S'")
proof -
  note grow = accrues_seen [of S "(g, q, x)"]
  have c: "controller_inv T S" and d: "\<And>g. g \<noteq> CONTROLLER \<Longrightarrow> data_inv S g"
    using inv by (auto simp: system_inv_def)
  have new: "credible S (g, q, x)"
    using q controller_query_credible [OF c] data_query_credible [OF d]
    by (auto simp: machine_at_def split: if_splits)
  have fence: "fence_kept ?S' im" if seen: "seen_fenced ?S' im" for im
  proof (cases "seen_fenced S im")
    case True
    then show ?thesis
      using inv fence_kept_same [OF grow] by (auto simp: system_inv_def)
  next
    case False
    let ?m = "im_movement im"
    from False seen have eq: "g = mv_source ?m" "q = QShard (mv_shard ?m)" "x = ObShard (mv_source ?m) (mv_shard ?m) (VFenced im)"
      by (auto simp: seen_fenced_def Let_def)
    then have g: "g \<noteq> CONTROLLER"
      using q by (auto simp: machine_at_def controller_query_def)
    then obtain p where p: "slot_at (grp S g) (mv_shard ?m) = Some (Fenced im p)"
      using q eq data_query_fenced [of "x_data X" "grp S g" "mv_shard ?m" "mv_source ?m" "mv_shard ?m" im]
      by (auto simp: machine_at_def)
    then have "slot_ok S g (mv_shard ?m) (Fenced im p)"
      using d [OF g] unfolding data_inv_def by blast
    then show ?thesis
      using p eq(1) accruesD(1) [OF grow] by (auto simp: fence_kept_def Let_def)
  qed
  show ?thesis
    unfolding system_inv_def
  proof (intro conjI allI impI ballI)
    show "controller_inv T ?S'" by (rule controller_inv_same [OF _ grow c]) simp
    show "data_inv ?S' h" if "h \<noteq> CONTROLLER" for h by (rule data_inv_same [OF _ grow _ d [OF that]]) simp_all
    show "fence_kept ?S' im" if "seen_fenced ?S' im" for im by (rule fence [OF that])
    show "credible ?S' y" if "y \<in> seen ?S'" for y
      using that inv credible_accrues [OF grow new] credible_accrues [OF grow, of y] unfolding system_inv_def by auto
    show "case y of (h, oper) \<Rightarrow> justified T ?S' h oper" if "y \<in> pool ?S'" for y
      using that inv justified_accrues [OF grow] by (auto simp: system_inv_def)
  qed
qed

lemma pool_keeps:
  assumes inv: "system_inv T S" and j: "justified T S g oper"
  shows "system_inv T (S\<lparr>pool := insert (g, oper) (pool S)\<rparr>)" (is "system_inv T ?S'")
proof -
  note grow = accrues_pool [of S "insert (g, oper) (pool S)"]
  have fenced: "seen_fenced ?S' im = seen_fenced S im" for im
    by (simp add: seen_fenced_def)
  show ?thesis
    unfolding system_inv_def
  proof (intro conjI allI impI ballI)
    show "controller_inv T ?S'" using inv by (auto simp: system_inv_def intro: controller_inv_same [OF _ grow])
    show "data_inv ?S' h" if "h \<noteq> CONTROLLER" for h
      using inv that by (auto simp: system_inv_def intro: data_inv_same [OF _ grow])
    show "fence_kept ?S' im" if "seen_fenced ?S' im" for im
      using inv that by (auto simp: system_inv_def fenced intro: fence_kept_same [OF grow])
    show "credible ?S' y" if "y \<in> seen ?S'" for y
      using that inv credible_accrues [OF grow, of y] unfolding system_inv_def by auto
    show "case y of (h, oper) \<Rightarrow> justified T ?S' h oper" if "y \<in> pool ?S'" for y
      using that inv j justified_accrues [OF grow] by (auto simp: system_inv_def)
  qed
qed

section \<open>Committed data commands\<close>

lemma floor_rises:
  assumes "slot_moves d cmd s old new" and "\<And>sl. old = Some sl \<Longrightarrow> slot_ok S g s sl" and "d_initialized d = None \<Longrightarrow> old = None"
  shows "slot_floor old \<le> slot_floor new"
  using assms
proof cases
  case (move_activate ow previous a)
  then show ?thesis
    using assms(2) [of "Installed (op_installation ow) previous"] by (simp add: installing_ok_def)
next
  case (move_cleanup a previous cleaned)
  then have "movement_ok (ap_movement a)"
    by (simp add: activation_valid_def ownership_valid_def installed_valid_def image_valid_def)
  then show ?thesis
    using move_cleanup by (simp add: movement_ok_epoch)
qed (use assms(3) in auto)

lemma floor_bounds_route:
  assumes inv: "system_inv T S" and g: "g \<noteq> CONTROLLER" and s: "s < length (c_routes (ctl S))"
  shows "slot_floor (slot_at (grp S g) s) \<le> ro_epoch (c_routes (ctl S) ! s)"
proof (cases "slot_at (grp S g) s")
  case (Some sl)
  have ok: "slot_ok S g s sl"
    using inv g Some unfolding system_inv_def data_inv_def by blast
  have owned: "mv_epoch m \<le> ro_epoch (c_routes (ctl S) ! s)" if "owned_move S m" "mv_shard m = s" for m
    using inv that unfolding system_inv_def controller_inv_def chain_inv_def Let_def by blast
  have retired: "retired_floor previous \<le> ro_epoch (c_routes (ctl S) ! s)" if "retired_ok S s previous" for previous
    using that owned by (cases previous) (auto simp: retired_ok_def owned_move_def)
  show ?thesis
  proof (cases sl)
    case (Active e a)
    then show ?thesis using ok Some by (simp add: route_of_def)
  next
    case (Fenced im p)
    then show ?thesis
      using ok Some owned [of "im_movement im"] by (auto simp: Let_def route_of_def movement_ok_epoch)
  next
    case (Installing im bs p)
    then show ?thesis using ok Some retired by (simp add: installing_ok_def)
  next
    case (Installed inst p)
    then show ?thesis using ok Some retired by (simp add: installing_ok_def)
  next
    case (Retired a z)
    then show ?thesis using ok Some owned by (auto simp: owned_move_def)
  qed
qed simp

lemma activation_routed:
  assumes inv: "system_inv T S" and g: "g \<noteq> CONTROLLER" and ow: "owned_with S ow" and dst: "mv_destination (op_movement ow) = g"
    and low: "slot_floor (slot_at (grp S g) (mv_shard (op_movement ow))) < mv_epoch (op_movement ow)"
  shows "route_of (ctl S) (mv_shard (op_movement ow)) (mv_epoch (op_movement ow)) g"
proof -
  let ?m = "op_movement ow"
  have c: "controller_inv T S"
    using inv by (simp add: system_inv_def)
  have "owned_move S ?m"
    using ow by (auto simp: owned_move_def)
  then have chain: "chain_inv S ?m" and len: "mv_shard ?m < length (c_routes (ctl S))"
    using owned_moveD [OF c] by auto
  have "\<not> mv_epoch ?m < ro_epoch (c_routes (ctl S) ! mv_shard ?m)"
  proof
    assume "mv_epoch ?m < ro_epoch (c_routes (ctl S) ! mv_shard ?m)"
    then obtain m' where m': "owned_move S m'" "mv_shard m' = mv_shard ?m" "mv_previous m' = mv_epoch ?m" "mv_source m' = g"
      using chain dst by (auto simp: chain_inv_def Let_def)
    from moving_image [OF c m'(1)] obtain im where "seen_fenced S im" "im_movement im = m'"
      by blast
    then have "fence_kept S im"
      using inv by (simp add: system_inv_def)
    then have "mv_previous m' \<le> slot_floor (slot_at (grp S g) (mv_shard m'))"
      using m'(4) \<open>im_movement im = m'\<close> by (auto simp: fence_kept_def Let_def)
    then show False
      using low m' by simp
  qed
  then show ?thesis
    using chain len dst by (auto simp: chain_inv_def route_of_def Let_def)
qed

lemma owned_shards_owner: "s \<in> set (owned_shards T g) \<Longrightarrow> s < length (t_owners T) \<and> t_owners T ! s = g"
  by (auto simp: owned_shards_def in_set_enumerate_eq)

lemma first_owner_routed:
  assumes c: "controller_inv T S" and run: "running S CONTROLLER" and g: "g \<noteq> CONTROLLER" "\<not> running S g" and s: "s \<in> set (owned_shards T g)"
  shows "route_of (ctl S) s 1 g"
proof -
  have owner: "s < length (t_owners T)" "t_owners T ! s = g"
    using owned_shards_owner [OF s] by auto
  have "origin_inv T S s"
    using c run owner by (simp add: controller_inv_def running_def)
  moreover have "mv_source m \<noteq> g" if "owned_move S m" for m
    using owned_moveD [OF c that] g by auto
  ultimately show ?thesis
    using owner by (auto simp: origin_inv_def)
qed

lemma backed_out_ok: "retired_ok S s previous \<Longrightarrow> before_install previous = Some sl \<Longrightarrow> slot_ok S g s sl"
  by (auto simp: retired_ok_def before_install_def)

lemma moved_slot_ok:
  assumes inv: "system_inv T S" and g: "g \<noteq> CONTROLLER" and j: "justified T S g (OData cmd)"
    and d: "d_group d = g" "d_initialized d = d_initialized (grp S g)"
    and mv: "slot_moves d cmd s (slot_at (grp S g) s) (Some sl)"
  shows "slot_ok S g s sl"
proof -
  have c: "controller_inv T S" and di: "data_inv S g"
    using inv g by (auto simp: system_inv_def)
  have ok: "slot_ok S g s sl'" if "slot_at (grp S g) s = Some sl'" for sl'
    using di that unfolding data_inv_def by blast
  from mv show ?thesis
  proof cases
    case (move_initialize owned n gs)
    then show ?thesis
      using first_owner_routed [OF c _ g, of s] j g d by (simp add: justified_def running_def)
  next
    case (move_fence m im a)
    then show ?thesis
      using ok [of "Active (mv_previous m) a"] j d by (simp add: justified_def Let_def)
  next
    case (move_begin im previous)
    have "movement_ok (im_movement im)"
      using move_begin by (simp add: image_valid_def)
    then have pos: "retired_floor previous < mv_epoch (im_movement im)"
      using move_begin by (cases previous) (simp_all add: movement_ok_epoch)
    have "retired_ok S s previous"
      using ok move_begin(3) by (auto simp: retired_ok_def before_install_def)
    then show ?thesis
      using move_begin j pos d by (simp add: justified_def installing_ok_def)
  next
    case (move_activate ow previous a)
    then have "installing_ok S g s (ip_image (op_installation ow)) previous"
      using ok [of "Installed (op_installation ow) previous"] by simp
    then show ?thesis
      using activation_routed [OF inv g, of ow] move_activate j d by (simp add: justified_def installing_ok_def)
  next
    case (move_cleanup a previous cleaned)
    then show ?thesis
      using j by (simp add: justified_def)
  next
    case (move_abort_source im ab previous)
    then have "\<not> owned_move S (im_movement im)"
      using owned_not_given_up [OF c] j by (auto simp: justified_def)
    then show ?thesis
      using ok [of "Fenced im previous"] move_abort_source by (simp add: Let_def)
  next
    case (move_abort_installing im ab bs previous)
    then show ?thesis
      using ok [of "Installing im bs previous"] backed_out_ok [of S s previous sl g] by (simp add: installing_ok_def)
  next
    case (move_abort_installed inst ab previous)
    then show ?thesis
      using ok [of "Installed inst previous"] backed_out_ok [of S s previous sl g] by (simp add: installing_ok_def)
  qed (use ok in \<open>auto simp: installing_ok_def\<close>)
qed

lemma data_step_fences:
  assumes inv: "system_inv T S" and g: "g \<noteq> CONTROLLER" and im: "seen_fenced S im" and src: "mv_source (im_movement im) = g"
    and f: "data_follows d i cmd d'" and d: "d_group d = g" "d_initialized d = d_initialized (grp S g)"
      "d_aborted d = d_aborted (grp S g)" "\<And>s. slot_at d s = slot_at (grp S g) s"
    and S': "S' = S\<lparr>grp := (grp S)(g := d')\<rparr>"
  shows "fence_kept S' im"
proof -
  let ?m = "im_movement im" and ?s = "mv_shard (im_movement im)"
  have di: "data_inv S g"
    using inv g by (simp add: system_inv_def)
  have kept: "fence_kept S im"
    using inv im by (simp add: system_inv_def)
  have new: "grp S' g = d'" by (simp add: S')
  have mv: "slot_at d' ?s = slot_at d ?s \<or> slot_moves d cmd ?s (slot_at d ?s) (slot_at d' ?s)"
    using f by (auto simp: data_follows_def slots_follow_def)
  have ok: "slot_ok S g ?s sl" if "slot_at d ?s = Some sl" for sl
    using di that d unfolding data_inv_def by auto
  have low: "slot_floor (slot_at d ?s) \<le> slot_floor (slot_at d' ?s)"
    using mv floor_rises [of d cmd ?s "slot_at d ?s" "slot_at d' ?s" S g] ok di d by (auto simp: data_inv_def)
  have dead: "buried S' g ?m" if "buried S g ?m"
  proof -
    from that obtain k r where kr: "bt_get (d_aborted d) k = Some r" "ab_movement (ar_abort r) = ?m"
      using d(3) by (auto simp: buried_def)
    then have "bt_get (d_aborted d') k = Some r"
      using f by (auto simp: data_follows_def bt_get_insert)
    then show ?thesis using kr by (auto simp: buried_def new)
  qed
  have "(\<exists>p. slot_at d' ?s = Some (Fenced im p)) \<or> buried S' g ?m \<or> mv_epoch ?m \<le> slot_floor (slot_at d' ?s)"
    if p: "slot_at d ?s = Some (Fenced im p)" for p
  proof (cases "slot_at d' ?s = slot_at d ?s")
    case False
    then have "slot_moves d cmd ?s (Some (Fenced im p)) (slot_at d' ?s)"
      using mv p by simp
    then show ?thesis
    proof cases
      case (move_initialize owned n gs)
      then show ?thesis
        using p di d by (simp add: data_inv_def)
    next
      case (move_begin im' previous)
      then show ?thesis by (cases previous) (simp_all add: before_install_def)
    next
      case (move_cleanup a cleaned)
      then show ?thesis by simp
    next
      case (move_abort_source ab)
      then have "bt_get (d_aborted d') (transfer_key (mv_id (ab_movement ab))) = Some \<lparr>ar_abort = ab, ar_recovered = \<lparr>o_group = d_group d, o_index = i\<rparr>\<rparr>"
        using f False by (auto simp: data_follows_def bt_get_insert)
      then have "buried S' g ?m"
        using move_abort_source unfolding buried_def new by fastforce
      then show ?thesis by blast
    qed
  qed (use p in simp)
  then show ?thesis
    using kept low dead src d(4) unfolding fence_kept_def Let_def
    by (auto simp: new moving_def S' intro: order_trans)
qed

lemma data_step_keeps:
  assumes inv: "system_inv T S" and g: "g \<noteq> CONTROLLER" and j: "justified T S g (OData cmd)"
    and f: "data_follows d i cmd d'" and d: "d_group d = g" "d_initialized d = d_initialized (grp S g)"
      "d_aborted d = d_aborted (grp S g)" "\<And>s. slot_at d s = slot_at (grp S g) s"
  shows "system_inv T (S\<lparr>grp := (grp S)(g := d')\<rparr>)" (is "system_inv T ?S'")
proof -
  have di: "data_inv S g"
    using inv g by (simp add: system_inv_def)
  have grow: "accrues S ?S'"
    using f d by (auto simp: accrues_def moving_def owned_with_def given_up_def seen_fenced_def running_def owner_then_def Let_def data_follows_def)
  have same: "ctl ?S' = ctl S" by simp
  have slots: "slot_ok ?S' g s sl" if sl: "slot_at d' s = Some sl" for s sl
  proof -
    consider "slot_at d' s = slot_at (grp S g) s" | "slot_moves d cmd s (slot_at (grp S g) s) (Some sl)"
      using f sl d(4) unfolding data_follows_def slots_follow_def by metis
    then have "slot_ok S g s sl"
      using di sl moved_slot_ok [OF inv g j d(1,2)] unfolding data_inv_def by cases auto
    then show ?thesis by (rule slot_ok_same [OF same grow])
  qed
  have tomb: "given_up S (ar_abort r)" if "bt_get (d_aborted d') k = Some r" for k r
    using that f di j d(3) by (auto simp: data_follows_def data_inv_def justified_def bt_get_insert split: if_splits)
  have "data_inv ?S' g"
    unfolding data_inv_def
  proof (intro conjI allI impI)
    show "d_group (grp ?S' g) = g"
      using f d by (simp add: data_follows_def slots_follow_def)
    show "running ?S' CONTROLLER" if "d_initialized (grp ?S' g) \<noteq> None"
      using that f di j d accruesD(5) [OF grow] by (auto simp: data_follows_def data_inv_def is_initialize_def justified_def split: data_command.splits)
    show "slot_at (grp ?S' g) s = None" if "d_initialized (grp ?S' g) = None" for s
      using that f by (auto simp: data_follows_def)
  qed (use slots tomb accruesD(3) [OF grow] in auto)
  moreover have "data_inv ?S' h" if "h \<noteq> CONTROLLER" "h \<noteq> g" for h
    using that inv by (auto simp: system_inv_def intro: data_inv_same [OF same grow])
  moreover have "fence_kept ?S' im" if "seen_fenced ?S' im" for im
  proof -
    have im: "seen_fenced S im" using that by (simp add: seen_fenced_def)
    show ?thesis
    proof (cases "mv_source (im_movement im) = g")
      case True
      show ?thesis by (rule data_step_fences [OF inv g im True f d refl])
    next
      case False
      then show ?thesis
        using inv im by (auto simp: system_inv_def intro: fence_kept_same [OF grow])
    qed
  qed
  ultimately show ?thesis
    using inv controller_inv_same [OF same grow, of T] history_accrues [OF grow inv] unfolding system_inv_def by auto
qed

section \<open>Committed controller commands\<close>

text \<open>
  The parts of the invariant about data groups, when only the controller moves: what is left to
  show is the slots and the controller itself.
\<close>

lemma controller_step_keeps:
  assumes inv: "system_inv T S" and S': "S' = S\<lparr>ctl := c\<rparr>" and grow: "accrues S S'" and c: "controller_inv T S'"
    and slots: "\<And>g s sl. g \<noteq> CONTROLLER \<Longrightarrow> slot_at (grp S g) s = Some sl \<Longrightarrow> slot_ok S g s sl \<Longrightarrow> slot_ok S' g s sl"
  shows "system_inv T S'"
proof -
  have d: "data_inv S' g" if "g \<noteq> CONTROLLER" for g
    using that inv slots accruesD(3,5) [OF grow] unfolding system_inv_def data_inv_def by (auto simp: S')
  have f: "fence_kept S' im" if "seen_fenced S' im" for im
    using that inv fence_kept_same [OF grow] by (auto simp: S' system_inv_def seen_fenced_def)
  show ?thesis
    using c d f history_accrues [OF grow inv] unfolding system_inv_def by (simp add: S')
qed

lemma routes_alike:
  assumes "c_routes c' = (c_routes c)[k := (c_routes c ! k)\<lparr>ro_transfer := x\<rparr>]"
  shows "length (c_routes c') = length (c_routes c)"
    and "s < length (c_routes c) \<Longrightarrow> ro_epoch (c_routes c' ! s) = ro_epoch (c_routes c ! s)"
    and "s < length (c_routes c) \<Longrightarrow> ro_owner (c_routes c' ! s) = ro_owner (c_routes c ! s)"
    and "route_of c' s e g = route_of c s e g"
proof -
  show len: "length (c_routes c') = length (c_routes c)" by (simp add: assms)
  have "ro_epoch (c_routes c' ! s) = ro_epoch (c_routes c ! s) \<and> ro_owner (c_routes c' ! s) = ro_owner (c_routes c ! s)"
    if "s < length (c_routes c)" for s
    using that by (cases "s = k") (simp_all add: assms)
  then show "s < length (c_routes c) \<Longrightarrow> ro_epoch (c_routes c' ! s) = ro_epoch (c_routes c ! s)"
    "s < length (c_routes c) \<Longrightarrow> ro_owner (c_routes c' ! s) = ro_owner (c_routes c ! s)"
    "route_of c' s e g = route_of c s e g"
    using len by (auto simp: route_of_def)
qed

text \<open>
  A command that changes no owner and no epoch, and no ownership proof: enough that the transfers
  keep their invariant.
\<close>

lemma unrouted_step_keeps:
  assumes inv: "system_inv T S" and S': "S' = S\<lparr>ctl := c\<rparr>" and grow: "accrues S S'"
    and routes: "c_routes c = (c_routes (ctl S))[k := (c_routes (ctl S) ! k)\<lparr>ro_transfer := x\<rparr>]"
    and owned: "\<And>ow. owned_with S' ow = owned_with S ow"
    and ini: "c_initialized c = c_initialized (ctl S)" "c_initialized (ctl S) = None \<Longrightarrow> c_transfers c = []"
    and srt: "bt_sorted (c_transfers c)" and trs: "\<And>rq t. bt_get (c_transfers c) rq = Some t \<Longrightarrow> transfer_inv S' t"
    and ids: "\<And>rq t rq' t'. bt_get (c_transfers c) rq = Some t \<Longrightarrow> bt_get (c_transfers c) rq' = Some t' \<Longrightarrow>
      mv_id (tr_movement t) = mv_id (tr_movement t') \<Longrightarrow> rq = rq'"
  shows "system_inv T S'"
proof (rule controller_step_keeps [OF inv S' grow])
  have ci: "controller_inv T S"
    using inv by (simp add: system_inv_def)
  have ctl: "ctl S' = c" by (simp add: S')
  note alike = routes_alike [OF routes]
  have om: "owned_move S' m = owned_move S m" for m
    by (simp add: owned_move_def owned)
  have chain: "chain_inv S' m = chain_inv S m" if "mv_shard m < length (c_routes (ctl S))" for m
    using alike(2,3) [OF that] by (simp add: chain_inv_def om ctl Let_def)
  have "chain_inv S' m" if "owned_move S m" for m
    using owned_moveD [OF ci that] chain by blast
  moreover have "origin_inv T S' s = origin_inv T S s" for s
    by (simp add: origin_inv_def om ctl alike)
  ultimately show "controller_inv T S'"
    using ci srt trs ids ini unfolding controller_inv_def om ctl by (simp add: alike routes)
  show "slot_ok S' g s sl" if "slot_ok S g s sl" for g s sl
    using that accruesD(1,2,4) [OF grow] by (cases sl) (auto simp: Let_def om ctl alike installing_ok_def retired_ok_def)
qed

text \<open>Facts about some stored entry, when one entry is written.\<close>

lemma ex_insert_mono:
  assumes "\<exists>k v. bt_get m k = Some v \<and> P v" and "\<And>v. bt_get m k0 = Some v \<Longrightarrow> P v \<Longrightarrow> P v0"
  shows "\<exists>k v. bt_get (bt_insert k0 v0 m) k = Some v \<and> P v"
proof -
  from assms(1) obtain k v where kv: "bt_get m k = Some v" "P v" by blast
  have "bt_get (bt_insert k0 v0 m) k = Some (if k = k0 then v0 else v) \<and> P (if k = k0 then v0 else v)"
    using kv assms(2) by (auto simp: bt_get_insert)
  then show ?thesis by blast
qed

lemma ex_insert_back:
  assumes "\<exists>k v. bt_get (bt_insert k0 v0 m) k = Some v \<and> P v" and "P v0 \<Longrightarrow> \<exists>v. bt_get m k0 = Some v \<and> P v"
  shows "\<exists>k v. bt_get m k = Some v \<and> P v"
proof -
  from assms(1) obtain k v where "bt_get (bt_insert k0 v0 m) k = Some v" "P v" by blast
  then show ?thesis
    using assms(2) by (cases "k = k0") (auto simp: bt_get_insert)
qed

lemma begin_step_keeps:
  assumes inv: "system_inv T S" and j: "justified T S CONTROLLER (OController (CBegin rq s e destination))"
    and ini: "c_initialized c = c_initialized (ctl S)" "c_initialized (ctl S) \<noteq> None"
    and app: "c_applied c = i" "i = Suc (c_applied (ctl S))"
    and new: "bt_get (c_transfers (ctl S)) rq = None" "s < length (c_routes (ctl S))" "ro_epoch (c_routes (ctl S) ! s) = e"
      "tr_phase t = PStarted"
    and m: "tr_movement t = \<lparr>mv_id = \<lparr>ti_shard = s, ti_epoch = Suc e, ti_index = i\<rparr>, mv_source = ro_owner (c_routes (ctl S) ! s),
      mv_destination = destination, mv_previous = e\<rparr>"
    and routes: "c_routes c = (c_routes (ctl S))[s := (c_routes (ctl S) ! s)\<lparr>ro_transfer := x\<rparr>]"
    and trs: "c_transfers c = bt_insert rq t (c_transfers (ctl S))"
  shows "system_inv T (S\<lparr>ctl := c\<rparr>)" (is "system_inv T ?S'")
proof -
  have ci: "controller_inv T S"
    using inv by (simp add: system_inv_def)
  note alike = routes_alike [OF routes]
  have get: "bt_get (c_transfers c) rq' = (if rq' = rq then Some t else bt_get (c_transfers (ctl S)) rq')" for rq'
    by (simp add: trs bt_get_insert)
  have owned: "owned_with ?S' ow = owned_with S ow" for ow
    using ex_insert_mono [of "c_transfers (ctl S)" "\<lambda>t. phase_owner (tr_phase t) = Some ow \<and> tr_movement t = op_movement ow" rq "t"]
      ex_insert_back [of rq "t" "c_transfers (ctl S)" "\<lambda>t. phase_owner (tr_phase t) = Some ow \<and> tr_movement t = op_movement ow"]
    by (auto simp: owned_with_def new trs)
  have mono: "moving ?S' m" if "moving S m" for m
    using that ex_insert_mono [of "c_transfers (ctl S)" _ rq t] by (simp add: moving_def trs new)
  have ab: "given_up ?S' ab" if "given_up S ab" for ab
    using that ex_insert_mono [of "c_transfers (ctl S)" _ rq t] by (simp add: given_up_def trs new)
  have grow: "accrues S ?S'"
    using mono ab owned alike by (auto simp: accrues_def seen_fenced_def running_def owner_then_def ini get)
  have ends: "running S (ro_owner (c_routes (ctl S) ! s)) \<and> running S destination"
    using j new by (auto simp: justified_def owner_then_def)
  have inv_t: "transfer_inv ?S' t"
    using ends new(2,4) accruesD(5) [OF grow] by (auto simp: transfer_inv_def m app alike backed_def moving_def get)
  have inv_old: "transfer_inv ?S' t'" if "bt_get (c_transfers (ctl S)) rq' = Some t'" for rq' t'
    using transfer_invD [OF ci that] accruesD(5) [OF grow] backed_accrues [OF grow] by (auto simp: transfer_inv_def alike app)
  have old_id: "mv_id (tr_movement t') \<noteq> mv_id (tr_movement t)" if "bt_get (c_transfers (ctl S)) rq' = Some t'" for rq' t'
    using transfer_invD [OF ci that] by (auto simp: transfer_inv_def m app)
  show ?thesis
  proof (rule unrouted_step_keeps [OF inv refl grow routes owned ini(1)])
    show "bt_sorted (c_transfers c)"
      using ci by (simp add: trs bt_sorted_insert controller_inv_def)
    show "transfer_inv ?S' t'" if "bt_get (c_transfers c) rq' = Some t'" for rq' t'
      using that inv_t inv_old by (auto simp: get split: if_splits)
    show "rq1 = rq2" if "bt_get (c_transfers c) rq1 = Some t1" "bt_get (c_transfers c) rq2 = Some t2"
      "mv_id (tr_movement t1) = mv_id (tr_movement t2)" for rq1 t1 rq2 t2
      using that old_id [of rq1 t1] old_id [of rq2 t2] ci unfolding controller_inv_def get by (auto split: if_splits)
  qed (use ini in simp)
qed

lemma phase_step_keeps:
  assumes inv: "system_inv T S" and j: "justified T S CONTROLLER (OController cmd)"
    and ini: "c_initialized c = c_initialized (ctl S)" and app: "c_applied c = i" "i = Suc (c_applied (ctl S))"
    and t: "bt_get (c_transfers (ctl S)) rq = Some t" and mv: "phase_moves (tr_movement t) k cmd (tr_phase t) p"
    and own: "phase_owner p = phase_owner (tr_phase t)"
    and routes: "c_routes c = (c_routes (ctl S))[r := (c_routes (ctl S) ! r)\<lparr>ro_transfer := x\<rparr>]"
    and trs: "c_transfers c = bt_insert rq (t\<lparr>tr_phase := p\<rparr>) (c_transfers (ctl S))"
  shows "system_inv T (S\<lparr>ctl := c\<rparr>)" (is "system_inv T ?S'")
proof -
  have ci: "controller_inv T S"
    using inv by (simp add: system_inv_def)
  note alike = routes_alike [OF routes]
  have get: "bt_get (c_transfers c) rq' = (if rq' = rq then Some (t\<lparr>tr_phase := p\<rparr>) else bt_get (c_transfers (ctl S)) rq')" for rq'
    by (simp add: trs bt_get_insert)
  let ?t = "t\<lparr>tr_phase := p\<rparr>"
  have owned: "owned_with ?S' ow = owned_with S ow" for ow
    using ex_insert_mono [of "c_transfers (ctl S)" "\<lambda>t. phase_owner (tr_phase t) = Some ow \<and> tr_movement t = op_movement ow" rq "?t"]
      ex_insert_back [of rq "?t" "c_transfers (ctl S)" "\<lambda>t. phase_owner (tr_phase t) = Some ow \<and> tr_movement t = op_movement ow"]
    by (auto simp: owned_with_def t own trs)
  have mono: "moving ?S' m" if "moving S m" for m
    using that ex_insert_mono [of "c_transfers (ctl S)" _ rq ?t] by (simp add: moving_def trs t)
  have ab: "given_up ?S' ab" if "given_up S ab" for ab
    using that phase_moves_aborted [OF mv, of ab]
      ex_insert_mono [of "c_transfers (ctl S)" "\<lambda>t. phase_abort_proof (tr_phase t) = Some ab \<and> tr_movement t = ab_movement ab" rq ?t]
    by (simp add: given_up_def trs t)
  have grow: "accrues S ?S'"
    using mono ab owned alike by (auto simp: accrues_def seen_fenced_def running_def owner_then_def ini get)
  note old = transfer_invD [OF ci t]
  have "backed ?S' (t\<lparr>tr_phase := p\<rparr>)"
    unfolding backed_def
  proof (intro conjI allI impI)
    show "moving ?S' (tr_movement (t\<lparr>tr_phase := p\<rparr>))"
      using old mono by (simp add: transfer_inv_def backed_def)
    show "owned_with ?S' ow" if "phase_owner (tr_phase (t\<lparr>tr_phase := p\<rparr>)) = Some ow" for ow
      using that old own by (simp add: transfer_inv_def backed_def owned)
    show "given_up ?S' ab" if "phase_abort_proof (tr_phase (t\<lparr>tr_phase := p\<rparr>)) = Some ab" for ab
    proof (cases "phase_abort_proof (tr_phase t)")
      case None
      then have "ab_movement ab = tr_movement t"
        using mv that by (auto elim!: phase_movesE)
      then show ?thesis
        using that unfolding given_up_def by (intro exI [of _ rq] exI [of _ "t\<lparr>tr_phase := p\<rparr>"]) (simp add: get)
    next
      case (Some ab')
      then have "ab' = ab"
        using phase_moves_aborted [OF mv] that by simp
      then show ?thesis
        using old Some assms ab by (simp add: transfer_inv_def backed_def)
    qed
    show "seen_fenced ?S' im" "im_movement im = tr_movement (t\<lparr>tr_phase := p\<rparr>)"
      if "phase_image (tr_phase (t\<lparr>tr_phase := p\<rparr>)) = Some im" for im
      using phase_moves_image [OF mv, of im] that old j accruesD(4) [OF grow]
      by (auto simp: transfer_inv_def backed_def justified_def)
  qed
  then have inv_t: "transfer_inv ?S' (t\<lparr>tr_phase := p\<rparr>)"
    using old accruesD(5) [OF grow] by (auto simp: transfer_inv_def alike app)
  have inv_old: "transfer_inv ?S' t'" if "bt_get (c_transfers (ctl S)) rq' = Some t'" for rq' t'
    using transfer_invD [OF ci that] accruesD(5) [OF grow] backed_accrues [OF grow] by (auto simp: transfer_inv_def alike app)
  show ?thesis
  proof (rule unrouted_step_keeps [OF inv refl grow routes owned ini(1)])
    show "bt_sorted (c_transfers c)"
      using ci by (simp add: trs bt_sorted_insert controller_inv_def)
    show "transfer_inv ?S' t'" if "bt_get (c_transfers c) rq' = Some t'" for rq' t'
      using that inv_t inv_old by (auto simp: get split: if_splits)
    show "rq1 = rq2" if "bt_get (c_transfers c) rq1 = Some t1" "bt_get (c_transfers c) rq2 = Some t2"
      "mv_id (tr_movement t1) = mv_id (tr_movement t2)" for rq1 t1 rq2 t2
      using that t ci unfolding controller_inv_def get by (auto split: if_splits)
    show "c_transfers c = []" if "c_initialized (ctl S) = None"
      using that t ci by (simp add: controller_inv_def)
  qed
qed

text \<open>When a transfer becomes owned, its source is still fenced by it.\<close>

lemma own_source_fenced:
  assumes inv: "system_inv T S" and t: "bt_get (c_transfers (ctl S)) rq = Some t" and ph: "tr_phase t = PInstalled inst"
    and r: "ro_epoch (c_routes (ctl S) ! mv_shard (tr_movement t)) = mv_previous (tr_movement t)"
  shows "mv_source (tr_movement t) \<noteq> CONTROLLER \<and> im_movement (ip_image inst) = tr_movement t \<and>
    (\<exists>p. slot_at (grp S (mv_source (tr_movement t))) (mv_shard (tr_movement t)) = Some (Fenced (ip_image inst) p))"
proof -
  let ?m = "tr_movement t" and ?im = "ip_image inst"
  have ci: "controller_inv T S"
    using inv by (simp add: system_inv_def)
  note ti = transfer_invD [OF ci t]
  have im: "seen_fenced S ?im" "im_movement ?im = ?m"
    using ti ph by (auto simp: transfer_inv_def backed_def)
  then have kept: "fence_kept S ?im"
    using inv by (simp add: system_inv_def)
  then have ok: "movement_ok ?m"
    using im(2) by (simp add: fence_kept_def Let_def)
  then have src: "mv_source ?m \<noteq> CONTROLLER"
    by (simp add: movement_ok_def)
  have "\<not> buried S (mv_source ?m) ?m"
  proof
    assume "buried S (mv_source ?m) ?m"
    then obtain k rec where rec: "bt_get (d_aborted (grp S (mv_source ?m))) k = Some rec" "ab_movement (ar_abort rec) = ?m"
      by (auto simp: buried_def)
    then have "given_up S (ar_abort rec)"
      using inv src unfolding system_inv_def data_inv_def by blast
    then obtain rq' t' where t': "bt_get (c_transfers (ctl S)) rq' = Some t'" "phase_abort_proof (tr_phase t') = Some (ar_abort rec)"
      "tr_movement t' = ?m"
      using rec(2) by (auto simp: given_up_def)
    then have "rq' = rq"
      using ci t unfolding controller_inv_def by metis
    then show False
      using t t'(1,2) ph by simp
  qed
  moreover have "\<not> mv_epoch ?m \<le> slot_floor (slot_at (grp S (mv_source ?m)) (mv_shard ?m))"
    using floor_bounds_route [OF inv src, of "mv_shard ?m"] ti r by (simp add: transfer_inv_def)
  ultimately show ?thesis
    using kept im(2) src unfolding fence_kept_def Let_def by auto
qed

lemma own_step_keeps:
  assumes inv: "system_inv T S" and ini: "c_initialized c = c_initialized (ctl S)" and app: "c_applied c = i" "i = Suc (c_applied (ctl S))"
    and t: "bt_get (c_transfers (ctl S)) rq = Some t" "tr_phase t = PInstalled inst" and m: "m = tr_movement t"
    and route: "ro_owner (c_routes (ctl S) ! mv_shard m) = mv_source m" "ro_epoch (c_routes (ctl S) ! mv_shard m) = mv_previous m"
    and routes: "c_routes c = (c_routes (ctl S))[mv_shard m := (c_routes (ctl S) ! mv_shard m)\<lparr>ro_owner := mv_destination m, ro_epoch := mv_epoch m\<rparr>]"
    and ow: "op_installation ow = inst" and trs: "c_transfers c = bt_insert rq (t\<lparr>tr_phase := POwned ow\<rparr>) (c_transfers (ctl S))"
  shows "system_inv T (S\<lparr>ctl := c\<rparr>)" (is "system_inv T ?S'")
proof -
  let ?t = "t\<lparr>tr_phase := POwned ow\<rparr>" and ?s = "mv_shard m"
  have ci: "controller_inv T S"
    using inv by (simp add: system_inv_def)
  note ti = transfer_invD [OF ci t(1)]
  have ep: "mv_epoch m = Suc (mv_previous m)" and len: "?s < length (c_routes (ctl S))"
    using ti by (auto simp: transfer_inv_def m)
  obtain p where src: "mv_source m \<noteq> CONTROLLER" and im: "im_movement (ip_image inst) = m"
    and p: "slot_at (grp S (mv_source m)) ?s = Some (Fenced (ip_image inst) p)"
    using own_source_fenced [OF inv t] route(2) by (auto simp: m)
  have get: "bt_get (c_transfers c) rq' = (if rq' = rq then Some ?t else bt_get (c_transfers (ctl S)) rq')" for rq'
    by (simp add: trs bt_get_insert)
  have mine: "op_movement ow = m" by (simp add: ow im)
  have gained: "owned_with ?S' ow"
    unfolding owned_with_def using mine m get [of rq] by (intro exI [of _ rq] exI [of _ ?t]) simp
  have "owned_with ?S' x" if "owned_with S x" for x
    using that t ex_insert_mono [of "c_transfers (ctl S)" "\<lambda>t. phase_owner (tr_phase t) = Some x \<and> tr_movement t = op_movement x" rq ?t]
    by (simp add: owned_with_def trs)
  moreover have "owned_with S x" if "owned_with ?S' x" "x \<noteq> ow" for x
    using that ex_insert_back [of rq ?t "c_transfers (ctl S)" "\<lambda>t. phase_owner (tr_phase t) = Some x \<and> tr_movement t = op_movement x"]
    by (simp add: owned_with_def trs)
  ultimately have owned: "owned_with ?S' x \<longleftrightarrow> owned_with S x \<or> x = ow" for x
    using gained by blast
  then have om: "owned_move ?S' m' \<longleftrightarrow> owned_move S m' \<or> m' = m" for m'
    using mine by (auto simp: owned_move_def)
  have len': "length (c_routes c) = length (c_routes (ctl S))" by (simp add: routes)
  have at: "ro_epoch (c_routes c ! ?s) = mv_epoch m" "ro_owner (c_routes c ! ?s) = mv_destination m"
    using len by (simp_all add: routes)
  have off: "c_routes c ! s = c_routes (ctl S) ! s" if "s \<noteq> ?s" for s
    using that by (simp add: routes)
  have grow: "accrues S ?S'"
    unfolding accrues_def
  proof (intro conjI allI impI)
    show "moving ?S' m'" if "moving S m'" for m'
      using that ex_insert_mono [of "c_transfers (ctl S)" "\<lambda>t. tr_movement t = m'" rq ?t] t by (simp add: moving_def trs)
    show "given_up ?S' ab" if "given_up S ab" for ab
      using that t ex_insert_mono [of "c_transfers (ctl S)" "\<lambda>t. phase_abort_proof (tr_phase t) = Some ab \<and> tr_movement t = ab_movement ab" rq ?t]
      by (simp add: given_up_def trs)
    show "owner_then ?S' s e w" if "owner_then S s e w" for s e w
      using that at off [of s] route ep by (cases "s = ?s") (auto simp: owner_then_def len')
  qed (auto simp: owned seen_fenced_def running_def ini get)
  have bt: "backed ?S' ?t"
  proof -
    have "backed ?S' t"
      using backed_accrues [OF grow] ti by (simp add: transfer_inv_def)
    then show ?thesis
      using t(2) m im by (auto simp: backed_def owned ow)
  qed
  have trinv: "transfer_inv ?S' t'" if "bt_get (c_transfers c) rq' = Some t'" for rq' t'
  proof (cases "rq' = rq")
    case True
    then show ?thesis
      using that ti bt accruesD(5) [OF grow] by (auto simp: get transfer_inv_def len' app)
  next
    case False
    then show ?thesis
      using that transfer_invD [OF ci, of rq' t'] backed_accrues [OF grow] accruesD(5) [OF grow]
      by (auto simp: get transfer_inv_def len' app)
  qed
  have chain: "chain_inv ?S' m'" if "owned_move ?S' m'" for m'
  proof (cases "m' = m")
    case True
    then show ?thesis using at by (simp add: chain_inv_def)
  next
    case False
    then have old: "chain_inv S m'" and om': "owned_move S m'"
      using that om owned_moveD [OF ci] by blast+
    show ?thesis
    proof (cases "mv_shard m' = ?s")
      case True
      then have "mv_epoch m' \<le> mv_previous m"
        using old route by (simp add: chain_inv_def)
      then show ?thesis
        using True old route at ep om [of m] unfolding chain_inv_def Let_def
        by (cases "mv_epoch m' = mv_previous m") (auto simp: om)
    next
      case False
      then show ?thesis
        using old off [OF False] by (auto simp: chain_inv_def Let_def om)
    qed
  qed
  have orig: "origin_inv T ?S' s" if "origin_inv T S s" for s
  proof (cases "s = ?s")
    case True
    then show ?thesis
      using that route om [of m] by (auto simp: origin_inv_def route_of_def om)
  next
    case False
    then show ?thesis
      using that off [OF False] by (auto simp: origin_inv_def route_of_def om len')
  qed
  show ?thesis
  proof (rule controller_step_keeps [OF inv refl grow])
    show "controller_inv T ?S'"
      unfolding controller_inv_def
    proof (intro conjI allI impI)
      show "rq1 = rq2" if "bt_get (c_transfers (ctl ?S')) rq1 = Some t1" "bt_get (c_transfers (ctl ?S')) rq2 = Some t2"
        "mv_id (tr_movement t1) = mv_id (tr_movement t2)" for rq1 t1 rq2 t2
        using that t ci unfolding controller_inv_def by (auto simp: get split: if_splits)
    qed (use ci trinv chain orig t in \<open>auto simp: controller_inv_def trs bt_sorted_insert ini len'\<close>)
    show "slot_ok ?S' g s sl" if "g \<noteq> CONTROLLER" and at_g: "slot_at (grp S g) s = Some sl" and "slot_ok S g s sl" for g s sl
    proof -
      have keep: "route_of c s e g" if "route_of (ctl S) s e g" "\<not> (s = ?s \<and> g = mv_source m)" for e
        using that off [of s] route(1) by (cases "s = ?s") (auto simp: route_of_def len')
      have here: "sl = Fenced (ip_image inst) p" if "s = ?s" "g = mv_source m"
        using that at_g p by simp
      show ?thesis
        using that(3) keep here im om grow
        by (cases sl) (auto simp: Let_def installing_ok_def retired_ok_def dest: accruesD)
    qed
  qed
qed

lemma watermark_keeps:
  assumes inv: "system_inv T S" and g: "g \<noteq> CONTROLLER"
  shows "system_inv T (S\<lparr>grp := (grp S)(g := grp S g\<lparr>d_applied := i\<rparr>)\<rparr>)" (is "system_inv T ?S'")
proof -
  have same: "ctl ?S' = ctl S" by simp
  have grow: "accrues S ?S'"
    by (auto simp: accrues_def moving_def owned_with_def given_up_def seen_fenced_def running_def owner_then_def Let_def)
  have alike: "slot_at (grp ?S' h) s = slot_at (grp S h) s" "d_aborted (grp ?S' h) = d_aborted (grp S h)"
    "d_initialized (grp ?S' h) = d_initialized (grp S h)" "d_group (grp ?S' h) = d_group (grp S h)" for h s
    by simp_all
  have "data_inv ?S' h" if "h \<noteq> CONTROLLER" for h
    using that inv slot_ok_same [OF same grow] accruesD(3,5) [OF grow] unfolding system_inv_def data_inv_def alike by blast
  moreover have "fence_kept ?S' im" if "seen_fenced ?S' im" for im
    using that inv accruesD(1) [OF grow] unfolding system_inv_def fence_kept_def buried_def alike Let_def
    by (auto simp: seen_fenced_def)
  ultimately show ?thesis
    using inv controller_inv_same [OF same grow, of T] history_accrues [OF grow inv] unfolding system_inv_def by auto
qed

lemma quiet_step_keeps:
  assumes inv: "system_inv T S" and same: "c_initialized c = c_initialized (ctl S)" "c_routes c = c_routes (ctl S)" "c_transfers c = c_transfers (ctl S)"
    and app: "c_applied (ctl S) \<le> c_applied c"
  shows "system_inv T (S\<lparr>ctl := c\<rparr>)" (is "system_inv T ?S'")
proof -
  have facts: "owned_with ?S' ow = owned_with S ow" "given_up ?S' ab = given_up S ab" "moving ?S' m = moving S m"
    "owned_move ?S' m = owned_move S m" "chain_inv ?S' m = chain_inv S m" "origin_inv T ?S' s = origin_inv T S s"
    "owner_then ?S' s e w = owner_then S s e w" "route_of c s e w = route_of (ctl S) s e w" for ow ab m s e w
    by (simp_all add: same owned_with_def given_up_def moving_def owned_move_def chain_inv_def origin_inv_def owner_then_def route_of_def)
  have grow: "accrues S ?S'"
    by (auto simp: accrues_def facts seen_fenced_def running_def same)
  have c: "controller_inv T S"
    using inv by (simp add: system_inv_def)
  have tr: "transfer_inv ?S' t" if "transfer_inv S t" for t
    using that app backed_accrues [OF grow] accruesD(5) [OF grow] by (auto simp: transfer_inv_def same)
  show ?thesis
  proof (rule controller_step_keeps [OF inv refl grow])
    show "controller_inv T ?S'"
      using c tr unfolding controller_inv_def facts by (simp add: same)
    show "slot_ok ?S' g s sl" if "slot_ok S g s sl" for g s sl
      using that accruesD(4) [OF grow] by (cases sl) (auto simp: Let_def facts installing_ok_def retired_ok_def)
  qed
qed

lemma first_routes_nth:
  "length (first_routes owners) = length owners"
  "s < length owners \<Longrightarrow> ro_epoch (first_routes owners ! s) = 1 \<and> ro_owner (first_routes owners ! s) = owners ! s"
  by (simp_all add: first_routes_def nth_enumerate_eq)

lemma start_step_keeps:
  assumes inv: "system_inv T S" and ini: "c_initialized (ctl S) = None" "c_initialized c \<noteq> None"
    and c: "c_routes c = first_routes (t_owners T)" "c_transfers c = c_transfers (ctl S)"
  shows "system_inv T (S\<lparr>ctl := c\<rparr>)" (is "system_inv T ?S'")
proof -
  have empty: "c_routes (ctl S) = []" "c_transfers (ctl S) = []"
    using inv ini by (auto simp: system_inv_def controller_inv_def)
  have facts: "\<not> owned_with ?S' ow" "\<not> given_up S ab" "\<not> moving S m" "\<not> owned_move ?S' m" "\<not> owner_then S s e w" "\<not> owned_with S ow"
    for ow ab m s e w
    by (simp_all add: empty c owned_with_def given_up_def moving_def owned_move_def owner_then_def)
  have grow: "accrues S ?S'"
    using ini by (auto simp: accrues_def facts seen_fenced_def running_def empty)
  show ?thesis
  proof (rule controller_step_keeps [OF inv refl grow])
    have "origin_inv T ?S' s" if "s < length (t_owners T)" for s
      using first_routes_nth(1) [of "t_owners T"] first_routes_nth(2) [OF that] that
      by (simp add: origin_inv_def route_of_def c)
    then show "controller_inv T ?S'"
      using ini by (auto simp: controller_inv_def facts c empty first_routes_nth bt_sorted_def)
    show "slot_ok ?S' g s sl" if "g \<noteq> CONTROLLER" "slot_at (grp S g) s = Some sl" for g s sl
    proof -
      have "running S CONTROLLER"
        using inv that unfolding system_inv_def data_inv_def by (metis option.distinct(1))
      then show ?thesis
        using ini by (simp add: running_def)
    qed
  qed
qed

lemma controller_moves_keep:
  assumes inv: "system_inv T S" and j: "justified T S CONTROLLER (OController cmd)"
    and mv: "ctl_moves (ctl S\<lparr>c_applied := i\<rparr>) i cmd c" and app: "c_applied c = i" "i = Suc (c_applied (ctl S))"
  shows "system_inv T (S\<lparr>ctl := c\<rparr>)"
proof -
  have c: "controller_inv T S"
    using inv by (simp add: system_inv_def)
  have get: "bt_get (c_transfers (ctl S)) rq = Some t" if "(rq, t) \<in> set (c_transfers (ctl S))" for rq t
    using c that by (auto simp: controller_inv_def bt_sorted_def strict_sorted_iff intro: map_of_is_SomeI)
  from mv show ?thesis
  proof cases
    case ctl_quiet
    then show ?thesis
      using quiet_step_keeps [OF inv, of c] app by simp
  next
    case (ctl_start owners gs)
    then show ?thesis
      using start_step_keeps [OF inv, of c] j by (simp add: justified_def)
  next
    case (ctl_new rq s e t destination x)
    have "c_initialized (ctl S) \<noteq> None"
      using c ctl_new(4) by (auto simp: controller_inv_def)
    then show ?thesis
      using ctl_new j app by (intro begin_step_keeps [OF inv, of rq s e destination c i t x]) simp_all
  next
    case (ctl_phase rq t p k x)
    then show ?thesis
      using app get by (intro phase_step_keeps [OF inv j, of c i rq t i p k x]) simp_all
  next
    case (ctl_owned rq t inst m ow tid)
    then show ?thesis
      using app get by (intro own_step_keeps [OF inv, of c i rq t inst m ow]) simp_all
  qed
qed

section \<open>Every reachable system\<close>

lemma commit_keeps:
  assumes inv: "system_inv T S" and oper: "(g, oper) \<in> pool S"
    and r: "machine_operation X (machine_at S g) i oper = Inr (reply, m)"
  shows "system_inv T (put_machine g m S)"
proof -
  have j: "justified T S g oper"
    using inv oper by (auto simp: system_inv_def)
  show ?thesis
  proof (cases "g = CONTROLLER")
    case True
    then obtain cmd res c where cmd: "oper = OController cmd" and a: "ctl_apply (x_controller X) (ctl S) i cmd = Inr (res, c)" and m: "m = MController c"
      using r by (cases oper) (auto simp: machine_at_def rbind_Inr_iff)
    from a show ?thesis
    proof (cases rule: ctl_apply_cases)
      case (refused e)
      then show ?thesis
        using quiet_step_keeps [OF inv, of c] by (simp add: m put_machine_def)
    next
      case (done_so x)
      then show ?thesis
        using controller_moves_keep [OF inv, of cmd i c] ctl_execute_moves ctl_execute_applied j cmd True
        by (fastforce simp: m put_machine_def)
    qed
  next
    case False
    then obtain cmd res d where cmd: "oper = OData cmd" and a: "data_apply (x_data X) (grp S g) i cmd = Inr (res, d)" and m: "m = MData d"
      using r by (cases oper) (auto simp: machine_at_def rbind_Inr_iff)
    from a show ?thesis
    proof (cases rule: data_apply_cases)
      case (refused e)
      then show ?thesis
        using watermark_keeps [OF inv False] by (simp add: m put_machine_def)
    next
      case (done_so x)
      have dg: "d_group (grp S g) = g"
        using inv False by (simp add: system_inv_def data_inv_def)
      show ?thesis
        using data_step_keeps [OF inv False _ execute_follows [OF done_so(2)]] j cmd dg by (simp add: m put_machine_def)
    qed
  qed
qed

lemma noop_keeps:
  assumes inv: "system_inv T S" and r: "machine_advance (machine_at S g) i = Inr (reply, m)"
  shows "system_inv T (put_machine g m S)"
  using r watermark_keeps [OF inv, of g i] quiet_step_keeps [OF inv, of "ctl S\<lparr>c_applied := i\<rparr>"]
  by (auto simp: machine_at_def put_machine_def ctl_advance_def data_advance_def rbind_Inr_iff split: if_splits)

lemma maintenance_justified: "maintenance_command cmd \<Longrightarrow> justified T S g (OController cmd)"
  by (cases cmd) (simp_all add: maintenance_command_def justified_def)

lemma step_keeps:
  assumes "system_step T X S S'" and inv: "system_inv T S"
  shows "system_inv T S'"
  using assms(1)
proof cases
  case (step_read g q x)
  then show ?thesis using read_keeps [OF inv] by simp
next
  case (step_prepare v g act oper)
  then show ?thesis
    using pool_keeps [OF inv] prepare_justified [of S v T g act oper] inv by (simp add: system_inv_def)
next
  case (step_maintain cmd)
  then show ?thesis using pool_keeps [OF inv maintenance_justified] by simp
next
  case (step_commit g oper i reply m)
  then show ?thesis using commit_keeps [OF inv] by blast
next
  case (step_noop g i reply m)
  then show ?thesis using noop_keeps [OF inv] by blast
qed

lemma first_system_inv: "system_inv T first_system"
  by (auto simp: system_inv_def first_system_def controller_inv_def controller_default_def data_inv_def fresh_data_def
      slot_at_def seen_fenced_def owned_move_def owned_with_def bt_sorted_def Let_def)

theorem reachable_inv: "reachable_system T X S \<Longrightarrow> system_inv T S"
  unfolding reachable_system_def by (induction rule: rtranclp_induct) (auto intro: first_system_inv step_keeps)

text \<open>What the invariant says of a group that serves a shard.\<close>

lemma active_routed:
  assumes "reachable_system T X S" and "g \<noteq> CONTROLLER" and "data_active (grp S g) s e = Inr x"
  shows "route_of (ctl S) s e g"
proof -
  from data_active_slot [OF assms(3)] obtain a where "slot_at (grp S g) s = Some (Active e a)" by blast
  then have "slot_ok S g s (Active e a)"
    using reachable_inv [OF assms(1)] assms(2) unfolding system_inv_def data_inv_def by blast
  then show ?thesis by simp
qed

end
