(* ===== verification/Shard_Valid.thy ===== *)
theory Shard_Valid
  imports Shard_Moves
begin

text \<open>
  A data machine always satisfies its own validation, and never panics.  A command that takes
  effect has been validated; what is left is the watermark, which moves on every committed entry,
  refused or not: its decimal rendering grows, and the reserve kept for it is exactly enough.
\<close>

section \<open>What is relied on of the printers\<close>

text \<open>
  The machine is printed with its watermark in decimal, and everything else printed the same
  whatever the watermark; a parsed image has maps in key order, as \<^verbatim>\<open>BTreeMap\<close>s have.
\<close>

definition prints_watermark :: "data_format \<Rightarrow> bool" where
  "prints_watermark F \<longleftrightarrow>
     (\<forall>d i bs. f_machine F d = Some bs \<longrightarrow>
        length (decimal (d_applied d)) \<le> length bs \<and>
        (\<exists>bs'. f_machine F (d\<lparr>d_applied := i\<rparr>) = Some bs' \<and>
           length bs' + length (decimal (d_applied d)) = length bs + length (decimal i)))"

definition canonical_data :: "shard_data \<Rightarrow> bool" where
  "canonical_data x \<longleftrightarrow>
     bt_sorted (sd_cells x) \<and> bt_sorted (sd_sessions x) \<and> bt_sorted (sd_nonces x) \<and>
     (\<forall>(k, ses) \<in> set (sd_sessions x). bt_sorted (ss_keys ses))"

definition parses_canonical :: "data_format \<Rightarrow> bool" where
  "parses_canonical F \<longleftrightarrow> (\<forall>bs b. f_parse_image F bs = Some b \<longrightarrow> canonical_data (si_data b))"

section \<open>The watermark\<close>

lemma advance_slot_valid:
  "slot_valid d s sl x \<Longrightarrow> d_applied d \<le> i \<Longrightarrow> slot_valid (d\<lparr>d_applied := i\<rparr>) s sl x"
  by (auto simp: slot_valid_def retired_valid_def movement_valid_def Let_def split: slot.splits option.splits)

lemma advance_receipt_valid:
  "receipt_valid d s e fz sid rc \<Longrightarrow> d_applied d \<le> i \<Longrightarrow> receipt_valid (d\<lparr>d_applied := i\<rparr>) s e fz sid rc"
  by (auto simp: receipt_valid_def)

lemma advance_cached_valid:
  "cached_valid F d s e fz ses k c \<Longrightarrow> d_applied d \<le> i \<Longrightarrow> cached_valid F (d\<lparr>d_applied := i\<rparr>) s e fz ses k c"
  by (auto simp: cached_valid_def advance_receipt_valid split: option.splits)

lemma advance_session_valid:
  assumes "session_valid F d s e fz x k ses" and le: "d_applied d \<le> i"
  shows "session_valid F (d\<lparr>d_applied := i\<rparr>) s e fz x k ses"
  using assms(1) advance_receipt_valid [OF _ le] advance_cached_valid [OF _ le]
  by (auto simp: session_valid_def list_all_iff split: option.splits)

lemma advance_contents_valid:
  assumes "contents_valid F d s e fz x" and le: "d_applied d \<le> i"
  shows "contents_valid F (d\<lparr>d_applied := i\<rparr>) s e fz x"
  using assms(1) advance_session_valid [OF _ le]
  by (auto simp: contents_valid_def frozen_valid_def image_body_def list_all_iff split: option.splits sum.splits)

lemma advance_shard_valid:
  assumes "shard_valid F d s st" and le: "d_applied d \<le> i"
  shows "shard_valid F (d\<lparr>d_applied := i\<rparr>) s st"
  using assms(1) advance_slot_valid [OF _ le] advance_contents_valid [OF _ le]
  by (auto simp: shard_valid_def split: option.splits)

lemma advance_tombstone_valid:
  "tombstone_valid F d ini k r \<Longrightarrow> d_applied d \<le> i \<Longrightarrow> tombstone_valid F (d\<lparr>d_applied := i\<rparr>) ini k r"
  by (auto simp: tombstone_valid_def movement_valid_def)

text \<open>The reserve shrinks by exactly the digits the rendering gains.\<close>

lemma advance_fits:
  assumes p: "prints_watermark F" and fit: "is_ok (canonical_bytes (f_machine F) d (MAX_ACTOR_BYTES - (reserved_bytes d + 4096)))"
    and le: "d_applied d \<le> i" and max: "i \<le> u64_max"
  shows "is_ok (canonical_bytes (f_machine F) (d\<lparr>d_applied := i\<rparr>) (MAX_ACTOR_BYTES - (reserved_bytes (d\<lparr>d_applied := i\<rparr>) + 4096)))"
proof -
  let ?g = "length (decimal (d_applied d))" and ?g' = "length (decimal i)"
  let ?rest = "(MAX_TRANSFERS - length (d_aborted d)) * ABORT_RECORD_RESERVE + sum_list (map (\<lambda>(_, st). shard_reserve st) (d_shards d))"
  have digits: "?g \<le> ?g'" "?g' \<le> 20" "?g > 0"
    using decimal_length_mono [OF le] decimal_length_u64 [OF max] decimal_length_pos by auto
  have res: "reserved_bytes d = ?rest + (20 - ?g)" "reserved_bytes (d\<lparr>d_applied := i\<rparr>) = ?rest + (20 - ?g')"
    by (simp_all add: reserved_bytes_def decimal_length_max)
  from fit obtain bs where bs: "f_machine F d = Some bs" "length bs \<le> MAX_ACTOR_BYTES - (reserved_bytes d + 4096)"
    by (auto simp: is_ok_iff)
  with p obtain bs' where "f_machine F (d\<lparr>d_applied := i\<rparr>) = Some bs'" "length bs' + ?g = length bs + ?g'" "?g \<le> length bs"
    unfolding prints_watermark_def by blast
  moreover have "length bs' \<le> MAX_ACTOR_BYTES - (reserved_bytes (d\<lparr>d_applied := i\<rparr>) + 4096)"
    using bs(2) digits calculation(2,3) unfolding res by linarith
  ultimately show ?thesis
    by (auto simp: is_ok_iff)
qed

lemma advance_validates:
  assumes v: "data_validate F d" and p: "prints_watermark F" and le: "d_applied d \<le> i" and max: "i \<le> u64_max"
  shows "data_validate F (d\<lparr>d_applied := i\<rparr>)"
proof (cases "d_initialized d")
  case None
  then show ?thesis using v by (simp add: data_validate_def)
next
  case (Some ini)
  then have "config_valid (d\<lparr>d_applied := i\<rparr>)" "usage_valid (d\<lparr>d_applied := i\<rparr>)"
    using v le by (auto simp: data_validate_def config_valid_def usage_valid_def)
  then show ?thesis
    using v Some advance_fits [OF p _ le max] advance_tombstone_valid [OF _ le] advance_shard_valid [OF _ le]
    by (auto simp: data_validate_def list_all_iff)
qed

section \<open>Sessions and nonces name each other\<close>

lemma bt_get_in_set: "bt_get m k = Some v \<Longrightarrow> (k, v) \<in> set m"
  by (rule map_of_SomeD)

lemma in_set_bt_get: "bt_sorted m \<Longrightarrow> (k, v) \<in> set m \<Longrightarrow> bt_get m k = Some v"
  by (simp add: bt_sorted_distinct)

lemma nonce_has_session:
  assumes c: "canonical_data x" and len: "length (sd_nonces x) = length (sd_sessions x)"
    and ses: "\<And>k ses. (k, ses) \<in> set (sd_sessions x) \<Longrightarrow> k = origin_key (ss_id ses) \<and> bt_get (sd_nonces x) (ss_nonce ses) = Some (ss_id ses)"
    and nonce: "bt_get (sd_nonces x) nonce = Some sid"
  shows "bt_get (sd_sessions x) (origin_key sid) \<noteq> None"
proof -
  let ?f = "\<lambda>p. ss_nonce (snd p)" and ?A = "set (sd_sessions x)" and ?B = "fst ` set (sd_nonces x)"
  have dist: "distinct (map fst (sd_sessions x))" "distinct (map fst (sd_nonces x))"
    using c by (auto simp: canonical_data_def bt_sorted_distinct)
  have get: "bt_get (sd_sessions x) k = Some z" if "(k, z) \<in> ?A" for k z
    using that dist(1) by simp
  have inj: "inj_on ?f ?A"
  proof (rule inj_onI)
    fix p q
    assume pq: "p \<in> ?A" "q \<in> ?A" "?f p = ?f q"
    obtain k y l z where [simp]: "p = (k, y)" "q = (l, z)" by fastforce
    from pq ses [of k y] ses [of l z] have "k = l" by simp
    then show "p = q" using get [of k y] get [of l z] pq by simp
  qed
  have "card (?f ` ?A) = card ?A" using inj by (rule card_image)
  also have "card ?A = length (sd_sessions x)"
    using dist(1) by (metis distinct_card distinct_map)
  also have "\<dots> = card ?B"
    using dist(2) len by (metis distinct_card length_map set_map)
  finally have "card (?f ` ?A) = card ?B" .
  moreover have "?f ` ?A \<subseteq> ?B"
  proof
    fix y
    assume "y \<in> ?f ` ?A"
    then obtain k z where "(k, z) \<in> ?A" "y = ss_nonce z" by auto
    then have "(y, ss_id z) \<in> set (sd_nonces x)"
      using ses [of k z] bt_get_in_set [of "sd_nonces x" y "ss_id z"] by simp
    then show "y \<in> ?B" by force
  qed
  ultimately have "?f ` ?A = ?B"
    by (intro card_subset_eq) auto
  moreover have "nonce \<in> ?B"
    using bt_get_in_set [OF nonce] by force
  ultimately have "nonce \<in> ?f ` ?A" by simp
  then obtain k z where kz: "(k, z) \<in> ?A" "ss_nonce z = nonce" by auto
  then have "k = origin_key sid"
    using ses [of k z] nonce by simp
  then show ?thesis using get [OF kz(1)] by simp
qed

definition canonical_machine :: "data_machine \<Rightarrow> bool" where
  "canonical_machine d \<longleftrightarrow> (\<forall>p \<in> set (d_shards d). \<forall>x. sh_data (snd p) = Some x \<longrightarrow> canonical_data x)"

lemma register_never_panics:
  assumes v: "data_validate F d" and c: "canonical_machine d"
  shows "\<not> register_panics d cmd"
proof
  assume "register_panics d cmd"
  then obtain s e nonce x sid where x: "data_active d s e = Inr x" and sid: "bt_get (sd_nonces x) nonce = Some sid"
    and none: "bt_get (sd_sessions x) (origin_key sid) = None" and ini: "d_initialized d \<noteq> None"
    by (auto simp: register_panics_def split: data_command.splits sum.splits option.splits)
  obtain st where st: "bt_get (d_shards d) s = Some st"
    using x by (auto simp: data_active_def rbind_Inr_iff)
  then obtain a where a: "sh_slot st = Active e a" "sh_data st = Some x"
    using x by (cases "sh_slot st") (auto simp: data_active_def split: if_splits)
  note in_d = bt_get_in_set [OF st]
  have "shard_valid F d s st"
    using v ini in_d by (auto simp: data_validate_def list_all_iff)
  then have cv: "contents_valid F d s e None x"
    using a by (simp add: shard_valid_def)
  have "canonical_data x"
    using c in_d a by (force simp: canonical_machine_def)
  then have "bt_get (sd_sessions x) (origin_key sid) \<noteq> None"
    using cv sid by (intro nonce_has_session) (auto simp: contents_valid_def session_valid_def list_all_iff)
  then show False using none by simp
qed

section \<open>Operations keep the maps in order\<close>

lemma set_bt_insert_subset: "set (bt_insert k v m) \<subseteq> insert (k, v) (set m)"
  by (induction k v m rule: bt_insert.induct) auto

lemma canonical_put_shard:
  "canonical_machine d \<Longrightarrow> (\<And>x. sh_data st = Some x \<Longrightarrow> canonical_data x) \<Longrightarrow> canonical_machine (put_shard s st d)"
  using set_bt_insert_subset [of s st "d_shards d"] by (fastforce simp: canonical_machine_def put_shard_def)

lemma canonical_put_data: "canonical_machine d \<Longrightarrow> canonical_data x \<Longrightarrow> canonical_machine (put_data s x d)"
  by (auto simp: put_data_def intro: canonical_put_shard split: option.splits)

lemma canonical_shard: "canonical_machine d \<Longrightarrow> bt_get (d_shards d) s = Some st \<Longrightarrow> sh_data st = Some x \<Longrightarrow> canonical_data x"
  using bt_get_in_set by (fastforce simp: canonical_machine_def)

lemma canonical_active: "canonical_machine d \<Longrightarrow> data_active d s e = Inr x \<Longrightarrow> canonical_data x"
  by (auto simp: data_active_def rbind_def split: sum.splits slot.splits if_splits intro: canonical_shard)

lemma canonical_session_insert:
  "canonical_data x \<Longrightarrow> bt_sorted (ss_keys ses) \<Longrightarrow> canonical_data (x\<lparr>sd_sessions := bt_insert k ses (sd_sessions x)\<rparr>)"
  using set_bt_insert_subset [of k ses "sd_sessions x"] by (fastforce simp: canonical_data_def bt_sorted_insert)

lemma canonical_session: "canonical_data x \<Longrightarrow> bt_get (sd_sessions x) k = Some ses \<Longrightarrow> bt_sorted (ss_keys ses)"
  using bt_get_in_set [of "sd_sessions x" k ses] by (auto simp: canonical_data_def)

lemma canonical_register:
  assumes "data_register d og s e nonce = Inr (r, d')" and c: "canonical_machine d"
  shows "canonical_machine d'"
proof -
  from assms obtain x where x: "data_active d s e = Inr x"
    by (auto simp: data_register_def rbind_Inr_iff split: if_splits)
  let ?rc = "\<lparr>rc_origin = og, rc_shard = s, rc_epoch = e, rc_session = Some og, rc_sequence = None\<rparr>"
  let ?ses = "\<lparr>ss_id = og, ss_nonce = nonce, ss_registered = ?rc, ss_closed = None, ss_keys = []\<rparr>"
  have "canonical_data (x\<lparr>sd_sessions := bt_insert (origin_key og) ?ses (sd_sessions x)\<rparr>)"
    by (rule canonical_session_insert [OF canonical_active [OF c x]]) (simp add: bt_sorted_def)
  then have "canonical_data (x\<lparr>sd_nonces := bt_insert nonce og (sd_nonces x), sd_sessions := bt_insert (origin_key og) ?ses (sd_sessions x)\<rparr>)"
    by (simp add: canonical_data_def bt_sorted_insert)
  then show ?thesis
    using assms x by (auto simp: data_register_def Let_def split: if_splits option.splits intro: canonical_put_data)
qed

lemma canonical_close:
  assumes "data_close d og s e sid = Inr (r, d')" and c: "canonical_machine d"
  shows "canonical_machine d'"
proof -
  from assms obtain x ses where x: "data_active d s e = Inr x" and ses: "bt_get (sd_sessions x) (origin_key sid) = Some ses"
    by (auto simp: data_close_def rbind_Inr_iff)
  note cx = canonical_active [OF c x]
  show ?thesis
    using assms x ses canonical_put_data [OF c canonical_session_insert [OF cx]] canonical_session [OF cx ses]
    by (auto simp: data_close_def Let_def split: option.splits)
qed

lemma canonical_mutate:
  assumes "data_mutate F d og s e sid key sq v = Inr (r, d')" and c: "canonical_machine d"
  shows "canonical_machine d'"
proof -
  from assms obtain x ses where x: "data_active d s e = Inr x" and ses: "bt_get (sd_sessions x) (origin_key sid) = Some ses"
    by (auto simp: data_mutate_def rbind_Inr_iff Let_def split: if_splits)
  note cx = canonical_active [OF c x]
  have new: "canonical_data (x\<lparr>sd_sessions := bt_insert (origin_key sid) (ses\<lparr>ss_keys := bt_insert key ca (ss_keys ses)\<rparr>) (sd_sessions x),
      sd_cells := bt_insert key v (sd_cells x)\<rparr>)" for ca
    using canonical_session_insert [OF cx, of "ses\<lparr>ss_keys := bt_insert key ca (ss_keys ses)\<rparr>" "origin_key sid"] canonical_session [OF cx ses]
    by (simp add: canonical_data_def bt_sorted_insert)
  show ?thesis
    using assms x ses canonical_put_data [OF c new]
    by (auto simp: data_mutate_def rbind_Inr_iff Let_def split: if_splits option.splits)
qed

lemma canonical_transfer_ops:
  assumes c: "canonical_machine d"
  shows "data_fence F d og m = Inr (r, d') \<Longrightarrow> canonical_machine d'"
    and "data_begin_install d im = Inr (r, d') \<Longrightarrow> canonical_machine d'"
    and "data_chunk d t offset bs = Inr (r, d') \<Longrightarrow> canonical_machine d'"
    and "data_reset_install d im = Inr (r, d') \<Longrightarrow> canonical_machine d'"
    and "data_activate d og ow = Inr (r, d') \<Longrightarrow> canonical_machine d'"
    and "data_cleanup d og a = Inr (r, d') \<Longrightarrow> canonical_machine d'"
  using c
  by (auto simp: data_fence_def data_begin_install_def begin_fresh_def data_chunk_def data_reset_install_def
      data_activate_def data_cleanup_def rbind_def ok_or_def canonical_bytes_def Let_def
      split: if_splits option.splits sum.splits slot.splits intro!: canonical_put_shard dest: canonical_shard)

lemma canonical_finish:
  assumes "data_finish_install F d og t = Inr (r, d')" and "canonical_machine d" and "parses_canonical F"
  shows "canonical_machine d'"
  using assms
  by (auto simp: data_finish_install_def parses_canonical_def rbind_def ok_or_def canonical_bytes_def Let_def
      split: if_splits option.splits sum.splits slot.splits intro!: canonical_put_shard)

lemma canonical_back_out: "canonical_machine d \<Longrightarrow> canonical_machine (back_out s previous d)"
  by (auto simp: back_out_def intro: canonical_put_shard split: option.splits) (auto simp: canonical_machine_def bt_remove_def)

lemma canonical_abort:
  assumes "abort_transfer F d og ab = Inr (r, d')" and c: "canonical_machine d"
  shows "canonical_machine d'"
proof -
  have src: "canonical_machine d1" if "abort_source d m = Inr d1" for m d1
    using that c by (auto simp: abort_source_def rbind_def ok_or_def split: if_splits option.splits sum.splits slot.splits
        intro!: canonical_put_shard dest: canonical_shard)
  have dst: "canonical_machine d1" if "abort_destination d m = Inr d1" for m d1
    using that c by (auto simp: abort_destination_def split: if_splits option.splits slot.splits intro: canonical_back_out)
  have upd: "canonical_machine (d1\<lparr>d_aborted := z\<rparr>) = canonical_machine d1" for d1 z
    by (simp add: canonical_machine_def)
  show ?thesis
    using assms src dst
    by (auto simp: abort_transfer_def rbind_def upd Let_def split: if_splits option.splits sum.splits)
qed

lemma canonical_initialize:
  assumes "data_initialize d i n gs owned = Inr (r, d')" and c: "canonical_machine d"
  shows "canonical_machine d'"
proof -
  have "canonical_data shard_data_default"
    by (simp add: canonical_data_def shard_data_default_def bt_sorted_def)
  moreover have "set (fold (\<lambda>s m. bt_insert s v m) ks m) \<subseteq> (\<lambda>s. (s, v)) ` set ks \<union> set m" for v :: shard and ks m
  proof (induction ks arbitrary: m)
    case (Cons k ks)
    then show ?case
      using set_bt_insert_subset [of k v m] by (fastforce dest: subsetD [OF Cons])
  qed simp
  ultimately show ?thesis
    using assms unfolding canonical_machine_def
    by (fastforce simp: data_initialize_def Let_def active_one_def split: if_splits)
qed

lemma execute_canonical:
  assumes "data_execute F d i cmd = Inr (r, d')" and "canonical_machine d" and "parses_canonical F"
  shows "canonical_machine d'"
proof -
  have "data_dispatch F d i \<lparr>o_group = d_group d, o_index = i\<rparr> cmd = Inr (r, d')"
    using assms(1) by (auto simp: data_execute_def split: if_splits)
  then show ?thesis
    using assms(2,3)
    by (cases cmd) (auto dest: canonical_initialize canonical_register canonical_close canonical_mutate canonical_transfer_ops
        canonical_finish canonical_abort)
qed

section \<open>Committed entries\<close>

text \<open>The entries a group commits: commands, and entries that only move the watermark.\<close>

datatype data_entry = EntryCommand data_command | EntryOther

fun data_entry_apply :: "data_format \<Rightarrow> data_entry \<Rightarrow> data_machine \<Rightarrow> data_machine fallible" where
  "data_entry_apply F (EntryCommand cmd) d = rbind (data_apply F d (Suc (d_applied d)) cmd) (\<lambda>(r, d'). Inr d')"
| "data_entry_apply F EntryOther d = data_advance d (Suc (d_applied d))"

fun data_replay :: "data_format \<Rightarrow> data_entry list \<Rightarrow> data_machine \<Rightarrow> data_machine fallible" where
  "data_replay F [] d = Inr d"
| "data_replay F (x # xs) d = rbind (data_entry_apply F x d) (data_replay F xs)"

lemma execute_applied:
  assumes "data_execute F d i cmd = Inr (r, d')"
  shows "d_applied d' = d_applied d"
proof -
  have "d_applied (back_out s previous d) = d_applied d" for s previous
    by (simp add: back_out_def split: option.splits)
  then have abort: "abort_source d m = Inr d1 \<Longrightarrow> d_applied d1 = d_applied d" "abort_destination d m = Inr d1 \<Longrightarrow> d_applied d1 = d_applied d" for m d1
    by (auto simp: abort_source_def abort_destination_def rbind_def ok_or_def split: if_splits option.splits sum.splits slot.splits)
  have "data_dispatch F d i \<lparr>o_group = d_group d, o_index = i\<rparr> cmd = Inr (r, d')"
    using assms by (auto simp: data_execute_def split: if_splits)
  then show ?thesis
    by (cases cmd) (auto dest: abort simp: data_initialize_def data_register_def data_close_def data_mutate_def data_fence_def data_begin_install_def begin_fresh_def
        data_chunk_def data_reset_install_def data_finish_install_def data_activate_def data_cleanup_def abort_transfer_def rbind_def ok_or_def
        canonical_bytes_def Let_def split: if_splits option.splits sum.splits slot.splits)
qed

lemma entry_validates:
  assumes F: "prints_watermark F" "parses_canonical F" and v: "data_validate F d" and c: "canonical_machine d" and max: "d_applied d < u64_max"
  shows "\<exists>d'. data_entry_apply F x d = Inr d' \<and> data_validate F d' \<and> canonical_machine d' \<and> d_applied d' = Suc (d_applied d)"
proof -
  let ?i = "Suc (d_applied d)" and ?d = "d\<lparr>d_applied := Suc (d_applied d)\<rparr>"
  have adv: "data_validate F ?d" "canonical_machine ?d"
    using advance_validates [OF v F(1), of ?i] max c by (auto simp: canonical_machine_def)
  have next_ok: "checked_add (d_applied d) 1 = Some ?i"
    using max by simp
  show ?thesis
  proof (cases x)
    case (EntryCommand cmd)
    have a: "data_apply F d ?i cmd = Inr (case rbind (data_execute F ?d ?i cmd)
        (\<lambda>(reply, d'). if data_validate F d' then Inr (reply, d') else Inl Capacity) of
          Inl e \<Rightarrow> (Inl e, ?d) | Inr (reply, d') \<Rightarrow> (Inr reply, d'))"
      using register_never_panics [OF v c] next_ok by (simp add: data_apply_def)
    show ?thesis
    proof (cases "data_execute F ?d ?i cmd")
      case (Inl e)
      then show ?thesis using a adv by (simp add: EntryCommand)
    next
      case (Inr y)
      obtain r d' where y: "y = (r, d')" by fastforce
      show ?thesis
        using a adv execute_canonical [of F ?d ?i cmd r d'] execute_applied [of F ?d ?i cmd r d'] F(2) Inr y
        by (cases "data_validate F d'") (auto simp: EntryCommand)
    qed
  next
    case EntryOther
    then show ?thesis
      using adv next_ok by (simp add: data_advance_def)
  qed
qed

lemma replay_validates:
  assumes F: "prints_watermark F" "parses_canonical F" and v: "data_validate F d" and c: "canonical_machine d"
    and max: "d_applied d + length xs \<le> u64_max"
  shows "\<exists>d'. data_replay F xs d = Inr d' \<and> data_validate F d' \<and> d_applied d' = d_applied d + length xs"
  using v c max
proof (induction xs arbitrary: d)
  case (Cons x xs)
  then obtain d1 where d1: "data_entry_apply F x d = Inr d1" "data_validate F d1" "canonical_machine d1" "d_applied d1 = Suc (d_applied d)"
    using entry_validates [OF F, of d x] by auto
  then show ?case
    using Cons.IH [OF d1(2,3)] Cons.prems(3) by simp
qed simp

end
