(* ===== verification/Shard_Safety.thy ===== *)
theory Shard_Safety
  imports Shard_Invariant Shard_Valid
begin

text \<open>
  The properties of the shard service.  The sample runs drive the service the way its coordinator
  does, each action with fresh checked reads, and show that a whole handoff is possible.
\<close>

section \<open>Driving the service\<close>

text \<open>One action: read what it needs, prepare it, and commit it at the next index of its group.\<close>

primrec read_all :: "shard_format \<Rightarrow> (group_id \<times> query) list \<Rightarrow> system \<Rightarrow> system" where
  "read_all X [] S = S"
| "read_all X (p # qs) S =
     (let S' = read_all X qs S in
      case machine_query X (machine_at S' (fst p)) (snd p) of
        Inl _ \<Rightarrow> S'
      | Inr x \<Rightarrow> S'\<lparr>seen := insert (fst p, snd p, x) (seen S')\<rparr>)"

definition fresh_answers :: "shard_format \<Rightarrow> (group_id \<times> query) list \<Rightarrow> system \<Rightarrow> service_env" where
  "fresh_answers X qs S =
     \<lparr>e_checked = (\<lambda>g q. if (g, q) \<in> set qs
        then (case machine_query X (machine_at S g) q of Inl e \<Rightarrow> Inl (Rejected e) | Inr x \<Rightarrow> Inr x) else Inl UnknownOutcome),
      e_members = (\<lambda>_. Inl UnknownOutcome), e_endpoints = (\<lambda>_ _ _. Inl UnknownOutcome)\<rparr>"

lemma read_all_parts [simp]: "ctl (read_all X qs S) = ctl S" "grp (read_all X qs S) = grp S"
  by (induction qs) (auto simp: Let_def split: sum.splits)

lemma read_all_machine [simp]: "machine_at (read_all X qs S) g = machine_at S g"
  by (simp add: machine_at_def)

lemma read_all_seen: "(g, q) \<in> set qs \<Longrightarrow> machine_query X (machine_at S g) q = Inr x \<Longrightarrow> (g, q, x) \<in> seen (read_all X qs S)"
  by (induction qs) (auto simp: Let_def split: sum.splits)

lemma read_all_steps: "(system_step T X)\<^sup>*\<^sup>* S (read_all X qs S)"
proof (induction qs)
  case (Cons p qs)
  then show ?case
    by (auto simp: Let_def split: sum.splits intro!: rtranclp.rtrancl_into_rtrancl [OF Cons] step_read)
qed simp

text \<open>A state of the machines of the controller and two data groups, and the actions on it.\<close>

type_synonym machines = "controller \<times> data_machine \<times> data_machine"

fun as_system :: "machines \<Rightarrow> system" where
  "as_system (c, d1, d2) = \<lparr>ctl = c, grp = fresh_data(1 := d1, 2 := d2), seen = {}, pool = {}\<rparr>"

definition act_on :: "topology \<Rightarrow> shard_format \<Rightarrow> (group_id \<times> query) list \<times> group_id \<times> action \<Rightarrow> machines \<Rightarrow> machines option" where
  "act_on T X = (\<lambda>(qs, g, act) ms.
     case service_prepare T (fresh_answers X qs (as_system ms)) g act of
       Inl _ \<Rightarrow> None
     | Inr oper \<Rightarrow>
         (case machine_operation X (machine_at (as_system ms) g) (Suc (machine_applied (machine_at (as_system ms) g))) oper of
            Inl _ \<Rightarrow> None
          | Inr (reply, m) \<Rightarrow>
              (case (ms, m) of
                 ((c, d1, d2), MController c') \<Rightarrow> Some (c', d1, d2)
               | ((c, d1, d2), MData d) \<Rightarrow> if g = 1 then Some (c, d, d2) else if g = 2 then Some (c, d1, d) else None)))"

fun act_all :: "topology \<Rightarrow> shard_format \<Rightarrow> ((group_id \<times> query) list \<times> group_id \<times> action) list \<Rightarrow> machines \<Rightarrow> machines option" where
  "act_all T X [] ms = Some ms"
| "act_all T X (a # as) ms = Option.bind (act_on T X a ms) (act_all T X as)"

definition represents :: "topology \<Rightarrow> shard_format \<Rightarrow> machines \<Rightarrow> bool" where
  "represents T X ms \<longleftrightarrow> (\<exists>S. reachable_system T X S \<and> ctl S = ctl (as_system ms) \<and> grp S = grp (as_system ms))"

lemma act_on_represents:
  assumes "represents T X ms" and a: "act_on T X a ms = Some ms'"
  shows "represents T X ms'"
proof -
  obtain qs g act where a_eq: "a = (qs, g, act)" by (cases a) auto
  obtain c d1 d2 where ms: "ms = (c, d1, d2)" by (cases ms) auto
  from assms(1) obtain S where S: "reachable_system T X S" "ctl S = c" "grp S = fresh_data(1 := d1, 2 := d2)"
    by (auto simp: represents_def ms)
  have at: "machine_at (as_system ms) h = machine_at S h" for h
    by (simp add: machine_at_def ms S)
  let ?v = "fresh_answers X qs (as_system ms)" and ?S1 = "read_all X qs S"
  obtain oper reply m where p: "service_prepare T ?v g act = Inr oper"
    and m: "machine_operation X (machine_at S g) (Suc (machine_applied (machine_at S g))) oper = Inr (reply, m)"
    and ms': "(case (ms, m) of ((c, d1, d2), MController c') \<Rightarrow> Some (c', d1, d2)
               | ((c, d1, d2), MData d) \<Rightarrow> if g = 1 then Some (c, d, d2) else if g = 2 then Some (c, d1, d) else None) = Some ms'"
    using a by (auto simp: act_on_def a_eq at split: sum.splits)
  have "answered ?S1 ?v"
    by (auto simp: answered_def fresh_answers_def at intro: read_all_seen split: if_splits sum.splits)
  then have "system_step T X ?S1 (?S1\<lparr>pool := insert (g, oper) (pool ?S1)\<rparr>)" (is "system_step T X _ ?S2")
    using p by (rule step_prepare)
  moreover have at1: "machine_at ?S2 g = machine_at S g"
    by (simp add: machine_at_def)
  have "system_step T X ?S2 (put_machine g m ?S2)"
    by (rule step_commit [OF _ m [folded at1]]) simp
  ultimately have "reachable_system T X (put_machine g m ?S2)"
    using S(1) read_all_steps [of T X S qs] unfolding reachable_system_def by (meson rtranclp.rtrancl_into_rtrancl rtranclp_trans)
  moreover have "ctl (put_machine g m ?S2) = ctl (as_system ms') \<and> grp (put_machine g m ?S2) = grp (as_system ms')"
    using ms' by (cases m) (auto simp: ms put_machine_def S split: if_splits)
  ultimately show ?thesis unfolding represents_def by blast
qed

lemma act_all_represents: "represents T X ms \<Longrightarrow> act_all T X as ms = Some ms' \<Longrightarrow> represents T X ms'"
  by (induction "as" arbitrary: ms) (auto simp: bind_eq_Some_conv dest: act_on_represents)

definition first_machines :: machines where
  "first_machines = (controller_default, fresh_data 1, fresh_data 2)"

lemma first_represents: "represents T X first_machines"
proof -
  have "fresh_data(1 := fresh_data 1, 2 := fresh_data 2) = fresh_data" by auto
  then show ?thesis
    by (auto simp: represents_def first_machines_def reachable_system_def first_system_def intro!: exI [of _ first_system])
qed

section \<open>A sample handoff\<close>

definition sample_move :: movement where
  "sample_move = \<lparr>mv_id = \<lparr>ti_shard = 0, ti_epoch = 2, ti_index = 2\<rparr>, mv_source = 1, mv_destination = 2, mv_previous = 1\<rparr>"

definition sample_data_format :: data_format where
  "sample_data_format =
     \<lparr>f_sha = (\<lambda>_. replicate 8 0), f_image = (\<lambda>_. Some [1]),
      f_parse_image = (\<lambda>_. Some \<lparr>si_version = 1, si_identity = sample_move, si_fence = \<lparr>o_group = 1, o_index = 2\<rparr>,
         si_count = 1, si_data = shard_data_default\<rparr>),
      f_value = (\<lambda>_. Some []), f_parse_value = (\<lambda>_. Some None), f_abort = (\<lambda>_. Some []),
      f_machine = (\<lambda>d. Some (replicate (length (decimal (d_applied d))) 0))\<rparr>"

definition sample_shard_format :: shard_format where
  "sample_shard_format =
     \<lparr>x_data = sample_data_format,
      x_controller = \<lparr>g_operation = (\<lambda>_. Some []), g_completion = (\<lambda>_. Some []), g_controller = (\<lambda>_. Some [])\<rparr>,
      x_envelope = (\<lambda>_. Some []), x_parse_envelope = (\<lambda>_. None), x_command = (\<lambda>_. Some [])\<rparr>"

definition sample_shard_topology :: topology where
  "sample_shard_topology = \<lparr>t_groups = [1, 2], t_owners = [1]\<rparr>"

text \<open>The proofs the handoff collects, and the machines on the way.\<close>

definition sample_image :: image_proof where
  "sample_image =
     \<lparr>im_movement = sample_move, im_fence = \<lparr>o_group = 1, o_index = 2\<rparr>, im_bytes = 1, im_sha256 = replicate 8 0,
      im_retention = \<lparr>rt_sessions = 0, rt_retry_keys = 0, rt_payload_bytes = 0\<rparr>\<rparr>"

definition sample_installation :: installed_proof where
  "sample_installation = \<lparr>ip_image = sample_image, ip_installed = \<lparr>o_group = 2, o_index = 4\<rparr>\<rparr>"

definition sample_ownership :: ownership_proof where
  "sample_ownership = \<lparr>op_installation = sample_installation, op_controller = \<lparr>o_group = 0, o_index = 5\<rparr>\<rparr>"

definition sample_activation :: activation_proof where
  "sample_activation = \<lparr>ap_ownership = sample_ownership, ap_activated = \<lparr>o_group = 2, o_index = 5\<rparr>\<rparr>"

definition sample_controller :: "nat \<Rightarrow> route \<Rightarrow> (string, transfer) btree \<Rightarrow> controller" where
  "sample_controller i r ts =
     \<lparr>c_applied = i, c_initialized = Some \<lparr>o_group = 0, o_index = 1\<rparr>, c_groups = [1, 2], c_routes = [r],
      c_transfers = ts, c_maintenance = []\<rparr>"

definition sample_route :: "nat \<Rightarrow> group_id \<Rightarrow> transfer_id option \<Rightarrow> route" where
  "sample_route e g t = \<lparr>ro_shard = 0, ro_epoch = e, ro_owner = g, ro_transfer = t\<rparr>"

definition moving_controller :: "nat \<Rightarrow> nat \<Rightarrow> group_id \<Rightarrow> phase \<Rightarrow> controller" where
  "moving_controller i e g p =
     sample_controller i (sample_route e g (Some (mv_id sample_move)))
       [(''m'', \<lparr>tr_request = ''m'', tr_movement = sample_move, tr_phase = p\<rparr>)]"

definition sample_group :: "group_id \<Rightarrow> nat \<Rightarrow> (shard_id, shard) btree \<Rightarrow> data_machine" where
  "sample_group g i shards =
     \<lparr>d_group = g, d_applied = i, d_initialized = Some \<lparr>o_group = g, o_index = 1\<rparr>, d_count = 1, d_groups = [1, 2],
      d_shards = shards, d_aborted = []\<rparr>"

definition sample_shard :: "slot \<Rightarrow> shard_data option \<Rightarrow> (shard_id, shard) btree" where
  "sample_shard sl x = [(0, \<lparr>sh_slot = sl, sh_data = x\<rparr>)]"

abbreviation sample_acts :: "(group_id \<times> query) list \<Rightarrow> group_id \<Rightarrow> action \<Rightarrow> machines \<Rightarrow> machines option" where
  "sample_acts qs g act \<equiv> act_on sample_shard_topology sample_shard_format (qs, g, act)"

lemmas sample_proofs = sample_move_def sample_image_def sample_installation_def sample_ownership_def sample_activation_def

lemmas sample_states = sample_controller_def sample_route_def moving_controller_def sample_group_def sample_shard_def
  sample_shard_topology_def sample_shard_format_def sample_data_format_def shard_data_default_def

lemmas service_eval = act_on_def fresh_answers_def machine_at_def service_prepare_def prepare_bootstrap_def
  prepare_begin_move_def prepare_advance_def advance_step_def expect_view_def prepare_record_fence_def
  prepare_pull_chunk_def prepare_record_installed_def service_transfer_def service_shard_def endpoint_ready_def
  owned_shards_def control_op_def data_op_def controller_query_def data_query_def route_at_def data_export_def

lemmas machine_eval = data_apply_def data_execute_def is_initialize_def register_panics_def fenced_off_def
  data_initialize_def data_fence_def data_begin_install_def begin_fresh_def data_chunk_def data_finish_install_def
  data_activate_def put_shard_def image_body_def data_active_def active_one_def data_retention_def
  ctl_apply_def ctl_execute_def ctl_initialize_def ctl_begin_def ctl_advance_transfer_def ctl_own_def
  phase_fenced_def phase_installed_def find_transfer_def set_route_def overlaps_def first_routes_def
  active_maintenance_def pending_transfer_def maintenance_generation_def check_capacity_def as_reply_def

lemmas valid_eval = data_validate_def config_valid_def shard_valid_def slot_valid_def contents_valid_def frozen_valid_def
  usage_valid_def shard_usage_def shard_reserve_def reserved_bytes_def movement_valid_def movement_ok_def
  transfer_id_valid_def image_valid_def installed_valid_def ownership_valid_def activation_valid_def
  retention_valid_def origin_valid_def ascending_def preparing_def bt_contains_def canonical_bytes_def
  shard_bounds decimal_length_max

lemma decimal_small [simp]: "n < 10 \<Longrightarrow> length (decimal n) = 1"
  by (simp add: decimal.simps)

lemma small_counter [simp]: "n \<le> 1000 \<Longrightarrow> n \<le> u64_max"
  by (simp add: u64_max_def)

lemmas sample_eval = sample_proofs sample_states service_eval machine_eval valid_eval rbind_def ok_or_def Let_def

abbreviation ctl_config :: "group_id \<times> query" where "ctl_config \<equiv> (0, QConfiguration)"
abbreviation ctl_move :: "group_id \<times> query" where "ctl_move \<equiv> (0, QTransfer ''m'')"
abbreviation source_view :: "group_id \<times> query" where "source_view \<equiv> (1, QShard 0)"
abbreviation target_view :: "group_id \<times> query" where "target_view \<equiv> (2, QShard 0)"
abbreviation ctl_idle :: controller where "ctl_idle \<equiv> sample_controller 1 (sample_route 1 1 None) []"
abbreviation source_active :: data_machine where
  "source_active \<equiv> sample_group 1 1 (sample_shard (Active 1 None) (Some shard_data_default))"
abbreviation source_fenced :: data_machine where
  "source_fenced \<equiv> sample_group 1 2 (sample_shard (Fenced sample_image None) (Some shard_data_default))"
abbreviation target_empty :: data_machine where "target_empty \<equiv> sample_group 2 1 []"
abbreviation target_installing :: "nat \<Rightarrow> byte list \<Rightarrow> data_machine" where
  "target_installing i bs \<equiv> sample_group 2 i (sample_shard (Installing sample_image bs None) None)"
abbreviation target_installed :: data_machine where
  "target_installed \<equiv> sample_group 2 4 (sample_shard (Installed sample_installation None) (Some shard_data_default))"
abbreviation target_active :: data_machine where
  "target_active \<equiv> sample_group 2 5 (sample_shard (Active 2 (Some sample_activation)) (Some shard_data_default))"

lemma boot_controller: "sample_acts [] 0 ABootstrap first_machines = Some (ctl_idle, fresh_data 1, fresh_data 2)"
  by (simp add: sample_eval first_machines_def controller_default_def)

lemma boot_source:
  "sample_acts [ctl_config] 1 ABootstrap (ctl_idle, fresh_data 1, fresh_data 2) = Some (ctl_idle, source_active, fresh_data 2)"
  by (simp add: sample_eval fresh_data_def)

lemma boot_target:
  "sample_acts [ctl_config] 2 ABootstrap (ctl_idle, source_active, fresh_data 2) = Some (ctl_idle, source_active, target_empty)"
  by (simp add: sample_eval fresh_data_def)

lemma move_begins:
  "sample_acts [ctl_move, (0, QMaintenanceGate), (0, QRoute 0), (1, QConfiguration), (2, QConfiguration)] 0 (ABeginMove ''m'' 0 1 2)
     (ctl_idle, source_active, target_empty) = Some (moving_controller 2 1 1 PStarted, source_active, target_empty)"
  by (simp add: sample_eval checked_add_def)

lemma move_fences:
  "sample_acts [ctl_move] 1 (AAdvance ''m'' SFence) (moving_controller 2 1 1 PStarted, source_active, target_empty) =
   Some (moving_controller 2 1 1 PStarted, source_fenced, target_empty)"
  by (simp add: sample_eval)

lemma move_records_fence:
  "sample_acts [ctl_move, source_view] 0 (AAdvance ''m'' SRecordFence) (moving_controller 2 1 1 PStarted, source_fenced, target_empty) =
   Some (moving_controller 3 1 1 (PFenced sample_image), source_fenced, target_empty)"
  by (simp add: sample_eval)

lemma move_begins_install:
  "sample_acts [ctl_move, source_view] 2 (AAdvance ''m'' SBeginInstall)
     (moving_controller 3 1 1 (PFenced sample_image), source_fenced, target_empty) =
   Some (moving_controller 3 1 1 (PFenced sample_image), source_fenced, target_installing 2 [])"
  by (simp add: sample_eval)

lemma move_pulls:
  "sample_acts [ctl_move, target_view, (1, QExport (mv_id sample_move) 0)] 2 (AAdvance ''m'' SPullChunk)
     (moving_controller 3 1 1 (PFenced sample_image), source_fenced, target_installing 2 []) =
   Some (moving_controller 3 1 1 (PFenced sample_image), source_fenced, target_installing 3 [1])"
  by (simp add: sample_eval checked_add_def)

lemma move_finishes_install:
  "sample_acts [ctl_move, source_view] 2 (AAdvance ''m'' SFinishInstall)
     (moving_controller 3 1 1 (PFenced sample_image), source_fenced, target_installing 3 [1]) =
   Some (moving_controller 3 1 1 (PFenced sample_image), source_fenced, target_installed)"
  by (simp add: sample_eval)

lemma move_records_installed:
  "sample_acts [ctl_move, target_view] 0 (AAdvance ''m'' SRecordInstalled)
     (moving_controller 3 1 1 (PFenced sample_image), source_fenced, target_installed) =
   Some (moving_controller 4 1 1 (PInstalled sample_installation), source_fenced, target_installed)"
  by (simp add: sample_eval)

lemma move_owns:
  "sample_acts [ctl_move, target_view] 0 (AAdvance ''m'' SOwn)
     (moving_controller 4 1 1 (PInstalled sample_installation), source_fenced, target_installed) =
   Some (moving_controller 5 2 2 (POwned sample_ownership), source_fenced, target_installed)"
  by (simp add: sample_eval)

lemma move_activates:
  "sample_acts [ctl_move] 2 (AAdvance ''m'' SActivate) (moving_controller 5 2 2 (POwned sample_ownership), source_fenced, target_installed) =
   Some (moving_controller 5 2 2 (POwned sample_ownership), source_fenced, target_active)"
  by (simp add: sample_eval)

lemmas sample_handoff_run = boot_controller boot_source boot_target move_begins move_fences move_records_fence move_begins_install
  move_pulls move_finishes_install move_records_installed move_owns move_activates

lemma sample_served: "represents sample_shard_topology sample_shard_format (ctl_idle, source_active, target_empty)"
  using first_represents sample_handoff_run(1-3) by (meson act_on_represents)

lemma sample_handed_over:
  "represents sample_shard_topology sample_shard_format (moving_controller 5 2 2 (POwned sample_ownership), source_fenced, target_active)"
  using sample_served sample_handoff_run(4-12) by (meson act_on_represents)

text \<open>A group that refuses a command, starts, and registers a session; the repetition gets the retained answer.\<close>

definition sample_entries :: "data_entry list" where
  "sample_entries =
     [EntryCommand (DRegister 0 1 ''n''), EntryCommand (DInitialize 1 [1, 2] [0]), EntryOther,
      EntryCommand (DRegister 0 1 ''n''), EntryCommand (DRegister 0 1 ''n'')]"

definition sample_shard_registered :: data_machine where
  "sample_shard_registered =
     (let og = \<lparr>o_group = 1, o_index = 4\<rparr>;
          rc = \<lparr>rc_origin = og, rc_shard = 0, rc_epoch = 1, rc_session = Some og, rc_sequence = None\<rparr>
      in (sample_group 1 5
           (sample_shard (Active 1 None)
              (Some \<lparr>sd_cells = [],
                 sd_sessions = [(''1:4'', \<lparr>ss_id = og, ss_nonce = ''n'', ss_registered = rc, ss_closed = None, ss_keys = []\<rparr>)],
                 sd_nonces = [(''n'', og)]\<rparr>)))
         \<lparr>d_initialized := Some \<lparr>o_group = 1, o_index = 2\<rparr>\<rparr>)"

lemma sample_key: "origin_key \<lparr>o_group = Suc 0, o_index = Suc (Suc (Suc (Suc 0)))\<rparr> = ''1:4''"
  by (simp add: origin_key_def decimal.simps char_of_def bit_iff_odd)

lemma sample_replayed: "data_replay sample_data_format sample_entries (fresh_data 1) = Inr sample_shard_registered"
  by (simp add: sample_entries_def sample_shard_registered_def sample_key fresh_data_def data_register_def put_data_def session_valid_def
      receipt_valid_def data_advance_def sample_eval)

lemma sample_session: "data_active sample_shard_registered 0 1 = Inr x \<Longrightarrow> length (sd_sessions x) = 1" "\<exists>x. data_active sample_shard_registered 0 1 = Inr x"
  by (auto simp: sample_shard_registered_def sample_group_def sample_shard_def data_active_def Let_def)

section \<open>Exclusive ownership\<close>

text \<open>
  C31.  A shard is served by one group at a time.  In every reachable state of the service,
  whatever old answers operations were prepared from and however late, often or never they were
  committed, a group that serves a shard at an epoch, for reads and for writes, is the owner the
  controller's route names, at the epoch of that route; so no two groups serve the same shard,
  and no group serves it at two epochs.
\<close>

theorem exclusive_ownership:
  assumes "reachable_system T X S" and "g \<noteq> CONTROLLER" and "g' \<noteq> CONTROLLER"
    and "data_active (grp S g) s e = Inr x" and "data_active (grp S g') s e' = Inr x'"
  shows "g = g' \<and> e = e' \<and>
    s < length (c_routes (ctl S)) \<and> ro_owner (c_routes (ctl S) ! s) = g \<and> ro_epoch (c_routes (ctl S) ! s) = e"
  using active_routed [OF assms(1,2,4)] active_routed [OF assms(1,3,5)] by (auto simp: route_of_def)

theorem exclusive_ownership_witness:
  "\<exists>S0 S x y. reachable_system sample_shard_topology sample_shard_format S0 \<and>
     reachable_system sample_shard_topology sample_shard_format S \<and>
     data_active (grp S0 1) 0 1 = Inr x \<and> ro_owner (c_routes (ctl S0) ! 0) = 1 \<and>
     data_active (grp S 1) 0 1 = Inl Unavailable \<and>
     data_active (grp S 2) 0 2 = Inr y \<and> ro_owner (c_routes (ctl S) ! 0) = 2 \<and> ro_epoch (c_routes (ctl S) ! 0) = 2"
proof -
  obtain S0 where S0: "reachable_system sample_shard_topology sample_shard_format S0"
    and d0: "grp S0 = fresh_data(1 := source_active, 2 := target_empty)"
    using sample_served by (auto simp: represents_def)
  obtain S where S: "reachable_system sample_shard_topology sample_shard_format S"
    and d: "grp S = fresh_data(1 := source_fenced, 2 := target_active)"
    using sample_handed_over by (auto simp: represents_def)
  have 0: "data_active (grp S0 1) 0 1 = Inr shard_data_default"
    by (simp add: d0 sample_group_def sample_shard_def data_active_def)
  have 1: "data_active (grp S 1) 0 1 = Inl Unavailable" "data_active (grp S 2) 0 2 = Inr shard_data_default"
    by (simp_all add: d sample_group_def sample_shard_def data_active_def)
  show ?thesis
    using S0 S 0 1 exclusive_ownership [OF S0 _ _ 0 0] exclusive_ownership [OF S _ _ 1(2) 1(2)]
    by (auto simp: CONTROLLER_def)
qed

section \<open>Valid data machines\<close>

text \<open>
  C32.  A data group never gets stuck on its log.  From the fresh machine of a group, any
  sequence of committed entries, refused commands and entries of other kinds included, is applied
  to the end: there is no application gap, no registration indexes a missing session, the
  watermark counts the entries, and the machine passes its own complete validation, so that its
  state, with the room reserved for the watermark, the aborts and the handoffs under way, fits the
  limit of a snapshot.  The printed machine is taken to contain its watermark in decimal and to
  be otherwise independent of it, and parsed images to have ordered maps.
\<close>

theorem data_always_valid:
  assumes "data_new g = Inr d" and "prints_watermark F" and "parses_canonical F" and "length xs \<le> u64_max"
  shows "\<exists>d'. data_replay F xs d = Inr d' \<and> data_validate F d' \<and> d_applied d' = length xs"
proof -
  have "data_validate F d" "canonical_machine d" "d_applied d = 0"
    using assms(1) by (auto simp: data_new_def data_validate_def canonical_machine_def split: if_splits)
  then show ?thesis using replay_validates [OF assms(2,3), of d xs] assms(4) by simp
qed

theorem data_always_valid_witness:
  "prints_watermark sample_data_format \<and> parses_canonical sample_data_format \<and> length sample_entries = 5 \<and>
   (\<exists>d'. data_replay sample_data_format sample_entries (fresh_data 1) = Inr d' \<and>
      data_validate sample_data_format d' \<and> d_applied d' = 5 \<and>
      (\<exists>x. data_active d' 0 1 = Inr x \<and> length (sd_sessions x) = 1))"
proof -
  have F: "prints_watermark sample_data_format" "parses_canonical sample_data_format"
    by (simp_all add: prints_watermark_def parses_canonical_def sample_data_format_def canonical_data_def
        shard_data_default_def bt_sorted_def)
  have n: "length sample_entries = 5" by (simp add: sample_entries_def)
  have "data_new 1 = Inr (fresh_data 1)" by (simp add: data_new_def fresh_data_def CONTROLLER_def)
  from data_always_valid [OF this F, of sample_entries] F n sample_replayed sample_session show ?thesis by auto
qed

end
