(* ===== verification/Spec2Isabelle.thy ===== *)
theory Spec2Isabelle
  imports Cluster Ordering Applied_Refines Shard_Safety
begin

text \<open>
  A verification library for \<^bold>\<open>micro-raft\<close>: a Raft consensus core, the replicated key-value application
  behind it, the storage engine that keeps the applied state, and the shard service that moves parts of the key
  space between Raft groups.  Paths below are relative to \<^verbatim>\<open>src/crates/\<close>.

  \<^bold>\<open>The program and its parts.\<close>  \<^verbatim>\<open>raft-core\<close> is a deterministic state machine: \<^verbatim>\<open>RaftNode::step\<close>
  takes one input (a tick, a message, a client proposal, a read, a snapshot callback) and returns the effects its
  driver has to execute in order: persist, send, apply, publish.  \<^verbatim>\<open>sim\<close> and \<^verbatim>\<open>kv-node\<close> drive it.  Committed
  entries reach \<^verbatim>\<open>kv-node/src/application.rs\<close>, which keeps values and client sessions.  \<^verbatim>\<open>applied_store.rs\<close>
  turns every entry into cells of \<^verbatim>\<open>state-store\<close>, a log-structured merge engine over checksummed files, and
  \<^verbatim>\<open>kv.rs\<close> publishes a group of entries to readers once the engine holds it.  \<^verbatim>\<open>shard-service\<close> runs one
  controller group and several data groups; a handoff is a chain of operations on three Raft logs, each prepared from
  checked reads of the others.

  \<^bold>\<open>Which theory models which file.\<close>
  \<^item> \<open>Prelude\<close>, \<open>Bytes\<close>: shared vocabulary (checked and saturating counters, \<^verbatim>\<open>BTreeMap\<close>, results, byte order, UTF-8).
  \<^item> \<open>Membership\<close>, \<open>Membership_Protocol\<close>: \<^verbatim>\<open>raft-core/src/membership.rs\<close> and \<^verbatim>\<open>membership_protocol.rs\<close>
    (quorums of stable and joint configurations, the administrative history, its replay, proposals, promotion fences).
  \<^item> \<open>Rng\<close>, \<open>Types\<close>, \<open>Node\<close>: \<^verbatim>\<open>rng.rs\<close>, the data types and the common part of \<^verbatim>\<open>lib.rs\<close>.
  \<^item> \<open>Snapshot\<close>, \<open>Replication\<close>, \<open>Election\<close>, \<open>Read\<close>: the handlers of the files of the same names.
  \<^item> \<open>Step\<close>: restart, ticks, message admission and dispatch, \<^verbatim>\<open>RaftNode::step\<close> (\<^verbatim>\<open>lib.rs\<close>).
  \<^item> \<open>Application\<close>, \<open>App_Snapshot\<close>: \<^verbatim>\<open>kv-node/src/application.rs\<close> (commands, sessions, retry records, undo
    transactions; export and import).
  \<^item> \<open>Cells\<close>, \<open>Applied_Store\<close>: \<^verbatim>\<open>kv-node/src/applied_store.rs\<close> and the publication in \<^verbatim>\<open>kv.rs\<close> (the cells of an
    entry and of a whole application, their decoding, the coalescing of a group, commit and installation).
  \<^item> \<open>Store_Codec\<close>, \<open>Bloom\<close>, \<open>Merge\<close>, \<open>Table\<close>, \<open>Lsm\<close>: \<^verbatim>\<open>state-store/src/\<close> \<^verbatim>\<open>lib.rs\<close> and
    \<^verbatim>\<open>codec.rs\<close>, \<^verbatim>\<open>bloom.rs\<close>, \<^verbatim>\<open>merge.rs\<close>, \<^verbatim>\<open>table.rs\<close>, \<^verbatim>\<open>lsm.rs\<close> and \<^verbatim>\<open>durable.rs\<close>.
  \<^item> \<open>Shard_Types\<close>, \<open>Shard_Data\<close>, \<open>Shard_Controller\<close>, \<open>Shard_Machine\<close>, \<open>Shard_Service\<close>: \<^verbatim>\<open>shard-service/src/\<close>
    \<^verbatim>\<open>types.rs\<close>, \<^verbatim>\<open>data.rs\<close>, \<^verbatim>\<open>controller.rs\<close>, \<^verbatim>\<open>machine.rs\<close> with \<^verbatim>\<open>query.rs\<close>, and the preparation of intents
    and the choice of the next handoff step in \<^verbatim>\<open>service.rs\<close>.

  \<^bold>\<open>What the other theories show.\<close>
  \<^item> \<open>Quiet\<close>, \<open>Contract\<close>, \<open>Transitions\<close>: what a handler may do to the protocol state, as a relation between the node
    before, the effects and the node after, proved once per handler; later theories get properties of \<open>step\<close> from it.
  \<^item> \<open>Votes\<close>, \<open>Cluster\<close>: votes are final and recorded; at most one leader per term in a cluster whose network delays,
    duplicates, reorders and loses messages and whose nodes crash and restart.
  \<^item> \<open>Quorum\<close>, \<open>History\<close>, \<open>Extension\<close>: validation of a configuration history is exact; consecutive configurations have
    intersecting quorums; a retired voter never returns.
  \<^item> \<open>Log\<close>, \<open>Sound\<close>, \<open>Publication\<close>, \<open>Recovery\<close>, \<open>Node_Safety\<close>: the invariant of one node over its whole life, absence of
    panics, committed entries are kept, restarting from the disk gives back the same protocol state.
  \<^item> \<open>Ordering\<close>: whatever a message says is on disk before it is sent; the audits of both drivers pass.
  \<^item> \<open>Sessions\<close>, \<open>App_Snapshot\<close>: no committed entry makes the application fail, session commands take effect at most
    once, uncommitted work is undone exactly, the import accepts exactly the legal states, and the snapshot of a
    reachable application comes back exactly when its keys and values are within the limits.
  \<^item> \<open>Store_Codec\<close>, \<open>Bloom\<close>, \<open>Merge\<close>, \<open>Table\<close>: the decoders invert the encoders and recognise torn tails; no false
    negatives; the merge yields the newest record of each key; an opened table is consistent.
  \<^item> \<open>Lsm_View\<close>: the abstract state of the engine, the newest record of each key over the memory table and the runs.
  \<^item> \<open>Lsm_Disk\<close>, \<open>Lsm_Steps\<close>: what the files mean to a restart, and \<open>outcome\<close>, a weakest-precondition calculus that
    carries a statement through the twelve points at which an operation may fail.
  \<^item> \<open>Lsm_Store\<close>, \<open>Lsm_Commit\<close>, \<open>Lsm_Reads\<close>: flush, compaction, commit, installation, replay of the log, point reads
    and scans, each against the abstract state.
  \<^item> \<open>Lsm_Refines\<close>: the locale \<open>state_store\<close> is the contract of the trait \<^verbatim>\<open>StateStore\<close>; the engine interprets it.
    Commits are atomic under crashes, reads are exact, maintenance is invisible and terminates, every store reopens.
  \<^item> \<open>Cells_Read\<close>, \<open>Apply_Group\<close>, \<open>Applied_Refines\<close>: the cells written entry by entry are the cells of the whole
    application, decoding gives it back, an accepted batch fits the engine, and the publication of a group is atomic
    for readers and for the store, on the interpretation of \<open>state_store\<close> by the engine.
  \<^item> \<open>Shard_Moves\<close>: what each command may do to a slot, to the phase of a transfer and to a route.
  \<^item> \<open>Shard_System\<close>, \<open>Shard_Ownership\<close>, \<open>Shard_Invariant\<close>: the service as a transition system in which answers
    stay usable for ever and prepared operations are committed late, repeatedly or never; the facts that stay true
    behind every answer and every prepared operation; the invariant that ties slots, transfers and routes together.
  \<^item> \<open>Shard_Valid\<close>, \<open>Shard_Safety\<close>: a data machine passes its own validation after any log; a shard is served by one
    group at a time; a sample run of a complete handoff.

  \<^bold>\<open>Conventions.\<close>  \<^verbatim>\<open>u64\<close> and \<^verbatim>\<open>usize\<close> counters are natural numbers, with the checked and saturating operations
  of the sources written out; the hashes and the random numbers, where wrap-around is the point, are machine words.
  A \<^verbatim>\<open>BTreeMap\<close> is an association list sorted by key, a \<^verbatim>\<open>BTreeSet\<close> a set iterated in order, a \<^verbatim>\<open>String\<close> its UTF-8
  bytes.  \<open>None\<close> as the outcome of an action of the core is a panic; \<open>Inl\<close> is the error of a \<^verbatim>\<open>Result\<close>.
  \<^verbatim>\<open>partition_point\<close>, \<^verbatim>\<open>binary_search\<close> and \<^verbatim>\<open>BinaryHeap\<close> are modelled by their documented meaning.  Fields that only
  tests read and debug assertions are left out.  All functions are total; loops that are not structural have a
  termination proof, so no fuel is used anywhere.

  \<^bold>\<open>Parameters.\<close>  SHA-256 is an argument (a theorem that needs it assumes digests of 32 bytes); so are the JSON encodings
  of a manifest and of a table index, with the hypothesis that parsing inverts printing, and the JSON of
  application cells, of shard images and of the measured states of the shard service.  The engine's file system is
  the contents of its files; failures are those the source injects at its twelve boundaries, and a torn log tail.
  Snapshot publication is serialised with the inputs of a node, as the drivers do it (\<open>settle\<close>); an image a leader sends
  is \<open>installable\<close>, which means well formed and not in conflict with what the node has committed.
  In the shard service each group is the machine its Raft log drives; checked reads, the membership view and the
  endpoint validation of the route registry are \<open>service_env\<close>, whose answers a step of the system constrains only by
  having been given by the machines at some earlier time.  Maintenance commands may be proposed at any time there.

  \<^bold>\<open>Not modelled.\<close>  Sockets, HTTP, threads, timers and process control (\<^verbatim>\<open>kv-node\<close>: \<^verbatim>\<open>transport.rs\<close>, most of
  \<^verbatim>\<open>driver.rs\<close>, \<^verbatim>\<open>http.rs\<close>): they are input and output around the modelled machines.  The redb engine: its logic is
  the redb crate's.  The file formats of \<^verbatim>\<open>kv-node/src/storage.rs\<close> and configuration parsing.  Of the shard service,
  \<^verbatim>\<open>Controller::validate\<close>, the runtime of a group, routing, network, snapshot files and the execution of maintenance.
  The first creation of a store directory is one step, so a creation interrupted half-way, which the source refuses to
  open, is not a state of \<open>store_life\<close>.  Of the engine's statistics only failure is modelled.  Failures of the JSON
  printers of application cells, which the source reports, cannot occur: the printers are total.  The simulator is
  modelled where it defines the meaning of effects (its disk and its audit).
\<close>

end
